(* ===== verification/SLS_Prelude.thy ===== *)
theory SLS_Prelude
  imports Main "HOL-Library.Word" "HOL-Library.AList" "HOL-Library.Sublist"
begin

text \<open>
  Shared vocabulary of the development: the outcome of Go code that may panic, Go's maps,
  64-bit integers, and the named collections of facts the component theories extend.
  Nothing here models a part of the repository; the theories that import this one do.
\<close>

named_theorems go_map \<open>lookup, update and delete of Go maps\<close>
named_theorems go_outcome \<open>evaluation of code that may panic\<close>

section \<open>Outcomes of code that may panic\<close>

text \<open>
  An index out of range, a nil dereference or an explicit call of \<^theory_text>\<open>panic\<close> ends the
  goroutine. Code that can do so returns a value of this type.
\<close>

datatype 'a go = Ret 'a | Panic

fun go_bind :: "'a go \<Rightarrow> ('a \<Rightarrow> 'b go) \<Rightarrow> 'b go" where
  "go_bind (Ret x) f = f x"
| "go_bind Panic f = Panic"

fun go_holds :: "('a \<Rightarrow> bool) \<Rightarrow> 'a go \<Rightarrow> bool" where
  "go_holds P (Ret x) = P x"
| "go_holds P Panic = False"

definition go_index :: "'a list \<Rightarrow> nat \<Rightarrow> 'a go" where
  "go_index xs i = (if i < length xs then Ret (xs ! i) else Panic)"

definition go_store :: "'a list \<Rightarrow> nat \<Rightarrow> 'a \<Rightarrow> 'a list go" where
  "go_store xs i x = (if i < length xs then Ret (xs[i := x]) else Panic)"

lemma go_bind_Ret_iff [go_outcome]:
  "go_bind m f = Ret y \<longleftrightarrow> (\<exists>x. m = Ret x \<and> f x = Ret y)"
  by (cases m) auto

lemma go_index_in [go_outcome, simp]: "i < length xs \<Longrightarrow> go_index xs i = Ret (xs ! i)"
  by (simp add: go_index_def)

lemma go_store_in [go_outcome, simp]: "i < length xs \<Longrightarrow> go_store xs i x = Ret (xs[i := x])"
  by (simp add: go_store_def)

lemma go_index_Ret_iff [go_outcome]: "go_index xs i = Ret x \<longleftrightarrow> i < length xs \<and> xs ! i = x"
  by (auto simp: go_index_def)

lemma go_store_Ret_iff [go_outcome]:
  "go_store xs i x = Ret ys \<longleftrightarrow> i < length xs \<and> ys = xs[i := x]"
  by (auto simp: go_store_def)

lemma go_holds_iff: "go_holds P m \<longleftrightarrow> (\<exists>x. m = Ret x \<and> P x)"
  by (cases m) auto

section \<open>Go maps\<close>

text \<open>
  A Go map is an association list with distinct keys. The order of the list is the order
  in which a \<^theory_text>\<open>range\<close> loop happens to visit the entries: Go leaves it open, so a
  statement about every list is a statement about every iteration order.
\<close>

type_synonym ('k, 'v) gomap = "('k \<times> 'v) list"

definition gm_get :: "('k, 'v) gomap \<Rightarrow> 'k \<Rightarrow> 'v option" where
  "gm_get m k = map_of m k"

definition gm_has :: "('k, 'v) gomap \<Rightarrow> 'k \<Rightarrow> bool" where
  "gm_has m k = (case map_of m k of None \<Rightarrow> False | Some _ \<Rightarrow> True)"

definition gm_set :: "('k, 'v) gomap \<Rightarrow> 'k \<Rightarrow> 'v \<Rightarrow> ('k, 'v) gomap" where
  "gm_set m k v = AList.update k v m"

definition gm_del :: "('k, 'v) gomap \<Rightarrow> 'k \<Rightarrow> ('k, 'v) gomap" where
  "gm_del m k = AList.delete k m"

definition gm_keys :: "('k, 'v) gomap \<Rightarrow> 'k list" where
  "gm_keys m = map fst m"

definition gm_values :: "('k, 'v) gomap \<Rightarrow> 'v list" where
  "gm_values m = map snd m"

definition gm_wf :: "('k, 'v) gomap \<Rightarrow> bool" where
  "gm_wf m = distinct (map fst m)"

lemma gm_get_empty [go_map, simp]: "gm_get [] k = None"
  by (simp add: gm_get_def)

lemma gm_get_set [go_map, simp]: "gm_get (gm_set m k v) k' = (if k' = k then Some v else gm_get m k')"
  by (simp add: gm_get_def gm_set_def update_conv')

lemma gm_get_del [go_map, simp]: "gm_get (gm_del m k) k' = (if k' = k then None else gm_get m k')"
  by (simp add: gm_get_def gm_del_def delete_conv')

lemma gm_has_iff [go_map]: "gm_has m k \<longleftrightarrow> gm_get m k \<noteq> None"
  by (simp add: gm_has_def gm_get_def split: option.splits)

lemma gm_wf_empty [go_map, simp]: "gm_wf []"
  by (simp add: gm_wf_def)

lemma gm_wf_set [go_map, simp]: "gm_wf m \<Longrightarrow> gm_wf (gm_set m k v)"
  by (simp add: gm_wf_def gm_set_def distinct_update)

lemma gm_wf_del [go_map, simp]: "gm_wf m \<Longrightarrow> gm_wf (gm_del m k)"
  by (simp add: gm_wf_def gm_del_def distinct_delete)

lemma gm_get_in: "gm_wf m \<Longrightarrow> (k, v) \<in> set m \<longleftrightarrow> gm_get m k = Some v"
  by (auto simp: gm_wf_def gm_get_def)

lemma gm_get_SomeD: "gm_get m k = Some v \<Longrightarrow> (k, v) \<in> set m"
  by (simp add: gm_get_def map_of_SomeD)

lemma set_gm_keys: "set (gm_keys m) = {k. gm_get m k \<noteq> None}"
  by (auto simp: gm_keys_def gm_get_def map_of_eq_None_iff)

lemma set_gm_values: "gm_wf m \<Longrightarrow> set (gm_values m) = {v. \<exists>k. gm_get m k = Some v}"
  by (force simp: gm_values_def image_iff simp flip: gm_get_in)

lemma gm_wf_distinct: "gm_wf m \<Longrightarrow> distinct m"
  by (simp add: gm_wf_def distinct_map)

lemma gm_ext_mset:
  assumes "gm_wf m" "gm_wf m'" "\<And>k. gm_get m k = gm_get m' k"
  shows "set m = set m'"
  using assms by (auto simp flip: gm_get_in) (simp_all add: gm_get_in)

section \<open>64-bit integers\<close>

text \<open>
  Go's \<^theory_text>\<open>int\<close> and \<^theory_text>\<open>int64\<close> are 64 bits wide on the platforms SLS runs on. A value is
  kept as an \<^typ>\<open>int\<close> in range, and an operation that can leave the range wraps its result.
\<close>

definition wrap64 :: "int \<Rightarrow> int" where
  "wrap64 x = (x + 2 ^ 63) mod 2 ^ 64 - 2 ^ 63"

definition int64_min :: int where "int64_min = - (2 ^ 63)"
definition int64_max :: int where "int64_max = 2 ^ 63 - 1"

definition in_int64 :: "int \<Rightarrow> bool" where
  "in_int64 x = (int64_min \<le> x \<and> x \<le> int64_max)"

lemma wrap64_id [simp]: "in_int64 x \<Longrightarrow> wrap64 x = x"
  by (simp add: in_int64_def wrap64_def int64_min_def int64_max_def)

lemma in_int64_wrap64 [simp]: "in_int64 (wrap64 x)"
proof -
  have "0 \<le> (x + 2 ^ 63) mod 2 ^ 64" "(x + 2 ^ 63) mod 2 ^ 64 < 2 ^ 64"
    by (auto intro: pos_mod_bound)
  then show ?thesis
    by (simp add: in_int64_def wrap64_def int64_min_def int64_max_def)
qed

lemma wrap64_word: "wrap64 x = sint (word_of_int x :: 64 word)"
  by (simp add: wrap64_def signed_of_int signed_take_bit_eq_take_bit_shift take_bit_eq_mod)

text \<open>Go's division truncates towards zero.\<close>

definition go_quot :: "int \<Rightarrow> int \<Rightarrow> int" where
  "go_quot a b = sgn a * sgn b * (\<bar>a\<bar> div \<bar>b\<bar>)"

lemma go_quot_nonneg: "0 \<le> a \<Longrightarrow> 0 < b \<Longrightarrow> go_quot a b = a div b"
  by (cases "a = 0") (auto simp: go_quot_def)

end
