(* ===== verification/Go_Path.thy ===== *)
theory Go_Path
  imports Go_Strings
begin

text \<open>
  Go's \<^verbatim>\<open>path/filepath\<close> for Unix, as far as the components use it: \<^verbatim>\<open>Clean\<close>, \<^verbatim>\<open>Join\<close>,
  \<^verbatim>\<open>IsAbs\<close> and \<^verbatim>\<open>Ext\<close>. A cleaned path is characterised by whether it is rooted and by
  its components; \<^verbatim>\<open>WithinPath\<close> (\<^verbatim>\<open>daemon/server/filesystem/path.go\<close>), the check behind every
  confinement of mounts, volumes and copies, is modelled here and shown to be the prefix
  order on components.
\<close>

section \<open>Cleaning\<close>

text \<open>The stack holds the components kept so far, the last one first.\<close>

fun clean_comps :: "bool \<Rightarrow> string list \<Rightarrow> string list \<Rightarrow> string list" where
  "clean_comps rooted st [] = rev st"
| "clean_comps rooted st (c # cs) =
     (if c = [] \<or> c = ''.'' then clean_comps rooted st cs
      else if c = ''..'' then
        (case st of
           [] \<Rightarrow> (if rooted then clean_comps rooted [] cs else clean_comps rooted [''..''] cs)
         | t # ts \<Rightarrow> (if t = ''..'' then clean_comps rooted (''..'' # st) cs
                     else clean_comps rooted ts cs))
      else clean_comps rooted (c # st) cs)"

definition is_abs :: "string \<Rightarrow> bool" where
  "is_abs p = has_prefix p ''/''"

definition path_comps :: "string \<Rightarrow> string list" where
  "path_comps p = clean_comps (is_abs p) [] (split_on CHR ''/'' p)"

definition show_path :: "bool \<Rightarrow> string list \<Rightarrow> string" where
  "show_path rooted cs =
     (if rooted then CHR ''/'' # join_with ''/'' cs
      else if cs = [] then ''.'' else join_with ''/'' cs)"

definition path_clean :: "string \<Rightarrow> string" where
  "path_clean p = show_path (is_abs p) (path_comps p)"

definition path_join :: "string list \<Rightarrow> string" where
  "path_join ps = (case filter (\<lambda>p. p \<noteq> []) ps of [] \<Rightarrow> [] | qs \<Rightarrow> path_clean (join_with ''/'' qs))"

text \<open>\<^verbatim>\<open>filepath.Abs\<close> of a path given the working directory, \<open>None\<close> where \<^verbatim>\<open>os.Getwd\<close> fails.\<close>

definition path_abs :: "string option \<Rightarrow> string \<Rightarrow> string option" where
  "path_abs wd p = (if is_abs p then Some (path_clean p)
     else (case wd of None \<Rightarrow> None | Some d \<Rightarrow> Some (path_join [d, p])))"

text \<open>The suffix from the last dot of the last component, or nothing.\<close>

definition path_ext :: "string \<Rightarrow> string" where
  "path_ext p = (let b = last (split_on CHR ''/'' p) in
     if CHR ''.'' \<in> set b then CHR ''.'' # last (split_on CHR ''.'' b) else [])"

subsection \<open>Cleaned components\<close>

definition plain_comp :: "string \<Rightarrow> bool" where
  "plain_comp c \<longleftrightarrow> c \<noteq> [] \<and> c \<noteq> ''.'' \<and> CHR ''/'' \<notin> set c"

text \<open>A rooted path has no \<open>..\<close> left; a relative one has them at the front only.\<close>

definition clean_list :: "bool \<Rightarrow> string list \<Rightarrow> bool" where
  "clean_list rooted cs \<longleftrightarrow> list_all plain_comp cs \<and>
     (if rooted then ''..'' \<notin> set cs else ''..'' \<notin> set (dropWhile (\<lambda>c. c = ''..'') cs))"

lemma clean_comps_rooted:
  assumes "list_all plain_comp st" "''..'' \<notin> set st" "\<forall>c \<in> set cs. CHR ''/'' \<notin> set c"
  shows "clean_list True (clean_comps True st cs)"
  using assms
proof (induction True st cs rule: clean_comps.induct)
  case (1 st)
  then show ?case by (simp add: clean_list_def list_all_iff)
next
  case (2 st c cs)
  then show ?case by (auto simp: plain_comp_def split: list.splits)
qed

lemma dropWhile_snoc_stack:
  "dropWhile P (rev (c # st)) = (if \<forall>x \<in> set st. P x then dropWhile P [c] else dropWhile P (rev st) @ [c])"
  by (auto simp: dropWhile_append)

lemma clean_list_pop: "clean_list False (rev (t # ts)) \<Longrightarrow> clean_list False (rev ts)"
proof (cases "\<forall>x \<in> set ts. x = ''..''")
  case True
  then have "dropWhile (\<lambda>c. c = ''..'') (rev ts) = []"
    by simp
  then have "''..'' \<notin> set (dropWhile (\<lambda>c. c = ''..'') (rev ts))"
    by (simp only: list.set empty_iff not_False_eq_True)
  moreover assume "clean_list False (rev (t # ts))"
  ultimately show "clean_list False (rev ts)"
    by (simp add: clean_list_def)
next
  case False
  then show "clean_list False (rev (t # ts)) \<Longrightarrow> clean_list False (rev ts)"
    by (auto simp: clean_list_def dropWhile_append split: if_splits)
qed

lemma clean_comps_rel:
  assumes "clean_list False (rev st)" "\<forall>c \<in> set cs. CHR ''/'' \<notin> set c"
  shows "clean_list False (clean_comps False st cs)"
  using assms
proof (induction False st cs rule: clean_comps.induct)
  case (1 st)
  then show ?case by simp
next
  case (2 st c cs)
  consider "c = [] \<or> c = ''.''" | "c = ''..''" "st = []" | t ts where "c = ''..''" "st = t # ts" "t = ''..''"
    | t ts where "c = ''..''" "st = t # ts" "t \<noteq> ''..''" | "c \<noteq> []" "c \<noteq> ''.''" "c \<noteq> ''..''"
    by (cases st) auto
  then show ?case
  proof cases
    case 1
    with 2 show ?thesis by auto
  next
    case 2
    with "2.hyps" "2.prems" show ?thesis by (auto simp: clean_list_def plain_comp_def)
  next
    case (3 t ts)
    have "\<forall>x \<in> set ts. x = ''..''"
      using "2.prems"(1) 3 by (auto simp: clean_list_def dropWhile_append split: if_splits)
    with 3 "2.hyps" "2.prems" show ?thesis
      by (auto simp: clean_list_def plain_comp_def dropWhile_append)
  next
    case (4 t ts)
    with "2.hyps" "2.prems" show ?thesis
      using clean_list_pop [of t ts] by simp
  next
    case 5
    with "2.hyps" "2.prems" show ?thesis
      by (auto simp: clean_list_def plain_comp_def dropWhile_append split: if_splits)
  qed
qed

lemma clean_list_path_comps: "clean_list (is_abs p) (path_comps p)"
proof -
  have "\<forall>c \<in> set (split_on CHR ''/'' p). CHR ''/'' \<notin> set c"
    using split_on_no_sep by blast
  moreover have "clean_list False []"
    by (simp add: clean_list_def)
  ultimately show ?thesis
    using clean_comps_rooted [of "[]"] clean_comps_rel [of "[]"]
    by (cases "is_abs p") (simp_all add: path_comps_def)
qed

lemma clean_comps_plain:
  "list_all plain_comp cs \<Longrightarrow> ''..'' \<notin> set cs \<Longrightarrow> clean_comps r st cs = rev st @ cs"
  by (induction cs arbitrary: st) (auto simp: plain_comp_def)

lemma clean_comps_empty_comps:
  "clean_comps r st (as @ [] # bs) = clean_comps r st (as @ bs)"
  by (induction r st as rule: clean_comps.induct) (auto split: list.splits)

lemma split_on_join_append:
  "split_on c (x @ c # y) = split_on c x @ split_on c y"
proof (induction x)
  case (Cons a x)
  then show ?case
    by (cases "split_on c x") auto
qed simp

lemma split_on_Cons_sep [simp]: "split_on c (c # y) = [] # split_on c y"
  by simp

definition rooted_list :: "string list \<Rightarrow> bool" where
  "rooted_list cs \<longleftrightarrow> list_all plain_comp cs \<and> ''..'' \<notin> set cs"

lemma rooted_list_path_comps: "is_abs p \<Longrightarrow> rooted_list (path_comps p)"
  using clean_list_path_comps [of p] by (simp add: clean_list_def rooted_list_def)

lemma is_abs_Cons [simp]: "is_abs (CHR ''/'' # s)"
  by (simp add: is_abs_def has_prefix_def)

lemma is_abs_iff: "is_abs p \<longleftrightarrow> (\<exists>s. p = CHR ''/'' # s)"
  by (auto simp: is_abs_def has_prefix_iff)

lemma rooted_list_slash: "rooted_list cs \<Longrightarrow> \<forall>c \<in> set cs. CHR ''/'' \<notin> set c"
  by (auto simp: rooted_list_def list_all_iff plain_comp_def)

lemma path_comps_show:
  assumes "rooted_list cs"
  shows "path_comps (show_path True cs) = cs"
proof (cases "cs = []")
  case True
  then show ?thesis by (simp add: path_comps_def show_path_def)
next
  case False
  then have "split_on CHR ''/'' (join_with ''/'' cs) = cs"
    using split_join rooted_list_slash [OF assms] by blast
  with assms show ?thesis
    by (simp add: path_comps_def show_path_def rooted_list_def clean_comps_plain)
qed

lemma is_abs_show [simp]: "is_abs (show_path True cs)"
  by (simp add: show_path_def)

lemma is_abs_clean [simp]: "is_abs p \<Longrightarrow> is_abs (path_clean p)"
  by (simp add: path_clean_def)

lemma path_comps_clean [simp]: "is_abs p \<Longrightarrow> path_comps (path_clean p) = path_comps p"
  by (simp add: path_clean_def path_comps_show rooted_list_path_comps)

lemma path_clean_idem: "is_abs p \<Longrightarrow> path_clean (path_clean p) = path_clean p"
  by (simp add: path_clean_def path_comps_show rooted_list_path_comps)

lemma path_clean_show: "rooted_list cs \<Longrightarrow> path_clean (show_path True cs) = show_path True cs"
  by (simp add: path_clean_def path_comps_show)

section \<open>Containment\<close>

definition within_path :: "string \<Rightarrow> string \<Rightarrow> bool" where
  "within_path path root =
     (let path = path_clean path; root = path_clean root in
      if path = root then True
      else
        (let root = (if \<not> has_suffix root ''/'' then root @ ''/'' else root)
         in has_prefix path root))"

lemma show_path_inj:
  "rooted_list as \<Longrightarrow> rooted_list bs \<Longrightarrow> show_path True as = show_path True bs \<longleftrightarrow> as = bs"
  using path_comps_show by metis

lemma show_path_suffix:
  assumes "rooted_list cs"
  shows "has_suffix (show_path True cs) ''/'' \<longleftrightarrow> cs = []"
proof (cases cs rule: rev_cases)
  case Nil
  then show ?thesis by (simp add: show_path_def has_suffix_def)
next
  case (snoc xs x)
  then have x: "x \<noteq> []" "CHR ''/'' \<notin> set x"
    using assms by (auto simp: rooted_list_def plain_comp_def)
  have "\<exists>u. join_with ''/'' (xs @ [x]) = u @ x"
    by (induction xs) (auto simp: join_with_Cons)
  then obtain u where "show_path True cs = CHR ''/'' # u @ x"
    using snoc by (auto simp: show_path_def)
  with x snoc show ?thesis
    by (cases x rule: rev_cases) (auto simp: has_suffix_def)
qed

lemma join_with_append:
  "as \<noteq> [] \<Longrightarrow> bs \<noteq> [] \<Longrightarrow> join_with sep (as @ bs) = join_with sep as @ sep @ join_with sep bs"
  by (induction sep as rule: join_with.induct) (auto simp: join_with_Cons)

lemma show_path_child_prefix:
  assumes "rooted_list rs" "rs \<noteq> []" "rooted_list ps"
  shows "has_prefix (show_path True ps) (show_path True rs @ ''/'') \<longleftrightarrow> (\<exists>qs. qs \<noteq> [] \<and> ps = rs @ qs)"
proof
  assume "has_prefix (show_path True ps) (show_path True rs @ ''/'')"
  then obtain u where u: "join_with ''/'' ps = join_with ''/'' rs @ CHR ''/'' # u"
    by (auto simp: has_prefix_iff show_path_def)
  then have "ps \<noteq> []" by auto
  then have "ps = split_on CHR ''/'' (join_with ''/'' ps)"
    using split_join rooted_list_slash [OF assms(3)] by metis
  also have "\<dots> = rs @ split_on CHR ''/'' u"
    using u split_join rooted_list_slash [OF assms(1)] assms(2)
    by (simp add: split_on_join_append)
  finally show "\<exists>qs. qs \<noteq> [] \<and> ps = rs @ qs"
    by (metis split_on_not_Nil)
next
  assume "\<exists>qs. qs \<noteq> [] \<and> ps = rs @ qs"
  then obtain qs where q: "qs \<noteq> []" "ps = rs @ qs" by blast
  have "join_with ''/'' (rs @ qs) = join_with ''/'' rs @ ''/'' @ join_with ''/'' qs"
    using join_with_append [OF assms(2) q(1)] by blast
  with q show "has_prefix (show_path True ps) (show_path True rs @ ''/'')"
    by (auto simp: has_prefix_iff show_path_def)
qed

text \<open>For absolute paths the check is the prefix order on the resolved components.\<close>

lemma within_path_prefix:
  assumes "is_abs p" "is_abs r"
  shows "within_path p r \<longleftrightarrow> prefix (path_comps r) (path_comps p)"
proof -
  let ?p = "path_comps p" and ?r = "path_comps r"
  have rl: "rooted_list ?p" "rooted_list ?r"
    using assms by (auto intro: rooted_list_path_comps)
  show ?thesis
  proof (cases "?r = []")
    case True
    with assms rl show ?thesis
      by (simp add: within_path_def path_clean_def show_path_suffix Let_def)
         (simp add: show_path_def has_prefix_iff)
  next
    case False
    with assms rl show ?thesis
      by (auto simp: within_path_def path_clean_def show_path_suffix Let_def show_path_inj
          show_path_child_prefix prefix_def)
  qed
qed

section \<open>Joining\<close>

lemma clean_comps_append:
  "clean_comps True st (as @ bs) = clean_comps True (rev (clean_comps True st as)) bs"
  by (induction True st as rule: clean_comps.induct) (auto split: list.splits)

lemma path_comps_join2:
  assumes "is_abs r" "q \<noteq> []"
  shows "path_comps (path_join [r, q]) = clean_comps True (rev (path_comps r)) (split_on CHR ''/'' q)"
proof -
  from assms(1) have r: "r \<noteq> []" by (auto simp: is_abs_iff)
  have abs: "is_abs (r @ CHR ''/'' # q)"
    using assms(1) by (auto simp: is_abs_iff)
  with assms r show ?thesis
    by (simp add: path_join_def) (simp add: path_comps_def split_on_join_append clean_comps_append)
qed

lemma clean_comps_split_show:
  assumes "rooted_list cs"
  shows "clean_comps True st (split_on CHR ''/'' (show_path r cs)) = rev st @ cs"
proof (cases "cs = []")
  case True
  then show ?thesis by (simp add: show_path_def)
next
  case False
  then have "split_on CHR ''/'' (join_with ''/'' cs) = cs"
    using split_join rooted_list_slash [OF assms] by blast
  with False assms show ?thesis
    by (simp add: show_path_def rooted_list_def clean_comps_plain)
qed

lemma show_path_not_Nil: "list_all plain_comp cs \<Longrightarrow> show_path r cs \<noteq> []"
proof (cases cs)
  case (Cons c ds)
  moreover assume "list_all plain_comp cs"
  ultimately show ?thesis
    by (cases ds) (simp_all add: show_path_def plain_comp_def)
qed (simp add: show_path_def)

text \<open>Joining a cleaned path that does not climb is appending its components.\<close>

lemma path_comps_join_clean:
  assumes "is_abs r" "rooted_list (path_comps q)"
  shows "path_comps (path_join [r, path_clean q]) = path_comps r @ path_comps q"
proof -
  have "path_clean q \<noteq> []"
    using assms(2) by (simp add: path_clean_def show_path_not_Nil rooted_list_def)
  with assms show ?thesis
    by (simp add: path_comps_join2) (simp add: path_clean_def clean_comps_split_show)
qed

text \<open>The test for a path that climbs out of the directory it is joined to.\<close>

definition climbs :: "string \<Rightarrow> bool" where
  "climbs q \<longleftrightarrow> \<not> rooted_list (path_comps q)"

lemma climbs_iff: "(path_clean q = ''..'' \<or> has_prefix (path_clean q) ''../'') \<longleftrightarrow> climbs q"
proof (cases "is_abs q")
  case True
  then show ?thesis
    by (simp add: climbs_def rooted_list_path_comps path_clean_def show_path_def has_prefix_def)
next
  case False
  let ?cs = "path_comps q"
  have cl: "list_all plain_comp ?cs" "''..'' \<notin> set (dropWhile (\<lambda>c. c = ''..'') ?cs)"
    using clean_list_path_comps [of q] False by (auto simp: clean_list_def)
  show ?thesis
  proof (cases ?cs)
    case Nil
    with False show ?thesis
      by (simp add: climbs_def path_clean_def show_path_def has_prefix_def rooted_list_def)
  next
    case (Cons c cs)
    have eq: "path_clean q = join_with ''/'' (c # cs)"
      using False Cons by (simp add: path_clean_def show_path_def)
    have slash: "CHR ''/'' \<notin> set c"
      using cl Cons by (simp add: plain_comp_def)
    have "(path_clean q = ''..'' \<or> has_prefix (path_clean q) ''../'') \<longleftrightarrow> c = ''..''"
    proof (cases cs)
      case Nil
      with eq slash show ?thesis by (auto simp: has_prefix_iff)
    next
      case (Cons d ds)
      then have "path_clean q = c @ CHR ''/'' # join_with ''/'' cs"
        using eq by simp
      with slash show ?thesis
        by (auto simp: has_prefix_iff append_eq_append_conv2 Cons_eq_append_conv append_eq_Cons_conv)
    qed
    also have "c = ''..'' \<longleftrightarrow> climbs q"
      using cl Cons by (auto simp: climbs_def rooted_list_def split: if_splits)
    finally show ?thesis .
  qed
qed

section \<open>Parents and relative paths\<close>

definition path_dir :: "string \<Rightarrow> string" where
  "path_dir p = path_clean (rev (dropWhile (\<lambda>c. c \<noteq> CHR ''/'') (rev p)))"

fun strip_common :: "'a list \<Rightarrow> 'a list \<Rightarrow> 'a list \<times> 'a list" where
  "strip_common (x # xs) (y # ys) = (if x = y then strip_common xs ys else (x # xs, y # ys))"
| "strip_common xs ys = (xs, ys)"

text \<open>\<^verbatim>\<open>filepath.Rel\<close>: \<open>None\<close> where the target cannot be made relative to the base.\<close>

definition path_rel :: "string \<Rightarrow> string \<Rightarrow> string option" where
  "path_rel base targ =
     (let b = path_clean base; t = path_clean targ in
      if t = b then Some ''.''
      else if is_abs b \<noteq> is_abs t then None
      else
        (case strip_common (path_comps b) (if t = ''.'' then [''.''] else path_comps t) of
           (bs, ts) \<Rightarrow>
             (if bs \<noteq> [] \<and> hd bs = ''..'' then None
              else Some (join_with ''/'' (replicate (length bs) ''..'' @ ts)))))"

lemma path_dir_show:
  assumes "rooted_list (cs @ [c])"
  shows "path_dir (show_path True (cs @ [c])) = show_path True cs"
proof -
  have c: "CHR ''/'' \<notin> set c" and cs: "rooted_list cs"
    using assms by (auto simp: rooted_list_def plain_comp_def)
  have drop: "dropWhile (\<lambda>x. x \<noteq> CHR ''/'') (rev c @ CHR ''/'' # u) = CHR ''/'' # u" for u
    using c by (induction c rule: rev_induct) auto
  show ?thesis
  proof (cases "cs = []")
    case True
    with drop [of "[]"] show ?thesis
      by (simp add: path_dir_def show_path_def path_clean_def path_comps_def)
  next
    case False
    then have "show_path True (cs @ [c]) = show_path True cs @ CHR ''/'' # c"
      by (simp add: show_path_def join_with_append)
    then have "path_dir (show_path True (cs @ [c])) = path_clean (show_path True cs @ ''/'')"
      using drop by (simp add: path_dir_def)
    also have "\<dots> = show_path True cs"
    proof -
      have "path_comps (show_path True cs @ ''/'') = clean_comps True [] (split_on CHR ''/'' (show_path True cs) @ [[]])"
        using split_on_join_append [of "CHR ''/''" "show_path True cs" "[]"]
        by (simp add: path_comps_def is_abs_def has_prefix_def show_path_def)
      also have "\<dots> = path_comps (show_path True cs)"
        by (simp add: clean_comps_empty_comps) (simp add: path_comps_def)
      finally show ?thesis
        using path_comps_show [OF cs]
        by (simp add: path_clean_def) (simp add: show_path_def)
    qed
    finally show ?thesis .
  qed
qed

lemma strip_common_append: "strip_common xs (xs @ ys) = ([], ys)"
  by (induction xs) (cases ys, auto)

lemma strip_common_not_prefix:
  "\<not> prefix xs ys \<Longrightarrow> fst (strip_common xs ys) \<noteq> []"
  by (induction xs ys rule: strip_common.induct) auto

lemma strip_common_subset: "set (fst (strip_common xs ys)) \<subseteq> set xs"
  by (induction xs ys rule: strip_common.induct) auto

lemma join_with_dotdot:
  "n \<noteq> 0 \<Longrightarrow> has_prefix (join_with ''/'' (replicate n ''..'' @ ts)) ''..''"
  by (cases n; cases "replicate (n - 1) ''..'' @ ts") (auto simp: has_prefix_def)

text \<open>A relative path that does not begin with two dots: the target is below the base.\<close>

lemma path_rel_below:
  assumes "is_abs b" "is_abs t"
  shows "(\<exists>r. path_rel b t = Some r \<and> \<not> has_prefix r ''..'') \<longleftrightarrow>
    prefix (path_comps b) (path_comps t)
    \<and> \<not> has_prefix (join_with ''/'' (drop (length (path_comps b)) (path_comps t))) ''..''"
proof -
  let ?b = "path_comps b" and ?t = "path_comps t"
  have rl: "rooted_list ?b" "rooted_list ?t"
    using assms by (auto intro: rooted_list_path_comps)
  have tdot: "path_clean t \<noteq> ''.''" by (simp add: path_clean_def show_path_def assms(2))
  have eq: "path_clean t = path_clean b \<longleftrightarrow> ?t = ?b"
    using assms rl by (simp add: path_clean_def show_path_inj)
  show ?thesis
  proof (cases "prefix ?b ?t")
    case True
    then obtain u where u: "?t = ?b @ u" by (auto simp: prefix_def)
    then show ?thesis
      using assms tdot eq by (auto simp: path_rel_def Let_def strip_common_append has_prefix_def)
  next
    case False
    obtain bs ts where st: "strip_common ?b ?t = (bs, ts)" by fastforce
    have "bs \<noteq> []" using strip_common_not_prefix [OF False] st by simp
    then have "has_prefix (join_with ''/'' (replicate (length bs) ''..'' @ ts)) ''..''"
      by (simp add: join_with_dotdot)
    moreover have "?t \<noteq> ?b" using False by auto
    ultimately show ?thesis
      using False assms tdot eq st by (auto simp: path_rel_def Let_def)
  qed
qed


lemma path_join_nest:
  assumes "is_abs a" "b \<noteq> []" "c \<noteq> []"
  shows "path_join [path_join [a, b], c] = path_join [a, b, c]"
proof -
  have a: "a \<noteq> []" using assms(1) by (auto simp: is_abs_iff)
  have ab: "path_join [a, b] = path_clean (a @ ''/'' @ b)" using a assms by (simp add: path_join_def)
  have abc: "path_join [a, b, c] = path_clean (a @ ''/'' @ b @ ''/'' @ c)" "path_join [a, b @ ''/'' @ c] = path_join [a, b, c]"
    using a assms by (simp_all add: path_join_def)
  have "is_abs (a @ ''/'' @ b)" using assms(1) by (auto simp: is_abs_iff)
  then have abs: "is_abs (path_join [a, b])" unfolding ab by (rule is_abs_clean)
  then have "path_join [a, b] \<noteq> []" by (auto simp: is_abs_iff)
  then have l: "path_join [path_join [a, b], c] = path_clean (path_join [a, b] @ ''/'' @ c)"
    using assms(3) by (simp add: path_join_def [of "[path_join [a, b], c]"])
  have "is_abs (path_join [a, b] @ ''/'' @ c)" "is_abs (a @ ''/'' @ b @ ''/'' @ c)"
    using abs assms(1) by (auto simp: is_abs_iff)
  moreover from this have "is_abs (path_join [path_join [a, b], c])" "is_abs (path_join [a, b, c])"
    unfolding l abc(1) by (simp_all only: is_abs_clean)
  moreover have "path_comps (path_join [path_join [a, b], c]) = path_comps (path_join [a, b, c])"
  proof -
    have "split_on CHR ''/'' (b @ ''/'' @ c) = split_on CHR ''/'' b @ split_on CHR ''/'' c"
      using split_on_join_append [of "CHR ''/''" b c] by simp
    moreover have "b @ ''/'' @ c \<noteq> []" by simp
    ultimately show ?thesis
      using path_comps_join2 [OF abs assms(3)] path_comps_join2 [OF assms(1,2)] path_comps_join2 [OF assms(1), of "b @ ''/'' @ c"]
      unfolding abc(2) by (simp add: clean_comps_append)
  qed
  moreover have "path_clean (path_join [path_join [a, b], c]) = path_join [path_join [a, b], c]" "path_clean (path_join [a, b, c]) = path_join [a, b, c]"
    unfolding l abc(1) using calculation(1,2) by (simp_all only: path_clean_idem)
  ultimately show ?thesis by (metis path_clean_def)
qed

definition path_base :: "string \<Rightarrow> string" where
  "path_base p = (if p = [] then ''.''
     else let q = rev (dropWhile (\<lambda>c. c = CHR ''/'') (rev p)) in if q = [] then ''/'' else last (split_on CHR ''/'' q))"

lemma has_suffix_single: "has_suffix s [c] \<longleftrightarrow> s \<noteq> [] \<and> last s = c"
  by (cases s rule: rev_cases) (auto simp: has_suffix_def)

lemma join_not_slash:
  assumes "rooted_list cs" "cs \<noteq> []"
  shows "join_with ''/'' cs \<noteq> []" "\<not> has_prefix (join_with ''/'' cs) ''/''" "\<not> has_suffix (join_with ''/'' cs) ''/''"
proof -
  obtain c ds where cs: "cs = c # ds" using assms(2) by (cases cs) auto
  then have c: "c \<noteq> []" "CHR ''/'' \<notin> set c" using assms(1) by (auto simp: rooted_list_def plain_comp_def)
  then obtain x xs where x: "c = x # xs" "x \<noteq> CHR ''/''" by (cases c) auto
  show 1: "join_with ''/'' cs \<noteq> []" using x cs by (cases ds) auto
  show "\<not> has_prefix (join_with ''/'' cs) ''/''" using x cs by (cases ds) (auto simp: has_prefix_def)
  have "\<not> has_suffix (show_path True cs) ''/''" using show_path_suffix [OF assms(1)] assms(2) by simp
  then show "\<not> has_suffix (join_with ''/'' cs) ''/''"
    using 1 by (simp add: show_path_def has_suffix_single)
qed

end
