(* ===== verification/Daemon_Mounts.thy ===== *)
theory Daemon_Mounts
  imports Go_Path
begin

text \<open>
  What a server of the daemon may see of the host: the container mounts
  (\<^verbatim>\<open>daemon/server/mounts.go\<close>), the paths between which files are copied into it (\<^verbatim>\<open>copy.go\<close>), the volumes and
  overlays built by \<^verbatim>\<open>InitServer\<close> (\<^verbatim>\<open>manager.go\<close>) and the overlay volume itself
  (\<^verbatim>\<open>filesystem/overlay.go\<close>, \<^verbatim>\<open>internal/overlay/overlay.go\<close>). The operating system is a
  parameter: \<open>wd\<close> is the working directory \<^verbatim>\<open>filepath.Abs\<close> consults and \<open>de\<close> the answer of
  \<^verbatim>\<open>DirExists\<close>, \<open>None\<close> where the call returns an error.
\<close>

section \<open>Mounts of a container\<close>

record mount =
  mt_default :: bool
  mt_target :: string
  mt_source :: string
  mt_read_only :: bool

fun is_source_allowed :: "string option \<Rightarrow> string \<Rightarrow> string list \<Rightarrow> bool" where
  "is_source_allowed wd source [] = False"
| "is_source_allowed wd source (root # roots) =
     (if root = [] then is_source_allowed wd source roots
      else (case path_abs wd (path_clean root) of
              None \<Rightarrow> is_source_allowed wd source roots
            | Some absoluteRoot \<Rightarrow>
                (if within_path source absoluteRoot then True
                 else is_source_allowed wd source roots)))"

fun custom_mounts :: "string option \<Rightarrow> string list \<Rightarrow> mount list \<Rightarrow> mount list" where
  "custom_mounts wd allowed [] = []"
| "custom_mounts wd allowed (m # ms) =
     (case path_abs wd (path_clean (mt_source m)) of
        None \<Rightarrow> custom_mounts wd allowed ms
      | Some source \<Rightarrow>
          (let target = path_clean (mt_target m);
               target = (if target = ''.'' then ''/'' else target)
           in if \<not> is_source_allowed wd source allowed then custom_mounts wd allowed ms
              else \<lparr>mt_default = False, mt_target = target, mt_source = source,
                    mt_read_only = mt_read_only m\<rparr> # custom_mounts wd allowed ms))"

definition server_mounts ::
  "string option \<Rightarrow> string list \<Rightarrow> string \<Rightarrow> mount list \<Rightarrow> mount list \<Rightarrow> mount list" where
  "server_mounts wd allowed fs_path mounts volume_mounts =
     \<lparr>mt_default = True, mt_target = ''/home/container'', mt_source = fs_path,
       mt_read_only = False\<rparr> # custom_mounts wd allowed mounts @ volume_mounts"

section \<open>Files copied into a server\<close>

record copy_entry =
  cp_source :: string
  cp_target :: string

definition is_copy_source_allowed :: "string option \<Rightarrow> string \<Rightarrow> string \<Rightarrow> string list \<Rightarrow> bool" where
  "is_copy_source_allowed wd absSource rootDir allowed =
     (case path_abs wd (path_clean rootDir) of
        None \<Rightarrow> False
      | Some rootAbs \<Rightarrow>
          (if within_path absSource rootAbs then True
           else is_source_allowed wd absSource allowed))"

text \<open>
  The body of the loop of \<^verbatim>\<open>PerformCopy\<close> for one entry: the source and destination handed to
  \<^verbatim>\<open>copyPath\<close>, or nothing where the entry is skipped.
\<close>

definition copy_step ::
  "string option \<Rightarrow> string \<Rightarrow> string list \<Rightarrow> string \<Rightarrow> copy_entry \<Rightarrow> (string \<times> string) option" where
  "copy_step wd rootDir allowed destRoot e =
     (let sourceSpec = trim_space (cp_source e); targetSpec = trim_space (cp_target e) in
      if sourceSpec = [] \<or> targetSpec = [] then None
      else
        (case (if is_abs sourceSpec then path_abs wd (path_clean sourceSpec)
               else Some (path_join [rootDir, path_clean sourceSpec])) of
           None \<Rightarrow> None
         | Some absSource \<Rightarrow>
             (if \<not> is_copy_source_allowed wd absSource rootDir allowed then None
              else
                (let targetClean = path_clean targetSpec in
                 if targetClean = ''..'' \<or> has_prefix targetClean ''../'' then None
                 else
                   (let absDest = path_join [destRoot, targetClean] in
                    if \<not> within_path absDest destRoot then None
                    else Some (absSource, absDest))))))"

text \<open>
  All copies \<^verbatim>\<open>PerformCopy\<close> attempts, in order: a failing copy is logged and the loop goes on,
  so the attempts do not depend on the outcome of earlier ones.
\<close>

fun perform_copy ::
  "string option \<Rightarrow> string \<Rightarrow> string list \<Rightarrow> string \<Rightarrow> copy_entry list \<Rightarrow> (string \<times> string) list" where
  "perform_copy wd rootDir allowed destRoot [] = []"
| "perform_copy wd rootDir allowed destRoot (e # es) =
     (case copy_step wd rootDir allowed destRoot e of
        None \<Rightarrow> perform_copy wd rootDir allowed destRoot es
      | Some c \<Rightarrow> c # perform_copy wd rootDir allowed destRoot es)"

section \<open>Confinement of mounts and copies\<close>

text \<open>A source is allowed when some configured root is a component prefix of it.\<close>

definition allowed_root :: "string option \<Rightarrow> string \<Rightarrow> string \<Rightarrow> bool" where
  "allowed_root wd root source \<longleftrightarrow> root \<noteq> [] \<and>
     (\<exists>a. path_abs wd (path_clean root) = Some a \<and> prefix (path_comps a) (path_comps source))"

definition wd_ok :: "string option \<Rightarrow> bool" where
  "wd_ok wd \<longleftrightarrow> (case wd of None \<Rightarrow> True | Some d \<Rightarrow> is_abs d)"

lemma is_abs_path_join: "is_abs r \<Longrightarrow> is_abs (path_join (r # ps))"
proof -
  assume "is_abs r"
  then obtain s where "r = CHR ''/'' # s" by (auto simp: is_abs_iff)
  then show ?thesis
    by (simp add: path_join_def join_with_head)
qed

lemma is_abs_path_abs: "wd_ok wd \<Longrightarrow> path_abs wd p = Some a \<Longrightarrow> is_abs a"
  by (auto simp: path_abs_def wd_ok_def is_abs_path_join split: if_splits option.splits)

lemma is_source_allowed_iff:
  assumes "wd_ok wd" "is_abs source"
  shows "is_source_allowed wd source allowed \<longleftrightarrow> (\<exists>root \<in> set allowed. allowed_root wd root source)"
  by (induction allowed)
     (use assms in \<open>auto simp: allowed_root_def within_path_prefix is_abs_path_abs split: option.splits\<close>)

lemma is_copy_source_allowed_iff:
  assumes "wd_ok wd" "is_abs source" "rootDir \<noteq> []"
  shows "is_copy_source_allowed wd source rootDir allowed \<longleftrightarrow>
    (\<exists>a. path_abs wd (path_clean rootDir) = Some a)
      \<and> (\<exists>root \<in> insert rootDir (set allowed). allowed_root wd root source)"
  using assms is_abs_path_abs [OF assms(1)]
  by (auto simp: is_copy_source_allowed_def is_source_allowed_iff allowed_root_def
      within_path_prefix split: option.splits)

lemma custom_mounts_source:
  assumes "wd_ok wd" "m \<in> set (custom_mounts wd allowed ms)"
  shows "is_abs (mt_source m) \<and> \<not> mt_default m
    \<and> (\<exists>root \<in> set allowed. allowed_root wd root (mt_source m))
    \<and> (\<exists>m0 \<in> set ms. mt_read_only m = mt_read_only m0
          \<and> path_abs wd (path_clean (mt_source m0)) = Some (mt_source m))"
  using assms(2)
proof (induction ms)
  case (Cons a ms)
  show ?case
  proof (cases "m \<in> set (custom_mounts wd allowed ms)")
    case True
    with Cons.IH show ?thesis by auto
  next
    case False
    with Cons.prems assms(1) is_abs_path_abs [OF assms(1)] show ?thesis
      by (auto simp: is_source_allowed_iff Let_def split: option.splits if_splits)
  qed
qed simp

definition copy_source :: "string option \<Rightarrow> string \<Rightarrow> copy_entry \<Rightarrow> string option" where
  "copy_source wd rootDir e = (let s = trim_space (cp_source e) in
     if is_abs s then path_abs wd (path_clean s) else Some (path_join [rootDir, path_clean s]))"

lemma copy_source_abs:
  assumes "wd_ok wd" "is_abs rootDir" "copy_source wd rootDir e = Some s"
  shows "is_abs s"
  using assms is_abs_path_abs [OF assms(1)]
  by (auto simp: copy_source_def Let_def is_abs_path_join split: if_splits)

text \<open>The containment check on the destination never rejects what the test for a climbing target let pass.\<close>

lemma copy_step_iff:
  assumes "is_abs destRoot"
  shows "copy_step wd rootDir allowed destRoot e = Some (s, d) \<longleftrightarrow>
    trim_space (cp_source e) \<noteq> [] \<and> trim_space (cp_target e) \<noteq> []
    \<and> copy_source wd rootDir e = Some s \<and> is_copy_source_allowed wd s rootDir allowed
    \<and> \<not> climbs (trim_space (cp_target e))
    \<and> d = path_join [destRoot, path_clean (trim_space (cp_target e))]"
proof -
  let ?t = "trim_space (cp_target e)"
  have w: "\<not> climbs ?t \<Longrightarrow> within_path (path_join [destRoot, path_clean ?t]) destRoot"
    using assms by (simp add: climbs_def within_path_prefix is_abs_path_join path_comps_join_clean)
  show ?thesis
    by (auto simp: copy_step_def Let_def copy_source_def climbs_iff w split: option.splits if_splits)
qed

lemma perform_copy_filter:
  "perform_copy wd rootDir allowed destRoot es = List.map_filter (copy_step wd rootDir allowed destRoot) es"
  by (induction es) (auto simp: List.map_filter_simps split: option.splits)

lemma set_perform_copy:
  "c \<in> set (perform_copy wd rootDir allowed destRoot es) \<longleftrightarrow>
     (\<exists>e \<in> set es. copy_step wd rootDir allowed destRoot e = Some c)"
  by (induction es) (auto split: option.splits)

text \<open>
  The pairs of paths handed to \<^verbatim>\<open>copyPath\<close>: one of the roots that may be read is a component prefix of the source, and
  the destination consists of the components of the server's directory followed by those of the requested target.
  No \<open>..\<close> is left in either. What is done with them is the subject of \<^verbatim>\<open>Server_Copies\<close>.
\<close>

lemma perform_copy_pairs:
  assumes "wd_ok wd" "is_abs rootDir" "is_abs destRoot"
    and "(s, d) \<in> set (perform_copy wd rootDir allowed destRoot es)"
  shows "(\<exists>root \<in> insert rootDir (set allowed). allowed_root wd root s)
    \<and> (\<exists>e \<in> set es. path_comps d = path_comps destRoot @ path_comps (trim_space (cp_target e)))
    \<and> rooted_list (path_comps s) \<and> rooted_list (path_comps d)"
proof -
  from assms obtain e where e: "e \<in> set es" "copy_step wd rootDir allowed destRoot e = Some (s, d)"
    by (auto simp: set_perform_copy)
  note st = e(2) [unfolded copy_step_iff [OF assms(3)]]
  have root: "rootDir \<noteq> []" using assms(2) by (auto simp: is_abs_iff)
  have s: "is_abs s"
    using st copy_source_abs assms by blast
  have d: "is_abs d"
    using st assms(3) is_abs_path_join by blast
  have "path_comps d = path_comps destRoot @ path_comps (trim_space (cp_target e))"
    using st assms(3) by (simp add: climbs_def path_comps_join_clean)
  then show ?thesis
    using e(1) st s d root rooted_list_path_comps [OF s] rooted_list_path_comps [OF d] assms(1)
    by (auto simp: is_copy_source_allowed_iff)
qed

section \<open>Volumes and overlays of a new server\<close>

record volume =
  vol_name :: string
  vol_source :: string
  vol_target :: string
  vol_mode :: string

definition volume_mode_cow :: string where "volume_mode_cow = ''cow''"
definition volume_mode_ro :: string where "volume_mode_ro = ''ro''"
definition volume_mode_rw :: string where "volume_mode_rw = ''rw''"

datatype init_error =
    FolderCheckFailed string
  | FolderMissing string
  | VolumeSourceInvalid string
  | VolumeSourceOutside string
  | VolumeCheckFailed string
  | VolumeSourceMissing string
  | VolumeModeInvalid string string

text \<open>The checks on the source of one volume, the same for bind mounts and overlays.\<close>

definition volume_source ::
  "string option \<Rightarrow> (string \<Rightarrow> bool option) \<Rightarrow> string \<Rightarrow> volume \<Rightarrow> init_error + string" where
  "volume_source wd de volumesRoot v =
     (let resolved = path_join [volumesRoot, path_clean (vol_source v)] in
      case path_abs wd resolved of
        None \<Rightarrow> Inl (VolumeSourceInvalid (vol_name v))
      | Some absResolved \<Rightarrow>
          (if \<not> within_path absResolved volumesRoot then Inl (VolumeSourceOutside (vol_name v))
           else (case de absResolved of
                   None \<Rightarrow> Inl (VolumeCheckFailed (vol_name v))
                 | Some False \<Rightarrow> Inl (VolumeSourceMissing (vol_name v))
                 | Some True \<Rightarrow> Inr absResolved)))"

definition container_target :: "volume \<Rightarrow> string" where
  "container_target v =
     (let target = path_clean (vol_target v);
          target = (if target = ''.'' then ''/'' else target)
      in path_join [''/home/container'', trim_prefix target ''/''])"

fun init_volume_mounts ::
  "string option \<Rightarrow> (string \<Rightarrow> bool option) \<Rightarrow> string \<Rightarrow> volume list \<Rightarrow> init_error + mount list" where
  "init_volume_mounts wd de volumesRoot [] = Inr []"
| "init_volume_mounts wd de volumesRoot (v # vs) =
     (if vol_mode v = volume_mode_cow then init_volume_mounts wd de volumesRoot vs
      else if vol_mode v = volume_mode_ro \<or> vol_mode v = volume_mode_rw then
        (case volume_source wd de volumesRoot v of
           Inl e \<Rightarrow> Inl e
         | Inr src \<Rightarrow>
             (case init_volume_mounts wd de volumesRoot vs of
                Inl e \<Rightarrow> Inl e
              | Inr ms \<Rightarrow> Inr (\<lparr>mt_default = False, mt_target = container_target v,
                  mt_source = src, mt_read_only = (vol_mode v = volume_mode_ro)\<rparr> # ms)))
      else Inl (VolumeModeInvalid (vol_mode v) (vol_name v)))"

subsection \<open>Overlays\<close>

record overlay =
  ov_lower :: "string list"
  ov_merged :: string
  ov_work :: string
  ov_upper :: string

record overlay_volume =
  ovv_root :: string
  ovv_mounted :: bool
  ovv_server_volume :: string
  ovv_overlays :: "overlay list"
  ovv_server_path :: string

definition overlay_new :: "string \<Rightarrow> string list \<Rightarrow> string \<Rightarrow> overlay" where
  "overlay_new root lowerDirs merged =
     \<lparr>ov_lower = lowerDirs, ov_merged = merged, ov_work = path_join [root, ''work''],
      ov_upper = path_join [root, ''upper'']\<rparr>"

definition add_lower :: "string list \<Rightarrow> overlay \<Rightarrow> overlay" where
  "add_lower paths ov = ov\<lparr>ov_lower := ov_lower ov @ paths\<rparr>"

definition new_overlay_volume :: "string \<Rightarrow> string \<Rightarrow> string \<Rightarrow> overlay_volume" where
  "new_overlay_volume root serverVolume serverPath =
     \<lparr>ovv_root = root, ovv_mounted = False, ovv_server_volume = serverVolume, ovv_overlays = [],
      ovv_server_path = serverPath\<rparr>"

definition new_overlay :: "string \<Rightarrow> string list \<Rightarrow> string \<Rightarrow> overlay_volume \<Rightarrow> overlay_volume" where
  "new_overlay name lowerDirs merged vol =
     vol\<lparr>ovv_overlays := ovv_overlays vol @
       [overlay_new (path_join [ovv_root vol, name]) lowerDirs merged]\<rparr>"

text \<open>
  The server's own overlay is the first of its volume and the code keeps a pointer to it;
  \<^verbatim>\<open>serverOverlay.AddLower\<close> is an update of that position.
\<close>

definition server_add_lower :: "string list \<Rightarrow> overlay_volume \<Rightarrow> overlay_volume" where
  "server_add_lower paths vol =
     vol\<lparr>ovv_overlays := (case ovv_overlays vol of [] \<Rightarrow> [] | o1 # os \<Rightarrow> add_lower paths o1 # os)\<rparr>"

fun cow_groups :: "volume list \<Rightarrow> (string, volume list) gomap \<Rightarrow> (string, volume list) gomap" where
  "cow_groups [] g = g"
| "cow_groups (v # vs) g =
     (if vol_mode v = volume_mode_cow
      then cow_groups vs (gm_set g (vol_target v)
             ((case gm_get g (vol_target v) of None \<Rightarrow> [] | Some xs \<Rightarrow> xs) @ [v]))
      else cow_groups vs g)"

fun group_sources ::
  "string option \<Rightarrow> (string \<Rightarrow> bool option) \<Rightarrow> string \<Rightarrow> volume list \<Rightarrow> init_error + string list" where
  "group_sources wd de volumesRoot [] = Inr []"
| "group_sources wd de volumesRoot (v # vs) =
     (case volume_source wd de volumesRoot v of
        Inl e \<Rightarrow> Inl e
      | Inr src \<Rightarrow>
          (case group_sources wd de volumesRoot vs of
             Inl e \<Rightarrow> Inl e
           | Inr srcs \<Rightarrow> Inr (src # srcs)))"

text \<open>
  The loop over the groups, in whatever order the map yields them; \<open>path_id\<close> is the hash
  \<^verbatim>\<open>system.PathId\<close>.
\<close>

fun init_overlays ::
  "(string \<Rightarrow> string) \<Rightarrow> string option \<Rightarrow> (string \<Rightarrow> bool option) \<Rightarrow> string \<Rightarrow> string \<Rightarrow>
     (string, volume list) gomap \<Rightarrow> overlay_volume \<Rightarrow> init_error + overlay_volume" where
  "init_overlays path_id wd de volumesRoot volume [] ov = Inr ov"
| "init_overlays path_id wd de volumesRoot volume ((target, vols) # gs) ov =
     (if length vols = 0 then init_overlays path_id wd de volumesRoot volume gs ov
      else
        (case group_sources wd de volumesRoot vols of
           Inl e \<Rightarrow> Inl e
         | Inr sources \<Rightarrow>
             (let cleanTarget = path_clean target in
              if cleanTarget = ''/'' \<or> cleanTarget = ''.'' \<or> cleanTarget = []
              then init_overlays path_id wd de volumesRoot volume gs (server_add_lower sources ov)
              else init_overlays path_id wd de volumesRoot volume gs
                     (new_overlay (path_id target) sources
                        (path_join [volume, trim_prefix cleanTarget ''/'']) ov))))"

record daemon_paths =
  dp_root :: string
  dp_servers :: string
  dp_data :: string
  dp_volumes :: string
  dp_allowed_mounts :: "string list"

record init_request =
  ir_id :: string
  ir_server_folder :: string
  ir_has_install_script :: bool
  ir_skip_install_script :: bool
  ir_mounts :: "mount list"
  ir_volumes :: "volume list"

text \<open>
  The file system part of \<^verbatim>\<open>InitServer\<close>: the mounts of the container and the overlay volume.
  \<open>ord\<close> is the order in which the loop over the groups visits the map.
\<close>

definition init_server_fs ::
  "(string \<Rightarrow> string) \<Rightarrow> ((string, volume list) gomap \<Rightarrow> (string, volume list) gomap) \<Rightarrow>
     string option \<Rightarrow> (string \<Rightarrow> bool option) \<Rightarrow> daemon_paths \<Rightarrow> init_request \<Rightarrow>
     init_error + mount list \<times> overlay_volume" where
  "init_server_fs path_id ord wd de cfg req =
     (let serverFolder = path_join [dp_servers cfg, ir_server_folder req];
          need = \<not> ir_has_install_script req \<or> ir_skip_install_script req
      in if need \<and> de serverFolder = None then Inl (FolderCheckFailed serverFolder)
         else if need \<and> de serverFolder = Some False then Inl (FolderMissing serverFolder)
         else
           (let volume = path_join [dp_data cfg, ir_id req];
                ov = new_overlay_volume (path_join [dp_root cfg, ''internal'', ''overlay'', ir_id req])
                       volume serverFolder;
                volumesRoot = path_join [dp_volumes cfg]
            in case init_volume_mounts wd de volumesRoot (ir_volumes req) of
                 Inl e \<Rightarrow> Inl e
               | Inr volumeMounts \<Rightarrow>
                   (case init_overlays path_id wd de volumesRoot volume
                           (ord (cow_groups (ir_volumes req) []))
                           (new_overlay (path_id ''/'') [serverFolder] volume ov) of
                      Inl e \<Rightarrow> Inl e
                    | Inr ov' \<Rightarrow>
                        Inr (server_mounts wd (dp_allowed_mounts cfg) volume (ir_mounts req)
                               volumeMounts, ov'))))"

subsection \<open>What the volumes of a server can reach\<close>

definition under_root :: "(string \<Rightarrow> bool option) \<Rightarrow> string \<Rightarrow> string \<Rightarrow> bool" where
  "under_root de root p \<longleftrightarrow> prefix (path_comps root) (path_comps p) \<and> de p = Some True"

lemma volume_source_under:
  assumes "wd_ok wd" "is_abs volumesRoot" "volume_source wd de volumesRoot v = Inr src"
  shows "under_root de volumesRoot src"
  using assms is_abs_path_abs [OF assms(1)]
  by (auto simp: volume_source_def under_root_def within_path_prefix Let_def
      split: option.splits if_splits bool.splits)

lemma init_volume_mounts_under:
  assumes "wd_ok wd" "is_abs volumesRoot"
  shows "init_volume_mounts wd de volumesRoot vs = Inr ms \<Longrightarrow>
     m \<in> set ms \<Longrightarrow> \<not> mt_default m \<and> under_root de volumesRoot (mt_source m)
       \<and> (\<exists>v \<in> set vs. mt_target m = container_target v
            \<and> volume_source wd de volumesRoot v = Inr (mt_source m)
            \<and> vol_mode v = (if mt_read_only m then volume_mode_ro else volume_mode_rw))"
proof (induction vs arbitrary: ms)
  case (Cons v vs)
  show ?case
  proof (cases "vol_mode v = volume_mode_cow")
    case True
    with Cons show ?thesis by auto
  next
    case False
    with Cons.prems Cons.IH show ?thesis
      by (auto split: sum.splits if_splits simp: volume_source_under [OF assms])
  qed
qed simp

lemma group_sources_under:
  assumes "wd_ok wd" "is_abs volumesRoot"
  shows "group_sources wd de volumesRoot vs = Inr ss \<Longrightarrow>
     \<forall>s \<in> set ss. under_root de volumesRoot s"
  by (induction vs arbitrary: ss) (auto split: sum.splits simp: volume_source_under [OF assms])

definition lowers :: "overlay_volume \<Rightarrow> string set" where
  "lowers vol = (\<Union>ov \<in> set (ovv_overlays vol). set (ov_lower ov))"

lemma lowers_server_add: "lowers (server_add_lower ps vol) \<subseteq> lowers vol \<union> set ps"
  by (cases "ovv_overlays vol") (auto simp: lowers_def server_add_lower_def add_lower_def)

lemma lowers_new_overlay: "lowers (new_overlay name ps m vol) = lowers vol \<union> set ps"
  by (auto simp: lowers_def new_overlay_def overlay_new_def)

lemma init_overlays_lowers:
  assumes "wd_ok wd" "is_abs volumesRoot"
    and "init_overlays path_id wd de volumesRoot volume gs ov = Inr ov'"
  shows "\<forall>p \<in> lowers ov'. p \<in> lowers ov \<or> under_root de volumesRoot p"
  using assms(3)
proof (induction gs arbitrary: ov)
  case (Cons g gs)
  obtain t vs where g: "g = (t, vs)" by (cases g)
  show ?case
  proof (cases "group_sources wd de volumesRoot vs")
    case (Inl e)
    with Cons g show ?thesis by (auto split: if_splits)
  next
    case (Inr ss)
    with Cons.prems g Cons.IH lowers_server_add [of ss ov] group_sources_under [OF assms(1,2) Inr]
    show ?thesis
      by (fastforce simp: Let_def lowers_new_overlay split: if_splits)
  qed
qed simp

text \<open>A path without \<open>..\<close> stays below what it is joined to.\<close>

definition no_dotdot :: "string \<Rightarrow> bool" where
  "no_dotdot q \<longleftrightarrow> ''..'' \<notin> set (split_on CHR ''/'' q)"

lemma clean_comps_extends: "''..'' \<notin> set xs \<Longrightarrow> prefix (rev st) (clean_comps True st xs)"
proof (induction xs arbitrary: st)
  case (Cons x xs)
  have "prefix (rev st) (clean_comps True (x # st) xs)" using Cons.IH [of "x # st"] Cons.prems by (auto simp: prefix_def)
  moreover have "x \<noteq> ''..''" using Cons.prems by auto
  ultimately show ?case using Cons.IH [of st] Cons.prems by simp
qed simp

lemma path_join_below:
  assumes "is_abs r" "no_dotdot f"
  shows "prefix (path_comps r) (path_comps (path_join [r, f]))"
proof (cases "f = []")
  case True
  then have "path_join [r, f] = path_clean r" using assms(1) by (auto simp: path_join_def is_abs_iff)
  then show ?thesis using assms(1) by simp
next
  case False
  then show ?thesis using clean_comps_extends [of _ "rev (path_comps r)"] assms by (simp add: path_comps_join2 no_dotdot_def)
qed

text \<open>
  C8. Of the host the container of a new server is shown its own volume, the custom mounts below an allowed root, and
  existing directories below the volumes directory, whatever the request asks for. The layers of its overlays are
  the base folder, which is the requested folder joined to the servers directory, and existing directories below the
  volumes directory, in whatever order the groups of overlays are visited. The base folder is below the servers
  directory, and the volume below the data directory, when the folder and the identifier hold no \<open>..\<close>; nothing
  in the code looks at that: see \<open>server_folder_escapes\<close>. Where the overlays are merged is not confined either:
  see \<open>cow_target_escapes\<close>. Being below is a matter of the components of the paths, as in the code, which does not
  look at links here.
\<close>

theorem init_server_confined:
  assumes "wd_ok wd" "is_abs (path_join [dp_volumes cfg])"
    and "init_server_fs path_id ord wd de cfg req = Inr (ms, ov)"
  shows "(\<forall>m \<in> set ms.
        (mt_default m \<and> mt_source m = path_join [dp_data cfg, ir_id req])
        \<or> (\<exists>root \<in> set (dp_allowed_mounts cfg). allowed_root wd root (mt_source m))
        \<or> under_root de (path_join [dp_volumes cfg]) (mt_source m))
    \<and> (\<forall>p \<in> lowers ov. p = path_join [dp_servers cfg, ir_server_folder req]
        \<or> under_root de (path_join [dp_volumes cfg]) p)
    \<and> (is_abs (dp_servers cfg) \<and> no_dotdot (ir_server_folder req) \<longrightarrow>
        (\<forall>p \<in> lowers ov. prefix (path_comps (dp_servers cfg)) (path_comps p) \<or> under_root de (path_join [dp_volumes cfg]) p))
    \<and> (is_abs (dp_data cfg) \<and> no_dotdot (ir_id req) \<longrightarrow>
        (\<forall>m \<in> set ms. mt_default m \<longrightarrow> prefix (path_comps (dp_data cfg)) (path_comps (mt_source m))))"
proof -
  let ?root = "path_join [dp_volumes cfg]" and ?sf = "path_join [dp_servers cfg, ir_server_folder req]"
  let ?vol = "path_join [dp_data cfg, ir_id req]"
  let ?ov = "new_overlay (path_id ''/'') [?sf] ?vol (new_overlay_volume
      (path_join [dp_root cfg, ''internal'', ''overlay'', ir_id req]) ?vol ?sf)"
  from assms(3) obtain vm where
    vm: "init_volume_mounts wd de ?root (ir_volumes req) = Inr vm"
    and ov: "init_overlays path_id wd de ?root ?vol (ord (cow_groups (ir_volumes req) [])) ?ov = Inr ov"
    and ms: "ms = server_mounts wd (dp_allowed_mounts cfg) ?vol (ir_mounts req) vm"
    by (auto simp: init_server_fs_def Let_def split: if_splits sum.splits)
  have "lowers ?ov = {?sf}"
    by (simp add: lowers_new_overlay) (simp add: lowers_def new_overlay_volume_def)
  with init_overlays_lowers [OF assms(1,2) ov]
  have low: "\<forall>p \<in> lowers ov. p = ?sf \<or> under_root de ?root p" by blast
  have mount: "(mt_default m \<and> mt_source m = ?vol)
        \<or> \<not> mt_default m \<and> ((\<exists>root \<in> set (dp_allowed_mounts cfg). allowed_root wd root (mt_source m))
           \<or> under_root de ?root (mt_source m))" if in_ms: "m \<in> set ms" for m
  proof -
    consider "mt_default m" "mt_source m = ?vol" | "m \<in> set (custom_mounts wd (dp_allowed_mounts cfg) (ir_mounts req))" | "m \<in> set vm"
      using in_ms by (auto simp: ms server_mounts_def)
    then show ?thesis
    proof cases
      case 2
      then show ?thesis using custom_mounts_source [OF assms(1)] by blast
    next
      case 3
      then show ?thesis using init_volume_mounts_under [OF assms(1,2) vm] by blast
    qed blast
  qed
  have lows: "\<forall>p \<in> lowers ov. prefix (path_comps (dp_servers cfg)) (path_comps p) \<or> under_root de ?root p"
    if "is_abs (dp_servers cfg)" "no_dotdot (ir_server_folder req)"
  proof
    fix p assume "p \<in> lowers ov"
    then have "p = ?sf \<or> under_root de ?root p" using low by blast
    then show "prefix (path_comps (dp_servers cfg)) (path_comps p) \<or> under_root de ?root p"
      using path_join_below [OF that] by metis
  qed
  have own: "prefix (path_comps (dp_data cfg)) (path_comps (mt_source m))"
    if "is_abs (dp_data cfg)" "no_dotdot (ir_id req)" "m \<in> set ms" "mt_default m" for m
    using mount [OF that(3)] that(4) path_join_below [OF that(1,2)] by simp
  have ms': "\<forall>m \<in> set ms. (mt_default m \<and> mt_source m = ?vol)
        \<or> (\<exists>root \<in> set (dp_allowed_mounts cfg). allowed_root wd root (mt_source m)) \<or> under_root de ?root (mt_source m)"
    using mount by blast
  show ?thesis
    by (rule conjI [OF ms' conjI [OF low conjI]], rule impI, rule lows, erule conjunct1, erule conjunct2,
        rule impI, intro ballI impI, rule own, erule conjunct1, erule conjunct2)
qed

definition example_paths :: daemon_paths where
  "example_paths = \<lparr>dp_root = ''/var/sls'', dp_servers = ''/var/sls/servers'',
     dp_data = ''/var/sls/data'', dp_volumes = ''/var/sls/volumes'',
     dp_allowed_mounts = [''/srv'']\<rparr>"

definition example_request :: init_request where
  "example_request = \<lparr>ir_id = ''a1'', ir_server_folder = ''vanilla'', ir_has_install_script = False,
     ir_skip_install_script = False,
     ir_mounts = [\<lparr>mt_default = False, mt_target = ''/maps'', mt_source = ''/srv/m'', mt_read_only = True\<rparr>,
                  \<lparr>mt_default = True, mt_target = ''/x'', mt_source = ''/etc'', mt_read_only = False\<rparr>],
     ir_volumes = [\<lparr>vol_name = ''w'', vol_source = ''worlds/w'', vol_target = ''world'', vol_mode = ''cow''\<rparr>,
                   \<lparr>vol_name = ''p'', vol_source = ''plugins'', vol_target = ''/plugins'', vol_mode = ''ro''\<rparr>,
                   \<lparr>vol_name = ''b'', vol_source = ''base'', vol_target = ''/'', vol_mode = ''cow''\<rparr>]\<rparr>"

lemma init_server_confined_witness:
  "\<exists>ms ov. init_server_fs (\<lambda>s. ''id'' @ s) rev (Some ''/'') (\<lambda>p. Some True) example_paths example_request
       = Inr (ms, ov)
     \<and> map mt_source ms = [''/var/sls/data/a1'', ''/srv/m'', ''/var/sls/volumes/plugins'']
     \<and> ''/var/sls/volumes/base'' \<in> lowers ov
     \<and> under_root (\<lambda>p. Some True) (path_join [dp_volumes example_paths]) ''/var/sls/volumes/base''"
proof -
  obtain ms ov where run: "init_server_fs (\<lambda>s. ''id'' @ s) rev (Some ''/'') (\<lambda>p. Some True) example_paths
      example_request = Inr (ms, ov)"
    and ms: "map mt_source ms = [''/var/sls/data/a1'', ''/srv/m'', ''/var/sls/volumes/plugins'']"
    and ov: "map ov_lower (ovv_overlays ov) =
       [[''/var/sls/servers/vanilla'', ''/var/sls/volumes/base''], [''/var/sls/volumes/worlds/w'']]"
  proof -
    have "case init_server_fs (\<lambda>s. ''id'' @ s) rev (Some ''/'') (\<lambda>p. Some True) example_paths
      example_request of Inl _ \<Rightarrow> False | Inr (ms, ov) \<Rightarrow>
        map mt_source ms = [''/var/sls/data/a1'', ''/srv/m'', ''/var/sls/volumes/plugins'']
        \<and> map ov_lower (ovv_overlays ov) =
       [[''/var/sls/servers/vanilla'', ''/var/sls/volumes/base''], [''/var/sls/volumes/worlds/w'']]"
      by code_simp
    then show ?thesis using that by (auto split: sum.splits)
  qed
  have base: "''/var/sls/volumes/base'' \<in> lowers ov"
  proof -
    have "lowers ov = (\<Union>l \<in> set (map ov_lower (ovv_overlays ov)). set l)"
      by (simp add: lowers_def)
    then show ?thesis by (simp add: ov)
  qed
  have "wd_ok (Some ''/'')" "is_abs (path_join [dp_volumes example_paths])"
    "''/var/sls/volumes/base'' \<noteq> path_join [dp_servers example_paths, ir_server_folder example_request]"
    by code_simp+
  with init_server_confined [OF this(1,2) run] base
  have "under_root (\<lambda>p. Some True) (path_join [dp_volumes example_paths]) ''/var/sls/volumes/base''"
    by blast
  then show ?thesis
    using run ms base by (intro exI conjI)
qed

text \<open>The base folder of a request that climbs is a layer all the same, if it is there.\<close>

lemma server_folder_escapes:
  "(case init_server_fs (\<lambda>s. ''id'') (\<lambda>g. g) (Some ''/'') (\<lambda>p. Some True) example_paths
      (example_request\<lparr>ir_server_folder := ''../../../etc'', ir_volumes := []\<rparr>) of
     Inl _ \<Rightarrow> False
   | Inr (ms, ov) \<Rightarrow> map ov_lower (ovv_overlays ov) = [[''/etc'']])"
  by code_simp

text \<open>
  The merged directory of a copy-on-write overlay is not confined in this way: it is joined to
  the server's volume without a containment check.
\<close>

definition escaping_volume :: volume where
  "escaping_volume = \<lparr>vol_name = ''w'', vol_source = ''w'', vol_target = ''../../../../etc'',
     vol_mode = ''cow''\<rparr>"

lemma cow_target_escapes:
  "(case init_server_fs (\<lambda>s. ''id'') (\<lambda>g. g) (Some ''/'') (\<lambda>p. Some True) example_paths
      (example_request\<lparr>ir_volumes := [escaping_volume]\<rparr>) of
     Inl _ \<Rightarrow> False
   | Inr (ms, ov) \<Rightarrow> map ov_merged (ovv_overlays ov) = [''/var/sls/data/a1'', ''/etc''])"
  by code_simp

end
