(* ===== verification/Unix_Tree.thy ===== *)
theory Unix_Tree
  imports Go_Path "HOL-Library.Sublist"
begin

text \<open>
  The tree of files a daemon's system calls act on, and the calls that
  \<^verbatim>\<open>daemon/internal/ufs\<close> makes, as POSIX and the Linux manual describe them: \<^verbatim>\<open>openat\<close> and
  \<^verbatim>\<open>openat2\<close>, \<^verbatim>\<open>mkdirat\<close>, \<^verbatim>\<open>unlinkat\<close>, \<^verbatim>\<open>renameat\<close>, \<^verbatim>\<open>symlinkat\<close>, \<^verbatim>\<open>fstatat\<close>, \<^verbatim>\<open>fchmodat\<close> and
  \<^verbatim>\<open>fchownat\<close>. A path is the list of its components from the root; an open directory is known by the
  path it has. The kernel may refuse to change an entry for reasons of its own, which are part of the tree.
\<close>

section \<open>Trees\<close>

type_synonym path = "string list"

datatype node = FileNode string | DirNode | LinkNode string

record attrs =
  at_mode :: nat
  at_uid :: int
  at_gid :: int
  at_times :: "int \<times> int"

type_synonym tentry = "node \<times> attrs"

datatype errno = ENOENT | ENOTDIR | ELOOP | EXDEV | EEXIST | EISDIR | ENOTEMPTY | EINVAL | EBUSY | EPERM | EACCES | EIO | ENAMETOOLONG

record tree =
  tr_entries :: "(path \<times> tentry) list"
  tr_refuse :: "path \<Rightarrow> errno option"

definition look :: "tree \<Rightarrow> path \<Rightarrow> tentry option" where
  "look t p = (if p = [] then Some (DirNode, \<lparr>at_mode = 493, at_uid = 0, at_gid = 0, at_times = (0, 0)\<rparr>) else map_of (tr_entries t) p)"

definition is_dir :: "tree \<Rightarrow> path \<Rightarrow> bool" where
  "is_dir t p \<longleftrightarrow> (case look t p of Some (DirNode, _) \<Rightarrow> True | _ \<Rightarrow> False)"

definition put_entry :: "path \<Rightarrow> tentry \<Rightarrow> tree \<Rightarrow> tree" where
  "put_entry p e t = t\<lparr>tr_entries := (p, e) # filter (\<lambda>x. fst x \<noteq> p) (tr_entries t)\<rparr>"

definition drop_entry :: "path \<Rightarrow> tree \<Rightarrow> tree" where
  "drop_entry p t = t\<lparr>tr_entries := filter (\<lambda>x. fst x \<noteq> p) (tr_entries t)\<rparr>"

definition move_entries :: "path \<Rightarrow> path \<Rightarrow> tree \<Rightarrow> tree" where
  "move_entries p q t = t\<lparr>tr_entries := map (\<lambda>(r, e). (if prefix p r then q @ drop (length p) r else r, e)) (tr_entries t)\<rparr>"

text \<open>The names in a directory, without those of itself and its parent.\<close>

definition dot_name :: "string \<Rightarrow> bool" where
  "dot_name f \<longleftrightarrow> f = ''.'' \<or> f = ''..''"

definition names_in :: "tree \<Rightarrow> path \<Rightarrow> string list" where
  "names_in t p = remdups (map (last \<circ> fst) (filter (\<lambda>x. fst x \<noteq> [] \<and> butlast (fst x) = p \<and> \<not> dot_name (last (fst x)) \<and>
     last (fst x) \<noteq> []) (tr_entries t)))"

lemma look_put: "p \<noteq> [] \<Longrightarrow> look (put_entry p e t) q = (if q = p then Some e else look t q)"
proof -
  have "map_of (filter (\<lambda>x. fst x \<noteq> p) xs) q = (if q = p then None else map_of xs q)" for xs :: "(path \<times> tentry) list"
    by (induction xs) auto
  then show "p \<noteq> [] \<Longrightarrow> ?thesis" by (auto simp: look_def put_entry_def)
qed

lemma look_drop: "p \<noteq> [] \<Longrightarrow> look (drop_entry p t) q = (if q = p then None else look t q)"
proof -
  have "map_of (filter (\<lambda>x. fst x \<noteq> p) xs) q = (if q = p then None else map_of xs q)" for xs :: "(path \<times> tentry) list"
    by (induction xs) auto
  then show "p \<noteq> [] \<Longrightarrow> ?thesis" by (auto simp: look_def drop_entry_def)
qed

lemma tr_refuse_simps [simp]:
  "tr_refuse (put_entry p e t) = tr_refuse t" "tr_refuse (drop_entry p t) = tr_refuse t"
  "tr_refuse (move_entries p q t) = tr_refuse t"
  by (simp_all add: put_entry_def drop_entry_def move_entries_def)

lemma look_move_outside:
  assumes "\<not> prefix p r" "\<not> prefix q r"
  shows "look (move_entries p q t) r = look t r"
proof -
  have "map_of (map (\<lambda>(r, e). (if prefix p r then q @ drop (length p) r else r, e)) xs) r = map_of xs r"
    for xs :: "(path \<times> tentry) list"
    using assms by (induction xs) (auto simp: prefix_def)
  then show ?thesis by (simp add: look_def move_entries_def)
qed

lemma names_in_iff: "c \<in> set (names_in t p) \<longleftrightarrow> look t (p @ [c]) \<noteq> None \<and> \<not> dot_name c \<and> c \<noteq> []"
proof -
  have "look t (p @ [c]) \<noteq> None \<longleftrightarrow> p @ [c] \<in> fst ` set (tr_entries t)"
    by (simp add: look_def map_of_eq_None_iff)
  moreover have "c \<in> set (names_in t p) \<longleftrightarrow> p @ [c] \<in> fst ` set (tr_entries t) \<and> \<not> dot_name c \<and> c \<noteq> []"
  proof
    assume "p @ [c] \<in> fst ` set (tr_entries t) \<and> \<not> dot_name c \<and> c \<noteq> []"
    then show "c \<in> set (names_in t p)" by (force simp: names_in_def)
  next
    assume "c \<in> set (names_in t p)"
    then obtain x where x: "x \<in> set (tr_entries t)" "fst x \<noteq> []" "butlast (fst x) = p" "last (fst x) = c" "\<not> dot_name c" "c \<noteq> []"
      by (auto simp: names_in_def)
    then show "p @ [c] \<in> fst ` set (tr_entries t) \<and> \<not> dot_name c \<and> c \<noteq> []" by (metis append_butlast_last_id image_eqI)
  qed
  ultimately show ?thesis by simp
qed

section \<open>Resolving a path\<close>

text \<open>
  From the directory \<open>cur\<close> the components are followed one by one; \<open>root\<close> is the directory the path may
  not leave (\<^verbatim>\<open>RESOLVE_BENEATH\<close>), if any, \<open>follow\<close> says whether a link at the end is followed, and \<open>n\<close> is
  the number of links that may still be. Linux allows forty.
\<close>

function resolve :: "tree \<Rightarrow> path option \<Rightarrow> bool \<Rightarrow> nat \<Rightarrow> path \<Rightarrow> string list \<Rightarrow> errno + path" where
  "resolve t root follow n cur [] = Inr cur"
| "resolve t root follow n cur (c # cs) =
     (if c = [] \<or> c = ''.'' then resolve t root follow n cur cs
      else if c = ''..'' then (if root = Some cur then Inl EXDEV else resolve t root follow n (butlast cur) cs)
      else case look t (cur @ [c]) of
        None \<Rightarrow> Inl ENOENT
      | Some (DirNode, _) \<Rightarrow> resolve t root follow n (cur @ [c]) cs
      | Some (FileNode _, _) \<Rightarrow> (if cs = [] then Inr (cur @ [c]) else Inl ENOTDIR)
      | Some (LinkNode target, _) \<Rightarrow>
          (if cs = [] \<and> \<not> follow then Inr (cur @ [c])
           else if n = 0 then Inl ELOOP
           else if is_abs target then
             (if root \<noteq> None then Inl EXDEV else resolve t root follow (n - 1) [] (split_on CHR ''/'' target @ cs))
           else resolve t root follow (n - 1) cur (split_on CHR ''/'' target @ cs)))"
  by pat_completeness auto
termination
  by (relation "measures [\<lambda>(t, root, follow, n, cur, cs). n, \<lambda>(t, root, follow, n, cur, cs). length cs]") auto

definition max_links :: nat where
  "max_links = 40"

text \<open>A path resolved beneath a directory stays there.\<close>

lemma resolve_beneath:
  "resolve t (Some r) follow n cur cs = Inr p \<Longrightarrow> prefix r cur \<Longrightarrow> prefix r p"
proof (induction t "Some r" follow n cur cs rule: resolve.induct)
  case (2 t follow n cur c cs)
  have step: "prefix r (butlast cur)" if "r \<noteq> cur"
  proof -
    obtain zs where "cur = r @ zs" using 2(7) by (auto simp: prefix_def)
    then show ?thesis using that by (cases zs rule: rev_cases) (auto simp flip: append_assoc)
  qed
  have app: "prefix r (cur @ [c])" using 2(7) by simp
  show ?case
    using 2 step app by (auto split: if_splits option.splits node.splits)
qed simp

section \<open>System calls\<close>

text \<open>The entry a single name has in an open directory.\<close>

definition at :: "path \<Rightarrow> string \<Rightarrow> path" where
  "at d f = (if f = ''.'' then d else if f = ''..'' then butlast d else d @ [f])"

record open_flags =
  of_create :: bool
  of_writable :: bool
  of_truncate :: bool
  of_directory :: bool

type_synonym sys = "tree \<Rightarrow> errno option \<times> tree"

text \<open>\<^verbatim>\<open>open\<close> of an absolute path, which follows links.\<close>

definition sys_open_dir :: "tree \<Rightarrow> string \<Rightarrow> errno + path" where
  "sys_open_dir t p = (if \<not> is_abs p then Inl ENOENT else
     case resolve t None True max_links [] (split_on CHR ''/'' p) of
       Inl e \<Rightarrow> Inl e
     | Inr d \<Rightarrow> (if is_dir t d then Inr d else Inl ENOTDIR))"

text \<open>\<^verbatim>\<open>openat\<close> and, with a root, \<^verbatim>\<open>openat2\<close> of a directory, without following a link at the end.\<close>

definition sys_openat_dir :: "tree \<Rightarrow> path option \<Rightarrow> path \<Rightarrow> string \<Rightarrow> errno + path" where
  "sys_openat_dir t root d p = (case resolve t root False max_links d (split_on CHR ''/'' p) of
     Inl e \<Rightarrow> Inl e
   | Inr q \<Rightarrow> (if is_dir t q then Inr q else Inl ENOTDIR))"

definition default_attrs :: "nat \<Rightarrow> attrs" where
  "default_attrs mode = \<lparr>at_mode = mode, at_uid = 0, at_gid = 0, at_times = (0, 0)\<rparr>"

text \<open>\<^verbatim>\<open>openat\<close> of a single name, without following a link.\<close>

definition sys_openat :: "path \<Rightarrow> string \<Rightarrow> open_flags \<Rightarrow> nat \<Rightarrow> tree \<Rightarrow> (errno + path) \<times> tree" where
  "sys_openat d f flags mode t = (let p = at d f in
     if \<not> is_dir t d then (Inl ENOENT, t)
     else case look t p of
       None \<Rightarrow> (if \<not> of_create flags then (Inl ENOENT, t)
         else case tr_refuse t p of Some e \<Rightarrow> (Inl e, t)
            | None \<Rightarrow> (Inr p, put_entry p (FileNode [], default_attrs mode) t))
     | Some (LinkNode _, _) \<Rightarrow> (Inl (if of_directory flags then ENOTDIR else ELOOP), t)
     | Some (DirNode, _) \<Rightarrow> (if of_create flags \<or> of_writable flags then (Inl EISDIR, t) else (Inr p, t))
     | Some (FileNode _, a) \<Rightarrow> (if of_directory flags then (Inl ENOTDIR, t)
         else if of_truncate flags then
           (case tr_refuse t p of Some e \<Rightarrow> (Inl e, t) | None \<Rightarrow> (Inr p, put_entry p (FileNode [], a) t))
         else (Inr p, t)))"

definition sys_mkdirat :: "path \<Rightarrow> string \<Rightarrow> nat \<Rightarrow> sys" where
  "sys_mkdirat d f mode t = (let p = at d f in
     if dot_name f then (Some EEXIST, t)
     else if \<not> is_dir t d then (Some ENOENT, t)
     else if look t p \<noteq> None then (Some EEXIST, t)
     else case tr_refuse t p of Some e \<Rightarrow> (Some e, t)
        | None \<Rightarrow> (None, put_entry p (DirNode, default_attrs mode) t))"

definition sys_unlinkat :: "path \<Rightarrow> string \<Rightarrow> bool \<Rightarrow> sys" where
  "sys_unlinkat d f rmdir t = (let p = at d f in
     if f = ''.'' then (Some (if rmdir then EINVAL else EISDIR), t)
     else if f = ''..'' then (Some (if rmdir then ENOTEMPTY else EISDIR), t)
     else case look t p of
       None \<Rightarrow> (Some ENOENT, t)
     | Some (n, _) \<Rightarrow> (case tr_refuse t p of Some e \<Rightarrow> (Some e, t)
         | None \<Rightarrow> (if n = DirNode then
               (if \<not> rmdir then (Some EISDIR, t)
                else if names_in t p \<noteq> [] then (Some ENOTEMPTY, t) else (None, drop_entry p t))
             else if rmdir then (Some ENOTDIR, t) else (None, drop_entry p t))))"

definition sys_symlinkat :: "string \<Rightarrow> path \<Rightarrow> string \<Rightarrow> sys" where
  "sys_symlinkat target d f t = (let p = at d f in
     if dot_name f \<or> look t p \<noteq> None then (Some EEXIST, t)
     else if \<not> is_dir t d then (Some ENOENT, t)
     else if target = [] then (Some ENOENT, t)
     else case tr_refuse t p of Some e \<Rightarrow> (Some e, t)
        | None \<Rightarrow> (None, put_entry p (LinkNode target, default_attrs 511) t))"

definition sys_renameat :: "path \<Rightarrow> string \<Rightarrow> path \<Rightarrow> string \<Rightarrow> sys" where
  "sys_renameat d f d' f' t = (let p = at d f; q = at d' f' in
     if dot_name f \<or> dot_name f' then (Some EBUSY, t)
     else if \<not> is_dir t d' then (Some ENOENT, t)
     else case look t p of
       None \<Rightarrow> (Some ENOENT, t)
     | Some (n, _) \<Rightarrow>
         (if p = q then (None, t)
          else if prefix p q then (Some EINVAL, t)
          else case tr_refuse t p of Some e \<Rightarrow> (Some e, t)
          | None \<Rightarrow> (case look t q of
              None \<Rightarrow> (None, move_entries p q t)
            | Some (n', _) \<Rightarrow>
                (if n' = DirNode \<and> n \<noteq> DirNode then (Some EISDIR, t)
                 else if n' \<noteq> DirNode \<and> n = DirNode then (Some ENOTDIR, t)
                 else if names_in t q \<noteq> [] then (Some ENOTEMPTY, t)
                 else (None, move_entries p q (drop_entry q t))))))"

text \<open>The calls on an existing entry, which may follow a link at its name.\<close>

definition target_of :: "bool \<Rightarrow> path \<Rightarrow> string \<Rightarrow> tree \<Rightarrow> errno + path" where
  "target_of follow d f t = resolve t None follow max_links d [f]"

definition sys_fstatat :: "bool \<Rightarrow> path \<Rightarrow> string \<Rightarrow> tree \<Rightarrow> errno + (path \<times> tentry)" where
  "sys_fstatat follow d f t = (case target_of follow d f t of
     Inl e \<Rightarrow> Inl e
   | Inr p \<Rightarrow> (case look t p of None \<Rightarrow> Inl ENOENT | Some e \<Rightarrow> Inr (p, e)))"

definition set_attrs :: "bool \<Rightarrow> path \<Rightarrow> string \<Rightarrow> (attrs \<Rightarrow> attrs) \<Rightarrow> sys" where
  "set_attrs follow d f change t = (case target_of follow d f t of
     Inl e \<Rightarrow> (Some e, t)
   | Inr p \<Rightarrow> (case look t p of
       None \<Rightarrow> (Some ENOENT, t)
     | Some (n, a) \<Rightarrow> (case tr_refuse t p of Some e \<Rightarrow> (Some e, t)
         | None \<Rightarrow> (None, if p = [] then t else put_entry p (n, change a) t))))"

definition sys_fchmodat :: "path \<Rightarrow> string \<Rightarrow> nat \<Rightarrow> sys" where
  "sys_fchmodat d f mode = set_attrs True d f (\<lambda>a. a\<lparr>at_mode := mode\<rparr>)"

definition sys_fchownat :: "path \<Rightarrow> string \<Rightarrow> int \<Rightarrow> int \<Rightarrow> bool \<Rightarrow> sys" where
  "sys_fchownat d f uid gid follow = set_attrs follow d f
     (\<lambda>a. a\<lparr>at_uid := (if uid = -1 then at_uid a else uid), at_gid := (if gid = -1 then at_gid a else gid)\<rparr>)"

text \<open>\<^verbatim>\<open>utimensat\<close>; a time of \<open>None\<close> is left as it is.\<close>

definition sys_utimensat :: "path \<Rightarrow> string \<Rightarrow> int option \<Rightarrow> int option \<Rightarrow> sys" where
  "sys_utimensat d f atime mtime = set_attrs True d f
     (\<lambda>a. a\<lparr>at_times := (case_option (fst (at_times a)) id atime, case_option (snd (at_times a)) id mtime)\<rparr>)"

section \<open>What a call leaves alone\<close>

text \<open>Everything that is not below \<open>b\<close>, and \<open>b\<close> itself, is as it was.\<close>

definition confined :: "path \<Rightarrow> tree \<Rightarrow> tree \<Rightarrow> bool" where
  "confined b t t' \<longleftrightarrow> (\<forall>p. \<not> strict_prefix b p \<longrightarrow> look t' p = look t p) \<and> tr_refuse t' = tr_refuse t"

lemma confined_refl [simp]: "confined b t t"
  by (simp add: confined_def)

lemma confined_trans: "confined b t u \<Longrightarrow> confined b u v \<Longrightarrow> confined b t v"
  by (simp add: confined_def)

lemma confined_put: "strict_prefix b p \<Longrightarrow> confined b t (put_entry p e t)"
  by (cases "p = []") (auto simp: confined_def look_put)

lemma confined_drop: "strict_prefix b p \<Longrightarrow> confined b t (drop_entry p t)"
  by (cases "p = []") (auto simp: confined_def look_drop)

lemma confined_move: "strict_prefix b p \<Longrightarrow> strict_prefix b q \<Longrightarrow> confined b t (move_entries p q t)"
proof -
  assume "strict_prefix b p" "strict_prefix b q"
  then have "\<not> prefix p r \<and> \<not> prefix q r" if "\<not> strict_prefix b r" for r
    using that by (meson prefix_order.less_le_trans)
  then show ?thesis by (auto simp: confined_def look_move_outside)
qed

lemma at_below: "prefix b d \<Longrightarrow> \<not> dot_name f \<Longrightarrow> strict_prefix b (at d f)"
  by (auto simp: at_def dot_name_def prefix_def strict_prefix_def)

lemma confined_calls:
  assumes "prefix b d" "\<not> dot_name f"
  shows "confined b t (snd (sys_openat d f flags mode t))" "confined b t (snd (sys_mkdirat d f mode t))"
    "confined b t (snd (sys_unlinkat d f rmdir t))" "confined b t (snd (sys_symlinkat target d f t))"
  using assms at_below [OF assms]
  by (auto simp: sys_openat_def sys_mkdirat_def sys_unlinkat_def sys_symlinkat_def Let_def confined_put confined_drop
      split: option.split node.split)

lemma confined_rename:
  assumes "prefix b d" "\<not> dot_name f" "prefix b d'" "\<not> dot_name f'"
  shows "confined b t (snd (sys_renameat d f d' f' t))"
proof -
  let ?p = "at d f" and ?q = "at d' f'"
  have below: "strict_prefix b ?p" "strict_prefix b ?q" using at_below assms by auto
  then have "confined b t (move_entries ?p ?q (drop_entry ?q t))"
    by (blast intro: confined_trans confined_drop confined_move)
  then show ?thesis using below
    by (auto simp: sys_renameat_def Let_def confined_move split: option.split)
qed

text \<open>Outside of \<open>b\<close>, which is \<open>b\<close> itself too, no entry comes, goes or becomes another; attributes may change.\<close>

definition same_nodes :: "path \<Rightarrow> tree \<Rightarrow> tree \<Rightarrow> bool" where
  "same_nodes b t t' \<longleftrightarrow> (\<forall>p. \<not> strict_prefix b p \<longrightarrow> map_option fst (look t' p) = map_option fst (look t p))"

lemma same_nodes_refl [simp]: "same_nodes b t t"
  by (simp add: same_nodes_def)

lemma same_nodes_trans: "same_nodes b t u \<Longrightarrow> same_nodes b u v \<Longrightarrow> same_nodes b t v"
  by (simp add: same_nodes_def)

lemma confined_same_nodes: "confined b t t' \<Longrightarrow> same_nodes b t t'"
  by (simp add: confined_def same_nodes_def)

lemma is_dir_node: "is_dir t p \<longleftrightarrow> map_option fst (look t p) = Some DirNode"
  by (auto simp: is_dir_def split: option.split node.split)

lemma set_attrs_nodes: "map_option fst (look (snd (set_attrs follow d f change t)) p) = map_option fst (look t p)"
  by (auto simp: set_attrs_def look_put split: sum.split option.split prod.split)

text \<open>Without following links the attributes of the name itself are changed.\<close>

lemma set_attrs_below:
  assumes "prefix b d" "f = ''.'' \<or> \<not> dot_name f" "\<not> prefix b p"
  shows "look (snd (set_attrs False d f change t)) p = look t p"
proof -
  have "prefix b q" if "target_of False d f t = Inr q" for q
    using that assms(1,2) by (auto simp: target_of_def dot_name_def split: if_splits option.splits prod.splits node.splits)
  then have "q \<noteq> p" if "target_of False d f t = Inr q" for q using that assms(3) by blast
  then show ?thesis by (auto simp: set_attrs_def look_put split: sum.split option.split prod.split)
qed

lemma is_dir_confined: "confined b t t' \<Longrightarrow> \<not> strict_prefix b p \<Longrightarrow> is_dir t' p = is_dir t p"
  by (simp add: confined_def is_dir_def)


lemma resolve_rooted:
  "resolve t root follow n cur cs = Inr p \<Longrightarrow> rooted_list cur \<Longrightarrow> \<forall>c \<in> set cs. CHR ''/'' \<notin> set c \<Longrightarrow> rooted_list p"
proof (induction t root follow n cur cs rule: resolve.induct)
  case (2 t root follow n cur c cs)
  have pop: "rooted_list (butlast cur)" using 2(7) by (auto simp: rooted_list_def list_all_iff dest: in_set_butlastD)
  have app: "rooted_list (cur @ [c])" if "c \<noteq> []" "c \<noteq> ''.''" "c \<noteq> ''..''"
    using 2(7,8) that by (auto simp: rooted_list_def plain_comp_def)
  have target: "\<forall>x \<in> set (split_on CHR ''/'' target @ cs). CHR ''/'' \<notin> set x" for target
    using 2(8) by (auto dest: split_on_no_sep)
  have nil: "rooted_list []" by (simp add: rooted_list_def)
  have tail: "\<forall>x \<in> set cs. CHR ''/'' \<notin> set x" using 2(8) by simp
  show ?case
    using 2(1-7) pop app target nil tail by (auto split: if_splits option.splits node.splits)
qed simp

lemma resolve_plain:
  assumes "\<forall>q. prefix q (cur @ cs) \<longrightarrow> is_dir t q" "rooted_list cs"
  shows "resolve t root follow n cur cs = Inr (cur @ cs)"
  using assms
proof (induction cs arbitrary: cur)
  case (Cons c cs)
  have "is_dir t (cur @ [c])" using Cons.prems(1) by (auto simp: prefix_def)
  then obtain a where "look t (cur @ [c]) = Some (DirNode, a)"
    by (auto simp: is_dir_def split: option.splits prod.splits node.splits)
  moreover have "c \<noteq> []" "c \<noteq> ''.''" "c \<noteq> ''..''" "rooted_list cs"
    using Cons.prems(2) by (auto simp: rooted_list_def plain_comp_def)
  ultimately show ?case using Cons.IH [of "cur @ [c]"] Cons.prems(1) by simp
qed simp


section \<open>Trees that grow and shrink\<close>

definition grows :: "tree \<Rightarrow> tree \<Rightarrow> bool" where
  "grows t t' \<longleftrightarrow> (\<forall>p. look t p \<noteq> None \<longrightarrow> look t' p = look t p)"

lemma grows_put: "look t p = None \<Longrightarrow> grows t (put_entry p e t)"
proof -
  assume p: "look t p = None"
  then have "p \<noteq> []" by (auto simp: look_def)
  then show ?thesis using p by (simp add: grows_def look_put)
qed

lemma grows_is_dir: "grows t t' \<Longrightarrow> is_dir t p \<Longrightarrow> is_dir t' p"
  by (cases "look t p") (auto simp: grows_def is_dir_def)

text \<open>A path that resolves still does where the tree has grown, to the same place.\<close>

lemma resolve_grows:
  "resolve t root follow n cur cs = Inr p \<Longrightarrow> grows t t' \<Longrightarrow> resolve t' root follow n cur cs = Inr p"
proof (induction t root follow n cur cs rule: resolve.induct)
  case (2 t root follow n cur c cs)
  show ?case
  proof (cases "c = [] \<or> c = ''.'' \<or> c = ''..''")
    case False
    then obtain m a where m: "look t (cur @ [c]) = Some (m, a)"
      using 2(6) by (auto split: option.splits)
    then have "look t' (cur @ [c]) = Some (m, a)" using 2(7) by (simp add: grows_def)
    then show ?thesis using 2 False m by (auto split: node.splits if_splits)
  qed (use 2 in \<open>auto split: if_splits\<close>)
qed simp

definition shrinks :: "tree \<Rightarrow> tree \<Rightarrow> bool" where
  "shrinks t t' \<longleftrightarrow> (\<forall>p. look t' p \<noteq> None \<longrightarrow> look t' p = look t p) \<and> tr_refuse t' = tr_refuse t"

lemma shrinks_refl [simp]: "shrinks t t"
  by (simp add: shrinks_def)

lemma shrinks_trans: "shrinks t u \<Longrightarrow> shrinks u v \<Longrightarrow> shrinks t v"
  by (simp add: shrinks_def)

lemma shrinks_unlink: "\<not> dot_name f \<Longrightarrow> shrinks t (snd (sys_unlinkat d f rmdir t))"
proof -
  assume "\<not> dot_name f"
  then have "at d f \<noteq> []" by (auto simp: at_def dot_name_def)
  then have "shrinks t (drop_entry (at d f) t)" by (simp add: shrinks_def look_drop)
  then show ?thesis by (auto simp: sys_unlinkat_def Let_def split: option.split)
qed

lemma shrinks_fold: "(\<And>c u. c \<in> set cs \<Longrightarrow> shrinks u (f c u)) \<Longrightarrow> shrinks t (fold f cs t)"
  by (induction cs arbitrary: t) (auto intro: shrinks_trans)

text \<open>Removing one after another what each step removes for good.\<close>

lemma fold_removes:
  assumes "\<And>c u. c \<in> set cs \<Longrightarrow> shrinks u (f c u)"
    "\<And>c u. c \<in> set cs \<Longrightarrow> shrinks t u \<Longrightarrow> look (f c u) (g c) = None" "c \<in> set cs"
  shows "look (fold f cs t) (g c) = None"
  using assms
proof (induction cs arbitrary: t)
  case (Cons x xs)
  have sh: "shrinks t (f x t)" using Cons.prems(1) by simp
  have later: "shrinks (f x t) (fold f xs (f x t))" by (rule shrinks_fold) (use Cons.prems(1) in simp)
  show ?case
  proof (cases "c \<in> set xs")
    case True
    then show ?thesis
      using Cons.IH [of "f x t"] Cons.prems(1,2) sh by (simp add: shrinks_trans [OF sh])
  next
    case False
    then have "look (f x t) (g c) = None" using Cons.prems(2,3) by simp
    then show ?thesis using later unfolding shrinks_def fold_simps(2) by fastforce
  qed
qed simp


text \<open>Every entry is in a directory.\<close>

definition closed_tree :: "tree \<Rightarrow> bool" where
  "closed_tree t \<longleftrightarrow> (\<forall>q. q \<noteq> [] \<longrightarrow> look t q \<noteq> None \<longrightarrow> is_dir t (butlast q))"

lemma closed_prefix:
  assumes "closed_tree t" "look t q \<noteq> None" "prefix p q"
  shows "look t p \<noteq> None"
  using assms(2,3)
proof (induction q rule: rev_induct)
  case (snoc c q)
  have "is_dir t q" using assms(1) [unfolded closed_tree_def, rule_format, of "q @ [c]"] snoc.prems(1) by simp
  then have "look t q \<noteq> None" by (auto simp: is_dir_def split: option.splits)
  then show ?case using snoc.IH snoc.prems by (metis prefix_snoc)
qed simp

lemma look_moved:
  assumes "\<not> prefix p q" "\<not> prefix q p" "\<forall>r. look t (q @ r) = None"
  shows "look (move_entries p q t) (q @ r) = look t (p @ r)" "look (move_entries p q t) (p @ r) = None"
proof -
  let ?mv = "\<lambda>xs :: (path \<times> tentry) list. map (\<lambda>(r, e). (if prefix p r then q @ drop (length p) r else r, e)) xs"
  have ne: "q \<noteq> []" "p \<noteq> []" using assms(1,2) by auto
  have free: "k = (s, e) \<Longrightarrow> k \<in> set (tr_entries t) \<Longrightarrow> \<not> prefix q s" for k s e
  proof
    assume k: "k = (s, e)" "k \<in> set (tr_entries t)" and "prefix q s"
    then obtain r where "s = q @ r" by (auto simp: prefix_def)
    moreover have "s \<in> fst ` set (tr_entries t)" using k by force
    then have "look t s \<noteq> None" by (simp add: look_def map_of_eq_None_iff del: not_None_eq)
    ultimately show False using assms(3) by simp
  qed
  have no: "\<not> prefix p (q @ s)" for s
    using assms(1,2) by (metis prefix_append prefix_same_cases prefixI)
  define ren where "ren s = (if prefix p s then q @ drop (length p) s else s)" for s
  have to: "ren s = q @ r \<longleftrightarrow> s = p @ r" if "\<not> prefix q s" for s
    using that by (auto simp: ren_def prefix_def)
  have "map_of (?mv xs) (q @ r) = map_of xs (p @ r)" if "set xs \<subseteq> set (tr_entries t)" for xs
    using that
  proof (induction xs)
    case (Cons k xs)
    obtain s e where k: "k = (s, e)" by (cases k) blast
    have "ren s = q @ r \<longleftrightarrow> s = p @ r" by (rule to [OF free [OF k]]) (use Cons.prems in simp)
    then show ?case using Cons by (auto simp: k ren_def [symmetric])
  qed simp
  then show "look (move_entries p q t) (q @ r) = look t (p @ r)"
    using ne by (simp add: look_def move_entries_def)
  have away: "p @ r \<noteq> ren s" for s
    using no unfolding ren_def by (metis prefixI)
  have "map_of (?mv xs) (p @ r) = None" for xs
  proof (induction xs)
    case (Cons k xs)
    then show ?case using away [of "fst k"] by (cases k) (simp add: ren_def [symmetric])
  qed simp
  then show "look (move_entries p q t) (p @ r) = None"
    using ne by (simp add: look_def move_entries_def)
qed

end
