(* ===== verification/Server_Copies.thy ===== *)
theory Server_Copies
  imports Unix_Tree Daemon_Mounts "HOL-Library.List_Lexorder" "HOL-Library.Char_ord"
begin

text \<open>
  What the copying of files into a server does to the tree of files: \<^verbatim>\<open>copyPath\<close>, \<^verbatim>\<open>copyFile\<close> and \<^verbatim>\<open>copyDir\<close> of
  \<^verbatim>\<open>daemon/server/copy.go\<close> and the change of owner after it, with the calls of Go's \<^verbatim>\<open>os\<close> and \<^verbatim>\<open>path/filepath\<close> they
  make, over the tree of \<^verbatim>\<open>Unix_Tree\<close>. The paths handed to them, which \<^verbatim>\<open>Daemon_Mounts.perform_copy\<close> computes, are
  absolute and clean, and are lists of components here. These calls are not those of the sandboxed file system:
  they follow links.
\<close>

section \<open>The calls of the standard library\<close>

text \<open>\<^verbatim>\<open>os.Stat\<close> and \<^verbatim>\<open>os.Lstat\<close>: where the path leads, and what is there.\<close>

definition os_stat :: "bool \<Rightarrow> path \<Rightarrow> tree \<Rightarrow> errno + (path \<times> tentry)" where
  "os_stat follow p t = (case resolve t None follow max_links [] p of
     Inl e \<Rightarrow> Inl e
   | Inr q \<Rightarrow> (case look t q of None \<Rightarrow> Inl ENOENT | Some e \<Rightarrow> Inr (q, e)))"

definition os_mkdir :: "path \<Rightarrow> nat \<Rightarrow> sys" where
  "os_mkdir p mode t = (if p = [] then (Some EEXIST, t)
     else case resolve t None True max_links [] (butlast p) of
       Inl e \<Rightarrow> (Some e, t)
     | Inr d \<Rightarrow> sys_mkdirat d (last p) mode t)"

text \<open>\<^verbatim>\<open>os.MkdirAll\<close>, of the components from the last to the first.\<close>

fun os_mkdir_all :: "nat \<Rightarrow> string list \<Rightarrow> sys" where
  "os_mkdir_all mode [] t = (None, t)"
| "os_mkdir_all mode (c # cs) t = (let p = rev (c # cs) in
     case os_stat True p t of
       Inr (_, n, _) \<Rightarrow> (if n = DirNode then None else Some ENOTDIR, t)
     | Inl _ \<Rightarrow> (case os_mkdir_all mode cs t of
         (Some e, t) \<Rightarrow> (Some e, t)
       | (None, t) \<Rightarrow> (case os_mkdir p mode t of
           (None, t) \<Rightarrow> (None, t)
         | (Some e, t) \<Rightarrow> (case os_stat False p t of
             Inr (_, DirNode, _) \<Rightarrow> (None, t)
           | _ \<Rightarrow> (Some e, t)))))"

text \<open>
  \<^verbatim>\<open>os.OpenFile\<close> with \<^verbatim>\<open>O_WRONLY|O_CREATE|O_TRUNC\<close>: a link at the end is followed, also one that leads to a name
  that is not there, which is then made. The result is where the file is.
\<close>

fun create_at :: "nat \<Rightarrow> path \<Rightarrow> string \<Rightarrow> nat \<Rightarrow> tree \<Rightarrow> (errno + path) \<times> tree" where
  "create_at n d f mode t =
     (if f = [] \<or> dot_name f then (Inl EISDIR, t)
      else if \<not> is_dir t d then (Inl ENOTDIR, t)
      else case look t (d @ [f]) of
        None \<Rightarrow> (case tr_refuse t (d @ [f]) of
            Some e \<Rightarrow> (Inl e, t)
          | None \<Rightarrow> (Inr (d @ [f]), put_entry (d @ [f]) (FileNode [], default_attrs mode) t))
      | Some (DirNode, _) \<Rightarrow> (Inl EISDIR, t)
      | Some (FileNode _, a) \<Rightarrow> (case tr_refuse t (d @ [f]) of
            Some e \<Rightarrow> (Inl e, t)
          | None \<Rightarrow> (Inr (d @ [f]), put_entry (d @ [f]) (FileNode [], a) t))
      | Some (LinkNode target, _) \<Rightarrow> (case n of
            0 \<Rightarrow> (Inl ELOOP, t)
          | Suc n \<Rightarrow>
              (let cs = split_on CHR ''/'' target in
               case resolve t None True n (if is_abs target then [] else d) (butlast cs) of
                 Inl e \<Rightarrow> (Inl e, t)
               | Inr d' \<Rightarrow> create_at n d' (last cs) mode t)))"

definition os_create :: "path \<Rightarrow> nat \<Rightarrow> tree \<Rightarrow> (errno + path) \<times> tree" where
  "os_create p mode t = (if p = [] then (Inl EISDIR, t)
     else case resolve t None True max_links [] (butlast p) of
       Inl e \<Rightarrow> (Inl e, t)
     | Inr d \<Rightarrow> create_at max_links d (last p) mode t)"

text \<open>
  What may go wrong besides: an entry cannot be opened to be read, and what is read of a file breaks off after some
  bytes.
\<close>

record faults =
  fa_closed :: "path \<Rightarrow> bool"
  fa_short :: "path \<Rightarrow> nat option"

text \<open>\<^verbatim>\<open>os.ReadDir\<close>: the names in order, and which of them are directories.\<close>

definition os_read_dir :: "faults \<Rightarrow> path \<Rightarrow> tree \<Rightarrow> errno + (string \<times> bool) list" where
  "os_read_dir fa p t = (case os_stat True p t of
     Inl e \<Rightarrow> Inl e
   | Inr (q, n, _) \<Rightarrow> (if n \<noteq> DirNode then Inl ENOTDIR
       else if fa_closed fa q then Inl EACCES
       else Inr (map (\<lambda>f. (f, is_dir t (q @ [f]))) (sort (names_in t q)))))"

text \<open>\<^verbatim>\<open>os.Chown\<close>, which follows links.\<close>

definition os_chown :: "int \<Rightarrow> int \<Rightarrow> path \<Rightarrow> sys" where
  "os_chown uid gid p t = (case os_stat True p t of
     Inl e \<Rightarrow> (Some e, t)
   | Inr (q, n, a) \<Rightarrow> (case tr_refuse t q of
       Some e \<Rightarrow> (Some e, t)
     | None \<Rightarrow> (None, if q = [] then t
         else put_entry q (n, a\<lparr>at_uid := (if uid = -1 then at_uid a else uid), at_gid := (if gid = -1 then at_gid a else gid)\<rparr>) t)))"

section \<open>Copying\<close>

definition write_content :: "path \<Rightarrow> string \<Rightarrow> tree \<Rightarrow> tree" where
  "write_content p c t = (case look t p of Some (FileNode _, a) \<Rightarrow> put_entry p (FileNode c, a) t | _ \<Rightarrow> t)"

text \<open>
  \<^verbatim>\<open>copyFile\<close>: the source is opened first and read last, after the destination has been truncated. A directory can
  be opened, and not read.
\<close>

definition copy_file :: "faults \<Rightarrow> path \<Rightarrow> path \<Rightarrow> nat \<Rightarrow> sys" where
  "copy_file fa src dst mode t = (case os_stat True src t of
     Inl e \<Rightarrow> (Some e, t)
   | Inr (q, _) \<Rightarrow>
       (if fa_closed fa q then (Some EACCES, t)
        else case os_mkdir_all 493 (rev (butlast dst)) t of
          (Some e, t) \<Rightarrow> (Some e, t)
        | (None, t) \<Rightarrow> (case os_create dst (mode mod 512) t of
            (Inl e, t) \<Rightarrow> (Some e, t)
          | (Inr p, t) \<Rightarrow> (case look t q of
              Some (FileNode c, _) \<Rightarrow> (case fa_short fa q of
                  None \<Rightarrow> (None, write_content p c t)
                | Some n \<Rightarrow> (Some EIO, write_content p (take n c) t))
            | _ \<Rightarrow> (Some EISDIR, t)))))"

text \<open>The function of \<^verbatim>\<open>copyDir\<close> for an entry that is not a directory.\<close>

definition copy_leaf :: "faults \<Rightarrow> path \<Rightarrow> path \<Rightarrow> sys" where
  "copy_leaf fa src dst t = (case os_stat False src t of
     Inl e \<Rightarrow> (Some e, t)
   | Inr (_, FileNode _, a) \<Rightarrow> copy_file fa src dst (at_mode a) t
   | Inr _ \<Rightarrow> (None, t))"

primrec each_entry :: "('a \<Rightarrow> sys) \<Rightarrow> 'a list \<Rightarrow> sys" where
  "each_entry f [] t = (None, t)"
| "each_entry f (x # xs) t = (case f x t of (Some e, t) \<Rightarrow> (Some e, t) | (None, t) \<Rightarrow> each_entry f xs t)"

text \<open>
  \<^verbatim>\<open>filepath.WalkDir\<close> with the function of \<^verbatim>\<open>copyDir\<close>, from a directory on: it is made at the destination, and then what
  is in it is copied in the order of the names. \<open>k\<close> is how deep the kernel lets paths go, which are refused when
  they are too long.
\<close>

primrec copy_walk :: "nat \<Rightarrow> faults \<Rightarrow> path \<Rightarrow> path \<Rightarrow> sys" where
  "copy_walk 0 fa src dst t = (Some ENAMETOOLONG, t)"
| "copy_walk (Suc k) fa src dst t = (case os_mkdir_all 493 (rev dst) t of
     (Some e, t) \<Rightarrow> (Some e, t)
   | (None, t) \<Rightarrow> (case os_read_dir fa src t of
       Inl e \<Rightarrow> (Some e, t)
     | Inr es \<Rightarrow> each_entry (\<lambda>(f, d). if d then copy_walk k fa (src @ [f]) (dst @ [f]) else copy_leaf fa (src @ [f]) (dst @ [f])) es t))"

definition copy_dir :: "nat \<Rightarrow> faults \<Rightarrow> path \<Rightarrow> path \<Rightarrow> sys" where
  "copy_dir k fa src dst t = (case os_stat False src t of
     Inl e \<Rightarrow> (Some e, t)
   | Inr (_, DirNode, _) \<Rightarrow> copy_walk k fa src dst t
   | Inr _ \<Rightarrow> copy_leaf fa src dst t)"

definition copy_path :: "nat \<Rightarrow> faults \<Rightarrow> path \<Rightarrow> path \<Rightarrow> sys" where
  "copy_path k fa src dst t = (case os_stat True src t of
     Inl e \<Rightarrow> (Some e, t)
   | Inr (_, n, a) \<Rightarrow> (if n = DirNode then copy_dir k fa src dst t else copy_file fa src dst (at_mode a) t))"

text \<open>\<^verbatim>\<open>ChownRecursiveUnsafe\<close> of one path; the owner is \<open>None\<close> without a configuration.\<close>

primrec chown_walk :: "nat \<Rightarrow> faults \<Rightarrow> int \<Rightarrow> int \<Rightarrow> path \<Rightarrow> sys" where
  "chown_walk 0 fa uid gid p t = (Some ENAMETOOLONG, t)"
| "chown_walk (Suc k) fa uid gid p t = (case os_chown uid gid p t of
     (Some e, t) \<Rightarrow> (Some e, t)
   | (None, t) \<Rightarrow> (case os_read_dir fa p t of
       Inl e \<Rightarrow> (Some e, t)
     | Inr es \<Rightarrow> each_entry (\<lambda>(f, d). if d then chown_walk k fa uid gid (p @ [f]) else os_chown uid gid (p @ [f])) es t))"

definition chown_recursive :: "nat \<Rightarrow> faults \<Rightarrow> (int \<times> int) option \<Rightarrow> path \<Rightarrow> sys" where
  "chown_recursive k fa owner p t = (case owner of
     None \<Rightarrow> (None, t)
   | Some (uid, gid) \<Rightarrow> (case os_stat False p t of
       Inl e \<Rightarrow> (Some e, t)
     | Inr (_, DirNode, _) \<Rightarrow> chown_walk k fa uid gid p t
     | Inr _ \<Rightarrow> os_chown uid gid p t))"

text \<open>All entries: what fails is logged, and the next one follows; the owner is changed only after a copy that succeeded.\<close>

fun run_copies :: "nat \<Rightarrow> faults \<Rightarrow> (int \<times> int) option \<Rightarrow> (string \<times> string) list \<Rightarrow> tree \<Rightarrow> tree" where
  "run_copies k fa owner [] t = t"
| "run_copies k fa owner ((s, d) # ps) t = (case copy_path k fa (path_comps s) (path_comps d) t of
     (Some _, t) \<Rightarrow> run_copies k fa owner ps t
   | (None, t) \<Rightarrow> run_copies k fa owner ps (snd (chown_recursive k fa owner (path_comps d) t)))"

definition copy_into_server ::
  "nat \<Rightarrow> faults \<Rightarrow> (int \<times> int) option \<Rightarrow> string option \<Rightarrow> string \<Rightarrow> string list \<Rightarrow> string \<Rightarrow> copy_entry list \<Rightarrow> tree \<Rightarrow> tree" where
  "copy_into_server k fa owner wd rootDir allowed destRoot es t =
     run_copies k fa owner (perform_copy wd rootDir allowed destRoot es) t"

section \<open>What copying changes\<close>

definition is_link :: "tree \<Rightarrow> path \<Rightarrow> bool" where
  "is_link t p \<longleftrightarrow> (\<exists>x a. look t p = Some (LinkNode x, a))"

definition has_content :: "tree \<Rightarrow> path \<Rightarrow> string \<Rightarrow> bool" where
  "has_content t p c \<longleftrightarrow> (\<exists>a. look t p = Some (FileNode c, a))"

text \<open>
  From \<open>t\<close> to \<open>t'\<close> only entries at or below \<open>b\<close> have changed, no link has come, no directory has gone, and what a
  file holds it held before, or it is the beginning of what a file of \<open>A\<close> held, or nothing.
\<close>

definition copied :: "path set \<Rightarrow> path \<Rightarrow> tree \<Rightarrow> tree \<Rightarrow> bool" where
  "copied A b t t' \<longleftrightarrow> (\<forall>p. \<not> prefix b p \<longrightarrow> look t' p = look t p) \<and> (\<forall>p. is_link t' p \<longrightarrow> is_link t p) \<and>
     (\<forall>p. is_dir t p \<longrightarrow> is_dir t' p) \<and>
     (\<forall>p c. has_content t' p c \<longrightarrow> has_content t p c \<or> c = [] \<or> (\<exists>q \<in> A. \<exists>c'. has_content t q c' \<and> prefix c c'))"

lemma copied_refl [simp]: "copied A b t t"
  by (simp add: copied_def)

lemma copied_trans:
  assumes "copied A b t u" "copied A b u v"
  shows "copied A b t v"
proof -
  have "has_content t p c \<or> c = [] \<or> (\<exists>q \<in> A. \<exists>c'. has_content t q c' \<and> prefix c c')" if v: "has_content v p c" for p c
  proof -
    consider "has_content u p c" | "c = []" | q c' where "q \<in> A" "has_content u q c'" "prefix c c'"
      using v assms(2) unfolding copied_def by blast
    then show ?thesis
    proof cases
      case 3
      then consider "has_content t q c'" | "c' = []" | q' c2 where "q' \<in> A" "has_content t q' c2" "prefix c' c2"
        using assms(1) unfolding copied_def by blast
      then show ?thesis using 3 by cases (auto intro: prefix_order.trans)
    qed (use assms(1) in \<open>auto simp: copied_def\<close>)
  qed
  then show ?thesis using assms unfolding copied_def by simp
qed

lemma copied_links: "copied A b t t' \<Longrightarrow> \<not> is_link t p \<Longrightarrow> \<not> is_link t' p"
  by (auto simp: copied_def)

lemma copied_dirs: "copied A b t t' \<Longrightarrow> is_dir t p \<Longrightarrow> is_dir t' p"
  by (simp add: copied_def)

lemma dir_not_link: "is_dir t p \<Longrightarrow> \<not> is_link t p"
  by (auto simp: is_dir_def is_link_def split: option.splits prod.splits node.splits)

text \<open>The ways an entry is written.\<close>

lemma copied_put_dir: "prefix b p \<Longrightarrow> look t p = None \<Longrightarrow> copied A b t (put_entry p (DirNode, a) t)"
proof -
  assume "prefix b p" "look t p = None"
  moreover from this have "p \<noteq> []" by (auto simp: look_def)
  ultimately show ?thesis by (auto simp: copied_def look_put is_link_def is_dir_def has_content_def)
qed

lemma copied_put_file:
  assumes "prefix b p" "p \<noteq> []" "\<not> is_dir t p" "c = [] \<or> (\<exists>q \<in> A. \<exists>c'. has_content t q c' \<and> prefix c c')"
  shows "copied A b t (put_entry p (FileNode c, a) t)"
  using assms by (auto simp: copied_def look_put is_link_def is_dir_def has_content_def)

lemma copied_put_same:
  assumes "prefix b p" "p \<noteq> []" "look t p = Some (n, a)"
  shows "copied A b t (put_entry p (n, a') t)"
  using assms by (auto simp: copied_def look_put is_link_def is_dir_def has_content_def split: node.splits)

text \<open>A path that follows no link leads where it says.\<close>

definition plain_path :: "path \<Rightarrow> bool" where
  "plain_path p \<longleftrightarrow> (\<forall>c \<in> set p. c \<noteq> [] \<and> \<not> dot_name c)"

definition clear :: "tree \<Rightarrow> path \<Rightarrow> bool" where
  "clear t p \<longleftrightarrow> plain_path p \<and> (\<forall>q. prefix q p \<longrightarrow> \<not> is_link t q)"

lemma resolve_linkless:
  assumes "resolve t None follow n cur cs = Inr p" "plain_path cs"
    "\<forall>q. strict_prefix q (cur @ cs) \<longrightarrow> \<not> is_link t q" "follow \<longrightarrow> \<not> is_link t (cur @ cs)"
  shows "p = cur @ cs"
  using assms
proof (induction cs arbitrary: cur)
  case (Cons c cs)
  have c: "c \<noteq> []" "c \<noteq> ''.''" "c \<noteq> ''..''" "plain_path cs" using Cons.prems(2) by (auto simp: plain_path_def dot_name_def)
  have step: "resolve t None follow n (cur @ [c]) cs = Inr p \<Longrightarrow> p = cur @ c # cs"
    using Cons.IH [of "cur @ [c]"] Cons.prems(3,4) c(4) by simp
  have link: "\<not> is_link t (cur @ [c])" if "cs \<noteq> [] \<or> follow"
    using Cons.prems(3,4) that by (cases cs) (auto simp: strict_prefix_def prefix_def)
  show ?case
  proof (cases "look t (cur @ [c])")
    case (Some e)
    obtain m a where e: "e = (m, a)" by (cases e)
    show ?thesis
    proof (cases m)
      case (FileNode x)
      then show ?thesis using Cons.prems(1) Some e c by (auto split: if_splits)
    next
      case DirNode
      then show ?thesis using Cons.prems(1) Some e c step by simp
    next
      case (LinkNode x)
      then have "cs = [] \<and> \<not> follow" using link Some e by (auto simp: is_link_def)
      then show ?thesis using Cons.prems(1) Some e c LinkNode by simp
    qed
  qed (use Cons.prems(1) c in simp)
qed simp

lemma resolve_dirs:
  assumes "\<forall>q. prefix q (cur @ cs) \<longrightarrow> is_dir t q" "plain_path cs"
  shows "resolve t None follow n cur cs = Inr (cur @ cs)"
  using assms
proof (induction cs arbitrary: cur)
  case (Cons c cs)
  have "is_dir t (cur @ [c])" using Cons.prems(1) by (auto simp: prefix_def)
  then obtain a where "look t (cur @ [c]) = Some (DirNode, a)"
    by (auto simp: is_dir_def split: option.splits prod.splits node.splits)
  moreover have "c \<noteq> []" "c \<noteq> ''.''" "c \<noteq> ''..''" "plain_path cs" using Cons.prems(2) by (auto simp: plain_path_def dot_name_def)
  ultimately show ?case using Cons.IH [of "cur @ [c]"] Cons.prems(1) by simp
qed simp

lemma clear_resolve: "clear t p \<Longrightarrow> resolve t None follow n [] p = Inr q \<Longrightarrow> q = p"
  using resolve_linkless [of t follow n "[]" p q] by (auto simp: clear_def strict_prefix_def)

lemma clear_stat:
  assumes "clear t p" "os_stat follow p t = Inr (q, n, a)"
  shows "q = p" "look t p = Some (n, a)"
  using assms clear_resolve [OF assms(1)] by (auto simp: os_stat_def split: sum.splits option.splits)

lemma clear_prefix: "clear t p \<Longrightarrow> prefix q p \<Longrightarrow> clear t q"
  unfolding clear_def plain_path_def by (meson prefix_order.trans set_mono_prefix subsetD)

lemma clear_copied: "copied A b t t' \<Longrightarrow> clear t p \<Longrightarrow> clear t' p"
  by (auto simp: clear_def dest: copied_links)

lemma clear_snoc: "clear t p \<Longrightarrow> \<not> is_link t (p @ [f]) \<Longrightarrow> f \<noteq> [] \<Longrightarrow> \<not> dot_name f \<Longrightarrow> clear t (p @ [f])"
  by (auto simp: clear_def plain_path_def prefix_snoc)

text \<open>A directory that is there, on the way to which and below which there is no link.\<close>

definition safe_dest :: "path \<Rightarrow> tree \<Rightarrow> bool" where
  "safe_dest b t \<longleftrightarrow> plain_path b \<and> (\<forall>q. prefix q b \<longrightarrow> is_dir t q) \<and> (\<forall>q. prefix b q \<longrightarrow> \<not> is_link t q)"

lemma safe_dest_copied: "copied A b t t' \<Longrightarrow> safe_dest b t \<Longrightarrow> safe_dest b t'"
  by (auto simp: safe_dest_def dest: copied_links copied_dirs)

lemma safe_clear: "safe_dest b t \<Longrightarrow> prefix b d \<Longrightarrow> plain_path d \<Longrightarrow> clear t d"
  unfolding clear_def safe_dest_def using dir_not_link prefix_same_cases by metis

lemma mkdir_all_copied:
  assumes "safe_dest b t" "plain_path (rev cs)" "prefix b (rev cs) \<or> prefix (rev cs) b"
  shows "copied A b t (snd (os_mkdir_all mode cs t))"
  using assms(2,3)
proof (induction cs)
  case (Cons c cs)
  let ?p = "rev (c # cs)"
  show ?case
  proof (cases "prefix ?p b")
    case True
    then have d: "\<forall>q. prefix q ([] @ ?p) \<longrightarrow> is_dir t q"
      using assms(1) unfolding safe_dest_def append_Nil by (meson prefix_order.trans)
    then have "os_stat True ?p t = (case look t ?p of None \<Rightarrow> Inl ENOENT | Some e \<Rightarrow> Inr (?p, e))"
      using resolve_dirs [OF d Cons.prems(1)] by (cases "look t ?p") (simp_all add: os_stat_def)
    moreover have "is_dir t ?p" using d by simp
    ultimately obtain a where "os_stat True ?p t = Inr (?p, DirNode, a)"
      by (auto simp: is_dir_def split: option.splits prod.splits node.splits)
    then show ?thesis by simp
  next
    case False
    then have b: "prefix b ?p" "prefix b (rev cs)" using Cons.prems(2) by auto
    have pl: "plain_path (rev cs)" using Cons.prems(1) by (auto simp: plain_path_def)
    obtain r u where u: "os_mkdir_all mode cs t = (r, u)" by fastforce
    have tu: "copied A b t u" using Cons.IH [OF pl] b(2) u by simp
    have "copied A b u (snd (os_mkdir ?p mode u))"
    proof (cases "resolve u None True max_links [] (rev cs)")
      case (Inr d)
      have "clear u (rev cs)" using clear_copied [OF tu safe_clear [OF assms(1) b(2) pl]] .
      then have d: "d = rev cs" using clear_resolve Inr by blast
      have "\<not> dot_name c" using Cons.prems(1) by (auto simp: plain_path_def)
      then have "at d c = ?p" by (simp add: at_def dot_name_def d)
      then show ?thesis using Inr copied_put_dir [OF b(1)]
        by (cases "look u ?p") (auto simp: os_mkdir_def sys_mkdirat_def Let_def split: option.split)
    qed (simp add: os_mkdir_def)
    then have "copied A b t (snd (os_mkdir ?p mode u))" using copied_trans [OF tu] by blast
    then show ?thesis using tu u
      by (auto simp: Let_def split: sum.split option.split prod.split node.split)
  qed
qed simp

lemma create_copied:
  assumes "safe_dest b t" "plain_path p" "prefix b p" "os_create p mode t = (r, t')"
  shows "copied A b t t' \<and> (\<forall>q. r = Inr q \<longrightarrow> q = p \<and> p \<noteq> [] \<and> \<not> is_dir t' p)"
proof -
  have c: "clear t p" using safe_clear [OF assms(1,3,2)] .
  show ?thesis
  proof (cases "p = [] \<or> (\<exists>e. resolve t None True max_links [] (butlast p) = Inl e)")
    case True
    then show ?thesis using assms(4) by (auto simp: os_create_def split: if_splits)
  next
    case False
    then obtain d where 3: "p \<noteq> []" "resolve t None True max_links [] (butlast p) = Inr d"
      by (cases "resolve t None True max_links [] (butlast p)") auto
    then have cr: "create_at max_links d (last p) mode t = (r, t')" using assms(4) by (simp add: os_create_def)
    note 3 = 3 cr
    have d: "d = butlast p" using clear_resolve [OF clear_prefix [OF c] 3(2)] 3(1) by (simp add: prefixeq_butlast)
    have p: "d @ [last p] = p" using d 3(1) by simp
    have l: "last p \<noteq> []" "\<not> dot_name (last p)" using assms(2) 3(1) by (auto simp: plain_path_def)
    have nl: "\<not> is_link t p" using c by (simp add: clear_def)
    show ?thesis
    proof (cases "look t p")
      case None
      then show ?thesis using 3 p l assms(3) by (auto simp: create_at.simps [of max_links] copied_put_file is_dir_def look_put split: if_splits option.splits)
    next
      case (Some e)
      obtain m a where e: "e = (m, a)" by (cases e)
      show ?thesis
      proof (cases m)
        case (FileNode x)
        then show ?thesis using Some e 3 p l assms(3)
          by (auto simp: create_at.simps [of max_links] copied_put_file is_dir_def look_put split: if_splits option.splits)
      next
        case DirNode
        then show ?thesis using Some e 3 p l by (auto simp: create_at.simps [of max_links] split: if_splits)
      next
        case (LinkNode x)
        then show ?thesis using nl Some e by (auto simp: is_link_def)
      qed
    qed
  qed
qed

text \<open>The steps of a copy; \<open>A\<close> is what may be read.\<close>

lemma write_content_copied:
  assumes "prefix b p" "p \<noteq> []" "has_content t q c" "q \<in> A" "prefix c' c"
  shows "copied A b t (write_content p c' t)"
proof (cases "\<exists>x a. look t p = Some (FileNode x, a)")
  case True
  then obtain x a where p: "look t p = Some (FileNode x, a)" by blast
  then have "\<not> is_dir t p" by (simp add: is_dir_def)
  moreover have "c' = [] \<or> (\<exists>q \<in> A. \<exists>x. has_content t q x \<and> prefix c' x)" using assms(3-5) by blast
  ultimately show ?thesis using copied_put_file [OF assms(1,2), of t c' A a] p by (simp add: write_content_def)
qed (auto simp: write_content_def split: option.split prod.split node.split)

lemma copy_file_copied:
  assumes "clear t src" "src \<in> A" "safe_dest b t" "plain_path dst" "prefix b dst"
  shows "copied A b t (snd (copy_file fa src dst mode t))"
proof (cases "os_stat True src t")
  case (Inr r)
  obtain q n a where r: "r = (q, n, a)" by (cases r)
  then have q: "q = src" using clear_stat [OF assms(1)] Inr by blast
  obtain r1 t1 where t1: "os_mkdir_all 493 (rev (butlast dst)) t = (r1, t1)" by fastforce
  have "prefix b (butlast dst) \<or> prefix (butlast dst) b"
    using assms(5) by (cases dst rule: rev_cases) (auto simp: prefix_snoc)
  moreover have "plain_path (butlast dst)" using assms(4) by (auto simp: plain_path_def dest: in_set_butlastD)
  ultimately have c1: "copied A b t t1" using mkdir_all_copied [OF assms(3), of "rev (butlast dst)" A 493] t1 by simp
  obtain r2 t2 where t2: "os_create dst (mode mod 512) t1 = (r2, t2)" by fastforce
  have c2: "copied A b t1 t2" "\<And>p. r2 = Inr p \<Longrightarrow> p = dst \<and> dst \<noteq> []"
    using create_copied [OF safe_dest_copied [OF c1 assms(3)] assms(4,5) t2, of A] by auto
  have c12: "copied A b t t2" using copied_trans [OF c1 c2(1)] .
  have last: "copied A b t (write_content dst c' t2)" if "look t2 src = Some (FileNode c, a)" "prefix c' c" "r2 = Inr p" for c c' a p
    using write_content_copied [OF assms(5) _ _ assms(2) that(2), of t2] that(1,3) c2(2) copied_trans [OF c12]
    by (auto simp: has_content_def)
  show ?thesis using Inr r q t1 t2 c1 c12 c2(2) last
    by (auto simp: copy_file_def take_is_prefix split: option.split sum.split node.split)
qed (simp add: copy_file_def)

lemma copy_leaf_copied:
  assumes "\<forall>q. strict_prefix q src \<longrightarrow> \<not> is_link t q" "plain_path src" "src \<in> A" "safe_dest b t" "plain_path dst" "prefix b dst"
  shows "copied A b t (snd (copy_leaf fa src dst t))"
proof (cases "os_stat False src t")
  case (Inr r)
  obtain q n a where r: "r = (q, n, a)" by (cases r)
  have q: "q = src" "look t src = Some (n, a)"
    using Inr r resolve_linkless [of t False max_links "[]" src q] assms(1,2)
    by (auto simp: os_stat_def split: sum.splits option.splits)
  show ?thesis
  proof (cases n)
    case (FileNode x)
    then have "\<not> is_link t src" using q by (simp add: is_link_def)
    then have "clear t src" using assms(1,2) by (auto simp: clear_def strict_prefix_def)
    then show ?thesis using copy_file_copied [OF _ assms(3-6)] Inr r FileNode by (simp add: copy_leaf_def)
  qed (use Inr r in \<open>simp_all add: copy_leaf_def\<close>)
qed (simp add: copy_leaf_def)

lemma each_entry_copied:
  assumes "\<And>x u. x \<in> set xs \<Longrightarrow> copied A b t u \<Longrightarrow> copied A b u (snd (f x u))" "copied A b t u"
  shows "copied A b t (snd (each_entry f xs u))"
  using assms
proof (induction xs arbitrary: u)
  case (Cons x xs)
  obtain r w where w: "f x u = (r, w)" by fastforce
  have "copied A b t w" using copied_trans [OF Cons.prems(2)] Cons.prems(1) [of x u] Cons.prems(2) w by simp
  then show ?case using Cons.IH [of w] Cons.prems(1) w by (simp split: option.split)
qed simp

lemma read_dir_clear:
  assumes "os_read_dir fa p t = Inr es" "clear t p" "(f, d) \<in> set es"
  shows "f \<noteq> []" "\<not> dot_name f" "d = is_dir t (p @ [f])"
proof -
  obtain q n a where s: "os_stat True p t = Inr (q, n, a)" "es = map (\<lambda>f. (f, is_dir t (q @ [f]))) (sort (names_in t q))"
    using assms(1) by (auto simp: os_read_dir_def split: sum.splits if_splits)
  then have "q = p" using clear_stat [OF assms(2)] by blast
  then show "f \<noteq> []" "\<not> dot_name f" "d = is_dir t (p @ [f])" using assms(3) s(2) by (auto simp: names_in_iff)
qed

lemma copy_walk_copied:
  assumes "clear t src" "\<forall>q. prefix src q \<longrightarrow> q \<in> A" "safe_dest b t" "plain_path dst" "prefix b dst"
  shows "copied A b t (snd (copy_walk k fa src dst t))"
  using assms
proof (induction k arbitrary: src dst t)
  case (Suc k)
  obtain r u where u: "os_mkdir_all 493 (rev dst) t = (r, u)" by fastforce
  have tu: "copied A b t u" using mkdir_all_copied [OF Suc.prems(3), of "rev dst" A 493] Suc.prems(4,5) u by simp
  have cu: "clear u src" using clear_copied [OF tu Suc.prems(1)] .
  show ?case
  proof (cases "os_read_dir fa src u")
    case (Inr es)
    let ?f = "\<lambda>(f, d). if d then copy_walk k fa (src @ [f]) (dst @ [f]) else copy_leaf fa (src @ [f]) (dst @ [f])"
    have "copied A b u (snd (each_entry ?f es u))"
    proof (rule each_entry_copied [OF _ copied_refl])
      fix x w assume x: "x \<in> set es" and w: "copied A b u w"
      obtain f d where fd: "x = (f, d)" by (cases x)
      note nm = read_dir_clear [OF Inr cu, of f d] x fd
      have f: "f \<noteq> []" "\<not> dot_name f" "d = is_dir u (src @ [f])" using nm by simp_all
      have cw: "clear w src" "safe_dest b w"
        using clear_copied [OF w cu] safe_dest_copied [OF copied_trans [OF tu w] Suc.prems(3)] by simp_all
      have A: "\<forall>q. prefix (src @ [f]) q \<longrightarrow> q \<in> A" using Suc.prems(2) by (auto simp: prefix_def)
      have dst: "plain_path (dst @ [f])" "prefix b (dst @ [f])" "plain_path (src @ [f])"
        using Suc.prems(4,5) f cw(1) by (auto simp: plain_path_def clear_def)
      show "copied A b w (snd (?f x w))"
      proof (cases d)
        case True
        then have "is_dir w (src @ [f])" using copied_dirs [OF w] f(3) by simp
        then have "clear w (src @ [f])" using clear_snoc [OF cw(1) dir_not_link f(1,2)] by blast
        then show ?thesis using Suc.IH [OF _ A cw(2) dst(1,2)] True fd by simp
      next
        case False
        have "\<forall>q. strict_prefix q (src @ [f]) \<longrightarrow> \<not> is_link w q"
          using cw(1) by (auto simp: clear_def strict_prefix_def prefix_snoc)
        moreover have "src @ [f] \<in> A" using A by blast
        ultimately show ?thesis using copy_leaf_copied [OF _ dst(3) _ cw(2) dst(1,2)] False fd by simp
      qed
    qed
    then have "copied A b t (snd (each_entry ?f es u))" using copied_trans [OF tu] by blast
    then show ?thesis using u tu Inr by (simp split: option.split)
  qed (use u tu in \<open>simp split: option.split\<close>)
qed simp

lemma copy_path_copied:
  assumes "clear t src" "\<forall>q. prefix src q \<longrightarrow> q \<in> A" "safe_dest b t" "plain_path dst" "prefix b dst"
  shows "copied A b t (snd (copy_path k fa src dst t))"
proof -
  have A: "src \<in> A" using assms(2) by blast
  have leaf: "copied A b t (snd (copy_leaf fa src dst t))"
    by (rule copy_leaf_copied [OF _ _ A assms(3-5)]) (use assms(1) in \<open>auto simp: clear_def\<close>)
  have "copied A b t (snd (copy_dir k fa src dst t))"
    using leaf copy_walk_copied [OF assms] by (simp add: copy_dir_def split: sum.split prod.split node.split)
  then show ?thesis using copy_file_copied [OF assms(1) A assms(3-5)]
    by (simp add: copy_path_def split: sum.split prod.split)
qed

lemma os_chown_copied:
  assumes "clear t p" "prefix b p"
  shows "copied A b t (snd (os_chown uid gid p t))"
proof (cases "os_stat True p t")
  case (Inr r)
  obtain q n a where r: "r = (q, n, a)" by (cases r)
  then have "q = p" "look t p = Some (n, a)" using clear_stat [OF assms(1)] Inr by blast+
  then show ?thesis using Inr r copied_put_same [OF assms(2)] by (auto simp: os_chown_def split: option.split)
qed (simp add: os_chown_def)

lemma chown_walk_copied:
  assumes "safe_dest b t" "plain_path p" "prefix b p"
  shows "copied A b t (snd (chown_walk k fa uid gid p t))"
  using assms
proof (induction k arbitrary: p t)
  case (Suc k)
  obtain r u where u: "os_chown uid gid p t = (r, u)" by fastforce
  have tu: "copied A b t u" using os_chown_copied [OF safe_clear [OF Suc.prems(1,3,2)] Suc.prems(3)] u by (metis snd_conv)
  have cu: "clear u p" using safe_clear [OF safe_dest_copied [OF tu Suc.prems(1)] Suc.prems(3,2)] .
  show ?case
  proof (cases "os_read_dir fa p u")
    case (Inr es)
    let ?f = "\<lambda>(f, d). if d then chown_walk k fa uid gid (p @ [f]) else os_chown uid gid (p @ [f])"
    have "copied A b u (snd (each_entry ?f es u))"
    proof (rule each_entry_copied [OF _ copied_refl])
      fix x w assume x: "x \<in> set es" and w: "copied A b u w"
      obtain f d where fd: "x = (f, d)" by (cases x)
      have f: "f \<noteq> []" "\<not> dot_name f" using read_dir_clear [OF Inr cu, of f d] x fd by simp_all
      have sw: "safe_dest b w" using safe_dest_copied [OF copied_trans [OF tu w] Suc.prems(1)] .
      have p: "plain_path (p @ [f])" "prefix b (p @ [f])" using Suc.prems(2,3) f by (auto simp: plain_path_def)
      show "copied A b w (snd (?f x w))"
        using Suc.IH [OF sw p] os_chown_copied [OF safe_clear [OF sw p(2,1)] p(2)] fd by simp
    qed
    then have "copied A b t (snd (each_entry ?f es u))" using copied_trans [OF tu] by blast
    then show ?thesis using u tu Inr by (simp split: option.split)
  qed (use u tu in \<open>simp split: option.split\<close>)
qed simp

lemma chown_recursive_copied:
  assumes "safe_dest b t" "plain_path p" "prefix b p"
  shows "copied A b t (snd (chown_recursive k fa owner p t))"
  using chown_walk_copied [OF assms] os_chown_copied [OF safe_clear [OF assms(1,3,2)] assms(3)]
  by (simp add: chown_recursive_def split: option.split sum.split prod.split node.split)

lemma run_copies_copied:
  assumes "safe_dest b t" "\<forall>(s, d) \<in> set ps. clear t (path_comps s) \<and> (\<forall>q. prefix (path_comps s) q \<longrightarrow> q \<in> A) \<and>
    plain_path (path_comps d) \<and> prefix b (path_comps d)"
  shows "copied A b t (run_copies k fa owner ps t)"
  using assms
proof (induction ps arbitrary: t)
  case (Cons p ps)
  obtain s d where p: "p = (s, d)" by (cases p)
  have h: "clear t (path_comps s)" "\<forall>q. prefix (path_comps s) q \<longrightarrow> q \<in> A" "plain_path (path_comps d)" "prefix b (path_comps d)"
    using Cons.prems(2) p by simp_all
  obtain r u where u: "copy_path k fa (path_comps s) (path_comps d) t = (r, u)" by fastforce
  have tu: "copied A b t u" using copy_path_copied [OF h(1,2) Cons.prems(1) h(3,4)] u by (metis snd_conv)
  have more: "copied A b t (run_copies k fa owner ps w)" if "copied A b t w" for w
    by (rule copied_trans [OF that Cons.IH [OF safe_dest_copied [OF that Cons.prems(1)]]])
      (use Cons.prems(2) clear_copied [OF that] in auto)
  have "copied A b t (snd (chown_recursive k fa owner (path_comps d) u))"
    using copied_trans [OF tu chown_recursive_copied [OF safe_dest_copied [OF tu Cons.prems(1)] h(3,4)]] .
  then show ?case using more tu u p by (simp split: option.split)
qed simp

section \<open>Where files are read and written\<close>

text \<open>Below which of the configured directories a path is.\<close>

definition may_be_read :: "string option \<Rightarrow> string \<Rightarrow> string list \<Rightarrow> path set" where
  "may_be_read wd rootDir allowed =
     {q. \<exists>root \<in> insert rootDir (set allowed). root \<noteq> [] \<and> (\<exists>a. path_abs wd (path_clean root) = Some a \<and> prefix (path_comps a) q)}"

lemma rooted_plain: "rooted_list p \<Longrightarrow> plain_path p"
  by (auto simp: rooted_list_def plain_comp_def plain_path_def dot_name_def list_all_iff)

text \<open>
  C10. Copying files into a server reads only below the SLS root or an allowed mount and changes only what is at or
  below the directory of the server, whatever the entries ask for, whichever copies fail, and however deep paths may
  go: everything else stays as it was, no link is made, and what a file holds afterwards it held before, or it is
  the beginning of what a file below the root or an allowed mount held, or nothing. This holds as long as no
  symbolic link is on the way to a source or to the directory of the server, or anywhere below that. Links are
  followed: one that the server has made leads the copy out of its directory (\<open>copy_follows_link_out\<close>), and one
  on the way to a source is read through (\<open>copy_reads_through_link\<close>).
\<close>

theorem copies_confined:
  assumes "wd_ok wd" "is_abs rootDir" "is_abs destRoot" "safe_dest (path_comps destRoot) t"
    and "\<forall>(s, d) \<in> set (perform_copy wd rootDir allowed destRoot es). \<forall>q. prefix q (path_comps s) \<longrightarrow> \<not> is_link t q"
    and "t' = copy_into_server k fa owner wd rootDir allowed destRoot es t"
  shows "(\<forall>p. \<not> prefix (path_comps destRoot) p \<longrightarrow> look t' p = look t p) \<and> (\<forall>p. is_link t' p \<longrightarrow> is_link t p) \<and>
    (\<forall>p c. has_content t' p c \<longrightarrow> has_content t p c \<or> c = [] \<or>
       (\<exists>q \<in> may_be_read wd rootDir allowed. \<exists>c'. has_content t q c' \<and> prefix c c'))"
proof -
  have "clear t (path_comps s) \<and> (\<forall>q. prefix (path_comps s) q \<longrightarrow> q \<in> may_be_read wd rootDir allowed) \<and>
      plain_path (path_comps d) \<and> prefix (path_comps destRoot) (path_comps d)"
    if sd: "(s, d) \<in> set (perform_copy wd rootDir allowed destRoot es)" for s d
  proof -
    note c = perform_copy_pairs [OF assms(1-3) sd]
    have "plain_path (path_comps s)" "plain_path (path_comps d)" using c rooted_plain by blast+
    moreover have "\<forall>q. prefix (path_comps s) q \<longrightarrow> q \<in> may_be_read wd rootDir allowed"
      using c prefix_order.trans unfolding allowed_root_def may_be_read_def by blast
    moreover have "prefix (path_comps destRoot) (path_comps d)" using c by (auto simp: prefix_def)
    ultimately show ?thesis using assms(5) sd by (auto simp: clear_def)
  qed
  then have "copied (may_be_read wd rootDir allowed) (path_comps destRoot) t t'"
    unfolding assms(6) copy_into_server_def by (intro run_copies_copied [OF assms(4)]) blast
  then show ?thesis unfolding copied_def by blast
qed

text \<open>The data of a server \<open>a\<close> below the SLS root \<open>/v\<close>, and what is elsewhere.\<close>

definition example_host :: tree where
  "example_host = \<lparr>tr_entries =
     [([''v''], (DirNode, default_attrs 493)), ([''v'', ''a''], (DirNode, default_attrs 493)),
      ([''v'', ''m''], (DirNode, default_attrs 493)), ([''v'', ''m'', ''x''], (FileNode ''map'', default_attrs 420)),
      ([''etc''], (DirNode, default_attrs 493)), ([''etc'', ''p''], (FileNode ''secret'', default_attrs 384))],
     tr_refuse = (\<lambda>q. None)\<rparr>"

definition no_faults :: faults where
  "no_faults = \<lparr>fa_closed = (\<lambda>q. False), fa_short = (\<lambda>q. None)\<rparr>"

definition run_example :: "nat \<Rightarrow> copy_entry list \<Rightarrow> tree \<Rightarrow> tree" where
  "run_example k es t = copy_into_server k no_faults (Some (988, 988)) (Some ''/'') ''/v'' [] ''/v/a'' es t"

lemma copies_confined_witness:
  "let t' = run_example 5 [\<lparr>cp_source = ''m'', cp_target = ''w''\<rparr>, \<lparr>cp_source = ''/etc/p'', cp_target = ''p''\<rparr>] example_host in
     map_option fst (look t' [''v'', ''a'', ''w'', ''x'']) = Some (FileNode ''map'') \<and> look t' [''etc'', ''p''] = look example_host [''etc'', ''p'']
     \<and> look t' [''v'', ''a'', ''p''] = None"
proof -
  let ?es = "[\<lparr>cp_source = ''m'', cp_target = ''w''\<rparr>, \<lparr>cp_source = ''/etc/p'', cp_target = ''p''\<rparr>]"
  have pairs: "perform_copy (Some ''/'') ''/v'' [] ''/v/a'' ?es = [(''/v/m'', ''/v/a/w'')]" "path_comps ''/v/m'' = [''v'', ''m'']"
      "path_comps ''/v/a'' = [''v'', ''a'']" by code_simp+
  have h: "wd_ok (Some ''/'')" "is_abs ''/v''" "is_abs ''/v/a''" by code_simp+
  have nl: "\<not> is_link example_host q" for q
    by (auto simp: is_link_def look_def example_host_def)
  have "is_dir example_host q" if "prefix q [''v'', ''a'']" for q
  proof -
    have "q = [] \<or> q = [''v''] \<or> q = [''v'', ''a'']" using that by (auto simp: prefix_Cons)
    then show ?thesis by (auto simp: is_dir_def look_def example_host_def)
  qed
  then have "safe_dest (path_comps ''/v/a'') example_host"
    using nl by (auto simp: safe_dest_def pairs plain_path_def dot_name_def)
  from copies_confined [OF h this _ refl, of "[]" ?es 5 no_faults "Some (988, 988)"] nl
  have "\<forall>p. \<not> prefix [''v'', ''a''] p \<longrightarrow> look (run_example 5 ?es example_host) p = look example_host p"
    unfolding run_example_def pairs(3) by blast
  moreover have "map_option fst (look (run_example 5 ?es example_host) [''v'', ''a'', ''w'', ''x'']) = Some (FileNode ''map'')"
    "look (run_example 5 ?es example_host) [''v'', ''a'', ''p''] = None"
    by code_simp+
  ultimately show ?thesis by (simp add: Let_def)
qed

text \<open>A link that the server has made in its directory leads a copy out of it.\<close>

lemma copy_follows_link_out:
  "let t = put_entry [''v'', ''a'', ''w''] (LinkNode ''/etc'', default_attrs 511) example_host in
     map_option fst (look (run_example 5 [\<lparr>cp_source = ''m/x'', cp_target = ''w/p''\<rparr>] t) [''etc'', ''p'']) = Some (FileNode ''map'')"
  by code_simp

text \<open>A link below the SLS root is read through.\<close>

lemma copy_reads_through_link:
  "let t = put_entry [''v'', ''l''] (LinkNode ''/etc/p'', default_attrs 511) example_host in
     map_option fst (look (run_example 5 [\<lparr>cp_source = ''l'', cp_target = ''p''\<rparr>] t) [''v'', ''a'', ''p'']) = Some (FileNode ''secret'')"
  by code_simp

text \<open>The source that is a link to a directory is not walked: nothing is copied, and the copy succeeds.\<close>

lemma copy_of_linked_directory:
  "let t = put_entry [''v'', ''l''] (LinkNode ''/v/m'', default_attrs 511) example_host in
     (case copy_path 5 no_faults [''v'', ''l''] [''v'', ''a'', ''w''] t of (e, t') \<Rightarrow> e = None \<and> tr_entries t' = tr_entries t)"
  by code_simp

text \<open>A file that is copied onto itself is truncated before it is read.\<close>

lemma copy_onto_itself:
  "map_option fst (look (snd (copy_path 5 no_faults [''v'', ''m'', ''x''] [''v'', ''m'', ''x''] example_host)) [''v'', ''m'', ''x'']) =
     Some (FileNode [])"
  by code_simp

text \<open>A directory that is copied into itself is copied into its copy, until the paths are too long.\<close>

lemma copy_into_itself:
  "case copy_path 6 no_faults [''v''] [''v'', ''a'', ''w''] example_host of
     (e, t) \<Rightarrow> e = Some ENAMETOOLONG \<and> is_dir t [''v'', ''a'', ''w'', ''a'', ''w'', ''a'', ''w'', ''a'']"
  by code_simp

end
