(* ===== verification/Daemon_Overlay.thy ===== *)
theory Daemon_Overlay
  imports Daemon_Mounts
begin

text \<open>
  Mounting and unmounting an overlay volume (\<^verbatim>\<open>daemon/server/filesystem/overlay.go\<close> and
  \<^verbatim>\<open>daemon/internal/overlay/overlay.go\<close>). The kernel's mount table is the list of mount
  points, the last mounted first; the record \<open>sys\<close> says which calls of the operating system
  succeed.
\<close>

record sys =
  sys_mkdir :: "string \<Rightarrow> bool"
  sys_dir_exists :: "string \<Rightarrow> bool option"
  sys_mount :: "string \<Rightarrow> string \<Rightarrow> bool"
  sys_umount :: "string \<Rightarrow> bool"
  sys_perms :: "overlay \<Rightarrow> bool"
  sys_chown :: "string \<Rightarrow> bool"
  sys_remove_all :: "string \<Rightarrow> bool"

datatype overlay_error =
    FieldUnset string
  | NoLower
  | StatFailed string
  | DirMissing string
  | MkdirFailed string
  | MountFailed string
  | UnmountFailed string
  | PermsFailed string
  | PathOutside string string
  | ChownFailed string
  | RemoveFailed string

section \<open>One overlay\<close>

definition check_dir :: "sys \<Rightarrow> string \<Rightarrow> overlay_error option" where
  "check_dir s p = (case sys_dir_exists s p of
     None \<Rightarrow> Some (StatFailed p) | Some False \<Rightarrow> Some (DirMissing p) | Some True \<Rightarrow> None)"

fun check_dirs :: "sys \<Rightarrow> string list \<Rightarrow> overlay_error option" where
  "check_dirs s [] = None"
| "check_dirs s (p # ps) = (case check_dir s p of Some e \<Rightarrow> Some e | None \<Rightarrow> check_dirs s ps)"

definition overlay_validate :: "sys \<Rightarrow> overlay \<Rightarrow> overlay_error option" where
  "overlay_validate s ov =
     (if ov_merged ov = [] then Some (FieldUnset ''merged'')
      else if ov_upper ov = [] then Some (FieldUnset ''upper'')
      else if ov_work ov = [] then Some (FieldUnset ''work'')
      else if length (ov_lower ov) = 0 then Some NoLower
      else
        (case check_dir s (ov_merged ov) of Some e \<Rightarrow> Some e | None \<Rightarrow>
        (case check_dir s (ov_upper ov) of Some e \<Rightarrow> Some e | None \<Rightarrow>
        (case check_dir s (ov_work ov) of Some e \<Rightarrow> Some e | None \<Rightarrow>
           check_dirs s (ov_lower ov)))))"

text \<open>\<^verbatim>\<open>EINVAL\<close> and \<^verbatim>\<open>ENOENT\<close>, the answers for a path that is not a mount point, are ignored.\<close>

definition overlay_unmount :: "sys \<Rightarrow> overlay \<Rightarrow> string list \<Rightarrow> overlay_error option \<times> string list" where
  "overlay_unmount s ov mounts =
     (if ov_merged ov \<notin> set mounts then (None, mounts)
      else if sys_umount s (ov_merged ov) then (None, remove1 (ov_merged ov) mounts)
      else (Some (UnmountFailed (ov_merged ov)), mounts))"

definition mount_opts :: "overlay \<Rightarrow> string" where
  "mount_opts ov = ''lowerdir='' @ join_with '':'' (ov_lower ov) @ '',upperdir='' @ ov_upper ov
     @ '',workdir='' @ ov_work ov @ '',metacopy=on''"

definition overlay_mount :: "sys \<Rightarrow> overlay \<Rightarrow> string list \<Rightarrow> overlay_error option \<times> string list" where
  "overlay_mount s ov mounts =
     (case overlay_validate s ov of
        Some e \<Rightarrow> (Some e, mounts)
      | None \<Rightarrow>
          (case overlay_unmount s ov mounts of
             (Some e, mounts') \<Rightarrow> (Some e, mounts')
           | (None, mounts') \<Rightarrow>
               (if sys_mount s (ov_merged ov) (mount_opts ov) then (None, ov_merged ov # mounts')
                else (Some (MountFailed (ov_merged ov)), mounts'))))"

section \<open>The parents of a mount point\<close>

partial_function (option) walk_loop :: "string \<Rightarrow> string \<Rightarrow> string list option" where
  "walk_loop from to =
     (if from = to then Some [from]
      else Option.bind (walk_loop (path_dir from) to) (\<lambda>ds. Some (from # ds)))"

declare walk_loop.simps [code]

text \<open>The outer option says whether the loop returns, the sum whether with an error.\<close>

definition walk_to :: "string \<Rightarrow> string \<Rightarrow> (overlay_error + string list) option" where
  "walk_to from to =
     (let from = path_clean from; to = path_clean to in
      case path_rel to from of
        None \<Rightarrow> Some (Inl (PathOutside from to))
      | Some rel \<Rightarrow>
          (if has_prefix rel ''..'' then Some (Inl (PathOutside from to))
           else (case walk_loop from to of None \<Rightarrow> None | Some ds \<Rightarrow> Some (Inr ds))))"

definition parents :: "string list \<Rightarrow> nat \<Rightarrow> string list" where
  "parents cs n = map (\<lambda>k. show_path True (take k cs)) (rev [n..<Suc (length cs)])"

lemma walk_loop_parents:
  assumes "rooted_list (bs @ cs)"
  shows "walk_loop (show_path True (bs @ cs)) (show_path True bs) = Some (parents (bs @ cs) (length bs))"
  using assms
proof (induction cs rule: rev_induct)
  case Nil
  then show ?case by (subst walk_loop.simps) (simp add: parents_def)
next
  case (snoc c cs)
  have rl: "rooted_list (bs @ cs)" "rooted_list bs" "rooted_list ((bs @ cs) @ [c])"
    using snoc.prems by (auto simp: rooted_list_def)
  have ne: "show_path True (bs @ cs @ [c]) \<noteq> show_path True bs"
    using show_path_inj [OF rl(3,2)] by simp
  have "map (\<lambda>k. show_path True (take k (bs @ cs @ [c]))) (rev [length bs..<Suc (length (bs @ cs))])
      = parents (bs @ cs) (length bs)"
    by (auto simp: parents_def)
  moreover have "rev [length bs..<Suc (length (bs @ cs @ [c]))] =
      length (bs @ cs @ [c]) # rev [length bs..<Suc (length (bs @ cs))]"
    by simp
  ultimately have "parents (bs @ cs @ [c]) (length bs) =
      show_path True (bs @ cs @ [c]) # parents (bs @ cs) (length bs)"
    unfolding parents_def [of "bs @ cs @ [c]"] by simp
  with snoc.IH rl ne path_dir_show [of "bs @ cs" c] show ?case
    by (subst walk_loop.simps) simp
qed

lemma walk_to_abs:
  assumes "is_abs from" "is_abs to"
  shows "walk_to from to = Some (if prefix (path_comps to) (path_comps from)
      \<and> \<not> has_prefix (join_with ''/'' (drop (length (path_comps to)) (path_comps from))) ''..''
    then Inr (parents (path_comps from) (length (path_comps to)))
    else Inl (PathOutside (path_clean from) (path_clean to)))"
proof -
  have abs: "is_abs (path_clean from)" "is_abs (path_clean to)"
    using assms by simp_all
  note below = path_rel_below [OF abs(2,1), unfolded path_comps_clean [OF assms(1)] path_comps_clean [OF assms(2)]]
  show ?thesis
  proof (cases "\<exists>r. path_rel (path_clean to) (path_clean from) = Some r \<and> \<not> has_prefix r ''..''")
    case True
    then obtain r where r: "path_rel (path_clean to) (path_clean from) = Some r" "\<not> has_prefix r ''..''"
      by blast
    from True below obtain cs where cs: "path_comps from = path_comps to @ cs"
      by (auto simp: prefix_def)
    have "walk_loop (path_clean from) (path_clean to) =
        Some (parents (path_comps from) (length (path_comps to)))"
      using walk_loop_parents [of "path_comps to" cs] rooted_list_path_comps [OF assms(1)] assms cs
      by (simp add: path_clean_def)
    with True r below show ?thesis by (simp add: walk_to_def Let_def)
  next
    case False
    with below show ?thesis
      by (auto simp: walk_to_def Let_def split: option.splits)
  qed
qed

text \<open>
  C26. \<^verbatim>\<open>walkTo\<close> always returns on absolute paths: with every directory from the mount point up
  to and including the server's volume, in that order, when the mount point is below the
  volume, and with an error otherwise. (A component below the volume whose name merely begins
  with two dots is reported as outside, too.)
\<close>

theorem walk_to_returns:
  assumes "is_abs from" "is_abs to"
  shows "walk_to from to = Some (if prefix (path_comps to) (path_comps from)
      \<and> \<not> has_prefix (join_with ''/'' (drop (length (path_comps to)) (path_comps from))) ''..''
    then Inr (parents (path_comps from) (length (path_comps to)))
    else Inl (PathOutside (path_clean from) (path_clean to)))"
  by (rule walk_to_abs [OF assms])

lemma walk_to_returns_witness:
  "walk_to ''/data/a/world/./datapacks'' ''/data/a'' =
     Some (Inr [''/data/a/world/datapacks'', ''/data/a/world'', ''/data/a''])
   \<and> walk_to ''/data/b'' ''/data/a'' = Some (Inl (PathOutside ''/data/b'' ''/data/a''))"
proof -
  have "is_abs ''/data/a/world/./datapacks''" "is_abs ''/data/a''" "is_abs ''/data/b''"
    by code_simp+
  note t = walk_to_returns [OF this(1,2)] walk_to_returns [OF this(3,2)]
  have c: "prefix (path_comps ''/data/a'') (path_comps ''/data/a/world/./datapacks'')"
    "\<not> has_prefix (join_with ''/'' (drop (length (path_comps ''/data/a''))
        (path_comps ''/data/a/world/./datapacks''))) ''..''"
    "parents (path_comps ''/data/a/world/./datapacks'') (length (path_comps ''/data/a'')) =
       [''/data/a/world/datapacks'', ''/data/a/world'', ''/data/a'']"
    "\<not> prefix (path_comps ''/data/a'') (path_comps ''/data/b'')"
    "path_clean ''/data/b'' = ''/data/b''" "path_clean ''/data/a'' = ''/data/a''"
    by code_simp+
  show ?thesis
    unfolding t using c by (auto simp only: if_True if_False simp_thms)
qed

section \<open>The overlay volume\<close>

fun mkdirs :: "sys \<Rightarrow> string list \<Rightarrow> overlay_error option" where
  "mkdirs s [] = None"
| "mkdirs s (d # ds) = (if d = [] then mkdirs s ds
     else if \<not> sys_mkdir s d then Some (MkdirFailed d) else mkdirs s ds)"

fun chown_all :: "sys \<Rightarrow> string list \<Rightarrow> overlay_error option" where
  "chown_all s [] = None"
| "chown_all s (p # ps) = (if \<not> sys_chown s p then Some (ChownFailed p) else chown_all s ps)"

text \<open>\<open>None\<close> on the outside where the walk over the parents does not end.\<close>

fun set_permissions :: "sys \<Rightarrow> string \<Rightarrow> overlay list \<Rightarrow> overlay_error option option" where
  "set_permissions s volume [] = Some None"
| "set_permissions s volume (ov # ovs) =
     (if \<not> sys_perms s ov then Some (Some (PermsFailed (ov_merged ov)))
      else
        (case walk_to (ov_merged ov) volume of
           None \<Rightarrow> None
         | Some (Inl e) \<Rightarrow> Some (Some e)
         | Some (Inr ps) \<Rightarrow>
             (case chown_all s ps of
                Some e \<Rightarrow> Some (Some e)
              | None \<Rightarrow> set_permissions s volume ovs)))"

fun mount_overlays :: "sys \<Rightarrow> overlay list \<Rightarrow> string list \<Rightarrow> overlay_error option \<times> string list" where
  "mount_overlays s [] mounts = (None, mounts)"
| "mount_overlays s (ov # ovs) mounts =
     (case mkdirs s [ov_work ov, ov_upper ov, ov_merged ov] of
        Some e \<Rightarrow> (Some e, mounts)
      | None \<Rightarrow>
          (case overlay_mount s ov mounts of
             (Some e, mounts') \<Rightarrow> (Some e, mounts')
           | (None, mounts') \<Rightarrow> mount_overlays s ovs mounts'))"

definition volume_mount ::
  "sys \<Rightarrow> overlay_volume \<Rightarrow> string list \<Rightarrow> (overlay_error option \<times> overlay_volume \<times> string list) option" where
  "volume_mount s vol mounts =
     (case mount_overlays s (ovv_overlays vol) mounts of
        (Some e, mounts') \<Rightarrow> Some (Some e, vol, mounts')
      | (None, mounts') \<Rightarrow>
          (case set_permissions s (ovv_server_volume vol) (ovv_overlays vol) of
             None \<Rightarrow> None
           | Some (Some e) \<Rightarrow> Some (Some e, vol, mounts')
           | Some None \<Rightarrow> Some (None, vol\<lparr>ovv_mounted := True\<rparr>, mounts')))"

text \<open>Unmounting goes on after a failure and reports all of them.\<close>

fun unmount_overlays :: "sys \<Rightarrow> overlay list \<Rightarrow> string list \<Rightarrow> overlay_error list \<times> string list" where
  "unmount_overlays s [] mounts = ([], mounts)"
| "unmount_overlays s (ov # ovs) mounts =
     (case overlay_unmount s ov mounts of (e, mounts') \<Rightarrow>
        (case unmount_overlays s ovs mounts' of (es, mounts'') \<Rightarrow>
           ((case e of None \<Rightarrow> es | Some x \<Rightarrow> x # es), mounts'')))"

definition volume_unmount ::
  "sys \<Rightarrow> overlay_volume \<Rightarrow> string list \<Rightarrow> overlay_error list \<times> overlay_volume \<times> string list" where
  "volume_unmount s vol mounts =
     (case unmount_overlays s (ovv_overlays vol) mounts of (es, mounts') \<Rightarrow>
        if length es > 0 then (es, vol, mounts')
        else ([], vol\<lparr>ovv_mounted := False\<rparr>, mounts'))"

definition volume_destroy ::
  "sys \<Rightarrow> overlay_volume \<Rightarrow> string list \<Rightarrow> overlay_error list \<times> overlay_volume \<times> string list" where
  "volume_destroy s vol mounts =
     (case volume_unmount s vol mounts of (es, vol', mounts') \<Rightarrow>
        (es @ (if ovv_root vol' \<noteq> [] \<and> \<not> sys_remove_all s (ovv_root vol')
               then [RemoveFailed (ovv_root vol')] else []), vol', mounts'))"

fun recreate_dirs :: "sys \<Rightarrow> overlay list \<Rightarrow> overlay_error option" where
  "recreate_dirs s [] = None"
| "recreate_dirs s (ov # ovs) = (case mkdirs s [ov_work ov, ov_upper ov] of
     Some e \<Rightarrow> Some e | None \<Rightarrow> recreate_dirs s ovs)"

definition volume_reset ::
  "sys \<Rightarrow> overlay_volume \<Rightarrow> string list \<Rightarrow> overlay_error list \<times> overlay_volume \<times> string list" where
  "volume_reset s vol mounts =
     (case volume_destroy s vol mounts of (es, vol', mounts') \<Rightarrow>
        if es \<noteq> [] then (es, vol', mounts')
        else (case recreate_dirs s (ovv_overlays vol') of
                Some e \<Rightarrow> ([e], vol', mounts') | None \<Rightarrow> ([], vol', mounts')))"

subsection \<open>The mount table\<close>

lemma overlay_mount_table:
  assumes "overlay_mount s ov mounts = (e, mounts')" "distinct mounts"
  shows "distinct mounts' \<and>
    (if e = None then set mounts' = insert (ov_merged ov) (set mounts)
     else set mounts' \<subseteq> set mounts \<and> set mounts - {ov_merged ov} \<subseteq> set mounts')"
  using assms by (auto simp: overlay_mount_def overlay_unmount_def split: option.splits if_splits prod.splits)

lemma mount_overlays_table:
  "mount_overlays s ovs mounts = (None, mounts') \<Longrightarrow> distinct mounts \<Longrightarrow>
     distinct mounts' \<and> set mounts' = ov_merged ` set ovs \<union> set mounts"
proof (induction ovs arbitrary: mounts)
  case (Cons ov ovs)
  from Cons.prems(1) obtain m where
    m: "overlay_mount s ov mounts = (None, m)" "mount_overlays s ovs m = (None, mounts')"
    by (auto split: option.splits prod.splits)
  with overlay_mount_table [OF m(1) Cons.prems(2)] Cons.IH [OF m(2)] show ?case by simp
qed simp

lemma set_permissions_parents:
  "set_permissions s volume ovs = Some None \<Longrightarrow> ov \<in> set ovs \<Longrightarrow>
     (\<exists>ps. walk_to (ov_merged ov) volume = Some (Inr ps) \<and> chown_all s ps = None) \<and> sys_perms s ov"
  by (induction ovs) (auto split: if_splits option.splits sum.splits)

lemma chown_all_None: "chown_all s ps = None \<longleftrightarrow> (\<forall>p \<in> set ps. sys_chown s p)"
  by (induction ps) auto

lemma parents_first: "n \<le> length cs \<Longrightarrow> show_path True cs \<in> set (parents cs n)"
  by (simp add: parents_def)

text \<open>
  When \<^verbatim>\<open>Mount\<close> succeeds, every overlay of the volume is mounted, nothing else in the mount
  table changed and no mount point is stacked on itself, however often the volume had been
  mounted before; and every mount point is the server's volume or a directory below it, which
  is owned by the server's user.
\<close>

theorem volume_mount_success:
  assumes "distinct mounts" "is_abs (ovv_server_volume vol)"
    and "\<forall>ov \<in> set (ovv_overlays vol). is_abs (ov_merged ov)"
    and "volume_mount s vol mounts = Some (None, vol', mounts')"
  shows "vol' = vol\<lparr>ovv_mounted := True\<rparr> \<and> distinct mounts'
    \<and> set mounts' = ov_merged ` set (ovv_overlays vol) \<union> set mounts
    \<and> (\<forall>ov \<in> set (ovv_overlays vol). prefix (path_comps (ovv_server_volume vol)) (path_comps (ov_merged ov))
         \<and> sys_chown s (path_clean (ov_merged ov)))"
proof -
  let ?ovs = "ovv_overlays vol" and ?v = "ovv_server_volume vol"
  from assms(4) have m: "mount_overlays s ?ovs mounts = (None, mounts')"
    and p: "set_permissions s ?v ?ovs = Some None" and v: "vol' = vol\<lparr>ovv_mounted := True\<rparr>"
    by (auto simp: volume_mount_def split: option.splits prod.splits)
  have "prefix (path_comps ?v) (path_comps (ov_merged ov)) \<and> sys_chown s (path_clean (ov_merged ov))"
    if ov: "ov \<in> set ?ovs" for ov
  proof -
    obtain ps where ps: "walk_to (ov_merged ov) ?v = Some (Inr ps)" "chown_all s ps = None"
      using set_permissions_parents [OF p ov] by blast
    have abs: "is_abs (ov_merged ov)" using assms(3) ov by blast
    have pre: "prefix (path_comps ?v) (path_comps (ov_merged ov))"
      and "ps = parents (path_comps (ov_merged ov)) (length (path_comps ?v))"
      using ps(1) walk_to_abs [OF abs assms(2)] by (auto split: if_splits)
    with parents_first [OF prefix_length_le [OF pre]] have "path_clean (ov_merged ov) \<in> set ps"
      using abs by (simp add: path_clean_def)
    with ps(2) pre show ?thesis by (simp add: chown_all_None)
  qed
  with v mount_overlays_table [OF m assms(1)] show ?thesis by blast
qed

text \<open>The other way round, an overlay that leaves the volume makes \<^verbatim>\<open>Mount\<close> fail, but only after it has been mounted.\<close>

definition calm_sys :: sys where
  "calm_sys = \<lparr>sys_mkdir = (\<lambda>p. True), sys_dir_exists = (\<lambda>p. Some True), sys_mount = (\<lambda>p opts. True),
     sys_umount = (\<lambda>p. True), sys_perms = (\<lambda>ov. True), sys_chown = (\<lambda>p. True),
     sys_remove_all = (\<lambda>p. True)\<rparr>"

definition example_volume :: "string \<Rightarrow> overlay_volume" where
  "example_volume target = new_overlay ''x'' [''/v/w''] (path_join [''/data/a'', target])
     (new_overlay ''main'' [''/s/vanilla''] ''/data/a'' (new_overlay_volume ''/o/a'' ''/data/a'' ''/s/vanilla''))"

lemma volume_mount_success_witness:
  "\<exists>vol' mounts'. volume_mount calm_sys (example_volume ''world'') [''/data/a''] = Some (None, vol', mounts')
     \<and> set mounts' = {''/data/a'', ''/data/a/world''} \<and> distinct mounts'"
proof -
  obtain vol' mounts' where
    run: "volume_mount calm_sys (example_volume ''world'') [''/data/a''] = Some (None, vol', mounts')"
  proof -
    have "case volume_mount calm_sys (example_volume ''world'') [''/data/a''] of
        Some (None, _) \<Rightarrow> True | _ \<Rightarrow> False"
      by code_simp
    then show ?thesis using that by (auto split: option.splits)
  qed
  have "is_abs (ovv_server_volume (example_volume ''world''))"
    "\<forall>ov \<in> set (ovv_overlays (example_volume ''world'')). is_abs (ov_merged ov)"
    "map ov_merged (ovv_overlays (example_volume ''world'')) = [''/data/a'', ''/data/a/world'']"
    by code_simp+
  moreover from this(3) have "ov_merged ` set (ovv_overlays (example_volume ''world'')) =
      {''/data/a'', ''/data/a/world''}"
    by (simp flip: set_map)
  ultimately show ?thesis
    using volume_mount_success [OF _ _ _ run] run by auto
qed

lemma escaping_overlay_stays_mounted:
  "case volume_mount calm_sys (example_volume ''../../etc'') [] of
     Some (Some e, vol', mounts') \<Rightarrow> e = PathOutside ''/etc'' ''/data/a'' \<and> ''/etc'' \<in> set mounts'
       \<and> \<not> ovv_mounted vol'
   | _ \<Rightarrow> False"
  by code_simp

lemma overlay_unmount_table:
  assumes "overlay_unmount s ov mounts = (e, mounts')" "distinct mounts"
  shows "mounts' = filter (\<lambda>p. \<not> (p = ov_merged ov \<and> sys_umount s p)) mounts
    \<and> (e = None \<longleftrightarrow> ov_merged ov \<notin> set mounts \<or> sys_umount s (ov_merged ov))"
proof -
  have rem: "remove1 (ov_merged ov) mounts = filter (\<lambda>p. p \<noteq> ov_merged ov) mounts"
    by (simp add: distinct_remove1_removeAll [OF assms(2)] removeAll_filter_not_eq eq_commute)
  consider "ov_merged ov \<notin> set mounts" | "ov_merged ov \<in> set mounts" "sys_umount s (ov_merged ov)"
    | "ov_merged ov \<in> set mounts" "\<not> sys_umount s (ov_merged ov)" by blast
  then show ?thesis
  proof cases
    case 1
    then have "filter (\<lambda>p. \<not> (p = ov_merged ov \<and> sys_umount s p)) mounts = mounts"
      by (auto intro!: filter_True)
    with 1 assms(1) show ?thesis by (simp add: overlay_unmount_def)
  next
    case 2
    then have "filter (\<lambda>p. \<not> (p = ov_merged ov \<and> sys_umount s p)) mounts = remove1 (ov_merged ov) mounts"
      unfolding rem by (auto intro!: filter_cong)
    with 2 assms(1) show ?thesis by (auto simp: overlay_unmount_def)
  next
    case 3
    then have "filter (\<lambda>p. \<not> (p = ov_merged ov \<and> sys_umount s p)) mounts = mounts"
      by (auto intro!: filter_True)
    with 3 assms(1) show ?thesis by (auto simp: overlay_unmount_def)
  qed
qed

text \<open>
  \<^verbatim>\<open>Unmount\<close> takes away exactly the mount points of the volume the kernel lets go of, one
  failure does not keep the others mounted, and it reports success exactly when all went.
\<close>

theorem unmount_overlays_exact:
  assumes "distinct mounts" "unmount_overlays s ovs mounts = (es, mounts')"
  shows "mounts' = filter (\<lambda>p. \<not> (p \<in> ov_merged ` set ovs \<and> sys_umount s p)) mounts
    \<and> (es = [] \<longleftrightarrow> set mounts' \<inter> ov_merged ` set ovs = {})"
proof -
  have main: "distinct m \<Longrightarrow> unmount_overlays s os m = (fs, m') \<Longrightarrow>
      m' = filter (\<lambda>p. \<not> (p \<in> ov_merged ` set os \<and> sys_umount s p)) m
      \<and> (fs = [] \<longleftrightarrow> (\<forall>p \<in> set m \<inter> ov_merged ` set os. sys_umount s p))" for m os fs m'
  proof (induction os arbitrary: m fs)
    case (Cons ov os)
    obtain e n where n: "overlay_unmount s ov m = (e, n)" by fastforce
    obtain gs where gs: "unmount_overlays s os n = (gs, m')"
      using Cons.prems n by (auto split: prod.splits)
    have fs: "fs = (case e of None \<Rightarrow> gs | Some x \<Rightarrow> x # gs)"
      using Cons.prems n gs by (auto split: prod.splits)
    note t = overlay_unmount_table [OF n Cons.prems(1)]
    then have "distinct n" using Cons.prems(1) by simp
    note ih = Cons.IH [OF this gs]
    have "m' = filter (\<lambda>p. \<not> (p \<in> ov_merged ` set (ov # os) \<and> sys_umount s p)) m"
      using t ih by (auto simp: filter_filter intro!: filter_cong)
    moreover have "(fs = []) = (e = None \<and> gs = [])"
      using fs by (simp split: option.splits)
    moreover have "set n = set m - {p. p = ov_merged ov \<and> sys_umount s p}"
      using t by auto
    ultimately show ?case using t ih by auto
  qed simp
  from main [OF assms] show ?thesis by auto
qed

lemma unmount_overlays_exact_witness:
  "unmount_overlays (calm_sys\<lparr>sys_umount := \<lambda>p. p \<noteq> ''/data/a''\<rparr>) (ovv_overlays (example_volume ''world''))
      [''/data/a/world'', ''/proc'', ''/data/a''] =
    ([UnmountFailed ''/data/a''], [''/proc'', ''/data/a''])"
proof -
  have run: "unmount_overlays (calm_sys\<lparr>sys_umount := \<lambda>p. p \<noteq> ''/data/a''\<rparr>) (ovv_overlays (example_volume ''world''))
      [''/data/a/world'', ''/proc'', ''/data/a''] =
    ([UnmountFailed ''/data/a''], [''/proc'', ''/data/a''])"
    by code_simp
  from unmount_overlays_exact [OF _ run] run show ?thesis by simp
qed

end
