(* ===== verification/Balancer.thy ===== *)
theory Balancer
  imports SLS_Prelude
begin

text \<open>
  The load balancer of Protocube (\<^verbatim>\<open>protocube/balancer\<close>): the interface \<^verbatim>\<open>Balancer\<close> as the
  locale \<open>balancer\<close>, the round-robin implementation, and the \<^verbatim>\<open>Provider\<close> that swaps one
  balancer for another. A node is whatever type \<^typ>\<open>'n\<close> the caller balances over; its methods
  \<^verbatim>\<open>Id()\<close> and \<^verbatim>\<open>Drained()\<close> are the arguments \<open>nid\<close> and \<open>drained\<close>. \<^verbatim>\<open>Drained()\<close> is read
  when a node is picked, so it is an argument of the pick alone.
\<close>

section \<open>Round robin\<close>

record 'n rr_balancer =
  rr_nodes :: "'n list"
  rr_node_map :: "(string, nat) gomap"
  rr_index :: nat

definition new_round_robin :: "'n rr_balancer" where
  "new_round_robin = \<lparr>rr_nodes = [], rr_node_map = [], rr_index = 0\<rparr>"

text \<open>The loop of \<^verbatim>\<open>PickNode\<close>; the first argument counts the iterations left.\<close>

fun pick_loop :: "('n \<Rightarrow> bool) \<Rightarrow> nat \<Rightarrow> 'n rr_balancer \<Rightarrow> ('n option \<times> 'n rr_balancer) go" where
  "pick_loop drained 0 b = Ret (None, b)"
| "pick_loop drained (Suc k) b =
     go_bind (go_index (rr_nodes b) (rr_index b)) (\<lambda>n.
       let b' = b\<lparr>rr_index := (rr_index b + 1) mod length (rr_nodes b)\<rparr>
       in if \<not> drained n then Ret (Some n, b') else pick_loop drained k b')"

definition pick_node :: "('n \<Rightarrow> bool) \<Rightarrow> 'n rr_balancer \<Rightarrow> ('n option \<times> 'n rr_balancer) go" where
  "pick_node drained b =
     (if length (rr_nodes b) = 0 then Ret (None, b)
      else pick_loop drained (length (rr_nodes b)) b)"

definition add_node :: "('n \<Rightarrow> string) \<Rightarrow> 'n \<Rightarrow> 'n rr_balancer \<Rightarrow> 'n rr_balancer go" where
  "add_node nid n b =
     (case gm_get (rr_node_map b) (nid n) of
        Some idx \<Rightarrow> go_bind (go_store (rr_nodes b) idx n) (\<lambda>ns. Ret (b\<lparr>rr_nodes := ns\<rparr>))
      | None \<Rightarrow>
          (let ns = rr_nodes b @ [n]
           in Ret (b\<lparr>rr_nodes := ns, rr_node_map := gm_set (rr_node_map b) (nid n) (length ns - 1)\<rparr>)))"

definition remove_node :: "('n \<Rightarrow> string) \<Rightarrow> 'n \<Rightarrow> 'n rr_balancer \<Rightarrow> 'n rr_balancer go" where
  "remove_node nid target b =
     (case gm_get (rr_node_map b) (nid target) of
        None \<Rightarrow> Ret b
      | Some idx \<Rightarrow>
          (if length (rr_nodes b) = 0 then Panic
           else
             (let lastIdx = length (rr_nodes b) - 1 in
              go_bind (go_index (rr_nodes b) lastIdx) (\<lambda>lastNode.
              go_bind (go_store (rr_nodes b) idx lastNode) (\<lambda>ns.
                (let m = gm_del (gm_set (rr_node_map b) (nid lastNode) idx) (nid target);
                     ns' = take lastIdx ns;
                     i = (if rr_index b \<ge> length ns' \<and> length ns' > 0 then 0 else rr_index b)
                 in Ret (b\<lparr>rr_nodes := ns', rr_node_map := m, rr_index := i\<rparr>)))))))"

definition list_nodes :: "'n rr_balancer \<Rightarrow> 'n list" where
  "list_nodes b = rr_nodes b"

subsection \<open>The invariant of the round robin\<close>

text \<open>
  The map from identifiers to positions is exactly the inverse of the node list, and the
  position of the next pick is inside the list (or 0 for the empty list).
\<close>

definition rr_inv :: "('n \<Rightarrow> string) \<Rightarrow> 'n rr_balancer \<Rightarrow> bool" where
  "rr_inv nid b \<longleftrightarrow>
     (\<forall>s i. gm_get (rr_node_map b) s = Some i \<longleftrightarrow>
        i < length (rr_nodes b) \<and> nid (rr_nodes b ! i) = s)
     \<and> (rr_index b < length (rr_nodes b) \<or> rr_nodes b = [] \<and> rr_index b = 0)"

lemma rr_inv_mapD:
  "rr_inv nid b \<Longrightarrow> gm_get (rr_node_map b) s = Some i \<Longrightarrow>
     i < length (rr_nodes b) \<and> nid (rr_nodes b ! i) = s"
  by (simp add: rr_inv_def)

lemma rr_inv_unique:
  assumes "rr_inv nid b" "i < length (rr_nodes b)" "j < length (rr_nodes b)"
    and "nid (rr_nodes b ! i) = nid (rr_nodes b ! j)"
  shows "i = j"
  using assms by (metis option.inject rr_inv_def)

lemma rr_inv_new: "rr_inv nid new_round_robin"
  by (simp add: rr_inv_def new_round_robin_def)

lemma rr_inv_None:
  "rr_inv nid b \<Longrightarrow> gm_get (rr_node_map b) s = None \<longleftrightarrow> (\<forall>n \<in> set (rr_nodes b). nid n \<noteq> s)"
  by (metis in_set_conv_nth not_Some_eq rr_inv_def)

lemma rr_inv_distinct: "rr_inv nid b \<Longrightarrow> distinct (map nid (rr_nodes b))"
  by (auto simp: distinct_conv_nth dest: rr_inv_unique)

lemma rr_inv_index: "rr_inv nid b \<Longrightarrow> rr_nodes b \<noteq> [] \<Longrightarrow> rr_index b < length (rr_nodes b)"
  by (auto simp: rr_inv_def)


subsection \<open>Picking\<close>

text \<open>The next \<open>k\<close> nodes in the order the loop visits them.\<close>

definition rr_cycle :: "nat \<Rightarrow> 'n rr_balancer \<Rightarrow> 'n list" where
  "rr_cycle k b = map (\<lambda>j. rr_nodes b ! ((rr_index b + j) mod length (rr_nodes b))) [0..<k]"

lemma rr_cycle_Suc:
  assumes "rr_index b < length (rr_nodes b)"
  shows "rr_cycle (Suc k) b = rr_nodes b ! rr_index b #
    rr_cycle k (b\<lparr>rr_index := (rr_index b + 1) mod length (rr_nodes b)\<rparr>)"
  using assms by (simp add: rr_cycle_def upt_conv_Cons map_Suc_upt [symmetric] mod_add_left_eq
      del: upt_Suc)

lemma rr_cycle_rotate: "rr_cycle (length (rr_nodes b)) b = rotate (rr_index b) (rr_nodes b)"
  by (rule nth_equalityI) (auto simp: rr_cycle_def nth_rotate)

lemma pick_loop_cycle:
  assumes "rr_index b < length (rr_nodes b)"
  shows "pick_loop drained k b =
    Ret (find (\<lambda>n. \<not> drained n) (rr_cycle k b),
         b\<lparr>rr_index := (rr_index b + min k (Suc (length (takeWhile drained (rr_cycle k b)))))
              mod length (rr_nodes b)\<rparr>)"
  using assms
proof (induction k arbitrary: b)
  case 0
  then show ?case by (simp add: rr_cycle_def)
next
  case (Suc k)
  let ?b = "b\<lparr>rr_index := (rr_index b + 1) mod length (rr_nodes b)\<rparr>"
  from Suc.prems have lt: "rr_index ?b < length (rr_nodes ?b)"
    by (auto intro: mod_less_divisor)
  show ?case
  proof (cases "drained (rr_nodes b ! rr_index b)")
    case True
    with Suc.prems Suc.IH [OF lt] show ?thesis
      by (simp add: rr_cycle_Suc mod_add_left_eq mod_simps min_def)
  next
    case False
    with Suc.prems show ?thesis by (simp add: rr_cycle_Suc)
  qed
qed

lemma pick_node_rotate:
  assumes "rr_inv nid b"
  shows "pick_node drained b =
    Ret (find (\<lambda>n. \<not> drained n) (rotate (rr_index b) (rr_nodes b)),
         b\<lparr>rr_index := (rr_index b + min (length (rr_nodes b))
              (Suc (length (takeWhile drained (rotate (rr_index b) (rr_nodes b))))))
            mod length (rr_nodes b)\<rparr>)"
proof (cases "rr_nodes b = []")
  case True
  with assms show ?thesis by (simp add: pick_node_def rr_inv_def)
next
  case False
  with assms have "rr_index b < length (rr_nodes b)" by (rule rr_inv_index)
  from pick_loop_cycle [OF this, where k = "length (rr_nodes b)" and drained = drained] False
  show ?thesis by (simp add: pick_node_def rr_cycle_rotate)
qed

lemma rr_inv_set_index:
  "rr_inv nid b \<Longrightarrow> i < length (rr_nodes b) \<Longrightarrow> rr_inv nid (b\<lparr>rr_index := i\<rparr>)"
  by (auto simp: rr_inv_def)

lemma pick_node_inv:
  assumes "rr_inv nid b" "pick_node drained b = Ret (r, b')"
  shows "rr_inv nid b' \<and> rr_nodes b' = rr_nodes b"
proof (cases "rr_nodes b = []")
  case True
  with assms show ?thesis by (auto simp: pick_node_def)
next
  case False
  with assms show ?thesis
    by (auto simp: pick_node_rotate intro!: rr_inv_set_index mod_less_divisor)
qed

subsection \<open>Adding and removing\<close>

definition rr_abs :: "('n \<Rightarrow> string) \<Rightarrow> 'n rr_balancer \<Rightarrow> string \<Rightarrow> 'n option" where
  "rr_abs nid b s = find (\<lambda>n. nid n = s) (rr_nodes b)"

lemma rr_abs_Some_iff:
  assumes "rr_inv nid b"
  shows "rr_abs nid b s = Some n \<longleftrightarrow> n \<in> set (rr_nodes b) \<and> nid n = s"
proof -
  have "distinct (map nid (rr_nodes b))" using assms by (rule rr_inv_distinct)
  then show ?thesis
    by (auto simp: rr_abs_def find_Some_iff in_set_conv_nth distinct_conv_nth)
qed

lemma rr_abs_eqI:
  assumes "rr_inv nid b'" "\<And>s n. n \<in> set (rr_nodes b') \<and> nid n = s \<longleftrightarrow> m s = Some n"
  shows "rr_abs nid b' = m"
proof
  fix s
  show "rr_abs nid b' s = m s"
    using assms(2) [of _ s] rr_abs_Some_iff [OF assms(1), of s]
    by (cases "m s"; cases "rr_abs nid b' s") auto
qed

lemma add_node_inv:
  assumes inv: "rr_inv nid b"
  obtains b' where "add_node nid n b = Ret b'" "rr_inv nid b'" "rr_abs nid b' = (rr_abs nid b)(nid n \<mapsto> n)"
proof (cases "gm_get (rr_node_map b) (nid n)")
  case None
  let ?b = "b\<lparr>rr_nodes := rr_nodes b @ [n],
    rr_node_map := gm_set (rr_node_map b) (nid n) (length (rr_nodes b))\<rparr>"
  from None have new: "\<forall>x \<in> set (rr_nodes b). nid x \<noteq> nid n"
    by (simp add: rr_inv_None [OF inv])
  have inv': "rr_inv nid ?b"
    using inv new by (auto simp: rr_inv_def nth_append less_Suc_eq)
  have "rr_abs nid ?b = (rr_abs nid b)(nid n \<mapsto> n)"
    by (rule rr_abs_eqI [OF inv']) (use new in \<open>auto simp: rr_abs_Some_iff [OF inv]\<close>)
  with None inv' show ?thesis by (intro that [of ?b]) (simp_all add: add_node_def)
next
  case (Some i)
  let ?b = "b\<lparr>rr_nodes := (rr_nodes b)[i := n]\<rparr>"
  from rr_inv_mapD [OF inv Some] have i: "i < length (rr_nodes b)" "nid (rr_nodes b ! i) = nid n"
    by auto
  have same: "nid ((rr_nodes b)[i := n] ! j) = nid (rr_nodes b ! j)" if "j < length (rr_nodes b)" for j
    using i that by (cases "j = i") auto
  have inv': "rr_inv nid ?b"
    using inv same by (auto simp: rr_inv_def)
  have n_in: "n \<in> set (rr_nodes ?b)"
    using i by (auto simp: set_update_memI)
  have uniq: "x = n" if "x \<in> set (rr_nodes ?b)" "nid x = nid n" for x
    using that n_in rr_inv_distinct [OF inv'] by (auto simp: distinct_map inj_on_def)
  have other: "x \<in> set (rr_nodes ?b) \<longleftrightarrow> x \<in> set (rr_nodes b)" if "nid x \<noteq> nid n" for x
    using that i by (auto simp: in_set_conv_nth nth_list_update)
  have "x \<in> set (rr_nodes ?b) \<and> nid x = s \<longleftrightarrow> ((rr_abs nid b)(nid n \<mapsto> n)) s = Some x" for s x
    using n_in uniq other by (cases "s = nid n") (auto simp: rr_abs_Some_iff [OF inv])
  then have "rr_abs nid ?b = (rr_abs nid b)(nid n \<mapsto> n)"
    by (intro rr_abs_eqI [OF inv']) blast
  with Some i inv' show ?thesis by (intro that [of ?b]) (simp_all add: add_node_def)
qed

lemma remove_node_inv:
  assumes inv: "rr_inv nid b"
  obtains b' where "remove_node nid n b = Ret b'" "rr_inv nid b'" "rr_abs nid b' = (rr_abs nid b)(nid n := None)"
proof (cases "gm_get (rr_node_map b) (nid n)")
  case None
  then have "rr_abs nid b (nid n) = None"
    by (auto simp: rr_inv_None [OF inv] rr_abs_def find_None_iff)
  with None inv show ?thesis by (intro that [of b]) (simp_all add: remove_node_def fun_eq_iff)
next
  case (Some i)
  let ?ns = "rr_nodes b" and ?l = "length (rr_nodes b) - 1"
  let ?ns' = "take ?l (?ns[i := ?ns ! ?l])"
  let ?m = "gm_del (gm_set (rr_node_map b) (nid (?ns ! ?l)) i) (nid n)"
  let ?ix = "if rr_index b \<ge> length ?ns' \<and> length ?ns' > 0 then 0 else rr_index b"
  let ?b = "b\<lparr>rr_nodes := ?ns', rr_node_map := ?m, rr_index := ?ix\<rparr>"
  from rr_inv_mapD [OF inv Some] have i: "i < length ?ns" "nid (?ns ! i) = nid n" by auto
  then have l: "?l < length ?ns" by auto
  have nth': "?ns' ! j = (if j = i then ?ns ! ?l else ?ns ! j)" if "j < ?l" for j
    using that by (simp add: nth_list_update)
  have get: "gm_get ?m s = Some j \<longleftrightarrow> j < ?l \<and> nid (?ns' ! j) = s" for s j
  proof -
    note u = rr_inv_unique [OF inv]
    have lhs: "gm_get ?m s = Some j \<longleftrightarrow> s \<noteq> nid n \<and>
        (if s = nid (?ns ! ?l) then j = i else j < length ?ns \<and> nid (?ns ! j) = s)"
      using inv by (auto simp: rr_inv_def)
    have il: "i < ?l \<longleftrightarrow> nid (?ns ! ?l) \<noteq> nid n"
      using i l u [of i ?l] by (cases "i = ?l") auto
    have jl: "j < length ?ns \<longleftrightarrow> j < ?l \<or> j = ?l" using l by linarith
    have ji: "j < length ?ns \<Longrightarrow> j \<noteq> i \<Longrightarrow> nid (?ns ! j) \<noteq> nid n" using i u [of i j] by auto
    have jd: "j < ?l \<Longrightarrow> nid (?ns ! j) \<noteq> nid (?ns ! ?l)" using l u [of j ?l] by auto
    show ?thesis
    proof (cases "j = i")
      case True
      then show ?thesis unfolding lhs using i il nth' [of i] by auto
    next
      case False
      then show ?thesis unfolding lhs using jl ji jd nth' [of j] by auto
    qed
  qed
  have inv': "rr_inv nid ?b"
    using get i inv by (auto simp: rr_inv_def)
  have mem: "x \<in> set ?ns' \<longleftrightarrow> x \<in> set ?ns \<and> nid x \<noteq> nid n" for x
  proof
    assume "x \<in> set ?ns'"
    then obtain j where j: "j < ?l" "x = ?ns' ! j" by (auto simp: in_set_conv_nth)
    then show "x \<in> set ?ns \<and> nid x \<noteq> nid n"
      using i l nth' [OF j(1)] rr_inv_unique [OF inv, of i ?l] rr_inv_unique [OF inv, of i j]
      by (cases "j = i") (auto dest: nth_mem)
  next
    assume "x \<in> set ?ns \<and> nid x \<noteq> nid n"
    then obtain k where k: "k < length ?ns" "x = ?ns ! k" "k \<noteq> i" using i by (auto simp: in_set_conv_nth)
    then have "\<exists>j < ?l. ?ns' ! j = x"
    proof (cases "k = ?l")
      case True
      with k i have "i < ?l" by linarith
      with True k show ?thesis by (intro exI [of _ i]) (simp add: nth')
    next
      case False
      with k have "k < ?l" by linarith
      with False k show ?thesis by (intro exI [of _ k]) (simp add: nth')
    qed
    then show "x \<in> set ?ns'" by (auto simp: in_set_conv_nth)
  qed
  have "rr_abs nid ?b = (rr_abs nid b)(nid n := None)"
    by (rule rr_abs_eqI [OF inv']) (use mem in \<open>auto simp: rr_abs_Some_iff [OF inv]\<close>)
  moreover have "rr_nodes b \<noteq> []" using i by auto
  ultimately show ?thesis
    using Some i l inv' by (intro that [of ?b]) (simp_all add: remove_node_def Let_def)
qed


section \<open>The interface\<close>

text \<open>
  What Protocube relies on when it uses a \<^verbatim>\<open>Balancer\<close>: seen as a map from node
  identifiers to nodes, \<^verbatim>\<open>AddNode\<close> is an update and \<^verbatim>\<open>RemoveNode\<close> a deletion, no call
  panics, and \<^verbatim>\<open>PickNode\<close> returns a registered node that is not drained, or nil only when
  every registered node is drained.
\<close>

locale balancer =
  fixes nid :: "'n \<Rightarrow> string"
    and pick :: "('n \<Rightarrow> bool) \<Rightarrow> 'b \<Rightarrow> ('n option \<times> 'b) go"
    and add :: "'n \<Rightarrow> 'b \<Rightarrow> 'b go"
    and remove :: "'n \<Rightarrow> 'b \<Rightarrow> 'b go"
    and inv :: "'b \<Rightarrow> bool"
    and view :: "'b \<Rightarrow> string \<Rightarrow> 'n option"
  assumes add_ok: "inv b \<Longrightarrow> \<exists>b'. add n b = Ret b' \<and> inv b' \<and> view b' = (view b)(nid n \<mapsto> n)"
    and remove_ok: "inv b \<Longrightarrow> \<exists>b'. remove n b = Ret b' \<and> inv b' \<and> view b' = (view b)(nid n := None)"
    and pick_ok: "inv b \<Longrightarrow> \<exists>r b'. pick d b = Ret (r, b') \<and> inv b' \<and> view b' = view b \<and>
      (case r of None \<Rightarrow> (\<forall>s n. view b s = Some n \<longrightarrow> d n)
               | Some n \<Rightarrow> view b (nid n) = Some n \<and> \<not> d n)"

text \<open>\<^verbatim>\<open>Provider.SetWithNodes\<close> adds the nodes one after the other.\<close>

fun add_all :: "('n \<Rightarrow> 'b \<Rightarrow> 'b go) \<Rightarrow> 'n list \<Rightarrow> 'b \<Rightarrow> 'b go" where
  "add_all add [] b = Ret b"
| "add_all add (n # ns) b = go_bind (add n b) (add_all add ns)"

context balancer
begin

lemma add_all_ok:
  "inv b \<Longrightarrow> \<exists>b'. add_all add ns b = Ret b' \<and> inv b' \<and>
     view b' = (\<lambda>s. case find (\<lambda>n. nid n = s) (rev ns) of Some n \<Rightarrow> Some n | None \<Rightarrow> view b s)"
proof (induction ns arbitrary: b)
  case Nil
  then show ?case by (simp add: fun_eq_iff)
next
  case (Cons n ns)
  from add_ok [OF Cons.prems] obtain b1 where
    b1: "add n b = Ret b1" "inv b1" "view b1 = (view b)(nid n \<mapsto> n)" by blast
  have snoc: "find P (xs @ [n]) = (case find P xs of Some x \<Rightarrow> Some x | None \<Rightarrow> if P n then Some n else None)"
    for P xs by (induction xs) auto
  from Cons.IH [OF b1(2)] b1 show ?case
    by (fastforce simp: snoc fun_eq_iff split: option.splits)
qed

lemma pick_some_undrained:
  "inv b \<Longrightarrow> view b s = Some n \<Longrightarrow> \<not> d n \<Longrightarrow>
     \<exists>m b'. pick d b = Ret (Some m, b') \<and> \<not> d m \<and> view b (nid m) = Some m"
  using pick_ok [of b d] by (fastforce split: option.splits)

end

interpretation rr: balancer nid pick_node "add_node nid" "remove_node nid" "rr_inv nid" "rr_abs nid"
  for nid :: "'n \<Rightarrow> string"
proof
  fix b :: "'n rr_balancer" and n d
  assume inv: "rr_inv nid b"
  show "\<exists>b'. add_node nid n b = Ret b' \<and> rr_inv nid b' \<and> rr_abs nid b' = (rr_abs nid b)(nid n \<mapsto> n)"
    by (rule add_node_inv [OF inv, of n]) blast
  show "\<exists>b'. remove_node nid n b = Ret b' \<and> rr_inv nid b' \<and> rr_abs nid b' = (rr_abs nid b)(nid n := None)"
    by (rule remove_node_inv [OF inv, of n]) blast
  from pick_node_rotate [OF inv, of d] obtain r b' where
    p: "pick_node d b = Ret (r, b')" "r = find (\<lambda>n. \<not> d n) (rotate (rr_index b) (rr_nodes b))" by blast
  from pick_node_inv [OF inv p(1)] have b': "rr_inv nid b'" "rr_abs nid b' = rr_abs nid b"
    by (auto simp: rr_abs_def)
  have "case r of None \<Rightarrow> \<forall>s n. rr_abs nid b s = Some n \<longrightarrow> d n
    | Some n \<Rightarrow> rr_abs nid b (nid n) = Some n \<and> \<not> d n"
    using p(2) by (auto simp: rr_abs_Some_iff [OF inv] find_None_iff find_Some_iff split: option.splits)
       (metis length_rotate nth_mem set_rotate)
  with p(1) b' show "\<exists>r b'. pick_node d b = Ret (r, b') \<and> rr_inv nid b' \<and> rr_abs nid b' = rr_abs nid b \<and>
      (case r of None \<Rightarrow> \<forall>s n. rr_abs nid b s = Some n \<longrightarrow> d n
       | Some n \<Rightarrow> rr_abs nid b (nid n) = Some n \<and> \<not> d n)"
    by blast
qed

section \<open>The provider\<close>

record 'b provider =
  prov_lb :: 'b

definition provider_get :: "'b provider \<Rightarrow> 'b" where
  "provider_get p = prov_lb p"

definition provider_set :: "'b option \<Rightarrow> 'b provider \<Rightarrow> string + 'b provider" where
  "provider_set lb p =
     (case lb of None \<Rightarrow> Inl ''balancer cannot be nil'' | Some l \<Rightarrow> Inr (p\<lparr>prov_lb := l\<rparr>))"

definition set_with_nodes ::
  "('n \<Rightarrow> 'b \<Rightarrow> 'b go) \<Rightarrow> 'b option \<Rightarrow> 'n list \<Rightarrow> 'b provider \<Rightarrow> (string + 'b provider) go" where
  "set_with_nodes add lb nodes p =
     (case lb of
        None \<Rightarrow> Ret (Inl ''balancer cannot be nil'')
      | Some l \<Rightarrow> go_bind (add_all add nodes l) (\<lambda>l'. Ret (Inr (p\<lparr>prov_lb := l'\<rparr>))))"

section \<open>Runs of the round robin\<close>

datatype 'n rr_op = RrAdd 'n | RrRemove 'n | RrPick "'n \<Rightarrow> bool"

fun rr_step :: "('n \<Rightarrow> string) \<Rightarrow> 'n rr_op \<Rightarrow> 'n rr_balancer \<Rightarrow> 'n rr_balancer go" where
  "rr_step nid (RrAdd n) b = add_node nid n b"
| "rr_step nid (RrRemove n) b = remove_node nid n b"
| "rr_step nid (RrPick d) b = go_bind (pick_node d b) (\<lambda>(r, b'). Ret b')"

fun rr_run :: "('n \<Rightarrow> string) \<Rightarrow> 'n rr_op list \<Rightarrow> 'n rr_balancer \<Rightarrow> 'n rr_balancer go" where
  "rr_run nid [] b = Ret b"
| "rr_run nid (x # xs) b = go_bind (rr_step nid x b) (rr_run nid xs)"

fun node_map_run :: "('n \<Rightarrow> string) \<Rightarrow> 'n rr_op list \<Rightarrow> (string \<Rightarrow> 'n option) \<Rightarrow> string \<Rightarrow> 'n option" where
  "node_map_run nid [] m = m"
| "node_map_run nid (RrAdd n # xs) m = node_map_run nid xs (m(nid n \<mapsto> n))"
| "node_map_run nid (RrRemove n # xs) m = node_map_run nid xs (m(nid n := None))"
| "node_map_run nid (RrPick d # xs) m = node_map_run nid xs m"

lemma rr_run_inv:
  "rr_inv nid b \<Longrightarrow> \<exists>b'. rr_run nid xs b = Ret b' \<and> rr_inv nid b' \<and>
     rr_abs nid b' = node_map_run nid xs (rr_abs nid b)"
proof (induction xs arbitrary: b)
  case Nil
  then show ?case by simp
next
  case (Cons x xs)
  show ?case
  proof (cases x)
    case (RrAdd n)
    with rr.add_ok [OF Cons.prems, of n] Cons.IH show ?thesis by fastforce
  next
    case (RrRemove n)
    with rr.remove_ok [OF Cons.prems, of n] Cons.IH show ?thesis by fastforce
  next
    case (RrPick d)
    with rr.pick_ok [OF Cons.prems, of d] Cons.IH show ?thesis by fastforce
  qed
qed

text \<open>Successive picks while the drained flags do not change.\<close>

fun picks :: "('n \<Rightarrow> bool) \<Rightarrow> nat \<Rightarrow> 'n rr_balancer \<Rightarrow> ('n option list \<times> 'n rr_balancer) go" where
  "picks d 0 b = Ret ([], b)"
| "picks d (Suc k) b =
     go_bind (pick_node d b) (\<lambda>(r, b1). go_bind (picks d k b1) (\<lambda>(rs, b2). Ret (r # rs, b2)))"

text \<open>The undrained nodes, in the order the round robin will reach them.\<close>

definition rr_live :: "('n \<Rightarrow> bool) \<Rightarrow> 'n rr_balancer \<Rightarrow> 'n list" where
  "rr_live d b = filter (\<lambda>n. \<not> d n) (rotate (rr_index b) (rr_nodes b))"

lemma find_takeWhile:
  "find (\<lambda>x. \<not> d x) xs = (if length (takeWhile d xs) < length xs
     then Some (xs ! length (takeWhile d xs)) else None)"
  by (induction xs) auto

lemma takeWhile_split:
  assumes "length (takeWhile d xs) < length xs"
  shows "xs = takeWhile d xs @ xs ! length (takeWhile d xs) # drop (Suc (length (takeWhile d xs))) xs"
  using assms by (metis Cons_nth_drop_Suc takeWhile_dropWhile_id dropWhile_eq_drop)

lemma filter_first:
  assumes "length (takeWhile d xs) < length xs"
  shows "filter (\<lambda>x. \<not> d x) xs = xs ! length (takeWhile d xs) #
    filter (\<lambda>x. \<not> d x) (drop (Suc (length (takeWhile d xs))) xs)"
  by (subst takeWhile_split [OF assms])
     (use nth_length_takeWhile [OF assms] in \<open>auto simp: filter_empty_conv dest: set_takeWhileD\<close>)

lemma filter_rotate_first:
  assumes p: "length (takeWhile d xs) < length xs"
  shows "filter (\<lambda>x. \<not> d x) (rotate (Suc (length (takeWhile d xs))) xs)
       = rotate1 (filter (\<lambda>x. \<not> d x) xs)"
proof -
  let ?p = "length (takeWhile d xs)"
  have "rotate (length (takeWhile d xs @ [xs ! ?p])) ((takeWhile d xs @ [xs ! ?p]) @ drop (Suc ?p) xs)
      = drop (Suc ?p) xs @ takeWhile d xs @ [xs ! ?p]"
    by (simp only: rotate_append)
  then have "rotate (Suc ?p) xs = drop (Suc ?p) xs @ takeWhile d xs @ [xs ! ?p]"
    using takeWhile_split [OF p] by simp
  moreover have "filter (\<lambda>x. \<not> d x) (takeWhile d xs) = []"
    by (auto simp: filter_empty_conv dest: set_takeWhileD)
  ultimately show ?thesis
    using nth_length_takeWhile [OF p] by (simp add: filter_first [OF p])
qed

lemma picks_cycle:
  assumes "rr_inv nid b"
    and "k \<le> length (filter (\<lambda>n. \<not> d n) (rr_nodes b))"
  shows "\<exists>b'. picks d k b =
    Ret (map Some (take k (filter (\<lambda>n. \<not> d n) (rotate (rr_index b) (rr_nodes b)))), b')"
  using assms
proof (induction k arbitrary: b)
  case 0
  then show ?case by simp
next
  case (Suc k)
  let ?R = "rotate (rr_index b) (rr_nodes b)" and ?f = "filter (\<lambda>n. \<not> d n)"
  let ?p = "length (takeWhile d ?R)"
  have lenf: "length (?f ?R) = length (?f (rr_nodes b))"
    by (metis add.commute append_take_drop_id filter_append length_append rotate_drop_take)
  with Suc.prems have ne: "?f ?R \<noteq> []" by auto
  then have p: "?p < length ?R"
    by (metis filter_False length_takeWhile_le linorder_not_less nth_mem order_le_less takeWhile_eq_all_conv
        takeWhile_eq_take take_all)
  obtain b1 where b1: "pick_node d b = Ret (Some (?R ! ?p), b1)"
      "b1 = b\<lparr>rr_index := (rr_index b + Suc ?p) mod length (rr_nodes b)\<rparr>"
    using pick_node_rotate [OF Suc.prems(1), of d] p by (simp add: find_takeWhile min_absorb2)
  from pick_node_inv [OF Suc.prems(1) b1(1)] have inv1: "rr_inv nid b1" "rr_nodes b1 = rr_nodes b" by auto
  have "rotate (rr_index b1) (rr_nodes b1) = rotate (Suc ?p) ?R"
    using b1(2) by (simp add: rotate_rotate rotate_conv_mod [symmetric] add.commute)
  then have R1: "?f (rotate (rr_index b1) (rr_nodes b1)) = rotate1 (?f ?R)"
    using p by (simp add: filter_rotate_first del: rotate_Suc)
  have hd: "?f ?R = ?R ! ?p # tl (?f ?R)"
    using filter_first [OF p] by simp
  have "take k (rotate1 (?f ?R)) = take k (tl (?f ?R))"
    using Suc.prems(2) lenf ne by (cases "?f ?R") auto
  moreover have "k \<le> length (?f (rr_nodes b1))" using Suc.prems(2) inv1 by simp
  ultimately obtain b2 where "picks d k b1 = Ret (map Some (take k (tl (?f ?R))), b2)"
    using Suc.IH [OF inv1(1)] R1 by auto
  moreover have "take (Suc k) (?f ?R) = ?R ! ?p # take k (tl (?f ?R))"
    using hd by (metis take_Suc_Cons)
  ultimately show ?case using b1(1) by simp
qed

section \<open>Properties\<close>

text \<open>
  C19. Whatever sequence of \<^verbatim>\<open>AddNode\<close>, \<^verbatim>\<open>RemoveNode\<close> and \<^verbatim>\<open>PickNode\<close> calls is made on a new
  round-robin balancer, no call panics (the swap-with-last removal never indexes out of
  range), and the balancer holds exactly the nodes a plain map from identifiers to nodes
  would hold after the same additions and removals.
\<close>

theorem rr_refines_map:
  "\<exists>b. rr_run nid ops new_round_robin = Ret b \<and> rr_abs nid b = node_map_run nid ops Map.empty"
proof -
  have "rr_abs nid new_round_robin = Map.empty"
    by (simp add: rr_abs_def new_round_robin_def fun_eq_iff)
  with rr_run_inv [OF rr_inv_new, of nid ops] show ?thesis by auto
qed

text \<open>
  C20. Round-robin order: after any sequence of calls, while the drained flags do not change,
  as many successive picks as there are undrained nodes return each undrained node exactly
  once, in list order starting at the current index; drained nodes are skipped.
\<close>

theorem rr_fair_round:
  assumes "rr_run nid ops new_round_robin = Ret b"
  shows "\<exists>b'. picks d (length (rr_live d b)) b = Ret (map Some (rr_live d b), b') \<and>
           set (rr_live d b) = {n \<in> set (rr_nodes b). \<not> d n} \<and> distinct (map nid (rr_live d b))"
proof -
  from rr_run_inv [OF rr_inv_new, of nid ops] assms(1) have inv: "rr_inv nid b" by auto
  have len: "length (rr_live d b) = length (filter (\<lambda>n. \<not> d n) (rr_nodes b))"
    unfolding rr_live_def
    by (metis add.commute append_take_drop_id filter_append length_append rotate_drop_take)
  have "distinct (map nid (rotate (rr_index b) (rr_nodes b)))"
    using rr_inv_distinct [OF inv] by (simp add: rotate_map [symmetric])
  then have "distinct (map nid (rr_live d b))" by (auto simp: rr_live_def distinct_map inj_on_def)
  with picks_cycle [OF inv, of "length (rr_live d b)" d] len show ?thesis
    by (auto simp: rr_live_def)
qed

text \<open>Two live nodes and a drained one: two picks return the live nodes in turn.\<close>

lemma rr_fair_round_witness:
  "\<exists>b'. picks (\<lambda>n. n = ''b'') 2
     \<lparr>rr_nodes = [''a'', ''b'', ''c''], rr_node_map = [(''a'', 0), (''b'', 1), (''c'', 2)], rr_index = 0\<rparr>
     = Ret ([Some ''a'', Some ''c''], b')"
proof -
  have run: "rr_run (\<lambda>s. s) [RrAdd ''a'', RrAdd ''b'', RrAdd ''c''] new_round_robin =
    Ret \<lparr>rr_nodes = [''a'', ''b'', ''c''], rr_node_map = [(''a'', 0), (''b'', 1), (''c'', 2)], rr_index = 0\<rparr>"
    by (simp add: new_round_robin_def add_node_def gm_get_def gm_set_def)
  have live: "rr_live (\<lambda>n. n = ''b'')
     \<lparr>rr_nodes = [''a'', ''b'', ''c''], rr_node_map = [(''a'', 0), (''b'', 1), (''c'', 2)], rr_index = 0\<rparr>
     = [''a'', ''c'']" by (simp add: rr_live_def)
  have eqs: "length [''a'', ''c''] = 2" "map Some [''a'', ''c''] = [Some ''a'', Some ''c'']" by simp_all
  from rr_fair_round [OF run, of "\<lambda>n. n = ''b''"] show ?thesis
    by (simp only: live eqs) blast
qed

text \<open>
  \<^verbatim>\<open>SetWithNodes\<close> with a new round robin and nodes with distinct identifiers never
  panics, and a pick from the provider's balancer then returns one of the given nodes that
  is not drained whenever there is one.
\<close>

theorem set_with_nodes_picks:
  assumes "distinct (map nid ns)" "n \<in> set ns" "\<not> d n"
  shows "\<exists>p' m b'. set_with_nodes (add_node nid) (Some new_round_robin) ns p = Ret (Inr p') \<and>
     pick_node d (provider_get p') = Ret (Some m, b') \<and> m \<in> set ns \<and> \<not> d m"
proof -
  have empty: "rr_abs nid new_round_robin = Map.empty"
    by (simp add: rr_abs_def new_round_robin_def fun_eq_iff)
  have id: "(case x of Some y \<Rightarrow> Some y | None \<Rightarrow> None) = x" for x :: "'a option"
    by (cases x) auto
  from rr.add_all_ok [OF rr_inv_new, of nid ns] obtain b where b:
    "add_all (add_node nid) ns new_round_robin = Ret b" "rr_inv nid b"
    "rr_abs nid b = (\<lambda>s. find (\<lambda>n. nid n = s) (rev ns))"
    unfolding empty id by blast
  have mem: "rr_abs nid b s = Some x \<Longrightarrow> x \<in> set ns" for s x
    by (auto simp: b(3) find_Some_iff) (metis length_rev nth_mem set_rev)
  have "rr_abs nid b (nid n) \<noteq> None"
    using assms(2) by (auto simp: b(3) find_None_iff)
  then obtain x where x: "rr_abs nid b (nid n) = Some x" by auto
  then have "x = n"
    using assms(1,2) mem [OF x] by (auto simp: rr_abs_Some_iff [OF b(2)] distinct_map inj_on_def)
  with rr.pick_some_undrained [OF b(2) x, of d] assms(3)
  obtain m b' where m: "pick_node d b = Ret (Some m, b')" "\<not> d m" "rr_abs nid b (nid m) = Some m"
    by blast
  from mem [OF m(3)] m b(1) show ?thesis by (simp add: set_with_nodes_def provider_get_def)
qed

lemma set_with_nodes_picks_witness:
  "\<exists>p' m b'. set_with_nodes (add_node id) (Some new_round_robin) [''a'', ''b''] \<lparr>prov_lb = new_round_robin\<rparr> = Ret (Inr p') \<and>
     pick_node (\<lambda>n. n = ''a'') (provider_get p') = Ret (Some m, b') \<and> m \<in> {''a'', ''b''} \<and> m \<noteq> ''a''"
  using set_with_nodes_picks [of id "[''a'', ''b'']" "''b''" "\<lambda>n. n = ''a''" "\<lparr>prov_lb = new_round_robin\<rparr>"]
  by simp

end
