(* ===== verification/Go_Values.thy ===== *)
theory Go_Values
  imports Go_Strings
begin

text \<open>
  The dynamic values (\<^verbatim>\<open>interface{}\<close>) YAML and JSON documents decode to, and limits
  (\<^verbatim>\<open>protocube/environment/settings.go\<close>, \<^verbatim>\<open>helpers.go\<close>), a record of optional fields that is
  copied, merged and validated before a server is built.
\<close>

datatype go_value =
    VNull
  | VBool bool
  | VInt int
  | VStr string
  | VList "go_value list"
  | VMap "(string \<times> go_value) list"

section \<open>Limits\<close>

record limits =
  li_memory :: "int option"
  li_swap :: "int option"
  li_io_weight :: "int option"
  li_cpu :: "int option"
  li_disk :: "int option"
  li_threads :: "string option"
  li_oom_disabled :: "bool option"

definition empty_limits :: limits where
  "empty_limits = \<lparr>li_memory = None, li_swap = None, li_io_weight = None, li_cpu = None,
     li_disk = None, li_threads = None, li_oom_disabled = None\<rparr>"

text \<open>A pointer that is copied field by field; \<open>None\<close> is the nil pointer.\<close>

definition copy_limits :: "limits option \<Rightarrow> limits option" where
  "copy_limits orig = (case orig of
     None \<Rightarrow> None
   | Some l \<Rightarrow> Some \<lparr>li_memory = li_memory l, li_swap = li_swap l, li_io_weight = li_io_weight l,
       li_cpu = li_cpu l, li_disk = li_disk l, li_threads = li_threads l,
       li_oom_disabled = li_oom_disabled l\<rparr>)"

definition set_if :: "'a option \<Rightarrow> 'a option \<Rightarrow> 'a option" where
  "set_if override base = (case override of None \<Rightarrow> base | Some v \<Rightarrow> Some v)"

definition merge_limits :: "limits option \<Rightarrow> limits option \<Rightarrow> limits option" where
  "merge_limits base override = (case override of
     None \<Rightarrow> base
   | Some ov \<Rightarrow>
       (let b = (case base of None \<Rightarrow> empty_limits | Some b \<Rightarrow> b) in
        Some \<lparr>li_memory = set_if (li_memory ov) (li_memory b), li_swap = set_if (li_swap ov) (li_swap b),
          li_io_weight = set_if (li_io_weight ov) (li_io_weight b),
          li_cpu = set_if (li_cpu ov) (li_cpu b), li_disk = set_if (li_disk ov) (li_disk b),
          li_threads = set_if (li_threads ov) (li_threads b),
          li_oom_disabled = set_if (li_oom_disabled ov) (li_oom_disabled b)\<rparr>))"

text \<open>\<^verbatim>\<open>defaults.Set\<close> fills the nil pointers with the values of the struct tags.\<close>

definition default_limits :: "limits \<Rightarrow> limits" where
  "default_limits l = \<lparr>li_memory = set_if (li_memory l) (Some 4096), li_swap = set_if (li_swap l) (Some 0),
     li_io_weight = set_if (li_io_weight l) (Some 500), li_cpu = set_if (li_cpu l) (Some 0),
     li_disk = set_if (li_disk l) (Some 8192), li_threads = set_if (li_threads l) (Some []),
     li_oom_disabled = set_if (li_oom_disabled l) (Some True)\<rparr>"

datatype limits_error = IoWeightOutOfRange

definition validate_limits :: "limits \<Rightarrow> limits_error + limits" where
  "validate_limits l =
     (let l = default_limits l in
      case li_io_weight l of
        None \<Rightarrow> Inr l
      | Some w \<Rightarrow> (if w \<noteq> 0 \<and> (w < 10 \<or> w > 1000) then Inl IoWeightOutOfRange else Inr l))"

lemma set_if_None [simp]: "set_if None b = b" "set_if b None = b"
  by (auto simp: set_if_def split: option.splits)

lemma set_if_Some [simp]: "set_if (Some v) b = Some v"
  by (simp add: set_if_def)

lemma set_if_assoc: "set_if a (set_if b c) = set_if (set_if a b) c"
  by (cases a) auto

lemma copy_limits_id [simp]: "copy_limits l = l"
  by (cases l) (simp_all add: copy_limits_def)

lemma merge_limits_None [simp]: "merge_limits b None = b" "merge_limits None l = l"
  by (cases l; simp add: merge_limits_def empty_limits_def)+

lemma merge_limits_assoc:
  "merge_limits (merge_limits a b) c = merge_limits a (merge_limits b c)"
  by (cases a; cases b; cases c) (simp_all add: merge_limits_def set_if_assoc empty_limits_def Let_def)

end
