(* ===== verification/Software.thy ===== *)
theory Software
  imports Go_Values Go_Path
begin

text \<open>
  Software definitions (\<^verbatim>\<open>protocube/software\<close>): decoding and validation
  (\<^verbatim>\<open>parser.go\<close>), the refresh from a remote URL (\<^verbatim>\<open>update.go\<close>) and loading a directory.
  The YAML library is the parameter \<open>yaml\<close>: for a text it gives a syntax error, or the document,
  \<open>None\<close> where it has no \<^verbatim>\<open>software\<close> key. \<^verbatim>\<open>url.Parse\<close>, the HTTP client and the operating system
  are parameters, too.
\<close>

section \<open>Definitions\<close>

record install_script =
  is_entrypoint :: string
  is_script :: string
  is_skip_scripts :: bool
  is_warmup :: bool
  is_warmup_timeout :: int
  is_warmup_retries :: int
  is_post_warmup_script :: string
  is_post_warmup_timeout :: int
  is_warmup_failure_policy :: string

record config_file =
  cf_parser :: string
  cf_find :: "(string, go_value) gomap"

record software_update =
  su_enabled :: bool
  su_url :: string

record software =
  sw_id :: string
  sw_name :: string
  sw_docker_images :: "(string, string) gomap"
  sw_mappings :: "(string, string) gomap list"
  sw_stop_command :: string
  sw_invocation :: string
  sw_online_signal :: string
  sw_install_script :: install_script
  sw_limits :: "limits option"
  sw_configs :: "(string, config_file) gomap"
  sw_update :: "software_update option"

definition empty_script :: install_script where
  "empty_script = \<lparr>is_entrypoint = [], is_script = [], is_skip_scripts = False, is_warmup = False,
     is_warmup_timeout = 0, is_warmup_retries = 0, is_post_warmup_script = [],
     is_post_warmup_timeout = 0, is_warmup_failure_policy = []\<rparr>"

definition empty_software :: software where
  "empty_software = \<lparr>sw_id = [], sw_name = [], sw_docker_images = [], sw_mappings = [],
     sw_stop_command = [], sw_invocation = [], sw_online_signal = [], sw_install_script = empty_script,
     sw_limits = None, sw_configs = [], sw_update = None\<rparr>"

text \<open>
  The temporary struct of \<^verbatim>\<open>UnmarshalYAML\<close> differs from \<^verbatim>\<open>Software\<close> in its install script, a
  pointer. A decoded document is that pointer and a record for the other fields, whose own
  install script is not read.
\<close>

type_synonym raw_software = "install_script option \<times> software"

datatype software_error =
    MissingField string
  | WarmupTimeoutInvalid
  | WarmupRetriesNegative
  | PostWarmupTimeoutInvalid
  | FailurePolicyInvalid
  | YamlError string
  | ReadError string
  | UrlError string
  | HttpError string
  | WriteError string
  | RenameError string

section \<open>Validation\<close>

definition apply_defaults :: "install_script \<Rightarrow> install_script" where
  "apply_defaults s =
     (let s = (if is_warmup_timeout s = 0 then s\<lparr>is_warmup_timeout := 300\<rparr> else s);
          s = (if is_post_warmup_timeout s = 0 then s\<lparr>is_post_warmup_timeout := 120\<rparr> else s)
      in if trim_space (is_warmup_failure_policy s) = [] then s\<lparr>is_warmup_failure_policy := ''fail''\<rparr>
         else s)"

definition validate_script :: "install_script \<Rightarrow> software_error + install_script" where
  "validate_script s =
     (if is_entrypoint s = [] then Inl (MissingField ''install-script.entrypoint'')
      else if is_script s = [] then Inl (MissingField ''install-script.script'')
      else
        (let s = apply_defaults s in
         if is_warmup_timeout s \<le> 0 then Inl WarmupTimeoutInvalid
         else if is_warmup_retries s < 0 then Inl WarmupRetriesNegative
         else if is_post_warmup_timeout s \<le> 0 then Inl PostWarmupTimeoutInvalid
         else if is_warmup_failure_policy s = ''fail'' \<or> is_warmup_failure_policy s = ''continue''
              \<or> is_warmup_failure_policy s = ''retry'' then Inr s
         else Inl FailurePolicyInvalid))"

text \<open>
  \<^verbatim>\<open>UnmarshalYAML\<close> fills an existing value. It commits the fields before it validates the install
  script, so the value is returned next to the error, if there is one.
\<close>

definition unmarshal_software :: "software \<Rightarrow> raw_software \<Rightarrow> software_error option \<times> software" where
  "unmarshal_software s raw = (case raw of (script, tmp) \<Rightarrow>
     if sw_id tmp = [] then (Some (MissingField ''software.id''), s)
     else if sw_name tmp = [] then (Some (MissingField ''software.name''), s)
     else if length (sw_docker_images tmp) = 0 then (Some (MissingField ''software.images''), s)
     else if sw_stop_command tmp = [] then (Some (MissingField ''software.stop-command''), s)
     else if sw_invocation tmp = [] then (Some (MissingField ''software.invocation''), s)
     else if sw_online_signal tmp = [] then (Some (MissingField ''software.online-signal''), s)
     else
       (let s = s\<lparr>sw_id := sw_id tmp, sw_name := sw_name tmp, sw_docker_images := sw_docker_images tmp,
                  sw_mappings := sw_mappings tmp, sw_stop_command := sw_stop_command tmp,
                  sw_invocation := sw_invocation tmp, sw_online_signal := sw_online_signal tmp,
                  sw_limits := sw_limits tmp, sw_configs := sw_configs tmp, sw_update := sw_update tmp\<rparr>
        in case script of
             None \<Rightarrow> (None, s)
           | Some sc \<Rightarrow>
               (case validate_script sc of
                  Inl e \<Rightarrow> (Some e, s)
                | Inr sc' \<Rightarrow> (None, s\<lparr>sw_install_script := sc'\<rparr>))))"

definition yaml_unmarshal ::
  "(string \<Rightarrow> string + raw_software option) \<Rightarrow> string \<Rightarrow> software \<Rightarrow> software_error option \<times> software" where
  "yaml_unmarshal yaml data cfg = (case yaml data of
     Inl e \<Rightarrow> (Some (YamlError e), cfg)
   | Inr None \<Rightarrow> (None, cfg)
   | Inr (Some raw) \<Rightarrow> unmarshal_software cfg raw)"

section \<open>The remote refresh\<close>

definition normalize_line_endings :: "string \<Rightarrow> string" where
  "normalize_line_endings b = replace_all [CHR 0x0D] [CHR 0x0A] (replace_all [CHR 0x0D, CHR 0x0A] [CHR 0x0A] b)"

record url =
  url_scheme :: string
  url_host :: string
  url_path :: string

text \<open>\<^verbatim>\<open>resolveSoftwareUpdateURL\<close>; \<open>url_parse\<close> is \<^verbatim>\<open>url.Parse\<close>.\<close>

definition resolve_update_url :: "(string \<Rightarrow> url option) \<Rightarrow> string \<Rightarrow> software_error + string" where
  "resolve_update_url url_parse raw =
     (case url_parse raw of
        None \<Rightarrow> Inl (UrlError raw)
      | Some u \<Rightarrow>
          (if \<not> (url_scheme u = ''https'' \<or> url_scheme u = ''http'') then Inl (UrlError (url_scheme u))
           else
             (let host = to_lower (trim_prefix (url_host u) ''www.'') in
              if host \<noteq> ''github.com'' then Inr raw
              else
                (let parts = split_on CHR ''/'' (trim_prefix (url_path u) ''/'') in
                 if length parts < 5 \<or> parts ! 2 \<noteq> ''blob'' then Inr raw
                 else
                   (let owner = parts ! 0; repo = parts ! 1; ref = parts ! 3;
                        subPath = join_with ''/'' (drop 4 parts)
                    in if owner = [] \<or> repo = [] \<or> ref = [] \<or> subPath = []
                       then Inl (UrlError ''invalid GitHub blob URL'')
                       else Inr (''https://raw.githubusercontent.com/'' @ owner @ ''/'' @ repo @ ''/''
                                 @ ref @ ''/'' @ subPath))))))"

text \<open>The files of the software directory with their permission bits, and the calls that may fail.\<close>

type_synonym files = "(string, string \<times> nat) gomap"

record host =
  h_yaml :: "string \<Rightarrow> string + raw_software option"
  h_url_parse :: "string \<Rightarrow> url option"
  h_http_get :: "string \<Rightarrow> string + string"
  h_write_ok :: "string \<Rightarrow> bool"
  h_rename_ok :: "string \<Rightarrow> bool"

text \<open>
  \<^verbatim>\<open>maybeRefreshSoftwareFromURL\<close>: the error, the configuration and the files afterwards. The
  file written is \<open>path\<close> with the suffix \<^verbatim>\<open>.tmp\<close>, renamed over \<open>path\<close>; a write that fails may leave
  a part of the text, which is the argument \<open>part\<close>.
\<close>

definition refresh_software ::
  "host \<Rightarrow> (string \<Rightarrow> string) \<Rightarrow> string \<Rightarrow> string \<Rightarrow> software \<Rightarrow> files \<Rightarrow>
     software_error option \<times> software \<times> files" where
  "refresh_software h part path data cfg fs =
     (case sw_update cfg of
        None \<Rightarrow> (None, cfg, fs)
      | Some u \<Rightarrow>
          (if \<not> su_enabled u \<or> trim_space (su_url u) = [] then (None, cfg, fs)
           else
             (case resolve_update_url (h_url_parse h) (trim_space (su_url u)) of
                Inl e \<Rightarrow> (Some e, cfg, fs)
              | Inr fetchURL \<Rightarrow>
                  (case h_http_get h fetchURL of
                     Inl e \<Rightarrow> (Some (HttpError e), cfg, fs)
                   | Inr remote \<Rightarrow>
                       (if normalize_line_endings data = normalize_line_endings remote then (None, cfg, fs)
                        else
                          (case yaml_unmarshal (h_yaml h) remote empty_software of
                             (Some e, _) \<Rightarrow> (Some e, cfg, fs)
                           | (None, _) \<Rightarrow>
                               (let mode = (case gm_get fs path of None \<Rightarrow> 420 | Some (_, m) \<Rightarrow> m mod 512);
                                    tmp = path @ ''.tmp''
                                in if \<not> h_write_ok h tmp
                                   then (Some (WriteError tmp), cfg, gm_set fs tmp (part remote, mode))
                                   else if \<not> h_rename_ok h path
                                   then (Some (RenameError path), cfg, gm_del (gm_set fs tmp (remote, mode)) tmp)
                                   else
                                     (let fs' = gm_set (gm_del (gm_set fs tmp (remote, mode)) tmp) path (remote, mode)
                                      in case yaml_unmarshal (h_yaml h) remote cfg of
                                           (e, cfg') \<Rightarrow> (e, cfg', fs')))))))))"

text \<open>\<^verbatim>\<open>load\<close>: a failing refresh is logged and the definition read before is used.\<close>

definition load_software ::
  "host \<Rightarrow> (string \<Rightarrow> string) \<Rightarrow> string \<Rightarrow> files \<Rightarrow> (software_error + software) \<times> files" where
  "load_software h part path fs =
     (case gm_get fs path of
        None \<Rightarrow> (Inl (ReadError path), fs)
      | Some (data, _) \<Rightarrow>
          (case yaml_unmarshal (h_yaml h) data empty_software of
             (Some e, _) \<Rightarrow> (Inl e, fs)
           | (None, cfg) \<Rightarrow>
               (case refresh_software h part path data cfg fs of
                  (_, cfg', fs') \<Rightarrow> (Inr cfg', fs'))))"

section \<open>Loading a directory\<close>

text \<open>What \<^verbatim>\<open>filepath.Walk\<close> shows of an entry, in its order.\<close>

record walk_entry =
  we_path :: string
  we_error :: bool
  we_is_dir :: bool

definition is_yaml_file :: "walk_entry \<Rightarrow> bool" where
  "is_yaml_file w \<longleftrightarrow> \<not> we_error w \<and> \<not> we_is_dir w \<and>
     (let ext = to_lower (path_ext (we_path w)) in ext = ''.yaml'' \<or> ext = ''.yml'')"

fun load_all_loop ::
  "host \<Rightarrow> (string \<Rightarrow> string) \<Rightarrow> walk_entry list \<Rightarrow> string list \<Rightarrow> software list \<Rightarrow> files \<Rightarrow>
     software list \<times> files" where
  "load_all_loop h part [] seen acc fs = (acc, fs)"
| "load_all_loop h part (w # ws) seen acc fs =
     (if \<not> is_yaml_file w then load_all_loop h part ws seen acc fs
      else
        (case load_software h part (we_path w) fs of
           (Inl e, fs') \<Rightarrow> load_all_loop h part ws seen acc fs'
         | (Inr s, fs') \<Rightarrow>
             (if sw_id s \<in> set seen then load_all_loop h part ws seen acc fs'
              else load_all_loop h part ws (sw_id s # seen) (acc @ [s]) fs')))"

definition load_all_software ::
  "host \<Rightarrow> (string \<Rightarrow> string) \<Rightarrow> walk_entry list \<Rightarrow> files \<Rightarrow> software list \<times> files" where
  "load_all_software h part ws fs = load_all_loop h part ws [] [] fs"

section \<open>What a loaded definition satisfies\<close>

definition script_ok :: "install_script \<Rightarrow> bool" where
  "script_ok s \<longleftrightarrow> is_entrypoint s \<noteq> [] \<and> is_script s \<noteq> [] \<and> is_warmup_timeout s > 0
     \<and> is_warmup_retries s \<ge> 0 \<and> is_post_warmup_timeout s > 0
     \<and> is_warmup_failure_policy s \<in> {''fail'', ''continue'', ''retry''}"

definition software_ok :: "software \<Rightarrow> bool" where
  "software_ok s \<longleftrightarrow> sw_id s \<noteq> [] \<and> sw_name s \<noteq> [] \<and> sw_docker_images s \<noteq> []
     \<and> sw_stop_command s \<noteq> [] \<and> sw_invocation s \<noteq> [] \<and> sw_online_signal s \<noteq> []
     \<and> (sw_install_script s = empty_script \<or> script_ok (sw_install_script s))"

lemma validate_script_ok: "validate_script sc = Inr sc' \<Longrightarrow> script_ok sc'"
  by (auto simp: validate_script_def apply_defaults_def script_ok_def Let_def split: if_splits)

lemma trim_policies [simp]:
  "trim_space ''fail'' = ''fail''" "trim_space ''continue'' = ''continue''" "trim_space ''retry'' = ''retry''"
  by code_simp+

lemma apply_defaults_ok: "script_ok s \<Longrightarrow> apply_defaults s = s"
  by (auto simp: apply_defaults_def script_ok_def Let_def)

lemma unmarshal_software_ok:
  assumes "unmarshal_software s raw = (None, s')"
    and "sw_install_script s = empty_script \<or> script_ok (sw_install_script s)"
  shows "software_ok s'"
  using assms validate_script_ok
  by (auto simp: unmarshal_software_def software_ok_def Let_def split: prod.splits if_splits option.splits sum.splits)

text \<open>
  C28. A software definition that decodes is complete: every required field is there, and its
  install script, if it has one, has positive timeouts, no negative number of retries and one of
  the three failure policies, defaults filled in. A definition is refused exactly when a field
  is missing or the install script is invalid, and a valid script comes through unchanged.
\<close>

theorem unmarshal_software_valid:
  "(case unmarshal_software empty_software (script, tmp) of
     (None, s) \<Rightarrow> software_ok s \<and> (case script of None \<Rightarrow> sw_install_script s = empty_script
        | Some sc \<Rightarrow> validate_script sc = Inr (sw_install_script s) \<and>
            (script_ok sc \<longrightarrow> sw_install_script s = sc))
   | (Some e, s) \<Rightarrow> (\<exists>f. e = MissingField f) \<or>
        (\<exists>sc. script = Some sc \<and> validate_script sc = Inl e \<and> \<not> script_ok sc))"
proof -
  have keep: "script_ok sc \<Longrightarrow> validate_script sc = Inr sc" for sc
  proof -
    assume ok: "script_ok sc"
    with apply_defaults_ok [OF ok] show ?thesis
      by (simp add: validate_script_def Let_def) (auto simp: script_ok_def)
  qed
  obtain e s where r: "unmarshal_software empty_software (script, tmp) = (e, s)" by fastforce
  show ?thesis
  proof (cases e)
    case None
    with r have "software_ok s"
      using unmarshal_software_ok [of empty_software] by (simp add: empty_software_def)
    with r None keep show ?thesis
      by (auto simp: unmarshal_software_def empty_software_def Let_def split: if_splits option.splits sum.splits)
  next
    case (Some e')
    with r keep show ?thesis
      by (auto simp: unmarshal_software_def Let_def split: if_splits option.splits sum.splits)
  qed
qed

definition sample_script :: install_script where
  "sample_script = \<lparr>is_entrypoint = ''bash'', is_script = ''run'', is_skip_scripts = False, is_warmup = True,
     is_warmup_timeout = 0, is_warmup_retries = 2, is_post_warmup_script = [],
     is_post_warmup_timeout = 15, is_warmup_failure_policy = ''retry''\<rparr>"

definition sample_software :: software where
  "sample_software = \<lparr>sw_id = ''paper'', sw_name = ''Paper'', sw_docker_images = [(''java'', ''img:21'')],
     sw_mappings = [], sw_stop_command = ''stop'', sw_invocation = ''java -jar'', sw_online_signal = ''Done'',
     sw_install_script = empty_script, sw_limits = None, sw_configs = [],
     sw_update = Some \<lparr>su_enabled = True, su_url = ''https://x.org/p.yml''\<rparr>\<rparr>"

lemma unmarshal_software_valid_witness:
  "(case unmarshal_software empty_software (Some (sample_script\<lparr>is_warmup_timeout := 300\<rparr>), sample_software) of
      (None, s) \<Rightarrow> software_ok s \<and> sw_install_script s = sample_script\<lparr>is_warmup_timeout := 300\<rparr>
    | _ \<Rightarrow> False)"
proof -
  have "script_ok (sample_script\<lparr>is_warmup_timeout := 300\<rparr>)"
    "fst (unmarshal_software empty_software (Some (sample_script\<lparr>is_warmup_timeout := 300\<rparr>), sample_software)) = None"
    by code_simp+
  with unmarshal_software_valid [of "Some (sample_script\<lparr>is_warmup_timeout := 300\<rparr>)" sample_software]
  show ?thesis by (auto split: prod.splits option.splits)
qed

section \<open>The refresh\<close>

lemma no_cr_normalized: "CHR 0x0D \<notin> set (normalize_line_endings b)"
proof -
  have "CHR 0x0D \<notin> set (replace_all [CHR 0x0D] [CHR 0x0A] s)" for s
    by (induction s) (auto simp: has_prefix_def)
  then show ?thesis by (simp add: normalize_line_endings_def)
qed

lemma normalize_no_cr: "CHR 0x0D \<notin> set b \<Longrightarrow> normalize_line_endings b = b"
  by (simp add: normalize_line_endings_def replace_all_absent)

text \<open>
  Normalising line endings leaves no carriage return, does nothing to a text without one,
  and is a projection: normalising twice is normalising once.
\<close>

theorem normalize_line_endings_projection:
  "CHR 0x0D \<notin> set (normalize_line_endings b)
   \<and> normalize_line_endings (normalize_line_endings b) = normalize_line_endings b
   \<and> (CHR 0x0D \<in> set b \<or> normalize_line_endings b = b)"
  using no_cr_normalized normalize_no_cr by blast

text \<open>
  A refresh never damages the definition on disk: afterwards the file has its old contents
  and the definition in memory is the one that was loaded, or the file has exactly the fetched
  text, which differs from the old text in more than its line endings and which decodes without
  an error. No other file changes, up to the temporary file.
\<close>

theorem refresh_software_atomic:
  assumes "gm_get fs path = Some (data, mode)" "refresh_software h part path data cfg fs = (e, cfg', fs')"
  shows "(\<forall>q. q \<noteq> path \<longrightarrow> q \<noteq> path @ ''.tmp'' \<longrightarrow> gm_get fs' q = gm_get fs q)
    \<and> (gm_get fs' path = Some (data, mode) \<and> cfg' = cfg
      \<or> (\<exists>u remote. h_http_get h u = Inr remote \<and> gm_get fs' path = Some (remote, mode mod 512)
           \<and> normalize_line_endings remote \<noteq> normalize_line_endings data
           \<and> fst (yaml_unmarshal (h_yaml h) remote empty_software) = None
           \<and> (e, cfg') = yaml_unmarshal (h_yaml h) remote cfg))"
  using assms
  by (auto simp: refresh_software_def Let_def split: option.splits if_splits sum.splits prod.splits)

definition sample_host :: host where
  "sample_host = \<lparr>h_yaml = (\<lambda>s. if s = ''new'' then Inr (Some (None, sample_software\<lparr>sw_name := ''Paper 2''\<rparr>))
        else if s = ''other'' then Inr None else Inl ''bad''),
     h_url_parse = (\<lambda>s. Some \<lparr>url_scheme = ''https'', url_host = ''x.org'', url_path = ''/p.yml''\<rparr>),
     h_http_get = (\<lambda>u. Inr ''new''), h_write_ok = (\<lambda>p. True), h_rename_ok = (\<lambda>p. True)\<rparr>"

lemma refresh_software_atomic_witness:
  "\<exists>cfg' fs'. refresh_software sample_host id ''p.yml'' ''old'' sample_software [(''p.yml'', (''old'', 420))]
      = (None, cfg', fs') \<and> sw_name cfg' = ''Paper 2'' \<and> gm_get fs' ''p.yml'' = Some (''new'', 420)
      \<and> gm_get fs' ''q.yml'' = None"
proof -
  let ?r = "refresh_software sample_host id ''p.yml'' ''old'' sample_software [(''p.yml'', (''old'', 420))]"
  obtain e cfg' fs' where r: "?r = (e, cfg', fs')" by (cases ?r)
  have "case ?r of (e, cfg', fs') \<Rightarrow> e = None \<and> sw_name cfg' = ''Paper 2'' \<and> gm_get fs' ''p.yml'' = Some (''new'', 420)"
    by code_simp
  with r have "e = None" "sw_name cfg' = ''Paper 2''" "gm_get fs' ''p.yml'' = Some (''new'', 420)" by auto
  moreover have "gm_get [(''p.yml'', (''old'', 420 :: nat))] ''p.yml'' = Some (''old'', 420)" by code_simp
  then have "gm_get fs' ''q.yml'' = gm_get [(''p.yml'', (''old'', 420))] ''q.yml''"
    using refresh_software_atomic [OF _ r] by auto
  then have "gm_get fs' ''q.yml'' = None" by (simp add: gm_get_def)
  ultimately show ?thesis using r by blast
qed

text \<open>
  The validation of the fetched text has two gaps. A document without a \<^verbatim>\<open>software\<close> key
  passes it and replaces the file; and a definition whose new version has no install script
  keeps the old script in memory.
\<close>

lemma refresh_accepts_foreign_document:
  "(case refresh_software (sample_host\<lparr>h_http_get := \<lambda>u. Inr ''other''\<rparr>) id ''p.yml'' ''old'' sample_software
       [(''p.yml'', (''old'', 420))] of
     (e, cfg', fs') \<Rightarrow> e = None \<and> cfg' = sample_software \<and> gm_get fs' ''p.yml'' = Some (''other'', 420))"
  by code_simp

lemma refresh_keeps_removed_script:
  "(case refresh_software sample_host id ''p.yml'' ''old'' (sample_software\<lparr>sw_install_script := sample_script\<rparr>)
       [(''p.yml'', (''old'', 420))] of
     (e, cfg', fs') \<Rightarrow> e = None \<and> sw_name cfg' = ''Paper 2'' \<and> sw_install_script cfg' = sample_script)"
  by code_simp

text \<open>
  A GitHub page address \<^verbatim>\<open>/owner/repo/blob/ref/path\<close>, with or without \<^verbatim>\<open>www.\<close>, becomes the
  address of the raw file for every nonempty path, however deep; any other http address is kept.
\<close>

theorem resolve_github_blob:
  assumes "url_parse raw = Some u" "url_scheme u \<in> {''http'', ''https''}"
  shows "(to_lower (trim_prefix (url_host u) ''www.'') \<noteq> ''github.com'' \<longrightarrow> resolve_update_url url_parse raw = Inr raw)
    \<and> (to_lower (trim_prefix (url_host u) ''www.'') = ''github.com'' \<longrightarrow>
        url_path u = ''/'' @ owner @ ''/'' @ repo @ ''/blob/'' @ ref @ ''/'' @ path \<longrightarrow>
        CHR ''/'' \<notin> set owner \<longrightarrow> CHR ''/'' \<notin> set repo \<longrightarrow> CHR ''/'' \<notin> set ref \<longrightarrow>
        owner \<noteq> [] \<longrightarrow> repo \<noteq> [] \<longrightarrow> ref \<noteq> [] \<longrightarrow> path \<noteq> [] \<longrightarrow>
        resolve_update_url url_parse raw =
          Inr (''https://raw.githubusercontent.com/'' @ owner @ ''/'' @ repo @ ''/'' @ ref @ ''/'' @ path))"
proof (intro conjI impI)
  assume "to_lower (trim_prefix (url_host u) ''www.'') \<noteq> ''github.com''"
  with assms show "resolve_update_url url_parse raw = Inr raw"
    by (auto simp: resolve_update_url_def Let_def)
next
  assume host: "to_lower (trim_prefix (url_host u) ''www.'') = ''github.com''"
    and p: "url_path u = ''/'' @ owner @ ''/'' @ repo @ ''/blob/'' @ ref @ ''/'' @ path"
    and ns: "CHR ''/'' \<notin> set owner" "CHR ''/'' \<notin> set repo" "CHR ''/'' \<notin> set ref"
    and ne: "owner \<noteq> []" "repo \<noteq> []" "ref \<noteq> []" "path \<noteq> []"
  have "trim_prefix (url_path u) ''/'' = owner @ CHR ''/'' # repo @ CHR ''/'' # ''blob'' @ CHR ''/'' # ref @ CHR ''/'' # path"
    by (simp add: p trim_prefix_def has_prefix_def)
  then have parts: "split_on CHR ''/'' (trim_prefix (url_path u) ''/'') =
      owner # repo # ''blob'' # ref # split_on CHR ''/'' path"
    using ns by (simp only: split_on_append_sep) (simp add: split_on_append_sep del: append.simps(2))
  have "length (split_on CHR ''/'' path) \<ge> 1"
    by (simp add: length_split_on)
  with parts host assms ne show "resolve_update_url url_parse raw =
      Inr (''https://raw.githubusercontent.com/'' @ owner @ ''/'' @ repo @ ''/'' @ ref @ ''/'' @ path)"
    by (auto simp: resolve_update_url_def Let_def join_split)
qed

lemma resolve_github_blob_witness:
  "resolve_update_url (\<lambda>s. Some \<lparr>url_scheme = ''https'', url_host = ''www.GitHub.com'', url_path = ''/foo/bar/blob/v1.0/p/q.yml''\<rparr>) ''u''
     = Inr ''https://raw.githubusercontent.com/foo/bar/v1.0/p/q.yml''"
proof -
  let ?p = "\<lambda>s::string. Some \<lparr>url_scheme = ''https'', url_host = ''www.GitHub.com'', url_path = ''/foo/bar/blob/v1.0/p/q.yml''\<rparr>"
  have "to_lower (trim_prefix ''www.GitHub.com'' ''www.'') = ''github.com''" by code_simp
  with resolve_github_blob [of ?p "''u''" "\<lparr>url_scheme = ''https'', url_host = ''www.GitHub.com'', url_path = ''/foo/bar/blob/v1.0/p/q.yml''\<rparr>"
      "''foo''" "''bar''" "''v1.0''" "''p/q.yml''"]
  show ?thesis by simp
qed

subsection \<open>Loading all definitions\<close>

lemma load_all_loop_ids:
  assumes "set seen = sw_id ` set acc" "distinct (map sw_id acc)"
  shows "distinct (map sw_id (fst (load_all_loop h part ws seen acc fs)))
    \<and> (\<exists>rest. fst (load_all_loop h part ws seen acc fs) = acc @ rest)"
  using assms
proof (induction ws arbitrary: seen acc fs)
  case (Cons w ws)
  obtain r fs' where l: "load_software h part (we_path w) fs = (r, fs')" by fastforce
  show ?case
  proof (cases "is_yaml_file w \<and> (\<exists>s. r = Inr s \<and> sw_id s \<notin> set seen)")
    case True
    then obtain s where s: "r = Inr s" "sw_id s \<notin> set seen" by blast
    have "set (sw_id s # seen) = sw_id ` set (acc @ [s])" "distinct (map sw_id (acc @ [s]))"
      using Cons.prems s by auto
    from Cons.IH [OF this, of fs'] s l True show ?thesis by auto
  next
    case False
    then have "load_all_loop h part (w # ws) seen acc fs = load_all_loop h part ws seen acc (if is_yaml_file w then fs' else fs)"
      by (auto simp: l split: sum.splits)
    with Cons.IH [OF Cons.prems] show ?thesis by simp
  qed
qed simp

text \<open>
  Loading a directory gives no two definitions with the same identifier, whatever the files
  hold and whatever their refreshes do.
\<close>

theorem load_all_software_distinct:
  "distinct (map sw_id (fst (load_all_software h part ws fs)))"
  using load_all_loop_ids [of "[]" "[]"] by (simp add: load_all_software_def)

end
