(* ===== verification/Registries.thy ===== *)
theory Registries
  imports Software
begin

text \<open>
  The contract the registries of Protocube share, as the locale \<open>registry\<close>, and the software
  registry (\<^verbatim>\<open>protocube/software/registry.go\<close>). Each method runs under the registry's lock, so a
  history of calls is a sequence.
\<close>

section \<open>The contract\<close>

locale registry =
  fixes key :: "'v \<Rightarrow> string"
    and inv :: "'r \<Rightarrow> bool"
    and view :: "'r \<Rightarrow> string \<Rightarrow> 'v option"
    and register :: "'v \<Rightarrow> 'r \<Rightarrow> 'r"
    and register_all :: "'v list \<Rightarrow> 'r \<Rightarrow> 'r"
    and replace_with :: "'v list \<Rightarrow> 'r \<Rightarrow> 'r"
    and clear :: "'r \<Rightarrow> 'r"
    and get :: "string \<Rightarrow> 'r \<Rightarrow> 'v option"
    and all :: "'r \<Rightarrow> 'v list"
  assumes register_view: "inv r \<Longrightarrow> inv (register v r) \<and> view (register v r) = (view r)(key v \<mapsto> v)"
    and register_all_eq: "register_all vs r = fold register vs r"
    and replace_eq: "replace_with vs r = register_all vs (clear r)"
    and clear_view: "inv (clear r) \<and> view (clear r) = Map.empty"
    and get_view: "get k r = view r k"
    and all_view: "inv r \<Longrightarrow> distinct (map key (all r)) \<and> set (all r) = ran (view r)"
    and key_view: "inv r \<Longrightarrow> view r k = Some v \<Longrightarrow> key v = k"

definition last_with :: "('v \<Rightarrow> string) \<Rightarrow> string \<Rightarrow> 'v list \<Rightarrow> 'v option" where
  "last_with key k vs = find (\<lambda>v. key v = k) (rev vs)"

lemma last_with_snoc: "last_with key k (vs @ [v]) = (if key v = k then Some v else last_with key k vs)"
  by (simp add: last_with_def)

context registry
begin

lemma register_all_view:
  "inv r \<Longrightarrow> inv (register_all vs r) \<and>
     view (register_all vs r) k = (case last_with key k vs of Some v \<Rightarrow> Some v | None \<Rightarrow> view r k)"
proof (induction vs rule: rev_induct)
  case Nil
  then show ?case by (simp add: register_all_eq last_with_def)
next
  case (snoc v vs)
  have "register_all (vs @ [v]) r = register v (register_all vs r)"
    by (simp add: register_all_eq)
  with snoc register_view [of "register_all vs r" v] show ?case
    by (simp add: last_with_snoc)
qed

text \<open>After a replacement the registry holds the new list and nothing else.\<close>

lemma replace_get: "get k (replace_with vs r) = last_with key k vs"
  using register_all_view [of "clear r" vs k] clear_view [of r]
  by (simp add: replace_eq get_view split: option.splits)

lemma replace_all_elements:
  "distinct (map key vs) \<Longrightarrow> set (all (replace_with vs r)) = set vs"
proof -
  assume d: "distinct (map key vs)"
  let ?r = "replace_with vs r"
  have inv: "inv ?r" using register_all_view [of "clear r"] clear_view by (simp add: replace_eq)
  have view: "view ?r k = last_with key k vs" for k
    using replace_get [of k vs r] by (simp add: get_view)
  have "last_with key (key v) vs = Some v" if "v \<in> set vs" for v
    using d that
  proof (induction vs rule: rev_induct)
    case (snoc x xs)
    then show ?case by (auto simp: last_with_snoc)
  qed simp
  moreover have "last_with key k vs = Some v \<Longrightarrow> v \<in> set vs" for k v
    by (auto simp: last_with_def find_Some_iff dest: nth_mem) (metis nth_mem set_rev length_rev)
  ultimately show ?thesis
    using all_view [OF inv] view by (auto simp: ran_def)
qed

lemma register_get: "inv r \<Longrightarrow> get k (register v r) = (if k = key v then Some v else get k r)"
  using register_view [of r v] by (simp add: get_view)

end

section \<open>The software registry\<close>

record software_registry =
  sr_software :: "(string, software) gomap"

definition sr_new :: software_registry where
  "sr_new = \<lparr>sr_software = []\<rparr>"

definition sr_register :: "software \<Rightarrow> software_registry \<Rightarrow> software_registry" where
  "sr_register s r = r\<lparr>sr_software := gm_set (sr_software r) (sw_id s) s\<rparr>"

fun sr_register_all :: "software list \<Rightarrow> software_registry \<Rightarrow> software_registry" where
  "sr_register_all [] r = r"
| "sr_register_all (s # ss) r =
     sr_register_all ss (r\<lparr>sr_software := gm_set (sr_software r) (sw_id s) s\<rparr>)"

definition sr_clear :: "software_registry \<Rightarrow> software_registry" where
  "sr_clear r = r\<lparr>sr_software := []\<rparr>"

fun software_map :: "software list \<Rightarrow> (string, software) gomap \<Rightarrow> (string, software) gomap" where
  "software_map [] m = m"
| "software_map (s # ss) m = software_map ss (gm_set m (sw_id s) s)"

definition sr_replace_all :: "software list \<Rightarrow> software_registry \<Rightarrow> software_registry" where
  "sr_replace_all ss r = r\<lparr>sr_software := software_map ss []\<rparr>"

definition sr_get :: "string \<Rightarrow> software_registry \<Rightarrow> software option" where
  "sr_get k r = gm_get (sr_software r) k"

definition sr_find :: "(software \<Rightarrow> bool) \<Rightarrow> software_registry \<Rightarrow> software list" where
  "sr_find p r = filter p (gm_values (sr_software r))"

definition sr_all :: "software_registry \<Rightarrow> software list" where
  "sr_all r = gm_values (sr_software r)"

text \<open>A keyed map: distinct keys, each value under its own key.\<close>

definition keyed :: "('v \<Rightarrow> string) \<Rightarrow> (string, 'v) gomap \<Rightarrow> bool" where
  "keyed key m \<longleftrightarrow> gm_wf m \<and> (\<forall>k v. gm_get m k = Some v \<longrightarrow> key v = k)"

lemma keyed_empty [simp]: "keyed key []"
  by (simp add: keyed_def)

lemma keyed_set [simp]: "keyed key m \<Longrightarrow> keyed key (gm_set m (key v) v)"
  by (simp add: keyed_def)

lemma keyed_del [simp]: "keyed key m \<Longrightarrow> keyed key (gm_del m k)"
  by (simp add: keyed_def)


lemma keyed_values:
  assumes "keyed key m"
  shows "distinct (map key (gm_values m)) \<and> set (gm_values m) = ran (gm_get m)"
proof -
  have wf: "gm_wf m" using assms by (simp add: keyed_def)
  have "map key (gm_values m) = map fst m"
    using assms by (auto simp: gm_values_def keyed_def gm_get_in [OF wf] intro!: map_cong)
  with wf set_gm_values [OF wf] show ?thesis by (auto simp: gm_wf_def ran_def)
qed

lemma software_map_fold: "software_map ss m = fold (\<lambda>s m. gm_set m (sw_id s) s) ss m"
  by (induction ss m rule: software_map.induct) auto

lemma sr_register_all_fold: "sr_register_all ss r = fold sr_register ss r"
  by (induction ss r rule: sr_register_all.induct) (auto simp: sr_register_def)

lemma sr_register_all_map: "sr_register_all ss r = r\<lparr>sr_software := software_map ss (sr_software r)\<rparr>"
  by (induction ss r rule: sr_register_all.induct) auto

interpretation sr: registry sw_id "\<lambda>r. keyed sw_id (sr_software r)" "\<lambda>r. gm_get (sr_software r)"
  sr_register sr_register_all sr_replace_all sr_clear sr_get sr_all
  by unfold_locales
     (auto simp: sr_register_def sr_register_all_fold sr_replace_all_def sr_register_all_map sr_clear_def
        sr_get_def sr_all_def keyed_values fun_eq_iff simp flip: sr_register_all_fold, auto simp: keyed_def)

text \<open>
  A reload of the software definitions makes the registry hold exactly the definitions
  loaded: each is found under its identifier, nothing from before survives, and listing the
  registry gives them all, whatever it held.
\<close>

theorem software_reload_exact:
  assumes "distinct (map sw_id ss)"
  shows "set (sr_all (sr_replace_all ss r)) = set ss
    \<and> (\<forall>k. sr_get k (sr_replace_all ss r) = last_with sw_id k ss)
    \<and> (\<forall>s \<in> set ss. sr_get (sw_id s) (sr_replace_all ss r) = Some s)"
proof -
  have "last_with sw_id (sw_id s) ss = Some s" if "s \<in> set ss" for s
    using assms that by (induction ss rule: rev_induct) (auto simp: last_with_snoc)
  with sr.replace_all_elements [OF assms] sr.replace_get show ?thesis by simp
qed

lemma software_reload_exact_witness:
  "sr_get ''paper'' (sr_replace_all [sample_software] (sr_register (sample_software\<lparr>sw_id := ''old''\<rparr>) sr_new))
     = Some sample_software
   \<and> sr_get ''old'' (sr_replace_all [sample_software] (sr_register (sample_software\<lparr>sw_id := ''old''\<rparr>) sr_new)) = None"
proof -
  have "distinct (map sw_id [sample_software])" by simp
  from software_reload_exact [OF this, of "sr_register (sample_software\<lparr>sw_id := ''old''\<rparr>) sr_new"]
  show ?thesis by (auto simp: last_with_def sample_software_def)
qed

end
