(* ===== verification/Software_Version.thy ===== *)
theory Software_Version
  imports Software
begin

text \<open>
  Choosing the container image for a server version (\<^verbatim>\<open>protocube/software/version.go\<close>): version
  numbers, their comparison, constraints such as \<^verbatim>\<open>>=1.17 <=1.17.1\<close>, and the search through the
  mappings. The regular expression of \<^verbatim>\<open>parseVersion\<close> is written out as the scanner it denotes.
\<close>

section \<open>Versions\<close>

datatype version_error =
    EmptyVersion
  | NotNumeric string
  | InvalidComponent atoi_error
  | SoftwareNil
  | NoImages
  | Ambiguous
  | NoImageForVariant string
  | NoMapping string

text \<open>The group \<^verbatim>\<open>\d+(?:\.\d+)*\<close>, as long as possible, and the rest of the text.\<close>

function version_core :: "string \<Rightarrow> string \<times> string" where
  "version_core s =
     (let ds = takeWhile is_digit s; r = dropWhile is_digit s in
      case r of
        c # r' \<Rightarrow> (if c = CHR ''.'' \<and> r' \<noteq> [] \<and> is_digit (hd r')
                  then (case version_core r' of (core, rest) \<Rightarrow> (ds @ CHR ''.'' # core, rest))
                  else (ds, r))
      | [] \<Rightarrow> (ds, r))"
  by pat_completeness auto
termination
proof (relation "measure length")
  show "wf (measure length)" by simp
next
  fix s x xa c r'
  assume "x = takeWhile is_digit s" "xa = dropWhile is_digit s" "xa = c # r'"
  then have "length (c # r') \<le> length s" by (metis length_dropWhile_le)
  then show "(r', s) \<in> measure length" by simp
qed

declare version_core.simps [simp del]

text \<open>The tail \<^verbatim>\<open>(?:[^\d].*)?$\<close>: the dot does not match a newline.\<close>

definition version_match :: "string \<Rightarrow> string option" where
  "version_match v =
     (if v = [] \<or> \<not> is_digit (hd v) then None
      else (case version_core v of (core, rest) \<Rightarrow>
        if CHR 0x0A \<in> set (tl rest) then None else Some core))"

fun parse_parts :: "string list \<Rightarrow> version_error + int list" where
  "parse_parts [] = Inr []"
| "parse_parts (p # ps) =
     (case atoi p of
        (_, Some e) \<Rightarrow> Inl (InvalidComponent e)
      | (n, None) \<Rightarrow>
          (case parse_parts ps of Inl e \<Rightarrow> Inl e | Inr ns \<Rightarrow> Inr (n # ns)))"

definition parse_version :: "string \<Rightarrow> version_error + int list" where
  "parse_version v =
     (let v = trim_space v in
      if v = [] then Inl EmptyVersion
      else (case version_match v of
              None \<Rightarrow> Inl (NotNumeric v)
            | Some core \<Rightarrow> parse_parts (split_on CHR ''.'' core)))"

text \<open>The loop of \<^verbatim>\<open>compareVersions\<close> over the positions, a missing number being 0.\<close>

fun compare_loop :: "nat \<Rightarrow> nat \<Rightarrow> int list \<Rightarrow> int list \<Rightarrow> int" where
  "compare_loop 0 i a b = 0"
| "compare_loop (Suc k) i a b =
     (let av = (if i < length a then a ! i else 0); bv = (if i < length b then b ! i else 0) in
      if av < bv then - 1 else if av > bv then 1 else compare_loop k (Suc i) a b)"

definition compare_versions :: "int list \<Rightarrow> int list \<Rightarrow> int" where
  "compare_versions a b = compare_loop (if length b > length a then length b else length a) 0 a b"

section \<open>Constraints\<close>

fun split_with :: "string list \<Rightarrow> string \<Rightarrow> (string \<times> string) option" where
  "split_with [] tok = None"
| "split_with (op # ops) tok =
     (if has_prefix tok op then Some (op, trim_space (drop (length op) tok)) else split_with ops tok)"

definition split_comparator :: "string \<Rightarrow> string \<times> string" where
  "split_comparator tok =
     (let tok = trim_space tok in
      if tok = [] then ([], [])
      else (case split_with [''>='', ''<='', ''==''] tok of
              Some r \<Rightarrow> r
            | None \<Rightarrow> (case split_with [''>'', ''<'', ''=''] tok of
                        Some r \<Rightarrow> r
                      | None \<Rightarrow> ([], tok))))"

definition comparator_holds :: "string \<Rightarrow> int \<Rightarrow> bool" where
  "comparator_holds op cmp =
     (if op = ''>'' then cmp > 0
      else if op = ''>='' then cmp \<ge> 0
      else if op = ''<'' then cmp < 0
      else if op = ''<='' then cmp \<le> 0
      else if op = ''=='' \<or> op = ''='' then cmp = 0
      else if op = [] then cmp = 0
      else False)"

fun match_tokens :: "int list \<Rightarrow> string list \<Rightarrow> bool" where
  "match_tokens v [] = True"
| "match_tokens v (tok # toks) =
     (case split_comparator tok of (op, refStr) \<Rightarrow>
        (case parse_version refStr of
           Inl _ \<Rightarrow> False
         | Inr refVer \<Rightarrow>
             (if comparator_holds op (compare_versions v refVer) then match_tokens v toks else False)))"

definition matches_constraint :: "int list \<Rightarrow> string \<Rightarrow> bool" where
  "matches_constraint v expr =
     (let expr = trim_space expr in if expr = [] then False else match_tokens v (str_fields expr))"

section \<open>Choosing an image\<close>

text \<open>
  The loops over the mappings. A mapping is a Go map, visited in the order of its list; the
  result is the value returned from inside the loop, if there is one, and the default target.
\<close>

fun scan_mapping ::
  "(string, string) gomap \<Rightarrow> int list \<Rightarrow> (string \<times> string) list \<Rightarrow> string \<Rightarrow>
     (version_error + string) option \<times> string" where
  "scan_mapping images v [] dflt = (None, dflt)"
| "scan_mapping images v ((key, expr) # es) dflt =
     (if key = ''default'' then scan_mapping images v es expr
      else if expr = [] then scan_mapping images v es dflt
      else if matches_constraint v expr then
        (case gm_get images key of
           None \<Rightarrow> (Some (Inl (NoImageForVariant key)), dflt)
         | Some img \<Rightarrow> (Some (Inr img), dflt))
      else scan_mapping images v es dflt)"

fun scan_mappings ::
  "(string, string) gomap \<Rightarrow> int list \<Rightarrow> (string, string) gomap list \<Rightarrow> string \<Rightarrow>
     (version_error + string) option \<times> string" where
  "scan_mappings images v [] dflt = (None, dflt)"
| "scan_mappings images v (m # ms) dflt =
     (case scan_mapping images v m dflt of
        (Some r, d) \<Rightarrow> (Some r, d)
      | (None, d) \<Rightarrow> scan_mappings images v ms d)"

definition image_for_version :: "software option \<Rightarrow> string \<Rightarrow> version_error + string" where
  "image_for_version s version = (case s of
     None \<Rightarrow> Inl SoftwareNil
   | Some s \<Rightarrow>
       (if length (sw_docker_images s) = 0 then Inl NoImages
        else if length (sw_mappings s) = 0 then
          (if length (sw_docker_images s) = 1 then Inr (snd (hd (sw_docker_images s))) else Inl Ambiguous)
        else (case parse_version version of
                Inl e \<Rightarrow> Inl e
              | Inr v \<Rightarrow>
                  (case scan_mappings (sw_docker_images s) v (sw_mappings s) [] of
                     (Some r, _) \<Rightarrow> r
                   | (None, defaultTarget) \<Rightarrow>
                       (if defaultTarget \<noteq> [] then
                          (case gm_get (sw_docker_images s) defaultTarget of
                             Some img \<Rightarrow> Inr img
                           | None \<Rightarrow> Inr defaultTarget)
                        else Inl (NoMapping version))))))"

section \<open>The order on versions\<close>

definition component :: "int list \<Rightarrow> nat \<Rightarrow> int" where
  "component a i = (if i < length a then a ! i else 0)"

definition first_diff_less :: "int list \<Rightarrow> int list \<Rightarrow> bool" where
  "first_diff_less a b \<longleftrightarrow> (\<exists>i. component a i < component b i \<and> (\<forall>j < i. component a j = component b j))"

lemma compare_loop_spec:
  assumes "\<forall>j < i. component a j = component b j"
    and "max (length a) (length b) \<le> i + k"
  shows "compare_loop k i a b =
    (if first_diff_less a b then - 1 else if first_diff_less b a then 1 else 0)"
  using assms
proof (induction k arbitrary: i)
  case 0
  have "component a j = component b j" for j
    using 0 by (cases "j < i") (auto simp: component_def)
  then show ?case by (simp add: first_diff_less_def)
next
  case (Suc k)
  consider (lt) "component a i < component b i" | (gt) "component a i > component b i" | (eq) "component a i = component b i"
    by linarith
  then show ?case
  proof cases
    case lt
    then have "first_diff_less a b" using Suc.prems(1) by (auto simp: first_diff_less_def)
    with lt show ?thesis by (simp add: component_def)
  next
    case gt
    then have "first_diff_less b a" using Suc.prems(1) by (auto simp: first_diff_less_def intro: exI [of _ i])
    moreover have "\<not> first_diff_less a b"
    proof
      assume "first_diff_less a b"
      then obtain j where j: "component a j < component b j" "\<forall>l < j. component a l = component b l"
        by (auto simp: first_diff_less_def)
      show False using j gt Suc.prems(1) by (cases j i rule: linorder_cases) auto
    qed
    ultimately show ?thesis using gt by (simp add: component_def)
  next
    case eq
    then have "\<forall>j < Suc i. component a j = component b j"
      using Suc.prems(1) less_Suc_eq by auto
    with Suc.IH [of "Suc i"] Suc.prems(2) eq show ?thesis by (simp add: component_def)
  qed
qed

lemma compare_versions_lex:
  "compare_versions a b = (if first_diff_less a b then - 1 else if first_diff_less b a then 1 else 0)"
  unfolding compare_versions_def by (rule compare_loop_spec) auto

lemma first_diff_cases:
  "first_diff_less a b \<or> first_diff_less b a \<or> (\<forall>i. component a i = component b i)"
proof (cases "\<exists>i. component a i \<noteq> component b i")
  case True
  define i where "i = (LEAST i. component a i \<noteq> component b i)"
  have i: "component a i \<noteq> component b i" "\<forall>j < i. component a j = component b j"
    using LeastI_ex [OF True] not_less_Least [of _ "\<lambda>i. component a i \<noteq> component b i"]
    unfolding i_def by blast+
  then show ?thesis
    unfolding first_diff_less_def by (metis linorder_cases)
qed blast

lemma first_diff_asym: "first_diff_less a b \<Longrightarrow> \<not> first_diff_less b a"
  unfolding first_diff_less_def by (metis linorder_neqE_nat order_less_asym order_less_irrefl)

lemma first_diff_trans: "first_diff_less a b \<Longrightarrow> first_diff_less b c \<Longrightarrow> first_diff_less a c"
proof -
  assume "first_diff_less a b" "first_diff_less b c"
  then obtain i j where i: "component a i < component b i" "\<forall>k < i. component a k = component b k"
    and j: "component b j < component c j" "\<forall>k < j. component b k = component c k"
    by (auto simp: first_diff_less_def)
  have "component a (min i j) < component c (min i j)"
    using i j by (cases i j rule: linorder_cases) auto
  moreover have "\<forall>k < min i j. component a k = component c k" using i j by simp
  ultimately show ?thesis by (auto simp: first_diff_less_def)
qed

lemma first_diff_cong:
  "(\<forall>i. component a i = component b i) \<Longrightarrow> first_diff_less a c = first_diff_less b c \<and> first_diff_less c a = first_diff_less c b"
  by (simp add: first_diff_less_def)

definition strip_zeros :: "int list \<Rightarrow> int list" where
  "strip_zeros a = rev (dropWhile (\<lambda>n. n = 0) (rev a))"

lemma component_strip: "component (strip_zeros a) i = component a i"
proof (induction a rule: rev_induct)
  case (snoc x xs)
  show ?case
  proof (cases "x = 0")
    case True
    with snoc have "component (strip_zeros (xs @ [x])) i = component xs i" by (simp add: strip_zeros_def)
    also have "\<dots> = component (xs @ [x]) i" by (auto simp: component_def nth_append True)
    finally show ?thesis .
  qed (simp add: strip_zeros_def)
qed (simp add: strip_zeros_def)

lemma strip_zeros_last: "strip_zeros a \<noteq> [] \<Longrightarrow> last (strip_zeros a) \<noteq> 0"
  by (metis (mono_tags) Nil_is_rev_conv hd_dropWhile last_rev strip_zeros_def)

lemma strip_zeros_eq: "(\<forall>i. component a i = component b i) \<longleftrightarrow> strip_zeros a = strip_zeros b"
proof
  assume eq: "\<forall>i. component a i = component b i"
  let ?a = "strip_zeros a" and ?b = "strip_zeros b"
  have c: "component ?a i = component ?b i" for i
    using eq by (simp add: component_strip)
  have "\<not> length x < length y" if "\<And>i. component x i = component y i" "y \<noteq> [] \<Longrightarrow> last y \<noteq> 0" for x y
  proof
    assume l: "length x < length y"
    then have "component x (length y - 1) = 0" "component y (length y - 1) = last y" "y \<noteq> []"
      by (cases y rule: rev_cases; simp add: component_def)+
    with that show False by metis
  qed
  from this [OF c] this [OF c [symmetric]] have "length ?a = length ?b"
    using strip_zeros_last by (metis linorder_neqE_nat)
  then show "?a = ?b"
    using c by (intro nth_equalityI) (auto simp: component_def split: if_splits, metis)
next
  assume "strip_zeros a = strip_zeros b"
  then show "\<forall>i. component a i = component b i" using component_strip by metis
qed

text \<open>
  The comparison is a total order on versions that reads a missing number as 0: it is
  antisymmetric and transitive, always gives -1, 0 or 1, and calls two versions equal exactly
  when they differ in trailing zeros only.
\<close>

theorem compare_versions_total_order:
  "compare_versions b a = - compare_versions a b \<and> compare_versions a b \<in> {- 1, 0, 1}
   \<and> (compare_versions a b = 0 \<longleftrightarrow> strip_zeros a = strip_zeros b)
   \<and> (compare_versions a b \<le> 0 \<longrightarrow> compare_versions b c \<le> 0 \<longrightarrow> compare_versions a c \<le> 0)"
proof (intro conjI impI)
  note lex = compare_versions_lex
  show "compare_versions b a = - compare_versions a b"
    using first_diff_asym [of a b] by (auto simp: lex)
  show "compare_versions a b \<in> {- 1, 0, 1}" by (auto simp: lex)
  show "compare_versions a b = 0 \<longleftrightarrow> strip_zeros a = strip_zeros b"
  proof -
    have "first_diff_less a b \<Longrightarrow> \<not> (\<forall>i. component a i = component b i)" for a b
      by (auto simp: first_diff_less_def) (metis less_irrefl)
    from this [of a b] this [of b a] first_diff_cases [of a b] show ?thesis
      unfolding strip_zeros_eq [symmetric] lex by (metis zero_neq_neg_one zero_neq_one)
  qed
  assume "compare_versions a b \<le> 0" "compare_versions b c \<le> 0"
  then have ab: "first_diff_less a b \<or> (\<forall>i. component a i = component b i)"
    and bc: "first_diff_less b c \<or> (\<forall>i. component b i = component c i)"
    using first_diff_cases by (auto simp: lex split: if_splits)
  then have "first_diff_less a c \<or> (\<forall>i. component a i = component c i)"
    using first_diff_trans first_diff_cong by metis
  then show "compare_versions a c \<le> 0"
    using first_diff_asym by (auto simp: lex first_diff_less_def)
qed

lemma compare_versions_total_order_witness:
  "compare_versions [1, 16, 5] [1, 20, 4] \<le> 0 \<and> compare_versions [1, 20, 4] [1, 20, 4, 0] = 0
   \<and> compare_versions [1, 16, 5] [1, 20, 4, 0] \<le> 0"
proof -
  have "compare_versions [1, 16, 5] [1, 20, 4] \<le> 0" "compare_versions [1, 20, 4] [1, 20, 4, 0] = 0"
    by code_simp+
  with compare_versions_total_order [of "[1, 20, 4]" "[1, 16, 5]" "[1, 20, 4, 0]"] show ?thesis by simp
qed

section \<open>Writing and parsing versions\<close>

definition version_text :: "int list \<Rightarrow> string" where
  "version_text ns = join_with ''.'' (map itoa ns)"

definition version_ok :: "int list \<Rightarrow> bool" where
  "version_ok ns \<longleftrightarrow> ns \<noteq> [] \<and> (\<forall>n \<in> set ns. 0 \<le> n \<and> in_int64 n)"

text \<open>A suffix such as \<^verbatim>\<open>-pre2\<close> that does not continue the number.\<close>

definition suffix_ok :: "string \<Rightarrow> bool" where
  "suffix_ok s \<longleftrightarrow> s = [] \<or> (\<not> is_digit (hd s) \<and> \<not> (hd s = CHR ''.'' \<and> tl s \<noteq> [] \<and> is_digit (hd (tl s)))
     \<and> CHR 0x0A \<notin> set (tl s) \<and> \<not> is_space (last s))"

lemma itoa_digits: "0 \<le> n \<Longrightarrow> itoa n \<noteq> [] \<and> list_all is_digit (itoa n)"
  using nat_digits_props [of n] by (simp add: itoa_def)

lemma not_digit: "\<not> is_digit CHR ''.''" "\<not> is_digit CHR '' ''" "\<not> is_digit CHR ''>''" "\<not> is_digit CHR ''<''"
  "\<not> is_digit CHR ''=''"
  by (simp_all add: is_digit_def)

lemma digit_not_space: "is_digit c \<Longrightarrow> \<not> is_space c"
  by (auto simp: is_digit_def is_space_def)

lemma takeWhile_digits:
  assumes "list_all is_digit x" "r = [] \<or> \<not> is_digit (hd r)"
  shows "takeWhile is_digit (x @ r) = x \<and> dropWhile is_digit (x @ r) = r"
  using assms by (cases r) (auto simp: list_all_iff takeWhile_append2 dropWhile_append2)

lemma version_text_Cons:
  "version_text (n # ns) = itoa n @ (if ns = [] then [] else CHR ''.'' # version_text ns)"
  by (cases ns) (simp_all add: version_text_def)

lemma version_text_hd:
  assumes "version_ok ns"
  shows "version_text ns \<noteq> [] \<and> is_digit (hd (version_text ns))"
proof -
  obtain n ms where "ns = n # ms" "0 \<le> n" using assms by (cases ns) (auto simp: version_ok_def)
  with itoa_digits [of n] show ?thesis
    by (cases "itoa n") (auto simp: version_text_Cons)
qed

lemma version_core_text:
  assumes "version_ok ns" "suffix_ok suf"
  shows "version_core (version_text ns @ suf) = (version_text ns, suf)"
  using assms(1)
proof (induction ns)
  case Nil
  then show ?case by (simp add: version_ok_def)
next
  case (Cons n ns)
  then have n: "itoa n \<noteq> []" "list_all is_digit (itoa n)"
    using itoa_digits [of n] by (auto simp: version_ok_def)
  show ?case
  proof (cases "ns = []")
    case True
    have "suf = [] \<or> \<not> is_digit (hd suf)" using assms(2) by (auto simp: suffix_ok_def)
    note td = takeWhile_digits [OF n(2) this]
    show ?thesis
      using True td assms(2)
      by (subst version_core.simps; cases suf)
         (auto simp: version_text_def suffix_ok_def Let_def iffD2 [OF dropWhile_eq_Nil_conv]
            iffD2 [OF takeWhile_eq_all_conv])
  next
    case False
    let ?r = "CHR ''.'' # version_text ns @ suf"
    have ok: "version_ok ns" using Cons.prems False by (simp add: version_ok_def)
    have eq: "version_text (n # ns) @ suf = itoa n @ ?r"
      using False by (simp add: version_text_Cons)
    have "?r = [] \<or> \<not> is_digit (hd ?r)" by (simp add: not_digit)
    note td = takeWhile_digits [OF n(2) this]
    have "version_text ns @ suf \<noteq> []" "is_digit (hd (version_text ns @ suf))"
      using version_text_hd [OF ok] by auto
    then show ?thesis
      unfolding eq using Cons.IH [OF ok] td False
      by (subst version_core.simps) (simp add: version_text_Cons)
  qed
qed

lemma parse_parts_itoa: "\<forall>n \<in> set ns. in_int64 n \<Longrightarrow> parse_parts (map itoa ns) = Inr ns"
  by (induction ns) (simp_all add: atoi_itoa)

lemma split_version_text:
  assumes "version_ok ns"
  shows "split_on CHR ''.'' (version_text ns) = map itoa ns"
proof -
  have "CHR ''.'' \<notin> set (itoa n)" if "n \<in> set ns" for n
    using that assms itoa_digits [of n] not_digit by (auto simp: version_ok_def list_all_iff)
  with assms show ?thesis
    unfolding version_text_def by (intro split_join) (auto simp: version_ok_def)
qed

lemma version_text_last:
  assumes "version_ok ns"
  shows "\<not> is_space (last (version_text ns))"
  using assms
proof (induction ns)
  case (Cons n ns)
  have "itoa n \<noteq> []" "is_digit (last (itoa n))"
    using Cons.prems itoa_digits [of n] by (auto simp: version_ok_def list_all_iff)
  with Cons show ?case
    using version_text_hd [of ns] digit_not_space by (auto simp: version_text_Cons version_ok_def)
qed (simp add: version_ok_def)

lemma parse_version_text:
  assumes "version_ok ns" "suffix_ok suf"
  shows "parse_version (version_text ns @ suf) = Inr ns"
proof -
  let ?v = "version_text ns @ suf"
  have hd: "version_text ns \<noteq> []" "is_digit (hd ?v)" using version_text_hd [OF assms(1)] by auto
  have "\<not> is_space (last ?v)"
    using version_text_last [OF assms(1)] assms(2) by (cases "suf = []") (auto simp: suffix_ok_def)
  with hd have "trim_space ?v = ?v" using digit_not_space by (intro trim_space_id) auto
  moreover have "version_match ?v = Some (version_text ns)"
    using hd version_core_text [OF assms] assms(2) by (auto simp: version_match_def suffix_ok_def)
  ultimately show ?thesis
    using hd assms(1) by (simp add: parse_version_def split_version_text parse_parts_itoa version_ok_def)
qed

text \<open>
  Parsing a version recovers its numbers, whatever pre-release suffix follows: a version
  written with dots and followed by anything that does not continue the number comes back.
\<close>

theorem parse_version_roundtrip:
  assumes "version_ok ns" "suffix_ok suf"
  shows "parse_version (version_text ns @ suf) = Inr ns"
  by (rule parse_version_text [OF assms])

lemma parse_version_roundtrip_witness:
  "parse_version ''1.21.9-pre2'' = Inr [1, 21, 9]"
proof -
  have "version_text [1, 21, 9] = ''1.21.9''" "suffix_ok ''-pre2''" by code_simp+
  moreover have "version_ok [1, 21, 9]" by (simp add: version_ok_def in_int64_def int64_min_def int64_max_def)
  ultimately show ?thesis using parse_version_roundtrip [of "[1, 21, 9]" "''-pre2''"] by simp
qed

section \<open>Constraints\<close>

definition operators :: "string list" where
  "operators = ['''', ''='', ''=='', ''<'', ''<='', ''>'', ''>='']"

definition constraint_text :: "(string \<times> int list) list \<Rightarrow> string" where
  "constraint_text cs = join_with '' '' (map (\<lambda>(op, r). op @ version_text r) cs)"

definition constraint_ok :: "(string \<times> int list) list \<Rightarrow> bool" where
  "constraint_ok cs \<longleftrightarrow> cs \<noteq> [] \<and> (\<forall>(op, r) \<in> set cs. op \<in> set operators \<and> version_ok r)"

lemma version_text_chars:
  "version_ok ns \<Longrightarrow> \<forall>c \<in> set (version_text ns). \<not> is_space c"
proof (induction ns)
  case (Cons n ns)
  have "\<forall>c \<in> set (itoa n). \<not> is_space c"
    using Cons.prems itoa_digits [of n] digit_not_space by (auto simp: version_ok_def list_all_iff)
  moreover have "\<not> is_space CHR ''.''" by (simp add: is_space_def)
  ultimately show ?case using Cons by (auto simp: version_text_Cons version_ok_def)
qed (simp add: version_ok_def)

lemma operators_chars: "op \<in> set operators \<Longrightarrow> \<forall>x \<in> set op. \<not> is_space x"
  by (auto simp: operators_def is_space_def)

lemma split_comparator_text:
  assumes "op \<in> set operators" "version_ok r"
  shows "split_comparator (op @ version_text r) = (op, version_text r)"
proof -
  obtain c s where t: "version_text r = c # s" "is_digit c"
    using version_text_hd [OF assms(2)] by (cases "version_text r") auto
  have tr: "trim_space (version_text r) = version_text r"
    using version_text_chars [OF assms(2)] by (rule trim_space_none)
  from operators_chars [OF assms(1)] have tr': "trim_space (op @ version_text r) = op @ version_text r"
    using version_text_chars [OF assms(2)] by (intro trim_space_none) auto
  have c: "c \<noteq> CHR ''=''" "c \<noteq> CHR ''<''" "c \<noteq> CHR ''>''"
    using t(2) not_digit by auto
  show ?thesis
    using assms(1) unfolding operators_def split_comparator_def Let_def tr' using tr c t(1)
    by (simp add: has_prefix_def) (elim disjE; simp add: has_prefix_def)
qed

lemma match_tokens_text:
  "\<forall>(op, r) \<in> set cs. op \<in> set operators \<and> version_ok r \<Longrightarrow>
     match_tokens v (map (\<lambda>(op, r). op @ version_text r) cs) \<longleftrightarrow>
       (\<forall>(op, r) \<in> set cs. comparator_holds op (compare_versions v r))"
proof (induction cs)
  case (Cons x cs)
  obtain op r where x: "x = (op, r)" by (cases x)
  have "parse_version (version_text r) = Inr r"
    using parse_version_text [of r "[]"] Cons.prems x by (simp add: suffix_ok_def)
  with Cons x show ?case by (simp add: split_comparator_text)
qed simp

text \<open>
  A constraint means the conjunction of its comparisons: for every list of operators and
  versions, written with spaces between the comparisons, a version matches exactly when each
  comparison holds of it. In particular \<^verbatim>\<open>>=a <=b\<close> is the closed interval from a to b.
\<close>

theorem matches_constraint_conj:
  assumes "constraint_ok cs"
  shows "matches_constraint v (constraint_text cs) \<longleftrightarrow>
    (\<forall>(op, r) \<in> set cs. comparator_holds op (compare_versions v r))"
proof -
  let ?toks = "map (\<lambda>(op, r). op @ version_text r) cs"
  have toks: "\<forall>w \<in> set ?toks. w \<noteq> [] \<and> (\<forall>c \<in> set w. \<not> is_space c)"
  proof -
    have "op @ version_text r \<noteq> [] \<and> (\<forall>c \<in> set (op @ version_text r). \<not> is_space c)"
      if "(op, r) \<in> set cs" for op r
    proof -
      have or: "op \<in> set operators" "version_ok r" using that assms by (auto simp: constraint_ok_def)
      show ?thesis
        using operators_chars [OF or(1)] version_text_hd [OF or(2)] version_text_chars [OF or(2)] by auto
    qed
    then show ?thesis by auto
  qed
  have ne: "?toks \<noteq> []" using assms by (simp add: constraint_ok_def)
  have "\<forall>w \<in> set ?toks. w \<noteq> []" using toks by blast
  note hl = join_with_hd_last [of ?toks "'' ''", OF ne this]
  have "hd ?toks \<in> set ?toks" "last ?toks \<in> set ?toks"
    by (rule hd_in_set [OF ne], rule last_in_set [OF ne])
  then have "\<not> is_space (hd (hd ?toks))" "\<not> is_space (last (last ?toks))"
    using toks by (metis hd_in_set, metis last_in_set)
  with hl have hd: "constraint_text cs \<noteq> []" "\<not> is_space (hd (constraint_text cs))"
    "\<not> is_space (last (constraint_text cs))"
    unfolding constraint_text_def by (simp_all only: simp_thms)
  from trim_space_id [OF this] have "trim_space (constraint_text cs) = constraint_text cs" .
  moreover have "str_fields (constraint_text cs) = ?toks"
    unfolding constraint_text_def using toks by (rule str_fields_join)
  ultimately show ?thesis
    using assms hd(1) match_tokens_text [of cs v]
    by (simp add: matches_constraint_def constraint_ok_def Let_def)
qed

lemma matches_constraint_conj_witness:
  "matches_constraint [1, 17, 1] ''>=1.17 <=1.17.1'' \<and> \<not> matches_constraint [1, 18] ''>=1.17 <=1.17.1''"
proof -
  have t: "constraint_text [(''>='', [1, 17]), (''<='', [1, 17, 1])] = ''>=1.17 <=1.17.1''" by code_simp
  have ok: "constraint_ok [(''>='', [1, 17]), (''<='', [1, 17, 1])]"
    by (simp add: constraint_ok_def operators_def version_ok_def in_int64_def int64_min_def int64_max_def)
  have c: "compare_versions [1, 17, 1] [1, 17] = 1" "compare_versions [1, 17, 1] [1, 17, 1] = 0"
    "compare_versions [1, 18] [1, 17, 1] = 1"
    by code_simp+
  show ?thesis
    using matches_constraint_conj [OF ok, of "[1, 17, 1]"] matches_constraint_conj [OF ok, of "[1, 18]"]
    by (simp add: t c comparator_holds_def)
qed

section \<open>The search\<close>

definition hits :: "int list \<Rightarrow> string \<times> string \<Rightarrow> bool" where
  "hits v kv \<longleftrightarrow> fst kv \<noteq> ''default'' \<and> snd kv \<noteq> [] \<and> matches_constraint v (snd kv)"

definition last_default :: "string \<Rightarrow> (string \<times> string) list \<Rightarrow> string" where
  "last_default d es = foldl (\<lambda>d kv. if fst kv = ''default'' then snd kv else d) d es"

definition image_of :: "(string, string) gomap \<Rightarrow> string \<Rightarrow> version_error + string" where
  "image_of images key = (case gm_get images key of None \<Rightarrow> Inl (NoImageForVariant key) | Some img \<Rightarrow> Inr img)"

lemma scan_mapping_find:
  "(case find (hits v) es of
      Some kv \<Rightarrow> fst (scan_mapping images v es d) = Some (image_of images (fst kv))
    | None \<Rightarrow> scan_mapping images v es d = (None, last_default d es))"
  by (induction images v es d rule: scan_mapping.induct)
     (auto simp: hits_def image_of_def last_default_def split: option.splits)

lemma find_append: "find P (xs @ ys) = (case find P xs of None \<Rightarrow> find P ys | Some x \<Rightarrow> Some x)"
  by (induction xs) auto

lemma scan_mappings_find:
  "(case find (hits v) (concat ms) of
      Some kv \<Rightarrow> fst (scan_mappings images v ms d) = Some (image_of images (fst kv))
    | None \<Rightarrow> scan_mappings images v ms d = (None, last_default d (concat ms)))"
proof (induction ms arbitrary: d)
  case (Cons m ms)
  show ?case
  proof (cases "find (hits v) m")
    case None
    with scan_mapping_find [where v = v and es = m and images = images and d = d] have "scan_mapping images v m d = (None, last_default d m)" by simp
    with Cons.IH [of "last_default d m"] None show ?thesis
      by (auto simp: find_append last_default_def split: option.splits)
  next
    case (Some kv)
    with scan_mapping_find [where v = v and es = m and images = images and d = d] obtain d' where
      "scan_mapping images v m d = (Some (image_of images (fst kv)), d')"
      by (cases "scan_mapping images v m d") auto
    with Some show ?thesis by (simp add: find_append)
  qed
qed (simp add: last_default_def)

text \<open>
  The image for a version is that of the first mapping, in the order written, whose
  constraint the version satisfies, and an error if that key has no image; only when none
  matches is the default used, as the key of an image or, failing that, as an image itself.
\<close>

theorem image_for_version_first_match:
  assumes "sw_docker_images s \<noteq> []" "sw_mappings s \<noteq> []" "parse_version version = Inr v"
  shows "image_for_version (Some s) version =
    (case find (hits v) (concat (sw_mappings s)) of
       Some (key, _) \<Rightarrow> image_of (sw_docker_images s) key
     | None \<Rightarrow>
         (let d = last_default [] (concat (sw_mappings s)) in
          if d = [] then Inl (NoMapping version)
          else Inr (case gm_get (sw_docker_images s) d of Some img \<Rightarrow> img | None \<Rightarrow> d)))"
proof (cases "find (hits v) (concat (sw_mappings s))")
  case None
  with scan_mappings_find [where v = v and ms = "sw_mappings s" and images = "sw_docker_images s" and d = "[]"] assms show ?thesis
    by (auto simp: image_for_version_def Let_def split: option.splits)
next
  case (Some kv)
  with scan_mappings_find [where v = v and ms = "sw_mappings s" and images = "sw_docker_images s" and d = "[]"] obtain d where
    "scan_mappings (sw_docker_images s) v (sw_mappings s) [] = (Some (image_of (sw_docker_images s) (fst kv)), d)"
    by (cases "scan_mappings (sw_docker_images s) v (sw_mappings s) []") auto
  with Some assms show ?thesis by (cases kv) (simp add: image_for_version_def)
qed

definition java_software :: software where
  "java_software = sample_software\<lparr>
     sw_docker_images := [(''java_8'', ''img:8''), (''java_16'', ''img:16''), (''java_21'', ''img:21'')],
     sw_mappings := [[(''java_8'', ''<=1.16.5'')], [(''java_16'', ''>=1.17 <=1.17.1'')], [(''default'', ''java_21'')]]\<rparr>"

lemma image_for_version_first_match_witness:
  "image_for_version (Some java_software) ''1.17'' = Inr ''img:16''
   \<and> image_for_version (Some java_software) ''1.21.9-pre2'' = Inr ''img:21''"
proof -
  have p: "parse_version ''1.17'' = Inr [1, 17]" "parse_version ''1.21.9-pre2'' = Inr [1, 21, 9]"
    by code_simp+
  have f: "find (hits [1, 17]) (concat (sw_mappings java_software)) = Some (''java_16'', ''>=1.17 <=1.17.1'')"
    "find (hits [1, 21, 9]) (concat (sw_mappings java_software)) = None"
    "last_default [] (concat (sw_mappings java_software)) = ''java_21''"
    "gm_get (sw_docker_images java_software) ''java_21'' = Some ''img:21''"
    "image_of (sw_docker_images java_software) ''java_16'' = Inr ''img:16''"
    by code_simp+
  have ne: "sw_docker_images java_software \<noteq> []" "sw_mappings java_software \<noteq> []"
    by (simp_all add: java_software_def)
  show ?thesis
    using image_for_version_first_match [OF ne p(1)] image_for_version_first_match [OF ne p(2)] f by simp
qed

end
