(* ===== verification/Blueprint.thy ===== *)
theory Blueprint
  imports Registries Software_Version
begin

text \<open>
  Blueprints (\<^verbatim>\<open>protocube/blueprint\<close>): decoding, the shorthand forms of volumes, mounts and
  copies, validation against the software registry, loading a directory, and the registry.
  A YAML node offers itself both as a string and as a mapping; \<open>None\<close> where \<^verbatim>\<open>unmarshal\<close> into that
  form fails.
\<close>

section \<open>Data\<close>

record bp_volume =
  bv_name :: string
  bv_source :: string
  bv_target :: string
  bv_mode :: string

record bp_mount =
  bm_target :: string
  bm_source :: string
  bm_read_only :: bool

record bp_copy =
  bc_source :: string
  bc_target :: string

record meta =
  me_id :: string
  me_name :: string
  me_type :: string

record bp_state =
  st_volumes :: "bp_volume list"
  st_mounts :: "bp_mount list"
  st_copy :: "bp_copy list"
  st_env :: "(string, string) gomap"

record bp_server =
  bs_software :: string
  bs_version :: string
  bs_image :: string
  bs_path :: string
  bs_limits :: "limits option"
  bs_configs :: "(string, config_file) gomap"

record blueprint =
  bp_meta :: meta
  bp_server :: "bp_server option"
  bp_state :: "bp_state option"
  bp_save :: bool
  bp_annotations :: "(string, go_value) gomap"

datatype blueprint_error =
    MissingSection string
  | MissingBlueprintField string
  | ShorthandInvalid string
  | ModeInvalid
  | NodeInvalid
  | UnknownSoftware string
  | ImageError version_error
  | ImageUndefined string string
  | LimitsError limits_error
  | BlueprintYaml string
  | BlueprintRead string
  | RegistryNil

section \<open>Shorthand forms\<close>

record 'a node =
  nd_string :: "string option"
  nd_struct :: "'a option"

definition volume_shorthand :: "string \<Rightarrow> blueprint_error + bp_volume" where
  "volume_shorthand s =
     (let parts = split_on CHR '':'' s in
      if length parts < 3 then Inl (ShorthandInvalid s)
      else if length parts > 4 then Inl (ShorthandInvalid s)
      else Inr \<lparr>bv_name = parts ! 0, bv_source = parts ! 1, bv_target = parts ! 2,
                bv_mode = (if length parts = 4 then parts ! 3 else ''cow'')\<rparr>)"

definition unmarshal_volume :: "bp_volume node \<Rightarrow> blueprint_error + bp_volume" where
  "unmarshal_volume n =
     (case nd_string n of
        Some s \<Rightarrow>
          (if trim_space s \<noteq> [] then volume_shorthand (trim_space s)
           else (case nd_struct n of None \<Rightarrow> Inl NodeInvalid | Some v \<Rightarrow> Inr v))
      | None \<Rightarrow> (case nd_struct n of None \<Rightarrow> Inl NodeInvalid | Some v \<Rightarrow> Inr v))"

definition unmarshal_mount :: "bp_mount node \<Rightarrow> blueprint_error + bp_mount" where
  "unmarshal_mount n =
     (case nd_string n of
        None \<Rightarrow> Inl NodeInvalid
      | Some s \<Rightarrow>
          (let parts = split_on CHR '':'' s in
           if length parts < 2 then Inl (ShorthandInvalid s)
           else Inr \<lparr>bm_target = parts ! 1, bm_source = parts ! 0,
                     bm_read_only = (length parts > 2 \<and> parts ! 2 = ''ro'')\<rparr>))"

definition unmarshal_copy :: "bp_copy node \<Rightarrow> blueprint_error + bp_copy" where
  "unmarshal_copy n =
     (case nd_struct n of
        Some c \<Rightarrow> Inr c
      | None \<Rightarrow>
          (case nd_string n of
             None \<Rightarrow> Inl NodeInvalid
           | Some s \<Rightarrow>
               (let parts = split2 CHR '':'' s in
                if length parts < 2 then Inl (ShorthandInvalid s)
                else Inr \<lparr>bc_source = parts ! 0, bc_target = parts ! 1\<rparr>)))"

section \<open>Validation\<close>

definition validate_meta :: "meta \<Rightarrow> blueprint_error option" where
  "validate_meta m =
     (if me_id m = [] then Some (MissingBlueprintField ''blueprint.id'')
      else if me_name m = [] then Some (MissingBlueprintField ''blueprint.name'')
      else if me_type m = [] then Some (MissingBlueprintField ''blueprint.type'')
      else None)"

definition validate_volume :: "bp_volume \<Rightarrow> blueprint_error option" where
  "validate_volume v =
     (if bv_name v = [] then Some (MissingBlueprintField ''volume.name'')
      else if bv_source v = [] then Some (MissingBlueprintField (''volume.source for volume '' @ bv_name v))
      else if bv_target v = [] then Some (MissingBlueprintField (''volume.target for volume '' @ bv_name v))
      else if bv_mode v \<noteq> [] \<and> bv_mode v \<noteq> ''cow'' \<and> bv_mode v \<noteq> ''ro'' \<and> bv_mode v \<noteq> ''rw'' then Some ModeInvalid
      else None)"

fun validate_volumes :: "bp_volume list \<Rightarrow> blueprint_error option" where
  "validate_volumes [] = None"
| "validate_volumes (v # vs) = (case validate_volume v of Some e \<Rightarrow> Some e | None \<Rightarrow> validate_volumes vs)"

definition validate_state :: "bp_state \<Rightarrow> blueprint_error option" where
  "validate_state s = validate_volumes (st_volumes s)"

text \<open>\<open>Server.Validate\<close> fills in the image, the limits and the path; \<open>lookup\<close> is the software registry.\<close>

definition validate_server :: "(string \<Rightarrow> software option) \<Rightarrow> bp_server \<Rightarrow> blueprint_error + bp_server" where
  "validate_server lookup s =
     (if bs_version s = [] then Inl (MissingBlueprintField ''server.version'')
      else if bs_software s = [] then Inl (MissingBlueprintField ''server.software'')
      else
        (let s = s\<lparr>bs_software := to_lower (bs_software s)\<rparr> in
         case lookup (bs_software s) of
           None \<Rightarrow> Inl (UnknownSoftware (bs_software s))
         | Some sw \<Rightarrow>
             (case (if bs_image s = [] then
                      (case image_for_version (Some sw) (bs_version s) of
                         Inl e \<Rightarrow> Inl (ImageError e)
                       | Inr img \<Rightarrow> Inr (s\<lparr>bs_image := img\<rparr>))
                    else
                      (case gm_get (sw_docker_images sw) (bs_image s) of
                         Some url \<Rightarrow> Inr (s\<lparr>bs_image := url\<rparr>)
                       | None \<Rightarrow> Inl (ImageUndefined (bs_image s) (sw_name sw)))) of
                Inl e \<Rightarrow> Inl e
              | Inr s \<Rightarrow>
                  (let own = (case bs_limits s of None \<Rightarrow> empty_limits | Some l \<Rightarrow> l);
                       merged = merge_limits (copy_limits (sw_limits sw)) (Some own)
                   in case merged of
                        None \<Rightarrow> Inr s
                      | Some l \<Rightarrow>
                          (case validate_limits l of
                             Inl e \<Rightarrow> Inl (LimitsError e)
                           | Inr l' \<Rightarrow>
                               (let s = s\<lparr>bs_limits := Some l'\<rparr> in
                                Inr (if bs_path s = []
                                     then s\<lparr>bs_path := path_join [bs_software s, bs_version s]\<rparr>
                                     else s)))))))"

section \<open>Decoding and loading\<close>

record raw_state =
  rs_volumes :: "bp_volume node list"
  rs_mounts :: "bp_mount node list"
  rs_copy :: "bp_copy node list"
  rs_env :: "(string, string) gomap"

record raw_blueprint =
  rb_meta :: "meta option"
  rb_state :: "raw_state option"
  rb_server :: "bp_server option"
  rb_save :: bool
  rb_annotations :: "(string, go_value) gomap"

fun unmarshal_list :: "('a \<Rightarrow> blueprint_error + 'b) \<Rightarrow> 'a list \<Rightarrow> blueprint_error + 'b list" where
  "unmarshal_list f [] = Inr []"
| "unmarshal_list f (x # xs) = (case f x of
     Inl e \<Rightarrow> Inl e
   | Inr y \<Rightarrow> (case unmarshal_list f xs of Inl e \<Rightarrow> Inl e | Inr ys \<Rightarrow> Inr (y # ys)))"

definition unmarshal_state :: "raw_state \<Rightarrow> blueprint_error + bp_state" where
  "unmarshal_state r =
     (case unmarshal_list unmarshal_volume (rs_volumes r) of Inl e \<Rightarrow> Inl e | Inr vs \<Rightarrow>
     (case unmarshal_list unmarshal_mount (rs_mounts r) of Inl e \<Rightarrow> Inl e | Inr ms \<Rightarrow>
     (case unmarshal_list unmarshal_copy (rs_copy r) of Inl e \<Rightarrow> Inl e | Inr cs \<Rightarrow>
        Inr \<lparr>st_volumes = vs, st_mounts = ms, st_copy = cs, st_env = rs_env r\<rparr>)))"

definition decode_state :: "raw_state option \<Rightarrow> blueprint_error + bp_state option" where
  "decode_state r = (case r of
     None \<Rightarrow> Inr None
   | Some r \<Rightarrow> (case unmarshal_state r of Inl e \<Rightarrow> Inl e | Inr s \<Rightarrow> Inr (Some s)))"

definition unmarshal_blueprint ::
  "(string \<Rightarrow> software option) \<Rightarrow> raw_blueprint \<Rightarrow> blueprint_error + blueprint" where
  "unmarshal_blueprint lookup raw =
     (case decode_state (rb_state raw) of
        Inl e \<Rightarrow> Inl e
      | Inr state \<Rightarrow>
     (case rb_meta raw of
        None \<Rightarrow> Inl (MissingSection ''blueprint'')
      | Some m \<Rightarrow>
          (case validate_meta m of
             Some e \<Rightarrow> Inl e
           | None \<Rightarrow>
               (case rb_server raw of
                  None \<Rightarrow> Inl (MissingSection ''server'')
                | Some sv \<Rightarrow>
                    (case validate_server lookup sv of
                       Inl e \<Rightarrow> Inl e
                     | Inr sv' \<Rightarrow>
                         (case (case state of None \<Rightarrow> None | Some st \<Rightarrow> validate_state st) of
                            Some e \<Rightarrow> Inl e
                          | None \<Rightarrow>
                              Inr \<lparr>bp_meta = m, bp_server = Some sv', bp_state = state,
                                   bp_save = rb_save raw, bp_annotations = rb_annotations raw\<rparr>))))))"

definition empty_blueprint :: blueprint where
  "empty_blueprint = \<lparr>bp_meta = \<lparr>me_id = [], me_name = [], me_type = []\<rparr>, bp_server = None, bp_state = None,
     bp_save = False, bp_annotations = []\<rparr>"

text \<open>\<open>yaml\<close> decodes a text; \<open>None\<close> is an empty document, for which \<^verbatim>\<open>UnmarshalYAML\<close> is not called.\<close>

definition load_blueprint ::
  "(string \<Rightarrow> string option) \<Rightarrow> (string \<Rightarrow> string + raw_blueprint option) \<Rightarrow>
     (string \<Rightarrow> software option) \<Rightarrow> string \<Rightarrow> blueprint_error + blueprint" where
  "load_blueprint read yaml lookup path = (case read path of
     None \<Rightarrow> Inl (BlueprintRead path)
   | Some data \<Rightarrow>
       (case yaml data of
          Inl e \<Rightarrow> Inl (BlueprintYaml e)
        | Inr None \<Rightarrow> Inr empty_blueprint
        | Inr (Some raw) \<Rightarrow> unmarshal_blueprint lookup raw))"

fun load_blueprints_loop ::
  "(string \<Rightarrow> blueprint_error + blueprint) \<Rightarrow> walk_entry list \<Rightarrow> string list \<Rightarrow> blueprint list \<Rightarrow> blueprint list" where
  "load_blueprints_loop ld [] seen acc = acc"
| "load_blueprints_loop ld (w # ws) seen acc =
     (if \<not> is_yaml_file w then load_blueprints_loop ld ws seen acc
      else
        (case ld (we_path w) of
           Inl e \<Rightarrow> load_blueprints_loop ld ws seen acc
         | Inr b \<Rightarrow>
             (if me_id (bp_meta b) \<in> set seen then load_blueprints_loop ld ws seen acc
              else load_blueprints_loop ld ws (me_id (bp_meta b) # seen) (acc @ [b]))))"

definition load_all_blueprints ::
  "(string \<Rightarrow> string option) \<Rightarrow> (string \<Rightarrow> string + raw_blueprint option) \<Rightarrow>
     software_registry option \<Rightarrow> walk_entry list \<Rightarrow> blueprint_error + blueprint list" where
  "load_all_blueprints read yaml sw ws = (case sw of
     None \<Rightarrow> Inl RegistryNil
   | Some r \<Rightarrow> Inr (load_blueprints_loop (load_blueprint read yaml (\<lambda>k. sr_get k r)) ws [] []))"

section \<open>What validation guarantees\<close>

text \<open>The blueprint's value, else the software's, else the default.\<close>

definition first_set :: "'a option \<Rightarrow> 'a option \<Rightarrow> 'a \<Rightarrow> 'a" where
  "first_set own sw d = (case own of Some x \<Rightarrow> x | None \<Rightarrow> (case sw of Some y \<Rightarrow> y | None \<Rightarrow> d))"

definition limit_of :: "limits option \<Rightarrow> (limits \<Rightarrow> 'a option) \<Rightarrow> 'a option" where
  "limit_of l f = (case l of None \<Rightarrow> None | Some l \<Rightarrow> f l)"

definition layered_limits :: "limits option \<Rightarrow> limits option \<Rightarrow> limits" where
  "layered_limits own sw =
     \<lparr>li_memory = Some (first_set (limit_of own li_memory) (limit_of sw li_memory) 4096),
      li_swap = Some (first_set (limit_of own li_swap) (limit_of sw li_swap) 0),
      li_io_weight = Some (first_set (limit_of own li_io_weight) (limit_of sw li_io_weight) 500),
      li_cpu = Some (first_set (limit_of own li_cpu) (limit_of sw li_cpu) 0),
      li_disk = Some (first_set (limit_of own li_disk) (limit_of sw li_disk) 8192),
      li_threads = Some (first_set (limit_of own li_threads) (limit_of sw li_threads) []),
      li_oom_disabled = Some (first_set (limit_of own li_oom_disabled) (limit_of sw li_oom_disabled) True)\<rparr>"

lemma set_if_first_set: "set_if (set_if a b) (Some d) = Some (first_set a b d)"
  by (cases a; cases b) (simp_all add: first_set_def)

lemma default_merge_layered:
  "\<exists>m. merge_limits sw (Some (case own of None \<Rightarrow> empty_limits | Some l \<Rightarrow> l)) = Some m
     \<and> default_limits m = layered_limits own sw"
  by (cases own; cases sw)
     (simp_all add: merge_limits_def default_limits_def layered_limits_def set_if_first_set limit_of_def
        empty_limits_def Let_def first_set_def set_if_def split: option.splits)

lemma validate_limits_iff:
  "validate_limits l = Inr l' \<longleftrightarrow> l' = default_limits l
     \<and> (\<forall>w. li_io_weight (default_limits l) = Some w \<longrightarrow> w = 0 \<or> 10 \<le> w \<and> w \<le> 1000)"
  by (auto simp: validate_limits_def Let_def split: option.splits)

text \<open>
  A validated server section is ready to run: its software exists under the lower-case name;
  the image is the one the software maps the version to, or the one it defines under the key
  given; every limit is set, by the blueprint before the software before the default, and the IO
  weight is 0 or between 10 and 1000; and it has a path.
\<close>

theorem validate_server_complete:
  assumes "validate_server lookup s = Inr s'"
  shows "\<exists>sw. lookup (to_lower (bs_software s)) = Some sw \<and> bs_software s' = to_lower (bs_software s)
    \<and> bs_version s' = bs_version s \<and> bs_version s \<noteq> []
    \<and> (if bs_image s = [] then image_for_version (Some sw) (bs_version s) = Inr (bs_image s')
       else gm_get (sw_docker_images sw) (bs_image s) = Some (bs_image s'))
    \<and> bs_limits s' = Some (layered_limits (bs_limits s) (sw_limits sw))
    \<and> (let w = first_set (limit_of (bs_limits s) li_io_weight) (limit_of (sw_limits sw) li_io_weight) 500
       in w = 0 \<or> 10 \<le> w \<and> w \<le> 1000)
    \<and> bs_path s' = (if bs_path s = [] then path_join [to_lower (bs_software s), bs_version s] else bs_path s)"
proof -
  from assms obtain sw where sw: "lookup (to_lower (bs_software s)) = Some sw"
    by (auto simp: validate_server_def Let_def split: if_splits option.splits)
  obtain m where m: "merge_limits (sw_limits sw) (Some (case bs_limits s of None \<Rightarrow> empty_limits | Some l \<Rightarrow> l)) = Some m"
    "default_limits m = layered_limits (bs_limits s) (sw_limits sw)"
    using default_merge_layered [where sw = "sw_limits sw" and own = "bs_limits s"] by blast
  have w: "li_io_weight (default_limits m) =
      Some (first_set (limit_of (bs_limits s) li_io_weight) (limit_of (sw_limits sw) li_io_weight) 500)"
    by (simp add: m(2) layered_limits_def)
  show ?thesis
    using assms sw m w
    by (auto simp: validate_server_def Let_def validate_limits_iff
        split: if_splits option.splits sum.splits)
qed

text \<open>
  The shorthand of a volume is a faithful notation: the text \<^verbatim>\<open>name:source:target:mode\<close>
  gives those four parts, the mode may be left out and then is copy-on-write, and a text with
  fewer than three or more than four parts is refused.
\<close>

theorem volume_shorthand_roundtrip:
  assumes "\<forall>p \<in> {n, s, t, m}. CHR '':'' \<notin> set p"
  shows "volume_shorthand (n @ '':'' @ s @ '':'' @ t @ '':'' @ m) =
      Inr \<lparr>bv_name = n, bv_source = s, bv_target = t, bv_mode = m\<rparr>
    \<and> volume_shorthand (n @ '':'' @ s @ '':'' @ t) =
      Inr \<lparr>bv_name = n, bv_source = s, bv_target = t, bv_mode = ''cow''\<rparr>
    \<and> (\<forall>x. count_list x CHR '':'' \<in> {2, 3} \<longleftrightarrow> (\<exists>v. volume_shorthand x = Inr v))"
proof (intro conjI allI)
  have "split_on CHR '':'' (n @ CHR '':'' # s @ CHR '':'' # t @ CHR '':'' # m) = [n, s, t, m]"
    "split_on CHR '':'' (n @ CHR '':'' # s @ CHR '':'' # t) = [n, s, t]"
    using assms by (simp_all add: split_on_append_sep split_on_single)
  then show "volume_shorthand (n @ '':'' @ s @ '':'' @ t @ '':'' @ m) =
      Inr \<lparr>bv_name = n, bv_source = s, bv_target = t, bv_mode = m\<rparr>"
    and "volume_shorthand (n @ '':'' @ s @ '':'' @ t) =
      Inr \<lparr>bv_name = n, bv_source = s, bv_target = t, bv_mode = ''cow''\<rparr>"
    by (simp_all add: volume_shorthand_def)
next
  fix x
  show "count_list x CHR '':'' \<in> {2, 3} \<longleftrightarrow> (\<exists>v. volume_shorthand x = Inr v)"
    by (auto simp: volume_shorthand_def length_split_on Let_def split: if_splits)
qed

definition registry_example :: "string \<Rightarrow> software option" where
  "registry_example k = (if k = ''paper'' then Some (java_software\<lparr>sw_limits := Some (empty_limits\<lparr>li_memory := Some 2048\<rparr>)\<rparr>)
     else None)"

definition server_example :: bp_server where
  "server_example = \<lparr>bs_software = ''Paper'', bs_version = ''1.17'', bs_image = [], bs_path = [],
     bs_limits = Some (empty_limits\<lparr>li_swap := Some 64\<rparr>), bs_configs = []\<rparr>"

lemma validate_server_complete_witness:
  "\<exists>s'. validate_server registry_example server_example = Inr s' \<and> bs_image s' = ''img:16''
     \<and> limit_of (bs_limits s') li_memory = Some 2048 \<and> limit_of (bs_limits s') li_swap = Some 64
     \<and> limit_of (bs_limits s') li_disk = Some 8192 \<and> bs_path s' = ''paper/1.17''"
proof -
  have "(case validate_server registry_example server_example of Inr s' \<Rightarrow> bs_image s' = ''img:16'' | Inl _ \<Rightarrow> False)"
    by code_simp
  then obtain s' where s': "validate_server registry_example server_example = Inr s'" "bs_image s' = ''img:16''"
    by (auto split: sum.splits)
  have l: "to_lower (bs_software server_example) = ''paper''" "path_join [''paper'', ''1.17''] = ''paper/1.17''"
    by code_simp+
  show ?thesis
    using validate_server_complete [OF s'(1)] s' l
    by (auto simp: registry_example_def server_example_def layered_limits_def limit_of_def first_set_def empty_limits_def)
qed

lemma volume_shorthand_roundtrip_witness:
  "volume_shorthand ''world:worlds/world:/world:ro'' =
     Inr \<lparr>bv_name = ''world'', bv_source = ''worlds/world'', bv_target = ''/world'', bv_mode = ''ro''\<rparr>"
  using volume_shorthand_roundtrip [of "''world''" "''worlds/world''" "''/world''" "''ro''"] by simp

text \<open>
  Two things the validation does not do: a literal image reference is refused, although the
  comment on the code says a full URL may be given; and a volume without a mode passes, although
  the daemon refuses it.
\<close>

lemma literal_image_refused:
  "validate_server registry_example (server_example\<lparr>bs_image := ''img:16''\<rparr>) = Inl (ImageUndefined ''img:16'' ''Paper'')"
  by code_simp

lemma empty_mode_accepted:
  "validate_volume \<lparr>bv_name = ''w'', bv_source = ''w'', bv_target = ''/w'', bv_mode = []\<rparr> = None"
  by (simp add: validate_volume_def)

definition volume_ok :: "bp_volume \<Rightarrow> bool" where
  "volume_ok v \<longleftrightarrow> bv_name v \<noteq> [] \<and> bv_source v \<noteq> [] \<and> bv_target v \<noteq> []
     \<and> bv_mode v \<in> {[], ''cow'', ''ro'', ''rw''}"

lemma validate_volumes_ok: "validate_volumes vs = None \<longleftrightarrow> list_all volume_ok vs"
  by (induction vs) (auto simp: validate_volume_def volume_ok_def split: option.splits)

definition blueprint_ok :: "blueprint \<Rightarrow> bool" where
  "blueprint_ok b \<longleftrightarrow> me_id (bp_meta b) \<noteq> [] \<and> me_name (bp_meta b) \<noteq> [] \<and> me_type (bp_meta b) \<noteq> []
     \<and> bp_server b \<noteq> None
     \<and> (case bp_state b of None \<Rightarrow> True | Some st \<Rightarrow> list_all volume_ok (st_volumes st))"

lemma unmarshal_blueprint_ok:
  assumes "unmarshal_blueprint lookup raw = Inr b"
  shows "blueprint_ok b \<and> (\<exists>sv sv'. rb_server raw = Some sv \<and> validate_server lookup sv = Inr sv' \<and> bp_server b = Some sv')"
  using assms
  by (auto simp: unmarshal_blueprint_def validate_meta_def validate_state_def validate_volumes_ok blueprint_ok_def
      split: sum.splits option.splits if_splits)

lemma load_blueprints_loop_ids:
  assumes "set seen = (\<lambda>b. me_id (bp_meta b)) ` set acc" "distinct (map (\<lambda>b. me_id (bp_meta b)) acc)"
  shows "distinct (map (\<lambda>b. me_id (bp_meta b)) (load_blueprints_loop ld ws seen acc))
    \<and> (\<forall>b \<in> set (load_blueprints_loop ld ws seen acc). b \<in> set acc \<or> (\<exists>w \<in> set ws. is_yaml_file w \<and> ld (we_path w) = Inr b))"
  using assms
proof (induction ws arbitrary: seen acc)
  case (Cons w ws)
  show ?case
  proof (cases "is_yaml_file w \<and> (\<exists>b. ld (we_path w) = Inr b \<and> me_id (bp_meta b) \<notin> set seen)")
    case True
    then obtain b where b: "ld (we_path w) = Inr b" "me_id (bp_meta b) \<notin> set seen" by blast
    have "set (me_id (bp_meta b) # seen) = (\<lambda>b. me_id (bp_meta b)) ` set (acc @ [b])"
      "distinct (map (\<lambda>b. me_id (bp_meta b)) (acc @ [b]))"
      using Cons.prems b by auto
    from Cons.IH [OF this] b True show ?thesis by auto
  next
    case False
    then have "load_blueprints_loop ld (w # ws) seen acc = load_blueprints_loop ld ws seen acc"
      by (auto split: sum.splits)
    with Cons.IH [OF Cons.prems] show ?thesis by auto
  qed
qed simp

text \<open>
  Every blueprint a directory load returns comes from a YAML file of it and, unless that
  file is empty, is complete: it has its metadata, a validated server section and only valid
  volumes; and no two blueprints share an identifier.
\<close>

theorem load_all_blueprints_valid:
  assumes "load_all_blueprints read yaml (Some r) ws = Inr bs"
  shows "distinct (map (\<lambda>b. me_id (bp_meta b)) bs)
    \<and> (\<forall>b \<in> set bs. b = empty_blueprint \<or> blueprint_ok b)
    \<and> (\<forall>b \<in> set bs. \<exists>w \<in> set ws. is_yaml_file w \<and> load_blueprint read yaml (\<lambda>k. sr_get k r) (we_path w) = Inr b)"
proof -
  let ?ld = "load_blueprint read yaml (\<lambda>k. sr_get k r)"
  have bs: "bs = load_blueprints_loop ?ld ws [] []"
    using assms by (simp add: load_all_blueprints_def)
  have "?ld p = Inr b \<Longrightarrow> b = empty_blueprint \<or> blueprint_ok b" for p b
    using unmarshal_blueprint_ok by (auto simp: load_blueprint_def split: option.splits sum.splits)
  moreover have "distinct (map (\<lambda>b. me_id (bp_meta b)) bs)
      \<and> (\<forall>b \<in> set bs. \<exists>w \<in> set ws. is_yaml_file w \<and> ?ld (we_path w) = Inr b)"
    using load_blueprints_loop_ids [of "[]" "[]" ?ld ws] unfolding bs by simp
  ultimately show ?thesis by blast
qed

definition raw_example :: raw_blueprint where
  "raw_example = \<lparr>rb_meta = Some \<lparr>me_id = ''lobby'', me_name = ''Lobby'', me_type = ''hub''\<rparr>,
     rb_state = Some \<lparr>rs_volumes = [\<lparr>nd_string = Some ''world:worlds/w:/world'', nd_struct = None\<rparr>],
        rs_mounts = [], rs_copy = [], rs_env = []\<rparr>,
     rb_server = Some server_example, rb_save = True, rb_annotations = []\<rparr>"

definition walk_example :: "walk_entry list" where
  "walk_example = [\<lparr>we_path = ''/bp'', we_error = False, we_is_dir = True\<rparr>,
     \<lparr>we_path = ''/bp/a.yml'', we_error = False, we_is_dir = False\<rparr>,
     \<lparr>we_path = ''/bp/b.YAML'', we_error = False, we_is_dir = False\<rparr>,
     \<lparr>we_path = ''/bp/c.txt'', we_error = False, we_is_dir = False\<rparr>]"

definition paper_registry :: software_registry where
  "paper_registry = sr_register java_software sr_new"

definition loaded_example :: "blueprint list" where
  "loaded_example = (case load_all_blueprints (\<lambda>p. Some p) (\<lambda>d. Inr (Some raw_example)) (Some paper_registry) walk_example
     of Inr bs \<Rightarrow> bs | Inl _ \<Rightarrow> [])"

lemma loaded_example_eq:
  "load_all_blueprints (\<lambda>p. Some p) (\<lambda>d. Inr (Some raw_example)) (Some paper_registry) walk_example = Inr loaded_example"
  by (simp add: loaded_example_def load_all_blueprints_def)

lemma load_all_blueprints_valid_witness:
  "map (\<lambda>b. me_id (bp_meta b)) loaded_example = [''lobby''] \<and> list_all blueprint_ok loaded_example"
proof -
  have ids: "map (\<lambda>b. me_id (bp_meta b)) loaded_example = [''lobby'']" by code_simp
  have "\<forall>b \<in> set loaded_example. me_id (bp_meta b) \<in> set (map (\<lambda>b. me_id (bp_meta b)) loaded_example)"
    by simp
  then have "empty_blueprint \<notin> set loaded_example"
    unfolding ids by (auto simp: empty_blueprint_def)
  moreover note ids
  ultimately show ?thesis
    using load_all_blueprints_valid [OF loaded_example_eq] by (auto simp: list_all_iff)
qed

section \<open>The blueprint registry\<close>

record blueprint_registry =
  br_blueprints :: "(string, blueprint) gomap"

definition bp_id :: "blueprint \<Rightarrow> string" where
  "bp_id b = me_id (bp_meta b)"

definition br_new :: blueprint_registry where
  "br_new = \<lparr>br_blueprints = []\<rparr>"

definition br_register :: "blueprint \<Rightarrow> blueprint_registry \<Rightarrow> blueprint_registry" where
  "br_register b r = r\<lparr>br_blueprints := gm_set (br_blueprints r) (bp_id b) b\<rparr>"

fun br_register_all :: "blueprint list \<Rightarrow> blueprint_registry \<Rightarrow> blueprint_registry" where
  "br_register_all [] r = r"
| "br_register_all (b # bs) r =
     br_register_all bs (r\<lparr>br_blueprints := gm_set (br_blueprints r) (bp_id b) b\<rparr>)"

definition br_clear :: "blueprint_registry \<Rightarrow> blueprint_registry" where
  "br_clear r = r\<lparr>br_blueprints := []\<rparr>"

fun blueprint_map :: "blueprint list \<Rightarrow> (string, blueprint) gomap \<Rightarrow> (string, blueprint) gomap" where
  "blueprint_map [] m = m"
| "blueprint_map (b # bs) m = blueprint_map bs (gm_set m (bp_id b) b)"

definition br_replace_all :: "blueprint list \<Rightarrow> blueprint_registry \<Rightarrow> blueprint_registry" where
  "br_replace_all bs r = r\<lparr>br_blueprints := blueprint_map bs []\<rparr>"

definition br_get :: "string \<Rightarrow> blueprint_registry \<Rightarrow> blueprint option" where
  "br_get k r = gm_get (br_blueprints r) k"

definition br_find :: "(blueprint \<Rightarrow> bool) \<Rightarrow> blueprint_registry \<Rightarrow> blueprint list" where
  "br_find p r = filter p (gm_values (br_blueprints r))"

definition br_find_type :: "string \<Rightarrow> blueprint_registry \<Rightarrow> blueprint list" where
  "br_find_type t r = br_find (\<lambda>b. me_type (bp_meta b) = t) r"

definition br_all :: "blueprint_registry \<Rightarrow> blueprint list" where
  "br_all r = gm_values (br_blueprints r)"

definition br_all_meta :: "blueprint_registry \<Rightarrow> meta list" where
  "br_all_meta r = map bp_meta (gm_values (br_blueprints r))"

lemma br_register_all_fold: "br_register_all ss r = fold br_register ss r"
  by (induction ss r rule: br_register_all.induct) (auto simp: br_register_def)

lemma br_register_all_map: "br_register_all ss r = r\<lparr>br_blueprints := blueprint_map ss (br_blueprints r)\<rparr>"
  by (induction ss r rule: br_register_all.induct) auto

interpretation br: registry bp_id "\<lambda>r. keyed bp_id (br_blueprints r)" "\<lambda>r. gm_get (br_blueprints r)"
  br_register br_register_all br_replace_all br_clear br_get br_all
  by unfold_locales
     (auto simp: br_register_def br_register_all_fold br_replace_all_def br_register_all_map br_clear_def
        br_get_def br_all_def keyed_values fun_eq_iff simp flip: br_register_all_fold, auto simp: keyed_def)

text \<open>
  After a reload of the blueprints a search by type returns exactly the loaded blueprints of
  that type, and a lookup finds exactly the loaded ones.
\<close>

theorem blueprint_reload_search:
  assumes "load_all_blueprints read yaml (Some sw) ws = Inr bs"
  shows "set (br_find_type t (br_replace_all bs r)) = {b \<in> set bs. me_type (bp_meta b) = t}
    \<and> set (br_all_meta (br_replace_all bs r)) = bp_meta ` set bs
    \<and> (\<forall>b \<in> set bs. br_get (bp_id b) (br_replace_all bs r) = Some b)"
proof -
  have d: "distinct (map bp_id bs)"
    using assms load_blueprints_loop_ids [of "[]" "[]"]
    by (auto simp: load_all_blueprints_def bp_id_def [abs_def])
  have all: "set (gm_values (br_blueprints (br_replace_all bs r))) = set bs"
    using br.replace_all_elements [OF d, of r] by (simp add: br_all_def)
  have "last_with bp_id (bp_id b) bs = Some b" if "b \<in> set bs" for b
    using d that by (induction bs rule: rev_induct) (auto simp: last_with_snoc)
  with all br.replace_get [of _ bs r] show ?thesis
    by (auto simp: br_find_type_def br_find_def br_all_meta_def)
qed

lemma blueprint_reload_search_witness:
  "map bp_id loaded_example = [''lobby'']
   \<and> set (br_find_type ''hub'' (br_replace_all loaded_example br_new)) = set loaded_example"
proof -
  have "map bp_id loaded_example = [''lobby'']" "list_all (\<lambda>b. me_type (bp_meta b) = ''hub'') loaded_example"
    by code_simp+
  then show ?thesis
    using blueprint_reload_search [OF loaded_example_eq, of "''hub''" br_new] by (auto simp: list_all_iff)
qed

end
