(* ===== verification/Allocator.thy ===== *)
theory Allocator
  imports Go_Strings "HOL-Library.Multiset"
begin

text \<open>
  The port allocator of a node (\<^verbatim>\<open>protocube/node/allocator/allocator.go\<close>). The set of used ports
  of an address is a list; \<open>shuffle\<close> is what \<^verbatim>\<open>rand.Shuffle\<close> makes of the addresses on a call,
  any rearrangement. The scan of a port range counts with 64-bit wrap-around and is a loop that
  need not end, so its result is an option: \<open>None\<close> is a call that does not return.
\<close>

section \<open>State\<close>

record port_range =
  pr_start :: int
  pr_end :: int

record allocation =
  al_address :: string
  al_alias :: string
  al_force_outgoing_ip :: bool
  al_port_range :: port_range

text \<open>\<^verbatim>\<open>models.Allocation\<close>, the form a node sends when it registers.\<close>

record model_allocation =
  ma_address :: string
  ma_alias :: string
  ma_force_outgoing_ip :: bool
  ma_ports :: string

record allocator =
  ac_used :: "(string, int list) gomap"
  ac_allocations :: "(string, allocation list) gomap"

text \<open>\<^verbatim>\<open>environment.Allocations\<close>; the closure \<open>Release\<close> is the pair it passes to \<^verbatim>\<open>Allocator.Release\<close>.\<close>

record env_allocations =
  ea_force_outgoing_ip :: bool
  ea_default_ip :: string
  ea_default_port :: int
  ea_alias :: string
  ea_mappings :: "(string, int list) gomap"
  ea_release :: "(string \<times> int) option"

datatype alloc_error =
    InvalidPortRange
  | PortParse atoi_error
  | NoAllocationsConfigured
  | NoAllocations string
  | NoFreePorts

section \<open>Construction\<close>

definition get_range :: "model_allocation \<Rightarrow> alloc_error + port_range" where
  "get_range m =
     (let parts = split_on CHR ''-'' (ma_ports m) in
      if length parts \<noteq> 2 then Inl InvalidPortRange
      else (case atoi (parts ! 0) of
              (_, Some e) \<Rightarrow> Inl (PortParse e)
            | (minPort, None) \<Rightarrow>
                (case atoi (parts ! 1) of
                   (_, Some e) \<Rightarrow> Inl (PortParse e)
                 | (maxPort, None) \<Rightarrow> Inr \<lparr>pr_start = minPort, pr_end = maxPort\<rparr>)))"

definition the_list :: "'a list option \<Rightarrow> 'a list" where
  "the_list x = (case x of None \<Rightarrow> [] | Some xs \<Rightarrow> xs)"

lemma the_list_simps [simp]: "the_list None = []" "the_list (Some xs) = xs"
  by (simp_all add: the_list_def)

fun add_allocations :: "model_allocation list \<Rightarrow> allocator \<Rightarrow> alloc_error + allocator" where
  "add_allocations [] a = Inr a"
| "add_allocations (m # ms) a =
     (case get_range m of
        Inl e \<Rightarrow> Inl e
      | Inr r \<Rightarrow> add_allocations ms
          (a\<lparr>ac_allocations := gm_set (ac_allocations a) (ma_address m)
               (the_list (gm_get (ac_allocations a) (ma_address m)) @
                  [\<lparr>al_address = ma_address m, al_alias = ma_alias m,
                    al_force_outgoing_ip = ma_force_outgoing_ip m, al_port_range = r\<rparr>])\<rparr>))"

definition new_allocator :: "model_allocation list \<Rightarrow> alloc_error + allocator" where
  "new_allocator ms = add_allocations ms \<lparr>ac_used = [], ac_allocations = []\<rparr>"

section \<open>Operations\<close>

definition release_port :: "string \<Rightarrow> int \<Rightarrow> allocator \<Rightarrow> allocator" where
  "release_port address port a =
     (case gm_get (ac_used a) address of
        None \<Rightarrow> a
      | Some used \<Rightarrow> a\<lparr>ac_used := gm_set (ac_used a) address (removeAll port used)\<rparr>)"

text \<open>The inner loop over the ports of one range: the first unused one, if there is one.\<close>

partial_function (option) port_loop :: "int list \<Rightarrow> int \<Rightarrow> int \<Rightarrow> int option option" where
  "port_loop used port end =
     (if port \<le> end then
        (if port \<in> set used then port_loop used (wrap64 (port + 1)) end else Some (Some port))
      else Some None)"

declare port_loop.simps [code]

fun range_loop :: "int list \<Rightarrow> allocation list \<Rightarrow> (int \<times> allocation) option option" where
  "range_loop used [] = Some None"
| "range_loop used (al # als) =
     (case port_loop used (pr_start (al_port_range al)) (pr_end (al_port_range al)) of
        None \<Rightarrow> None
      | Some (Some port) \<Rightarrow> Some (Some (port, al))
      | Some None \<Rightarrow> range_loop used als)"

definition allocate :: "string \<Rightarrow> allocator \<Rightarrow> ((alloc_error + int \<times> allocation) \<times> allocator) option" where
  "allocate address a =
     (let allocs = the_list (gm_get (ac_allocations a) address) in
      if length allocs = 0 then Some (Inl (NoAllocations address), a)
      else
        (let a = (if gm_has (ac_used a) address then a
                  else a\<lparr>ac_used := gm_set (ac_used a) address []\<rparr>);
             used = the_list (gm_get (ac_used a) address)
         in case range_loop used allocs of
              None \<Rightarrow> None
            | Some (Some (port, al)) \<Rightarrow>
                Some (Inr (port, al), a\<lparr>ac_used := gm_set (ac_used a) address (List.insert port used)\<rparr>)
            | Some None \<Rightarrow> Some (Inl NoFreePorts, a)))"

fun address_loop :: "string list \<Rightarrow> allocator \<Rightarrow> ((alloc_error + env_allocations) \<times> allocator) option" where
  "address_loop [] a = Some (Inl NoFreePorts, a)"
| "address_loop (address # rest) a =
     (case allocate address a of
        None \<Rightarrow> None
      | Some (Inl NoFreePorts, a') \<Rightarrow> address_loop rest a'
      | Some (Inl e, a') \<Rightarrow> Some (Inl e, a')
      | Some (Inr (port, al), a') \<Rightarrow>
          Some (Inr \<lparr>ea_force_outgoing_ip = al_force_outgoing_ip al, ea_default_ip = address,
                     ea_default_port = port, ea_alias = al_alias al,
                     ea_mappings = gm_set [] address [port], ea_release = Some (address, port)\<rparr>, a'))"

definition new_allocation ::
  "(string list \<Rightarrow> string list) \<Rightarrow> allocator \<Rightarrow> ((alloc_error + env_allocations) \<times> allocator) option" where
  "new_allocation shuffle a =
     (if length (ac_allocations a) = 0 then Some (Inl NoAllocationsConfigured, a)
      else address_loop (shuffle (gm_keys (ac_allocations a))) a)"

definition in_port_range :: "int \<Rightarrow> allocation \<Rightarrow> bool" where
  "in_port_range port al \<longleftrightarrow> port \<ge> pr_start (al_port_range al) \<and> port \<le> pr_end (al_port_range al)"

definition claim_port :: "string \<Rightarrow> int \<Rightarrow> allocator \<Rightarrow> allocator" where
  "claim_port address port a =
     (let allocs = the_list (gm_get (ac_allocations a) address) in
      if length allocs = 0 then a
      else if \<not> list_ex (in_port_range port) allocs then a
      else a\<lparr>ac_used := gm_set (ac_used a) address
               (List.insert port (the_list (gm_get (ac_used a) address)))\<rparr>)"

section \<open>The ports in use\<close>

definition held :: "allocator \<Rightarrow> (string \<times> int) set" where
  "held a = {(ad, p). p \<in> set (the_list (gm_get (ac_used a) ad))}"

text \<open>The ports the node offers.\<close>

definition offered :: "allocator \<Rightarrow> (string \<times> int) set" where
  "offered a = {(ad, p). \<exists>al \<in> set (the_list (gm_get (ac_allocations a) ad)). in_port_range p al}"

text \<open>
  The invariant: every address has a range, ranges end before the largest 64-bit integer, and
  only offered ports are in use.
\<close>

definition alloc_inv :: "allocator \<Rightarrow> bool" where
  "alloc_inv a \<longleftrightarrow> gm_wf (ac_allocations a)
     \<and> (\<forall>ad als. gm_get (ac_allocations a) ad = Some als \<longrightarrow> als \<noteq> [] \<and>
          (\<forall>al \<in> set als. in_int64 (pr_start (al_port_range al)) \<and> pr_end (al_port_range al) < int64_max))
     \<and> held a \<subseteq> offered a"

lemma held_set [simp]:
  "held (a\<lparr>ac_used := gm_set (ac_used a) ad ps\<rparr>) = {(x, p) \<in> held a. x \<noteq> ad} \<union> {ad} \<times> set ps"
  by (auto simp: held_def the_list_def split: if_splits)

lemma held_allocations [simp]: "held (a\<lparr>ac_allocations := m\<rparr>) = held a"
  by (simp add: held_def)

lemma offered_used [simp]: "offered (a\<lparr>ac_used := m\<rparr>) = offered a"
  by (simp add: offered_def)

subsection \<open>Scanning\<close>

lemma port_loop_find:
  assumes "end < int64_max" "in_int64 port"
  shows "port_loop used port end = Some (find (\<lambda>p. p \<notin> set used) [port..end])"
  using assms(2)
proof (induction "nat (end + 1 - port)" arbitrary: port)
  case 0
  then show ?case by (subst port_loop.simps) simp
next
  case (Suc n)
  then have le: "port \<le> end" by linarith
  with assms(1) Suc.prems have in64: "in_int64 (port + 1)"
    by (simp add: in_int64_def)
  from Suc.hyps(2) have "n = nat (end + 1 - (port + 1))" by linarith
  from Suc.hyps(1) [OF this in64] le in64 show ?case
    by (subst port_loop.simps) (simp add: upto_rec1)
qed

definition ranges_ok :: "allocation list \<Rightarrow> bool" where
  "ranges_ok als \<longleftrightarrow> (\<forall>al \<in> set als. in_int64 (pr_start (al_port_range al)) \<and> pr_end (al_port_range al) < int64_max)"

lemma range_loop_spec:
  assumes "ranges_ok als"
  obtains (free) p al where "range_loop used als = Some (Some (p, al))" "al \<in> set als"
      "in_port_range p al" "p \<notin> set used"
  | (full) "range_loop used als = Some None"
      "\<forall>al \<in> set als. \<forall>p. in_port_range p al \<longrightarrow> p \<in> set used"
  using assms
proof (induction als arbitrary: thesis)
  case Nil
  then show ?case by simp
next
  case (Cons al als)
  let ?scan = "find (\<lambda>p. p \<notin> set used) [pr_start (al_port_range al)..pr_end (al_port_range al)]"
  from Cons.prems(3) have loop: "port_loop used (pr_start (al_port_range al)) (pr_end (al_port_range al)) = Some ?scan"
    by (simp add: ranges_ok_def port_loop_find)
  show ?case
  proof (cases ?scan)
    case (Some p)
    then have "in_port_range p al" "p \<notin> set used"
      by (auto simp: find_Some_iff in_port_range_def dest: nth_mem)
    with loop Some Cons.prems(1) [of p al] show ?thesis by simp
  next
    case None
    then have full: "\<forall>p. in_port_range p al \<longrightarrow> p \<in> set used"
      by (auto simp: find_None_iff in_port_range_def)
    have ok: "ranges_ok als" using Cons.prems(3) by (simp add: ranges_ok_def)
    show ?thesis
    proof (rule Cons.IH [OF _ _ ok])
      fix p bl assume "range_loop used als = Some (Some (p, bl))" "bl \<in> set als" "in_port_range p bl" "p \<notin> set used"
      with loop None Cons.prems(1) [of p bl] show ?thesis by simp
    next
      assume "range_loop used als = Some None" "\<forall>al \<in> set als. \<forall>p. in_port_range p al \<longrightarrow> p \<in> set used"
      with loop None full Cons.prems(2) show ?thesis by simp
    qed
  qed
qed

lemma alloc_invD:
  assumes "alloc_inv a" "gm_get (ac_allocations a) ad = Some als"
  shows "als \<noteq> []" "ranges_ok als"
  using assms unfolding alloc_inv_def ranges_ok_def by blast+

lemma alloc_inv_used:
  assumes "alloc_inv a" "held (a\<lparr>ac_used := u\<rparr>) \<subseteq> offered a"
  shows "alloc_inv (a\<lparr>ac_used := u\<rparr>)"
  using assms by (simp add: alloc_inv_def)

lemma offered_iff: "gm_get (ac_allocations a) ad = Some als \<Longrightarrow>
    (ad, p) \<in> offered a \<longleftrightarrow> (\<exists>al \<in> set als. in_port_range p al)"
  by (simp add: offered_def the_list_def Bex_def)

text \<open>\<^verbatim>\<open>allocate\<close> creates the set of used ports of an address on first use; that changes no port.\<close>

definition ensure_used :: "string \<Rightarrow> allocator \<Rightarrow> allocator" where
  "ensure_used ad a = (if gm_has (ac_used a) ad then a else a\<lparr>ac_used := gm_set (ac_used a) ad []\<rparr>)"

lemma ensure_used_props [simp]:
  "held (ensure_used ad a) = held a" "ac_allocations (ensure_used ad a) = ac_allocations a"
  "the_list (gm_get (ac_used (ensure_used ad a)) ad) = the_list (gm_get (ac_used a) ad)"
  "offered (ensure_used ad a) = offered a" "alloc_inv (ensure_used ad a) = alloc_inv a"
proof -
  show h: "held (ensure_used ad a) = held a"
    by (cases "gm_get (ac_used a) ad") (auto simp: ensure_used_def held_def the_list_def gm_has_iff split: if_splits)
  show al: "ac_allocations (ensure_used ad a) = ac_allocations a"
    by (simp add: ensure_used_def)
  show "the_list (gm_get (ac_used (ensure_used ad a)) ad) = the_list (gm_get (ac_used a) ad)"
    by (simp add: ensure_used_def the_list_def gm_has_iff)
  show o: "offered (ensure_used ad a) = offered a"
    by (simp add: offered_def al)
  show "alloc_inv (ensure_used ad a) = alloc_inv a"
    by (simp add: alloc_inv_def h al o)
qed

lemma allocate_spec:
  assumes inv: "alloc_inv a" and als: "gm_get (ac_allocations a) ad = Some als"
  obtains (free) p al a' where "allocate ad a = Some (Inr (p, al), a')" "al \<in> set als" "in_port_range p al"
      "(ad, p) \<notin> held a" "held a' = insert (ad, p) (held a)" "ac_allocations a' = ac_allocations a" "alloc_inv a'"
  | (full) a' where "allocate ad a = Some (Inl NoFreePorts, a')" "held a' = held a"
      "ac_allocations a' = ac_allocations a" "alloc_inv a'"
      "\<forall>p. (ad, p) \<in> offered a \<longrightarrow> (ad, p) \<in> held a"
proof -
  let ?used = "the_list (gm_get (ac_used a) ad)" and ?e = "ensure_used ad a"
  have eq: "allocate ad a = (case range_loop ?used als of
      None \<Rightarrow> None
    | Some (Some (port, al)) \<Rightarrow> Some (Inr (port, al), ?e\<lparr>ac_used := gm_set (ac_used ?e) ad (List.insert port ?used)\<rparr>)
    | Some None \<Rightarrow> Some (Inl NoFreePorts, ?e))"
    using alloc_invD(1) [OF inv als] als
    unfolding allocate_def Let_def ensure_used_def [symmetric] ensure_used_props(3)
    by (simp add: the_list_def [of "Some als"])
  have mem: "(ad, p) \<in> held a \<longleftrightarrow> p \<in> set ?used" for p
    by (simp add: held_def)
  show ?thesis
  proof (rule range_loop_spec [OF alloc_invD(2) [OF inv als]])
    fix p al assume r: "range_loop ?used als = Some (Some (p, al))" "al \<in> set als" "in_port_range p al" "p \<notin> set ?used"
    let ?a' = "?e\<lparr>ac_used := gm_set (ac_used ?e) ad (List.insert p ?used)\<rparr>"
    have h: "held ?a' = insert (ad, p) (held a)"
      using mem by auto
    moreover have "insert (ad, p) (held a) \<subseteq> offered a"
      using r inv als by (auto simp: alloc_inv_def offered_iff)
    ultimately have "alloc_inv ?a'"
      using alloc_inv_used [of ?e] inv by simp
    with free [of p al ?a'] r h mem eq show ?thesis by simp
  next
    assume "range_loop ?used als = Some None" "\<forall>al \<in> set als. \<forall>p. in_port_range p al \<longrightarrow> p \<in> set ?used"
    with full [of ?e] inv als mem eq show ?thesis
      by (auto simp: offered_iff)
  qed
qed

subsection \<open>A new allocation\<close>

text \<open>
  What a successful allocation promises: the port lies in a range configured for its address,
  its flags are those of that range, nobody held it, and holding it is the only change.
\<close>

definition fresh_allocation :: "allocator \<Rightarrow> env_allocations \<Rightarrow> allocator \<Rightarrow> bool" where
  "fresh_allocation a ea a' \<longleftrightarrow>
     (\<exists>al \<in> set (the_list (gm_get (ac_allocations a) (ea_default_ip ea))).
        in_port_range (ea_default_port ea) al \<and> ea_force_outgoing_ip ea = al_force_outgoing_ip al
        \<and> ea_alias ea = al_alias al)
     \<and> ea_mappings ea = [(ea_default_ip ea, [ea_default_port ea])]
     \<and> ea_release ea = Some (ea_default_ip ea, ea_default_port ea)
     \<and> (ea_default_ip ea, ea_default_port ea) \<notin> held a
     \<and> held a' = insert (ea_default_ip ea, ea_default_port ea) (held a)
     \<and> ac_allocations a' = ac_allocations a \<and> alloc_inv a'"

definition pool_full :: "string list \<Rightarrow> allocator \<Rightarrow> allocator \<Rightarrow> bool" where
  "pool_full ads a a' \<longleftrightarrow> held a' = held a \<and> ac_allocations a' = ac_allocations a \<and> alloc_inv a'
     \<and> (\<forall>ad \<in> set ads. \<forall>p. (ad, p) \<in> offered a \<longrightarrow> (ad, p) \<in> held a)"

lemma address_loop_spec:
  assumes "alloc_inv a" "set ads \<subseteq> set (gm_keys (ac_allocations a))"
  shows "(\<exists>ea a'. address_loop ads a = Some (Inr ea, a') \<and> fresh_allocation a ea a')
       \<or> (\<exists>a'. address_loop ads a = Some (Inl NoFreePorts, a') \<and> pool_full ads a a')"
  using assms
proof (induction ads arbitrary: a)
  case Nil
  then show ?case by (simp add: pool_full_def)
next
  case (Cons ad ads)
  from Cons.prems(2) obtain als where als: "gm_get (ac_allocations a) ad = Some als"
    by (auto simp: set_gm_keys)
  show ?case
  proof (rule allocate_spec [OF Cons.prems(1) als])
    fix p al a' assume f: "allocate ad a = Some (Inr (p, al), a')" "al \<in> set als" "in_port_range p al"
      "(ad, p) \<notin> held a" "held a' = insert (ad, p) (held a)" "ac_allocations a' = ac_allocations a" "alloc_inv a'"
    then show ?thesis
      using als by (auto simp: fresh_allocation_def the_list_def gm_set_def)
  next
    fix a1 assume f: "allocate ad a = Some (Inl NoFreePorts, a1)" "held a1 = held a"
      "ac_allocations a1 = ac_allocations a" "alloc_inv a1"
      "\<forall>p. (ad, p) \<in> offered a \<longrightarrow> (ad, p) \<in> held a"
    have "set ads \<subseteq> set (gm_keys (ac_allocations a1))" "offered a1 = offered a"
      using Cons.prems(2) f by (simp_all add: offered_def)
    then show ?thesis
      using Cons.IH [OF f(4)] f by (auto simp: fresh_allocation_def pool_full_def)
  qed
qed

lemma offered_keys: "(ad, p) \<in> offered a \<Longrightarrow> ad \<in> set (gm_keys (ac_allocations a))"
  by (cases "gm_get (ac_allocations a) ad") (auto simp: offered_def set_gm_keys the_list_def)

lemma new_allocation_cases:
  assumes "alloc_inv a" "mset (shuffle (gm_keys (ac_allocations a))) = mset (gm_keys (ac_allocations a))"
  shows "(\<exists>ea a'. new_allocation shuffle a = Some (Inr ea, a') \<and> fresh_allocation a ea a')
     \<or> (\<exists>e a'. new_allocation shuffle a = Some (Inl e, a') \<and> held a' = held a
          \<and> ac_allocations a' = ac_allocations a \<and> alloc_inv a' \<and> held a = offered a
          \<and> e = (if ac_allocations a = [] then NoAllocationsConfigured else NoFreePorts))"
proof (cases "ac_allocations a = []")
  case True
  then have "offered a = {}" by (simp add: offered_def the_list_def)
  with True assms(1) show ?thesis by (simp add: new_allocation_def alloc_inv_def)
next
  case False
  have ads: "set (shuffle (gm_keys (ac_allocations a))) = set (gm_keys (ac_allocations a))"
    using assms(2) mset_eq_setD by blast
  have full: "pool_full (shuffle (gm_keys (ac_allocations a))) a a' \<Longrightarrow>
      held a' = held a \<and> ac_allocations a' = ac_allocations a \<and> alloc_inv a' \<and> held a = offered a" for a'
    using assms(1) offered_keys [of _ _ a] unfolding pool_full_def ads by (auto simp: alloc_inv_def)
  show ?thesis
    using address_loop_spec [OF assms(1), of "shuffle (gm_keys (ac_allocations a))"] ads False full
    by (auto simp: new_allocation_def)
qed

text \<open>
  C18. \<^verbatim>\<open>NewAllocation\<close> always returns, whatever the shuffle, and it hands out a port exactly when
  some offered port is not in use: then the port is offered, was free, carries the alias and
  the outgoing-IP flag of its range, and becomes the only new port in use. Otherwise it reports
  an error and changes nothing.
\<close>

theorem new_allocation_complete:
  assumes "alloc_inv a" "mset (shuffle (gm_keys (ac_allocations a))) = mset (gm_keys (ac_allocations a))"
  shows "\<exists>r a'. new_allocation shuffle a = Some (r, a') \<and> alloc_inv a' \<and>
    (case r of
       Inr ea \<Rightarrow> held a \<subset> offered a \<and> fresh_allocation a ea a'
     | Inl e \<Rightarrow> held a = offered a \<and> held a' = held a)"
proof -
  have "held a \<subset> offered a" if "fresh_allocation a ea a'" for ea a'
  proof -
    have al: "ac_allocations a' = ac_allocations a" and inv: "alloc_inv a'"
      using that by (simp_all add: fresh_allocation_def)
    have "held a' \<subseteq> offered a"
      using inv al unfolding alloc_inv_def offered_def by (simp only: simp_thms)
    with that show ?thesis by (auto simp: fresh_allocation_def)
  qed
  with new_allocation_cases [of a shuffle, OF assms] show ?thesis
    by (fastforce simp: fresh_allocation_def)
qed

definition example_allocator :: allocator where
  "example_allocator = (case new_allocator
      [\<lparr>ma_address = ''10.0.0.1'', ma_alias = ''eu'', ma_force_outgoing_ip = False, ma_ports = ''25565-25566''\<rparr>,
       \<lparr>ma_address = ''10.0.0.2'', ma_alias = ''us'', ma_force_outgoing_ip = True, ma_ports = ''30000-30000''\<rparr>,
       \<lparr>ma_address = ''10.0.0.1'', ma_alias = ''eu2'', ma_force_outgoing_ip = False, ma_ports = ''25570-25569''\<rparr>]
     of Inr a \<Rightarrow> a | Inl _ \<Rightarrow> \<lparr>ac_used = [], ac_allocations = []\<rparr>)"

lemma get_range_start: "get_range m = Inr r \<Longrightarrow> in_int64 (pr_start r)"
  using atoi_in_int64 [of "split_on CHR ''-'' (ma_ports m) ! 0"]
  by (cases "atoi (split_on CHR ''-'' (ma_ports m) ! 0)"; cases "atoi (split_on CHR ''-'' (ma_ports m) ! 1)")
     (auto simp: get_range_def Let_def split: if_splits option.splits)

lemma alloc_inv_set:
  assumes "alloc_inv a" "held a = {}" "als \<noteq> []" "ranges_ok als"
  shows "alloc_inv (a\<lparr>ac_allocations := gm_set (ac_allocations a) ad als\<rparr>)"
proof -
  have "x \<noteq> [] \<and> ranges_ok x" if "gm_get (gm_set (ac_allocations a) ad als) d = Some x" for d x
    using that assms alloc_invD [OF assms(1)] by (auto split: if_splits)
  then show ?thesis
    using assms(1,2) unfolding alloc_inv_def ranges_ok_def by simp
qed

lemma new_allocator_ranges:
  "add_allocations ms a = Inr a' \<Longrightarrow>
     \<forall>m \<in> set ms. \<forall>r. get_range m = Inr r \<longrightarrow> pr_end r < int64_max \<Longrightarrow> alloc_inv a \<Longrightarrow> held a = {} \<Longrightarrow>
     alloc_inv a' \<and> held a' = {}"
proof (induction ms arbitrary: a)
  case (Cons m ms)
  then obtain r where r: "get_range m = Inr r" by (auto split: sum.splits)
  have bound: "in_int64 (pr_start r)"
    using get_range_start [OF r] .
  let ?als = "the_list (gm_get (ac_allocations a) (ma_address m)) @
                  [\<lparr>al_address = ma_address m, al_alias = ma_alias m,
                    al_force_outgoing_ip = ma_force_outgoing_ip m, al_port_range = r\<rparr>]"
  let ?a = "a\<lparr>ac_allocations := gm_set (ac_allocations a) (ma_address m) ?als\<rparr>"
  have "ranges_ok ?als"
  proof (cases "gm_get (ac_allocations a) (ma_address m)")
    case None
    with Cons.prems(2) r bound show ?thesis by (simp add: the_list_def ranges_ok_def)
  next
    case (Some als)
    then have "ranges_ok als" using alloc_invD(2) [OF Cons.prems(3)] by simp
    with Some Cons.prems(2) r bound show ?thesis by (auto simp: the_list_def ranges_ok_def)
  qed
  then have "alloc_inv ?a"
    using Cons.prems(3,4) by (simp add: alloc_inv_set)
  with Cons.IH [of ?a] Cons.prems r show ?case by simp
qed simp

lemma example_allocator_inv: "alloc_inv example_allocator \<and> held example_allocator = {}"
proof -
  let ?ms = "[\<lparr>ma_address = ''10.0.0.1'', ma_alias = ''eu'', ma_force_outgoing_ip = False, ma_ports = ''25565-25566''\<rparr>,
       \<lparr>ma_address = ''10.0.0.2'', ma_alias = ''us'', ma_force_outgoing_ip = True, ma_ports = ''30000-30000''\<rparr>,
       \<lparr>ma_address = ''10.0.0.1'', ma_alias = ''eu2'', ma_force_outgoing_ip = False, ma_ports = ''25570-25569''\<rparr>]"
  have "list_all (\<lambda>m. case get_range m of Inl _ \<Rightarrow> True | Inr r \<Rightarrow> pr_end r < int64_max) ?ms"
    by code_simp
  then have r: "\<forall>m \<in> set ?ms. \<forall>r. get_range m = Inr r \<longrightarrow> pr_end r < int64_max"
    by (fastforce simp: list_all_iff)
  have "case new_allocator ?ms of Inr _ \<Rightarrow> True | Inl _ \<Rightarrow> False"
    by code_simp
  then obtain a where a: "new_allocator ?ms = Inr a" by (auto split: sum.splits)
  have "alloc_inv a \<and> held a = {}"
    by (rule new_allocator_ranges [OF a [unfolded new_allocator_def] r])
       (simp_all add: alloc_inv_def held_def the_list_def)
  with a show ?thesis by (simp add: example_allocator_def)
qed

lemma new_allocation_complete_witness:
  "\<exists>ea a'. new_allocation rev example_allocator = Some (Inr ea, a')
     \<and> (ea_default_ip ea, ea_default_port ea) = (''10.0.0.2'', 30000) \<and> held a' = {(''10.0.0.2'', 30000)}"
proof -
  have perm: "mset (rev (gm_keys (ac_allocations example_allocator))) = mset (gm_keys (ac_allocations example_allocator))"
    by simp
  from new_allocation_complete [of example_allocator rev, OF example_allocator_inv [THEN conjunct1] perm]
  have all: "new_allocation rev example_allocator = Some (Inr ea, a') \<Longrightarrow> fresh_allocation example_allocator ea a'"
    for ea a' by auto
  have "case new_allocation rev example_allocator of
      Some (Inr ea, _) \<Rightarrow> (ea_default_ip ea, ea_default_port ea) = (''10.0.0.2'', 30000) | _ \<Rightarrow> False"
    by code_simp
  then obtain ea a' where ea: "new_allocation rev example_allocator = Some (Inr ea, a')"
      "(ea_default_ip ea, ea_default_port ea) = (''10.0.0.2'', 30000)"
    by (auto split: option.splits sum.splits)
  with all [OF ea(1)] example_allocator_inv show ?thesis by (auto simp: fresh_allocation_def)
qed

section \<open>The interface of a port pool\<close>

text \<open>
  What the server manager relies on: acquiring yields a resource nobody holds, releasing frees
  it, claiming holds at most the resource named. A client that only acquires, claims and
  releases what it was given never shares a resource.
\<close>

locale port_pool =
  fixes ok :: "'s \<Rightarrow> bool"
    and live :: "'s \<Rightarrow> 'k set"
    and acquire :: "'c \<Rightarrow> 's \<Rightarrow> ('k option \<times> 's) option"
    and release :: "'k \<Rightarrow> 's \<Rightarrow> 's"
    and claim :: "'k \<Rightarrow> 's \<Rightarrow> 's"
  assumes acquire_some: "ok s \<Longrightarrow> acquire c s = Some (Some k, s') \<Longrightarrow>
      k \<notin> live s \<and> live s' = insert k (live s) \<and> ok s'"
    and acquire_none: "ok s \<Longrightarrow> acquire c s = Some (None, s') \<Longrightarrow> live s' = live s \<and> ok s'"
    and release_live: "ok s \<Longrightarrow> live (release k s) = live s - {k} \<and> ok (release k s)"
    and claim_live: "ok s \<Longrightarrow> live s \<subseteq> live (claim k s) \<and> live (claim k s) \<subseteq> insert k (live s) \<and> ok (claim k s)"

datatype ('k, 'c) pool_op = Acquire 'c | Free 'k | Claim 'k

text \<open>A run and the resources it handed out, in order.\<close>

fun pool_run ::
  "('c \<Rightarrow> 's \<Rightarrow> ('k option \<times> 's) option) \<Rightarrow> ('k \<Rightarrow> 's \<Rightarrow> 's) \<Rightarrow> ('k \<Rightarrow> 's \<Rightarrow> 's) \<Rightarrow>
     ('k, 'c) pool_op list \<Rightarrow> 's \<Rightarrow> ('k list \<times> 's) option" where
  "pool_run acquire release claim [] s = Some ([], s)"
| "pool_run acquire release claim (Free k # xs) s = pool_run acquire release claim xs (release k s)"
| "pool_run acquire release claim (Claim k # xs) s = pool_run acquire release claim xs (claim k s)"
| "pool_run acquire release claim (Acquire c # xs) s =
     (case acquire c s of
        None \<Rightarrow> None
      | Some (r, s') \<Rightarrow>
          (case pool_run acquire release claim xs s' of
             None \<Rightarrow> None
           | Some (ks, s'') \<Rightarrow> Some ((case r of None \<Rightarrow> ks | Some k \<Rightarrow> k # ks), s'')))"

context port_pool
begin

lemma run_live:
  "ok s \<Longrightarrow> pool_run acquire release claim xs s = Some (ks, s') \<Longrightarrow>
     ok s' \<and> (Free k \<notin> set xs \<longrightarrow> k \<in> live s \<or> k \<in> set ks \<longrightarrow> k \<in> live s')"
proof (induction xs arbitrary: s ks)
  case (Cons x xs)
  show ?case
  proof (cases x)
    case (Acquire c)
    with Cons.prems(2) obtain r s1 ks1 where
      r: "acquire c s = Some (r, s1)" "pool_run acquire release claim xs s1 = Some (ks1, s')"
        "ks = (case r of None \<Rightarrow> ks1 | Some k \<Rightarrow> k # ks1)"
      by (auto split: option.splits)
    show ?thesis
    proof (cases r)
      case None
      with r acquire_none [OF Cons.prems(1)] have "ok s1" "live s1 = live s" by auto
      with Cons.IH [OF _ r(2)] None r(3) Acquire show ?thesis by auto
    next
      case (Some k1)
      with r acquire_some [OF Cons.prems(1)] have "ok s1" "live s1 = insert k1 (live s)" by auto
      with Cons.IH [OF _ r(2)] Some r(3) Acquire show ?thesis by auto
    qed
  next
    case (Free k1)
    with Cons.prems Cons.IH [of "release k1 s" ks] release_live [OF Cons.prems(1), of k1] show ?thesis by auto
  next
    case (Claim k1)
    with Cons.prems Cons.IH [of "claim k1 s" ks] claim_live [OF Cons.prems(1), of k1] show ?thesis by auto
  qed
qed simp

text \<open>A resource is handed out at most once more often than it is freed.\<close>

lemma run_count:
  "ok s \<Longrightarrow> pool_run acquire release claim xs s = Some (ks, s') \<Longrightarrow>
     count_list ks k \<le> count_list xs (Free k) + (if k \<in> live s then 0 else 1)"
proof (induction xs arbitrary: s ks)
  case (Cons x xs)
  show ?case
  proof (cases x)
    case (Acquire c)
    with Cons.prems(2) obtain r s1 ks1 where
      r: "acquire c s = Some (r, s1)" "pool_run acquire release claim xs s1 = Some (ks1, s')"
        "ks = (case r of None \<Rightarrow> ks1 | Some k \<Rightarrow> k # ks1)"
      by (auto split: option.splits)
    show ?thesis
    proof (cases r)
      case None
      with r acquire_none [OF Cons.prems(1)] have "ok s1" "live s1 = live s" by auto
      with Cons.IH [OF _ r(2)] None r(3) Acquire show ?thesis by auto
    next
      case (Some k1)
      with r acquire_some [OF Cons.prems(1)] have "ok s1" "live s1 = insert k1 (live s)" "k1 \<notin> live s" by auto
      with Cons.IH [OF _ r(2)] Some r(3) Acquire show ?thesis by (auto split: if_splits)
    qed
  next
    case (Free k1)
    with Cons.prems Cons.IH [of "release k1 s" ks] release_live [OF Cons.prems(1), of k1] show ?thesis
      by (auto split: if_splits)
  next
    case (Claim k1)
    with Cons.prems Cons.IH [of "claim k1 s" ks] claim_live [OF Cons.prems(1), of k1] show ?thesis
      by (auto split: if_splits)
  qed
qed simp

end

subsection \<open>The allocator is a port pool\<close>

definition acquire_port ::
  "(string list \<Rightarrow> string list) \<Rightarrow> allocator \<Rightarrow> ((string \<times> int) option \<times> allocator) option" where
  "acquire_port shuffle a = (case new_allocation shuffle a of
     None \<Rightarrow> None
   | Some (Inl e, a') \<Rightarrow> Some (None, a')
   | Some (Inr ea, a') \<Rightarrow> Some (ea_release ea, a'))"

lemma held_release: "held (release_port ad p a) = held a - {(ad, p)}"
  by (cases "gm_get (ac_used a) ad") (auto simp: release_port_def held_def the_list_def split: if_splits)

lemma alloc_inv_release: "alloc_inv a \<Longrightarrow> alloc_inv (release_port ad p a)"
proof -
  assume inv: "alloc_inv a"
  have "ac_allocations (release_port ad p a) = ac_allocations a"
    by (simp add: release_port_def split: option.splits)
  moreover have "held (release_port ad p a) \<subseteq> held a"
    using held_release by blast
  ultimately show ?thesis
    using inv by (auto simp: alloc_inv_def offered_def)
qed

lemma claim_port_held:
  "held (claim_port ad p a) = (if (ad, p) \<in> offered a then insert (ad, p) (held a) else held a)
   \<and> ac_allocations (claim_port ad p a) = ac_allocations a"
proof -
  let ?als = "the_list (gm_get (ac_allocations a) ad)"
  have off: "(ad, p) \<in> offered a \<longleftrightarrow> list_ex (in_port_range p) ?als"
    by (auto simp: offered_def list_ex_iff)
  have "claim_port ad p a = (if (ad, p) \<in> offered a
      then a\<lparr>ac_used := gm_set (ac_used a) ad (List.insert p (the_list (gm_get (ac_used a) ad)))\<rparr> else a)"
    unfolding off by (auto simp: claim_port_def Let_def)
  then show ?thesis by (auto simp: held_def split: if_splits)
qed

lemma alloc_inv_claim: "alloc_inv a \<Longrightarrow> alloc_inv (claim_port ad p a)"
  using claim_port_held [of ad p a] unfolding alloc_inv_def by (auto simp: offered_def)

interpretation ports: port_pool
  "\<lambda>a. alloc_inv a" held
  "\<lambda>shuffle a. if \<forall>xs. mset (shuffle xs) = mset xs then acquire_port shuffle a else None"
  "\<lambda>k. release_port (fst k) (snd k)" "\<lambda>k. claim_port (fst k) (snd k)"
proof
  fix a shuffle k a'
  assume inv: "alloc_inv a"
  {
    assume acq: "(if \<forall>xs. mset (shuffle xs) = mset xs then acquire_port shuffle a else None) = Some (Some k, a')"
    then have "mset (shuffle (gm_keys (ac_allocations a))) = mset (gm_keys (ac_allocations a))"
      by (auto split: if_splits)
    from new_allocation_cases [of a shuffle, OF inv this] acq
    show "k \<notin> held a \<and> held a' = insert k (held a) \<and> alloc_inv a'"
      by (auto simp: acquire_port_def fresh_allocation_def split: if_splits)
  next
    assume acq: "(if \<forall>xs. mset (shuffle xs) = mset xs then acquire_port shuffle a else None) = Some (None, a')"
    then have "mset (shuffle (gm_keys (ac_allocations a))) = mset (gm_keys (ac_allocations a))"
      by (auto split: if_splits)
    from new_allocation_cases [of a shuffle, OF inv this] acq
    show "held a' = held a \<and> alloc_inv a'"
      by (auto simp: acquire_port_def fresh_allocation_def split: if_splits)
  }
qed (auto simp: held_release alloc_inv_release claim_port_held alloc_inv_claim)

definition permutes_all :: "(string \<times> int, string list \<Rightarrow> string list) pool_op list \<Rightarrow> bool" where
  "permutes_all xs \<longleftrightarrow> (\<forall>shuffle. Acquire shuffle \<in> set xs \<longrightarrow> (\<forall>ys. mset (shuffle ys) = mset ys))"

definition alloc_run ::
  "(string \<times> int, string list \<Rightarrow> string list) pool_op list \<Rightarrow> allocator \<Rightarrow> ((string \<times> int) list \<times> allocator) option" where
  "alloc_run xs a = pool_run acquire_port (\<lambda>k. release_port (fst k) (snd k)) (\<lambda>k. claim_port (fst k) (snd k)) xs a"

lemma alloc_run_guarded:
  "permutes_all xs \<Longrightarrow> alloc_run xs a = pool_run
     (\<lambda>shuffle a. if \<forall>xs. mset (shuffle xs) = mset xs then acquire_port shuffle a else None)
     (\<lambda>k. release_port (fst k) (snd k)) (\<lambda>k. claim_port (fst k) (snd k)) xs a"
proof (induction xs arbitrary: a)
  case (Cons x xs)
  then have "permutes_all xs" by (simp add: permutes_all_def)
  note ih = Cons.IH [OF this, unfolded alloc_run_def]
  show ?case
    using Cons.prems
    by (cases x) (auto simp: alloc_run_def ih permutes_all_def cong: option.case_cong prod.case_cong)
qed (simp add: alloc_run_def)

text \<open>
  C13. Whatever is allocated, claimed and released on a node, in whatever order, a port is handed
  out at most once more often than it is released, and not even that often when it was in use at
  the start: a port that is still in use is never given to a second server.
\<close>

theorem ports_never_shared:
  assumes "alloc_inv a" "permutes_all xs" "alloc_run xs a = Some (ks, a')"
  shows "count_list ks (ad, p) \<le> count_list xs (Free (ad, p)) + (if (ad, p) \<in> held a then 0 else 1)
    \<and> (Free (ad, p) \<notin> set xs \<longrightarrow> (ad, p) \<in> set ks \<longrightarrow> (ad, p) \<in> held a')"
  using ports.run_count [OF assms(1) assms(3) [unfolded alloc_run_guarded [OF assms(2)]]]
    ports.run_live [OF assms(1) assms(3) [unfolded alloc_run_guarded [OF assms(2)]]]
  by blast

lemma ports_never_shared_witness:
  "\<exists>a'. alloc_run [Acquire rev, Claim (''10.0.0.1'', 25565), Acquire rev, Free (''10.0.0.2'', 30000),
       Acquire rev, Acquire rev] example_allocator =
     Some ([(''10.0.0.2'', 30000), (''10.0.0.1'', 25566), (''10.0.0.2'', 30000)], a')
   \<and> (''10.0.0.1'', 25566) \<in> held a'"
proof -
  let ?xs = "[Acquire rev, Claim (''10.0.0.1'', 25565), Acquire rev, Free (''10.0.0.2'', 30000),
       Acquire rev, Acquire rev]"
  have "map_option fst (alloc_run ?xs example_allocator) =
      Some [(''10.0.0.2'', 30000), (''10.0.0.1'', 25566), (''10.0.0.2'', 30000)]"
    by code_simp
  then obtain a' where run: "alloc_run ?xs example_allocator =
      Some ([(''10.0.0.2'', 30000), (''10.0.0.1'', 25566), (''10.0.0.2'', 30000)], a')"
    by auto
  have "permutes_all ?xs" by (auto simp: permutes_all_def)
  from ports_never_shared [OF example_allocator_inv [THEN conjunct1] this run, of "''10.0.0.1''" 25566] run
  show ?thesis by auto
qed

text \<open>
  Parsing a port range is the inverse of writing it down; with a nonnegative start, every
  pair of 64-bit bounds comes back unchanged.
\<close>

theorem get_range_roundtrip:
  assumes "0 \<le> s" "in_int64 s" "0 \<le> e" "in_int64 e" "ma_ports m = itoa s @ ''-'' @ itoa e"
  shows "get_range m = Inr \<lparr>pr_start = s, pr_end = e\<rparr>"
proof -
  have nodash: "CHR ''-'' \<notin> set (itoa i)" if "0 \<le> i" for i
  proof -
    have "\<not> is_digit CHR ''-''" by (simp add: is_digit_def)
    with nat_digits_props [OF that] have "CHR ''-'' \<notin> set (nat_digits i)"
      unfolding list_all_iff by blast
    with that show ?thesis by (simp add: itoa_def)
  qed
  have "split_on CHR ''-'' (itoa s @ CHR ''-'' # itoa e) = [itoa s, itoa e]"
    using nodash assms by (simp add: split_on_append_sep split_on_single)
  then show ?thesis
    using assms by (simp add: get_range_def atoi_itoa)
qed

lemma get_range_roundtrip_witness:
  "get_range \<lparr>ma_address = ''a'', ma_alias = [], ma_force_outgoing_ip = False, ma_ports = ''25565-25600''\<rparr>
     = Inr \<lparr>pr_start = 25565, pr_end = 25600\<rparr>"
proof -
  have i: "itoa 25565 = ''25565''" "itoa 25600 = ''25600''" by code_simp+
  show ?thesis
    by (rule get_range_roundtrip) (simp_all add: i in_int64_def int64_min_def int64_max_def)
qed

text \<open>
  A range that ends at the largest integer is not rejected, and once its ports are in use the
  scan wraps around: the port it hands out is negative and outside the range.
\<close>

lemma port_scan_wraps:
  "port_loop [9223372036854775807] 9223372036854775807 9223372036854775807 = Some (Some (- 9223372036854775808))
   \<and> get_range \<lparr>ma_address = ''a'', ma_alias = [], ma_force_outgoing_ip = False,
       ma_ports = ''9223372036854775807-9223372036854775807''\<rparr>
     = Inr \<lparr>pr_start = 9223372036854775807, pr_end = 9223372036854775807\<rparr>"
proof
  show "port_loop [9223372036854775807] 9223372036854775807 9223372036854775807 = Some (Some (- 9223372036854775808))"
    by (subst port_loop.simps, simp add: wrap64_def, subst port_loop.simps, simp)
  show "get_range \<lparr>ma_address = ''a'', ma_alias = [], ma_force_outgoing_ip = False,
       ma_ports = ''9223372036854775807-9223372036854775807''\<rparr>
     = Inr \<lparr>pr_start = 9223372036854775807, pr_end = 9223372036854775807\<rparr>"
    by code_simp
qed

end
