(* ===== verification/Server_Config.thy ===== *)
theory Server_Config
  imports Blueprint Allocator
begin

text \<open>
  The runtime configuration Protocube builds for a server: config file patches
  (\<^verbatim>\<open>protocube/server/config_parser.go\<close>, \<^verbatim>\<open>protocube/parser/parser.go\<close>), the matcher for the
  online signal (\<^verbatim>\<open>protocube/models/process.go\<close> and its copy in \<^verbatim>\<open>daemon/models/process.go\<close>) and
  \<^verbatim>\<open>BuildServerConfiguration\<close> (\<^verbatim>\<open>protocube/server/configuration.go\<close>). Regular expressions are a
  parameter: \<open>compile\<close> gives the set of lines a pattern matches, or nothing for a bad pattern.
  JSON is a parameter too: \<open>marshal\<close> is \<^verbatim>\<open>json.Marshal\<close> on a value that is not a string.
\<close>

section \<open>Replacement values\<close>

datatype value_type = TString | TBoolean | TNull | TNumber | TArray | TObject

record replace_value =
  rv_value :: string
  rv_type :: value_type

datatype config_error = MarshalFailed | EmptyJson | UnexpectedJson char

definition new_replace_value :: "(go_value \<Rightarrow> string option) \<Rightarrow> go_value \<Rightarrow> config_error + replace_value" where
  "new_replace_value marshal v =
     (case v of
        VStr s \<Rightarrow> Inr \<lparr>rv_value = s, rv_type = TString\<rparr>
      | _ \<Rightarrow>
          (case marshal v of
             None \<Rightarrow> Inl MarshalFailed
           | Some js \<Rightarrow>
               (case js of
                  [] \<Rightarrow> Inl EmptyJson
                | c # _ \<Rightarrow>
                    (if c = CHR 0x22 then Inr \<lparr>rv_value = js, rv_type = TString\<rparr>
                     else if c = CHR ''t'' \<or> c = CHR ''f'' then Inr \<lparr>rv_value = js, rv_type = TBoolean\<rparr>
                     else if c = CHR ''n'' then Inr \<lparr>rv_value = js, rv_type = TNull\<rparr>
                     else if c = CHR ''-'' \<or> is_digit c then Inr \<lparr>rv_value = js, rv_type = TNumber\<rparr>
                     else if c = CHR ''['' then Inr \<lparr>rv_value = js, rv_type = TArray\<rparr>
                     else if c = CHR ''{'' then Inr \<lparr>rv_value = js, rv_type = TObject\<rparr>
                     else Inl (UnexpectedJson c)))))"

section \<open>Flattening\<close>

fun gm_set_all :: "(string \<times> 'a) list \<Rightarrow> (string, 'a) gomap \<Rightarrow> (string, 'a) gomap" where
  "gm_set_all [] m = m"
| "gm_set_all ((k, v) # xs) m = gm_set_all xs (gm_set m k v)"

definition full_key :: "string \<Rightarrow> string \<Rightarrow> string" where
  "full_key pre k = (if pre \<noteq> [] then pre @ ''.'' @ k else k)"

text \<open>The entries are visited in the order of the list; the last argument is \<open>result\<close>.\<close>

fun flatten_map :: "string \<Rightarrow> (string \<times> go_value) list \<Rightarrow> (string, go_value) gomap \<Rightarrow> (string, go_value) gomap" where
  "flatten_map pre [] result = result"
| "flatten_map pre ((key, VMap m) # es) result =
     flatten_map pre es (gm_set_all (flatten_map (full_key pre key) m []) result)"
| "flatten_map pre ((key, value) # es) result =
     flatten_map pre es (gm_set result (full_key pre key) value)"

section \<open>Config file patches\<close>

record replacement =
  rp_match :: string
  rp_if_value :: string
  rp_replace_with :: replace_value

record configuration_file =
  cfile_name :: string
  cfile_parser :: string
  cfile_replace :: "replacement list"

fun convert_entries ::
  "(go_value \<Rightarrow> string option) \<Rightarrow> (string \<times> go_value) list \<Rightarrow> config_error + replacement list" where
  "convert_entries marshal [] = Inr []"
| "convert_entries marshal ((k, v) # es) =
     (case new_replace_value marshal v of
        Inl e \<Rightarrow> Inl e
      | Inr rv \<Rightarrow>
          (case convert_entries marshal es of
             Inl e \<Rightarrow> Inl e
           | Inr rs \<Rightarrow> Inr (\<lparr>rp_match = k, rp_if_value = [], rp_replace_with = rv\<rparr> # rs)))"

definition convert_config_file ::
  "(go_value \<Rightarrow> string option) \<Rightarrow> string \<Rightarrow> string \<Rightarrow> (string, go_value) gomap \<Rightarrow> config_error + configuration_file" where
  "convert_config_file marshal fileName parserType fnd =
     (case convert_entries marshal (flatten_map [] fnd []) of
        Inl e \<Rightarrow> Inl e
      | Inr rs \<Rightarrow> Inr \<lparr>cfile_name = fileName, cfile_parser = parserType, cfile_replace = rs\<rparr>)"

record merged_configs =
  mc_merged :: "(string, config_file) gomap"
  mc_order :: "string list"

definition add_layer :: "string \<Rightarrow> config_file \<Rightarrow> merged_configs \<Rightarrow> merged_configs" where
  "add_layer fileName c mc =
     (let mc = (case gm_get (mc_merged mc) fileName of
                  Some _ \<Rightarrow> mc
                | None \<Rightarrow> mc\<lparr>mc_merged := gm_set (mc_merged mc) fileName
                              \<lparr>cf_parser = cf_parser c, cf_find = []\<rparr>,
                            mc_order := mc_order mc @ [fileName]\<rparr>);
          old = (case gm_get (mc_merged mc) fileName of Some f \<Rightarrow> cf_find f | None \<Rightarrow> [])
      in mc\<lparr>mc_merged := gm_set (mc_merged mc) fileName
              \<lparr>cf_parser = cf_parser c, cf_find = gm_set_all (cf_find c) old\<rparr>\<rparr>)"

fun add_layers :: "(string \<times> config_file) list \<Rightarrow> merged_configs \<Rightarrow> merged_configs" where
  "add_layers [] mc = mc"
| "add_layers ((f, c) # cs) mc = add_layers cs (add_layer f c mc)"

fun convert_files ::
  "(go_value \<Rightarrow> string option) \<Rightarrow> (string, config_file) gomap \<Rightarrow> string list \<Rightarrow>
     config_error + configuration_file list" where
  "convert_files marshal merged [] = Inr []"
| "convert_files marshal merged (f # fs) =
     (case gm_get merged f of
        None \<Rightarrow> convert_files marshal merged fs
      | Some c \<Rightarrow>
          (case convert_config_file marshal f (cf_parser c) (cf_find c) of
             Inl e \<Rightarrow> Inl e
           | Inr cf \<Rightarrow>
               (case convert_files marshal merged fs of
                  Inl e \<Rightarrow> Inl e
                | Inr cfs \<Rightarrow> Inr (cf # cfs))))"

definition merge_configs ::
  "software \<Rightarrow> bp_server option \<Rightarrow> (string, config_file) gomap \<Rightarrow> merged_configs" where
  "merge_configs sw server overrides =
     add_layers overrides
       (add_layers (case server of None \<Rightarrow> [] | Some s \<Rightarrow> bs_configs s)
         (add_layers (sw_configs sw) \<lparr>mc_merged = [], mc_order = []\<rparr>))"

definition get_config_files ::
  "(go_value \<Rightarrow> string option) \<Rightarrow> software \<Rightarrow> bp_server option \<Rightarrow> (string, config_file) gomap \<Rightarrow>
     config_error + configuration_file list" where
  "get_config_files marshal sw server overrides =
     (let mc = merge_configs sw server overrides in convert_files marshal (mc_merged mc) (mc_order mc))"

section \<open>The layers\<close>

lemma gm_get_set_all:
  "gm_get (gm_set_all xs m) k = (case map_of (rev xs) k of Some v \<Rightarrow> Some v | None \<Rightarrow> gm_get m k)"
  by (induction xs m rule: gm_set_all.induct) (auto simp: map_add_def split: option.splits)

lemma gm_wf_set_all: "gm_wf m \<Longrightarrow> gm_wf (gm_set_all xs m)"
  by (induction xs m rule: gm_set_all.induct) auto

lemma map_of_rev: "distinct (map fst xs) \<Longrightarrow> map_of (rev xs) = map_of xs"
  by (rule map_of_eqI) (auto simp: rev_map [symmetric])

lemma gm_get_set_all_wf:
  "gm_wf xs \<Longrightarrow> gm_get (gm_set_all xs m) k = (case gm_get xs k of Some v \<Rightarrow> Some v | None \<Rightarrow> gm_get m k)"
  unfolding gm_get_set_all by (simp add: gm_wf_def map_of_rev gm_get_def [of xs])

text \<open>
  The value a list of layers gives a key of a file: the last layer that sets it wins; and the
  parser is that of the last layer that mentions the file.
\<close>

definition layer_value :: "(string, config_file) gomap list \<Rightarrow> string \<Rightarrow> string \<Rightarrow> go_value option" where
  "layer_value layers f k =
     foldl (\<lambda>v l. case gm_get l f of None \<Rightarrow> v
        | Some c \<Rightarrow> (case gm_get (cf_find c) k of None \<Rightarrow> v | Some x \<Rightarrow> Some x)) None layers"

definition layer_parser :: "(string, config_file) gomap list \<Rightarrow> string \<Rightarrow> string option" where
  "layer_parser layers f =
     foldl (\<lambda>p l. case gm_get l f of None \<Rightarrow> p | Some c \<Rightarrow> Some (cf_parser c)) None layers"

definition layer_ok :: "(string, config_file) gomap \<Rightarrow> bool" where
  "layer_ok l \<longleftrightarrow> gm_wf l \<and> (\<forall>f c. gm_get l f = Some c \<longrightarrow> gm_wf (cf_find c))"

definition merged_value :: "merged_configs \<Rightarrow> string \<Rightarrow> string \<Rightarrow> go_value option" where
  "merged_value mc f k = (case gm_get (mc_merged mc) f of None \<Rightarrow> None | Some c \<Rightarrow> gm_get (cf_find c) k)"

definition merged_parser :: "merged_configs \<Rightarrow> string \<Rightarrow> string option" where
  "merged_parser mc f = (case gm_get (mc_merged mc) f of None \<Rightarrow> None | Some c \<Rightarrow> Some (cf_parser c))"

definition merged_inv :: "merged_configs \<Rightarrow> bool" where
  "merged_inv mc \<longleftrightarrow> distinct (mc_order mc) \<and> (\<forall>f. f \<in> set (mc_order mc) \<longleftrightarrow> gm_get (mc_merged mc) f \<noteq> None)
     \<and> (\<forall>f c. gm_get (mc_merged mc) f = Some c \<longrightarrow> gm_wf (cf_find c))"

lemma add_layer_step:
  assumes "merged_inv mc" "gm_wf (cf_find c)"
  shows "merged_inv (add_layer f c mc)
    \<and> merged_value (add_layer f c mc) g k =
        (if g = f then (case gm_get (cf_find c) k of None \<Rightarrow> merged_value mc f k | Some x \<Rightarrow> Some x) else merged_value mc g k)
    \<and> merged_parser (add_layer f c mc) g = (if g = f then Some (cf_parser c) else merged_parser mc g)"
proof (cases "gm_get (mc_merged mc) f")
  case None
  then have "f \<notin> set (mc_order mc)" using assms(1) by (simp add: merged_inv_def)
  with None assms show ?thesis
    by (auto simp: add_layer_def merged_inv_def merged_value_def merged_parser_def gm_get_set_all_wf gm_wf_set_all
        split: option.splits)
next
  case (Some old)
  with assms show ?thesis
    by (auto simp: add_layer_def merged_inv_def merged_value_def merged_parser_def gm_get_set_all_wf gm_wf_set_all
        split: option.splits)
qed

lemma add_layers_step:
  assumes "layer_ok l" "merged_inv mc"
  shows "merged_inv (add_layers l mc)
    \<and> merged_value (add_layers l mc) f k =
        (case gm_get l f of None \<Rightarrow> merged_value mc f k
         | Some c \<Rightarrow> (case gm_get (cf_find c) k of None \<Rightarrow> merged_value mc f k | Some x \<Rightarrow> Some x))
    \<and> merged_parser (add_layers l mc) f =
        (case gm_get l f of None \<Rightarrow> merged_parser mc f | Some c \<Rightarrow> Some (cf_parser c))"
  using assms
proof (induction l mc rule: add_layers.induct)
  case (1 mc)
  then show ?case by simp
next
  case (2 g c cs mc)
  have "gm_get ((g, c) # cs) g = Some c" by (simp add: gm_get_def)
  then have c: "gm_wf (cf_find c)" "g \<notin> fst ` set cs"
    using "2.prems"(1) unfolding layer_ok_def by (blast, auto simp: gm_wf_def)
  then have g: "gm_get cs g = None" by (simp add: gm_get_def map_of_eq_None_iff)
  have ok: "layer_ok cs"
    using "2.prems"(1) c(2) unfolding layer_ok_def gm_wf_def gm_get_def
    by (auto split: if_splits)
  note st = add_layer_step [OF "2.prems"(2) c(1), of g]
  note ih = "2.IH" [OF ok conjunct1 [OF st]]
  show ?case
    using ih st g by (auto simp: gm_get_def split: option.splits if_splits)
qed

text \<open>
  C21. Config patches are layered key by key: the value of a key of a file is that of the request,
  else of the blueprint, else of the software; the parser is that of the last of the three that
  mentions the file; and each file mentioned is patched exactly once. None of this depends on the
  order in which the maps are visited.
\<close>

theorem config_layers:
  assumes "layer_ok (sw_configs sw)" "layer_ok overrides"
    and "layer_ok (case server of None \<Rightarrow> [] | Some s \<Rightarrow> bs_configs s)"
  shows "merged_value (merge_configs sw server overrides) f k =
      layer_value [sw_configs sw, (case server of None \<Rightarrow> [] | Some s \<Rightarrow> bs_configs s), overrides] f k
    \<and> merged_parser (merge_configs sw server overrides) f =
      layer_parser [sw_configs sw, (case server of None \<Rightarrow> [] | Some s \<Rightarrow> bs_configs s), overrides] f
    \<and> distinct (mc_order (merge_configs sw server overrides))
    \<and> (f \<in> set (mc_order (merge_configs sw server overrides)) \<longleftrightarrow>
        layer_parser [sw_configs sw, (case server of None \<Rightarrow> [] | Some s \<Rightarrow> bs_configs s), overrides] f \<noteq> None)"
proof -
  let ?m0 = "\<lparr>mc_merged = [], mc_order = []\<rparr>"
  let ?bp = "case server of None \<Rightarrow> [] | Some s \<Rightarrow> bs_configs s"
  let ?m1 = "add_layers (sw_configs sw) ?m0" and ?m2 = "add_layers ?bp (add_layers (sw_configs sw) ?m0)"
  have m0: "merged_inv ?m0" "merged_value ?m0 f k = None" "merged_parser ?m0 f = None"
    by (simp_all add: merged_inv_def merged_value_def merged_parser_def)
  note s1 = add_layers_step [OF assms(1) m0(1), of f k]
  note s2 = add_layers_step [OF assms(3) conjunct1 [OF s1], of f k]
  note s3 = add_layers_step [OF assms(2) conjunct1 [OF s2], of f k]
  have mem: "f \<in> set (mc_order mc) \<longleftrightarrow> merged_parser mc f \<noteq> None" if "merged_inv mc" for mc
    using that by (simp add: merged_inv_def merged_parser_def split: option.splits)
  have d: "distinct (mc_order (merge_configs sw server overrides))"
    using s3 by (simp add: merge_configs_def merged_inv_def)
  have p: "merged_parser (merge_configs sw server overrides) f = layer_parser [sw_configs sw, ?bp, overrides] f"
    unfolding merge_configs_def layer_parser_def using s1 s2 s3 m0
    by (simp split: option.splits)
  have v: "merged_value (merge_configs sw server overrides) f k = layer_value [sw_configs sw, ?bp, overrides] f k"
    unfolding merge_configs_def layer_value_def using s1 s2 s3 m0
    by (simp split: option.splits)
  show ?thesis
    using d p v mem [OF conjunct1 [OF s3]] by (simp add: merge_configs_def)
qed

lemma config_layers_witness:
  "merged_value (merge_configs
       (java_software\<lparr>sw_configs := [(''server.properties'', \<lparr>cf_parser = ''properties'',
          cf_find = [(''motd'', VStr ''sw''), (''port'', VInt 1)]\<rparr>)]\<rparr>)
       (Some (server_example\<lparr>bs_configs := [(''server.properties'', \<lparr>cf_parser = ''yaml'',
          cf_find = [(''motd'', VStr ''bp'')]\<rparr>)]\<rparr>))
       [(''x.json'', \<lparr>cf_parser = ''json'', cf_find = []\<rparr>)]) ''server.properties'' ''motd'' = Some (VStr ''bp'')"
  by (subst config_layers [THEN conjunct1])
     (auto simp: layer_ok_def gm_get_def gm_wf_def layer_value_def split: if_splits)

section \<open>Paths\<close>

fun leaf_at :: "(string \<times> go_value) list \<Rightarrow> string list \<Rightarrow> go_value option" where
  "leaf_at m [] = None"
| "leaf_at m [k] = (case map_of m k of Some (VMap n) \<Rightarrow> None | r \<Rightarrow> r)"
| "leaf_at m (k # k' # ks) = (case map_of m k of Some (VMap n) \<Rightarrow> leaf_at n (k' # ks) | _ \<Rightarrow> None)"

text \<open>Keys are distinct at every level, not empty, and without dots.\<close>

fun plain_map :: "(string \<times> go_value) list \<Rightarrow> bool" where
  "plain_map [] = True"
| "plain_map ((k, v) # es) = (k \<noteq> [] \<and> CHR ''.'' \<notin> set k \<and> k \<notin> fst ` set es
     \<and> (case v of VMap n \<Rightarrow> plain_map n | _ \<Rightarrow> True) \<and> plain_map es)"

definition path_in :: "string \<Rightarrow> string \<Rightarrow> string list option" where
  "path_in pre p = (if pre = [] then Some (split_on CHR ''.'' p)
     else if has_prefix p (pre @ ''.'') then Some (split_on CHR ''.'' (drop (length pre + 1) p)) else None)"

lemma split_on_eq_single: "split_on c p = [k] \<longleftrightarrow> p = k \<and> c \<notin> set k"
  using join_split [of c p] split_on_no_sep [of k c p] split_on_single [of c p] by auto

lemma split_on_eq_Cons: "c \<notin> set k \<Longrightarrow> ks \<noteq> [] \<Longrightarrow> split_on c p = k # ks \<longleftrightarrow> (\<exists>r. p = k @ c # r \<and> split_on c r = ks)"
proof
  assume c: "c \<notin> set k" "ks \<noteq> []" and s: "split_on c p = k # ks"
  have "p = join_with [c] (k # ks)" using join_split [of c p] s by simp
  then have "p = k @ c # join_with [c] ks" using c by (simp add: join_with_Cons)
  moreover from this s c have "split_on c (join_with [c] ks) = ks" by (simp add: split_on_append_sep)
  ultimately show "\<exists>r. p = k @ c # r \<and> split_on c r = ks" by blast
qed (auto simp: split_on_append_sep)

lemma path_in_full_key:
  assumes "k \<noteq> []" "CHR ''.'' \<notin> set k"
  shows "(p = full_key pre k \<longleftrightarrow> path_in pre p = Some [k])
    \<and> path_in (full_key pre k) p =
      (case path_in pre p of Some (k' # k'' # ks) \<Rightarrow> if k' = k then Some (k'' # ks) else None | _ \<Rightarrow> None)"
proof -
  have key: "(case split_on CHR ''.'' q of k' # k'' # ks \<Rightarrow> if k' = k then Some (k'' # ks) else None | _ \<Rightarrow> None)
      = (if has_prefix q (k @ ''.'') then Some (split_on CHR ''.'' (drop (length k + 1) q)) else None)" for q
  proof (cases "has_prefix q (k @ ''.'')")
    case True
    then obtain r where "q = k @ CHR ''.'' # r" by (auto simp: has_prefix_iff)
    with assms True show ?thesis by (cases "split_on CHR ''.'' r") (simp_all add: split_on_append_sep)
  next
    case False
    then have "split_on CHR ''.'' q \<noteq> k # k'' # ks" for k'' ks
      using split_on_eq_Cons [OF assms(2), of "k'' # ks" q] by (auto simp: has_prefix_iff)
    with False show ?thesis by (auto split: list.splits)
  qed
  show ?thesis
  proof (cases "pre = []")
    case True
    with assms key [of p] show ?thesis
      by (auto simp: path_in_def full_key_def split_on_eq_single)
  next
    case pre: False
    show ?thesis
    proof (cases "has_prefix p (pre @ ''.'')")
      case True
      then obtain q where q: "p = pre @ CHR ''.'' # q" by (auto simp: has_prefix_iff)
      have "has_prefix p (pre @ CHR ''.'' # k @ ''.'') \<longleftrightarrow> has_prefix q (k @ ''.'')"
        by (auto simp: has_prefix_iff q)
      with pre q assms key [of q] show ?thesis
        by (auto simp: path_in_def full_key_def split_on_eq_single has_prefix_iff)
    next
      case False
      then have "\<not> has_prefix p (pre @ CHR ''.'' # k @ ''.'')" "p \<noteq> pre @ CHR ''.'' # k"
        by (auto simp: has_prefix_iff)
      with pre False show ?thesis by (simp add: path_in_def full_key_def)
    qed
  qed
qed

lemma leaf_at_Cons:
  "leaf_at ((k, v) # es) ks = (case ks of [] \<Rightarrow> None | k' # ks' \<Rightarrow>
     if k' = k then (case v of VMap n \<Rightarrow> (if ks' = [] then None else leaf_at n ks')
                     | _ \<Rightarrow> (if ks' = [] then Some v else None))
     else leaf_at es ks)"
  by (cases ks; cases "tl ks") (auto split: go_value.splits)

lemma leaf_at_absent: "k \<notin> fst ` set es \<Longrightarrow> leaf_at es (k # ks) = None"
proof -
  assume "k \<notin> fst ` set es"
  then have "map_of es k = None" by (simp add: map_of_eq_None_iff)
  then show ?thesis by (cases ks) simp_all
qed

lemma leaf_at_Nil: "leaf_at [] ks = None"
  by (induction "[] :: (string \<times> go_value) list" ks rule: leaf_at.induct) auto

declare leaf_at.simps [simp del]

lemma gm_wf_flatten: "gm_wf result \<Longrightarrow> gm_wf (flatten_map pre m result)"
  by (induction pre m result rule: flatten_map.induct) (auto simp: gm_wf_set_all)

definition flat_lookup :: "string \<Rightarrow> (string \<times> go_value) list \<Rightarrow> string \<Rightarrow> go_value option" where
  "flat_lookup pre m p = Option.bind (path_in pre p) (leaf_at m)"

lemma flat_lookup_Cons:
  assumes "k \<noteq> []" "CHR ''.'' \<notin> set k" "k \<notin> fst ` set es"
  shows "flat_lookup pre ((k, v) # es) p =
    (case flat_lookup pre es p of Some x \<Rightarrow> Some x
     | None \<Rightarrow> (case v of VMap n \<Rightarrow> flat_lookup (full_key pre k) n p
               | _ \<Rightarrow> (if p = full_key pre k then Some v else None)))"
proof -
  note pf = path_in_full_key [OF assms(1,2), of p pre]
  have nil: "path_in pre p \<noteq> Some []" by (simp add: path_in_def)
  show ?thesis
  proof (cases "path_in pre p")
    case None
    with pf show ?thesis by (auto simp: flat_lookup_def split: go_value.splits)
  next
    case (Some ks)
    with nil obtain k' ks' where ks: "ks = k' # ks'" by (cases ks) auto
    show ?thesis
    proof (cases "k' = k")
      case True
      with pf Some ks leaf_at_absent [OF assms(3)] show ?thesis
        by (cases ks') (auto simp: flat_lookup_def leaf_at_Cons split: go_value.splits)
    next
      case False
      with pf Some ks show ?thesis
        by (cases ks') (auto simp: flat_lookup_def leaf_at_Cons split: go_value.splits option.splits)
    qed
  qed
qed


lemma flatten_map_lookup:
  "plain_map m \<Longrightarrow> gm_wf result \<Longrightarrow>
     gm_get (flatten_map pre m result) p = (case flat_lookup pre m p of Some v \<Rightarrow> Some v | None \<Rightarrow> gm_get result p)"
proof (induction m arbitrary: pre result p rule: plain_map.induct)
  case 1
  then show ?case by (cases "path_in pre p") (simp_all add: flat_lookup_def leaf_at_Nil)
next
  case (2 k v es)
  have k: "k \<noteq> []" "CHR ''.'' \<notin> set k" "k \<notin> fst ` set es" and es: "plain_map es"
    using "2.prems"(1) by auto
  show ?case
  proof (cases "\<exists>n. v = VMap n")
    case True
    then obtain n where v: "v = VMap n" by blast
    then have n: "plain_map n" using "2.prems"(1) by simp
    let ?f = "flatten_map (full_key pre k) n []"
    have wf: "gm_wf ?f" "gm_wf (gm_set_all ?f result)"
      using "2.prems"(2) by (simp_all add: gm_wf_flatten gm_wf_set_all)
    have "gm_get ?f p = flat_lookup (full_key pre k) n p"
      using "2.IH"(1) [OF v n, of "[]" "full_key pre k" p] by (simp split: option.splits)
    moreover have "flat_lookup pre ((k, VMap n) # es) p =
        (case flat_lookup pre es p of Some x \<Rightarrow> Some x | None \<Rightarrow> flat_lookup (full_key pre k) n p)"
      by (cases "flat_lookup pre es p") (simp_all add: flat_lookup_Cons [OF k])
    moreover have "flatten_map pre ((k, VMap n) # es) result = flatten_map pre es (gm_set_all ?f result)"
      by simp
    ultimately show ?thesis
      unfolding v using "2.IH"(2) [OF es wf(2), of pre p]
      by (cases "flat_lookup pre es p") (simp_all add: gm_get_set_all_wf [OF wf(1)])
  next
    case False
    have "gm_wf (gm_set result (full_key pre k) v)" using "2.prems"(2) by simp
    note ih = "2.IH"(2) [OF es this, of pre p]
    have "flat_lookup pre ((k, v) # es) p = (case flat_lookup pre es p of Some x \<Rightarrow> Some x
        | None \<Rightarrow> if p = full_key pre k then Some v else None)"
      using False by (cases v; cases "flat_lookup pre es p") (simp_all add: flat_lookup_Cons [OF k])
    moreover have "flatten_map pre ((k, v) # es) result = flatten_map pre es (gm_set result (full_key pre k) v)"
      using False by (cases v) simp_all
    ultimately show ?thesis
      using ih by (cases "flat_lookup pre es p") simp_all
  qed
qed

text \<open>
  Flattening keeps exactly the leaves: for a nested map with distinct, nonempty, dot-free keys,
  in whatever order it is visited, the flat map gives a dotted path the leaf the nested map has
  there, and nothing else.
\<close>

theorem flatten_map_leaves:
  assumes "plain_map m"
  shows "gm_get (flatten_map [] m []) p = leaf_at m (split_on CHR ''.'' p)"
  using flatten_map_lookup [OF assms, of "[]" "[]" p]
  by (simp add: flat_lookup_def path_in_def split: option.splits)

lemma flatten_map_leaves_witness:
  "gm_get (flatten_map [] [(''anticheat'', VMap [(''xray'', VMap [(''enabled'', VBool False)]), (''level'', VInt 2)])] [])
     ''anticheat.xray.enabled'' = Some (VBool False)"
proof -
  let ?m = "[(''anticheat'', VMap [(''xray'', VMap [(''enabled'', VBool False)]), (''level'', VInt 2)])]"
  have "plain_map ?m" "leaf_at ?m (split_on CHR ''.'' ''anticheat.xray.enabled'') = Some (VBool False)"
    by code_simp+
  with flatten_map_leaves [OF this(1)] show ?thesis by simp
qed

text \<open>With a dot in a key two entries can meet, and the order of the visit decides.\<close>

lemma flatten_collision:
  "gm_get (flatten_map [] [(''a'', VMap [(''b'', VInt 1)]), (''a.b'', VInt 2)] []) ''a.b'' = Some (VInt 2)
   \<and> gm_get (flatten_map [] [(''a.b'', VInt 2), (''a'', VMap [(''b'', VInt 1)])] []) ''a.b'' = Some (VInt 1)"
  by code_simp

section \<open>The online signal\<close>

record output_line_matcher =
  olm_raw :: string
  olm_reg :: "(string \<Rightarrow> bool) option"

definition matcher_matches :: "output_line_matcher \<Rightarrow> string \<Rightarrow> bool" where
  "matcher_matches m s = (case olm_reg m of None \<Rightarrow> contains_sub s (olm_raw m) | Some r \<Rightarrow> r s)"

definition new_output_line_matcher :: "(string \<Rightarrow> (string \<Rightarrow> bool) option) \<Rightarrow> string \<Rightarrow> output_line_matcher option" where
  "new_output_line_matcher compile done_text =
     (if has_prefix done_text ''regex:'' then
        (case compile (trim_prefix done_text ''regex:'') of
           None \<Rightarrow> None
         | Some r \<Rightarrow> Some \<lparr>olm_raw = [], olm_reg = Some r\<rparr>)
      else Some \<lparr>olm_raw = done_text, olm_reg = None\<rparr>)"

text \<open>The string \<^verbatim>\<open>MarshalJSON\<close> sends, and what \<^verbatim>\<open>UnmarshalJSON\<close> of the daemon makes of it.\<close>

definition matcher_marshal :: "output_line_matcher \<Rightarrow> string" where
  "matcher_marshal m = olm_raw m"

definition matcher_unmarshal :: "(string \<Rightarrow> (string \<Rightarrow> bool) option) \<Rightarrow> string \<Rightarrow> output_line_matcher" where
  "matcher_unmarshal compile r =
     (if has_prefix r ''regex:'' \<and> length r > 6
      then \<lparr>olm_raw = r, olm_reg = compile (trim_prefix r ''regex:'')\<rparr>
      else \<lparr>olm_raw = r, olm_reg = None\<rparr>)"

text \<open>
  A plain online signal survives the journey to the daemon: the matcher the daemon decodes
  matches exactly the lines that contain the signal. A signal marked as a regular expression does
  not: whatever the pattern, the matcher the daemon decodes matches every line.
\<close>

theorem matcher_transport:
  assumes "new_output_line_matcher compile signal = Some m"
  shows "matcher_matches (matcher_unmarshal compile (matcher_marshal m)) line \<longleftrightarrow>
    (has_prefix signal ''regex:'' \<or> (\<exists>a b. line = a @ signal @ b))"
proof (cases "has_prefix signal ''regex:''")
  case True
  with assms have "olm_raw m = []"
    by (auto simp: new_output_line_matcher_def split: option.splits)
  with True show ?thesis
    by (simp add: matcher_marshal_def matcher_unmarshal_def matcher_matches_def has_prefix_def)
next
  case False
  with assms have "m = \<lparr>olm_raw = signal, olm_reg = None\<rparr>"
    by (simp add: new_output_line_matcher_def)
  with False show ?thesis
    by (simp add: matcher_marshal_def matcher_unmarshal_def matcher_matches_def contains_sub_iff)
qed

definition match_none :: "string \<Rightarrow> (string \<Rightarrow> bool) option" where
  "match_none p = Some (\<lambda>line. False)"

lemma matcher_transport_witness:
  "(\<exists>m. new_output_line_matcher match_none ''regex:Done'' = Some m \<and> \<not> matcher_matches m ''Loading''
      \<and> matcher_matches (matcher_unmarshal match_none (matcher_marshal m)) ''Loading'')
   \<and> (\<exists>m. new_output_line_matcher match_none ''Done'' = Some m
      \<and> matcher_matches (matcher_unmarshal match_none (matcher_marshal m)) ''All Done!'')"
proof (intro conjI)
  have p: "has_prefix ''regex:Done'' ''regex:''" "\<not> has_prefix ''Done'' ''regex:''" by code_simp+
  then have m: "new_output_line_matcher match_none ''regex:Done'' = Some \<lparr>olm_raw = [], olm_reg = Some (\<lambda>line. False)\<rparr>"
    "new_output_line_matcher match_none ''Done'' = Some \<lparr>olm_raw = ''Done'', olm_reg = None\<rparr>"
    by (simp_all add: new_output_line_matcher_def match_none_def)
  show "\<exists>m. new_output_line_matcher match_none ''regex:Done'' = Some m \<and> \<not> matcher_matches m ''Loading''
      \<and> matcher_matches (matcher_unmarshal match_none (matcher_marshal m)) ''Loading''"
    using matcher_transport [OF m(1), of "''Loading''"] p m by (simp add: matcher_matches_def)
  have "''All Done!'' = ''All '' @ ''Done'' @ ''!''" by simp
  then show "\<exists>m. new_output_line_matcher match_none ''Done'' = Some m
      \<and> matcher_matches (matcher_unmarshal match_none (matcher_marshal m)) ''All Done!''"
    using matcher_transport [OF m(2), of "''All Done!''"] m by blast
qed

section \<open>Building the configuration\<close>

record overrides =
  ov_save :: "bool option"
  ov_limits :: "limits option"
  ov_configs :: "(string, config_file) gomap"
  ov_software :: "string option"
  ov_version :: "string option"
  ov_image :: "string option"
  ov_env :: "(string, string) gomap"

text \<open>\<^verbatim>\<open>MergeState\<close>: the environment of the request wins.\<close>

definition merge_state :: "bp_state option \<Rightarrow> (string, string) gomap \<Rightarrow> bp_state option" where
  "merge_state base env =
     (if length env = 0 then base
      else
        (let out = (case base of
               None \<Rightarrow> \<lparr>st_volumes = [], st_mounts = [], st_copy = [], st_env = []\<rparr>
             | Some b \<Rightarrow> b)
         in Some (out\<lparr>st_env := gm_set_all env (st_env out)\<rparr>)))"

record process_configuration =
  pc_done :: "output_line_matcher list"
  pc_strip_ansi :: bool
  pc_stop_type :: string
  pc_stop_value :: string
  pc_config_files :: "configuration_file list"

record server_configuration =
  sc_id :: string
  sc_process :: process_configuration
  sc_image :: string
  sc_invocation :: string
  sc_state :: "bp_state option"
  sc_limits :: "limits option"
  sc_save :: bool
  sc_allocations :: env_allocations
  sc_software_id :: string
  sc_server_folder :: string
  sc_software_version :: string
  sc_has_install_script :: bool
  sc_skip_install_script :: bool

datatype build_error = SoftwareNotFound string | MatcherInvalid string | ImageSelection version_error

definition effective :: "'a \<Rightarrow> 'a option \<Rightarrow> 'a" where
  "effective base override = (case override of None \<Rightarrow> base | Some v \<Rightarrow> v)"

definition build_server_configuration ::
  "(string \<Rightarrow> (string \<Rightarrow> bool) option) \<Rightarrow> (go_value \<Rightarrow> string option) \<Rightarrow> string \<Rightarrow> overrides option \<Rightarrow>
     blueprint \<Rightarrow> software_registry \<Rightarrow> env_allocations \<Rightarrow>
     (build_error + server_configuration \<times> install_script) go" where
  "build_server_configuration compile marshal sid ov bp swr alloc =
     (case bp_server bp of
        None \<Rightarrow> Panic
      | Some server \<Rightarrow>
          (let software = (case ov of None \<Rightarrow> bs_software server | Some o1 \<Rightarrow> effective (bs_software server) (ov_software o1));
               version = (case ov of None \<Rightarrow> bs_version server | Some o1 \<Rightarrow> effective (bs_version server) (ov_version o1))
           in case sr_get software swr of
                None \<Rightarrow> Ret (Inl (SoftwareNotFound software))
              | Some sw \<Rightarrow>
                  (case new_output_line_matcher compile (sw_online_signal sw) of
                     None \<Rightarrow> Ret (Inl (MatcherInvalid (sw_online_signal sw)))
                   | Some matcher \<Rightarrow>
                       (let files = (case get_config_files marshal sw (Some server)
                                             (case ov of None \<Rightarrow> [] | Some o1 \<Rightarrow> ov_configs o1) of
                                       Inl e \<Rightarrow> [] | Inr fs \<Rightarrow> fs);
                            pc = \<lparr>pc_done = [matcher], pc_strip_ansi = False, pc_stop_type = ''command'',
                                  pc_stop_value = sw_stop_command sw, pc_config_files = files\<rparr>;
                            save = (case ov of None \<Rightarrow> bp_save bp | Some o1 \<Rightarrow> effective (bp_save bp) (ov_save o1));
                            limits = copy_limits (bs_limits server);
                            limits = (case ov of None \<Rightarrow> limits | Some o1 \<Rightarrow> merge_limits limits (ov_limits o1));
                            folder = (case ov of None \<Rightarrow> bs_path server
                                      | Some o1 \<Rightarrow> (if ov_software o1 \<noteq> None \<or> ov_version o1 \<noteq> None
                                                   then path_join [software, version] else bs_path server));
                            image = (case ov of None \<Rightarrow> bs_image server | Some o1 \<Rightarrow> effective (bs_image server) (ov_image o1));
                            chosen = (if image = [] then image_for_version (Some sw) version else Inr image)
                        in case chosen of
                             Inl e \<Rightarrow> Ret (Inl (ImageSelection e))
                           | Inr image \<Rightarrow>
                               Ret (Inr (\<lparr>sc_id = sid, sc_process = pc, sc_image = image,
                                 sc_invocation = sw_invocation sw,
                                 sc_state = merge_state (bp_state bp) (case ov of None \<Rightarrow> [] | Some o1 \<Rightarrow> ov_env o1),
                                 sc_limits = limits, sc_save = save, sc_allocations = alloc,
                                 sc_software_id = sw_id sw, sc_server_folder = folder,
                                 sc_software_version = version,
                                 sc_has_install_script = is_script (sw_install_script sw) \<noteq> [],
                                 sc_skip_install_script = is_skip_scripts (sw_install_script sw)\<rparr>,
                                 sw_install_script sw))))))"

definition override_of :: "overrides option \<Rightarrow> (overrides \<Rightarrow> 'a option) \<Rightarrow> 'a option" where
  "override_of ov f = (case ov of None \<Rightarrow> None | Some o1 \<Rightarrow> f o1)"

text \<open>Every limit is the one of the first argument where it has one, else the one of the second.\<close>

definition limits_over :: "limits option \<Rightarrow> limits option \<Rightarrow> limits option \<Rightarrow> bool" where
  "limits_over over base l \<longleftrightarrow>
     limit_of l li_memory = set_if (limit_of over li_memory) (limit_of base li_memory)
     \<and> limit_of l li_swap = set_if (limit_of over li_swap) (limit_of base li_swap)
     \<and> limit_of l li_io_weight = set_if (limit_of over li_io_weight) (limit_of base li_io_weight)
     \<and> limit_of l li_cpu = set_if (limit_of over li_cpu) (limit_of base li_cpu)
     \<and> limit_of l li_disk = set_if (limit_of over li_disk) (limit_of base li_disk)
     \<and> limit_of l li_threads = set_if (limit_of over li_threads) (limit_of base li_threads)
     \<and> limit_of l li_oom_disabled = set_if (limit_of over li_oom_disabled) (limit_of base li_oom_disabled)"

lemma limits_over_merge: "limits_over over base (merge_limits base over)"
  by (cases over; cases base) (simp_all add: limits_over_def merge_limits_def limit_of_def empty_limits_def Let_def)

definition env_of :: "bp_state option \<Rightarrow> string \<Rightarrow> string option" where
  "env_of s k = (case s of None \<Rightarrow> None | Some st \<Rightarrow> gm_get (st_env st) k)"

lemma env_of_merge_state:
  "gm_wf env \<Longrightarrow> env_of (merge_state base env) k = (case gm_get env k of Some v \<Rightarrow> Some v | None \<Rightarrow> env_of base k)"
  by (cases base; cases env) (auto simp: merge_state_def env_of_def gm_get_set_all_wf split: option.splits)

text \<open>
  Building a configuration applies the overrides of a request field by field: software and
  version, the save flag, the image, every limit and every environment variable are those of the
  request where it gives them and those of the blueprint where it does not; the image is chosen by
  the version only when neither gives one. The allocation is passed on, and the script is that of
  the software.
\<close>

theorem build_configuration_overrides:
  assumes "build_server_configuration compile marshal sid ov bp swr alloc = Ret (Inr (cfg, script))"
    and "bp_server bp = Some server"
    and "case ov of None \<Rightarrow> True | Some o1 \<Rightarrow> gm_wf (ov_env o1)"
  shows "\<exists>sw. sr_get (effective (bs_software server) (override_of ov ov_software)) swr = Some sw
    \<and> sc_id cfg = sid \<and> sc_allocations cfg = alloc \<and> script = sw_install_script sw
    \<and> sc_software_version cfg = effective (bs_version server) (override_of ov ov_version)
    \<and> sc_save cfg = effective (bp_save bp) (override_of ov ov_save)
    \<and> (let image = effective (bs_image server) (override_of ov ov_image) in
        if image \<noteq> [] then sc_image cfg = image
        else image_for_version (Some sw) (sc_software_version cfg) = Inr (sc_image cfg))
    \<and> limits_over (override_of ov ov_limits) (bs_limits server) (sc_limits cfg)
    \<and> (\<forall>k. env_of (sc_state cfg) k =
        (case (case ov of None \<Rightarrow> None | Some o1 \<Rightarrow> gm_get (ov_env o1) k) of
           Some v \<Rightarrow> Some v | None \<Rightarrow> env_of (bp_state bp) k))"
proof -
  let ?sw = "effective (bs_software server) (override_of ov ov_software)"
  let ?image = "effective (bs_image server) (override_of ov ov_image)"
  let ?v = "effective (bs_version server) (override_of ov ov_version)"
  have lim: "limits_over None (bs_limits server) (bs_limits server)"
    using limits_over_merge [of None "bs_limits server"] by simp
  have st: "merge_state (bp_state bp) [] = bp_state bp" by (simp add: merge_state_def)
  from assms(1,2) obtain sw where sw: "sr_get ?sw swr = Some sw"
    by (cases ov; cases "sr_get ?sw swr")
       (auto simp: build_server_configuration_def Let_def override_of_def effective_def)
  show ?thesis
  proof (cases ov)
    case None
    with assms(1,2) sw lim st show ?thesis
      by (auto simp: build_server_configuration_def Let_def override_of_def effective_def
          split: option.splits sum.splits if_splits)
  next
    case (Some o1)
    have env: "gm_wf (ov_env o1)" using assms(3) Some by simp
    have lim1: "limits_over (ov_limits o1) (bs_limits server) (merge_limits (bs_limits server) (ov_limits o1))"
      by (rule limits_over_merge)
    obtain m where "new_output_line_matcher compile (sw_online_signal sw) = Some m"
      using assms(1,2) sw Some
      by (cases "new_output_line_matcher compile (sw_online_signal sw)")
         (auto simp: build_server_configuration_def Let_def override_of_def)
    with assms(1,2) sw Some lim1 env_of_merge_state [OF env] show ?thesis
      by (simp add: build_server_configuration_def Let_def override_of_def split: sum.splits if_splits)
         auto
  qed
qed

definition build_blueprint :: blueprint where
  "build_blueprint = empty_blueprint\<lparr>
     bp_server := Some (server_example\<lparr>bs_software := ''paper'', bs_image := ''img:16'', bs_path := ''paper/1.17''\<rparr>),
     bp_state := Some \<lparr>st_volumes = [], st_mounts = [], st_copy = [], st_env = [(''A'', ''1''), (''B'', ''2'')]\<rparr>\<rparr>"

definition build_overrides :: overrides where
  "build_overrides = \<lparr>ov_save = Some True, ov_limits = Some (empty_limits\<lparr>li_memory := Some 1024\<rparr>), ov_configs = [],
     ov_software = None, ov_version = Some ''1.21'', ov_image = None, ov_env = [(''B'', ''3'')]\<rparr>"

definition sample_alloc :: env_allocations where
  "sample_alloc = \<lparr>ea_force_outgoing_ip = False, ea_default_ip = ''10.0.0.1'', ea_default_port = 25565,
     ea_alias = ''eu'', ea_mappings = [(''10.0.0.1'', [25565])], ea_release = Some (''10.0.0.1'', 25565)\<rparr>"

definition build_result :: "(build_error + server_configuration \<times> install_script) go" where
  "build_result = build_server_configuration (\<lambda>p. None) (\<lambda>v. None) ''srv1'' (Some build_overrides)
     build_blueprint paper_registry sample_alloc"

lemma build_configuration_overrides_witness:
  "\<exists>cfg script. build_result = Ret (Inr (cfg, script)) \<and> sc_save cfg \<and> sc_software_version cfg = ''1.21''
     \<and> limit_of (sc_limits cfg) li_memory = Some 1024 \<and> limit_of (sc_limits cfg) li_swap = Some 64
     \<and> env_of (sc_state cfg) ''A'' = Some ''1'' \<and> env_of (sc_state cfg) ''B'' = Some ''3''"
proof -
  have "(case build_result of Ret (Inr (cfg, script)) \<Rightarrow> True | _ \<Rightarrow> False)"
    by code_simp
  then obtain cfg script where r: "build_result = Ret (Inr (cfg, script))"
    by (auto split: go.splits sum.splits)
  have b: "bp_server build_blueprint = Some (server_example\<lparr>bs_software := ''paper'', bs_image := ''img:16'', bs_path := ''paper/1.17''\<rparr>)"
    "case Some build_overrides of None \<Rightarrow> True | Some o1 \<Rightarrow> gm_wf (ov_env o1)"
    by (simp_all add: build_blueprint_def build_overrides_def gm_wf_def)
  show ?thesis
    using build_configuration_overrides [OF r [unfolded build_result_def] b] r
    by (auto simp: build_overrides_def override_of_def effective_def limits_over_def limit_of_def
        server_example_def empty_limits_def env_of_def gm_get_def build_blueprint_def)
qed

text \<open>
  A validated blueprint always carries an image, so an override of the version alone keeps the
  image of the blueprint's own version: version 1.21 runs on the image for 1.17.
\<close>

lemma version_override_keeps_image:
  "(case build_result of Ret (Inr (cfg, script)) \<Rightarrow> sc_software_version cfg = ''1.21'' \<and> sc_image cfg = ''img:16''
    | _ \<Rightarrow> False)
   \<and> image_for_version (Some java_software) ''1.21'' = Inr ''img:21''"
  by code_simp

end
