(* ===== verification/Node_Client.thy ===== *)
theory Node_Client
  imports Go_Strings
begin

text \<open>
  Protocube's HTTP client for nodes and the error bodies it exchanges with them:
  \<^verbatim>\<open>protocube/client\<close> (\<^verbatim>\<open>client.go\<close>, \<^verbatim>\<open>requests.go\<close>, \<^verbatim>\<open>server_client.go\<close>, \<^verbatim>\<open>errors.go\<close>) and
  \<^verbatim>\<open>protocube/api/router/httperror\<close>. What a node answers to each attempt of a request is a
  sequence of outcomes; decoding JSON is an argument. The back-off package is not part of the
  repository: the retry function is an argument and \<open>retry_contract\<close> states what its
  documentation promises.
\<close>

section \<open>Error bodies\<close>

record http_error =
  he_code :: string
  he_status :: string
  he_detail :: string
  he_hint :: string

text \<open>\<^verbatim>\<open>http.StatusText\<close>; an unknown code has no text.\<close>

definition status_texts :: "(int \<times> string) list" where
  "status_texts =
    [(100, ''Continue''), (101, ''Switching Protocols''), (102, ''Processing''), (103, ''Early Hints''),
     (200, ''OK''), (201, ''Created''), (202, ''Accepted''), (203, ''Non-Authoritative Information''),
     (204, ''No Content''), (205, ''Reset Content''), (206, ''Partial Content''), (207, ''Multi-Status''),
     (208, ''Already Reported''), (226, ''IM Used''),
     (300, ''Multiple Choices''), (301, ''Moved Permanently''), (302, ''Found''), (303, ''See Other''),
     (304, ''Not Modified''), (305, ''Use Proxy''), (307, ''Temporary Redirect''), (308, ''Permanent Redirect''),
     (400, ''Bad Request''), (401, ''Unauthorized''), (402, ''Payment Required''), (403, ''Forbidden''),
     (404, ''Not Found''), (405, ''Method Not Allowed''), (406, ''Not Acceptable''),
     (407, ''Proxy Authentication Required''), (408, ''Request Timeout''), (409, ''Conflict''), (410, ''Gone''),
     (411, ''Length Required''), (412, ''Precondition Failed''), (413, ''Request Entity Too Large''),
     (414, ''Request URI Too Long''), (415, ''Unsupported Media Type''),
     (416, ''Requested Range Not Satisfiable''), (417, ''Expectation Failed''), (418, ''I'm a teapot''),
     (421, ''Misdirected Request''), (422, ''Unprocessable Entity''), (423, ''Locked''),
     (424, ''Failed Dependency''), (425, ''Too Early''), (426, ''Upgrade Required''),
     (428, ''Precondition Required''), (429, ''Too Many Requests''), (431, ''Request Header Fields Too Large''),
     (451, ''Unavailable For Legal Reasons''),
     (500, ''Internal Server Error''), (501, ''Not Implemented''), (502, ''Bad Gateway''),
     (503, ''Service Unavailable''), (504, ''Gateway Timeout''), (505, ''HTTP Version Not Supported''),
     (506, ''Variant Also Negotiates''), (507, ''Insufficient Storage''), (508, ''Loop Detected''),
     (510, ''Not Extended''), (511, ''Network Authentication Required'')]"

definition status_text :: "int \<Rightarrow> string" where
  "status_text code = (case map_of status_texts code of None \<Rightarrow> [] | Some s \<Rightarrow> s)"

definition new_http_error :: "int \<Rightarrow> string \<Rightarrow> string \<Rightarrow> http_error" where
  "new_http_error status detail hint =
     \<lparr>he_code = itoa status, he_status = status_text status, he_detail = detail, he_hint = hint\<rparr>"

definition from_parts :: "int \<Rightarrow> string \<Rightarrow> string \<Rightarrow> string \<Rightarrow> string \<Rightarrow> http_error" where
  "from_parts http_status code status detail hint =
     (if code \<noteq> [] \<and> status \<noteq> []
      then \<lparr>he_code = code, he_status = status, he_detail = detail, he_hint = hint\<rparr>
      else new_http_error http_status detail hint)"

section \<open>Responses of a node\<close>

record http_response =
  hr_status :: int
  hr_body :: string

record request_error =
  re_response :: int
  re_code :: string
  re_status :: string
  re_detail :: string
  re_hint :: string

text \<open>
  The errors a request can end with, as \<^verbatim>\<open>HandleError\<close> tells them apart; all but the first carry
  the text of \<^verbatim>\<open>err.Error()\<close>.
\<close>

datatype client_error =
    RemoteError request_error
  | NodeUnavailable string
  | DeadlineExceeded string
  | Canceled string
  | OtherError string

definition has_error :: "http_response \<Rightarrow> bool" where
  "has_error r \<longleftrightarrow> hr_status r \<ge> 300 \<or> hr_status r < 200"

text \<open>\<^verbatim>\<open>Response.Error\<close> on a response that has an error; \<open>unmarshal\<close> decodes an error body.\<close>

definition response_error :: "(string \<Rightarrow> http_error option) \<Rightarrow> http_response \<Rightarrow> request_error" where
  "response_error unmarshal r =
     (let e = \<lparr>re_response = hr_status r, re_code = ''_MissingResponseCode'', re_status = status_text (hr_status r),
               re_detail = ''No error response returned from API endpoint.'', re_hint = []\<rparr>
      in case unmarshal (hr_body r) of
           None \<Rightarrow> e
         | Some a \<Rightarrow>
             (if he_code a \<noteq> [] \<or> he_detail a \<noteq> [] \<or> he_hint a \<noteq> []
              then e\<lparr>re_code := (if he_code a = [] then itoa (hr_status r) else he_code a),
                     re_status := (if he_status a = [] then status_text (hr_status r) else he_status a),
                     re_detail := he_detail a, re_hint := he_hint a\<rparr>
              else e))"

text \<open>\<^verbatim>\<open>HandleError\<close>: the status of the answer and its body.\<close>

definition handle_error :: "client_error \<Rightarrow> int \<times> http_error" where
  "handle_error err = (case err of
     RemoteError re \<Rightarrow>
       (re_response re, from_parts (re_response re) (re_code re) (re_status re) (re_detail re) (re_hint re))
   | NodeUnavailable s \<Rightarrow> (503, new_http_error 503 s ''No node is available for this request.'')
   | DeadlineExceeded s \<Rightarrow> (504, new_http_error 504 s ''Remote node request timed out.'')
   | Canceled s \<Rightarrow> (408, new_http_error 408 s ''Request context was canceled.'')
   | OtherError s \<Rightarrow> (502, new_http_error 502 s []))"

text \<open>\<^verbatim>\<open>BindJSON[T]\<close>: an empty body is the zero value.\<close>

definition bind_json :: "'a \<Rightarrow> (string \<Rightarrow> 'a option) \<Rightarrow> http_response \<Rightarrow> client_error + 'a" where
  "bind_json zero unmarshal r =
     (if length (hr_body r) = 0 then Inr zero
      else case unmarshal (hr_body r) of
             None \<Rightarrow> Inl (OtherError ''failed to bind json: could not unmarshal response'')
           | Some v \<Rightarrow> Inr v)"

section \<open>Requests and retries\<close>

text \<open>What one attempt tells the back-off: it is over, it must not be repeated, or it may be.\<close>

datatype 'a attempt = Success 'a | Permanent client_error | Transient client_error

fun is_transient :: "'a attempt \<Rightarrow> bool" where
  "is_transient (Transient e) = True"
| "is_transient _ = False"

definition attempt_of ::
  "(string \<Rightarrow> http_error option) \<Rightarrow> client_error + http_response \<Rightarrow> http_response attempt" where
  "attempt_of unmarshal outcome = (case outcome of
     Inl (Canceled s) \<Rightarrow> Permanent (Canceled s)
   | Inl (DeadlineExceeded s) \<Rightarrow> Permanent (DeadlineExceeded s)
   | Inl e \<Rightarrow> Transient e
   | Inr r \<Rightarrow>
       (if has_error r then
          (if hr_status r \<ge> 400 \<and> hr_status r < 500 then Permanent (RemoteError (response_error unmarshal r))
           else Transient (RemoteError (response_error unmarshal r)))
        else Success r))"

type_synonym retrier = "(nat \<Rightarrow> http_response attempt) \<Rightarrow> client_error + http_response"

definition request ::
  "retrier \<Rightarrow> (string \<Rightarrow> http_error option) \<Rightarrow> (nat \<Rightarrow> client_error + http_response) \<Rightarrow> client_error + http_response" where
  "request retry unmarshal outcomes = retry (\<lambda>i. attempt_of unmarshal (outcomes i))"

text \<open>
  The contract of \<^verbatim>\<open>backoff.Retry\<close> with \<^verbatim>\<open>WithContext\<close> and \<^verbatim>\<open>WithMaxRetries\<close>: the operation is
  repeated while it fails with an error that is not permanent, at most \<open>m\<close> times after the first
  (without a limit when \<open>m\<close> is 0), and the outcome of the last attempt is returned, or the error of
  the context if that ends while waiting.
\<close>

definition retry_contract :: "nat \<Rightarrow> retrier \<Rightarrow> bool" where
  "retry_contract m retry \<longleftrightarrow> (\<forall>op. \<exists>n. (m = 0 \<or> n \<le> m) \<and> (\<forall>i < n. is_transient (op i)) \<and>
     (case op n of
        Success r \<Rightarrow> retry op = Inr r
      | Permanent e \<Rightarrow> retry op = Inl e
      | Transient e \<Rightarrow> retry op = Inl e \<or> (\<exists>s. retry op = Inl (Canceled s) \<or> retry op = Inl (DeadlineExceeded s))))"

section \<open>Clients of a node and of a server\<close>

record node_client =
  nc_node_id :: string
  nc_url :: string
  nc_token :: string

text \<open>
  \<^verbatim>\<open>serverClient.Node\<close>. The message quotes the first eight characters of the node's identifier:
  a shorter one is a slice out of range.
\<close>

definition sc_node :: "node_client option \<Rightarrow> string \<Rightarrow> string \<Rightarrow> (client_error + node_client) go" where
  "sc_node node node_id server_id = (case node of
     Some n \<Rightarrow> Ret (Inr n)
   | None \<Rightarrow>
       (if length node_id < 8 then Panic
        else Ret (Inl (NodeUnavailable
               (''node '' @ take 8 node_id @ '' for server '' @ server_id @ '' is not connected: node unavailable'')))))"

text \<open>The route of a request that is scoped to a server, and the request itself.\<close>

definition sc_route :: "string \<Rightarrow> string \<Rightarrow> string" where
  "sc_route server_id path = ''/servers/'' @ server_id @ path"

definition nc_path :: "string \<Rightarrow> string" where
  "nc_path path = ''/api'' @ path"

definition sc_request ::
  "retrier \<Rightarrow> (string \<Rightarrow> http_error option) \<Rightarrow> (node_client \<Rightarrow> string \<Rightarrow> nat \<Rightarrow> client_error + http_response) \<Rightarrow>
     node_client option \<Rightarrow> string \<Rightarrow> string \<Rightarrow> string \<Rightarrow> (client_error + http_response) go" where
  "sc_request retry unmarshal outcomes node node_id server_id path =
     go_bind (sc_node node node_id server_id) (\<lambda>r. case r of
       Inl e \<Rightarrow> Ret (Inl e)
     | Inr n \<Rightarrow> Ret (request retry unmarshal (outcomes n (nc_path (sc_route server_id path)))))"

section \<open>What a request promises\<close>

lemma attempt_of_cases:
  "attempt_of u oc = Success r \<longleftrightarrow> oc = Inr r \<and> \<not> has_error r"
  "attempt_of u oc = Permanent e \<longleftrightarrow>
     (\<exists>s. oc = Inl e \<and> (e = Canceled s \<or> e = DeadlineExceeded s)) \<or>
     (\<exists>r. oc = Inr r \<and> 400 \<le> hr_status r \<and> hr_status r < 500 \<and> e = RemoteError (response_error u r))"
  "is_transient (attempt_of u oc) \<longleftrightarrow>
     (\<exists>e. oc = Inl e \<and> (\<forall>s. e \<noteq> Canceled s \<and> e \<noteq> DeadlineExceeded s)) \<or>
     (\<exists>r. oc = Inr r \<and> has_error r \<and> \<not> (400 \<le> hr_status r \<and> hr_status r < 500))"
  by (auto simp: attempt_of_def has_error_def split: sum.splits client_error.splits)

lemma attempt_of_Transient:
  "attempt_of u oc = Transient e \<Longrightarrow>
     oc = Inl e \<or> (\<exists>r. oc = Inr r \<and> has_error r \<and> e = RemoteError (response_error u r))"
  by (auto simp: attempt_of_def split: sum.splits client_error.splits if_splits)

lemma response_error_status [simp]: "re_response (response_error u r) = hr_status r"
  by (auto simp: response_error_def Let_def split: option.splits)

text \<open>An error no attempt invents: whatever an outcome carries besides is not a remote error.\<close>

definition local_error :: "client_error \<Rightarrow> bool" where
  "local_error e = (case e of RemoteError _ \<Rightarrow> False | _ \<Rightarrow> True)"

lemma handle_local_error: "local_error e \<Longrightarrow> fst (handle_error e) \<in> {408, 502, 503, 504}"
  by (auto simp: local_error_def handle_error_def split: client_error.splits)

lemma handle_remote_error: "fst (handle_error (RemoteError (response_error u r))) = hr_status r"
  by (simp add: handle_error_def)

lemma request_cases:
  assumes "retry_contract m retry"
  obtains n where "m = 0 \<or> n \<le> m" "\<forall>i < n. is_transient (attempt_of u (oc i))"
    "case attempt_of u (oc n) of
       Success r \<Rightarrow> request retry u oc = Inr r
     | Permanent e \<Rightarrow> request retry u oc = Inl e
     | Transient e \<Rightarrow> request retry u oc = Inl e \<or>
         (\<exists>s. request retry u oc = Inl (Canceled s) \<or> request retry u oc = Inl (DeadlineExceeded s))"
  using assms unfolding retry_contract_def request_def by blast

lemma request_answers_parts:
  assumes "retry_contract m retry" "\<And>i e. oc i = Inl e \<Longrightarrow> local_error e"
  shows "case request retry u oc of
      Inr r \<Rightarrow> 200 \<le> hr_status r \<and> hr_status r < 300 \<and>
        (\<exists>n. (m = 0 \<or> n \<le> m) \<and> oc n = Inr r \<and> (\<forall>i < n. is_transient (attempt_of u (oc i))))
    | Inl e \<Rightarrow> \<not> (200 \<le> fst (handle_error e) \<and> fst (handle_error e) < 300)"
    and "oc 0 = Inr r \<Longrightarrow> 400 \<le> hr_status r \<Longrightarrow> hr_status r < 500 \<Longrightarrow>
      request retry u oc = Inl (RemoteError (response_error u r)) \<and>
      (\<forall>b. u (hr_body r) = Some b \<longrightarrow> he_code b \<noteq> [] \<longrightarrow> he_status b \<noteq> [] \<longrightarrow>
        handle_error (RemoteError (response_error u r)) = (hr_status r, b))"
proof -
  obtain n where n: "m = 0 \<or> n \<le> m" "\<forall>i < n. is_transient (attempt_of u (oc i))"
    "case attempt_of u (oc n) of
       Success r \<Rightarrow> request retry u oc = Inr r
     | Permanent e \<Rightarrow> request retry u oc = Inl e
     | Transient e \<Rightarrow> request retry u oc = Inl e \<or>
         (\<exists>s. request retry u oc = Inl (Canceled s) \<or> request retry u oc = Inl (DeadlineExceeded s))"
    by (rule request_cases [OF assms(1), of u oc])
  have loc: "local_error e \<Longrightarrow> \<not> (200 \<le> fst (handle_error e) \<and> fst (handle_error e) < 300)" for e
    using handle_local_error [of e] by auto
  show "case request retry u oc of
      Inr r \<Rightarrow> 200 \<le> hr_status r \<and> hr_status r < 300 \<and>
        (\<exists>n. (m = 0 \<or> n \<le> m) \<and> oc n = Inr r \<and> (\<forall>i < n. is_transient (attempt_of u (oc i))))
    | Inl e \<Rightarrow> \<not> (200 \<le> fst (handle_error e) \<and> fst (handle_error e) < 300)"
  proof (cases "attempt_of u (oc n)")
    case (Success r)
    then have "oc n = Inr r" "\<not> has_error r" by (simp_all add: attempt_of_cases)
    moreover have "request retry u oc = Inr r" using n(3) unfolding Success by simp
    ultimately show ?thesis using n(1,2) by (auto simp: has_error_def)
  next
    case (Permanent e)
    then have "request retry u oc = Inl e" using n by simp
    moreover have "\<not> (200 \<le> fst (handle_error e) \<and> fst (handle_error e) < 300)"
      using Permanent loc by (auto simp: attempt_of_cases handle_remote_error local_error_def)
    ultimately show ?thesis by simp
  next
    case (Transient e)
    then have "\<not> (200 \<le> fst (handle_error e) \<and> fst (handle_error e) < 300)"
      using attempt_of_Transient [OF Transient] loc assms(2) by (auto simp: handle_remote_error has_error_def)
    moreover have "local_error (Canceled s)" "local_error (DeadlineExceeded s)" for s
      by (simp_all add: local_error_def)
    ultimately show ?thesis using n Transient loc by auto
  qed
next
  assume r: "oc 0 = Inr r" "400 \<le> hr_status r" "hr_status r < 500"
  then have at: "attempt_of u (oc 0) = Permanent (RemoteError (response_error u r))"
    by (simp add: attempt_of_cases)
  obtain n where "\<forall>i < n. is_transient (attempt_of u (oc i))"
    "case attempt_of u (oc n) of
       Success r \<Rightarrow> request retry u oc = Inr r
     | Permanent e \<Rightarrow> request retry u oc = Inl e
     | Transient e \<Rightarrow> request retry u oc = Inl e \<or>
         (\<exists>s. request retry u oc = Inl (Canceled s) \<or> request retry u oc = Inl (DeadlineExceeded s))"
    by (rule request_cases [OF assms(1), of u oc])
  moreover from this(1) at have "n = 0" by (cases n) auto
  ultimately have "request retry u oc = Inl (RemoteError (response_error u r))" using at by simp
  then show "request retry u oc = Inl (RemoteError (response_error u r)) \<and>
      (\<forall>b. u (hr_body r) = Some b \<longrightarrow> he_code b \<noteq> [] \<longrightarrow> he_status b \<noteq> [] \<longrightarrow>
        handle_error (RemoteError (response_error u r)) = (hr_status r, b))"
    by (auto simp: handle_error_def response_error_def from_parts_def)
qed

text \<open>
  C22. A request to a node succeeds only with an answer in the 200s, which the last attempt made
  received after attempts that all failed in a way that may be repeated, and within the limit;
  when it fails, the client of Protocube is never answered with a status in the 200s. A first
  answer in the 400s ends the request at once and is relayed: the client sees the node's status
  and, where the body names a code and a status, exactly the node's body.
\<close>

theorem request_answers:
  assumes "retry_contract m retry" "\<And>i e. oc i = Inl e \<Longrightarrow> local_error e"
  shows "(case request retry u oc of
      Inr r \<Rightarrow> 200 \<le> hr_status r \<and> hr_status r < 300 \<and>
        (\<exists>n. (m = 0 \<or> n \<le> m) \<and> oc n = Inr r \<and> (\<forall>i < n. is_transient (attempt_of u (oc i))))
    | Inl e \<Rightarrow> \<not> (200 \<le> fst (handle_error e) \<and> fst (handle_error e) < 300)) \<and>
    (\<forall>r. oc 0 = Inr r \<longrightarrow> 400 \<le> hr_status r \<longrightarrow> hr_status r < 500 \<longrightarrow>
      request retry u oc = Inl (RemoteError (response_error u r)) \<and>
      (\<forall>b. u (hr_body r) = Some b \<longrightarrow> he_code b \<noteq> [] \<longrightarrow> he_status b \<noteq> [] \<longrightarrow>
        handle_error (RemoteError (response_error u r)) = (hr_status r, b)))"
proof -
  note p = request_answers_parts [where m = m and retry = retry and oc = oc and u = u, OF assms(1)]
  show ?thesis using p(1) p(2) assms(2) by blast
qed

text \<open>A retrier that tries up to three times more, for concrete runs.\<close>

fun retry_loop :: "nat \<Rightarrow> nat \<Rightarrow> retrier" where
  "retry_loop 0 i op = (case op i of Success r \<Rightarrow> Inr r | Permanent e \<Rightarrow> Inl e | Transient e \<Rightarrow> Inl e)"
| "retry_loop (Suc k) i op =
     (case op i of Success r \<Rightarrow> Inr r | Permanent e \<Rightarrow> Inl e | Transient e \<Rightarrow> retry_loop k (Suc i) op)"

lemma retry_loop_spec:
  "\<exists>n \<le> i + k. i \<le> n \<and> (\<forall>j < n. i \<le> j \<longrightarrow> is_transient (op j)) \<and>
     (case op n of
        Success r \<Rightarrow> retry_loop k i op = Inr r
      | Permanent e \<Rightarrow> retry_loop k i op = Inl e
      | Transient e \<Rightarrow> retry_loop k i op = Inl e)"
proof (induction k arbitrary: i)
  case 0
  then show ?case by (intro exI [of _ i]) (auto split: attempt.splits)
next
  case (Suc k)
  show ?case
  proof (cases "op i")
    case (Transient e)
    obtain n where n: "n \<le> Suc i + k" "Suc i \<le> n" "\<forall>j < n. Suc i \<le> j \<longrightarrow> is_transient (op j)"
      "case op n of Success r \<Rightarrow> retry_loop k (Suc i) op = Inr r | Permanent e \<Rightarrow> retry_loop k (Suc i) op = Inl e
       | Transient e \<Rightarrow> retry_loop k (Suc i) op = Inl e"
      using Suc.IH [of "Suc i"] by blast
    moreover have "\<forall>j < n. i \<le> j \<longrightarrow> is_transient (op j)"
      using n(3) Transient by (metis Suc_leI is_transient.simps(1) le_neq_implies_less)
    ultimately show ?thesis using Transient by (intro exI [of _ n]) (auto split: attempt.splits)
  qed (auto intro!: exI [of _ i])
qed

lemma retry_loop_contract: "retry_contract m (retry_loop m 0)"
  unfolding retry_contract_def
proof
  fix op
  show "\<exists>n. (m = 0 \<or> n \<le> m) \<and> (\<forall>i < n. is_transient (op i)) \<and>
     (case op n of
        Success r \<Rightarrow> retry_loop m 0 op = Inr r
      | Permanent e \<Rightarrow> retry_loop m 0 op = Inl e
      | Transient e \<Rightarrow> retry_loop m 0 op = Inl e \<or>
          (\<exists>s. retry_loop m 0 op = Inl (Canceled s) \<or> retry_loop m 0 op = Inl (DeadlineExceeded s)))"
  proof -
    obtain n where n: "n \<le> m" "\<forall>i < n. is_transient (op i)"
      "case op n of Success r \<Rightarrow> retry_loop m 0 op = Inr r | Permanent e \<Rightarrow> retry_loop m 0 op = Inl e
       | Transient e \<Rightarrow> retry_loop m 0 op = Inl e"
      using retry_loop_spec [of 0 m op] by auto
    then show ?thesis by (intro exI [of _ n]) (auto split: attempt.splits)
  qed
qed

definition example_outcomes :: "nat \<Rightarrow> client_error + http_response" where
  "example_outcomes i = (if i = 0 then Inr \<lparr>hr_status = 503, hr_body = []\<rparr>
     else if i = 1 then Inl (OtherError ''connection reset'') else Inr \<lparr>hr_status = 200, hr_body = ''{}''\<rparr>)"

lemma request_answers_witness:
  "\<exists>n. (3 = (0::nat) \<or> n \<le> 3) \<and> example_outcomes n = Inr \<lparr>hr_status = 200, hr_body = ''{}''\<rparr> \<and>
     (\<forall>i < n. is_transient (attempt_of (\<lambda>_. None) (example_outcomes i)))"
proof -
  have "request (retry_loop 3 0) (\<lambda>_. None) example_outcomes = Inr \<lparr>hr_status = 200, hr_body = ''{}''\<rparr>"
    by (simp add: request_def numeral_3_eq_3 attempt_of_def example_outcomes_def has_error_def)
  moreover have "local_error e" if "example_outcomes i = Inl e" for i e
    using that by (auto simp: example_outcomes_def local_error_def split: if_splits)
  ultimately show ?thesis
    using request_answers [OF retry_loop_contract [of 3], of example_outcomes "\<lambda>_. None"] by simp
qed

text \<open>
  What the comment on \<^verbatim>\<open>request\<close> does not say: it announces retries for answers in the 500s
  only, but an answer in the 300s (or 100s) is repeated as well.
\<close>

lemma redirect_is_retried:
  "is_transient (attempt_of u (Inr \<lparr>hr_status = 304, hr_body = []\<rparr>))"
  by (simp add: attempt_of_def has_error_def)

text \<open>A short node identifier turns an unavailable node into a panic.\<close>

lemma short_node_id_panics:
  "sc_request retry u oc None ''n1'' sid p = Panic"
  by (simp add: sc_request_def sc_node_def)

end
