(* ===== verification/Control_Plane.thy ===== *)
theory Control_Plane
  imports Balancer Server_Config Node_Client
begin

text \<open>
  The state Protocube keeps of its nodes and servers, and the operations on it: the node manager
  and health monitor (\<^verbatim>\<open>protocube/node\<close>), the server manager and the server's clean-up
  (\<^verbatim>\<open>protocube/server/manager.go\<close>, \<^verbatim>\<open>server.go\<close>), and the handlers that call them
  (\<^verbatim>\<open>router_node.go\<close>, \<^verbatim>\<open>router_server.go\<close>, \<^verbatim>\<open>router_system.go\<close>). Node objects are shared between
  the node manager and the balancer, so the balancer holds their identifiers here. Allocators are
  objects with an identity (a re-registration replaces the allocator of a node while closures
  still hold the old one): they live in a heap and are named by their position. Whether a
  database call succeeds and how a request to a daemon ends are arguments.
\<close>

section \<open>State\<close>

record cnode =
  cn_id :: string
  cn_name :: string
  cn_location :: string
  cn_url :: string
  cn_drained :: bool
  cn_alloc :: "nat option"
  cn_client :: node_client
  cn_last_seen :: int
  cn_online :: bool

text \<open>
  The closure in \<^verbatim>\<open>Allocations.Release\<close>: the one made by \<^verbatim>\<open>NewAllocation\<close> holds an allocator, the
  one made on attaching a node holds the node and reads its allocator when called.
\<close>

datatype release = RelAlloc nat | RelNode string

record server =
  sv_id :: string
  sv_node_name :: string
  sv_node_id :: string
  sv_blueprint_id :: string
  sv_overrides :: "overrides option"
  sv_status :: string
  sv_last_crash :: int
  sv_client :: "node_client option"
  sv_config :: server_configuration
  sv_script :: install_script
  sv_release :: "release option"

record server_record =
  rec_id :: string
  rec_node_name :: string
  rec_node_id :: string
  rec_blueprint_id :: string
  rec_overrides :: "overrides option"
  rec_config :: "server_configuration option"
  rec_script :: "install_script option"

datatype event = StatusEvent string | CrashEvent int | DeletedEvent

record control =
  cs_nodes :: "(string, cnode) gomap"
  cs_lb :: "string rr_balancer"
  cs_heap :: "allocator list"
  cs_servers :: "(string, server) gomap"
  cs_db :: "(string, server_record) gomap"
  cs_drained_db :: "string list"
  cs_events :: "(string \<times> event) list"

section \<open>The server manager\<close>

definition server_add :: "server \<Rightarrow> control \<Rightarrow> control" where
  "server_add s c = c\<lparr>cs_servers := gm_set (cs_servers c) (sv_id s) s\<rparr>"

definition server_remove :: "string \<Rightarrow> control \<Rightarrow> control" where
  "server_remove i c = c\<lparr>cs_servers := gm_del (cs_servers c) i\<rparr>"

definition get_server :: "string \<Rightarrow> control \<Rightarrow> server option" where
  "get_server i c = gm_get (cs_servers c) i"

definition all_servers :: "control \<Rightarrow> server list" where
  "all_servers c = gm_values (cs_servers c)"

definition find_server :: "(server \<Rightarrow> bool) \<Rightarrow> control \<Rightarrow> server option" where
  "find_server p c = find p (gm_values (cs_servers c))"

definition servers_by_node :: "string \<Rightarrow> control \<Rightarrow> server list" where
  "servers_by_node nid c = filter (\<lambda>s. sv_node_id s = nid) (gm_values (cs_servers c))"

definition publish_event :: "string \<Rightarrow> event \<Rightarrow> control \<Rightarrow> control" where
  "publish_event sid e c = c\<lparr>cs_events := cs_events c @ [(sid, e)]\<rparr>"

definition set_status :: "string \<Rightarrow> string \<Rightarrow> control \<Rightarrow> control" where
  "set_status sid st c = (case get_server sid c of
     None \<Rightarrow> c
   | Some s \<Rightarrow> publish_event sid (StatusEvent st) (server_add (s\<lparr>sv_status := st\<rparr>) c))"

definition handle_crash_report :: "string \<Rightarrow> int \<Rightarrow> control \<Rightarrow> control" where
  "handle_crash_report sid time c = (case get_server sid c of
     None \<Rightarrow> c
   | Some s \<Rightarrow> publish_event sid (CrashEvent time) (server_add (s\<lparr>sv_last_crash := time\<rparr>) c))"

text \<open>The default mapping of a server's allocation.\<close>

definition server_port :: "server \<Rightarrow> string \<times> int" where
  "server_port s = (ea_default_ip (sc_allocations (sv_config s)), ea_default_port (sc_allocations (sv_config s)))"

definition heap_update :: "nat \<Rightarrow> (allocator \<Rightarrow> allocator) \<Rightarrow> control \<Rightarrow> control" where
  "heap_update a f c = c\<lparr>cs_heap := (cs_heap c)[a := f (cs_heap c ! a)]\<rparr>"

text \<open>Calling a release closure. A node without an allocator is a nil dereference.\<close>

definition run_release :: "release option \<Rightarrow> string \<times> int \<Rightarrow> control \<Rightarrow> control go" where
  "run_release r port c = (case r of
     None \<Rightarrow> Ret c
   | Some (RelAlloc a) \<Rightarrow> Ret (heap_update a (release_port (fst port) (snd port)) c)
   | Some (RelNode nid) \<Rightarrow>
       (case gm_get (cs_nodes c) nid of
          None \<Rightarrow> Ret c
        | Some n \<Rightarrow>
            (case cn_alloc n of
               None \<Rightarrow> Panic
             | Some a \<Rightarrow> Ret (heap_update a (release_port (fst port) (snd port)) c))))"

text \<open>\<^verbatim>\<open>CleanupForDestroy\<close>; the flag is the success of the deletion in the database.\<close>

definition cleanup_for_destroy :: "bool \<Rightarrow> string \<Rightarrow> control \<Rightarrow> control go" where
  "cleanup_for_destroy db_ok sid c = (case get_server sid c of
     None \<Rightarrow> Ret c
   | Some s \<Rightarrow>
       (let c = publish_event sid DeletedEvent c in
        go_bind (run_release (sv_release s) (server_port s) c) (\<lambda>c.
          let c = server_remove sid c in
          Ret (if db_ok then c\<lparr>cs_db := gm_del (cs_db c) sid\<rparr> else c))))"

text \<open>\<^verbatim>\<open>AttachNodeClientToServers\<close>: the loop over the servers of the node.\<close>

fun attach_loop :: "cnode \<Rightarrow> server list \<Rightarrow> control \<Rightarrow> control go" where
  "attach_loop n [] c = Ret c"
| "attach_loop n (s # ss) c =
     (case cn_alloc n of
        None \<Rightarrow> Panic
      | Some a \<Rightarrow>
          attach_loop n ss
            (heap_update a (claim_port (fst (server_port s)) (snd (server_port s)))
              (server_add (s\<lparr>sv_client := Some (cn_client n), sv_node_name := cn_name n,
                             sv_release := Some (RelNode (cn_id n))\<rparr>) c)))"

definition attach_node_client :: "string \<Rightarrow> cnode \<Rightarrow> control \<Rightarrow> control go" where
  "attach_node_client nid n c = attach_loop n (servers_by_node nid c) c"

fun detach_loop :: "server list \<Rightarrow> control \<Rightarrow> control" where
  "detach_loop [] c = c"
| "detach_loop (s # ss) c = detach_loop ss (server_add (s\<lparr>sv_client := None, sv_release := None\<rparr>) c)"

definition detach_node_client :: "string \<Rightarrow> control \<Rightarrow> control" where
  "detach_node_client nid c = detach_loop (servers_by_node nid c) c"

section \<open>Creating and loading servers\<close>

datatype create_error =
    AllocationFailed
  | AllocatorFailed alloc_error
  | BuildFailed build_error
  | StoreFailed
  | DaemonFailed client_error

text \<open>What the outside world does during one creation.\<close>

record create_env =
  ce_id :: string
  ce_shuffle :: "string list \<Rightarrow> string list"
  ce_compile :: "string \<Rightarrow> (string \<Rightarrow> bool) option"
  ce_marshal :: "go_value \<Rightarrow> string option"
  ce_store_ok :: bool
  ce_daemon :: "client_error option"
  ce_remove_ok :: bool

text \<open>The deferred clean-up of a creation that failed after the allocation.\<close>

definition abort_create :: "create_env \<Rightarrow> control \<Rightarrow> control" where
  "abort_create env c =
     (let c = server_remove (ce_id env) c in
      if ce_remove_ok env then c\<lparr>cs_db := gm_del (cs_db c) (ce_id env)\<rparr> else c)"

text \<open>
  \<^verbatim>\<open>CreateServer\<close> on a node. The outer option is \<open>None\<close> where the scan for a port does not return.
\<close>

definition create_server ::
  "create_env \<Rightarrow> cnode \<Rightarrow> blueprint \<Rightarrow> software_registry \<Rightarrow> overrides option \<Rightarrow> control \<Rightarrow>
     ((create_error + server) \<times> control) go option" where
  "create_server env n bp swr ov c =
     (case cn_alloc n of
        None \<Rightarrow> Some (Ret (Inl AllocationFailed, c))
      | Some a \<Rightarrow>
          (case new_allocation (ce_shuffle env) (cs_heap c ! a) of
             None \<Rightarrow> None
           | Some (Inl e, al) \<Rightarrow> Some (Ret (Inl (AllocatorFailed e), heap_update a (\<lambda>_. al) c))
           | Some (Inr alloc, al) \<Rightarrow>
               (let c = heap_update a (\<lambda>_. al) c in
                case build_server_configuration (ce_compile env) (ce_marshal env) (ce_id env) ov bp swr alloc of
                  Panic \<Rightarrow> Some Panic
                | Ret (Inl e) \<Rightarrow> Some (Ret (Inl (BuildFailed e), abort_create env c))
                | Ret (Inr (cfg, script)) \<Rightarrow>
                    (let s = \<lparr>sv_id = ce_id env, sv_node_name = cn_name n, sv_node_id = cn_id n,
                              sv_blueprint_id = me_id (bp_meta bp), sv_overrides = ov, sv_status = [],
                              sv_last_crash = 0, sv_client = Some (cn_client n), sv_config = cfg,
                              sv_script = script, sv_release = Some (RelAlloc a)\<rparr>;
                         c = server_add s c
                     in if \<not> ce_store_ok env then Some (Ret (Inl StoreFailed, abort_create env c))
                        else
                          (let c = c\<lparr>cs_db := gm_set (cs_db c) (ce_id env)
                                 \<lparr>rec_id = ce_id env, rec_node_name = cn_name n, rec_node_id = cn_id n,
                                  rec_blueprint_id = me_id (bp_meta bp), rec_overrides = ov,
                                  rec_config = Some cfg, rec_script = Some script\<rparr>\<rparr>
                           in case ce_daemon env of
                                Some e \<Rightarrow> Some (Ret (Inl (DaemonFailed e), abort_create env c))
                              | None \<Rightarrow> Some (Ret (Inr s, c)))))))"

definition validate_record :: "server_record \<Rightarrow> string option" where
  "validate_record r =
     (if rec_config r = None then Some ''server configuration is missing''
      else if rec_script r = None then Some ''server install script is missing''
      else None)"

text \<open>\<^verbatim>\<open>InitServer\<close> for a stored record; the node is present only if it has connected already.\<close>

definition init_server :: "server_record \<Rightarrow> control \<Rightarrow> ((string + server) \<times> control) go" where
  "init_server r c = (case validate_record r of
     Some e \<Rightarrow> Ret (Inl e, c)
   | None \<Rightarrow>
       (case (rec_config r, rec_script r) of
          (Some cfg, Some script) \<Rightarrow>
            (let s = \<lparr>sv_id = rec_id r, sv_node_name = rec_node_name r, sv_node_id = rec_node_id r,
                      sv_blueprint_id = rec_blueprint_id r, sv_overrides = rec_overrides r, sv_status = [],
                      sv_last_crash = 0, sv_client = None, sv_config = cfg, sv_script = script,
                      sv_release = None\<rparr>
             in case gm_get (cs_nodes c) (rec_node_id r) of
                  None \<Rightarrow> Ret (Inr s, c)
                | Some n \<Rightarrow>
                    (case cn_alloc n of
                       None \<Rightarrow> Panic
                     | Some a \<Rightarrow>
                         Ret (Inr (s\<lparr>sv_client := Some (cn_client n), sv_node_name := cn_name n,
                                      sv_release := Some (RelNode (cn_id n))\<rparr>),
                              heap_update a (claim_port (fst (server_port s)) (snd (server_port s))) c)))
        | _ \<Rightarrow> Ret (Inl ''unreachable'', c)))"

fun init_servers :: "server_record list \<Rightarrow> control \<Rightarrow> control go" where
  "init_servers [] c = Ret c"
| "init_servers (r # rs) c =
     go_bind (init_server r c) (\<lambda>(res, c).
       case res of Inl _ \<Rightarrow> init_servers rs c | Inr s \<Rightarrow> init_servers rs (server_add s c))"

section \<open>The node manager\<close>

record registration =
  rg_id :: string
  rg_name :: string
  rg_location :: string
  rg_url :: string
  rg_allocations :: "model_allocation list"

definition validate_registration :: "registration \<Rightarrow> string option" where
  "validate_registration r =
     (if rg_id r = [] then Some ''Node ID cannot be blank''
      else if rg_name r = [] then Some ''Node url cannot be blank''
      else None)"

definition node_add :: "cnode \<Rightarrow> control \<Rightarrow> control" where
  "node_add n c = c\<lparr>cs_nodes := gm_set (cs_nodes c) (cn_id n) n\<rparr>"

definition node_remove :: "string \<Rightarrow> control \<Rightarrow> control" where
  "node_remove i c = c\<lparr>cs_nodes := gm_del (cs_nodes c) i\<rparr>"

definition get_node :: "string \<Rightarrow> control \<Rightarrow> cnode option" where
  "get_node i c = gm_get (cs_nodes c) i"

definition get_nodes :: "control \<Rightarrow> cnode list" where
  "get_nodes c = gm_values (cs_nodes c)"

definition is_registered :: "string \<Rightarrow> control \<Rightarrow> bool" where
  "is_registered i c = gm_has (cs_nodes c) i"

text \<open>\<^verbatim>\<open>loadDrainedState\<close>: without a row the node is not drained; on a failure the flag stays.\<close>

definition load_drained :: "bool \<Rightarrow> control \<Rightarrow> cnode \<Rightarrow> cnode" where
  "load_drained db_ok c n = (if db_ok then n\<lparr>cn_drained := (cn_id n \<in> set (cs_drained_db c))\<rparr> else n)"

text \<open>\<^verbatim>\<open>Manager.Register\<close> with the callback \<^verbatim>\<open>cmd/root.go\<close> installs; \<open>a\<close> names the new allocator.\<close>

definition register_node ::
  "bool \<Rightarrow> int \<Rightarrow> registration \<Rightarrow> string \<Rightarrow> nat \<Rightarrow> control \<Rightarrow> control go" where
  "register_node db_ok now r token a c =
     (let n = \<lparr>cn_id = rg_id r, cn_name = rg_name r, cn_location = rg_location r, cn_url = rg_url r,
               cn_drained = False, cn_alloc = Some a,
               cn_client = \<lparr>nc_node_id = rg_id r, nc_url = rg_url r, nc_token = token\<rparr>,
               cn_last_seen = now, cn_online = True\<rparr>;
          n = load_drained db_ok c n
      in go_bind (add_node (\<lambda>i. i) (cn_id n) (cs_lb c)) (\<lambda>lb.
           let c = node_add n (c\<lparr>cs_lb := lb\<rparr>) in attach_node_client (rg_id r) n c))"

definition disconnect_node :: "string \<Rightarrow> control \<Rightarrow> control go" where
  "disconnect_node nid c =
     go_bind (remove_node (\<lambda>i. i) nid (cs_lb c)) (\<lambda>lb.
       Ret (node_remove nid (detach_node_client nid (c\<lparr>cs_lb := lb\<rparr>))))"

definition heartbeat :: "int \<Rightarrow> string \<Rightarrow> control \<Rightarrow> control" where
  "heartbeat now nid c = (case get_node nid c of
     None \<Rightarrow> c | Some n \<Rightarrow> node_add (n\<lparr>cn_last_seen := now\<rparr>) c)"

definition health_timeout :: int where "health_timeout = 15 * 10 ^ 9"

fun disconnect_all :: "string list \<Rightarrow> control \<Rightarrow> control go" where
  "disconnect_all [] c = Ret c"
| "disconnect_all (i # is) c = go_bind (disconnect_node i c) (disconnect_all is)"

text \<open>One tick of the health monitor, on a clock in nanoseconds.\<close>

definition timed_out :: "int \<Rightarrow> control \<Rightarrow> string list" where
  "timed_out now c = map cn_id (filter (\<lambda>n. now - cn_last_seen n > health_timeout) (get_nodes c))"

definition health_tick :: "int \<Rightarrow> control \<Rightarrow> control go" where
  "health_tick now c = disconnect_all (timed_out now c) c"

text \<open>\<^verbatim>\<open>SetDrained\<close> writes the database first and leaves memory alone if that fails.\<close>

definition set_drained :: "bool \<Rightarrow> bool \<Rightarrow> string \<Rightarrow> control \<Rightarrow> bool \<times> control" where
  "set_drained db_ok drained nid c = (case get_node nid c of
     None \<Rightarrow> (False, c)
   | Some n \<Rightarrow>
       (if \<not> db_ok then (False, c)
        else (True, node_add (n\<lparr>cn_drained := drained\<rparr>)
           (c\<lparr>cs_drained_db := (if drained then List.insert nid (cs_drained_db c)
                               else removeAll nid (cs_drained_db c))\<rparr>))))"

definition node_drained :: "control \<Rightarrow> string \<Rightarrow> bool" where
  "node_drained c i = (case get_node i c of None \<Rightarrow> False | Some n \<Rightarrow> cn_drained n)"

section \<open>Handlers\<close>

datatype response = RespOk | RespToken string | RespServer string | RespError int

text \<open>
  \<^verbatim>\<open>postNodeRegister\<close>. The allocator of a node that is already known is assigned before its
  error is looked at; \<^verbatim>\<open>GenerateKey\<close> yields \<open>token\<close> or fails.
\<close>

definition post_node_register ::
  "bool \<Rightarrow> int \<Rightarrow> string option \<Rightarrow> registration \<Rightarrow> control \<Rightarrow> (response \<times> control) go" where
  "post_node_register db_ok now token r c =
     (if validate_registration r \<noteq> None then Ret (RespError 400, c)
      else
        (case get_node (rg_id r) c of
           Some n \<Rightarrow>
             (case new_allocator (rg_allocations r) of
                Inl e \<Rightarrow> Ret (RespError 500, node_add (n\<lparr>cn_alloc := None\<rparr>) c)
              | Inr al \<Rightarrow>
                  (let a = length (cs_heap c);
                       n = n\<lparr>cn_alloc := Some a\<rparr>;
                       c = node_add n (c\<lparr>cs_heap := cs_heap c @ [al]\<rparr>)
                   in go_bind (attach_node_client (rg_id r) n c)
                        (\<lambda>c. Ret (RespToken (nc_token (cn_client n)), c))))
         | None \<Rightarrow>
             (case token of
                None \<Rightarrow> Ret (RespError 500, c)
              | Some t \<Rightarrow>
                  (case new_allocator (rg_allocations r) of
                     Inl e \<Rightarrow> Ret (RespError 500, c)
                   | Inr al \<Rightarrow>
                       go_bind (register_node db_ok now r t (length (cs_heap c)) (c\<lparr>cs_heap := cs_heap c @ [al]\<rparr>))
                         (\<lambda>c. Ret (RespToken t, c))))))"

text \<open>
  \<^verbatim>\<open>postCreateServer\<close>; an error of a creation is answered by \<^verbatim>\<open>client.HandleError\<close>, to which
  everything but the node's answer is some other error.
\<close>

definition create_client_error :: "create_error \<Rightarrow> client_error" where
  "create_client_error e = (case e of
     AllocationFailed \<Rightarrow> OtherError ''failed to create allocation: allocator is nil''
   | AllocatorFailed _ \<Rightarrow> OtherError ''failed to create allocation''
   | BuildFailed _ \<Rightarrow> OtherError ''failed to build configuration''
   | StoreFailed \<Rightarrow> OtherError ''failed to store server''
   | DaemonFailed ce \<Rightarrow> ce)"

definition post_create_server ::
  "create_env \<Rightarrow> string \<Rightarrow> string \<Rightarrow> overrides option \<Rightarrow> blueprint_registry \<Rightarrow> software_registry \<Rightarrow> control \<Rightarrow>
     (response \<times> control) go option" where
  "post_create_server env node_id blueprint_id ov br swr c =
     (case (if node_id \<noteq> [] then Ret (map_option cn_id (get_node node_id c), c)
            else go_bind (pick_node (node_drained c) (cs_lb c)) (\<lambda>(r, lb). Ret (r, c\<lparr>cs_lb := lb\<rparr>))) of
        Panic \<Rightarrow> Some Panic
      | Ret (None, c) \<Rightarrow> Some (Ret (RespError (if node_id \<noteq> [] then 404 else 503), c))
      | Ret (Some i, c) \<Rightarrow>
          (case get_node i c of
             None \<Rightarrow> Some (Ret (RespError 500, c))
           | Some n \<Rightarrow>
               (case br_get blueprint_id br of
                  None \<Rightarrow> Some (Ret (RespError 404, c))
                | Some bp \<Rightarrow>
                    (case create_server env n bp swr ov c of
                       None \<Rightarrow> None
                     | Some Panic \<Rightarrow> Some Panic
                     | Some (Ret (Inl e, c)) \<Rightarrow>
                         Some (Ret (RespError (fst (handle_error (create_client_error e))), c))
                     | Some (Ret (Inr s, c)) \<Rightarrow> Some (Ret (RespServer (sv_id s), c))))))"

text \<open>
  \<^verbatim>\<open>deleteServer\<close>: the daemon deletes the server and reports back later; \<open>force\<close> cleans up when it
  cannot be reached. \<open>daemon\<close> is the error of the request, if the node is connected.
\<close>

definition delete_server ::
  "client_error option \<Rightarrow> bool \<Rightarrow> bool \<Rightarrow> string \<Rightarrow> control \<Rightarrow> (response \<times> control) go" where
  "delete_server daemon db_ok force sid c = (case get_server sid c of
     None \<Rightarrow> Ret (RespError 404, c)
   | Some s \<Rightarrow>
       go_bind (sc_node (sv_client s) (sv_node_id s) sid) (\<lambda>r.
         case (case r of Inl e \<Rightarrow> Some e | Inr _ \<Rightarrow> daemon) of
           None \<Rightarrow> Ret (RespOk, c)
         | Some e \<Rightarrow>
             (if force then go_bind (cleanup_for_destroy db_ok sid c) (\<lambda>c. Ret (RespOk, c))
              else Ret (RespError (fst (handle_error e)), c))))"

end

