(* ===== verification/Control_Invariant.thy ===== *)
theory Control_Invariant
  imports Control_Plane
begin

text \<open>
  What the operations of \<^verbatim>\<open>Control_Plane\<close> keep: the balancer knows exactly the connected nodes,
  a server is attached exactly while its node is connected, no two servers of a node have the
  same address and port, and every offered port of a server of a connected node is held in the
  node's allocator. A handler is one step here; \<^verbatim>\<open>registerMutex\<close> and the locks of the managers
  and allocators make this an approximation only between different handlers.
\<close>

section \<open>The invariant\<close>

definition heap_at :: "control \<Rightarrow> nat \<Rightarrow> allocator" where
  "heap_at c a = cs_heap c ! a"

definition release_ok :: "control \<Rightarrow> server \<Rightarrow> bool" where
  "release_ok c s \<longleftrightarrow> sv_release s = Some (RelNode (sv_node_id s)) \<or>
     (\<exists>a. sv_release s = Some (RelAlloc a) \<and> a < length (cs_heap c) \<and>
        (\<forall>j m. get_node j c = Some m \<longrightarrow> cn_alloc m = Some a \<longrightarrow> j = sv_node_id s))"

definition attached_ok :: "control \<Rightarrow> server \<Rightarrow> bool" where
  "attached_ok c s \<longleftrightarrow> (case get_node (sv_node_id s) c of
     None \<Rightarrow> sv_client s = None \<and> sv_release s = None
   | Some n \<Rightarrow> sv_client s = Some (cn_client n) \<and> release_ok c s \<and>
       (\<forall>a. cn_alloc n = Some a \<longrightarrow> server_port s \<in> offered (heap_at c a) \<longrightarrow> server_port s \<in> held (heap_at c a)))"

definition ports_distinct :: "control \<Rightarrow> bool" where
  "ports_distinct c \<longleftrightarrow> (\<forall>i j s t. get_server i c = Some s \<longrightarrow> get_server j c = Some t \<longrightarrow>
     sv_node_id s = sv_node_id t \<longrightarrow> server_port s = server_port t \<longrightarrow> i = j)"

definition nodes_ok :: "control \<Rightarrow> bool" where
  "nodes_ok c \<longleftrightarrow> gm_wf (cs_nodes c) \<and>
     (\<forall>i n. get_node i c = Some n \<longrightarrow> cn_id n = i) \<and>
     (\<forall>i n a. get_node i c = Some n \<longrightarrow> cn_alloc n = Some a \<longrightarrow> a < length (cs_heap c)) \<and>
     (\<forall>i j n m a. get_node i c = Some n \<longrightarrow> get_node j c = Some m \<longrightarrow>
        cn_alloc n = Some a \<longrightarrow> cn_alloc m = Some a \<longrightarrow> i = j) \<and>
     (\<forall>al \<in> set (cs_heap c). alloc_inv al)"

definition balancer_ok :: "control \<Rightarrow> bool" where
  "balancer_ok c \<longleftrightarrow> rr_inv (\<lambda>i. i) (cs_lb c) \<and>
     (\<forall>i. rr_abs (\<lambda>i. i) (cs_lb c) i \<noteq> None \<longleftrightarrow> get_node i c \<noteq> None)"

definition servers_ok :: "control \<Rightarrow> bool" where
  "servers_ok c \<longleftrightarrow> gm_wf (cs_servers c) \<and>
     (\<forall>i s. get_server i c = Some s \<longrightarrow> sv_id s = i \<and> attached_ok c s) \<and> ports_distinct c"

definition control_inv :: "control \<Rightarrow> bool" where
  "control_inv c \<longleftrightarrow> nodes_ok c \<and> balancer_ok c \<and> servers_ok c"

text \<open>How the parts of the state move under the elementary updates.\<close>

lemma get_server_simps [simp]:
  "get_server i (server_add s c) = (if i = sv_id s then Some s else get_server i c)"
  "get_server i (server_remove j c) = (if i = j then None else get_server i c)"
  "get_server i (heap_update a f c) = get_server i c"
  "get_server i (publish_event k e c) = get_server i c"
  "get_server i (node_add n c) = get_server i c"
  "get_server i (node_remove j c) = get_server i c"
  by (simp_all add: get_server_def server_add_def server_remove_def heap_update_def publish_event_def
      node_add_def node_remove_def)

lemma get_server_upd [simp]:
  "get_server i (c\<lparr>cs_db := d\<rparr>) = get_server i c"
  "get_server i (c\<lparr>cs_lb := b\<rparr>) = get_server i c"
  "get_server i (c\<lparr>cs_heap := h\<rparr>) = get_server i c"
  "get_server i (c\<lparr>cs_drained_db := dd\<rparr>) = get_server i c"
  by (simp_all add: get_server_def)

lemma get_node_simps [simp]:
  "get_node i (node_add n c) = (if i = cn_id n then Some n else get_node i c)"
  "get_node i (node_remove j c) = (if i = j then None else get_node i c)"
  "get_node i (server_add s c) = get_node i c"
  "get_node i (server_remove j c) = get_node i c"
  "get_node i (heap_update a f c) = get_node i c"
  "get_node i (publish_event k e c) = get_node i c"
  by (simp_all add: get_node_def server_add_def server_remove_def heap_update_def publish_event_def
      node_add_def node_remove_def)

lemma get_node_upd [simp]:
  "get_node i (c\<lparr>cs_db := d\<rparr>) = get_node i c"
  "get_node i (c\<lparr>cs_lb := b\<rparr>) = get_node i c"
  "get_node i (c\<lparr>cs_heap := h\<rparr>) = get_node i c"
  "get_node i (c\<lparr>cs_drained_db := dd\<rparr>) = get_node i c"
  by (simp_all add: get_node_def)

lemma heap_simps [simp]:
  "cs_heap (server_add s c) = cs_heap c" "cs_heap (server_remove j c) = cs_heap c"
  "cs_heap (publish_event k e c) = cs_heap c" "cs_heap (node_add n c) = cs_heap c"
  "cs_heap (node_remove j c) = cs_heap c"
  "cs_heap (heap_update a f c) = (cs_heap c)[a := f (cs_heap c ! a)]"
  by (simp_all add: server_add_def server_remove_def heap_update_def publish_event_def node_add_def node_remove_def)

lemma lb_simps [simp]:
  "cs_lb (server_add s c) = cs_lb c" "cs_lb (server_remove j c) = cs_lb c"
  "cs_lb (publish_event k e c) = cs_lb c" "cs_lb (node_add n c) = cs_lb c"
  "cs_lb (node_remove j c) = cs_lb c" "cs_lb (heap_update a f c) = cs_lb c"
  by (simp_all add: server_add_def server_remove_def heap_update_def publish_event_def node_add_def node_remove_def)

lemma servers_simps [simp]:
  "gm_wf (cs_servers c) \<Longrightarrow> gm_wf (cs_servers (server_add s c))"
  "gm_wf (cs_servers c) \<Longrightarrow> gm_wf (cs_servers (server_remove j c))"
  "cs_servers (publish_event k e c) = cs_servers c" "cs_servers (node_add n c) = cs_servers c"
  "cs_servers (node_remove j c) = cs_servers c" "cs_servers (heap_update a f c) = cs_servers c"
  by (simp_all add: server_add_def server_remove_def heap_update_def publish_event_def node_add_def node_remove_def)

lemma nodes_simps [simp]:
  "gm_wf (cs_nodes c) \<Longrightarrow> gm_wf (cs_nodes (node_add n c))"
  "gm_wf (cs_nodes c) \<Longrightarrow> gm_wf (cs_nodes (node_remove j c))"
  "cs_nodes (publish_event k e c) = cs_nodes c" "cs_nodes (server_add s c) = cs_nodes c"
  "cs_nodes (server_remove j c) = cs_nodes c" "cs_nodes (heap_update a f c) = cs_nodes c"
  by (simp_all add: server_add_def server_remove_def heap_update_def publish_event_def node_add_def node_remove_def)

lemma db_simps [simp]:
  "cs_db (publish_event k e c) = cs_db c" "cs_db (server_add s c) = cs_db c"
  "cs_db (server_remove j c) = cs_db c" "cs_db (heap_update a f c) = cs_db c"
  by (simp_all add: server_add_def server_remove_def heap_update_def publish_event_def)

lemma heap_at_simps [simp]:
  "heap_at (server_add s c) a = heap_at c a" "heap_at (server_remove j c) a = heap_at c a"
  "heap_at (publish_event k e c) a = heap_at c a" "heap_at (node_add n c) a = heap_at c a"
  "heap_at (node_remove j c) a = heap_at c a" "heap_at (c\<lparr>cs_lb := b\<rparr>) a = heap_at c a"
  "heap_at (c\<lparr>cs_db := d\<rparr>) a = heap_at c a" "heap_at (c\<lparr>cs_drained_db := dd\<rparr>) a = heap_at c a"
  by (simp_all add: heap_at_def)

lemma heap_at_update: "a < length (cs_heap c) \<Longrightarrow>
    heap_at (heap_update a f c) b = (if b = a then f (heap_at c a) else heap_at c b)"
  by (simp add: heap_at_def)

section \<open>Attaching and detaching\<close>

lemma find_key_None: "find (\<lambda>x. f x = k) xs = None \<longleftrightarrow> k \<notin> f ` set xs"
  by (auto simp: find_None_iff)

lemma option_eqI: "(\<And>s. x = Some s \<longleftrightarrow> y = Some s) \<Longrightarrow> x = y"
  by (cases x; cases y) auto

lemma find_key_Some:
  "distinct (map f xs) \<Longrightarrow> find (\<lambda>x. f x = k) xs = Some x \<longleftrightarrow> x \<in> set xs \<and> f x = k"
  by (induction xs) auto

lemma servers_by_node_set:
  "gm_wf (cs_servers c) \<Longrightarrow> set (servers_by_node nid c) = {s. sv_node_id s = nid \<and> (\<exists>i. get_server i c = Some s)}"
  by (auto simp: servers_by_node_def set_gm_values get_server_def)

lemma servers_by_node_distinct:
  assumes "gm_wf (cs_servers c)" "\<And>i s. get_server i c = Some s \<Longrightarrow> sv_id s = i"
  shows "distinct (map sv_id (servers_by_node nid c))"
proof -
  have "map sv_id (gm_values (cs_servers c)) = map fst (cs_servers c)"
    using assms by (auto simp: gm_values_def get_server_def gm_get_in)
  then have "distinct (map sv_id (gm_values (cs_servers c)))"
    using assms(1) by (simp add: gm_wf_def)
  then show ?thesis unfolding servers_by_node_def by (rule distinct_map_filter)
qed

definition attached :: "cnode \<Rightarrow> server \<Rightarrow> server" where
  "attached n s = s\<lparr>sv_client := Some (cn_client n), sv_node_name := cn_name n, sv_release := Some (RelNode (cn_id n))\<rparr>"

lemma attached_simps [simp]:
  "sv_id (attached n s) = sv_id s" "sv_node_id (attached n s) = sv_node_id s"
  "server_port (attached n s) = server_port s" "sv_client (attached n s) = Some (cn_client n)"
  "sv_release (attached n s) = Some (RelNode (cn_id n))"
  by (simp_all add: attached_def server_port_def)

text \<open>What the loop of \<^verbatim>\<open>AttachNodeClientToServers\<close> does when the node has an allocator.\<close>

definition attach_result :: "cnode \<Rightarrow> nat \<Rightarrow> server list \<Rightarrow> control \<Rightarrow> control \<Rightarrow> bool" where
  "attach_result n a ss c c' \<longleftrightarrow> cs_nodes c' = cs_nodes c \<and> cs_lb c' = cs_lb c \<and>
     length (cs_heap c') = length (cs_heap c) \<and> (\<forall>b. b \<noteq> a \<longrightarrow> heap_at c' b = heap_at c b) \<and>
     ac_allocations (heap_at c' a) = ac_allocations (heap_at c a) \<and>
     held (heap_at c' a) = held (heap_at c a) \<union> (server_port ` set ss \<inter> offered (heap_at c a)) \<and>
     alloc_inv (heap_at c' a) \<and> gm_wf (cs_servers c') \<and>
     (\<forall>i. get_server i c' = (case find (\<lambda>s. sv_id s = i) ss of None \<Rightarrow> get_server i c | Some s \<Rightarrow> Some (attached n s)))"

lemma offered_claim [simp]: "offered (claim_port ad p x) = offered x"
  using claim_port_held [of ad p x] by (simp add: offered_def)

lemma attach_loop_spec:
  assumes "cn_alloc n = Some a" "a < length (cs_heap c)" "alloc_inv (heap_at c a)"
    "gm_wf (cs_servers c)" "distinct (map sv_id ss)"
  shows "\<exists>c'. attach_loop n ss c = Ret c' \<and> attach_result n a ss c c'"
  using assms
proof (induction ss arbitrary: c)
  case Nil
  then show ?case by (simp add: attach_result_def)
next
  case (Cons s ss)
  let ?cl = "claim_port (fst (server_port s)) (snd (server_port s))"
  let ?c1 = "heap_update a ?cl (server_add (attached n s) c)"
  have at: "heap_at ?c1 b = (if b = a then ?cl (heap_at c a) else heap_at c b)" for b
    using Cons.prems(2) by (simp add: heap_at_update)
  have inv1: "alloc_inv (heap_at ?c1 a)" using Cons.prems(3) by (simp add: at alloc_inv_claim)
  have "\<exists>c'. attach_loop n ss ?c1 = Ret c' \<and> attach_result n a ss ?c1 c'"
    by (rule Cons.IH) (use Cons.prems inv1 in auto)
  then obtain c' where c': "attach_loop n ss ?c1 = Ret c'" "attach_result n a ss ?c1 c'" by blast
  have notin: "find (\<lambda>t. sv_id t = sv_id s) ss = None"
    using Cons.prems(5) by (simp add: find_key_None)
  have cl: "held (?cl x) = (if server_port s \<in> offered x then insert (server_port s) (held x) else held x)"
      "ac_allocations (?cl x) = ac_allocations x" for x
    using claim_port_held [of "fst (server_port s)" "snd (server_port s)" x] by simp_all
  have hd: "held (heap_at c' a) = held (heap_at c a) \<union> (server_port ` set (s # ss) \<inter> offered (heap_at c a))"
    using c'(2) cl [of "heap_at c a"] by (auto simp: attach_result_def at)
  have al: "ac_allocations (heap_at c' a) = ac_allocations (heap_at c a)"
    using c'(2) cl [of "heap_at c a"] by (simp add: attach_result_def at)
  have gs: "get_server i c' = (case find (\<lambda>s. sv_id s = i) (s # ss) of
      None \<Rightarrow> get_server i c | Some s \<Rightarrow> Some (attached n s))" for i
    using c'(2) notin by (auto simp: attach_result_def split: option.splits)
  have "attach_result n a (s # ss) c c'"
    using c'(2) unfolding attach_result_def hd al gs by (simp add: at)
  moreover have "attach_loop n (s # ss) c = Ret c'"
    using c'(1) Cons.prems(1) by (simp add: attached_def)
  ultimately show ?case by blast
qed

definition detached :: "server \<Rightarrow> server" where
  "detached s = s\<lparr>sv_client := None, sv_release := None\<rparr>"

lemma detached_simps [simp]:
  "sv_id (detached s) = sv_id s" "sv_node_id (detached s) = sv_node_id s"
  "server_port (detached s) = server_port s" "sv_client (detached s) = None" "sv_release (detached s) = None"
  by (simp_all add: detached_def server_port_def)

lemma detach_loop_spec:
  assumes "gm_wf (cs_servers c)" "distinct (map sv_id ss)"
  shows "cs_nodes (detach_loop ss c) = cs_nodes c \<and> cs_lb (detach_loop ss c) = cs_lb c \<and>
     cs_heap (detach_loop ss c) = cs_heap c \<and> gm_wf (cs_servers (detach_loop ss c)) \<and>
     (\<forall>i. get_server i (detach_loop ss c) =
        (case find (\<lambda>s. sv_id s = i) ss of None \<Rightarrow> get_server i c | Some s \<Rightarrow> Some (detached s)))"
  using assms
proof (induction ss arbitrary: c)
  case (Cons s ss)
  have notin: "find (\<lambda>t. sv_id t = sv_id s) ss = None"
    using Cons.prems(2) by (simp add: find_key_None)
  have "gm_wf (cs_servers (server_add (detached s) c))" "distinct (map sv_id ss)"
    using Cons.prems by simp_all
  note ih = Cons.IH [OF this]
  have "detach_loop (s # ss) c = detach_loop ss (server_add (detached s) c)" by (simp add: detached_def)
  then show ?case using ih notin by (auto split: option.splits)
qed simp

text \<open>The loops visit exactly the servers of the node.\<close>

lemma find_servers_by_node:
  assumes "gm_wf (cs_servers c)" "\<And>i s. get_server i c = Some s \<Longrightarrow> sv_id s = i"
  shows "find (\<lambda>s. sv_id s = i) (servers_by_node nid c) =
    (case get_server i c of Some s \<Rightarrow> (if sv_node_id s = nid then Some s else None) | None \<Rightarrow> None)"
proof -
  note d = servers_by_node_distinct [OF assms] and st = servers_by_node_set [OF assms(1), of nid]
  have "find (\<lambda>s. sv_id s = i) (servers_by_node nid c) = Some s \<longleftrightarrow> get_server i c = Some s \<and> sv_node_id s = nid" for s
    using find_key_Some [OF d [of nid], of i s] st assms(2) by blast
  then show ?thesis by (intro option_eqI) (auto split: option.splits)
qed

lemma control_invD:
  assumes "control_inv c"
  shows "gm_wf (cs_servers c)" "gm_wf (cs_nodes c)"
    and "get_server i c = Some s \<Longrightarrow> sv_id s = i"
    and "get_server i c = Some s \<Longrightarrow> attached_ok c s"
    and "get_node i c = Some n \<Longrightarrow> cn_id n = i"
    and "get_node i c = Some n \<Longrightarrow> cn_alloc n = Some a \<Longrightarrow> a < length (cs_heap c)"
    and "get_node i c = Some n \<Longrightarrow> cn_alloc n = Some a \<Longrightarrow> alloc_inv (heap_at c a)"
    and "a < length (cs_heap c) \<Longrightarrow> alloc_inv (heap_at c a)"
    and "rr_inv (\<lambda>i. i) (cs_lb c)" "ports_distinct c"
  using assms unfolding control_inv_def nodes_ok_def servers_ok_def balancer_ok_def heap_at_def
  by (blast intro: nth_mem)+

lemma attach_node_client_spec:
  assumes "cn_alloc n = Some a" "a < length (cs_heap c)" "alloc_inv (heap_at c a)"
    and wf: "gm_wf (cs_servers c)" "\<And>i s. get_server i c = Some s \<Longrightarrow> sv_id s = i"
  obtains c' where "attach_node_client nid n c = Ret c'"
    "cs_nodes c' = cs_nodes c" "cs_lb c' = cs_lb c" "length (cs_heap c') = length (cs_heap c)"
    "\<And>b. b \<noteq> a \<Longrightarrow> heap_at c' b = heap_at c b"
    "offered (heap_at c' a) = offered (heap_at c a)"
    "held (heap_at c' a) = held (heap_at c a) \<union>
       ({server_port s | s i. get_server i c = Some s \<and> sv_node_id s = nid} \<inter> offered (heap_at c a))"
    "alloc_inv (heap_at c' a)" "gm_wf (cs_servers c')"
    "\<And>i. get_server i c' = map_option (\<lambda>s. if sv_node_id s = nid then attached n s else s) (get_server i c)"
proof -
  note d = servers_by_node_distinct [OF wf, of nid]
  from attach_loop_spec [OF assms(1-4) d] obtain c' where
    c': "attach_loop n (servers_by_node nid c) c = Ret c'" "attach_result n a (servers_by_node nid c) c c'" by blast
  have set: "server_port ` set (servers_by_node nid c) = {server_port s | s i. get_server i c = Some s \<and> sv_node_id s = nid}"
    unfolding servers_by_node_set [OF wf(1)] by blast
  have gs: "get_server i c' = map_option (\<lambda>s. if sv_node_id s = nid then attached n s else s) (get_server i c)" for i
    using c'(2) find_servers_by_node [OF wf, of i nid]
    by (auto simp: attach_result_def split: option.splits)
  show ?thesis
    by (rule that [of c'])
      (use c' gs set in \<open>auto simp: attach_node_client_def attach_result_def offered_def\<close>)
qed

lemma detach_node_client_spec:
  assumes wf: "gm_wf (cs_servers c)" "\<And>i s. get_server i c = Some s \<Longrightarrow> sv_id s = i"
  shows "cs_nodes (detach_node_client nid c) = cs_nodes c" "cs_lb (detach_node_client nid c) = cs_lb c"
    "cs_heap (detach_node_client nid c) = cs_heap c" "gm_wf (cs_servers (detach_node_client nid c))"
    "get_server i (detach_node_client nid c) =
       map_option (\<lambda>s. if sv_node_id s = nid then detached s else s) (get_server i c)"
  using detach_loop_spec [OF wf(1) servers_by_node_distinct [OF wf, of nid]] find_servers_by_node [OF wf, of i nid]
  by (auto simp: detach_node_client_def split: option.splits)

section \<open>Every operation keeps the invariant\<close>

lemma control_inv_cong:
  assumes "cs_nodes c' = cs_nodes c" "cs_servers c' = cs_servers c" "cs_lb c' = cs_lb c" "cs_heap c' = cs_heap c"
  shows "control_inv c' = control_inv c"
proof -
  have eq: "get_node i c' = get_node i c" "get_server i c' = get_server i c" "heap_at c' a = heap_at c a" for i a
    using assms by (simp_all add: get_node_def get_server_def heap_at_def)
  show ?thesis
    unfolding control_inv_def nodes_ok_def balancer_ok_def servers_ok_def attached_ok_def release_ok_def
      ports_distinct_def eq assms ..
qed

lemma control_inv_irrelevant:
  "control_inv (publish_event k e c) = control_inv c"
  "control_inv (c\<lparr>cs_db := d\<rparr>) = control_inv c"
  "control_inv (c\<lparr>cs_drained_db := dd\<rparr>) = control_inv c"
  by (rule control_inv_cong; simp)+

lemma control_inv_lb:
  assumes "control_inv c" "rr_inv (\<lambda>i. i) b" "rr_abs (\<lambda>i. i) b = rr_abs (\<lambda>i. i) (cs_lb c)"
  shows "control_inv (c\<lparr>cs_lb := b\<rparr>)"
proof -
  let ?c = "c\<lparr>cs_lb := b\<rparr>"
  have eq: "cs_nodes ?c = cs_nodes c" "cs_servers ?c = cs_servers c" "cs_lb ?c = b" "cs_heap ?c = cs_heap c"
    "get_node i ?c = get_node i c" "get_server i ?c = get_server i c" "heap_at ?c a = heap_at c a" for i a
    by simp_all
  have "nodes_ok ?c = nodes_ok c" unfolding nodes_ok_def eq ..
  moreover have "servers_ok ?c = servers_ok c"
    unfolding servers_ok_def attached_ok_def release_ok_def ports_distinct_def eq ..
  moreover have "balancer_ok ?c"
    using assms by (simp add: balancer_ok_def control_inv_def)
  ultimately show ?thesis using assms(1) by (simp add: control_inv_def)
qed

lemma node_add_same:
  assumes inv: "control_inv c" and n: "get_node i c = Some n"
    and m: "cn_id m = cn_id n" "cn_alloc m = cn_alloc n" "cn_client m = cn_client n"
  shows "control_inv (node_add m c)"
proof -
  have i: "cn_id n = i" using control_invD(5) [OF inv n] .
  have "(\<forall>j q. get_node j (node_add m c) = Some q \<longrightarrow> cn_alloc q = Some a \<longrightarrow> j = x) \<longleftrightarrow>
        (\<forall>j q. get_node j c = Some q \<longrightarrow> cn_alloc q = Some a \<longrightarrow> j = x)" for a x
    using n m i by simp (metis option.inject)
  then have rel: "release_ok (node_add m c) s = release_ok c s" for s
    unfolding release_ok_def heap_simps by presburger
  have "attached_ok (node_add m c) s = attached_ok c s" for s
    using n m i by (auto simp: attached_ok_def rel split: option.splits)
  moreover have "nodes_ok (node_add m c)"
    using inv n m i unfolding control_inv_def nodes_ok_def
    by (simp split: if_splits) (metis (no_types, opaque_lifting))
  moreover have "balancer_ok (node_add m c)"
    using inv n m i by (auto simp: control_inv_def balancer_ok_def)
  ultimately show ?thesis
    using inv by (simp add: control_inv_def servers_ok_def ports_distinct_def)
qed

lemma server_add_same:
  assumes inv: "control_inv c" and s: "get_server i c = Some s"
    and t: "sv_id t = sv_id s" "sv_node_id t = sv_node_id s" "server_port t = server_port s"
      "sv_client t = sv_client s" "sv_release t = sv_release s"
  shows "control_inv (server_add t c)"
proof -
  have i: "sv_id s = i" using control_invD(3) [OF inv s] .
  have at: "attached_ok (server_add t c) u = attached_ok c u" for u
    unfolding attached_ok_def release_ok_def get_node_simps heap_simps heap_at_simps ..
  have t': "attached_ok c t = attached_ok c s"
    unfolding attached_ok_def release_ok_def t ..
  have "ports_distinct (server_add t c)"
    using control_invD(10) [OF inv] s t i unfolding ports_distinct_def
    by (simp split: if_splits) (metis (no_types, opaque_lifting))
  moreover have "attached_ok c s" using control_invD(4) [OF inv s] .
  ultimately have "servers_ok (server_add t c)"
    using inv t i by (auto simp: control_inv_def servers_ok_def at t')
  moreover have "nodes_ok (server_add t c)" "balancer_ok (server_add t c)"
    using inv by (simp_all add: control_inv_def nodes_ok_def balancer_ok_def)
  ultimately show ?thesis by (simp add: control_inv_def)
qed

lemma set_status_inv: "control_inv c \<Longrightarrow> control_inv (set_status sid st c)"
  by (cases "get_server sid c")
     (auto simp: set_status_def control_inv_irrelevant server_port_def intro!: server_add_same)

lemma crash_inv: "control_inv c \<Longrightarrow> control_inv (handle_crash_report sid t c)"
  by (cases "get_server sid c")
     (auto simp: handle_crash_report_def control_inv_irrelevant server_port_def intro!: server_add_same)

lemma heartbeat_inv: "control_inv c \<Longrightarrow> control_inv (heartbeat now nid c)"
  by (cases "get_node nid c") (auto simp: heartbeat_def intro!: node_add_same)

lemma set_drained_inv: "control_inv c \<Longrightarrow> control_inv (snd (set_drained db d nid c))"
  by (cases "get_node nid c")
     (auto simp: set_drained_def control_inv_irrelevant intro!: node_add_same)

text \<open>An operation that rewrites every server in place.\<close>

lemma servers_okI:
  assumes "servers_ok c" "gm_wf (cs_servers c')"
    and gs: "\<And>i. get_server i c' = map_option f (get_server i c)"
    and f: "\<And>s. sv_id (f s) = sv_id s" "\<And>s. sv_node_id (f s) = sv_node_id s"
      "\<And>s. server_port (f s) = server_port s"
    and at: "\<And>i s. get_server i c = Some s \<Longrightarrow> attached_ok c' (f s)"
  shows "servers_ok c'"
proof -
  have "ports_distinct c'"
    using assms(1) unfolding servers_ok_def ports_distinct_def gs by (auto simp: f)
  then show ?thesis
    using assms(1,2) at unfolding servers_ok_def gs by (auto simp: f)
qed

text \<open>Disconnecting a node takes it out of the manager and the balancer and detaches its servers.\<close>

lemma disconnect_node_spec:
  assumes inv: "control_inv c"
  obtains c' where "disconnect_node nid c = Ret c'" "control_inv c'" "cs_heap c' = cs_heap c"
    "\<And>i. get_node i c' = (if i = nid then None else get_node i c)"
    "\<And>i. get_server i c' = map_option (\<lambda>s. if sv_node_id s = nid then detached s else s) (get_server i c)"
proof -
  obtain b where b: "remove_node (\<lambda>i. i) nid (cs_lb c) = Ret b" "rr_inv (\<lambda>i. i) b"
      "rr_abs (\<lambda>i. i) b = (rr_abs (\<lambda>i. i) (cs_lb c))(nid := None)"
    using rr.remove_ok [OF control_invD(9) [OF inv]] by blast
  let ?c = "c\<lparr>cs_lb := b\<rparr>" and ?c' = "node_remove nid (detach_node_client nid (c\<lparr>cs_lb := b\<rparr>))"
  have wf: "gm_wf (cs_servers ?c)" "\<And>i s. get_server i ?c = Some s \<Longrightarrow> sv_id s = i"
    using control_invD [OF inv] by simp_all
  note d = detach_node_client_spec [where nid = nid, OF wf]
  have gs: "get_server i ?c' = map_option (\<lambda>s. if sv_node_id s = nid then detached s else s) (get_server i c)" for i
    using d(5) [of i] by simp
  have gn: "get_node i ?c' = (if i = nid then None else get_node i c)" for i
    using d(1) by (simp add: get_node_def node_remove_def)
  have gd: "get_node i (detach_node_client nid ?c) = get_node i c" for i
    using d(1) by (simp add: get_node_def)
  have hd: "heap_at (detach_node_client nid ?c) a = heap_at c a" for a
    using d(3) by (simp add: heap_at_def)
  have heap: "cs_heap ?c' = cs_heap c" using d(3) by simp
  have "nodes_ok ?c'"
    using inv d(1,3) unfolding control_inv_def nodes_ok_def gn heap by auto
  moreover have "balancer_ok ?c'"
    using inv b d(2) unfolding control_inv_def balancer_ok_def gn by auto
  moreover have "servers_ok ?c'"
  proof (rule servers_okI)
    show "gm_wf (cs_servers ?c')" using d(4) by simp
    show "get_server i ?c' = map_option (\<lambda>s. if sv_node_id s = nid then detached s else s) (get_server i c)" for i
      by (rule gs)
    fix i s assume s: "get_server i c = Some s"
    have rel: "release_ok c s \<Longrightarrow> release_ok ?c' s" using heap by (auto simp: release_ok_def gd)
    show "attached_ok ?c' (if sv_node_id s = nid then detached s else s)"
      using control_invD(4) [OF inv s] rel
      by (auto simp: attached_ok_def gd hd split: option.splits)
  qed (use inv in \<open>auto simp: control_inv_def\<close>)
  ultimately have "control_inv ?c'"
    by (simp only: control_inv_def simp_thms)
  moreover have "disconnect_node nid c = Ret ?c'" using b(1) by (simp add: disconnect_node_def)
  ultimately show ?thesis using that gs gn heap by blast
qed

lemma disconnect_all_spec:
  assumes "control_inv c"
  shows "\<exists>c'. disconnect_all ids c = Ret c' \<and> control_inv c' \<and> cs_heap c' = cs_heap c \<and>
    (\<forall>i. get_node i c' = (if i \<in> set ids then None else get_node i c)) \<and>
    (\<forall>i. get_server i c' = map_option (\<lambda>s. if sv_node_id s \<in> set ids then detached s else s) (get_server i c))"
  using assms
proof (induction ids arbitrary: c)
  case Nil
  then show ?case by (simp add: map_option.id [unfolded id_def])
next
  case (Cons i "is")
  obtain c1 where c1: "disconnect_node i c = Ret c1" "control_inv c1" "cs_heap c1 = cs_heap c"
    "\<And>j. get_node j c1 = (if j = i then None else get_node j c)"
    "\<And>j. get_server j c1 = map_option (\<lambda>s. if sv_node_id s = i then detached s else s) (get_server j c)"
    using disconnect_node_spec [OF Cons.prems, of i] by blast
  have dd: "detached (detached s) = detached s" for s by (simp add: detached_def)
  from Cons.IH [OF c1(2)] c1 dd show ?case
    by (auto simp: option.map_comp comp_def intro!: option.map_cong)
qed

lemma attach_inv:
  assumes nodes: "nodes_ok c" "balancer_ok c" and wf: "gm_wf (cs_servers c)" "ports_distinct c"
    and ids0: "\<forall>i s. get_server i c = Some s \<longrightarrow> sv_id s = i"
    and n: "get_node nid c = Some n" "cn_alloc n = Some a"
    and others0: "\<forall>i s. get_server i c = Some s \<longrightarrow> sv_node_id s \<noteq> nid \<longrightarrow> attached_ok c s"
  obtains c' where "attach_node_client nid n c = Ret c'" "control_inv c'"
    "\<And>i. get_node i c' = get_node i c"
    "\<And>i. get_server i c' = map_option (\<lambda>s. if sv_node_id s = nid then attached n s else s) (get_server i c)"
proof -
  have ids: "\<And>i s. get_server i c = Some s \<Longrightarrow> sv_id s = i" using ids0 by blast
  have others: "\<And>i s. get_server i c = Some s \<Longrightarrow> sv_node_id s \<noteq> nid \<Longrightarrow> attached_ok c s"
    using others0 by blast
  have a: "a < length (cs_heap c)" "cn_id n = nid" using nodes(1) n by (auto simp: nodes_ok_def)
  have al: "alloc_inv (heap_at c a)" using nodes(1) a by (simp add: nodes_ok_def heap_at_def)
  obtain c' where c': "attach_node_client nid n c = Ret c'"
    "cs_nodes c' = cs_nodes c" "cs_lb c' = cs_lb c" "length (cs_heap c') = length (cs_heap c)"
    "\<And>b. b \<noteq> a \<Longrightarrow> heap_at c' b = heap_at c b" "offered (heap_at c' a) = offered (heap_at c a)"
    "held (heap_at c' a) = held (heap_at c a) \<union>
       ({server_port s | s i. get_server i c = Some s \<and> sv_node_id s = nid} \<inter> offered (heap_at c a))"
    "alloc_inv (heap_at c' a)" "gm_wf (cs_servers c')"
    "\<And>i. get_server i c' = map_option (\<lambda>s. if sv_node_id s = nid then attached n s else s) (get_server i c)"
    using attach_node_client_spec [OF n(2) a(1) al wf(1) ids, of nid] by blast
  have gn: "get_node i c' = get_node i c" for i using c'(2) by (simp add: get_node_def)
  have inv': "\<forall>al \<in> set (cs_heap c'). alloc_inv al"
  proof -
    have "alloc_inv (cs_heap c' ! b)" if "b < length (cs_heap c')" for b
      using c'(4,5,8) nodes(1) that unfolding heap_at_def nodes_ok_def by (cases "b = a") auto
    then show ?thesis by (auto simp: in_set_conv_nth)
  qed
  have "nodes_ok c'" using nodes(1) inv' c'(2,4) unfolding nodes_ok_def gn by simp
  moreover have "balancer_ok c'" using nodes(2) c'(3) by (simp add: balancer_ok_def gn)
  moreover have ok: "attached_ok c' (if sv_node_id s = nid then attached n s else s)" if s: "get_server i c = Some s" for i s
  proof (cases "sv_node_id s = nid")
    case True
    have "server_port s \<in> offered (heap_at c a) \<Longrightarrow> server_port s \<in> held (heap_at c' a)"
      unfolding c'(7) using s True by blast
    with True a n c'(6) show ?thesis by (simp add: attached_ok_def gn release_ok_def)
  next
    case False
    have ne: "b \<noteq> a" if "get_node (sv_node_id s) c = Some m" "cn_alloc m = Some b" for b m
      using that n nodes(1) False unfolding nodes_ok_def by blast
    have rel: "release_ok c' s = release_ok c s" unfolding release_ok_def gn c'(4) ..
    from others [OF s False] False ne c'(5) show ?thesis
      by (auto simp: attached_ok_def gn rel split: option.splits)
  qed
  moreover have "ports_distinct c'"
    using wf(2) unfolding ports_distinct_def c'(10) by (auto split: if_splits)
  moreover have "sv_id t = i \<and> attached_ok c' t" if "get_server i c' = Some t" for i t
  proof -
    have "map_option (\<lambda>s. if sv_node_id s = nid then attached n s else s) (get_server i c) = Some t"
      using that by (simp only: c'(10))
    then obtain s where s: "get_server i c = Some s" "(if sv_node_id s = nid then attached n s else s) = t"
      unfolding map_option_eq_Some by blast
    have "sv_id (if sv_node_id s = nid then attached n s else s) = i" using ids [OF s(1)] by simp
    with ok [OF s(1)] show ?thesis unfolding s(2) by simp
  qed
  ultimately have "control_inv c'"
    using c'(9) by (simp add: control_inv_def servers_ok_def)
  with that c'(1,10) gn show ?thesis by blast
qed

lemma fresh_attach:
  assumes inv: "control_inv c" and al: "alloc_inv al"
    and n: "cn_id n = nid" "cn_alloc n = Some (length (cs_heap c))"
    and b: "rr_inv (\<lambda>i. i) b" "\<And>i. rr_abs (\<lambda>i. i) b i \<noteq> None \<longleftrightarrow> i = nid \<or> get_node i c \<noteq> None"
  obtains c' where "attach_node_client nid n (node_add n (c\<lparr>cs_heap := cs_heap c @ [al], cs_lb := b\<rparr>)) = Ret c'"
    "control_inv c'" "\<And>i. get_node i c' = (if i = nid then Some n else get_node i c)"
    "\<And>i. get_server i c' = map_option (\<lambda>s. if sv_node_id s = nid then attached n s else s) (get_server i c)"
proof -
  let ?a = "length (cs_heap c)" and ?h = "cs_heap c @ [al]"
  let ?c1 = "node_add n (c\<lparr>cs_heap := cs_heap c @ [al], cs_lb := b\<rparr>)"
  have old: "cn_alloc m \<noteq> Some ?a" "cn_alloc m = Some d \<Longrightarrow> d < ?a"
    if "get_node i c = Some m" for i m d
    using control_invD(6) [OF inv that] by auto
  have at: "heap_at ?c1 d = heap_at c d" if "d < ?a" for d using that by (simp add: heap_at_def nth_append)
  have nodes: "nodes_ok ?c1"
    using inv n al old unfolding nodes_ok_def control_inv_def
    by (auto split: if_splits) (metis less_SucI)
  have bal: "balancer_ok ?c1" using b n by (simp add: balancer_ok_def)
  have oth: "attached_ok ?c1 s" if s: "get_server i c = Some s" "sv_node_id s \<noteq> nid" for i s
  proof -
    have rel: "release_ok ?c1 s" if "release_ok c s"
    proof -
      have "release_ok ?c1 s" if r: "sv_release s = Some (RelAlloc d)" "d < ?a"
          "\<forall>j m. get_node j c = Some m \<longrightarrow> cn_alloc m = Some d \<longrightarrow> j = sv_node_id s" for d
        unfolding release_ok_def using r n by (intro disjI2 exI [of _ d]) auto
      then show ?thesis using that unfolding release_ok_def [of c] by (auto simp: release_ok_def)
    qed
    show ?thesis
      using control_invD(4) [OF inv s(1)] s(2) n rel old(2) at
      by (auto simp: attached_ok_def split: option.splits)
  qed
  have wf: "gm_wf (cs_servers ?c1)" "ports_distinct ?c1"
    using control_invD(1,10) [OF inv] by (simp_all add: ports_distinct_def)
  have n1: "get_node nid ?c1 = Some n" using n by simp
  have ids: "\<forall>i s. get_server i ?c1 = Some s \<longrightarrow> sv_id s = i" using control_invD(3) [OF inv] by simp
  have oth': "\<forall>i s. get_server i ?c1 = Some s \<longrightarrow> sv_node_id s \<noteq> nid \<longrightarrow> attached_ok ?c1 s"
    using oth by simp
  obtain c' where "attach_node_client nid n ?c1 = Ret c'" "control_inv c'" "\<And>i. get_node i c' = get_node i ?c1"
    "\<And>i. get_server i c' = map_option (\<lambda>s. if sv_node_id s = nid then attached n s else s) (get_server i ?c1)"
    using attach_inv [OF nodes bal wf ids n1 n(2) oth'] by blast
  then show ?thesis using n by (intro that [of c']) simp_all
qed

definition ranges_valid :: "registration \<Rightarrow> bool" where
  "ranges_valid r \<longleftrightarrow> (\<forall>m \<in> set (rg_allocations r). \<forall>rg. get_range m = Inr rg \<longrightarrow> pr_end rg < int64_max)"

lemma new_allocator_inv:
  "new_allocator (rg_allocations r) = Inr al \<Longrightarrow> ranges_valid r \<Longrightarrow> alloc_inv al \<and> held al = {}"
  unfolding new_allocator_def ranges_valid_def
  by (rule new_allocator_ranges) (auto simp: alloc_inv_def held_def offered_def the_list_def split: if_splits)

lemma nil_allocator_inv:
  assumes inv: "control_inv c" and n: "get_node i c = Some n"
  shows "control_inv (node_add (n\<lparr>cn_alloc := None\<rparr>) c)"
proof -
  let ?c = "node_add (n\<lparr>cn_alloc := None\<rparr>) c"
  have i: "cn_id n = i" using control_invD(5) [OF inv n] .
  have rel: "release_ok ?c s" if "release_ok c s" for s
    using that i by (auto simp: release_ok_def)
  have "attached_ok ?c s" if "attached_ok c s" for s
    using that n i rel by (auto simp: attached_ok_def split: option.splits)
  moreover have "nodes_ok ?c"
    using inv n i unfolding control_inv_def nodes_ok_def by (auto split: if_splits)
  moreover have "balancer_ok ?c" using inv n i by (auto simp: control_inv_def balancer_ok_def)
  ultimately show ?thesis using inv by (simp add: control_inv_def servers_ok_def ports_distinct_def)
qed

lemma load_drained_simps [simp]:
  "cn_id (load_drained d c n) = cn_id n" "cn_alloc (load_drained d c n) = cn_alloc n"
  "cn_client (load_drained d c n) = cn_client n" "cn_last_seen (load_drained d c n) = cn_last_seen n"
  by (simp_all add: load_drained_def)

lemma register_known:
  assumes inv: "control_inv c" and al: "alloc_inv al" and n: "get_node i c = Some n"
  obtains c' where "attach_node_client i (n\<lparr>cn_alloc := Some (length (cs_heap c))\<rparr>)
      (node_add (n\<lparr>cn_alloc := Some (length (cs_heap c))\<rparr>) (c\<lparr>cs_heap := cs_heap c @ [al]\<rparr>)) = Ret c'"
    "control_inv c'"
    "\<And>j. get_node j c' = (if j = i then Some (n\<lparr>cn_alloc := Some (length (cs_heap c))\<rparr>) else get_node j c)"
    "\<And>j. get_server j c' = map_option (\<lambda>s. if sv_node_id s = i
        then attached (n\<lparr>cn_alloc := Some (length (cs_heap c))\<rparr>) s else s) (get_server j c)"
proof -
  let ?n = "n\<lparr>cn_alloc := Some (length (cs_heap c))\<rparr>"
  have id: "cn_id ?n = i" using control_invD(5) [OF inv n] by simp
  have b: "rr_abs (\<lambda>i. i) (cs_lb c) j \<noteq> None \<longleftrightarrow> j = i \<or> get_node j c \<noteq> None" for j
    using inv n unfolding control_inv_def balancer_ok_def by auto
  have eq: "c\<lparr>cs_heap := cs_heap c @ [al], cs_lb := cs_lb c\<rparr> = c\<lparr>cs_heap := cs_heap c @ [al]\<rparr>" by simp
  have al': "cn_alloc ?n = Some (length (cs_heap c))" by simp
  show ?thesis
    using fresh_attach [OF inv al id al' control_invD(9) [OF inv] b] that unfolding eq by blast
qed

lemma register_new:
  assumes inv: "control_inv c" and al: "alloc_inv al" and n: "get_node (rg_id r) c = None"
  obtains n c' where "register_node db now r t (length (cs_heap c)) (c\<lparr>cs_heap := cs_heap c @ [al]\<rparr>) = Ret c'"
    "control_inv c'" "cn_client n = \<lparr>nc_node_id = rg_id r, nc_url = rg_url r, nc_token = t\<rparr>" "cn_last_seen n = now"
    "\<And>j. get_node j c' = (if j = rg_id r then Some n else get_node j c)"
    "\<And>j. get_server j c' = map_option (\<lambda>s. if sv_node_id s = rg_id r then attached n s else s) (get_server j c)"
proof -
  let ?n0 = "\<lparr>cn_id = rg_id r, cn_name = rg_name r, cn_location = rg_location r, cn_url = rg_url r,
               cn_drained = False, cn_alloc = Some (length (cs_heap c)),
               cn_client = \<lparr>nc_node_id = rg_id r, nc_url = rg_url r, nc_token = t\<rparr>,
               cn_last_seen = now, cn_online = True\<rparr>"
  let ?n = "load_drained db (c\<lparr>cs_heap := cs_heap c @ [al]\<rparr>) ?n0"
  obtain b where b: "add_node (\<lambda>i. i) (rg_id r) (cs_lb c) = Ret b" "rr_inv (\<lambda>i. i) b"
      "rr_abs (\<lambda>i. i) b = (rr_abs (\<lambda>i. i) (cs_lb c))(rg_id r \<mapsto> rg_id r)"
    using rr.add_ok [OF control_invD(9) [OF inv]] by blast
  have b': "rr_abs (\<lambda>i. i) b j \<noteq> None \<longleftrightarrow> j = rg_id r \<or> get_node j c \<noteq> None" for j
    using inv b(3) unfolding control_inv_def balancer_ok_def by auto
  have n': "cn_id ?n = rg_id r" "cn_alloc ?n = Some (length (cs_heap c))" by simp_all
  obtain c' where c': "attach_node_client (rg_id r) ?n (node_add ?n (c\<lparr>cs_heap := cs_heap c @ [al], cs_lb := b\<rparr>)) = Ret c'"
    "control_inv c'" "\<And>i. get_node i c' = (if i = rg_id r then Some ?n else get_node i c)"
    "\<And>i. get_server i c' = map_option (\<lambda>s. if sv_node_id s = rg_id r then attached ?n s else s) (get_server i c)"
    using fresh_attach [OF inv al n' b(2) b'] by blast
  show ?thesis
    by (rule that [of c' ?n]) (use b(1) c' in \<open>simp_all add: register_node_def Let_def\<close>)
qed

lemma post_node_register_inv:
  assumes inv: "control_inv c" and "ranges_valid r" "post_node_register db now token r c = Ret (resp, c')"
  shows "control_inv c'"
proof (cases "validate_registration r = None")
  case False
  then show ?thesis using assms by (simp add: post_node_register_def)
next
  case v: True
  show ?thesis
  proof (cases "new_allocator (rg_allocations r)")
    case (Inl e)
    then show ?thesis
      using assms v nil_allocator_inv [OF inv]
      by (auto simp: post_node_register_def split: option.splits)
  next
    case (Inr al)
    have al: "alloc_inv al" using new_allocator_inv [OF Inr assms(2)] by simp
    show ?thesis
    proof (cases "get_node (rg_id r) c")
      case None
      show ?thesis
      proof (cases token)
        case (Some t)
        obtain c1 where c1: "register_node db now r t (length (cs_heap c)) (c\<lparr>cs_heap := cs_heap c @ [al]\<rparr>) = Ret c1"
          "control_inv c1"
          using register_new [OF inv al None, of db now t] by blast
        then show ?thesis using assms(3) v Inr None Some by (simp add: post_node_register_def)
      qed (use assms(3) v inv None in \<open>simp add: post_node_register_def\<close>)
    next
      case (Some n)
      show ?thesis
      proof (rule register_known [OF inv al Some])
        fix c1
        assume "attach_node_client (rg_id r) (n\<lparr>cn_alloc := Some (length (cs_heap c))\<rparr>)
            (node_add (n\<lparr>cn_alloc := Some (length (cs_heap c))\<rparr>) (c\<lparr>cs_heap := cs_heap c @ [al]\<rparr>)) = Ret c1"
          and "control_inv c1"
        then show ?thesis using assms(3) v Inr Some by (simp add: post_node_register_def Let_def)
      qed
    qed
  qed
qed

end
