(* ===== verification/Control_Servers.thy ===== *)
theory Control_Servers
  imports Control_Invariant
begin

text \<open>
  The life of a server in Protocube: what a creation (\<^verbatim>\<open>CreateServer\<close>) leaves behind in each of
  its outcomes, what the clean-up (\<^verbatim>\<open>CleanupForDestroy\<close>) takes away, and that every state the
  handlers can reach from a start on an empty node table satisfies the invariant of
  \<^verbatim>\<open>Control_Invariant\<close>.
\<close>

section \<open>Creating and deleting servers\<close>

lemma build_configuration_allocations:
  assumes "build_server_configuration compile marshal sid ov bp swr alloc = Ret (Inr (cfg, script))"
  shows "sc_allocations cfg = alloc \<and> sc_id cfg = sid"
proof -
  obtain server where server: "bp_server bp = Some server"
    using assms by (cases "bp_server bp") (auto simp: build_server_configuration_def)
  let ?sw = "case ov of None \<Rightarrow> bs_software server | Some o1 \<Rightarrow> effective (bs_software server) (ov_software o1)"
  obtain sw where sw: "sr_get ?sw swr = Some sw"
    using assms server by (cases "sr_get ?sw swr") (auto simp: build_server_configuration_def Let_def)
  obtain m where m: "new_output_line_matcher compile (sw_online_signal sw) = Some m"
    using assms server sw
    by (cases "new_output_line_matcher compile (sw_online_signal sw)") (auto simp: build_server_configuration_def Let_def)
  have ex: "\<exists>i. r = f i" if "(case x of Inl e \<Rightarrow> Ret (Inl (g e)) | Inr i \<Rightarrow> Ret (Inr (f i))) = Ret (Inr r)"
    for x :: "'x + 'y" and f :: "'y \<Rightarrow> 'z" and g :: "'x \<Rightarrow> 'w" and r
    using that by (cases x) auto
  have "\<exists>image. sc_allocations cfg = alloc \<and> sc_id cfg = sid"
    using ex [OF assms [unfolded build_server_configuration_def Let_def server sw m option.case sw m]] by auto
  then show ?thesis by simp
qed

lemma update_heap_inv:
  assumes inv: "control_inv c" and al: "alloc_inv al"
    and "ac_allocations al = ac_allocations (heap_at c a)" "held (heap_at c a) \<subseteq> held al"
  shows "control_inv (heap_update a (\<lambda>_. al) c)"
proof (cases "a < length (cs_heap c)")
  case True
  let ?c = "heap_update a (\<lambda>_. al) c"
  have at: "heap_at ?c b = (if b = a then al else heap_at c b)" for b using True by (simp add: heap_at_update)
  have off: "offered al = offered (heap_at c a)" using assms(3) by (simp add: offered_def)
  have rel: "release_ok ?c s = release_ok c s" for s by (simp add: release_ok_def)
  have "attached_ok ?c s" if "attached_ok c s" for s
    using that assms(4) off by (auto simp: attached_ok_def rel at split: option.splits)
  moreover have "\<forall>x \<in> set (cs_heap ?c). alloc_inv x"
    using inv al set_update_subset_insert [of "cs_heap c" a al] by (auto simp: control_inv_def nodes_ok_def)
  then have "nodes_ok ?c" using inv by (simp add: control_inv_def nodes_ok_def)
  moreover have "balancer_ok ?c" using inv by (simp add: control_inv_def balancer_ok_def)
  ultimately show ?thesis using inv by (simp add: control_inv_def servers_ok_def ports_distinct_def)
next
  case False
  then have "heap_update a (\<lambda>_. al) c = c" by (simp add: heap_update_def list_update_beyond)
  with inv show ?thesis by simp
qed

lemma server_remove_inv:
  assumes inv: "control_inv c"
  shows "control_inv (server_remove i c)"
proof -
  have "attached_ok (server_remove i c) s = attached_ok c s" for s
    unfolding attached_ok_def release_ok_def get_node_simps heap_simps heap_at_simps ..
  then show ?thesis
    using inv by (auto simp: control_inv_def servers_ok_def ports_distinct_def nodes_ok_def balancer_ok_def
        split: if_splits)
qed

text \<open>Adding a server whose port on its node nobody has.\<close>

lemma server_add_new_inv:
  assumes inv: "control_inv c" and new: "get_server (sv_id s) c = None" and at: "attached_ok c s"
    and port: "\<And>i t. get_server i c = Some t \<Longrightarrow> sv_node_id t = sv_node_id s \<Longrightarrow> server_port t \<noteq> server_port s"
  shows "control_inv (server_add s c)"
proof -
  have eq: "attached_ok (server_add s c) t = attached_ok c t" for t
    unfolding attached_ok_def release_ok_def get_node_simps heap_simps heap_at_simps ..
  have "ports_distinct (server_add s c)"
    using control_invD(10) [OF inv] port unfolding ports_distinct_def
    by (simp split: if_splits) metis
  then show ?thesis
    using inv at new by (auto simp: control_inv_def servers_ok_def eq nodes_ok_def balancer_ok_def)
qed

lemma abort_create_parts:
  "get_server i (abort_create env c) = (if i = ce_id env then None else get_server i c)"
  "cs_nodes (abort_create env c) = cs_nodes c" "cs_heap (abort_create env c) = cs_heap c"
  "cs_lb (abort_create env c) = cs_lb c"
  "gm_get (cs_db (abort_create env c)) i =
       (if i = ce_id env \<and> ce_remove_ok env then None else gm_get (cs_db c) i)"
proof -
  show "get_server i (abort_create env c) = (if i = ce_id env then None else get_server i c)"
    by (simp add: abort_create_def Let_def)
qed (simp_all add: abort_create_def Let_def server_remove_def)

lemma build_configuration_returns:
  assumes "bp_server bp \<noteq> None"
  shows "build_server_configuration compile marshal sid ov bp swr alloc \<noteq> Panic"
proof -
  obtain server where server: "bp_server bp = Some server" using assms by blast
  let ?sw = "case ov of None \<Rightarrow> bs_software server | Some o1 \<Rightarrow> effective (bs_software server) (ov_software o1)"
  have ex: "(case x of Inl e \<Rightarrow> Ret (Inl (g e)) | Inr i \<Rightarrow> Ret (Inr (f i))) \<noteq> Panic"
    for x :: "'x + 'y" and f :: "'y \<Rightarrow> 'z" and g :: "'x \<Rightarrow> 'w"
    by (cases x) auto
  show ?thesis
  proof (cases "sr_get ?sw swr")
    case None
    then show ?thesis using server by (simp add: build_server_configuration_def Let_def)
  next
    case (Some sw)
    then show ?thesis
    proof (cases "new_output_line_matcher compile (sw_online_signal sw)")
      case None
      then show ?thesis using server Some by (simp add: build_server_configuration_def Let_def)
    next
      case m: (Some m)
      show ?thesis
        unfolding build_server_configuration_def Let_def server Some m option.case by (rule ex)
    qed
  qed
qed

text \<open>What a creation leaves behind, by its outcome.\<close>

definition new_server :: "create_env \<Rightarrow> cnode \<Rightarrow> nat \<Rightarrow> server \<Rightarrow> bool" where
  "new_server env n a s \<longleftrightarrow> sv_id s = ce_id env \<and> sv_node_id s = cn_id n \<and> sc_id (sv_config s) = ce_id env \<and>
     sv_client s = Some (cn_client n) \<and> sv_release s = Some (RelAlloc a)"

definition port_taken :: "cnode \<Rightarrow> string \<times> int \<Rightarrow> control \<Rightarrow> control \<Rightarrow> bool" where
  "port_taken n p c c' \<longleftrightarrow> (\<exists>a. cn_alloc n = Some a \<and> p \<in> offered (heap_at c a) \<and> p \<notin> held (heap_at c a) \<and>
     held (heap_at c' a) = insert p (held (heap_at c a)))"

definition create_outcome :: "create_env \<Rightarrow> cnode \<Rightarrow> control \<Rightarrow> create_error + server \<Rightarrow> control \<Rightarrow> bool" where
  "create_outcome env n c r c' \<longleftrightarrow> (case r of
     Inr s \<Rightarrow> (\<exists>a. cn_alloc n = Some a \<and> new_server env n a s) \<and> port_taken n (server_port s) c c' \<and>
       (\<forall>j. get_server j c' = (if j = ce_id env then Some s else get_server j c)) \<and>
       (\<forall>j. j \<noteq> ce_id env \<longrightarrow> gm_get (cs_db c') j = gm_get (cs_db c) j) \<and>
       (\<exists>d. gm_get (cs_db c') (ce_id env) = Some d \<and> rec_node_id d = cn_id n \<and> rec_config d = Some (sv_config s))
   | Inl e \<Rightarrow> (\<forall>j. get_server j c' = get_server j c) \<and>
       (\<forall>j. gm_get (cs_db c') j = gm_get (cs_db c) j \<or>
          j = ce_id env \<and> \<not> ce_remove_ok env \<and> (\<exists>ce. e = DaemonFailed ce)) \<and>
       (case e of
          AllocationFailed \<Rightarrow> c' = c
        | AllocatorFailed _ \<Rightarrow> (\<forall>a. cn_alloc n = Some a \<longrightarrow> held (heap_at c' a) = held (heap_at c a))
        | _ \<Rightarrow> (\<exists>p. port_taken n p c c')))"

lemma abort_create_inv: "control_inv c \<Longrightarrow> control_inv (abort_create env c)"
  by (simp add: abort_create_def Let_def control_inv_irrelevant server_remove_inv)

lemma create_server_spec:
  assumes inv: "control_inv c" and n: "get_node i c = Some n"
    and perm: "\<And>xs. mset (ce_shuffle env xs) = mset xs"
    and new: "get_server (ce_id env) c = None" "gm_get (cs_db c) (ce_id env) = None"
    and bp: "bp_server bp \<noteq> None"
  shows "\<exists>r c'. create_server env n bp swr ov c = Some (Ret (r, c')) \<and> control_inv c' \<and>
    (\<forall>j. get_node j c' = get_node j c) \<and> create_outcome env n c r c'"
proof (cases "cn_alloc n")
  case None
  then show ?thesis using inv by (simp add: create_server_def create_outcome_def)
next
  case (Some a)
  have a: "a < length (cs_heap c)" and al: "alloc_inv (heap_at c a)" and id: "cn_id n = i"
    using control_invD(5,6,7) [OF inv] n Some by blast+
  have at: "heap_at (heap_update a (\<lambda>_. x) c) a = x" for x using a by (simp add: heap_at_update)
  show ?thesis
    using new_allocation_cases [of "heap_at c a" "ce_shuffle env", OF al perm]
  proof (elim disjE exE conjE)
    fix e al'
    assume e: "new_allocation (ce_shuffle env) (heap_at c a) = Some (Inl e, al')" "held al' = held (heap_at c a)"
      "ac_allocations al' = ac_allocations (heap_at c a)" "alloc_inv al'"
    then have "control_inv (heap_update a (\<lambda>_. al') c)" by (intro update_heap_inv [OF inv]) auto
    then show ?thesis using e Some at by (simp add: create_server_def create_outcome_def heap_at_def)
  next
    fix ea al'
    assume r: "new_allocation (ce_shuffle env) (heap_at c a) = Some (Inr ea, al')"
      and f: "fresh_allocation (heap_at c a) ea al'"
    let ?p = "(ea_default_ip ea, ea_default_port ea)" and ?c1 = "heap_update a (\<lambda>_. al') c"
    have f': "?p \<notin> held (heap_at c a)" "held al' = insert ?p (held (heap_at c a))" "alloc_inv al'"
      "ac_allocations al' = ac_allocations (heap_at c a)" "?p \<in> offered (heap_at c a)"
      using f by (auto simp: fresh_allocation_def offered_def)
    have inv1: "control_inv ?c1" by (rule update_heap_inv [OF inv]) (use f' in auto)
    have taken: "port_taken n ?p c c'" if "cs_heap c' = cs_heap ?c1" for c'
      using that f' Some a by (simp add: port_taken_def heap_at_def)
    show ?thesis
    proof (cases "build_server_configuration (ce_compile env) (ce_marshal env) (ce_id env) ov bp swr ea")
      case Panic
      then show ?thesis using build_configuration_returns [OF bp] by blast
    next
      case (Ret b)
      show ?thesis
      proof (cases b)
        case (Inl e)
        let ?c2 = "abort_create env ?c1"
        have "create_outcome env n c (Inl (BuildFailed e)) ?c2"
          using new taken [of ?c2] by (auto simp: create_outcome_def abort_create_parts)
        moreover have "get_node j ?c2 = get_node j c" for j
          by (simp add: get_node_def abort_create_parts)
        ultimately show ?thesis
          using Ret Inl r Some abort_create_inv [OF inv1] by (simp add: create_server_def heap_at_def)
      next
        case (Inr cs)
        obtain cfg script where cs: "cs = (cfg, script)" by (cases cs)
        have cfg: "sc_allocations cfg = ea" "sc_id cfg = ce_id env"
          using build_configuration_allocations Ret Inr cs by blast+
        define s where "s = \<lparr>sv_id = ce_id env, sv_node_name = cn_name n, sv_node_id = cn_id n,
                              sv_blueprint_id = me_id (bp_meta bp), sv_overrides = ov, sv_status = [],
                              sv_last_crash = 0, sv_client = Some (cn_client n), sv_config = cfg,
                              sv_script = script, sv_release = Some (RelAlloc a)\<rparr>"
        define d where "d = \<lparr>rec_id = ce_id env, rec_node_name = cn_name n, rec_node_id = cn_id n,
                                  rec_blueprint_id = me_id (bp_meta bp), rec_overrides = ov,
                                  rec_config = Some cfg, rec_script = Some script\<rparr>"
        let ?c2 = "server_add s ?c1"
        let ?c3 = "?c2\<lparr>cs_db := gm_set (cs_db ?c2) (ce_id env) d\<rparr>"
        have s: "sv_id s = ce_id env" "sv_node_id s = i" "server_port s = ?p" "new_server env n a s"
          "sv_client s = Some (cn_client n)" "sv_release s = Some (RelAlloc a)"
          using cfg id by (simp_all add: s_def server_port_def new_server_def)
        have inv2: "control_inv ?c2"
        proof (rule server_add_new_inv [OF inv1])
          show "get_server (sv_id s) ?c1 = None" using s new by simp
          have "release_ok ?c1 s"
          proof -
            have "\<forall>j m. get_node j c = Some m \<longrightarrow> cn_alloc m = Some a \<longrightarrow> j = i"
              using inv n Some unfolding control_inv_def nodes_ok_def by blast
            then show ?thesis using s a by (simp add: release_ok_def)
          qed
          then show "attached_ok ?c1 s"
            using s n Some f' at by (simp add: attached_ok_def)
          fix j t assume t: "get_server j ?c1 = Some t" "sv_node_id t = sv_node_id s"
          have "server_port t \<in> offered (heap_at c a) \<longrightarrow> server_port t \<in> held (heap_at c a)"
            using control_invD(4) [OF inv, of j t] t s n Some by (simp add: attached_ok_def)
          then show "server_port t \<noteq> server_port s" using s f' by auto
        qed
        then have inv3: "control_inv ?c3" by (simp add: control_inv_irrelevant)
        note defs = s_def [symmetric] d_def [symmetric]
        have run: "create_server env n bp swr ov c =
          (if \<not> ce_store_ok env then Some (Ret (Inl StoreFailed, abort_create env ?c2))
           else case ce_daemon env of Some e \<Rightarrow> Some (Ret (Inl (DaemonFailed e), abort_create env ?c3))
             | None \<Rightarrow> Some (Ret (Inr s, ?c3)))"
          using Ret Inr cs r Some
          by (cases "ce_daemon env") (simp_all add: create_server_def heap_at_def Let_def defs)
        have nodes: "get_node j (abort_create env ?c2) = get_node j c" "get_node j (abort_create env ?c3) = get_node j c" for j
          by (simp_all add: get_node_def abort_create_parts)
        have o1: "create_outcome env n c (Inl StoreFailed) (abort_create env ?c2)"
          using new s taken [of "abort_create env ?c2"] by (auto simp: create_outcome_def abort_create_parts)
        have o2: "create_outcome env n c (Inl (DaemonFailed e)) (abort_create env ?c3)" for e
          using new s taken [of "abort_create env ?c3"] by (auto simp: create_outcome_def abort_create_parts)
        have o3: "create_outcome env n c (Inr s) ?c3"
          using s taken [of ?c3] Some by (auto simp: create_outcome_def d_def s_def)
        show ?thesis
          using run o1 o2 o3 nodes inv3 abort_create_inv [OF inv2] abort_create_inv [OF inv3]
          by (cases "ce_store_ok env"; cases "ce_daemon env") simp_all
      qed
    qed
  qed
qed

lemma release_remove_inv:
  assumes inv: "control_inv c" and s: "get_server sid c = Some s" and a: "a < length (cs_heap c)"
    and own: "\<forall>j m. get_node j c = Some m \<longrightarrow> cn_alloc m = Some a \<longrightarrow> j = sv_node_id s"
  shows "control_inv (server_remove sid (heap_update a (release_port (fst (server_port s)) (snd (server_port s))) c))"
proof -
  let ?rel = "release_port (fst (server_port s)) (snd (server_port s))"
  let ?c = "server_remove sid (heap_update a ?rel c)"
  have at: "heap_at ?c b = (if b = a then ?rel (heap_at c a) else heap_at c b)" for b
    using a by (simp add: heap_at_update)
  have off: "offered (?rel x) = offered x" for x
    by (simp add: offered_def release_port_def split: option.splits)
  have rel: "release_ok ?c t = release_ok c t" for t by (simp add: release_ok_def)
  have "attached_ok ?c t" if t: "get_server j c = Some t" "j \<noteq> sid" for j t
  proof (cases "get_node (sv_node_id t) c")
    case None
    then show ?thesis using control_invD(4) [OF inv t(1)] by (simp add: attached_ok_def)
  next
    case (Some n)
    have "server_port t \<noteq> server_port s" if "cn_alloc n = Some a"
      using control_invD(10) [OF inv] own Some that s t unfolding ports_distinct_def by metis
    then have "server_port t \<in> held (heap_at c b) \<Longrightarrow> cn_alloc n = Some b \<Longrightarrow> server_port t \<in> held (heap_at ?c b)" for b
      by (auto simp: heap_at_update [OF a] held_release)
    moreover have "offered (heap_at ?c b) = offered (heap_at c b)" for b
      by (simp add: heap_at_update [OF a] off)
    ultimately show ?thesis
      using control_invD(4) [OF inv t(1)] Some by (simp add: attached_ok_def rel)
  qed
  moreover have "\<forall>x \<in> set (cs_heap ?c). alloc_inv x"
    using inv set_update_subset_insert [of "cs_heap c" a "?rel (cs_heap c ! a)"] alloc_inv_release control_invD(8) [OF inv a]
    by (auto simp: control_inv_def nodes_ok_def heap_at_def)
  then have "nodes_ok ?c" using inv by (simp add: control_inv_def nodes_ok_def)
  moreover have "balancer_ok ?c" using inv by (simp add: control_inv_def balancer_ok_def)
  moreover have "ports_distinct ?c"
    using control_invD(10) [OF inv] by (simp add: ports_distinct_def)
  ultimately show ?thesis
    using control_invD(1,3) [OF inv] by (auto simp: control_inv_def servers_ok_def split: if_splits)
qed

text \<open>The allocator a server's release gives its port back to; \<open>None\<close> where nothing is released.\<close>

definition release_target :: "control \<Rightarrow> server \<Rightarrow> nat option" where
  "release_target c s = (case sv_release s of
     None \<Rightarrow> None
   | Some (RelAlloc a) \<Rightarrow> Some a
   | Some (RelNode nid) \<Rightarrow> (case get_node nid c of None \<Rightarrow> None | Some n \<Rightarrow> cn_alloc n))"

definition release_nil :: "control \<Rightarrow> server \<Rightarrow> bool" where
  "release_nil c s \<longleftrightarrow> (\<exists>nid n. sv_release s = Some (RelNode nid) \<and> get_node nid c = Some n \<and> cn_alloc n = None)"

definition cleaned :: "string \<Rightarrow> bool \<Rightarrow> control \<Rightarrow> control \<Rightarrow> bool" where
  "cleaned sid db_ok c c' \<longleftrightarrow> (\<forall>j. get_node j c' = get_node j c) \<and>
     (\<forall>j. get_server j c' = (if j = sid then None else get_server j c)) \<and>
     (\<forall>j. gm_get (cs_db c') j = (if j = sid \<and> db_ok then None else gm_get (cs_db c) j)) \<and>
     cs_events c' = cs_events c @ [(sid, DeletedEvent)]"

lemma cleanup_spec:
  assumes inv: "control_inv c" and s: "get_server sid c = Some s"
  shows "(if release_nil c s then cleanup_for_destroy db_ok sid c = Panic
    else \<exists>c'. cleanup_for_destroy db_ok sid c = Ret c' \<and> control_inv c' \<and> cleaned sid db_ok c c' \<and>
      (\<forall>a. a < length (cs_heap c) \<longrightarrow> held (heap_at c' a) =
         (if release_target c s = Some a then held (heap_at c a) - {server_port s} else held (heap_at c a))))"
proof -
  let ?c1 = "publish_event sid DeletedEvent c"
  let ?fin = "\<lambda>c. (if db_ok then (server_remove sid c)\<lparr>cs_db := gm_del (cs_db (server_remove sid c)) sid\<rparr> else server_remove sid c)"
  have run: "cleanup_for_destroy db_ok sid c = go_bind (run_release (sv_release s) (server_port s) ?c1) (\<lambda>c. Ret (?fin c))"
    using s by (simp add: cleanup_for_destroy_def Let_def)
  have inv1: "control_inv ?c1" using inv by (simp add: control_inv_irrelevant)
  have fin: "control_inv (?fin x) = control_inv (server_remove sid x)" for x by (simp add: control_inv_irrelevant)
  have cl: "cleaned sid db_ok c (?fin ?c1)"
    "cleaned sid db_ok c (?fin (heap_update a f ?c1))" for a f
    by (simp_all add: cleaned_def publish_event_def server_remove_def heap_update_def get_server_def get_node_def)
  have none: ?thesis if "release_target c s = None" "\<not> release_nil c s" "run_release (sv_release s) (server_port s) ?c1 = Ret ?c1"
    using that run inv1 fin cl server_remove_inv [OF inv1] by (intro if_not_P [THEN iffD2] exI [of _ "?fin ?c1"]) auto
  have some: ?thesis if t: "release_target c s = Some a" "\<not> release_nil c s" "a < length (cs_heap c)"
    "\<forall>j m. get_node j c = Some m \<longrightarrow> cn_alloc m = Some a \<longrightarrow> j = sv_node_id s"
    "run_release (sv_release s) (server_port s) ?c1 =
       Ret (heap_update a (release_port (fst (server_port s)) (snd (server_port s))) ?c1)" for a
  proof -
    let ?c2 = "heap_update a (release_port (fst (server_port s)) (snd (server_port s))) ?c1"
    have "control_inv (?fin ?c2)"
      unfolding fin by (rule release_remove_inv [OF inv1]) (use s t in auto)
    moreover have "held (heap_at (?fin ?c2) b) = (if a = b then held (heap_at c b) - {server_port s} else held (heap_at c b))"
      if "b < length (cs_heap c)" for b
      using that t(3) by (auto simp: heap_at_update held_release)
    ultimately show ?thesis using run t cl(2) by auto
  qed
  show ?thesis
  proof (cases "sv_release s")
    case None
    show ?thesis by (rule none) (use None in \<open>simp_all add: release_target_def release_nil_def run_release_def\<close>)
  next
    case rel: (Some r)
    have ok: "release_ok c s"
      using control_invD(4) [OF inv s] rel by (auto simp: attached_ok_def split: option.splits)
    show ?thesis
    proof (cases r)
      case (RelAlloc a)
      with ok rel have own: "a < length (cs_heap c)"
        "\<forall>j m. get_node j c = Some m \<longrightarrow> cn_alloc m = Some a \<longrightarrow> j = sv_node_id s"
        by (auto simp: release_ok_def)
      show ?thesis
        by (rule some [of a]) (use own rel RelAlloc in \<open>simp_all add: release_target_def release_nil_def run_release_def\<close>)
    next
      case (RelNode nid)
      then have nid: "nid = sv_node_id s" using ok rel by (auto simp: release_ok_def)
      have gn: "gm_get (cs_nodes ?c1) nid = get_node nid c" by (simp add: get_node_def)
      obtain n where n: "get_node nid c = Some n"
        using control_invD(4) [OF inv s] rel nid by (auto simp: attached_ok_def split: option.splits)
      show ?thesis
      proof (cases "cn_alloc n")
        case None
        then have "release_nil c s" "run_release (sv_release s) (server_port s) ?c1 = Panic"
          using rel RelNode n gn by (auto simp: release_nil_def run_release_def)
        then show ?thesis using run by simp
      next
        case (Some a)
        have "\<forall>j m. get_node j c = Some m \<longrightarrow> cn_alloc m = Some a \<longrightarrow> j = sv_node_id s"
          using inv n Some nid unfolding control_inv_def nodes_ok_def by blast
        moreover have "a < length (cs_heap c)" using control_invD(6) [OF inv n Some] .
        ultimately show ?thesis
          using rel RelNode n gn Some by (intro some [of a]) (simp_all add: release_target_def release_nil_def run_release_def)
      qed
    qed
  qed
qed

section \<open>Reachable states\<close>

text \<open>Protocube starts on the servers of its database, with no node connected.\<close>

definition empty_control :: "(string, server_record) gomap \<Rightarrow> control" where
  "empty_control d = \<lparr>cs_nodes = [], cs_lb = new_round_robin, cs_heap = [], cs_servers = [], cs_db = d,
     cs_drained_db = [], cs_events = []\<rparr>"

definition record_port :: "server_record \<Rightarrow> (string \<times> string \<times> int) option" where
  "record_port r = (case rec_config r of None \<Rightarrow> None
     | Some cfg \<Rightarrow> Some (rec_node_id r, ea_default_ip (sc_allocations cfg), ea_default_port (sc_allocations cfg)))"

text \<open>A database whose keys are the identifiers and whose servers do not share ports.\<close>

definition db_ok :: "(string, server_record) gomap \<Rightarrow> bool" where
  "db_ok d \<longleftrightarrow> gm_wf d \<and> (\<forall>i r. gm_get d i = Some r \<longrightarrow> rec_id r = i) \<and>
     (\<forall>i j r q. gm_get d i = Some r \<longrightarrow> gm_get d j = Some q \<longrightarrow> record_port r \<noteq> None \<longrightarrow>
        record_port r = record_port q \<longrightarrow> i = j)"

lemma empty_control_inv: "control_inv (empty_control d)"
  by (simp add: control_inv_def nodes_ok_def balancer_ok_def servers_ok_def ports_distinct_def empty_control_def
      get_node_def get_server_def rr_inv_new rr_abs_def new_round_robin_def rr_inv_def)

lemma init_server_boot:
  assumes "cs_nodes c = []"
  shows "\<exists>res. init_server r c = Ret (res, c) \<and> (\<forall>s. res = Inr s \<longrightarrow> sv_id s = rec_id r \<and> sv_node_id s = rec_node_id r \<and>
     sv_client s = None \<and> sv_release s = None \<and> record_port r = Some (sv_node_id s, server_port s))"
  using assms
  by (auto simp: init_server_def validate_record_def record_port_def server_port_def Let_def split: option.splits)

lemma init_servers_boot:
  assumes "control_inv c" "cs_nodes c = []" "distinct (map rec_id rs)"
    and "\<forall>r \<in> set rs. get_server (rec_id r) c = None"
    and "\<forall>r \<in> set rs. \<forall>q \<in> set rs. record_port r \<noteq> None \<longrightarrow> record_port r = record_port q \<longrightarrow> rec_id r = rec_id q"
    and "\<forall>r \<in> set rs. \<forall>i s. get_server i c = Some s \<longrightarrow> record_port r \<noteq> Some (sv_node_id s, server_port s)"
  shows "\<exists>c'. init_servers rs c = Ret c' \<and> control_inv c' \<and> cs_nodes c' = []"
  using assms
proof (induction rs arbitrary: c)
  case (Cons r rs)
  obtain res where res: "init_server r c = Ret (res, c)" "\<forall>s. res = Inr s \<longrightarrow> sv_id s = rec_id r \<and>
      sv_node_id s = rec_node_id r \<and> sv_client s = None \<and> sv_release s = None \<and>
      record_port r = Some (sv_node_id s, server_port s)"
    using init_server_boot [OF Cons.prems(2), of r] by blast
  show ?case
  proof (cases res)
    case (Inl e)
    have "\<exists>c'. init_servers rs c = Ret c' \<and> control_inv c' \<and> cs_nodes c' = []"
    proof (rule Cons.IH [OF Cons.prems(1,2)])
      show "distinct (map rec_id rs)" using Cons.prems(3) by simp
      show "\<forall>q \<in> set rs. get_server (rec_id q) c = None" using Cons.prems(4) by simp
      show "\<forall>p \<in> set rs. \<forall>q \<in> set rs. record_port p \<noteq> None \<longrightarrow> record_port p = record_port q \<longrightarrow> rec_id p = rec_id q"
        using Cons.prems(5) unfolding list.set by blast
      show "\<forall>r \<in> set rs. \<forall>i s. get_server i c = Some s \<longrightarrow> record_port r \<noteq> Some (sv_node_id s, server_port s)"
        using Cons.prems(6) by simp
    qed
    then show ?thesis using res(1) Inl by simp
  next
    case (Inr s)
    with res(2) have s: "sv_id s = rec_id r" "sv_client s = None" "sv_release s = None"
      "record_port r = Some (sv_node_id s, server_port s)" by auto
    have "attached_ok c s" using s Cons.prems(2) by (simp add: attached_ok_def get_node_def)
    moreover have "server_port t \<noteq> server_port s"
      if "get_server i c = Some t" "sv_node_id t = sv_node_id s" for i t
    proof -
      have "record_port r \<noteq> Some (sv_node_id t, server_port t)" using Cons.prems(6) that(1) by simp
      then show ?thesis using s(4) that(2) by auto
    qed
    ultimately have inv1: "control_inv (server_add s c)"
      using Cons.prems(4) s by (intro server_add_new_inv [OF Cons.prems(1)]) auto
    have ne: "rec_id q \<noteq> rec_id r" if "q \<in> set rs" for q
    proof -
      have "rec_id q \<in> rec_id ` set rs" using that by (rule imageI)
      moreover have "rec_id r \<notin> rec_id ` set rs" using Cons.prems(3) by simp
      ultimately show ?thesis by metis
    qed
    have "\<exists>c'. init_servers rs (server_add s c) = Ret c' \<and> control_inv c' \<and> cs_nodes c' = []"
    proof (rule Cons.IH [OF inv1])
      show "cs_nodes (server_add s c) = []" using Cons.prems(2) by simp
      show "distinct (map rec_id rs)" using Cons.prems(3) by simp
      show "\<forall>p \<in> set rs. \<forall>q \<in> set rs. record_port p \<noteq> None \<longrightarrow> record_port p = record_port q \<longrightarrow> rec_id p = rec_id q"
        using Cons.prems(5) unfolding list.set by blast
      show "\<forall>q \<in> set rs. get_server (rec_id q) (server_add s c) = None" using Cons.prems(4) ne s by simp
      show "\<forall>q \<in> set rs. \<forall>i t. get_server i (server_add s c) = Some t \<longrightarrow>
          record_port q \<noteq> Some (sv_node_id t, server_port t)"
      proof (intro ballI allI impI)
        fix q i t assume q: "q \<in> set rs" and t: "get_server i (server_add s c) = Some t"
        show "record_port q \<noteq> Some (sv_node_id t, server_port t)"
        proof (cases "t = s")
          case True
          have "rec_id q = rec_id r" if "record_port q = record_port r"
            using Cons.prems(5) q that s(4) by (metis list.set_intros option.distinct(1))
          then show ?thesis using ne [OF q] s(4) True by metis
        next
          case False
          then show ?thesis using Cons.prems(6) q t by (auto split: if_splits)
        qed
      qed
    qed
    then show ?thesis using res(1) Inr by simp
  qed
qed auto

lemma boot_inv:
  assumes "db_ok d"
  shows "\<exists>c. init_servers (gm_values d) (empty_control d) = Ret c \<and> control_inv c"
proof -
  have key: "rec_id r = i" if "(i, r) \<in> set d" for i r
    using assms that gm_get_in [of d i r] by (auto simp: db_ok_def)
  have "map rec_id (gm_values d) = map fst d" using key by (auto simp: gm_values_def)
  then have 1: "distinct (map rec_id (gm_values d))" using assms by (simp add: db_ok_def gm_wf_def)
  have 2: "rec_id r = rec_id q" if h: "r \<in> set (gm_values d)" "q \<in> set (gm_values d)"
      "record_port r \<noteq> None" "record_port r = record_port q" for r q
  proof -
    have wf: "gm_wf d" using assms by (simp add: db_ok_def)
    obtain i j where i: "gm_get d i = Some r" and j: "gm_get d j = Some q"
      using h(1,2) unfolding set_gm_values [OF wf] by blast
    have "i = j" using assms i j h(3,4) unfolding db_ok_def by blast
    then show ?thesis using i j by simp
  qed
  have "\<exists>c'. init_servers (gm_values d) (empty_control d) = Ret c' \<and> control_inv c' \<and> cs_nodes c' = []"
  proof (rule init_servers_boot [OF empty_control_inv _ 1])
    show "\<forall>r \<in> set (gm_values d). \<forall>q \<in> set (gm_values d). record_port r \<noteq> None \<longrightarrow>
        record_port r = record_port q \<longrightarrow> rec_id r = rec_id q"
      by (intro ballI impI) (rule 2)
  qed (simp_all add: empty_control_def get_server_def)
  then show ?thesis by blast
qed

text \<open>
  One handler or one tick of the health monitor. A new identifier is one nobody uses; a handler
  that panics changes nothing here (the router recovers).
\<close>

inductive control_step :: "control \<Rightarrow> control \<Rightarrow> bool" where
  registers: "ranges_valid r \<Longrightarrow> post_node_register db now token r c = Ret (resp, c') \<Longrightarrow> control_step c c'"
| beats: "control_step c (heartbeat now nid c)"
| disconnects: "disconnect_node nid c = Ret c' \<Longrightarrow> control_step c c'"
| ticks: "health_tick now c = Ret c' \<Longrightarrow> control_step c c'"
| drains: "control_step c (snd (set_drained db drained nid c))"
| creates: "(\<And>xs. mset (ce_shuffle env xs) = mset xs) \<Longrightarrow> get_server (ce_id env) c = None \<Longrightarrow>
    gm_get (cs_db c) (ce_id env) = None \<Longrightarrow>
    post_create_server env nid bpid ov br swr c = Some (Ret (resp, c')) \<Longrightarrow> control_step c c'"
| deletes: "delete_server daemon db force sid c = Ret (resp, c') \<Longrightarrow> control_step c c'"
| deleted: "cleanup_for_destroy db sid c = Ret c' \<Longrightarrow> control_step c c'"
| status: "control_step c (set_status sid st c)"
| crashes: "control_step c (handle_crash_report sid t c)"

inductive control_reachable :: "(string, server_record) gomap \<Rightarrow> control \<Rightarrow> bool" for d where
  boots: "init_servers (gm_values d) (empty_control d) = Ret c \<Longrightarrow> control_reachable d c"
| steps: "control_reachable d c \<Longrightarrow> control_step c c' \<Longrightarrow> control_reachable d c'"

lemma cleanup_inv:
  assumes "control_inv c" "cleanup_for_destroy db sid c = Ret c'"
  shows "control_inv c'"
proof (cases "get_server sid c")
  case None
  then show ?thesis using assms by (simp add: cleanup_for_destroy_def)
next
  case (Some s)
  from cleanup_spec [OF assms(1) Some, of db] assms(2) show ?thesis by (auto split: if_splits)
qed

lemma create_server_inv:
  assumes "control_inv c" "get_node i c = Some n" "\<And>xs. mset (ce_shuffle env xs) = mset xs"
    "get_server (ce_id env) c = None" "gm_get (cs_db c) (ce_id env) = None"
    "create_server env n bp swr ov c = Some (Ret (r, c'))"
  shows "control_inv c'"
proof (cases "bp_server bp = None")
  case False
  from create_server_spec [OF assms(1-5) False, of swr ov] assms(6) show ?thesis by auto
next
  case True
  have "build_server_configuration (ce_compile env) (ce_marshal env) (ce_id env) ov bp swr al = Panic" for al
    using True by (simp add: build_server_configuration_def)
  then have nr: "create_server env n bp swr ov c = Some (Ret (r, c')) \<Longrightarrow> cn_alloc n = Some a \<Longrightarrow>
      \<exists>e al. new_allocation (ce_shuffle env) (cs_heap c ! a) = Some (Inl e, al) \<and> c' = heap_update a (\<lambda>_. al) c" for a
    by (auto simp: create_server_def split: option.splits sum.splits)
  show ?thesis
  proof (cases "cn_alloc n")
    case None
    then show ?thesis using assms(1,6) by (simp add: create_server_def)
  next
    case (Some a)
    obtain e al where al: "new_allocation (ce_shuffle env) (heap_at c a) = Some (Inl e, al)" "c' = heap_update a (\<lambda>_. al) c"
      using nr [OF assms(6) Some] by (auto simp: heap_at_def)
    have "alloc_inv (heap_at c a)" using control_invD(7) [OF assms(1,2) Some] .
    from new_allocation_cases [of "heap_at c a" "ce_shuffle env", OF this assms(3)] al
    show ?thesis by (auto intro!: update_heap_inv [OF assms(1)])
  qed
qed

lemma pick_node_control:
  assumes "control_inv c" "pick_node d (cs_lb c) = Ret (r, lb)"
  shows "control_inv (c\<lparr>cs_lb := lb\<rparr>)"
proof -
  obtain r' b' where b: "pick_node d (cs_lb c) = Ret (r', b')" "rr_inv (\<lambda>i. i) b'"
      "rr_abs (\<lambda>i. i) b' = rr_abs (\<lambda>i. i) (cs_lb c)"
    using rr.pick_ok [OF control_invD(9) [OF assms(1)], of d] by blast
  with assms(2) have "b' = lb" by simp
  with b show ?thesis using control_inv_lb [OF assms(1)] by simp
qed

lemma post_create_inv:
  assumes inv: "control_inv c" and perm: "\<And>xs. mset (ce_shuffle env xs) = mset xs"
    and new: "get_server (ce_id env) c = None" "gm_get (cs_db c) (ce_id env) = None"
    and run: "post_create_server env nid bpid ov br swr c = Some (Ret (resp, c'))"
  shows "control_inv c'"
proof -
  let ?pick = "if nid \<noteq> [] then Ret (map_option cn_id (get_node nid c), c)
            else go_bind (pick_node (node_drained c) (cs_lb c)) (\<lambda>(r, lb). Ret (r, c\<lparr>cs_lb := lb\<rparr>))"
  obtain r c1 where p: "?pick = Ret (r, c1)"
    using run by (cases ?pick) (auto simp: post_create_server_def split del: if_split)
  have c1: "control_inv c1" "get_server (ce_id env) c1 = None" "gm_get (cs_db c1) (ce_id env) = None"
    using p inv new pick_node_control [OF inv] by (auto simp: go_bind_Ret_iff split: if_splits)
  show ?thesis
  proof (cases r)
    case None
    then show ?thesis using run p c1 by (simp add: post_create_server_def del: if_split split del: if_split)
  next
    case (Some i)
    show ?thesis
    proof (cases "get_node i c1")
      case None
      then show ?thesis using run p c1 Some by (simp add: post_create_server_def split del: if_split)
    next
      case n: (Some n)
      show ?thesis
      proof (cases "br_get bpid br")
        case None
        then show ?thesis using run p c1 Some n by (simp add: post_create_server_def split del: if_split)
      next
        case bp: (Some bp)
        obtain res where res: "create_server env n bp swr ov c1 = Some (Ret (res, c'))"
          using run p Some n bp
          by (auto simp: post_create_server_def split del: if_split split: option.splits go.splits sum.splits)
        show ?thesis by (rule create_server_inv [OF c1(1) n perm c1(2,3) res])
      qed
    qed
  qed
qed

lemma delete_inv:
  assumes "control_inv c" "delete_server daemon db force sid c = Ret (resp, c')"
  shows "control_inv c'"
  using assms cleanup_inv [OF assms(1)]
  by (auto simp: delete_server_def go_bind_Ret_iff split: option.splits sum.splits if_splits)

lemma control_step_inv: "control_step c c' \<Longrightarrow> control_inv c \<Longrightarrow> control_inv c'"
proof (induction rule: control_step.induct)
  case (disconnects nid c c')
  from disconnect_node_spec [OF disconnects(2), of nid] disconnects(1) show ?case by auto
next
  case (ticks now c c')
  from disconnect_all_spec [OF ticks(2), of "timed_out now c"] ticks(1) show ?case by (auto simp: health_tick_def)
qed (auto intro: post_node_register_inv heartbeat_inv set_drained_inv post_create_inv delete_inv cleanup_inv
      set_status_inv crash_inv)

lemma control_reachable_inv: "control_reachable d c \<Longrightarrow> db_ok d \<Longrightarrow> control_inv c"
proof (induction rule: control_reachable.induct)
  case (boots c)
  then show ?case using boot_inv [of d] by auto
next
  case (steps c c')
  then show ?case using control_step_inv by blast
qed

section \<open>The properties\<close>

text \<open>
  C7. A registration with valid fields and port ranges never panics and answers with the token the
  client of the node carries: the new token for a node that was not connected, the current one
  (with the client it already had) for a node that was. The node is then known, every server
  of the node is attached to it and every other node and server is as before.
\<close>

theorem registration_attaches:
  assumes "control_inv c" "ranges_valid r" "validate_registration r = None"
    and "new_allocator (rg_allocations r) = Inr al" "get_node (rg_id r) c = None \<Longrightarrow> token = Some t"
  shows "\<exists>n c'. post_node_register db now token r c = Ret (RespToken (nc_token (cn_client n)), c') \<and> control_inv c' \<and>
    (case get_node (rg_id r) c of
       None \<Rightarrow> cn_client n = \<lparr>nc_node_id = rg_id r, nc_url = rg_url r, nc_token = t\<rparr> \<and> cn_last_seen n = now
     | Some m \<Rightarrow> cn_client n = cn_client m \<and> cn_drained n = cn_drained m) \<and>
    (\<forall>j. get_node j c' = (if j = rg_id r then Some n else get_node j c)) \<and>
    (\<forall>j. get_server j c' = map_option (\<lambda>s. if sv_node_id s = rg_id r then attached n s else s) (get_server j c))"
proof (cases "get_node (rg_id r) c")
  case None
  have al: "alloc_inv al" using new_allocator_inv assms(2,4) by blast
  obtain n c' where c': "register_node db now r t (length (cs_heap c)) (c\<lparr>cs_heap := cs_heap c @ [al]\<rparr>) = Ret c'"
    "control_inv c'" "cn_client n = \<lparr>nc_node_id = rg_id r, nc_url = rg_url r, nc_token = t\<rparr>" "cn_last_seen n = now"
    "\<And>j. get_node j c' = (if j = rg_id r then Some n else get_node j c)"
    "\<And>j. get_server j c' = map_option (\<lambda>s. if sv_node_id s = rg_id r then attached n s else s) (get_server j c)"
    using register_new [OF assms(1) al None, of db now t] by blast
  then show ?thesis
    using assms(3,4,5) None by (intro exI [of _ n] exI [of _ c']) (simp add: post_node_register_def)
next
  case (Some m)
  have al: "alloc_inv al" using new_allocator_inv assms(2,4) by blast
  let ?n = "m\<lparr>cn_alloc := Some (length (cs_heap c))\<rparr>"
  show ?thesis
  proof (rule register_known [OF assms(1) al Some])
    fix c'
    assume "attach_node_client (rg_id r) ?n (node_add ?n (c\<lparr>cs_heap := cs_heap c @ [al]\<rparr>)) = Ret c'"
      "control_inv c'" "\<And>j. get_node j c' = (if j = rg_id r then Some ?n else get_node j c)"
      "\<And>j. get_server j c' = map_option (\<lambda>s. if sv_node_id s = rg_id r then attached ?n s else s) (get_server j c)"
    then show ?thesis
      using assms(3,4) Some by (intro exI [of _ ?n] exI [of _ c']) (simp add: post_node_register_def Let_def)
  qed
qed

text \<open>
  C1. In every state Protocube can reach from a database without shared ports: the balancer
  holds exactly the connected nodes; a server has a client exactly while its node is connected,
  and it is the node's; no two servers of a node have the same address and port; and the
  port of every server of a connected node is held in the node's allocator if the node offers
  it, so that no allocation hands it out again.
\<close>

theorem control_plane_safe:
  assumes "db_ok d" "control_reachable d c"
  shows "(\<forall>i. rr_abs (\<lambda>i. i) (cs_lb c) i \<noteq> None \<longleftrightarrow> get_node i c \<noteq> None) \<and>
    (\<forall>i s. get_server i c = Some s \<longrightarrow> sv_client s = map_option cn_client (get_node (sv_node_id s) c)) \<and>
    (\<forall>i j s t. get_server i c = Some s \<longrightarrow> get_server j c = Some t \<longrightarrow> i \<noteq> j \<longrightarrow>
       sv_node_id s = sv_node_id t \<longrightarrow> server_port s \<noteq> server_port t) \<and>
    (\<forall>i s n a. get_server i c = Some s \<longrightarrow> get_node (sv_node_id s) c = Some n \<longrightarrow> cn_alloc n = Some a \<longrightarrow>
       server_port s \<in> offered (heap_at c a) \<longrightarrow> server_port s \<in> held (heap_at c a))"
proof -
  have inv: "control_inv c" using control_reachable_inv assms by blast
  have "sv_client s = map_option cn_client (get_node (sv_node_id s) c)" if "get_server i c = Some s" for i s
    using control_invD(4) [OF inv that] by (auto simp: attached_ok_def split: option.splits)
  moreover have "server_port s \<in> held (heap_at c a)"
    if "get_server i c = Some s" "get_node (sv_node_id s) c = Some n" "cn_alloc n = Some a"
      "server_port s \<in> offered (heap_at c a)" for i s n a
    using control_invD(4) [OF inv that(1)] that by (simp add: attached_ok_def)
  moreover have "\<forall>i. rr_abs (\<lambda>i. i) (cs_lb c) i \<noteq> None \<longleftrightarrow> get_node i c \<noteq> None"
    using inv by (simp add: control_inv_def balancer_ok_def)
  ultimately show ?thesis using control_invD(10) [OF inv] unfolding ports_distinct_def by blast
qed

text \<open>
  C2. A creation on a connected node always returns, keeps the state consistent and changes no
  node. If it succeeds, the server is in memory and in the database under the new identifier,
  attached, with the configuration sent to the daemon, on a port the node offers that nobody
  held and that alone is newly held. If it fails, no server is left in memory, and in the
  database only if the daemon failed and the removal too; but once a port was chosen it stays
  held, although no server has it.
\<close>

theorem create_server_outcome:
  assumes "control_inv c" "get_node i c = Some n" "\<And>xs. mset (ce_shuffle env xs) = mset xs"
    and "get_server (ce_id env) c = None" "gm_get (cs_db c) (ce_id env) = None" "bp_server bp \<noteq> None"
  shows "\<exists>r c'. create_server env n bp swr ov c = Some (Ret (r, c')) \<and> control_inv c' \<and>
    (\<forall>j. get_node j c' = get_node j c) \<and> create_outcome env n c r c'"
  by (rule create_server_spec [OF assms])

text \<open>
  C5. Deleting undoes creating: after the clean-up of a server that has just been created, memory,
  database, nodes and the ports in use are what they were before the creation.
\<close>

theorem create_delete_roundtrip:
  assumes inv: "control_inv c" and n: "get_node i c = Some n" and perm: "\<And>xs. mset (ce_shuffle env xs) = mset xs"
    and new: "get_server (ce_id env) c = None" "gm_get (cs_db c) (ce_id env) = None" and bp: "bp_server bp \<noteq> None"
    and run: "create_server env n bp swr ov c = Some (Ret (Inr s, c1))"
  shows "\<exists>c2. cleanup_for_destroy True (ce_id env) c1 = Ret c2 \<and> control_inv c2 \<and>
    (\<forall>j. get_server j c2 = get_server j c \<and> gm_get (cs_db c2) j = gm_get (cs_db c) j \<and> get_node j c2 = get_node j c) \<and>
    (\<forall>a. cn_alloc n = Some a \<longrightarrow> held (heap_at c2 a) = held (heap_at c a))"
proof -
  from create_server_spec [OF inv n perm new bp, of swr ov] run
  have c1: "control_inv c1" "\<forall>j. get_node j c1 = get_node j c" "create_outcome env n c (Inr s) c1" by auto
  then obtain a where a: "cn_alloc n = Some a" "new_server env n a s" "port_taken n (server_port s) c c1"
    by (auto simp: create_outcome_def)
  have s: "get_server (ce_id env) c1 = Some s" "sv_release s = Some (RelAlloc a)"
    using c1(3) a(2) by (auto simp: create_outcome_def new_server_def)
  have len: "a < length (cs_heap c1)" using control_invD(6) [OF c1(1), of i n a] c1(2) n a(1) by simp
  obtain c2 where c2: "cleanup_for_destroy True (ce_id env) c1 = Ret c2" "control_inv c2" "cleaned (ce_id env) True c1 c2"
    "held (heap_at c2 a) = held (heap_at c1 a) - {server_port s}"
    using cleanup_spec [OF c1(1) s(1), of True] s(2) len by (auto simp: release_nil_def release_target_def)
  have "held (heap_at c2 a) = held (heap_at c a)" using c2(4) a(1,3) by (auto simp: port_taken_def)
  then show ?thesis
    using c2 c1(2,3) new a(1) by (auto simp: cleaned_def create_outcome_def)
qed

text \<open>
  C6. A tick of the health monitor disconnects exactly the nodes not heard of for more than the
  timeout: they leave the node manager and the balancer, their servers lose their client, and
  every other node and server is as before.
\<close>

theorem health_tick_exact:
  assumes "control_inv c"
  shows "\<exists>c'. health_tick now c = Ret c' \<and> control_inv c' \<and>
    (\<forall>i. get_node i c' = (case get_node i c of None \<Rightarrow> None
       | Some n \<Rightarrow> if now - cn_last_seen n > health_timeout then None else Some n)) \<and>
    (\<forall>i. rr_abs (\<lambda>i. i) (cs_lb c') i \<noteq> None \<longleftrightarrow> get_node i c' \<noteq> None) \<and>
    (\<forall>i s. get_server i c = Some s \<longrightarrow> (\<exists>t. get_server i c' = Some t \<and> server_port t = server_port s \<and>
       sv_client t = (if get_node (sv_node_id s) c' = None then None else sv_client s)))"
proof -
  have mem: "i \<in> set (timed_out now c) \<longleftrightarrow> (\<exists>n. get_node i c = Some n \<and> now - cn_last_seen n > health_timeout)" for i
    using control_invD(5) [OF assms] set_gm_values [OF control_invD(2) [OF assms]]
    by (auto simp: timed_out_def get_nodes_def get_node_def image_iff)
  obtain c' where c': "health_tick now c = Ret c'" "control_inv c'"
    "\<forall>i. get_node i c' = (if i \<in> set (timed_out now c) then None else get_node i c)"
    "\<forall>i. get_server i c' = map_option (\<lambda>s. if sv_node_id s \<in> set (timed_out now c) then detached s else s) (get_server i c)"
    using disconnect_all_spec [OF assms, of "timed_out now c"] by (auto simp: health_tick_def)
  have nodes: "get_node i c' = (case get_node i c of None \<Rightarrow> None
       | Some n \<Rightarrow> if now - cn_last_seen n > health_timeout then None else Some n)" for i
    using c'(3) mem [of i] by (auto split: option.splits)
  have srv: "\<exists>t. get_server i c' = Some t \<and> server_port t = server_port s \<and>
       sv_client t = (if get_node (sv_node_id s) c' = None then None else sv_client s)"
    if s: "get_server i c = Some s" for i s
  proof (cases "sv_node_id s \<in> set (timed_out now c)")
    case True
    then show ?thesis using c'(3,4) s by simp
  next
    case False
    then have "get_node (sv_node_id s) c = None \<Longrightarrow> sv_client s = None"
      using control_invD(4) [OF assms s] by (auto simp: attached_ok_def)
    then show ?thesis using c'(3,4) s False by auto
  qed
  have "\<forall>i. rr_abs (\<lambda>i. i) (cs_lb c') i \<noteq> None \<longleftrightarrow> get_node i c' \<noteq> None"
    using c'(2) by (simp add: control_inv_def balancer_ok_def)
  with c'(1,2) nodes srv show ?thesis by (intro exI [of _ c'] conjI allI impI) simp_all
qed

section \<open>Concrete runs\<close>

definition example_registration :: registration where
  "example_registration = \<lparr>rg_id = ''node-0001'', rg_name = ''n1'', rg_location = ''eu'', rg_url = ''http://n1'',
     rg_allocations = [\<lparr>ma_address = ''10.0.0.1'', ma_alias = ''eu'', ma_force_outgoing_ip = False, ma_ports = ''25565-25566''\<rparr>]\<rparr>"

definition example_env :: "string \<Rightarrow> client_error option \<Rightarrow> create_env" where
  "example_env i e = \<lparr>ce_id = i, ce_shuffle = (\<lambda>xs. xs), ce_compile = (\<lambda>p. None), ce_marshal = (\<lambda>v. None),
     ce_store_ok = True, ce_daemon = e, ce_remove_ok = True\<rparr>"

definition example_control1 :: "(response \<times> control) go" where
  "example_control1 = post_node_register True 5 (Some ''tok'') example_registration (empty_control [])"

definition example_control :: control where
  "example_control = (case example_control1 of Ret (_, c) \<Rightarrow> c | Panic \<Rightarrow> empty_control [])"

definition example_blueprints :: blueprint_registry where
  "example_blueprints = br_register build_blueprint br_new"

definition example_create :: "(response \<times> control) go option" where
  "example_create = post_create_server (example_env ''s1'' None) ''node-0001'' (bp_id build_blueprint) None
     example_blueprints paper_registry example_control"

lemma example_env_simps [simp]: "ce_id (example_env i e) = i" "ce_shuffle (example_env i e) xs = xs"
  "ce_remove_ok (example_env i e)"
  by (simp_all add: example_env_def)

lemma build_blueprint_server: "bp_server build_blueprint \<noteq> None"
  by (simp add: build_blueprint_def)

lemma example_registered: "\<exists>c. example_control1 = Ret (RespToken ''tok'', c)"
proof -
  have "case example_control1 of Ret (RespToken t, c) \<Rightarrow> t = ''tok'' | _ \<Rightarrow> False" by code_simp
  then show ?thesis by (auto split: go.splits response.splits)
qed

lemma example_ranges: "ranges_valid example_registration"
proof -
  have "(case get_range \<lparr>ma_address = ''10.0.0.1'', ma_alias = ''eu'', ma_force_outgoing_ip = False, ma_ports = ''25565-25566''\<rparr> of
      Inr r \<Rightarrow> pr_end r < int64_max | Inl e \<Rightarrow> True)"
    by code_simp
  then show ?thesis by (auto simp: ranges_valid_def example_registration_def)
qed

lemma example_control_step: "control_step (empty_control []) example_control"
  using example_registered control_step.registers [OF example_ranges, of True 5 "Some ''tok''" "empty_control []"]
  by (auto simp: example_control_def example_control1_def)

lemma empty_db_ok: "db_ok []" by (simp add: db_ok_def)

lemma example_control_reachable: "control_reachable [] example_control"
proof -
  have "control_reachable [] (empty_control [])" by (rule control_reachable.boots) (simp add: gm_values_def)
  then show ?thesis using example_control_step by (rule control_reachable.steps)
qed

lemma example_control_inv: "control_inv example_control"
  using control_reachable_inv [OF example_control_reachable empty_db_ok] .

lemma example_state:
  "get_server i example_control = None" "gm_get (cs_db example_control) i = None"
  "\<exists>n. get_node ''node-0001'' example_control = Some n \<and> cn_last_seen n = 5"
proof -
  have "cs_servers example_control = [] \<and> cs_db example_control = [] \<and>
    (case get_node ''node-0001'' example_control of Some n \<Rightarrow> cn_last_seen n = 5 | None \<Rightarrow> False)"
    by code_simp
  then show "get_server i example_control = None" "gm_get (cs_db example_control) i = None"
    "\<exists>n. get_node ''node-0001'' example_control = Some n \<and> cn_last_seen n = 5"
    by (auto simp: get_server_def split: option.splits)
qed

definition example_created :: control where
  "example_created = (case example_create of Some (Ret (_, c)) \<Rightarrow> c | _ \<Rightarrow> example_control)"

lemma example_created_step: "control_step example_control example_created"
proof -
  have "case example_create of Some (Ret (RespServer i, c)) \<Rightarrow> i = ''s1'' | _ \<Rightarrow> False" by code_simp
  then obtain c where c: "example_create = Some (Ret (RespServer ''s1'', c))"
    by (auto split: option.splits go.splits response.splits)
  have "control_step example_control c"
    by (rule control_step.creates [OF _ _ _ c [unfolded example_create_def]])
      (simp_all add: example_env_def example_state)
  then show ?thesis by (simp add: example_created_def c)
qed

lemma registration_attaches_witness:
  "\<exists>n c'. example_control1 = Ret (RespToken (nc_token (cn_client n)), c') \<and> nc_token (cn_client n) = ''tok'' \<and>
     get_node ''node-0001'' c' = Some n"
proof -
  have "(case new_allocator (rg_allocations example_registration) of Inr a \<Rightarrow> True | Inl e \<Rightarrow> False)" by code_simp
  then obtain al where al: "new_allocator (rg_allocations example_registration) = Inr al"
    by (auto split: sum.splits)
  have v: "validate_registration example_registration = None" "get_node (rg_id example_registration) (empty_control []) = None"
    by (simp_all add: validate_registration_def example_registration_def empty_control_def get_node_def)
  show ?thesis
    using registration_attaches [OF empty_control_inv example_ranges v(1) al, of "[]" "Some ''tok''" "''tok''" True 5] v(2)
    by (auto simp: example_control1_def example_registration_def)
qed

lemma control_plane_safe_witness:
  "\<exists>s. get_server ''s1'' example_created = Some s \<and> sv_client s \<noteq> None \<and> sv_node_id s = ''node-0001'' \<and>
     sv_client s = map_option cn_client (get_node (sv_node_id s) example_created)"
proof -
  have r: "control_reachable [] example_created"
    using example_control_reachable example_created_step by (rule control_reachable.steps)
  have "(case get_server ''s1'' example_created of Some s \<Rightarrow> sv_client s \<noteq> None \<and> sv_node_id s = ''node-0001'' | None \<Rightarrow> False)"
    by code_simp
  then obtain s where "get_server ''s1'' example_created = Some s" "sv_client s \<noteq> None" "sv_node_id s = ''node-0001''"
    by (auto split: option.splits)
  with control_plane_safe [OF empty_db_ok r] show ?thesis by blast
qed

lemma create_server_outcome_witness:
  "\<exists>n r c'. create_server (example_env ''s1'' (Some (OtherError ''down''))) n build_blueprint paper_registry None
     example_control = Some (Ret (r, c')) \<and> (\<forall>j. get_node j c' = get_node j example_control) \<and>
     create_outcome (example_env ''s1'' (Some (OtherError ''down''))) n example_control r c'"
proof -
  obtain n where n: "get_node ''node-0001'' example_control = Some n" using example_state(3) by blast
  show ?thesis
    using create_server_outcome [OF example_control_inv n, of "example_env ''s1'' (Some (OtherError ''down''))"
        build_blueprint paper_registry None] example_state build_blueprint_server
    by auto
qed

lemma create_delete_roundtrip_witness:
  "\<exists>n s c1 c2. create_server (example_env ''s1'' None) n build_blueprint paper_registry None example_control =
       Some (Ret (Inr s, c1)) \<and> cleanup_for_destroy True ''s1'' c1 = Ret c2 \<and>
     (\<forall>j. get_server j c2 = get_server j example_control)"
proof -
  obtain n where n: "get_node ''node-0001'' example_control = Some n" using example_state(3) by blast
  have "case create_server (example_env ''s1'' None) (the (get_node ''node-0001'' example_control)) build_blueprint
      paper_registry None example_control of Some (Ret (Inr s, c)) \<Rightarrow> True | _ \<Rightarrow> False"
    by code_simp
  then obtain s c1 where run: "create_server (example_env ''s1'' None) n build_blueprint paper_registry None example_control =
      Some (Ret (Inr s, c1))"
    using n by (auto split: option.splits go.splits sum.splits)
  obtain c2 where "cleanup_for_destroy True ''s1'' c1 = Ret c2" "\<forall>j. get_server j c2 = get_server j example_control"
    using create_delete_roundtrip [OF example_control_inv n _ _ _ build_blueprint_server run] example_state
    by auto
  with run show ?thesis by blast
qed

lemma health_tick_exact_witness:
  "\<exists>c'. health_tick (6 + health_timeout) example_control = Ret c' \<and> get_node ''node-0001'' c' = None"
proof -
  obtain n where "get_node ''node-0001'' example_control = Some n" "cn_last_seen n = 5" using example_state(3) by blast
  then show ?thesis
    using health_tick_exact [OF example_control_inv, of "6 + health_timeout"] by auto
qed

text \<open>
  The converse side of a registration: for a node that is connected, port ranges that do not parse
  leave it without an allocator, and the clean-up of a server attached to it then dereferences
  nil.
\<close>

lemma failed_reregistration_panics:
  assumes inv: "control_inv c" and n: "get_node (rg_id r) c = Some n" and v: "validate_registration r = None"
    and e: "new_allocator (rg_allocations r) = Inl e"
    and s: "get_server sid c = Some s" "sv_node_id s = rg_id r" "sv_release s = Some (RelNode (rg_id r))"
  shows "\<exists>c'. post_node_register db now token r c = Ret (RespError 500, c') \<and>
    cleanup_for_destroy ok sid c' = Panic"
proof -
  let ?c = "node_add (n\<lparr>cn_alloc := None\<rparr>) c"
  have id: "cn_id n = rg_id r" using control_invD(5) [OF inv n] .
  have "release_nil ?c s" using s id by (simp add: release_nil_def)
  then show ?thesis
    using cleanup_spec [OF nil_allocator_inv [OF inv n], of sid s ok] s n v e
    by (simp add: post_node_register_def)
qed

end
