(* ===== verification/Server_Sync.thy ===== *)
theory Server_Sync
  imports Node_Client "HOL-Library.Multiset"
begin

text \<open>
  How a daemon learns of its servers: the paginated answers of Protocube
  (\<^verbatim>\<open>getAllServerConfigurations\<close>, \<^verbatim>\<open>getAllBlueprints\<close> and \<^verbatim>\<open>logPaginationParams\<close> in
  \<^verbatim>\<open>protocube/api/router\<close>) and the client of the daemon that fetches all pages and registers the
  node when Protocube does not know it (\<^verbatim>\<open>daemon/remote\<close>). The pages after the first are fetched by
  concurrent goroutines: the order in which they append is an argument.
\<close>

section \<open>Pages\<close>

text \<open>A slice expression panics when its bounds are out of range or out of order.\<close>

definition go_slice :: "'a list \<Rightarrow> int \<Rightarrow> int \<Rightarrow> 'a list go" where
  "go_slice xs s e = (if 0 \<le> s \<and> s \<le> e \<and> e \<le> int (length xs)
     then Ret (take (nat e - nat s) (drop (nat s) xs)) else Panic)"

text \<open>A query parameter and its default; the error of \<^verbatim>\<open>Atoi\<close> is dropped.\<close>

definition query_int :: "string option \<Rightarrow> string \<Rightarrow> int" where
  "query_int v d = fst (atoi (case v of None \<Rightarrow> d | Some s \<Rightarrow> s))"

record pagination =
  pg_current_page :: int
  pg_from :: int
  pg_last_page :: int
  pg_per_page :: int
  pg_to :: int
  pg_total :: int

definition to_uint :: "int \<Rightarrow> int" where
  "to_uint x = x mod 2 ^ 64"

definition server_page :: "string option \<Rightarrow> string option \<Rightarrow> 'a list \<Rightarrow> ('a list \<times> pagination) go" where
  "server_page page_q per_q servers =
     (let page = query_int page_q ''1''; perPage = query_int per_q ''50'';
          page = (if page < 1 then 1 else page);
          perPage = (if perPage < 1 then 50 else perPage);
          total = int (length servers);
          start = wrap64 (wrap64 (page - 1) * perPage);
          end' = wrap64 (start + perPage);
          start = (if start > total then total else start);
          end' = (if end' > total then total else end')
      in go_bind (if start < total then go_slice servers start end' else Ret []) (\<lambda>paged.
           let totalPages = (if perPage > 0 \<and> total > 0
                 then go_quot (wrap64 (wrap64 (total + perPage) - 1)) perPage else 0)
           in Ret (paged,
                \<lparr>pg_current_page = to_uint page, pg_from = (if total > 0 then to_uint (wrap64 (start + 1)) else 0),
                 pg_last_page = to_uint totalPages, pg_per_page = to_uint perPage,
                 pg_to = (if total > 0 then to_uint end' else 0), pg_total = to_uint total\<rparr>)))"

text \<open>\<^verbatim>\<open>getAllBlueprints\<close>: the items and the four numbers of its pagination.\<close>

definition blueprint_page ::
  "string option \<Rightarrow> string option \<Rightarrow> string option \<Rightarrow> 'a list \<Rightarrow> ('a list \<times> int \<times> int \<times> int \<times> int) go" where
  "blueprint_page page_q per_q meta_q blueprints =
     (let page = query_int page_q ''1''; perPage = query_int per_q ''50'';
          page = (if page < 1 then 1 else page);
          perPage = (if perPage < 1 then 20 else perPage);
          items = (if meta_q = Some ''true'' then [] else blueprints);
          total = int (length items);
          start = wrap64 (wrap64 (page - 1) * perPage);
          end' = wrap64 (start + perPage);
          start = (if start > total then total else start);
          end' = (if end' > total then total else end')
      in go_bind (go_slice items start end') (\<lambda>paged.
           let totalPages = (if perPage > 0 \<and> total > 0
                 then go_quot (wrap64 (wrap64 (total + perPage) - 1)) perPage else 0)
           in Ret (paged, total, perPage, page, totalPages)))"

definition log_pagination_params ::
  "string option \<Rightarrow> string option \<Rightarrow> string option \<Rightarrow> string option \<Rightarrow> int \<times> int" where
  "log_pagination_params page_q per_q size_q lines_q =
     (let page = query_int page_q ''1'';
          page = (if page < 1 then 1 else page);
          raw = (case per_q of None \<Rightarrow> [] | Some s \<Rightarrow> s);
          raw = (if raw = [] then (case size_q of Some s \<Rightarrow> s
                   | None \<Rightarrow> (case lines_q of Some l \<Rightarrow> l | None \<Rightarrow> ''100'')) else raw);
          perPage = fst (atoi raw);
          perPage = (if perPage \<le> 0 then 100 else perPage);
          perPage = (if perPage > 100 then 100 else perPage)
      in (page, perPage))"

section \<open>Fetching all pages\<close>

text \<open>
  \<^verbatim>\<open>GetServers\<close>: the first request asks for page 0; \<open>order\<close> is the order in which the goroutines of
  the other pages append. A failed page fails the call.
\<close>

fun append_pages :: "(int \<Rightarrow> client_error + ('a list \<times> pagination)) \<Rightarrow> int list \<Rightarrow> 'a list \<Rightarrow> client_error + 'a list" where
  "append_pages fetch [] acc = Inr acc"
| "append_pages fetch (p # ps) acc = (case fetch p of
     Inl e \<Rightarrow> Inl e
   | Inr (ps', _) \<Rightarrow> append_pages fetch ps (acc @ ps'))"

definition get_servers ::
  "(int list \<Rightarrow> int list) \<Rightarrow> (int \<Rightarrow> client_error + ('a list \<times> pagination)) \<Rightarrow> client_error + 'a list" where
  "get_servers order fetch = (case fetch 0 of
     Inl e \<Rightarrow> Inl e
   | Inr (servers, meta) \<Rightarrow>
       (if pg_last_page meta > 1
        then append_pages fetch (order [pg_current_page meta + 1 .. pg_last_page meta]) servers
        else Inr servers))"

text \<open>One request: Protocube answers it from the list of the node's servers, in the order of the map.\<close>

definition fetch_page :: "int \<Rightarrow> (int \<Rightarrow> 'a list) \<Rightarrow> int \<Rightarrow> client_error + ('a list \<times> pagination)" where
  "fetch_page limit servers p = (case server_page (Some (itoa p)) (Some (itoa limit)) (servers p) of
     Panic \<Rightarrow> Inl (RemoteError \<lparr>re_response = 500, re_code = ''500'', re_status = status_text 500, re_detail = [], re_hint = []\<rparr>)
   | Ret r \<Rightarrow> Inr r)"

section \<open>The daemon's requests\<close>

text \<open>
  \<^verbatim>\<open>isUnregistered\<close>: \<open>path\<close> is the path of the request, \<open>unmarshal\<close> decodes an error body.
\<close>

definition contains_str :: "string \<Rightarrow> string \<Rightarrow> bool" where
  "contains_str s p \<longleftrightarrow> list_ex (\<lambda>i. has_prefix (drop i s) p) [0..<Suc (length s)]"

definition is_unregistered :: "(string \<Rightarrow> http_error option) \<Rightarrow> string \<Rightarrow> http_response \<Rightarrow> bool" where
  "is_unregistered unmarshal path r =
     (if hr_status r = 412 \<and> unmarshal (hr_body r) = None then False
      else if hr_status r = 412 \<and> (case unmarshal (hr_body r) of None \<Rightarrow> False | Some e \<Rightarrow> he_detail e = ''Unregistered'')
      then True
      else hr_status r = 404 \<and> contains_str path ''/api/nodes/'' \<and> \<not> contains_str path ''/register'')"

text \<open>One attempt; \<open>register\<close> is the error of the registration it may make.\<close>

definition node_attempt ::
  "(string \<Rightarrow> http_error option) \<Rightarrow> string \<Rightarrow> client_error + http_response \<Rightarrow> client_error option \<Rightarrow>
     http_response attempt" where
  "node_attempt unmarshal path outcome register = (case outcome of
     Inl _ \<Rightarrow> attempt_of unmarshal outcome
   | Inr r \<Rightarrow>
       (if has_error r \<and> is_unregistered unmarshal path r then
          (case register of
             Some e \<Rightarrow> Permanent e
           | None \<Rightarrow> Transient (OtherError ''unregistered: registered node, retrying request''))
        else attempt_of unmarshal outcome))"

definition node_request ::
  "retrier \<Rightarrow> (string \<Rightarrow> http_error option) \<Rightarrow> string \<Rightarrow> (nat \<Rightarrow> client_error + http_response) \<Rightarrow>
     (nat \<Rightarrow> client_error option) \<Rightarrow> client_error + http_response" where
  "node_request retry unmarshal path outcomes register =
     retry (\<lambda>i. node_attempt unmarshal path (outcomes i) (register i))"

definition node_api_path :: "string \<Rightarrow> string \<Rightarrow> string" where
  "node_api_path node_id path = ''/api/nodes/'' @ node_id @ path"

text \<open>What \<^verbatim>\<open>Server.Sync\<close> makes of a failed request for its configuration.\<close>

datatype sync_error = ServerDoesNotExist | SyncFailed client_error

definition sync_error_of :: "client_error \<Rightarrow> sync_error" where
  "sync_error_of e = (case e of
     RemoteError re \<Rightarrow> (if re_response re = 404 then ServerDoesNotExist else SyncFailed e)
   | _ \<Rightarrow> SyncFailed e)"


section \<open>Fetching every server once\<close>

definition page_items :: "nat \<Rightarrow> 'a list \<Rightarrow> int \<Rightarrow> 'a list" where
  "page_items limit xs p = take limit (drop ((nat p - 1) * limit) xs)"

lemma pages_concat: "concat (map (page_items limit xs) [1 .. int k]) = take (k * limit) xs"
proof (induction k)
  case (Suc k)
  have "[1 .. int (Suc k)] = [1 .. int k] @ [int k + 1]" by (simp add: upto_rec2)
  moreover have "page_items limit xs (int k + 1) = take limit (drop (k * limit) xs)"
    by (simp add: page_items_def nat_add_distrib)
  ultimately show ?case using Suc by (simp add: take_add add.commute [of limit])
qed (simp add: page_items_def)

definition page_count :: "int \<Rightarrow> int \<Rightarrow> int" where
  "page_count n perPage = (if n > 0 then (n + perPage - 1) div perPage else 0)"

lemma page_count_covers: "0 < L \<Longrightarrow> 0 \<le> n \<Longrightarrow> n \<le> page_count n L * L"
proof -
  assume "0 < L" "0 \<le> n"
  have "(n + L - 1) mod L < L" using \<open>0 < L\<close> by simp
  moreover have "(n + L - 1) div L * L + (n + L - 1) mod L = n + L - 1" by (rule div_mult_mod_eq)
  ultimately have "n \<le> (n + L - 1) div L * L" by linarith
  then show ?thesis using \<open>0 \<le> n\<close> by (simp add: page_count_def)
qed

lemma page_count_bounds: "0 < L \<Longrightarrow> 0 \<le> n \<Longrightarrow> 0 \<le> page_count n L \<and> page_count n L \<le> n"
proof -
  assume a: "0 < L" "0 \<le> n"
  show ?thesis
  proof (cases "n = 0")
    case False
    have "n + L - 1 \<le> n * L" using a False mult_left_mono [of 1 L "n - 1"] by (simp add: algebra_simps)
    then have "(n + L - 1) div L \<le> n" using a by (metis div_by_0 mult.commute nonzero_mult_div_cancel_left order_refl zdiv_mono1)
    moreover have "0 \<le> (n + L - 1) div L" using a by (simp add: pos_imp_zdiv_nonneg_iff)
    ultimately show ?thesis using a False by (simp add: page_count_def)
  qed (simp add: page_count_def)
qed

lemma query_int_itoa: "in_int64 i \<Longrightarrow> query_int (Some (itoa i)) d = i"
  by (simp add: query_int_def atoi_itoa)

text \<open>The page of a request whose numbers stay in range, and its pagination.\<close>

lemma server_page_in_range:
  assumes "0 < L" "L < 2 ^ 31" "int (length xs) < 2 ^ 31" "0 \<le> p" "p < 2 ^ 31"
  shows "\<exists>m. server_page (Some (itoa p)) (Some (itoa L)) xs = Ret (page_items (nat L) xs (max 1 p), m) \<and>
    pg_current_page m = max 1 p \<and> pg_last_page m = page_count (int (length xs)) L"
proof -
  let ?n = "int (length xs)" and ?p = "max 1 p"
  have w: "in_int64 i" if "\<bar>i\<bar> < 2 ^ 62 + 2 ^ 33" for i
    using that by (auto simp: in_int64_def int64_min_def int64_max_def)
  have s: "0 \<le> (?p - 1) * L" "(?p - 1) * L \<le> 2 ^ 31 * 2 ^ 31"
    using assms mult_mono [of "?p - 1" "2 ^ 31" L "2 ^ 31"] by auto
  have wr: "wrap64 (?p - 1) = ?p - 1" "wrap64 ((?p - 1) * L) = (?p - 1) * L"
    "wrap64 ((?p - 1) * L + L) = (?p - 1) * L + L" "wrap64 (?n + L) = ?n + L" "wrap64 (?n + L - 1) = ?n + L - 1"
    using assms s by (auto intro!: wrap64_id w)
  have q: "query_int (Some (itoa p)) ''1'' = p" "query_int (Some (itoa L)) ''50'' = L"
    using assms by (auto intro!: query_int_itoa w)
  have pm: "(if p < 1 then 1 else p) = ?p" by simp
  have sn: "nat ((?p - 1) * L) = (nat ?p - 1) * nat L"
    using assms by (simp add: nat_mult_distrib nat_diff_distrib)
  have quot: "(if L > 0 \<and> ?n > 0 then go_quot (?n + L - 1) L else 0) = page_count ?n L"
    using assms by (auto simp: page_count_def go_quot_nonneg)
  have u: "to_uint i = i" if "0 \<le> i" "i < 2 ^ 62" for i using that by (simp add: to_uint_def)
  have pc: "0 \<le> page_count ?n L" "page_count ?n L < 2 ^ 62"
    using page_count_bounds [of L ?n] assms by auto
  have items: "(if (if (?p - 1) * L > ?n then ?n else (?p - 1) * L) < ?n
      then go_slice xs (if (?p - 1) * L > ?n then ?n else (?p - 1) * L)
        (if (?p - 1) * L + L > ?n then ?n else (?p - 1) * L + L) else Ret []) = Ret (page_items (nat L) xs ?p)"
  proof (cases "(?p - 1) * L < ?n")
    case True
    let ?s = "(?p - 1) * L"
    define e where "e = (if ?s + L > ?n then ?n else ?s + L)"
    have e: "?s \<le> e" "e \<le> ?n" "take (nat e - nat ?s) (drop (nat ?s) xs) = take (nat L) (drop (nat ?s) xs)"
      using True assms s by (auto simp: e_def nat_diff_distrib nat_add_distrib)
    then show ?thesis unfolding e_def [symmetric] using True s by (simp add: go_slice_def page_items_def sn)
  next
    case False
    then have "length xs \<le> nat ((?p - 1) * L)" by linarith
    then have "page_items (nat L) xs ?p = []" unfolding sn by (simp add: page_items_def)
    with False show ?thesis by auto
  qed
  have L1: "(if L < 1 then 50 else L) = L" using assms by simp
  show ?thesis
    unfolding server_page_def q Let_def pm L1 wr items quot
    using assms pc by (auto simp: u)
qed


lemma fetch_page_in_range:
  assumes "0 < L" "L < 2 ^ 31" "int (length xs) < 2 ^ 31" "0 \<le> p" "p < 2 ^ 31"
  shows "\<exists>m. fetch_page L (\<lambda>_. xs) p = Inr (page_items (nat L) xs (max 1 p), m) \<and>
    pg_current_page m = max 1 p \<and> pg_last_page m = page_count (int (length xs)) L"
  using server_page_in_range [OF assms] by (auto simp: fetch_page_def)

lemma mset_concat_map: "mset (concat (map g ps)) = (\<Sum>p \<in># mset ps. mset (g p))"
  by (induction ps) auto

lemma append_pages_all:
  assumes "\<And>p. p \<in> set ps \<Longrightarrow> \<exists>m. fetch p = Inr (g p, m)"
  shows "append_pages fetch ps acc = Inr (acc @ concat (map g ps))"
  using assms
proof (induction ps arbitrary: acc)
  case (Cons p ps)
  obtain m where "fetch p = Inr (g p, m)" using Cons.prems by auto
  then show ?case using Cons by simp
qed simp

text \<open>
  C31. Fetching the servers of a node returns each of them exactly once, in whatever order the pages
  arrive, when Protocube answers every page from the same order of its servers; the page size and
  the number of servers are below 2^31.
\<close>

theorem get_servers_complete:
  assumes "0 < limit" "limit < 2 ^ 31" "int (length xs) < 2 ^ 31" "\<And>ps. mset (order ps) = mset ps"
  shows "\<exists>ys. get_servers order (fetch_page limit (\<lambda>_. xs)) = Inr ys \<and> mset ys = mset xs"
proof -
  let ?n = "int (length xs)" and ?k = "page_count (int (length xs)) limit" and ?f = "fetch_page limit (\<lambda>_. xs)"
  let ?g = "page_items (nat limit) xs"
  obtain m where m: "?f 0 = Inr (?g 1, m)" "pg_current_page m = 1" "pg_last_page m = ?k"
    using fetch_page_in_range [OF assms(1-3), of 0] by auto
  have k: "0 \<le> ?k" "?k \<le> ?n" "?n \<le> ?k * limit"
    using page_count_bounds [OF assms(1), of ?n] page_count_covers [OF assms(1), of ?n] by auto
  have all: "mset (concat (map ?g [1 .. ?k])) = mset xs"
  proof -
    have "length xs \<le> nat ?k * nat limit" using k(3) assms(1) k(1) by (metis nat_int nat_le_eq_zle nat_mult_distrib int_nat_eq zero_le_mult_iff less_imp_le nat_mono)
    then show ?thesis using pages_concat [of "nat limit" xs "nat ?k"] k(1) by simp
  qed
  show ?thesis
  proof (cases "?k > 1")
    case True
    have st: "set (order ps) = set ps" for ps using assms(4) by (metis set_mset_mset)
    have "\<exists>m. ?f p = Inr (?g p, m)" if "p \<in> set (order [2 .. ?k])" for p
      using fetch_page_in_range [OF assms(1-3), of p] that k assms(3) by (auto simp: st max_def)
    then have "append_pages ?f (order [2 .. ?k]) (?g 1) = Inr (?g 1 @ concat (map ?g (order [2 .. ?k])))"
      by (rule append_pages_all)
    moreover have "mset (concat (map ?g (order [2 .. ?k]))) = mset (concat (map ?g [2 .. ?k]))"
      by (simp add: mset_concat_map assms(4))
    moreover have "[1 .. ?k] = 1 # [2 .. ?k]" using True by (simp add: upto_rec1)
    ultimately show ?thesis using True all m by (simp add: get_servers_def)
  next
    case False
    have "mset (?g 1) = mset xs"
    proof (cases "?k = 1")
      case True
      then show ?thesis using all by simp
    next
      case False
      then have "?n \<le> 0" using k \<open>\<not> ?k > 1\<close> by (cases "?k = 0") auto
      then show ?thesis by (simp add: page_items_def)
    qed
    then show ?thesis using False m by (simp add: get_servers_def)
  qed
qed


lemma get_servers_complete_witness:
  "\<exists>ys. get_servers rev (fetch_page 2 (\<lambda>_. [10, 20, 30, 40, 50 :: int])) = Inr ys \<and>
     mset ys = mset [10, 20, 30, 40, 50]"
  by (rule get_servers_complete) simp_all

text \<open>
  Without that agreement a server can be missed: Protocube orders the servers of every request by
  the iteration of its map, which Go randomizes.
\<close>

lemma changed_order_misses_server:
  "get_servers (\<lambda>ps. ps) (fetch_page 1 (\<lambda>p. if p = 0 then [10, 20] else [20, 10 :: int])) = Inr [10, 10]"
  by code_simp

text \<open>A page whose offset overflows is a slice out of range, and the recovered panic an error 500.\<close>

lemma huge_page_panics:
  "server_page (Some ''9223372036854775807'') (Some ''2'') [10 :: int] = Panic"
  by code_simp

lemma blueprint_huge_page_panics:
  "blueprint_page (Some ''9223372036854775807'') (Some ''2'') None [10 :: int] = Panic"
  by code_simp

text \<open>An absent size is 50 blueprints, an invalid one 20, and a request for the metadata is empty.\<close>

lemma blueprint_page_defaults:
  "blueprint_page None None None [10 :: int] = Ret ([10], 1, 50, 1, 1)"
  "blueprint_page None (Some ''x'') None [10 :: int] = Ret ([10], 1, 20, 1, 1)"
  "blueprint_page None None (Some ''true'') [10 :: int] = Ret ([], 0, 50, 1, 0)"
  by code_simp+

lemma log_pagination_bounds:
  "1 \<le> fst (log_pagination_params page_q per_q size_q lines_q) \<and>
   1 \<le> snd (log_pagination_params page_q per_q size_q lines_q) \<and>
   snd (log_pagination_params page_q per_q size_q lines_q) \<le> 100"
  by (simp add: log_pagination_params_def Let_def)

section \<open>Requests that register the node\<close>

lemma has_prefix_append: "has_prefix (p @ s) p"
  by (simp add: has_prefix_def)

lemma contains_node_api_path: "contains_str (node_api_path node_id path) ''/api/nodes/''"
  unfolding contains_str_def node_api_path_def
  by (auto simp: list_ex_iff has_prefix_def intro!: bexI [of _ 0])

definition status_404 :: "client_error \<Rightarrow> bool" where
  "status_404 e = (case e of RemoteError re \<Rightarrow> re_response re = 404 | _ \<Rightarrow> False)"

lemma node_attempt_404:
  assumes "contains_str path ''/api/nodes/''" "\<not> contains_str path ''/register''"
    "\<And>e. outcome = Inl e \<Longrightarrow> \<not> status_404 e" "\<And>e. reg = Some e \<Longrightarrow> \<not> status_404 e"
  shows "case node_attempt u path outcome reg of Success r \<Rightarrow> hr_status r \<noteq> 404
    | Permanent e \<Rightarrow> \<not> status_404 e | Transient e \<Rightarrow> \<not> status_404 e"
proof (cases outcome)
  case (Inl e)
  then show ?thesis using assms(3)
    by (auto simp: node_attempt_def attempt_of_def status_404_def split: client_error.splits)
next
  case (Inr r)
  show ?thesis
  proof (cases "has_error r \<and> is_unregistered u path r")
    case True
    then show ?thesis using Inr assms(4) by (auto simp: node_attempt_def status_404_def split: option.splits)
  next
    case False
    then have "hr_status r \<noteq> 404" using assms(1,2) by (auto simp: is_unregistered_def has_error_def)
    then show ?thesis using False Inr by (auto simp: node_attempt_def attempt_of_def status_404_def)
  qed
qed

text \<open>
  A request of the daemon below \<^verbatim>\<open>/api/nodes\<close> never ends with the error 404, whatever Protocube
  answers: a 404 registers the node and repeats the request. So \<^verbatim>\<open>Server.Sync\<close> never reports that
  its server does not exist.
\<close>

theorem sync_never_misses_server:
  assumes "retry_contract m retry" "\<not> contains_str (node_api_path node_id path) ''/register''"
    "\<And>i e. outcomes i = Inl e \<Longrightarrow> local_error e" "\<And>i e. register i = Some e \<Longrightarrow> local_error e"
    "node_request retry u (node_api_path node_id path) outcomes register = Inl err"
  shows "sync_error_of err = SyncFailed err"
proof -
  let ?p = "node_api_path node_id path"
  have loc: "local_error e \<Longrightarrow> \<not> status_404 e" for e
    by (auto simp: local_error_def status_404_def split: client_error.splits)
  have at: "case node_attempt u ?p (outcomes i) (register i) of Success r \<Rightarrow> hr_status r \<noteq> 404
    | Permanent e \<Rightarrow> \<not> status_404 e | Transient e \<Rightarrow> \<not> status_404 e" for i
    by (rule node_attempt_404 [OF contains_node_api_path assms(2)]) (use assms(3,4) loc in blast)+
  obtain n where "case node_attempt u ?p (outcomes n) (register n) of
      Success r \<Rightarrow> node_request retry u ?p outcomes register = Inr r
    | Permanent e \<Rightarrow> node_request retry u ?p outcomes register = Inl e
    | Transient e \<Rightarrow> node_request retry u ?p outcomes register = Inl e \<or>
        (\<exists>s. node_request retry u ?p outcomes register = Inl (Canceled s) \<or>
          node_request retry u ?p outcomes register = Inl (DeadlineExceeded s))"
    using assms(1) unfolding retry_contract_def node_request_def by blast
  then have "\<not> status_404 err"
    using at [of n] assms(5) by (cases "node_attempt u ?p (outcomes n) (register n)") (auto simp: status_404_def)
  then show ?thesis by (auto simp: sync_error_of_def status_404_def split: client_error.splits)
qed

text \<open>A server that Protocube has deleted: four answers 404, three of them repeated, then the error.\<close>

lemma sync_never_misses_server_witness:
  "sync_error_of (OtherError ''unregistered: registered node, retrying request'') =
     SyncFailed (OtherError ''unregistered: registered node, retrying request'')"
proof (rule sync_never_misses_server [OF retry_loop_contract [of 3],
      where outcomes = "\<lambda>_. Inr \<lparr>hr_status = 404, hr_body = []\<rparr>" and register = "\<lambda>_. None" and u = "\<lambda>_. None"
        and node_id = "''n1''" and path = "''/internal/servers/s1''"])
  show "\<not> contains_str (node_api_path ''n1'' ''/internal/servers/s1'') ''/register''" by code_simp
  show "node_request (retry_loop 3 0) (\<lambda>_. None) (node_api_path ''n1'' ''/internal/servers/s1'')
      (\<lambda>_. Inr \<lparr>hr_status = 404, hr_body = []\<rparr>) (\<lambda>_. None)
    = Inl (OtherError ''unregistered: registered node, retrying request'')"
    by code_simp
qed simp_all

end
