(* ===== verification/Key_Store.thy ===== *)
theory Key_Store
  imports Go_Strings
begin

text \<open>
  The API keys of Protocube (\<^verbatim>\<open>protocube/auth\<close>, \<^verbatim>\<open>protocube/models/key.go\<close>): the rows of the
  database and the store that caches them. Each call of the database takes a flag that says whether
  it answers. The update of a row by a struct is gorm's: it is an argument, and \<open>updates_non_zero\<close>
  states what its documentation promises. One operation reads the clock once; a key is the value the
  cache's pointer refers to after the operation. An operation is one step here, so that the theorems are about
  operations that follow one another. In the program the cache is not locked between the call of the database and the
  change of the cache: what can come in between is the subject of the last section.
\<close>

section \<open>Keys and rows\<close>

text \<open>A nil pointer, slice or map is \<open>None\<close>; times are nanoseconds.\<close>

record api_key =
  ak_id :: string
  ak_name :: string
  ak_prefix :: string
  ak_owner :: string
  ak_org :: "string option"
  ak_scopes :: "string list option"
  ak_description :: string
  ak_environment :: string
  ak_expires_at :: "int option"
  ak_last_used_at :: "int option"
  ak_last_used_ip :: string
  ak_revoked :: bool
  ak_revoked_at :: "int option"
  ak_revoked_reason :: string
  ak_metadata :: "(string, string) gomap option"
  ak_created_at :: int
  ak_updated_at :: int

record stored_key = api_key +
  sk_hash :: string

definition to_api_key :: "stored_key \<Rightarrow> api_key" where
  "to_api_key sk = api_key.truncate sk"

datatype key_error = KeyNotFound | QueryFailed | StoreFailed | UpdateFailed | DeleteFailed | LastUsedFailed

text \<open>\<^verbatim>\<open>StoreKey\<close>: the column of the time of revocation is not written; keys and prefixes are unique.\<close>

definition store_key :: "bool \<Rightarrow> api_key \<Rightarrow> string \<Rightarrow> stored_key list \<Rightarrow> key_error + stored_key list" where
  "store_key ok key hash rows =
     (if \<not> ok \<or> list_ex (\<lambda>r. ak_id r = ak_id key \<or> ak_prefix r = ak_prefix key) rows then Inl StoreFailed
      else Inr (rows @ [api_key.extend (key\<lparr>ak_revoked_at := None\<rparr>) (stored_key.fields hash)]))"

definition first_row :: "bool \<Rightarrow> (stored_key \<Rightarrow> bool) \<Rightarrow> stored_key list \<Rightarrow> key_error + (api_key \<times> string)" where
  "first_row ok P rows =
     (if \<not> ok then Inl QueryFailed
      else case find P rows of None \<Rightarrow> Inl KeyNotFound | Some sk \<Rightarrow> Inr (to_api_key sk, sk_hash sk))"

definition row_by_prefix :: "bool \<Rightarrow> string \<Rightarrow> stored_key list \<Rightarrow> key_error + (api_key \<times> string)" where
  "row_by_prefix ok pre rows = first_row ok (\<lambda>r. ak_prefix r = pre) rows"

definition row_by_id :: "bool \<Rightarrow> string \<Rightarrow> stored_key list \<Rightarrow> key_error + (api_key \<times> string)" where
  "row_by_id ok kid rows = first_row ok (\<lambda>r. ak_id r = kid) rows"

definition list_by_owner :: "bool \<Rightarrow> string \<Rightarrow> stored_key list \<Rightarrow> key_error + api_key list" where
  "list_by_owner ok owner rows =
     (if ok then Inr (map to_api_key (filter (\<lambda>r. ak_owner r = owner) rows)) else Inl QueryFailed)"

definition list_by_organization :: "bool \<Rightarrow> string \<Rightarrow> stored_key list \<Rightarrow> key_error + api_key list" where
  "list_by_organization ok org rows =
     (if ok then Inr (map to_api_key (filter (\<lambda>r. ak_org r = Some org) rows)) else Inl QueryFailed)"

definition uuid_nil :: string where
  "uuid_nil = ''00000000-0000-0000-0000-000000000000''"

text \<open>The year 1, Go's zero time, before the epoch.\<close>

definition zero_time :: int where
  "zero_time = - 62135596800000000000"

type_synonym row_update = "stored_key \<Rightarrow> stored_key \<Rightarrow> stored_key"

text \<open>gorm's \<^verbatim>\<open>Updates\<close> with a struct writes the fields that are not zero.\<close>

definition updates_non_zero :: "row_update \<Rightarrow> bool" where
  "updates_non_zero upd \<longleftrightarrow> (\<forall>row sk. upd row sk =
     \<lparr>ak_id = (if ak_id sk = uuid_nil then ak_id row else ak_id sk),
      ak_name = (if ak_name sk = [] then ak_name row else ak_name sk),
      ak_prefix = (if ak_prefix sk = [] then ak_prefix row else ak_prefix sk),
      ak_owner = (if ak_owner sk = uuid_nil then ak_owner row else ak_owner sk),
      ak_org = (if ak_org sk = None then ak_org row else ak_org sk),
      ak_scopes = (if ak_scopes sk = None then ak_scopes row else ak_scopes sk),
      ak_description = (if ak_description sk = [] then ak_description row else ak_description sk),
      ak_environment = (if ak_environment sk = [] then ak_environment row else ak_environment sk),
      ak_expires_at = (if ak_expires_at sk = None then ak_expires_at row else ak_expires_at sk),
      ak_last_used_at = (if ak_last_used_at sk = None then ak_last_used_at row else ak_last_used_at sk),
      ak_last_used_ip = (if ak_last_used_ip sk = [] then ak_last_used_ip row else ak_last_used_ip sk),
      ak_revoked = (if ak_revoked sk then True else ak_revoked row),
      ak_revoked_at = (if ak_revoked_at sk = None then ak_revoked_at row else ak_revoked_at sk),
      ak_revoked_reason = (if ak_revoked_reason sk = [] then ak_revoked_reason row else ak_revoked_reason sk),
      ak_metadata = (if ak_metadata sk = None then ak_metadata row else ak_metadata sk),
      ak_created_at = (if ak_created_at sk = zero_time then ak_created_at row else ak_created_at sk),
      ak_updated_at = (if ak_updated_at sk = zero_time then ak_updated_at row else ak_updated_at sk),
      sk_hash = (if sk_hash sk = [] then sk_hash row else sk_hash sk)\<rparr>)"

definition update_patch :: "int \<Rightarrow> api_key \<Rightarrow> stored_key" where
  "update_patch now key =
     api_key.extend (key\<lparr>ak_id := uuid_nil, ak_created_at := zero_time, ak_updated_at := now\<rparr>) (stored_key.fields [])"

definition update_key :: "row_update \<Rightarrow> bool \<Rightarrow> int \<Rightarrow> api_key \<Rightarrow> stored_key list \<Rightarrow> key_error + stored_key list" where
  "update_key upd ok now key rows =
     (let taken = ak_prefix key \<noteq> [] \<and> list_ex (\<lambda>r. ak_id r = ak_id key) rows \<and>
        list_ex (\<lambda>r. ak_id r \<noteq> ak_id key \<and> ak_prefix r = ak_prefix key) rows
      in if \<not> ok \<or> taken then Inl UpdateFailed
         else Inr (map (\<lambda>r. if ak_id r = ak_id key then upd r (update_patch now key) else r) rows))"

definition delete_key :: "bool \<Rightarrow> string \<Rightarrow> stored_key list \<Rightarrow> key_error + stored_key list" where
  "delete_key ok kid rows = (if ok then Inr (filter (\<lambda>r. ak_id r \<noteq> kid) rows) else Inl DeleteFailed)"

definition update_last_used :: "bool \<Rightarrow> int \<Rightarrow> string \<Rightarrow> string \<Rightarrow> stored_key list \<Rightarrow> key_error + stored_key list" where
  "update_last_used ok now kid ip rows =
     (if ok then Inr (map (\<lambda>r. if ak_id r = kid then r\<lparr>ak_last_used_at := Some now, ak_last_used_ip := ip\<rparr> else r) rows)
      else Inl LastUsedFailed)"

section \<open>The cached store\<close>

record cached_entry =
  ce_key :: api_key
  ce_hash :: string
  ce_expires :: int

record key_store =
  ks_rows :: "stored_key list"
  ks_cache :: "(string, cached_entry) gomap"

definition cached_key_ttl :: int where
  "cached_key_ttl = 5 * 60 * 1000000000"

definition cache_put :: "int \<Rightarrow> int \<Rightarrow> string \<Rightarrow> api_key \<times> string \<Rightarrow> key_store \<Rightarrow> key_store" where
  "cache_put ttl now pre kh st = st\<lparr>ks_cache := gm_set (ks_cache st) pre
     \<lparr>ce_key = fst kh, ce_hash = snd kh, ce_expires = now + ttl\<rparr>\<rparr>"

definition ks_create :: "int \<Rightarrow> bool \<Rightarrow> int \<Rightarrow> api_key \<Rightarrow> string \<Rightarrow> key_store \<Rightarrow> key_error option \<times> key_store" where
  "ks_create ttl ok now key hash st = (case store_key ok key hash (ks_rows st) of
     Inl e \<Rightarrow> (Some e, st)
   | Inr rows \<Rightarrow> (None, cache_put ttl now (ak_prefix key) (key, hash) (st\<lparr>ks_rows := rows\<rparr>)))"

definition ks_get_by_prefix :: "int \<Rightarrow> bool \<Rightarrow> int \<Rightarrow> string \<Rightarrow> key_store \<Rightarrow> (key_error + (api_key \<times> string)) \<times> key_store" where
  "ks_get_by_prefix ttl ok now pre st =
     (let fetch = (case row_by_prefix ok pre (ks_rows st) of
            Inl e \<Rightarrow> (Inl e, st)
          | Inr kh \<Rightarrow> (Inr kh, cache_put ttl now pre kh st))
      in case gm_get (ks_cache st) pre of
           None \<Rightarrow> fetch
         | Some e \<Rightarrow> (if now < ce_expires e then (Inr (ce_key e, ce_hash e), st) else fetch))"

definition ks_get_by_id :: "int \<Rightarrow> bool \<Rightarrow> int \<Rightarrow> string \<Rightarrow> key_store \<Rightarrow> (key_error + api_key) \<times> key_store" where
  "ks_get_by_id ttl ok now kid st =
     (case find (\<lambda>e. ak_id (ce_key e) = kid \<and> now < ce_expires e) (gm_values (ks_cache st)) of
        Some e \<Rightarrow> (Inr (ce_key e), st)
      | None \<Rightarrow> (case row_by_id ok kid (ks_rows st) of
            Inl e \<Rightarrow> (Inl e, st)
          | Inr kh \<Rightarrow> (Inr (fst kh), cache_put ttl now (ak_prefix (fst kh)) kh st)))"

definition ks_update :: "row_update \<Rightarrow> int \<Rightarrow> bool \<Rightarrow> int \<Rightarrow> api_key \<Rightarrow> key_store \<Rightarrow> key_error option \<times> key_store" where
  "ks_update upd ttl ok now key st = (case update_key upd ok now key (ks_rows st) of
     Inl e \<Rightarrow> (Some e, st)
   | Inr rows \<Rightarrow>
       (let st = st\<lparr>ks_rows := rows\<rparr>
        in case gm_get (ks_cache st) (ak_prefix key) of
             None \<Rightarrow> (None, st)
           | Some e \<Rightarrow> (if ak_id (ce_key e) = ak_id key
               then (None, cache_put ttl now (ak_prefix key) (key, ce_hash e) st) else (None, st))))"

definition ks_delete :: "bool \<Rightarrow> bool \<Rightarrow> string \<Rightarrow> key_store \<Rightarrow> key_error option \<times> key_store" where
  "ks_delete ok_query ok_delete kid st = (case row_by_id ok_query kid (ks_rows st) of
     Inl _ \<Rightarrow> (None, st)
   | Inr kh \<Rightarrow> (case delete_key ok_delete kid (ks_rows st) of
       Inl e \<Rightarrow> (Some e, st)
     | Inr rows \<Rightarrow> (None, \<lparr>ks_rows = rows, ks_cache = gm_del (ks_cache st) (ak_prefix (fst kh))\<rparr>)))"

text \<open>The first entry of the iteration that has the identifier is touched.\<close>

fun touch_entry :: "int \<Rightarrow> int \<Rightarrow> string \<Rightarrow> string \<Rightarrow> (string, cached_entry) gomap \<Rightarrow> (string, cached_entry) gomap" where
  "touch_entry ttl now kid ip [] = []"
| "touch_entry ttl now kid ip ((p, e) # m) =
     (if ak_id (ce_key e) = kid
      then (p, e\<lparr>ce_key := (ce_key e)\<lparr>ak_last_used_at := Some now, ak_last_used_ip := ip\<rparr>, ce_expires := now + ttl\<rparr>) # m
      else (p, e) # touch_entry ttl now kid ip m)"

definition ks_update_last_used :: "int \<Rightarrow> bool \<Rightarrow> int \<Rightarrow> string \<Rightarrow> string \<Rightarrow> key_store \<Rightarrow> key_error option \<times> key_store" where
  "ks_update_last_used ttl ok now kid ip st = (case update_last_used ok now kid ip (ks_rows st) of
     Inl e \<Rightarrow> (Some e, st)
   | Inr rows \<Rightarrow> (None, \<lparr>ks_rows = rows, ks_cache = touch_entry ttl now kid ip (ks_cache st)\<rparr>))"


section \<open>Runs of the store\<close>

datatype key_op =
    OpCreate bool int api_key string
  | OpByPrefix bool int string
  | OpById bool int string
  | OpUpdate bool int api_key
  | OpDelete bool bool string
  | OpUsed bool int string string

fun key_step :: "row_update \<Rightarrow> int \<Rightarrow> key_op \<Rightarrow> key_store \<Rightarrow> key_store" where
  "key_step upd ttl (OpCreate ok now key hash) st = snd (ks_create ttl ok now key hash st)"
| "key_step upd ttl (OpByPrefix ok now pre) st = snd (ks_get_by_prefix ttl ok now pre st)"
| "key_step upd ttl (OpById ok now kid) st = snd (ks_get_by_id ttl ok now kid st)"
| "key_step upd ttl (OpUpdate ok now key) st = snd (ks_update upd ttl ok now key st)"
| "key_step upd ttl (OpDelete ok_query ok_delete kid) st = snd (ks_delete ok_query ok_delete kid st)"
| "key_step upd ttl (OpUsed ok now kid ip) st = snd (ks_update_last_used ttl ok now kid ip st)"

definition key_run :: "row_update \<Rightarrow> int \<Rightarrow> key_op list \<Rightarrow> key_store \<Rightarrow> key_store" where
  "key_run upd ttl ops st = fold (key_step upd ttl) ops st"

text \<open>The keys an operation writes keep the prefix \<open>pf\<close> of their identifier.\<close>

fun op_prefix_ok :: "(string \<Rightarrow> string) \<Rightarrow> key_op \<Rightarrow> bool" where
  "op_prefix_ok pf (OpCreate ok now key hash) = (ak_prefix key = pf (ak_id key))"
| "op_prefix_ok pf (OpUpdate ok now key) = (ak_prefix key = pf (ak_id key))"
| "op_prefix_ok pf _ = True"

section \<open>The invariant\<close>

definition entry_ok :: "(string \<Rightarrow> string) \<Rightarrow> stored_key list \<Rightarrow> string \<Rightarrow> cached_entry \<Rightarrow> bool" where
  "entry_ok pf rows p e \<longleftrightarrow> ak_prefix (ce_key e) = p \<and> pf (ak_id (ce_key e)) = p \<and>
     (\<exists>r \<in> set rows. ak_id r = ak_id (ce_key e) \<and> sk_hash r = ce_hash e)"

definition rows_ok :: "(string \<Rightarrow> string) \<Rightarrow> stored_key list \<Rightarrow> bool" where
  "rows_ok pf rows \<longleftrightarrow> distinct (map ak_id rows) \<and> distinct (map ak_prefix rows) \<and>
     (\<forall>r \<in> set rows. ak_prefix r = pf (ak_id r))"

definition ks_inv :: "(string \<Rightarrow> string) \<Rightarrow> key_store \<Rightarrow> bool" where
  "ks_inv pf st \<longleftrightarrow> gm_wf (ks_cache st) \<and> rows_ok pf (ks_rows st) \<and>
     (\<forall>p e. gm_get (ks_cache st) p = Some e \<longrightarrow> entry_ok pf (ks_rows st) p e)"

lemma to_api_key_sel [simp]:
  "ak_id (to_api_key r) = ak_id r" "ak_prefix (to_api_key r) = ak_prefix r" "ak_revoked (to_api_key r) = ak_revoked r"
  by (simp_all add: to_api_key_def api_key.truncate_def)

lemma first_row_Inr:
  "first_row ok P rows = Inr kh \<Longrightarrow> \<exists>r \<in> set rows. P r \<and> kh = (to_api_key r, sk_hash r)"
  by (force simp: first_row_def find_Some_iff in_set_conv_nth split: if_splits option.splits)

lemma update_patch_sel [simp]:
  "ak_id (update_patch now k) = uuid_nil" "ak_prefix (update_patch now k) = ak_prefix k"
  "ak_revoked (update_patch now k) = ak_revoked k" "sk_hash (update_patch now k) = []"
  by (simp_all add: update_patch_def api_key.extend_def stored_key.fields_def)

lemma upd_sel:
  assumes "updates_non_zero upd"
  shows "ak_id (upd r (update_patch now k)) = ak_id r" "sk_hash (upd r (update_patch now k)) = sk_hash r"
    "ak_prefix (upd r (update_patch now k)) = (if ak_prefix k = [] then ak_prefix r else ak_prefix k)"
    "ak_revoked (upd r (update_patch now k)) = (ak_revoked k \<or> ak_revoked r)"
  using assms by (simp_all add: updates_non_zero_def)

lemma gm_wf_touch [simp]: "gm_wf (touch_entry ttl now kid ip m) = gm_wf m"
proof -
  have "map fst (touch_entry ttl now kid ip m) = map fst m"
    by (induction ttl now kid ip m rule: touch_entry.induct) auto
  then show ?thesis by (simp add: gm_wf_def)
qed

lemma touch_entry_get:
  "gm_get (touch_entry ttl now kid ip m) p = Some e \<Longrightarrow> \<exists>e'. gm_get m p = Some e' \<and>
     ak_id (ce_key e) = ak_id (ce_key e') \<and> ak_prefix (ce_key e) = ak_prefix (ce_key e') \<and>
     ak_revoked (ce_key e) = ak_revoked (ce_key e') \<and> ce_hash e = ce_hash e'"
  by (induction ttl now kid ip m rule: touch_entry.induct) (auto simp: gm_get_def split: if_splits)

lemma cache_put_inv:
  assumes "ks_inv pf st" "entry_ok pf (ks_rows st) p \<lparr>ce_key = k, ce_hash = h, ce_expires = now + ttl\<rparr>"
  shows "ks_inv pf (cache_put ttl now p (k, h) st)"
  using assms by (auto simp: ks_inv_def cache_put_def)

text \<open>Caching a row that was just read.\<close>

lemma cache_row_inv:
  assumes "ks_inv pf st" "r \<in> set (ks_rows st)"
  shows "ks_inv pf (cache_put ttl now (ak_prefix r) (to_api_key r, sk_hash r) st)"
proof (rule cache_put_inv [OF assms(1)])
  show "entry_ok pf (ks_rows st) (ak_prefix r) \<lparr>ce_key = to_api_key r, ce_hash = sk_hash r, ce_expires = now + ttl\<rparr>"
    using assms by (auto simp: entry_ok_def ks_inv_def rows_ok_def)
qed

lemma ks_get_by_prefix_inv:
  assumes "ks_inv pf st"
  shows "ks_inv pf (snd (ks_get_by_prefix ttl ok now pre st))"
proof -
  have "ks_inv pf (cache_put ttl now pre kh st)" if "row_by_prefix ok pre (ks_rows st) = Inr kh" for kh
    using first_row_Inr [OF that [unfolded row_by_prefix_def]] cache_row_inv [OF assms] by blast
  with assms show ?thesis by (auto simp: ks_get_by_prefix_def Let_def split: option.split sum.split)
qed

lemma ks_get_by_id_inv:
  assumes "ks_inv pf st"
  shows "ks_inv pf (snd (ks_get_by_id ttl ok now kid st))"
proof -
  have "ks_inv pf (cache_put ttl now (ak_prefix (fst kh)) kh st)" if "row_by_id ok kid (ks_rows st) = Inr kh" for kh
    using first_row_Inr [OF that [unfolded row_by_id_def]] cache_row_inv [OF assms] by auto
  with assms show ?thesis by (auto simp: ks_get_by_id_def Let_def split: option.split sum.split)
qed

lemma ks_create_inv:
  assumes "ks_inv pf st" "ak_prefix key = pf (ak_id key)"
  shows "ks_inv pf (snd (ks_create ttl ok now key hash st))"
proof (cases "store_key ok key hash (ks_rows st)")
  case (Inr rows)
  define r where "r = api_key.extend (key\<lparr>ak_revoked_at := None\<rparr>) (stored_key.fields hash)"
  have r: "ak_id r = ak_id key" "ak_prefix r = ak_prefix key" "sk_hash r = hash"
    by (simp_all add: r_def api_key.extend_def stored_key.fields_def)
  have rows: "rows = ks_rows st @ [r]" "\<forall>q \<in> set (ks_rows st). ak_id q \<noteq> ak_id key \<and> ak_prefix q \<noteq> ak_prefix key"
    using Inr by (auto simp: store_key_def r_def list_ex_iff split: if_splits)
  have "ks_inv pf (st\<lparr>ks_rows := rows\<rparr>)"
    using assms rows r by (auto simp: ks_inv_def rows_ok_def entry_ok_def)
  then have "ks_inv pf (cache_put ttl now (ak_prefix key) (key, hash) (st\<lparr>ks_rows := rows\<rparr>))"
    by (rule cache_put_inv) (use rows r assms in \<open>auto simp: entry_ok_def\<close>)
  then show ?thesis using Inr by (simp add: ks_create_def)
qed (simp add: ks_create_def assms)

lemma map_row_ex:
  assumes "\<And>r. ak_id (f r) = ak_id r" "\<And>r. sk_hash (f r) = sk_hash r"
  shows "(\<exists>r \<in> set (map f rows). ak_id r = i \<and> sk_hash r = h) \<longleftrightarrow> (\<exists>r \<in> set rows. ak_id r = i \<and> sk_hash r = h)"
  using assms by simp

lemma update_key_rows_ok:
  assumes "updates_non_zero upd" "rows_ok pf rows" "ak_prefix key = pf (ak_id key)" "update_key upd ok now key rows = Inr rows'"
  shows "rows_ok pf rows'" and "\<And>i h. (\<exists>r \<in> set rows'. ak_id r = i \<and> sk_hash r = h) \<longleftrightarrow> (\<exists>r \<in> set rows. ak_id r = i \<and> sk_hash r = h)"
proof -
  let ?f = "\<lambda>r. if ak_id r = ak_id key then upd r (update_patch now key) else r"
  have rows': "rows' = map ?f rows" using assms(4) by (auto simp: update_key_def Let_def split: if_splits)
  have f: "ak_id (?f r) = ak_id r" "sk_hash (?f r) = sk_hash r" for r using upd_sel [OF assms(1)] by auto
  have "ak_prefix (?f r) = ak_prefix r" if "r \<in> set rows" for r
    using that assms(2,3) upd_sel [OF assms(1)] by (auto simp: rows_ok_def)
  then have pre: "map ak_prefix rows' = map ak_prefix rows" by (simp add: rows')
  have ids: "map ak_id rows' = map ak_id rows" by (simp add: rows' f(1))
  have "ak_prefix r = pf (ak_id r)" if "r \<in> set rows'" for r
    using that assms(2,3) by (auto simp: rows' rows_ok_def upd_sel [OF assms(1)])
  then show "rows_ok pf rows'" using assms(2) unfolding rows_ok_def pre ids by blast
  show "(\<exists>r \<in> set rows'. ak_id r = i \<and> sk_hash r = h) \<longleftrightarrow> (\<exists>r \<in> set rows. ak_id r = i \<and> sk_hash r = h)" for i h
    unfolding rows' by (rule map_row_ex) (simp_all only: f)
qed


lemma entry_ok_rows:
  assumes "entry_ok pf rows p e" "\<And>i h. (\<exists>r \<in> set rows'. ak_id r = i \<and> sk_hash r = h) \<longleftrightarrow> (\<exists>r \<in> set rows. ak_id r = i \<and> sk_hash r = h)"
  shows "entry_ok pf rows' p e"
  using assms by (simp add: entry_ok_def)

lemma ks_update_inv:
  assumes "updates_non_zero upd" "ks_inv pf st" "ak_prefix key = pf (ak_id key)"
  shows "ks_inv pf (snd (ks_update upd ttl ok now key st))"
proof (cases "update_key upd ok now key (ks_rows st)")
  case (Inr rows)
  have "rows_ok pf (ks_rows st)" using assms(2) by (simp add: ks_inv_def)
  note rows = update_key_rows_ok [OF assms(1) this assms(3) Inr]
  let ?st = "st\<lparr>ks_rows := rows\<rparr>"
  have inv: "ks_inv pf ?st"
    using assms(2) rows(1) entry_ok_rows [OF _ rows(2)] by (simp add: ks_inv_def)
  have "ks_inv pf (cache_put ttl now (ak_prefix key) (key, ce_hash e) ?st)"
    if "gm_get (ks_cache st) (ak_prefix key) = Some e" "ak_id (ce_key e) = ak_id key" for e
  proof (rule cache_put_inv [OF inv])
    have "entry_ok pf rows (ak_prefix key) e" using inv that by (simp add: ks_inv_def)
    then show "entry_ok pf (ks_rows ?st) (ak_prefix key) \<lparr>ce_key = key, ce_hash = ce_hash e, ce_expires = now + ttl\<rparr>"
      using that assms(3) by (auto simp: entry_ok_def)
  qed
  with inv show ?thesis by (simp add: ks_update_def Inr Let_def split: option.split)
qed (simp add: ks_update_def assms)

lemma ks_delete_inv:
  assumes "ks_inv pf st"
  shows "ks_inv pf (snd (ks_delete ok_query ok_delete kid st))"
proof (cases "row_by_id ok_query kid (ks_rows st)")
  case (Inr kh)
  obtain r where r: "r \<in> set (ks_rows st)" "ak_id r = kid" "kh = (to_api_key r, sk_hash r)"
    using first_row_Inr [OF Inr [unfolded row_by_id_def]] by blast
  show ?thesis
  proof (cases ok_delete)
    case True
    have "entry_ok pf (filter (\<lambda>r. ak_id r \<noteq> kid) (ks_rows st)) p e"
      if e: "gm_get (ks_cache st) p = Some e" "p \<noteq> ak_prefix r" for p e
    proof -
      have ok: "entry_ok pf (ks_rows st) p e" "ak_prefix r = pf kid"
        using assms e(1) r by (auto simp: ks_inv_def rows_ok_def)
      then have "ak_id (ce_key e) \<noteq> kid" using e(2) by (auto simp: entry_ok_def)
      then show ?thesis using ok(1) by (auto simp: entry_ok_def)
    qed
    then show ?thesis using True r assms
      by (auto simp: ks_delete_def Inr delete_key_def ks_inv_def rows_ok_def distinct_map_filter)
  qed (simp add: ks_delete_def Inr delete_key_def assms)
qed (simp add: ks_delete_def assms)

lemma ks_update_last_used_inv:
  assumes "ks_inv pf st"
  shows "ks_inv pf (snd (ks_update_last_used ttl ok now kid ip st))"
proof (cases ok)
  case True
  define rows where "rows = map (\<lambda>r. if ak_id r = kid then r\<lparr>ak_last_used_at := Some now, ak_last_used_ip := ip\<rparr> else r) (ks_rows st)"
  have sel: "map ak_id rows = map ak_id (ks_rows st)" "map ak_prefix rows = map ak_prefix (ks_rows st)"
    by (simp_all add: rows_def)
  have ex: "(\<exists>r \<in> set rows. ak_id r = i \<and> sk_hash r = h) \<longleftrightarrow> (\<exists>r \<in> set (ks_rows st). ak_id r = i \<and> sk_hash r = h)" for i h
    unfolding rows_def by (rule map_row_ex) simp_all
  have "rows_ok pf rows"
    using assms by (simp add: ks_inv_def rows_ok_def sel) (auto simp: rows_def)
  moreover have "entry_ok pf rows p e" if t: "gm_get (touch_entry ttl now kid ip (ks_cache st)) p = Some e" for p e
  proof -
    obtain e' where "gm_get (ks_cache st) p = Some e'" "ak_id (ce_key e) = ak_id (ce_key e')"
      "ak_prefix (ce_key e) = ak_prefix (ce_key e')" "ce_hash e = ce_hash e'"
      using touch_entry_get [OF t] by blast
    moreover have "entry_ok pf (ks_rows st) p e'" using assms calculation(1) by (simp add: ks_inv_def)
    ultimately show ?thesis by (simp add: entry_ok_def ex)
  qed
  ultimately show ?thesis using True assms
    by (simp add: ks_update_last_used_def update_last_used_def ks_inv_def flip: rows_def)
qed (simp add: ks_update_last_used_def update_last_used_def assms)

lemma key_step_inv:
  assumes "updates_non_zero upd" "ks_inv pf st" "op_prefix_ok pf op"
  shows "ks_inv pf (key_step upd ttl op st)"
  using assms
  by (cases op) (simp_all add: ks_create_inv ks_get_by_prefix_inv ks_get_by_id_inv ks_update_inv ks_delete_inv
      ks_update_last_used_inv)

lemma key_run_inv:
  assumes "updates_non_zero upd" "ks_inv pf st" "list_all (op_prefix_ok pf) ops"
  shows "ks_inv pf (key_run upd ttl ops st)"
  using assms(2,3)
proof (induction ops arbitrary: st)
  case (Cons op ops)
  then show ?case using key_step_inv [OF assms(1)] by (simp add: key_run_def)
qed (simp add: key_run_def)

section \<open>Lookups\<close>

text \<open>An answer of a lookup comes from the cache or from a row.\<close>

lemma ks_get_by_prefix_cases:
  assumes "fst (ks_get_by_prefix ttl ok now pre st) = Inr (k, h)"
  shows "(\<exists>e. gm_get (ks_cache st) pre = Some e \<and> k = ce_key e \<and> h = ce_hash e) \<or>
    (\<exists>r \<in> set (ks_rows st). ak_prefix r = pre \<and> k = to_api_key r \<and> h = sk_hash r)"
proof (cases "row_by_prefix ok pre (ks_rows st)")
  case (Inr kh)
  then show ?thesis
    using assms first_row_Inr [OF Inr [unfolded row_by_prefix_def]]
    by (auto simp: ks_get_by_prefix_def Let_def split: option.splits if_splits)
qed (use assms in \<open>auto simp: ks_get_by_prefix_def Let_def split: option.splits if_splits\<close>)

lemma ks_get_by_id_cases:
  assumes "fst (ks_get_by_id ttl ok now kid st) = Inr k"
  shows "(\<exists>p e. (p, e) \<in> set (ks_cache st) \<and> k = ce_key e \<and> ak_id k = kid) \<or>
    (\<exists>r \<in> set (ks_rows st). ak_id r = kid \<and> k = to_api_key r)"
proof (cases "find (\<lambda>e. ak_id (ce_key e) = kid \<and> now < ce_expires e) (gm_values (ks_cache st))")
  case None
  then show ?thesis
    using assms by (cases "row_by_id ok kid (ks_rows st)")
      (auto simp: ks_get_by_id_def row_by_id_def dest!: first_row_Inr)
next
  case (Some e)
  then have "e \<in> set (gm_values (ks_cache st))" "ak_id (ce_key e) = kid"
    by (auto simp: find_Some_iff)
  then obtain p where "(p, e) \<in> set (ks_cache st)" "ak_id (ce_key e) = kid" by (auto simp: gm_values_def)
  moreover have "k = ce_key e" using assms Some by (simp add: ks_get_by_id_def)
  ultimately show ?thesis by blast
qed

text \<open>
  C32. As long as rows are written only through the store and no update changes a prefix, a key the
  store returns for a prefix has that prefix, and the database has a row with the same identifier
  and the same hash: the cache never serves a key that has been deleted or a hash that no row holds.
\<close>

theorem lookup_backed_by_row:
  assumes "updates_non_zero upd" "ks_inv pf st" "list_all (op_prefix_ok pf) ops"
    "fst (ks_get_by_prefix ttl ok now pre (key_run upd ttl ops st)) = Inr (k, h)"
  shows "ak_prefix k = pre \<and>
    (\<exists>r \<in> set (ks_rows (key_run upd ttl ops st)). ak_id r = ak_id k \<and> ak_prefix r = pre \<and> sk_hash r = h)"
proof -
  let ?st = "key_run upd ttl ops st"
  have inv: "ks_inv pf ?st" by (rule key_run_inv [OF assms(1-3)])
  from ks_get_by_prefix_cases [OF assms(4)] show ?thesis
  proof
    assume "\<exists>e. gm_get (ks_cache ?st) pre = Some e \<and> k = ce_key e \<and> h = ce_hash e"
    then obtain e where e: "gm_get (ks_cache ?st) pre = Some e" "k = ce_key e" "h = ce_hash e" by blast
    then have "entry_ok pf (ks_rows ?st) pre e" using inv by (simp add: ks_inv_def)
    moreover have "ak_prefix r = pf (ak_id r)" if "r \<in> set (ks_rows ?st)" for r
      using that inv by (simp add: ks_inv_def rows_ok_def)
    ultimately show ?thesis unfolding entry_ok_def e(2,3) by metis
  qed auto
qed


section \<open>Revoked and deleted keys\<close>

text \<open>Every copy of a key, in a row or in the cache, has a flag that satisfies \<open>P\<close>.\<close>

definition copies_satisfy :: "(bool \<Rightarrow> bool) \<Rightarrow> string \<Rightarrow> key_store \<Rightarrow> bool" where
  "copies_satisfy P kid st \<longleftrightarrow> (\<forall>r \<in> set (ks_rows st). ak_id r = kid \<longrightarrow> P (ak_revoked r)) \<and>
     (\<forall>p e. gm_get (ks_cache st) p = Some e \<longrightarrow> ak_id (ce_key e) = kid \<longrightarrow> P (ak_revoked (ce_key e)))"

text \<open>No operation writes a copy of the key whose flag does not; a key without copies is not created.\<close>

fun op_keeps :: "(bool \<Rightarrow> bool) \<Rightarrow> string \<Rightarrow> key_op \<Rightarrow> bool" where
  "op_keeps P kid (OpCreate ok now key hash) = (ak_id key = kid \<longrightarrow> P (ak_revoked key))"
| "op_keeps P kid (OpUpdate ok now key) = (ak_id key = kid \<longrightarrow> P (ak_revoked key) \<or> \<not> (P True \<or> P False))"
| "op_keeps P kid _ = True"

lemma copies_cache_put:
  assumes "copies_satisfy P kid st" "ak_id k = kid \<Longrightarrow> P (ak_revoked k)"
  shows "copies_satisfy P kid (cache_put ttl now p (k, h) st)"
  using assms by (auto simp: copies_satisfy_def cache_put_def)

lemma copies_cache_row:
  assumes "copies_satisfy P kid st" "r \<in> set (ks_rows st)"
  shows "copies_satisfy P kid (cache_put ttl now p (to_api_key r, h) st)"
  by (rule copies_cache_put [OF assms(1)]) (use assms in \<open>auto simp: copies_satisfy_def\<close>)

lemma copies_create:
  assumes "copies_satisfy P kid st" "op_keeps P kid (OpCreate ok now key hash)"
  shows "copies_satisfy P kid (snd (ks_create ttl ok now key hash st))"
proof (cases "store_key ok key hash (ks_rows st)")
  case (Inr rows)
  have "copies_satisfy P kid (st\<lparr>ks_rows := rows\<rparr>)"
    using Inr assms
    by (auto simp: store_key_def copies_satisfy_def api_key.extend_def stored_key.fields_def split: if_splits)
  then have "copies_satisfy P kid (cache_put ttl now (ak_prefix key) (key, hash) (st\<lparr>ks_rows := rows\<rparr>))"
    using assms(2) by (intro copies_cache_put) simp_all
  then show ?thesis using Inr by (simp add: ks_create_def)
qed (simp add: ks_create_def assms)

lemma copies_update:
  assumes "updates_non_zero upd" "copies_satisfy P kid st" "op_keeps P kid (OpUpdate ok now key)"
  shows "copies_satisfy P kid (snd (ks_update upd ttl ok now key st))"
proof (cases "update_key upd ok now key (ks_rows st)")
  case (Inr rows)
  define f where "f = (\<lambda>r. if ak_id r = ak_id key then upd r (update_patch now key) else r)"
  have rows: "rows = map f (ks_rows st)" using Inr by (auto simp: f_def update_key_def Let_def split: if_splits)
  have "P (ak_revoked (f r))" if "r \<in> set (ks_rows st)" "ak_id r = kid" for r
    using assms(2,3) that upd_sel(4) [OF assms(1), of r now key] unfolding f_def
    by (cases "P True"; cases "P False"; cases "ak_revoked key"; cases "ak_revoked r") (auto simp: copies_satisfy_def)
  moreover have "ak_id (f r) = ak_id r" for r using upd_sel(1) [OF assms(1)] by (simp add: f_def)
  ultimately have st: "copies_satisfy P kid (st\<lparr>ks_rows := rows\<rparr>)"
    using assms(2) unfolding copies_satisfy_def rows by simp
  have "copies_satisfy P kid (cache_put ttl now (ak_prefix key) (key, ce_hash e) (st\<lparr>ks_rows := rows\<rparr>))"
    if "gm_get (ks_cache st) (ak_prefix key) = Some e" "ak_id (ce_key e) = ak_id key" for e
  proof (rule copies_cache_put [OF st])
    assume "ak_id key = kid"
    then have "P (ak_revoked (ce_key e))" using assms(2) that by (auto simp: copies_satisfy_def)
    then show "P (ak_revoked key)" using assms(3) \<open>ak_id key = kid\<close> by (cases "ak_revoked (ce_key e)") auto
  qed
  with st show ?thesis by (simp add: ks_update_def Inr Let_def split: option.split)
qed (simp add: ks_update_def assms)

lemma copies_step:
  assumes "updates_non_zero upd" "copies_satisfy P kid st" "op_keeps P kid op"
  shows "copies_satisfy P kid (key_step upd ttl op st)"
proof (cases op)
  case (OpByPrefix ok now pre)
  have "copies_satisfy P kid (cache_put ttl now pre kh st)" if "row_by_prefix ok pre (ks_rows st) = Inr kh" for kh
    using first_row_Inr [OF that [unfolded row_by_prefix_def]] copies_cache_row [OF assms(2)] by blast
  with assms OpByPrefix show ?thesis by (auto simp: ks_get_by_prefix_def Let_def split: option.split sum.split)
next
  case (OpById ok now k)
  have "copies_satisfy P kid (cache_put ttl now p kh st)" if "row_by_id ok k (ks_rows st) = Inr kh" for kh p
    using first_row_Inr [OF that [unfolded row_by_id_def]] copies_cache_row [OF assms(2)] by blast
  with assms OpById show ?thesis by (auto simp: ks_get_by_id_def Let_def split: option.split sum.split)
next
  case (OpDelete okq okd k)
  then show ?thesis using assms(2)
    by (auto simp: ks_delete_def delete_key_def copies_satisfy_def split: sum.split)
next
  case (OpUsed ok now k ip)
  then show ?thesis using assms(2) touch_entry_get
    by (fastforce simp: ks_update_last_used_def update_last_used_def copies_satisfy_def)
qed (use assms in \<open>simp_all add: copies_create copies_update\<close>)

lemma copies_run:
  assumes "updates_non_zero upd" "copies_satisfy P kid st" "list_all (op_keeps P kid) ops"
  shows "copies_satisfy P kid (key_run upd ttl ops st)"
  using assms(2,3)
proof (induction ops arbitrary: st)
  case (Cons op ops)
  then show ?case using copies_step [OF assms(1)] by (simp add: key_run_def)
qed (simp add: key_run_def)

definition lookup_answers :: "int \<Rightarrow> bool \<Rightarrow> int \<Rightarrow> key_store \<Rightarrow> api_key \<Rightarrow> bool" where
  "lookup_answers ttl ok now st k \<longleftrightarrow>
     (case fst (ks_get_by_prefix ttl ok now (ak_prefix k) st) of Inr kh \<Rightarrow> fst kh = k | Inl _ \<Rightarrow> False) \<or>
     fst (ks_get_by_id ttl ok now (ak_id k) st) = Inr k"

lemma copies_lookup:
  assumes "gm_wf (ks_cache st)" "copies_satisfy P (ak_id k) st" "lookup_answers ttl ok now st k"
  shows "P (ak_revoked k)"
proof -
  have "(\<exists>p e. gm_get (ks_cache st) p = Some e \<and> k = ce_key e) \<or> (\<exists>r \<in> set (ks_rows st). k = to_api_key r)"
    using assms(3) unfolding lookup_answers_def
  proof
    assume "case fst (ks_get_by_prefix ttl ok now (ak_prefix k) st) of Inr kh \<Rightarrow> fst kh = k | Inl _ \<Rightarrow> False"
    then obtain h where "fst (ks_get_by_prefix ttl ok now (ak_prefix k) st) = Inr (k, h)"
      by (auto split: sum.splits)
    then show ?thesis using ks_get_by_prefix_cases by blast
  next
    assume "fst (ks_get_by_id ttl ok now (ak_id k) st) = Inr k"
    then show ?thesis using ks_get_by_id_cases gm_get_in [OF assms(1)] by blast
  qed
  then show ?thesis using assms(2) by (auto simp: copies_satisfy_def)
qed


lemma key_run_wf: "gm_wf (ks_cache st) \<Longrightarrow> gm_wf (ks_cache (key_run upd ttl ops st))"
proof (induction ops arbitrary: st)
  case (Cons op ops)
  have "gm_wf (ks_cache (key_step upd ttl op st))"
    using Cons.prems by (cases op)
      (auto simp: ks_create_def ks_get_by_prefix_def ks_get_by_id_def ks_update_def ks_delete_def
        ks_update_last_used_def cache_put_def Let_def split: sum.splits option.splits)
  then show ?case using Cons.IH by (simp add: key_run_def)
qed (simp add: key_run_def)

lemma cached_at: "ks_inv pf st \<Longrightarrow> gm_get (ks_cache st) p = Some e \<Longrightarrow> p = pf (ak_id (ce_key e))"
  by (simp add: ks_inv_def entry_ok_def)

lemma update_revokes:
  assumes "updates_non_zero upd" "ks_inv pf st" "ak_prefix key = pf (ak_id key)" "ak_revoked key"
    "fst (ks_update upd ttl ok now key st) = None"
  shows "copies_satisfy (\<lambda>b. b) (ak_id key) (snd (ks_update upd ttl ok now key st))"
proof (cases "update_key upd ok now key (ks_rows st)")
  case (Inr rows)
  have rows: "\<forall>r \<in> set rows. ak_id r = ak_id key \<longrightarrow> ak_revoked r"
    using Inr upd_sel [OF assms(1)] assms(4) by (auto simp: update_key_def Let_def split: if_splits)
  have cached: "p = ak_prefix key" if "gm_get (ks_cache st) p = Some e" "ak_id (ce_key e) = ak_id key" for p e
    using cached_at [OF assms(2) that(1)] that(2) assms(3) by simp
  have put: "copies_satisfy (\<lambda>b. b) (ak_id key) (cache_put ttl now (ak_prefix key) (key, h) (st\<lparr>ks_rows := rows\<rparr>))" for h
    using rows cached assms(4) by (auto simp: copies_satisfy_def cache_put_def)
  have keep: "copies_satisfy (\<lambda>b. b) (ak_id key) (st\<lparr>ks_rows := rows\<rparr>)"
    if "\<And>e. gm_get (ks_cache st) (ak_prefix key) = Some e \<Longrightarrow> ak_id (ce_key e) \<noteq> ak_id key"
    using rows cached that by (auto simp: copies_satisfy_def)
  show ?thesis
  proof (cases "gm_get (ks_cache st) (ak_prefix key)")
    case None
    then show ?thesis using keep by (simp add: ks_update_def Inr)
  next
    case (Some e)
    then show ?thesis using put keep by (cases "ak_id (ce_key e) = ak_id key") (simp_all add: ks_update_def Inr)
  qed
qed (use assms in \<open>simp add: ks_update_def\<close>)

text \<open>
  C33. Once an update has revoked a key, every later lookup that returns a key with that identifier
  returns it revoked, whatever happens in between, unless an operation writes the key unrevoked.
\<close>

theorem revocation_final:
  assumes "updates_non_zero upd" "ks_inv pf st" "ak_prefix key = pf (ak_id key)" "ak_revoked key"
    "fst (ks_update upd ttl ok now key st) = None"
    "list_all (op_keeps (\<lambda>b. b) (ak_id key)) ops"
    "lookup_answers ttl ok' now' (key_run upd ttl ops (snd (ks_update upd ttl ok now key st))) k"
    "ak_id k = ak_id key"
  shows "ak_revoked k"
proof -
  let ?st = "snd (ks_update upd ttl ok now key st)"
  have "gm_wf (ks_cache ?st)" using ks_update_inv [OF assms(1-3)] by (simp add: ks_inv_def)
  moreover have "copies_satisfy (\<lambda>b. b) (ak_id k) (key_run upd ttl ops ?st)"
    unfolding assms(8) by (rule copies_run [OF assms(1) update_revokes [OF assms(1-5)] assms(6)])
  ultimately show ?thesis using copies_lookup [OF _ _ assms(7)] key_run_wf by blast
qed

lemma delete_removes:
  assumes "ks_inv pf st"
  shows "copies_satisfy (\<lambda>b. False) kid (snd (ks_delete True True kid st))"
proof (cases "row_by_id True kid (ks_rows st)")
  case (Inl e)
  then have "\<forall>r \<in> set (ks_rows st). ak_id r \<noteq> kid"
    by (auto simp: row_by_id_def first_row_def find_None_iff split: option.splits)
  then show ?thesis using assms by (auto simp: ks_delete_def Inl copies_satisfy_def ks_inv_def entry_ok_def)
next
  case (Inr kh)
  obtain r where r: "r \<in> set (ks_rows st)" "ak_id r = kid" "kh = (to_api_key r, sk_hash r)"
    using first_row_Inr [OF Inr [unfolded row_by_id_def]] by blast
  have "p = ak_prefix r" if "gm_get (ks_cache st) p = Some e" "ak_id (ce_key e) = kid" for p e
    using cached_at [OF assms that(1)] that(2) assms r by (simp add: ks_inv_def rows_ok_def)
  then show ?thesis using r by (auto simp: ks_delete_def Inr delete_key_def copies_satisfy_def)
qed

text \<open>
  After a key has been deleted through the store, with the database answering, no later lookup
  returns a key with its identifier, unless an operation creates it again.
\<close>

theorem deletion_final:
  assumes "updates_non_zero upd" "ks_inv pf st" "list_all (op_keeps (\<lambda>b. False) (ak_id k)) ops"
  shows "\<not> lookup_answers ttl ok now (key_run upd ttl ops (snd (ks_delete True True (ak_id k) st))) k"
proof
  assume a: "lookup_answers ttl ok now (key_run upd ttl ops (snd (ks_delete True True (ak_id k) st))) k"
  have "gm_wf (ks_cache (snd (ks_delete True True (ak_id k) st)))"
    using ks_delete_inv [OF assms(2)] by (simp add: ks_inv_def)
  moreover have "copies_satisfy (\<lambda>b. False) (ak_id k) (key_run upd ttl ops (snd (ks_delete True True (ak_id k) st)))"
    by (rule copies_run [OF assms(1) delete_removes [OF assms(2)] assms(3)])
  ultimately show False using copies_lookup [OF _ _ a] key_run_wf by blast
qed

section \<open>Concrete runs\<close>

definition gorm_updates :: row_update where
  "gorm_updates row sk =
     \<lparr>ak_id = (if ak_id sk = uuid_nil then ak_id row else ak_id sk),
      ak_name = (if ak_name sk = [] then ak_name row else ak_name sk),
      ak_prefix = (if ak_prefix sk = [] then ak_prefix row else ak_prefix sk),
      ak_owner = (if ak_owner sk = uuid_nil then ak_owner row else ak_owner sk),
      ak_org = (if ak_org sk = None then ak_org row else ak_org sk),
      ak_scopes = (if ak_scopes sk = None then ak_scopes row else ak_scopes sk),
      ak_description = (if ak_description sk = [] then ak_description row else ak_description sk),
      ak_environment = (if ak_environment sk = [] then ak_environment row else ak_environment sk),
      ak_expires_at = (if ak_expires_at sk = None then ak_expires_at row else ak_expires_at sk),
      ak_last_used_at = (if ak_last_used_at sk = None then ak_last_used_at row else ak_last_used_at sk),
      ak_last_used_ip = (if ak_last_used_ip sk = [] then ak_last_used_ip row else ak_last_used_ip sk),
      ak_revoked = (if ak_revoked sk then True else ak_revoked row),
      ak_revoked_at = (if ak_revoked_at sk = None then ak_revoked_at row else ak_revoked_at sk),
      ak_revoked_reason = (if ak_revoked_reason sk = [] then ak_revoked_reason row else ak_revoked_reason sk),
      ak_metadata = (if ak_metadata sk = None then ak_metadata row else ak_metadata sk),
      ak_created_at = (if ak_created_at sk = zero_time then ak_created_at row else ak_created_at sk),
      ak_updated_at = (if ak_updated_at sk = zero_time then ak_updated_at row else ak_updated_at sk),
      sk_hash = (if sk_hash sk = [] then sk_hash row else sk_hash sk)\<rparr>"

lemma gorm_updates_non_zero: "updates_non_zero gorm_updates"
  by (simp add: updates_non_zero_def gorm_updates_def)

definition example_key :: api_key where
  "example_key = \<lparr>ak_id = ''k1'', ak_name = ''ci'', ak_prefix = ''sls_1'', ak_owner = ''o1'', ak_org = Some uuid_nil,
     ak_scopes = Some [''node''], ak_description = [], ak_environment = ''live'', ak_expires_at = None,
     ak_last_used_at = None, ak_last_used_ip = [], ak_revoked = False, ak_revoked_at = None,
     ak_revoked_reason = [], ak_metadata = None, ak_created_at = 0, ak_updated_at = 0\<rparr>"

definition empty_store :: key_store where
  "empty_store = \<lparr>ks_rows = [], ks_cache = []\<rparr>"

definition example_store :: key_store where
  "example_store = snd (ks_create cached_key_ttl True 0 example_key ''h1'' empty_store)"

lemma empty_store_inv: "ks_inv pf empty_store"
  by (simp add: ks_inv_def empty_store_def rows_ok_def)

lemma example_store_inv: "ks_inv (\<lambda>_. ''sls_1'') example_store"
  unfolding example_store_def by (rule ks_create_inv [OF empty_store_inv]) (simp add: example_key_def)

definition example_ops :: "key_op list" where
  "example_ops = [OpCreate True 0 example_key ''h1'', OpByPrefix True 1 ''sls_1'', OpUsed True 2 ''k1'' ''10.0.0.1'',
     OpById True (2 * cached_key_ttl) ''k1'']"

lemma lookup_backed_by_row_witness:
  "\<exists>r \<in> set (ks_rows (key_run gorm_updates cached_key_ttl example_ops empty_store)).
     ak_id r = ''k1'' \<and> ak_prefix r = ''sls_1'' \<and> sk_hash r = ''h1''"
proof -
  have "fst (ks_get_by_prefix cached_key_ttl True 3 ''sls_1'' (key_run gorm_updates cached_key_ttl example_ops empty_store))
    = Inr (example_key\<lparr>ak_last_used_at := Some 2, ak_last_used_ip := ''10.0.0.1''\<rparr>, ''h1'')"
    by code_simp
  from lookup_backed_by_row [OF gorm_updates_non_zero empty_store_inv [of "\<lambda>_. ''sls_1''"] _ this]
  show ?thesis by (simp add: example_ops_def example_key_def)
qed

lemma revocation_final_witness:
  "ak_revoked ((to_api_key (ks_rows (key_run gorm_updates cached_key_ttl [OpUsed True 2 ''k1'' ''10.0.0.1'', OpByPrefix True (3 * cached_key_ttl) ''sls_1'']
     (snd (ks_update gorm_updates cached_key_ttl True 1 (example_key\<lparr>ak_revoked := True\<rparr>) example_store))) ! 0)))"
  by (rule revocation_final [OF gorm_updates_non_zero example_store_inv, where key = "example_key\<lparr>ak_revoked := True\<rparr>"
        and ttl = cached_key_ttl and ok = True and now = 1 and ok' = True and now' = "6 * cached_key_ttl"
        and ops = "[OpUsed True 2 ''k1'' ''10.0.0.1'', OpByPrefix True (3 * cached_key_ttl) ''sls_1'']"]) code_simp+

lemma deletion_final_witness:
  "\<not> lookup_answers cached_key_ttl True 3 (key_run gorm_updates cached_key_ttl [OpByPrefix True 2 ''sls_1'', OpUsed True 2 ''k1'' ''10.0.0.1'']
     (snd (ks_delete True True (ak_id example_key) example_store))) example_key"
  by (rule deletion_final [OF gorm_updates_non_zero example_store_inv]) code_simp


section \<open>What the store does not promise\<close>

text \<open>
  The command line deletes a key in a process of its own: the rows change and the cache of the
  running server does not. A key in use is then never read from the database again, because each
  use renews its entry.
\<close>

definition use_round :: "int \<Rightarrow> int \<Rightarrow> string \<Rightarrow> key_store \<Rightarrow> key_store" where
  "use_round ttl now kid st = snd (ks_update_last_used ttl True now kid [] st)"

lemma used_key_survives_external_delete:
  assumes "0 \<le> d" "d < ttl" "ks_rows st = []" "ks_cache st = [(ak_prefix (ce_key e), e)]"
    "ak_id (ce_key e) = kid" "t < ce_expires e"
  shows "\<exists>k h. fst (ks_get_by_prefix ttl True (t + int n * d) (ak_prefix (ce_key e))
      (fold (\<lambda>i. use_round ttl (t + int i * d) kid) [0..<n] st)) = Inr (k, h) \<and> ak_id k = kid"
proof -
  have "\<exists>e'. ks_cache (fold (\<lambda>i. use_round ttl (t + int i * d) kid) [0..<n] st) = [(ak_prefix (ce_key e), e')] \<and>
    ak_id (ce_key e') = kid \<and> t + int n * d < ce_expires e'"
  proof (induction n)
    case 0
    then show ?case using assms by simp
  next
    case (Suc n)
    then show ?case using assms(2)
      by (auto simp: use_round_def ks_update_last_used_def update_last_used_def algebra_simps)
  qed
  then show ?thesis by (auto simp: ks_get_by_prefix_def gm_get_def)
qed

text \<open>
  A lookup that misses the cache reads the row and puts it into the cache in two steps, between which the cache is
  not locked. When the key is revoked in between, the old row is cached after it, and later lookups return the key
  as not revoked until the entry expires.
\<close>

definition fill_prefix :: "int \<Rightarrow> int \<Rightarrow> string \<Rightarrow> key_error + (api_key \<times> string) \<Rightarrow> key_store \<Rightarrow> (key_error + (api_key \<times> string)) \<times> key_store" where
  "fill_prefix ttl now pre r st = (case r of Inl e \<Rightarrow> (Inl e, st) | Inr kh \<Rightarrow> (Inr kh, cache_put ttl now pre kh st))"

lemma missed_lookup_steps:
  "(\<And>e. gm_get (ks_cache st) pre = Some e \<Longrightarrow> ce_expires e \<le> now) \<Longrightarrow>
     ks_get_by_prefix ttl ok now pre st = fill_prefix ttl now pre (row_by_prefix ok pre (ks_rows st)) st"
  by (force simp: ks_get_by_prefix_def fill_prefix_def Let_def split: option.split)

lemma interleaved_lookup_undoes_revocation:
  "let st = example_store\<lparr>ks_cache := []\<rparr>;
       read = row_by_prefix True ''sls_1'' (ks_rows st);
       (e, st) = ks_update gorm_updates cached_key_ttl True 1 (example_key\<lparr>ak_revoked := True\<rparr>) st;
       st = snd (fill_prefix cached_key_ttl 2 ''sls_1'' read st)
   in e = None \<and> map ak_revoked (ks_rows st) = [True] \<and>
      (case fst (ks_get_by_prefix cached_key_ttl True 3 ''sls_1'' st) of Inr kh \<Rightarrow> \<not> ak_revoked (fst kh) | Inl _ \<Rightarrow> False)"
  by code_simp

text \<open>A flag that is cleared by an update is cleared in the cache only: gorm skips the zero value.\<close>

lemma unrevoke_lost:
  assumes "updates_non_zero upd"
  shows "ak_revoked (upd r (update_patch now (k\<lparr>ak_revoked := False\<rparr>))) = ak_revoked r"
  using upd_sel(4) [OF assms] by simp

text \<open>A deletion reports success when the database does not answer its first query.\<close>

lemma delete_hides_failure: "ks_delete False ok kid st = (None, st)"
  by (simp add: ks_delete_def row_by_id_def first_row_def)

text \<open>A key created as revoked loses the time of its revocation.\<close>

lemma created_key_loses_revoked_at:
  "store_key True k h [] = Inr [r] \<Longrightarrow> ak_revoked_at r = None"
  by (auto simp: store_key_def api_key.extend_def stored_key.fields_def)

end
