(* ===== verification/Daemon_Console.thy ===== *)
theory Daemon_Console
  imports SLS_Prelude
begin

text \<open>
  The console of a server on the daemon: the lock and the rate limiter of \<^verbatim>\<open>daemon/system\<close>
  (\<^verbatim>\<open>locker.go\<close>, \<^verbatim>\<open>rate.go\<close>), the throttle of the console (\<^verbatim>\<open>daemon/server/console.go\<close>), and the
  pool of sinks its output is pushed to (\<^verbatim>\<open>daemon/system/sink_pool.go\<close>). Times are nanoseconds of a
  clock that does not go back.
\<close>

section \<open>The lock\<close>

text \<open>Whether the lock's channel of one element is full; \<open>None\<close> once it is destroyed (a nil channel).\<close>

type_synonym locker = "bool option"

definition new_locker :: locker where
  "new_locker = Some False"

definition is_locked :: "locker \<Rightarrow> bool" where
  "is_locked l = (l = Some True)"

text \<open>\<^verbatim>\<open>Acquire\<close>: whether it took the lock, and the lock after it.\<close>

definition locker_acquire :: "locker \<Rightarrow> bool \<times> locker" where
  "locker_acquire l = (if l = Some False then (True, Some True) else (False, l))"

text \<open>\<^verbatim>\<open>TryAcquire\<close>: \<open>freed\<close> says whether a full lock becomes free before the context ends.\<close>

definition locker_try_acquire :: "bool \<Rightarrow> locker \<Rightarrow> bool \<times> locker" where
  "locker_try_acquire freed l = (if l = Some False \<or> (l = Some True \<and> freed) then (True, Some True) else (False, l))"

definition locker_release :: "locker \<Rightarrow> locker" where
  "locker_release l = (if l = Some True then Some False else l)"

definition locker_destroy :: "locker \<Rightarrow> locker" where
  "locker_destroy l = None"

section \<open>The rate limiter\<close>

record rate =
  ra_limit :: nat
  ra_duration :: int
  ra_count :: nat
  ra_last :: int

definition new_rate :: "nat \<Rightarrow> int \<Rightarrow> int \<Rightarrow> rate" where
  "new_rate limit duration now = \<lparr>ra_limit = limit, ra_duration = duration, ra_count = 0, ra_last = now\<rparr>"

definition rate_try :: "int \<Rightarrow> rate \<Rightarrow> bool \<times> rate" where
  "rate_try now r =
     (let r = (if now - ra_last r > ra_duration r then r\<lparr>ra_count := 0, ra_last := now\<rparr> else r)
      in if (ra_count r + 1) mod 2 ^ 64 > ra_limit r then (False, r)
         else (True, r\<lparr>ra_count := (ra_count r + 1) mod 2 ^ 64\<rparr>))"

definition rate_reset :: "int \<Rightarrow> rate \<Rightarrow> rate" where
  "rate_reset now r = r\<lparr>ra_count := 0, ra_last := now\<rparr>"

section \<open>The throttle\<close>

record console_throttle =
  ct_limit :: rate
  ct_lock :: locker

definition new_console_throttle :: "nat \<Rightarrow> int \<Rightarrow> int \<Rightarrow> console_throttle" where
  "new_console_throttle lines period now = \<lparr>ct_limit = new_rate lines period now, ct_lock = new_locker\<rparr>"

text \<open>\<^verbatim>\<open>Allow\<close>: whether the line passes, whether the strike function is called, and the throttle.\<close>

definition throttle_allow :: "int \<Rightarrow> console_throttle \<Rightarrow> bool \<times> bool \<times> console_throttle" where
  "throttle_allow now ct =
     (let (ok, r) = rate_try now (ct_limit ct)
      in if \<not> ok then
           (let (got, l) = locker_acquire (ct_lock ct)
            in (False, got, \<lparr>ct_limit = r, ct_lock = l\<rparr>))
         else (True, False, \<lparr>ct_limit = r, ct_lock = locker_release (ct_lock ct)\<rparr>))"

definition throttle_reset :: "int \<Rightarrow> console_throttle \<Rightarrow> console_throttle" where
  "throttle_reset now ct = ct\<lparr>ct_limit := rate_reset now (ct_limit ct)\<rparr>"

text \<open>The lines of a run, each with its outcome.\<close>

fun throttle_run :: "console_throttle \<Rightarrow> int list \<Rightarrow> (int \<times> bool \<times> bool) list" where
  "throttle_run ct [] = []"
| "throttle_run ct (t # ts) = (let (ok, strike, ct') = throttle_allow t ct in (t, ok, strike) # throttle_run ct' ts)"

section \<open>How many lines pass\<close>

text \<open>The times at which lines pass a rate limiter.\<close>

fun rate_passes :: "rate \<Rightarrow> int list \<Rightarrow> int list" where
  "rate_passes r [] = []"
| "rate_passes r (t # ts) = (let (ok, r') = rate_try t r in (if ok then [t] else []) @ rate_passes r' ts)"

definition passes_between :: "int \<Rightarrow> int \<Rightarrow> rate \<Rightarrow> int list \<Rightarrow> nat" where
  "passes_between a b r ts = length (filter (\<lambda>t. a \<le> t \<and> t \<le> b) (rate_passes r ts))"

definition rate_ok :: "rate \<Rightarrow> bool" where
  "rate_ok r \<longleftrightarrow> ra_limit r < 2 ^ 64 - 1 \<and> ra_count r \<le> ra_limit r \<and> 0 \<le> ra_duration r"

lemma rate_try_ok:
  assumes "rate_ok r"
  shows "rate_try now r =
    (let expired = now - ra_last r > ra_duration r; n = (if expired then 0 else ra_count r);
         last = (if expired then now else ra_last r)
     in (n < ra_limit r, r\<lparr>ra_count := (if n < ra_limit r then n + 1 else n), ra_last := last\<rparr>))"
  using assms by (auto simp: rate_ok_def rate_try_def Let_def)

lemma rate_try_keeps:
  assumes "rate_ok r"
  shows "rate_ok (snd (rate_try now r)) \<and> ra_limit (snd (rate_try now r)) = ra_limit r \<and>
    ra_duration (snd (rate_try now r)) = ra_duration r"
  using assms by (auto simp: rate_try_ok [OF assms] Let_def rate_ok_def)

lemma passes_step:
  assumes "rate_ok r"
  shows "passes_between a b r (t # ts) =
    (if fst (rate_try t r) \<and> a \<le> t \<and> t \<le> b then 1 else 0) + passes_between a b (snd (rate_try t r)) ts"
  by (auto simp: passes_between_def case_prod_unfold Let_def)

text \<open>Once the window that contains \<open>b\<close> has begun, what is left of its budget bounds the lines.\<close>

lemma passes_in_window:
  assumes "rate_ok r" "b \<le> ra_last r + ra_duration r" "sorted (ra_last r # ts)"
  shows "passes_between a b r ts \<le> ra_limit r - ra_count r"
  using assms
proof (induction ts arbitrary: r)
  case (Cons t ts)
  show ?case
  proof (cases "t - ra_last r > ra_duration r")
    case True
    then have none: "filter (\<lambda>t. a \<le> t \<and> t \<le> b) (rate_passes r' ts') = []"
      if "set ts' \<subseteq> set (t # ts)" for r' ts'
      using that Cons.prems(2,3)
    proof (induction ts' arbitrary: r')
      case (Cons x xs)
      have "t \<le> x" using Cons.prems by auto
      then show ?case using Cons by (auto simp: case_prod_unfold Let_def)
    qed simp
    show ?thesis unfolding passes_between_def using none [of "t # ts" r] by simp
  next
    case False
    let ?r = "snd (rate_try t r)"
    have "rate_ok ?r" "ra_limit ?r = ra_limit r" "ra_last ?r = ra_last r" "ra_duration ?r = ra_duration r"
      "ra_count ?r = (if ra_count r < ra_limit r then ra_count r + 1 else ra_count r)"
      "fst (rate_try t r) = (ra_count r < ra_limit r)"
      using False Cons.prems(1) by (auto simp: rate_try_ok [OF Cons.prems(1)] Let_def rate_ok_def)
    then show ?thesis
      using Cons.IH [of ?r] Cons.prems by (auto simp: passes_step [OF Cons.prems(1)])
  qed
qed (simp add: passes_between_def)

lemma passes_in_two_windows:
  assumes "rate_ok r" "b - a \<le> ra_duration r" "sorted (ra_last r # ts)" "\<forall>t \<in> set ts. a \<le> t"
  shows "passes_between a b r ts \<le> (ra_limit r - ra_count r) + ra_limit r"
  using assms
proof (induction ts arbitrary: r)
  case (Cons t ts)
  let ?r = "snd (rate_try t r)"
  note keep = rate_try_keeps [OF Cons.prems(1), of t]
  have last: "sorted (ra_last ?r # ts)"
    using Cons.prems by (auto simp: rate_try_ok [OF Cons.prems(1)] Let_def)
  show ?case
  proof (cases "t - ra_last r > ra_duration r")
    case False
    have "ra_count ?r = (if ra_count r < ra_limit r then ra_count r + 1 else ra_count r)"
      "fst (rate_try t r) = (ra_count r < ra_limit r)"
      using False by (auto simp: rate_try_ok [OF Cons.prems(1)] Let_def)
    then show ?thesis
      using Cons.IH [of ?r] Cons.prems keep last by (auto simp: passes_step [OF Cons.prems(1)])
  next
    case True
    have r: "ra_count ?r = (if 0 < ra_limit r then 1 else 0)" "ra_last ?r = t" "fst (rate_try t r) = (0 < ra_limit r)"
      using True by (auto simp: rate_try_ok [OF Cons.prems(1)] Let_def)
    have "passes_between a b ?r ts \<le> ra_limit ?r - ra_count ?r"
      using Cons.prems keep last r by (intro passes_in_window) auto
    then show ?thesis using r keep by (auto simp: passes_step [OF Cons.prems(1)])
  qed
qed (simp add: passes_between_def)

text \<open>
  In any stretch of time as long as the period, at most twice the limit of lines pass: one
  budget of the window in which it begins and one of the next.
\<close>

theorem rate_bounds_every_period:
  assumes "rate_ok r" "b - a \<le> ra_duration r" "sorted (ra_last r # ts)"
  shows "passes_between a b r ts \<le> 2 * ra_limit r"
  using assms
proof (induction ts arbitrary: r)
  case (Cons t ts)
  show ?case
  proof (cases "a \<le> t")
    case True
    then have "\<forall>x \<in> set (t # ts). a \<le> x" using Cons.prems(3) by auto
    then show ?thesis using passes_in_two_windows [OF Cons.prems] by simp
  next
    case False
    let ?r = "snd (rate_try t r)"
    have "sorted (ra_last ?r # ts)"
      using Cons.prems by (auto simp: rate_try_ok [OF Cons.prems(1)] Let_def)
    then show ?thesis
      using False Cons.IH [of ?r] Cons.prems(2) rate_try_keeps [OF Cons.prems(1), of t]
      by (simp add: passes_step [OF Cons.prems(1)])
  qed
qed (simp add: passes_between_def)

text \<open>Twice the limit is reached: a budget at the end of one window and one at the start of the next.\<close>

lemma rate_bounds_every_period_witness:
  "passes_between 9 12 (new_rate 3 10 0) [9, 9, 10, 11, 11, 12, 12] = 6 \<and>
   passes_between 9 12 (new_rate 3 10 0) [9, 9, 10, 11, 11, 12, 12] \<le> 2 * 3"
proof -
  have "passes_between 9 12 (new_rate 3 10 0) [9, 9, 10, 11, 11, 12, 12] \<le> 2 * ra_limit (new_rate 3 10 0)"
    by (rule rate_bounds_every_period) (simp_all add: new_rate_def rate_ok_def)
  moreover have "passes_between 9 12 (new_rate 3 10 0) [9, 9, 10, 11, 11, 12, 12] = 6" by (simp add: passes_between_def new_rate_def rate_try_def Let_def)
  ultimately show ?thesis by (simp add: new_rate_def)
qed

section \<open>When the throttle strikes\<close>

text \<open>
  The strike function runs on a refused line exactly when the line before it passed, or when it
  is the first since the throttle was made.
\<close>

definition strike_spec :: "bool \<Rightarrow> (int \<times> bool \<times> bool) list \<Rightarrow> bool" where
  "strike_spec l run \<longleftrightarrow> (\<forall>i < length run. snd (snd (run ! i)) =
     (\<not> fst (snd (run ! i)) \<and> (if i = 0 then \<not> l else fst (snd (run ! (i - 1))))))"

lemma strike_spec_Cons:
  "strike_spec l ((t, ok, s) # run) \<longleftrightarrow> s = (\<not> ok \<and> \<not> l) \<and> strike_spec (\<not> ok) run"
proof -
  have "(if i = 0 then \<not> \<not> ok else fst (snd (run ! (i - 1)))) = fst (snd (((t, ok, s) # run) ! i))" for i
    by (cases i) simp_all
  then show ?thesis by (simp add: strike_spec_def All_less_Suc2)
qed

lemma throttle_strikes_from:
  "ct_lock ct = Some l \<Longrightarrow> strike_spec l (throttle_run ct ts)"
proof (induction ts arbitrary: ct l)
  case (Cons t ts)
  obtain ok s ct' where a: "throttle_allow t ct = (ok, s, ct')" by (metis prod_cases3)
  then have "s = (\<not> ok \<and> \<not> l)" "ct_lock ct' = Some (\<not> ok)"
    using Cons.prems by (auto simp: throttle_allow_def locker_acquire_def locker_release_def case_prod_unfold Let_def split: if_splits)
  then show ?case using Cons.IH [of ct'] a by (simp add: strike_spec_Cons)
qed (simp add: strike_spec_def)

text \<open>
  On a new throttle, a run of refused lines strikes once, on its first line, and a line that
  passes never strikes.
\<close>

theorem throttle_strikes_once:
  "strike_spec False (throttle_run (new_console_throttle lines period now) ts)"
  by (rule throttle_strikes_from) (simp add: new_console_throttle_def new_locker_def)

section \<open>Sinks\<close>

text \<open>
  A channel by its capacity, what it buffers and whether it is closed; \<open>None\<close> in a pool is a nil
  channel. Nobody receives while a message is pushed: the sends of one push then wait out their
  ten milliseconds, drop the oldest message and try again, in any order of the goroutines when
  the channels are distinct.
\<close>

record 'a chan =
  ch_cap :: nat
  ch_buf :: "'a list"
  ch_closed :: bool

type_synonym 'a chans = "nat \<Rightarrow> 'a chan"
type_synonym sink_pool = "nat option list"

definition sink_on :: "nat option \<Rightarrow> sink_pool \<Rightarrow> sink_pool" where
  "sink_on c pool = pool @ [c]"

definition chan_close :: "nat \<Rightarrow> 'a chans \<Rightarrow> 'a chans go" where
  "chan_close c cs = (if ch_closed (cs c) then Panic else Ret (cs(c := (cs c)\<lparr>ch_closed := True\<rparr>)))"

definition sink_off :: "nat option \<Rightarrow> sink_pool \<times> 'a chans \<Rightarrow> (sink_pool \<times> 'a chans) go" where
  "sink_off c ps = (let (pool, cs) = ps
     in if c \<in> set pool then
          (case c of
             None \<Rightarrow> Ret (remove1 c pool, cs)
           | Some k \<Rightarrow> go_bind (chan_close k cs) (\<lambda>cs'. Ret (remove1 c pool, cs')))
        else Ret (pool, cs))"

fun close_all :: "nat option list \<Rightarrow> 'a chans \<Rightarrow> 'a chans go" where
  "close_all [] cs = Ret cs"
| "close_all (None # pool) cs = close_all pool cs"
| "close_all (Some k # pool) cs = go_bind (chan_close k cs) (close_all pool)"

definition sink_destroy :: "sink_pool \<times> 'a chans \<Rightarrow> (sink_pool \<times> 'a chans) go" where
  "sink_destroy ps = (let (pool, cs) = ps in go_bind (close_all pool cs) (\<lambda>cs'. Ret ([], cs')))"

definition push_one :: "'a \<Rightarrow> 'a chan \<Rightarrow> 'a chan go" where
  "push_one m ch =
     (if ch_closed ch then Panic
      else if length (ch_buf ch) < ch_cap ch then Ret (ch\<lparr>ch_buf := ch_buf ch @ [m]\<rparr>)
      else case ch_buf ch of
             [] \<Rightarrow> Ret ch
           | _ # rest \<Rightarrow> Ret (ch\<lparr>ch_buf := rest @ [m]\<rparr>))"

fun push_all :: "'a \<Rightarrow> nat option list \<Rightarrow> 'a chans \<Rightarrow> 'a chans go" where
  "push_all m [] cs = Ret cs"
| "push_all m (None # pool) cs = push_all m pool cs"
| "push_all m (Some k # pool) cs = go_bind (push_one m (cs k)) (\<lambda>ch. push_all m pool (cs(k := ch)))"

fun push_run :: "sink_pool \<Rightarrow> 'a list \<Rightarrow> 'a chans \<Rightarrow> 'a chans go" where
  "push_run pool [] cs = Ret cs"
| "push_run pool (m # ms) cs = go_bind (push_all m pool cs) (push_run pool ms)"

text \<open>A pool as its users keep it: no channel twice, and every channel open.\<close>

definition pool_ok :: "sink_pool \<Rightarrow> 'a chans \<Rightarrow> bool" where
  "pool_ok pool cs \<longleftrightarrow> distinct (filter (\<lambda>c. c \<noteq> None) pool) \<and>
     (\<forall>k. Some k \<in> set pool \<longrightarrow> \<not> ch_closed (cs k) \<and> length (ch_buf (cs k)) \<le> ch_cap (cs k))"

text \<open>The last \<open>n\<close> elements of a list.\<close>

definition last_n :: "nat \<Rightarrow> 'a list \<Rightarrow> 'a list" where
  "last_n n xs = drop (length xs - n) xs"

definition pushed :: "'a \<Rightarrow> 'a chan \<Rightarrow> 'a chan" where
  "pushed m ch = ch\<lparr>ch_buf := last_n (ch_cap ch) (ch_buf ch @ [m])\<rparr>"

lemma last_n_short: "length xs \<le> n \<Longrightarrow> last_n n xs = xs"
  by (simp add: last_n_def)

lemma last_n_last_n: "last_n n (last_n n xs @ ys) = last_n n (xs @ ys)"
  by (cases "length xs \<le> n") (simp_all add: last_n_def add.commute)

lemma push_one_open:
  assumes "\<not> ch_closed ch" "length (ch_buf ch) \<le> ch_cap ch"
  shows "push_one m ch = Ret (pushed m ch)"
proof (cases "length (ch_buf ch) < ch_cap ch")
  case True
  then show ?thesis using assms by (simp add: push_one_def pushed_def last_n_short)
next
  case False
  then have "length (ch_buf ch) = ch_cap ch" using assms by simp
  then show ?thesis using assms
    by (cases "ch_buf ch") (auto simp: push_one_def pushed_def last_n_def)
qed

lemma push_all_ok:
  assumes "pool_ok pool cs"
  shows "push_all m pool cs = Ret (\<lambda>k. if Some k \<in> set pool then pushed m (cs k) else cs k)"
  using assms
proof (induction m pool cs rule: push_all.induct)
  case (3 m k pool cs)
  have k: "\<not> ch_closed (cs k)" "length (ch_buf (cs k)) \<le> ch_cap (cs k)" "Some k \<notin> set pool"
    using 3(2) by (auto simp: pool_ok_def)
  have "pool_ok pool (cs(k := pushed m (cs k)))" using 3(2) k(3) by (auto simp: pool_ok_def)
  from 3(1) [OF this] k
  have "push_all m (Some k # pool) cs = Ret (\<lambda>i. if Some i \<in> set pool
      then pushed m ((cs(k := pushed m (cs k))) i) else (cs(k := pushed m (cs k))) i)"
    by (simp add: push_one_open del: fun_upd_apply)
  moreover have "(\<lambda>i. if Some i \<in> set pool then pushed m ((cs(k := pushed m (cs k))) i) else (cs(k := pushed m (cs k))) i)
    = (\<lambda>i. if Some i \<in> set (Some k # pool) then pushed m (cs i) else cs i)"
    using k(3) by (auto simp: fun_eq_iff)
  ultimately show ?case by simp
qed (auto simp: pool_ok_def)

lemma pool_ok_push: "pool_ok pool cs \<Longrightarrow> pool_ok pool (\<lambda>k. if Some k \<in> set pool then pushed m (cs k) else cs k)"
  by (auto simp: pool_ok_def pushed_def last_n_def)

text \<open>
  Pushing messages to the sinks of a pool never panics, and leaves in each sink the newest
  messages of what it had and was sent, as many as it holds, in order; other channels are left
  alone.
\<close>

theorem push_keeps_newest:
  assumes "pool_ok pool cs"
  shows "push_run pool ms cs = Ret (\<lambda>k. if Some k \<in> set pool
      then (cs k)\<lparr>ch_buf := last_n (ch_cap (cs k)) (ch_buf (cs k) @ ms)\<rparr> else cs k)"
  using assms
proof (induction ms arbitrary: cs)
  case Nil
  then show ?case by (auto simp: pool_ok_def last_n_short fun_eq_iff)
next
  case (Cons m ms)
  show ?case
    using Cons.IH [OF pool_ok_push [OF Cons.prems, of m]]
    by (auto simp: push_all_ok [OF Cons.prems] pushed_def last_n_last_n fun_eq_iff)
qed

definition example_chan :: "nat \<Rightarrow> int chan" where
  "example_chan n = \<lparr>ch_cap = n, ch_buf = [], ch_closed = False\<rparr>"

lemma push_keeps_newest_witness:
  "push_run [Some 2, None, Some 0] [10, 20, 30] example_chan =
     Ret (\<lambda>k. if k = 2 then (example_chan 2)\<lparr>ch_buf := [20, 30]\<rparr> else example_chan k)"
proof -
  have "pool_ok [Some 2, None, Some 0] example_chan" by (simp add: pool_ok_def example_chan_def)
  from push_keeps_newest [OF this, of "[10, 20, 30]"] show ?thesis
    by (auto simp: example_chan_def last_n_def fun_eq_iff)
qed

lemma sink_on_ok:
  assumes "pool_ok pool cs" "\<And>k. c = Some k \<Longrightarrow> c \<notin> set pool \<and> \<not> ch_closed (cs k) \<and> length (ch_buf (cs k)) \<le> ch_cap (cs k)"
  shows "pool_ok (sink_on c pool) cs"
  using assms by (auto simp: pool_ok_def sink_on_def)

lemma sink_off_ok:
  assumes "pool_ok pool cs"
  shows "\<exists>cs'. sink_off c (pool, cs) = Ret (remove1 c pool, cs') \<and> pool_ok (remove1 c pool) cs' \<and>
    (\<forall>k. c = Some k \<longrightarrow> c \<in> set pool \<longrightarrow> ch_closed (cs' k) \<and> Some k \<notin> set (remove1 c pool))"
proof (cases c)
  case None
  have "filter (\<lambda>c. c \<noteq> None) (remove1 None pool) = filter (\<lambda>c. c \<noteq> None) pool" by (induction pool) auto
  then show ?thesis using assms None
    by (auto simp: sink_off_def pool_ok_def remove1_idem dest: notin_set_remove1)
next
  case (Some k)
  have f: "filter (\<lambda>c. c \<noteq> None) (remove1 (Some k) pool) = remove1 (Some k) (filter (\<lambda>c. c \<noteq> None) pool)"
    by (simp add: filter_remove1)
  have d: "distinct (remove1 (Some k) (filter (\<lambda>c. c \<noteq> None) pool))"
    using assms by (intro distinct_remove1) (simp add: pool_ok_def)
  show ?thesis
  proof (cases "c \<in> set pool")
    case False
    then show ?thesis using assms Some by (simp add: sink_off_def remove1_idem)
  next
    case True
    have "Some k \<notin> set (filter (\<lambda>c. c \<noteq> None) (remove1 (Some k) pool))"
      using assms unfolding f by (simp add: pool_ok_def)
    then have gone: "Some k \<notin> set (remove1 (Some k) pool)" by simp
    have "\<not> ch_closed (cs k)" using assms True Some by (simp add: pool_ok_def)
    moreover have "pool_ok (remove1 c pool) (cs(k := (cs k)\<lparr>ch_closed := True\<rparr>))"
      using assms d f gone Some by (auto simp: pool_ok_def dest: notin_set_remove1)
    ultimately show ?thesis using True Some gone by (simp add: sink_off_def chan_close_def)
  qed
qed

text \<open>A channel registered twice is closed by the first \<^verbatim>\<open>Off\<close>, and the next push panics.\<close>

lemma double_sink_panics:
  "go_bind (sink_off (Some 1) (sink_on (Some 1) (sink_on (Some 1) []), example_chan)) (\<lambda>(pool, cs). push_run pool [10] cs) = Panic"
  by (simp add: sink_off_def sink_on_def chan_close_def push_one_def example_chan_def)

end
