(* ===== verification/Daemon_Power.thy ===== *)
theory Daemon_Power
  imports Daemon_Console Go_Strings
begin

text \<open>
  Starting and stopping a server on the daemon: the power actions (\<^verbatim>\<open>daemon/server/power.go\<close>), the
  Docker environment they drive (\<^verbatim>\<open>daemon/environment/docker/power.go\<close>), and what the server makes
  of the state changes the environment publishes (\<^verbatim>\<open>server.go\<close>, \<^verbatim>\<open>crash.go\<close>, \<^verbatim>\<open>listeners.go\<close>).
  The answers of the Docker client are arguments. The environment publishes each change of its
  state; the listener handles the changes in goroutines, and reads the state of the environment
  anew, so that what a handler sees may be later than the change it handles.
\<close>

section \<open>State\<close>

text \<open>The states \<^verbatim>\<open>SetState\<close> accepts; it panics on any other string.\<close>

datatype pstate = Offline | Starting | Running | Stopping | Paused

record stop_configuration =
  sc_type :: string
  sc_value :: string

text \<open>What Docker answers to a call: an error, or success.\<close>

datatype docker_error = DockerNotFound | DockerDeadline | DockerFailed

text \<open>An inspected container: whether it is running, and whether it is paused.\<close>

type_synonym inspect = "docker_error + (bool \<times> bool)"
type_synonym docker_call = "docker_error option"

datatype wait_result = WaitDone | WaitNotFound | WaitError docker_error | WaitParentDone

text \<open>The answers an operation may get, one for each call it can make.\<close>

record docker =
  dk_running :: inspect
  dk_start_inspect :: inspect
  dk_truncate :: bool
  dk_remove :: docker_call
  dk_create :: bool
  dk_attach :: docker_call
  dk_start :: docker_call
  dk_signal_inspect :: inspect
  dk_signal_kill :: docker_call
  dk_write :: bool
  dk_stop :: docker_call
  dk_wait :: wait_result
  dk_term_inspect :: inspect
  dk_term_kill :: docker_call
  dk_pause_inspect :: inspect
  dk_pause :: docker_call
  dk_exit_code :: int
  dk_oom :: bool

datatype power_error =
    ErrLocked | ErrIsRunning | ErrBeforeStart | ErrContainerPaused | ErrTruncate | ErrCreate | ErrWrite
  | ErrContextDone | ErrReset | ErrUnknownAction | ErrDocker docker_error

datatype power_effect =
    StatusUpdate pstate
  | CrashReport string int
  | DeleteServer
  | DeletionReported
  | Signalled string
  | Commanded string
  | Unmounted
  | ResourcesReset
  | LimitsReset
  | LimitsUpdated

record power =
  pw_state :: pstate
  pw_attached :: bool
  pw_stop :: stop_configuration
  pw_published :: "pstate list"
  pw_tracked :: pstate
  pw_broadcast :: bool
  pw_lock :: locker
  pw_save :: bool
  pw_crash_detection :: bool
  pw_suspended :: bool
  pw_registered :: bool
  pw_effects :: "power_effect list"

type_synonym power_op = "power \<Rightarrow> power_error option \<times> power"

definition emit :: "power_effect \<Rightarrow> power \<Rightarrow> power" where
  "emit x p = p\<lparr>pw_effects := pw_effects p @ [x]\<rparr>"

section \<open>The Docker environment\<close>

definition set_state :: "pstate \<Rightarrow> power \<Rightarrow> power" where
  "set_state s p = (if pw_state p \<noteq> s then p\<lparr>pw_state := s, pw_published := pw_published p @ [s]\<rparr> else p)"

text \<open>\<^verbatim>\<open>IsRunning\<close>: a paused container updates the state.\<close>

definition env_is_running :: "inspect \<Rightarrow> power \<Rightarrow> (docker_error + bool) \<times> power" where
  "env_is_running c p = (case c of
     Inl e \<Rightarrow> (Inl e, p)
   | Inr (running, paused) \<Rightarrow> (if paused then (Inr False, set_state Paused p) else (Inr running, p)))"

definition env_attach :: "docker_call \<Rightarrow> power_op" where
  "env_attach answer p =
     (if pw_attached p then (None, p)
      else case answer of Some e \<Rightarrow> (Some (ErrDocker e), p) | None \<Rightarrow> (None, p\<lparr>pw_attached := True\<rparr>))"

text \<open>The stream of an attached container has ended.\<close>

definition env_stream_ended :: "power \<Rightarrow> power" where
  "env_stream_ended p = (set_state Offline p)\<lparr>pw_attached := False\<rparr>"

definition env_on_before_start :: "docker \<Rightarrow> power_error option" where
  "env_on_before_start d =
     (if dk_remove d \<noteq> None \<and> dk_remove d \<noteq> Some DockerNotFound then map_option ErrDocker (dk_remove d)
      else if \<not> dk_create d then Some ErrCreate else None)"

text \<open>An error after the server is marked as starting marks it as stopping, then offline.\<close>

definition start_failed :: "power_error \<Rightarrow> power_op" where
  "start_failed e p = (Some e, set_state Offline (set_state Stopping p))"

definition env_boot :: "docker \<Rightarrow> power_op" where
  "env_boot d p =
     (let p = set_state Starting p
      in case env_on_before_start d of
           Some e \<Rightarrow> start_failed e p
         | None \<Rightarrow> (case env_attach (dk_attach d) p of
             (Some e, p) \<Rightarrow> start_failed e p
           | (None, p) \<Rightarrow> (case dk_start d of
               Some e \<Rightarrow> start_failed (ErrDocker e) p
             | None \<Rightarrow> (None, p))))"

definition env_start :: "docker \<Rightarrow> power_op" where
  "env_start d p = (case dk_start_inspect d of
     Inl e \<Rightarrow> (if e \<noteq> DockerNotFound then (Some (ErrDocker e), p) else env_boot d p)
   | Inr (running, paused) \<Rightarrow>
       (if running then
          (if paused then (Some ErrContainerPaused, set_state Paused p)
           else env_attach (dk_attach d) (set_state Running p))
        else if \<not> dk_truncate d then (Some ErrTruncate, p)
        else env_boot d p))"

definition env_signal_container :: "inspect \<Rightarrow> docker_call \<Rightarrow> string \<Rightarrow> power_op" where
  "env_signal_container c kill signal p = (case c of
     Inl e \<Rightarrow> (if e = DockerNotFound then (None, p) else (Some (ErrDocker e), p))
   | Inr (running, paused) \<Rightarrow>
       (if \<not> running then
          (None, if pw_state p \<noteq> Offline then set_state Offline (set_state Stopping p) else p)
        else let p = emit (Signalled signal) (set_state Stopping p)
             in if kill \<noteq> None \<and> kill \<noteq> Some DockerNotFound then (map_option ErrDocker kill, p) else (None, p)))"

definition env_terminate :: "inspect \<Rightarrow> docker_call \<Rightarrow> string \<Rightarrow> power_op" where
  "env_terminate c kill signal p = (case env_signal_container c kill signal p of
     (Some e, p) \<Rightarrow> (Some e, p)
   | (None, p) \<Rightarrow> (None, set_state Offline p))"

definition env_send_command :: "bool \<Rightarrow> string \<Rightarrow> power_op" where
  "env_send_command written c p =
     (let p = (if sc_type (pw_stop p) = ''command'' \<and> c = sc_value (pw_stop p) then set_state Stopping p else p)
      in if written then (None, emit (Commanded c) p) else (Some ErrWrite, p))"

definition stop_signal :: "string \<Rightarrow> string" where
  "stop_signal value = (let v = to_upper value
     in if v = ''SIGABRT'' then ''SIGABRT''
        else if v = ''SIGINT'' \<or> v = ''C'' then ''SIGINT''
        else if v = ''SIGTERM'' then ''SIGTERM''
        else ''SIGKILL'')"

definition env_stop :: "docker \<Rightarrow> power_op" where
  "env_stop d p =
     (let s = pw_stop p; p = (if pw_state p \<noteq> Offline then set_state Stopping p else p)
      in if sc_type s = ''signal'' then
           env_signal_container (dk_signal_inspect d) (dk_signal_kill d) (stop_signal (sc_value s)) p
         else if pw_attached p \<and> sc_type s = ''command'' then env_send_command (dk_write d) (sc_value s) p
         else case dk_stop d of
                None \<Rightarrow> (None, p)
              | Some e \<Rightarrow> (if e = DockerNotFound then (None, set_state Offline (p\<lparr>pw_attached := False\<rparr>))
                  else (Some (ErrDocker e), p)))"

definition env_wait_for_stop :: "bool \<Rightarrow> docker \<Rightarrow> power_op" where
  "env_wait_for_stop terminate d p =
     (let term = env_terminate (dk_term_inspect d) (dk_term_kill d) ''SIGKILL''
      in case env_stop d p of
           (Some e, p) \<Rightarrow> (if terminate \<and> e = ErrDocker DockerDeadline then term p else (Some e, p))
         | (None, p) \<Rightarrow> (case dk_wait d of
             WaitDone \<Rightarrow> (None, p)
           | WaitNotFound \<Rightarrow> (None, p)
           | WaitParentDone \<Rightarrow> (if terminate then term p else (Some ErrContextDone, p))
           | WaitError e \<Rightarrow> (if terminate then term p else (Some (ErrDocker e), p))))"

definition env_pause :: "docker \<Rightarrow> power_op" where
  "env_pause d p = (case dk_pause_inspect d of
     Inl e \<Rightarrow> (if e = DockerNotFound then (None, p) else (Some (ErrDocker e), p))
   | Inr (running, paused) \<Rightarrow>
       (if \<not> running \<or> paused then (None, if paused then set_state Paused p else p)
        else if dk_pause d \<noteq> None \<and> dk_pause d \<noteq> Some DockerNotFound then (map_option ErrDocker (dk_pause d), p)
        else (None, set_state Paused p)))"

definition env_unpause :: "docker \<Rightarrow> power_op" where
  "env_unpause d p = (case dk_pause_inspect d of
     Inl e \<Rightarrow> (if e = DockerNotFound then (None, p) else (Some (ErrDocker e), p))
   | Inr (running, paused) \<Rightarrow>
       (if \<not> paused then (None, if running then set_state Running p else p)
        else if dk_pause d \<noteq> None \<and> dk_pause d \<noteq> Some DockerNotFound then (map_option ErrDocker (dk_pause d), p)
        else (None, set_state Running p)))"

section \<open>Power actions\<close>

definition power_action_valid :: "string \<Rightarrow> bool" where
  "power_action_valid a \<longleftrightarrow> a = ''start'' \<or> a = ''stop'' \<or> a = ''kill'' \<or> a = ''restart'' \<or> a = ''pause'' \<or> a = ''unpause''"

definition delete_unsaved :: "power \<Rightarrow> power" where
  "delete_unsaved p = (if pw_save p then p else emit DeleteServer p)"

text \<open>The pre-boot logic, whose outcome is \<open>before\<close>, and the start; an unsaved server that fails is deleted.\<close>

definition boot_server :: "bool \<Rightarrow> docker \<Rightarrow> power_op" where
  "boot_server before d p =
     (if \<not> before then (Some ErrBeforeStart, delete_unsaved p)
      else case env_start d p of
             (Some e, p) \<Rightarrow> (Some e, delete_unsaved p)
           | (None, p) \<Rightarrow> (None, p))"

definition run_power_action :: "string \<Rightarrow> bool \<Rightarrow> docker \<Rightarrow> power_op" where
  "run_power_action action before d p =
     (if action = ''start'' then
        (case pw_state p of
           Paused \<Rightarrow> env_unpause d p
         | Offline \<Rightarrow> boot_server before d p
         | _ \<Rightarrow> (Some ErrIsRunning, p))
      else if action = ''stop'' \<or> action = ''restart'' then
        (case env_wait_for_stop True d p of
           (Some e, p) \<Rightarrow> (Some e, p)
         | (None, p) \<Rightarrow> (if action = ''stop'' then (None, delete_unsaved p) else boot_server before d p))
      else if action = ''kill'' then
        (case env_terminate (dk_term_inspect d) (dk_term_kill d) ''SIGKILL'' p of
           (Some e, p) \<Rightarrow> (Some e, p)
         | (None, p) \<Rightarrow> (None, delete_unsaved p))
      else if action = ''pause'' then
        (if pw_state p = Paused then (None, p)
         else if pw_state p \<noteq> Running then
           (case env_is_running (dk_running d) p of
              (Inr True, p) \<Rightarrow> env_pause d p
            | (_, p) \<Rightarrow> (None, p))
         else env_pause d p)
      else if action = ''unpause'' then
        (if pw_state p \<noteq> Paused then
           (case env_is_running (dk_running d) p of
              (Inr True, p) \<Rightarrow> (None, p)
            | (_, p) \<Rightarrow> (if pw_state p \<noteq> Paused then (None, p) else env_unpause d p))
         else env_unpause d p)
      else (Some ErrUnknownAction, p))"

definition needs_lock :: "string \<Rightarrow> bool" where
  "needs_lock action \<longleftrightarrow> action \<noteq> ''kill'' \<and> action \<noteq> ''pause'' \<and> action \<noteq> ''unpause''"

text \<open>Whether the action takes the lock; \<open>wait\<close> is absent without a number of seconds to wait.\<close>

definition take_power_lock :: "string \<Rightarrow> bool option \<Rightarrow> locker \<Rightarrow> bool \<times> locker" where
  "take_power_lock action wait l = (case (if needs_lock action then wait else None) of
     None \<Rightarrow> locker_acquire l
   | Some freed \<Rightarrow> locker_try_acquire freed l)"

text \<open>
  A power action up to the point where it has its lock, or has none to wait for, or is refused; and its deferred
  clean-up.
\<close>

definition begin_power_action :: "string \<Rightarrow> bool option \<Rightarrow> power \<Rightarrow> power_error option \<times> bool \<times> power" where
  "begin_power_action action wait p =
     (case take_power_lock action wait (pw_lock p) of (got, l) \<Rightarrow>
        if needs_lock action \<and> \<not> got then (Some ErrLocked, False, p) else (None, got, p\<lparr>pw_lock := l\<rparr>))"

definition end_power_action :: "bool \<Rightarrow> power \<Rightarrow> power" where
  "end_power_action got p = (if got then p\<lparr>pw_lock := locker_release (pw_lock p)\<rparr> else p)"

definition handle_power_action :: "string \<Rightarrow> bool option \<Rightarrow> bool \<Rightarrow> docker \<Rightarrow> power_op" where
  "handle_power_action action wait before d p =
     (case begin_power_action action wait p of
        (Some e, _, p) \<Rightarrow> (Some e, p)
      | (None, got, p) \<Rightarrow> (case run_power_action action before d p of (r, p) \<Rightarrow> (r, end_power_action got p)))"

text \<open>
  \<^verbatim>\<open>HandleReset\<close>, first up to the stop of a server that runs, for which it takes the lock. \<open>d\<close> answers the first two
  calls, \<open>d'\<close> those of \<^verbatim>\<open>WaitForStop\<close> and \<open>d''\<close> those of the start; \<open>reset\<close> says whether the overlay could be reset.
\<close>

definition begin_reset :: "docker \<Rightarrow> power \<Rightarrow> (power_error + bool) \<times> power" where
  "begin_reset d p = (case env_is_running (dk_running d) p of
     (Inl e, p) \<Rightarrow> (Inl (ErrDocker e), p)
   | (Inr False, p) \<Rightarrow> (Inr False, p)
   | (Inr True, p) \<Rightarrow> (case locker_acquire (pw_lock p) of (got, l) \<Rightarrow>
       if \<not> got then (Inl ErrLocked, p) else (Inr True, p\<lparr>pw_lock := l\<rparr>)))"

definition handle_reset :: "bool \<Rightarrow> bool \<Rightarrow> docker \<Rightarrow> docker \<Rightarrow> docker \<Rightarrow> power_op" where
  "handle_reset reset before d d' d'' p = (case begin_reset d p of
     (Inl e, p) \<Rightarrow> (Some e, p)
   | (Inr False, p) \<Rightarrow> (if reset then None else Some ErrReset, p)
   | (Inr True, p) \<Rightarrow>
       (case env_stop d p of
          (Some e, p) \<Rightarrow> (Some e, end_power_action True p)
        | (None, p) \<Rightarrow> (case env_wait_for_stop True d' p of
            (Some e, p) \<Rightarrow> (Some e, end_power_action True p)
          | (None, p) \<Rightarrow>
              (if \<not> reset then (Some ErrReset, end_power_action True p)
               else handle_power_action ''start'' None before d'' (end_power_action True p)))))"

text \<open>
  \<^verbatim>\<open>CleanupForDestroy\<close> reports the deletion and destroys the lock; \<^verbatim>\<open>Environment.Destroy\<close> removes the
  container; \<^verbatim>\<open>Delete\<close> takes the server out of the manager when that succeeds.
\<close>

definition power_cleanup :: "power \<Rightarrow> power" where
  "power_cleanup p = (emit DeletionReported p)\<lparr>pw_lock := locker_destroy (pw_lock p)\<rparr>"

definition env_destroy :: "docker_call \<Rightarrow> power_op" where
  "env_destroy remove p =
     (let p = set_state Offline (set_state Stopping p)
      in if remove = Some DockerNotFound then (None, p) else (map_option ErrDocker remove, p))"

definition power_delete :: "docker_call \<Rightarrow> power_op" where
  "power_delete remove p = (case env_destroy remove (power_cleanup (p\<lparr>pw_suspended := True\<rparr>)) of
     (Some e, p) \<Rightarrow> (Some e, p)
   | (None, p) \<Rightarrow> (None, p\<lparr>pw_registered := False\<rparr>))"

section \<open>Handling published states\<close>

definition handle_server_crash :: "docker \<Rightarrow> power \<Rightarrow> power" where
  "handle_server_crash d p = emit (CrashReport
     (if dk_oom d then ''Server process was killed due to out of memory''
      else ''Server process exited with code '' @ itoa (dk_exit_code d)) (dk_exit_code d)) p"

text \<open>\<^verbatim>\<open>OnStateChange\<close>, which sees the environment in state \<open>st\<close>.\<close>

definition was_online :: "pstate \<Rightarrow> bool" where
  "was_online s \<longleftrightarrow> s = Starting \<or> s = Running"

definition on_state_change :: "docker \<Rightarrow> pstate \<Rightarrow> power \<Rightarrow> power" where
  "on_state_change d st p =
     (let prev = pw_tracked p; first = \<not> pw_broadcast p; p = p\<lparr>pw_broadcast := True, pw_tracked := st\<rparr>
      in if first \<and> st = Offline then p
         else let p = (if prev \<noteq> st then emit (StatusUpdate st) p else p);
                  p = (if st = Offline then emit ResourcesReset p else p);
                  p = (if was_online prev \<and> st = Offline then handle_server_crash d p else p)
              in if st = Offline \<and> was_online prev \<and> \<not> pw_save p \<and> \<not> is_locked (pw_lock p)
                 then emit DeleteServer p else p)"

text \<open>The listener of one published state.\<close>

definition handle_state_event :: "docker \<Rightarrow> pstate \<Rightarrow> pstate \<Rightarrow> power \<Rightarrow> power" where
  "handle_state_event d published st p =
     on_state_change d st (if published = Starting then emit LimitsReset p
       else if published = Offline then emit Unmounted p else p)"

text \<open>\<^verbatim>\<open>onConsoleOutput\<close>: \<open>online\<close> says whether a line matches one that marks the server as started.\<close>

definition on_console_output :: "(string \<Rightarrow> bool) \<Rightarrow> (string \<Rightarrow> string) \<Rightarrow> string \<Rightarrow> power \<Rightarrow> power" where
  "on_console_output online strip line p =
     (if \<not> was_online (pw_state p) then p
      else let v = (if pw_state p = Starting then strip line else line);
               p = (if pw_state p = Starting \<and> online v then set_state Running p else p)
           in if was_online (pw_state p) \<and> sc_type (pw_stop p) = ''command'' \<and> v = sc_value (pw_stop p)
              then set_state Offline p else p)"


section \<open>Traces of states\<close>

text \<open>
  An operation takes \<open>p\<close> to \<open>p'\<close> by publishing states, each related by \<open>R\<close> to the one before; it
  leaves what the server tracks, its lock and its settings alone.
\<close>

definition traces :: "(pstate \<Rightarrow> pstate \<Rightarrow> bool) \<Rightarrow> power \<Rightarrow> power \<Rightarrow> bool" where
  "traces R p p' \<longleftrightarrow> (\<exists>tr. pw_published p' = pw_published p @ tr \<and> pw_state p' = last (pw_state p # tr) \<and>
       successively R (pw_state p # tr)) \<and>
     pw_tracked p' = pw_tracked p \<and> pw_broadcast p' = pw_broadcast p \<and> pw_lock p' = pw_lock p \<and>
     pw_save p' = pw_save p \<and> pw_stop p' = pw_stop p \<and> pw_crash_detection p' = pw_crash_detection p"

named_theorems traces_intros \<open>operations as traces\<close>

lemma traces_refl [traces_intros]: "traces R p p"
  by (auto simp: traces_def intro!: exI [of _ "[]"])

lemma traces_trans:
  assumes "traces R p q" "traces R q r"
  shows "traces R p r"
proof -
  obtain tr1 where 1: "pw_published q = pw_published p @ tr1" "pw_state q = last (pw_state p # tr1)"
    "successively R (pw_state p # tr1)" using assms(1) by (auto simp: traces_def)
  obtain tr2 where 2: "pw_published r = pw_published q @ tr2" "pw_state r = last (pw_state q # tr2)"
    "successively R (pw_state q # tr2)" using assms(2) by (auto simp: traces_def)
  have "successively R ((pw_state p # tr1) @ tr2)"
    using 1(3) 2(3) unfolding successively_append_iff 1(2) by (cases tr2) (auto simp: successively_Cons)
  moreover have "pw_state r = last (pw_state p # tr1 @ tr2)" using 1(2) 2(2) by (cases tr2) auto
  ultimately show ?thesis using 1(1) 2(1) assms by (auto simp: traces_def intro!: exI [of _ "tr1 @ tr2"])
qed

lemma traces_set_state:
  assumes "traces R p q" "pw_state q \<noteq> s \<Longrightarrow> R (pw_state q) s"
  shows "traces R p (set_state s q)"
proof (rule traces_trans [OF assms(1)])
  show "traces R q (set_state s q)"
    using assms(2) by (auto simp: traces_def set_state_def intro!: exI [of _ "[s]"] exI [of _ "[]"])
qed

lemma traces_attached: "traces R p q \<Longrightarrow> traces R p (q\<lparr>pw_attached := b\<rparr>)"
  by (simp add: traces_def)

lemma traces_emit: "traces R p q \<Longrightarrow> traces R p (emit x q)"
  by (simp add: traces_def emit_def)

lemma traces_delete_unsaved: "traces R p q \<Longrightarrow> traces R p (delete_unsaved q)"
  by (simp add: delete_unsaved_def traces_emit)

lemma set_state_sel [simp]:
  "pw_state (set_state s p) = s" "pw_attached (set_state s p) = pw_attached p" "pw_stop (set_state s p) = pw_stop p"
  "pw_effects (set_state s p) = pw_effects p" "pw_save (set_state s p) = pw_save p" "pw_lock (set_state s p) = pw_lock p"
  by (simp_all add: set_state_def)

lemma emit_sel [simp]:
  "pw_state (emit x p) = pw_state p" "pw_attached (emit x p) = pw_attached p" "pw_stop (emit x p) = pw_stop p"
  "pw_published (emit x p) = pw_published p" "pw_tracked (emit x p) = pw_tracked p" "pw_lock (emit x p) = pw_lock p"
  "pw_save (emit x p) = pw_save p" "pw_broadcast (emit x p) = pw_broadcast p" "pw_effects (emit x p) = pw_effects p @ [x]"
  by (simp_all add: emit_def)

text \<open>A change that is not taken for a crash.\<close>

definition calm :: "pstate \<Rightarrow> pstate \<Rightarrow> bool" where
  "calm a b \<longleftrightarrow> a \<noteq> b \<and> \<not> (was_online a \<and> b = Offline)"

lemma calm_simps [simp]:
  "calm a Stopping = (a \<noteq> Stopping)" "calm a Starting = (a \<noteq> Starting)" "calm a Running = (a \<noteq> Running)"
  "calm a Paused = (a \<noteq> Paused)" "calm a Offline = (a = Stopping \<or> a = Paused)"
  by (cases a; simp add: calm_def was_online_def)+

lemmas traces_rules = traces_set_state traces_attached traces_emit traces_delete_unsaved traces_refl

lemma env_is_running_calm: "traces calm p (snd (env_is_running c p))"
  by (auto simp: env_is_running_def intro!: traces_rules split: sum.split)

lemma env_attach_calm: "traces calm p q \<Longrightarrow> traces calm p (snd (env_attach a q))"
  by (auto simp: env_attach_def intro!: traces_rules split: option.split)

lemma start_failed_calm: "traces calm p q \<Longrightarrow> traces calm p (snd (start_failed e q))"
  by (auto simp: start_failed_def intro!: traces_rules)

lemma env_boot_calm: "traces calm p (snd (env_boot d p))"
proof -
  let ?p = "set_state Starting p"
  have s: "traces calm p ?p" by (intro traces_rules) simp
  note a = env_attach_calm [OF s, of "dk_attach d"]
  show ?thesis
    using s a start_failed_calm [OF s] start_failed_calm [OF a]
    by (auto simp: env_boot_def Let_def split: option.split prod.split)
qed

lemma env_start_calm: "traces calm p (snd (env_start d p))"
proof -
  have "traces calm p (set_state s p)" if "s \<noteq> Offline" for s
    using that by (intro traces_rules) (cases s; simp)
  then show ?thesis
    by (auto simp: env_start_def intro!: env_boot_calm env_attach_calm traces_refl split: sum.split)
qed

lemma env_signal_calm: "traces calm p (snd (env_signal_container c kill signal p))"
  by (auto simp: env_signal_container_def Let_def intro!: traces_rules split: sum.split)

lemma env_signal_state:
  "fst (env_signal_container c kill signal p) = None \<Longrightarrow> c \<noteq> Inl DockerNotFound \<Longrightarrow>
     \<not> was_online (pw_state (snd (env_signal_container c kill signal p)))"
  by (auto simp: env_signal_container_def Let_def was_online_def split: sum.splits if_splits)

lemma env_signal_keeps_stopped:
  "\<not> was_online (pw_state p) \<Longrightarrow> \<not> was_online (pw_state (snd (env_signal_container c kill signal p)))"
  by (auto simp: env_signal_container_def Let_def was_online_def split: sum.splits if_splits)

lemma env_terminate_calm:
  assumes "c \<noteq> Inl DockerNotFound \<or> \<not> was_online (pw_state p)"
  shows "traces calm p (snd (env_terminate c kill signal p))"
proof -
  obtain r q where rq: "env_signal_container c kill signal p = (r, q)" by fastforce
  have q: "traces calm p q" using env_signal_calm [of p c kill signal] rq by simp
  have "\<not> was_online (pw_state q)" if "r = None"
    using assms env_signal_state [of c kill signal p] env_signal_keeps_stopped [of p c kill signal] rq that by auto
  then have "traces calm p (set_state Offline q)" if "r = None"
    using that by (intro traces_set_state [OF q]) (cases "pw_state q"; simp add: was_online_def)
  then show ?thesis using q rq by (auto simp: env_terminate_def split: option.split)
qed


lemma env_send_command_calm: "traces calm p q \<Longrightarrow> traces calm p (snd (env_send_command w c q))"
  by (auto simp: env_send_command_def Let_def intro!: traces_rules)

lemma env_send_command_stopped:
  "\<not> was_online (pw_state q) \<Longrightarrow> \<not> was_online (pw_state (snd (env_send_command w c q)))"
  by (auto simp: env_send_command_def Let_def was_online_def)

lemma env_stop_calm:
  shows "traces calm p (snd (env_stop d p))" and "\<not> was_online (pw_state (snd (env_stop d p)))"
proof -
  define q where "q = (if pw_state p \<noteq> Offline then set_state Stopping p else p)"
  have q: "traces calm p q" "\<not> was_online (pw_state q)"
    by (auto simp: q_def was_online_def intro!: traces_rules)
  let ?s = "pw_stop p"
  have stop: "env_stop d p =
     (if sc_type ?s = ''signal'' then
        env_signal_container (dk_signal_inspect d) (dk_signal_kill d) (stop_signal (sc_value ?s)) q
      else if pw_attached q \<and> sc_type ?s = ''command'' then env_send_command (dk_write d) (sc_value ?s) q
      else case dk_stop d of None \<Rightarrow> (None, q)
        | Some e \<Rightarrow> (if e = DockerNotFound then (None, set_state Offline (q\<lparr>pw_attached := False\<rparr>)) else (Some (ErrDocker e), q)))"
    by (simp only: env_stop_def Let_def q_def)
  have sig: "traces calm p (snd (env_signal_container c k s q))" for c k s
    by (rule traces_trans [OF q(1) env_signal_calm])
  have off: "traces calm p (set_state Offline (q\<lparr>pw_attached := False\<rparr>))"
  proof (intro traces_set_state traces_attached q(1))
    assume "pw_state (q\<lparr>pw_attached := False\<rparr>) \<noteq> Offline"
    then show "calm (pw_state (q\<lparr>pw_attached := False\<rparr>)) Offline"
      using q(2) by (cases "pw_state q") (simp_all add: was_online_def)
  qed
  show "traces calm p (snd (env_stop d p))"
    unfolding stop using sig q off env_send_command_calm by (simp split: option.split)
  show "\<not> was_online (pw_state (snd (env_stop d p)))"
    unfolding stop using q env_signal_keeps_stopped env_send_command_stopped
    by (simp add: was_online_def split: option.split)
qed

lemma env_wait_for_stop_calm: "traces calm p (snd (env_wait_for_stop terminate d p))"
proof -
  obtain r q where rq: "env_stop d p = (r, q)" by fastforce
  have q: "traces calm p q" "\<not> was_online (pw_state q)" using env_stop_calm [where p = p and d = d] rq by simp_all
  have kill: "traces calm p (snd (env_terminate c k s q))" for c k s
    by (rule traces_trans [OF q(1) env_terminate_calm]) (use q in simp)
  show ?thesis
    using q kill rq by (auto simp: env_wait_for_stop_def Let_def split: option.split wait_result.split)
qed

lemma env_pause_calm: "traces calm p q \<Longrightarrow> traces calm p (snd (env_pause d q))"
  by (auto simp: env_pause_def intro!: traces_rules split: sum.split)

lemma env_unpause_calm: "traces calm p q \<Longrightarrow> traces calm p (snd (env_unpause d q))"
  by (auto simp: env_unpause_def intro!: traces_rules split: sum.split)

lemma boot_server_calm: "traces calm p q \<Longrightarrow> traces calm p (snd (boot_server before d q))"
  using traces_trans [OF _ env_start_calm]
  by (auto simp: boot_server_def intro!: traces_delete_unsaved split: prod.split option.split)
    (metis snd_conv traces_delete_unsaved traces_trans env_start_calm)+

lemma run_power_action_calm:
  assumes "action = ''kill'' \<Longrightarrow> dk_term_inspect d \<noteq> Inl DockerNotFound \<or> \<not> was_online (pw_state p)"
  shows "traces calm p (snd (run_power_action action before d p))"
proof -
  obtain r q where wait: "env_wait_for_stop True d p = (r, q)" by fastforce
  then have q: "traces calm p q" using env_wait_for_stop_calm [of p True d] by simp
  obtain r' q' where kill: "env_terminate (dk_term_inspect d) (dk_term_kill d) ''SIGKILL'' p = (r', q')" by fastforce
  then have q': "traces calm p q'" if "action = ''kill''"
    using env_terminate_calm [OF assms, of "dk_term_kill d" "''SIGKILL''"] that by simp
  obtain r'' q'' where run: "env_is_running (dk_running d) p = (r'', q'')" by fastforce
  then have q'': "traces calm p q''" using env_is_running_calm [of p "dk_running d"] by simp
  note rules = q q' q'' traces_refl env_pause_calm env_unpause_calm boot_server_calm traces_delete_unsaved
  show ?thesis
    using rules
    by (auto simp: run_power_action_def wait kill run split: option.split sum.split bool.split pstate.split)
qed


section \<open>What the server makes of the states\<close>

text \<open>The listeners see the states in order, each before the next is published.\<close>

definition observe :: "docker \<Rightarrow> pstate list \<Rightarrow> power \<Rightarrow> power" where
  "observe d tr p = fold (\<lambda>s. handle_state_event d s s) tr p"

fun reported :: "power_effect list \<Rightarrow> pstate list" where
  "reported [] = []"
| "reported (StatusUpdate s # xs) = s # reported xs"
| "reported (_ # xs) = reported xs"

fun crash_reports :: "power_effect list \<Rightarrow> nat" where
  "crash_reports [] = 0"
| "crash_reports (CrashReport r c # xs) = Suc (crash_reports xs)"
| "crash_reports (_ # xs) = crash_reports xs"

lemma reported_append: "reported (xs @ ys) = reported xs @ reported ys"
  by (induction xs rule: reported.induct) auto

lemma crash_reports_append: "crash_reports (xs @ ys) = crash_reports xs + crash_reports ys"
  by (induction xs rule: crash_reports.induct) auto

lemma on_state_change_spec:
  assumes "pw_broadcast p" "pw_tracked p \<noteq> s"
  shows "pw_tracked (handle_state_event d s s p) = s" "pw_broadcast (handle_state_event d s s p)"
    "reported (pw_effects (handle_state_event d s s p)) = reported (pw_effects p) @ [s]"
    "crash_reports (pw_effects (handle_state_event d s s p)) =
       crash_reports (pw_effects p) + (if was_online (pw_tracked p) \<and> s = Offline then 1 else 0)"
  using assms
  by (auto simp: handle_state_event_def on_state_change_def handle_server_crash_def Let_def emit_def
      reported_append crash_reports_append)

lemma observe_spec:
  assumes "pw_broadcast p" "successively (\<noteq>) (pw_tracked p # tr)"
  shows "pw_tracked (observe d tr p) = last (pw_tracked p # tr) \<and>
    reported (pw_effects (observe d tr p)) = reported (pw_effects p) @ tr"
  using assms
proof (induction tr arbitrary: p)
  case (Cons s tr)
  have ne: "pw_tracked p \<noteq> s" using Cons.prems by simp
  note h = on_state_change_spec [OF Cons.prems(1) ne, of d]
  have "successively (\<noteq>) (s # tr)" using Cons.prems(2) by simp
  then show ?case using Cons.IH [of "handle_state_event d s s p"] h by (simp add: observe_def)
qed (simp add: observe_def)

lemma observe_calm:
  assumes "pw_broadcast p" "successively calm (pw_tracked p # tr)"
  shows "crash_reports (pw_effects (observe d tr p)) = crash_reports (pw_effects p)"
  using assms
proof (induction tr arbitrary: p)
  case (Cons s tr)
  have c: "calm (pw_tracked p) s" using Cons.prems by simp
  then have ne: "pw_tracked p \<noteq> s" by (simp add: calm_def)
  note h = on_state_change_spec [OF Cons.prems(1) ne, of d]
  have "successively calm (s # tr)" using Cons.prems(2) by simp
  then show ?case using Cons.IH [of "handle_state_event d s s p"] h c by (simp add: observe_def calm_def)
qed (simp add: observe_def)

text \<open>The power action of a server whose earlier states have all been handled.\<close>

definition settled :: "power \<Rightarrow> bool" where
  "settled p \<longleftrightarrow> pw_broadcast p \<and> pw_published p = [] \<and> pw_tracked p = pw_state p"

lemma run_effects_crash_free:
  "crash_reports (pw_effects (snd (run_power_action action before d p))) = crash_reports (pw_effects p) \<and>
   reported (pw_effects (snd (run_power_action action before d p))) = reported (pw_effects p)"
proof -
  define same where "same q \<longleftrightarrow> crash_reports (pw_effects q) = crash_reports (pw_effects p) \<and>
    reported (pw_effects q) = reported (pw_effects p)" for q :: power
  have 0: "same p" "same q \<Longrightarrow> same (set_state s q)" "same q \<Longrightarrow> same (q\<lparr>pw_attached := b\<rparr>)"
    "same q \<Longrightarrow> same (delete_unsaved q)" "same q \<Longrightarrow> same (emit (Signalled x) q)" "same q \<Longrightarrow> same (emit (Commanded x) q)" for q s b x
    by (simp_all add: same_def delete_unsaved_def reported_append crash_reports_append)
  have 1: "same q \<Longrightarrow> same (snd (env_is_running c q))" "same q \<Longrightarrow> same (snd (env_attach a q))"
    "same q \<Longrightarrow> same (snd (start_failed e q))" "same q \<Longrightarrow> same (snd (env_send_command w x q))"
    "same q \<Longrightarrow> same (snd (env_pause d q))" "same q \<Longrightarrow> same (snd (env_unpause d q))"
    "same q \<Longrightarrow> same (snd (env_signal_container c k x q))" for q c a e w x k
    using 0 by (auto simp: env_is_running_def env_attach_def start_failed_def env_send_command_def Let_def
        env_pause_def env_unpause_def env_signal_container_def split: sum.split option.split)
  have 2: "same q \<Longrightarrow> same (snd (env_terminate c k x q))" for q c k x
    using 0 1(7) [of q c k x] by (auto simp: env_terminate_def split: prod.split option.split)
  have 3: "same q \<Longrightarrow> same (snd (env_stop d q))" for q
    using 0 1 by (auto simp: env_stop_def Let_def split: option.split)
  have 4: "same q \<Longrightarrow> same (snd (env_wait_for_stop t d q))" for q t
    using 0 2 3 [of q] by (auto simp: env_wait_for_stop_def Let_def split: prod.split option.split wait_result.split)
  have 5: "same q \<Longrightarrow> same (snd (env_boot d q))" for q
    using 0 1(3) 1(2) [of "set_state Starting q" "dk_attach d"]
    by (auto simp: env_boot_def Let_def split: prod.split option.split)
  have 6: "same q \<Longrightarrow> same (snd (env_start d q))" for q
    using 0 1 5 by (auto simp: env_start_def split: sum.split)
  have 7: "same q \<Longrightarrow> same (snd (boot_server before d q))" for q
    using 0 6 [of q] by (auto simp: boot_server_def split: prod.split option.split)
  obtain r q where wait: "env_wait_for_stop True d p = (r, q)" by fastforce
  then have q: "same q" using 4 [OF 0(1), of True] by simp
  obtain r' q' where kill: "env_terminate (dk_term_inspect d) (dk_term_kill d) ''SIGKILL'' p = (r', q')" by fastforce
  then have q': "same q'" using 2 [OF 0(1), of "dk_term_inspect d" "dk_term_kill d" "''SIGKILL''"] by simp
  obtain r'' q'' where run: "env_is_running (dk_running d) p = (r'', q'')" by fastforce
  then have q'': "same q''" using 1(1) [OF 0(1), of "dk_running d"] by simp
  have "same (snd (run_power_action action before d p))"
    using q q' q'' 0(1,4) 1(5,6) 7
    by (auto simp: run_power_action_def wait kill run split: option.split sum.split bool.split pstate.split)
  then show ?thesis by (simp add: same_def)
qed


lemma calm_differs: "traces calm p q \<Longrightarrow> traces (\<noteq>) p q"
proof -
  have "successively (\<noteq>) xs" if "successively calm xs" for xs
    using that by (rule successively_mono) (simp add: calm_def)
  then show "traces calm p q \<Longrightarrow> traces (\<noteq>) p q" unfolding traces_def by blast
qed

lemma run_power_action_traces: "traces (\<noteq>) p (snd (run_power_action action before d p))"
proof (cases "action = ''kill'' \<and> dk_term_inspect d = Inl DockerNotFound")
  case True
  then show ?thesis
    by (auto simp: run_power_action_def env_terminate_def env_signal_container_def intro!: traces_rules)
qed (use run_power_action_calm calm_differs in blast)

text \<open>The result of a power action, with the lock it had taken.\<close>

lemma handle_power_action_cases:
  obtains (refused) l where "needs_lock action" "take_power_lock action wait (pw_lock p) = (False, l)"
      "handle_power_action action wait before d p = (Some ErrLocked, p)"
  | (ran) got l where "take_power_lock action wait (pw_lock p) = (got, l)" "needs_lock action \<longrightarrow> got"
      "handle_power_action action wait before d p =
        (let q = run_power_action action before d (p\<lparr>pw_lock := l\<rparr>)
         in (fst q, if got then (snd q)\<lparr>pw_lock := locker_release l\<rparr> else snd q))"
proof -
  obtain got l where g: "take_power_lock action wait (pw_lock p) = (got, l)" by fastforce
  obtain r q where q: "run_power_action action before d (p\<lparr>pw_lock := l\<rparr>) = (r, q)" by fastforce
  then have l: "pw_lock q = l"
    using run_power_action_traces [of "p\<lparr>pw_lock := l\<rparr>" action before d] by (simp add: traces_def)
  show thesis
  proof (cases "needs_lock action \<and> \<not> got")
    case True
    then show thesis using refused [of l] g by (simp add: handle_power_action_def begin_power_action_def)
  next
    case False
    then have "handle_power_action action wait before d p = (r, if got then q\<lparr>pw_lock := locker_release l\<rparr> else q)"
      using g q l by (auto simp: handle_power_action_def begin_power_action_def end_power_action_def)
    then show thesis using ran [OF g] False q by (simp add: Let_def)
  qed
qed

lemma observe_lock_free:
  "traces R (p\<lparr>pw_lock := l\<rparr>) q \<Longrightarrow> settled p \<Longrightarrow>
     successively R (pw_tracked p # pw_published q) \<and> pw_broadcast q \<and> pw_tracked q = pw_tracked p \<and>
     pw_state q = last (pw_tracked p # pw_published q)"
  by (auto simp: traces_def settled_def)

text \<open>
  From a settled server, whatever Docker answers, the changes of state a power action makes are
  each reported to Protocube once, in order, when the listeners see them in order; afterwards the
  server tracks the state of its environment.
\<close>

theorem power_action_reported:
  assumes "settled p" "handle_power_action action wait before d p = (r, p')"
  shows "reported (pw_effects (observe d' (pw_published p') p')) = reported (pw_effects p) @ pw_published p' \<and>
    pw_tracked (observe d' (pw_published p') p') = pw_state p'"
proof (cases rule: handle_power_action_cases [where action = action and wait = wait and before = before and d = d and p = p])
  case refused
  then show ?thesis using assms by (auto simp: settled_def observe_def)
next
  case (ran got l)
  define q where "q = snd (run_power_action action before d (p\<lparr>pw_lock := l\<rparr>))"
  have tr: "traces (\<noteq>) (p\<lparr>pw_lock := l\<rparr>) q" unfolding q_def by (rule run_power_action_traces)
  have p': "pw_published p' = pw_published q" "pw_effects p' = pw_effects q" "pw_broadcast p' = pw_broadcast q"
    "pw_tracked p' = pw_tracked q" "pw_state p' = pw_state q"
    using ran(3) assms(2) by (auto simp: q_def Let_def)
  have "reported (pw_effects q) = reported (pw_effects p)"
    using run_effects_crash_free [of action before d "p\<lparr>pw_lock := l\<rparr>"] by (simp add: q_def)
  then show ?thesis
    using observe_spec [of p' "pw_published p'" d'] observe_lock_free [OF tr assms(1)] p' by simp
qed

text \<open>
  C34. No power action, seen in order by the listeners, is taken for a crash, whatever Docker
  answers: stopping, killing, restarting and failing to start all pass through the stopping state.
  The exception is the killing of a container that Docker does not have.
\<close>

theorem power_action_no_crash:
  assumes "settled p" "handle_power_action action wait before d p = (r, p')"
    "action = ''kill'' \<longrightarrow> dk_term_inspect d \<noteq> Inl DockerNotFound"
  shows "crash_reports (pw_effects (observe d' (pw_published p') p')) = crash_reports (pw_effects p)"
proof (cases rule: handle_power_action_cases [where action = action and wait = wait and before = before and d = d and p = p])
  case refused
  then show ?thesis using assms by (auto simp: settled_def observe_def)
next
  case (ran got l)
  define q where "q = snd (run_power_action action before d (p\<lparr>pw_lock := l\<rparr>))"
  have tr: "traces calm (p\<lparr>pw_lock := l\<rparr>) q" unfolding q_def by (rule run_power_action_calm) (use assms(3) in simp)
  have p': "pw_published p' = pw_published q" "pw_effects p' = pw_effects q" "pw_broadcast p' = pw_broadcast q"
    "pw_tracked p' = pw_tracked q"
    using ran(3) assms(2) by (auto simp: q_def Let_def)
  have "crash_reports (pw_effects q) = crash_reports (pw_effects p)"
    using run_effects_crash_free [of action before d "p\<lparr>pw_lock := l\<rparr>"] by (simp add: q_def)
  then show ?thesis
    using observe_calm [of p' "pw_published p'" d'] observe_lock_free [OF tr assms(1)] p' by simp
qed

text \<open>
  A power action gives the lock back: after it returns, with whatever result, the lock is free
  if it was free before, and held if another action held it, unless it waited for that one to end.
\<close>

theorem power_action_keeps_lock:
  assumes "pw_lock p = Some b"
  shows "pw_lock (snd (handle_power_action action wait before d p)) =
    Some (b \<and> \<not> (needs_lock action \<and> wait = Some True))"
proof (cases rule: handle_power_action_cases [where action = action and wait = wait and before = before and d = d and p = p])
  case (refused l)
  then show ?thesis using assms
    by (auto simp: take_power_lock_def locker_acquire_def locker_try_acquire_def split: if_splits option.splits)
next
  case (ran got l)
  have "pw_lock (snd (run_power_action action before d (p\<lparr>pw_lock := l\<rparr>))) = l"
    using run_power_action_traces [of "p\<lparr>pw_lock := l\<rparr>" action before d] by (simp add: traces_def)
  then have "pw_lock (snd (handle_power_action action wait before d p)) = (if got then locker_release l else l)"
    using ran(3) by (simp add: Let_def)
  moreover have "l = Some True" "got = (\<not> b \<or> (needs_lock action \<and> wait = Some True))"
    using ran(1,2) assms
    by (auto simp: take_power_lock_def locker_acquire_def locker_try_acquire_def split: if_splits option.splits)
  ultimately show ?thesis by (auto simp: locker_release_def)
qed


section \<open>Actions that overlap\<close>

text \<open>
  Requests arrive at any time, and what runs for them interleaves: each is a goroutine that begins with
  \<open>begin_power_action\<close> or \<open>begin_reset\<close>, is listed with whether it took the lock while it runs, and ends with
  \<open>end_power_action\<close>. What a power action does in between is \<open>run_power_action\<close>, what a reset does is stopping the
  server. A request that waits for the lock comes in at a moment when it is free; a deletion cancels the context it
  waits with before it destroys the lock, so that nobody waits for a lock that is destroyed. A reset lets the lock go
  before it starts the server again with a power action of its own.
\<close>

record overlap =
  ov_power :: power
  ov_running :: "(string \<times> bool) list"

inductive overlap_step :: "overlap \<Rightarrow> overlap \<Rightarrow> bool" where
  begin_action: "begin_power_action action wait (ov_power s) = (None, got, p) \<Longrightarrow> wait \<noteq> Some True \<Longrightarrow>
    overlap_step s (s\<lparr>ov_power := p, ov_running := (action, got) # ov_running s\<rparr>)"
| refuse_action: "begin_power_action action wait (ov_power s) = (Some e, got, p) \<Longrightarrow> overlap_step s (s\<lparr>ov_power := p\<rparr>)"
| run_action: "(action, got) \<in> set (ov_running s) \<Longrightarrow> action \<noteq> ''reset'' \<Longrightarrow>
    run_power_action action before d (ov_power s) = (r, p) \<Longrightarrow> overlap_step s (s\<lparr>ov_power := p\<rparr>)"
| begin_reset_locked: "begin_reset d (ov_power s) = (Inr True, p) \<Longrightarrow>
    overlap_step s (s\<lparr>ov_power := p, ov_running := (''reset'', True) # ov_running s\<rparr>)"
| begin_reset_idle: "begin_reset d (ov_power s) = (r, p) \<Longrightarrow> r \<noteq> Inr True \<Longrightarrow> overlap_step s (s\<lparr>ov_power := p\<rparr>)"
| run_reset_stop: "(''reset'', True) \<in> set (ov_running s) \<Longrightarrow> env_stop d (ov_power s) = (r, p) \<Longrightarrow> overlap_step s (s\<lparr>ov_power := p\<rparr>)"
| run_reset_wait: "(''reset'', True) \<in> set (ov_running s) \<Longrightarrow> env_wait_for_stop True d (ov_power s) = (r, p) \<Longrightarrow>
    overlap_step s (s\<lparr>ov_power := p\<rparr>)"
| end_action: "(action, got) \<in> set (ov_running s) \<Longrightarrow>
    overlap_step s (s\<lparr>ov_power := end_power_action got (ov_power s), ov_running := remove1 (action, got) (ov_running s)\<rparr>)"
| listen: "overlap_step s (s\<lparr>ov_power := handle_state_event d published (pw_state (ov_power s)) (ov_power s)\<rparr>)"
| delete: "power_delete remove (ov_power s) = (r, p) \<Longrightarrow> overlap_step s (s\<lparr>ov_power := p\<rparr>)"

inductive_cases overlap_stepE: "overlap_step s t"















section \<open>Concrete runs\<close>

definition example_docker :: docker where
  "example_docker = \<lparr>dk_running = Inr (True, False), dk_start_inspect = Inl DockerNotFound, dk_truncate = True,
     dk_remove = Some DockerNotFound, dk_create = True, dk_attach = None, dk_start = None,
     dk_signal_inspect = Inr (True, False), dk_signal_kill = None, dk_write = True, dk_stop = None, dk_wait = WaitDone,
     dk_term_inspect = Inr (True, False), dk_term_kill = None, dk_pause_inspect = Inr (True, False), dk_pause = None,
     dk_exit_code = 137, dk_oom = False\<rparr>"

definition example_power :: "pstate \<Rightarrow> power" where
  "example_power s = \<lparr>pw_state = s, pw_attached = (s \<noteq> Offline), pw_stop = \<lparr>sc_type = ''signal'', sc_value = ''SIGTERM''\<rparr>,
     pw_published = [], pw_tracked = s, pw_broadcast = True, pw_lock = Some False, pw_save = True,
     pw_crash_detection = False, pw_suspended = False, pw_registered = True, pw_effects = []\<rparr>"

definition failing_restart :: power where
  "failing_restart = snd (handle_power_action ''restart'' None True (example_docker\<lparr>dk_start := Some DockerFailed\<rparr>)
     (example_power Running))"

lemma failing_restart_published: "pw_published failing_restart = [Stopping, Starting, Stopping, Offline]"
  by code_simp

lemma example_power_settled: "settled (example_power s)"
  by (simp add: settled_def example_power_def)

lemma power_action_reported_witness:
  "reported (pw_effects (observe example_docker [Stopping, Starting, Stopping, Offline] failing_restart)) =
     [Stopping, Starting, Stopping, Offline]"
proof -
  have "reported (pw_effects (example_power Running)) = []" by (simp add: example_power_def)
  then show ?thesis
    using power_action_reported [OF example_power_settled [of Running], where p' = failing_restart and action = "''restart''"
        and wait = None and before = True and d = "example_docker\<lparr>dk_start := Some DockerFailed\<rparr>"
        and d' = example_docker and r = "fst (handle_power_action ''restart'' None True
          (example_docker\<lparr>dk_start := Some DockerFailed\<rparr>) (example_power Running))"]
    by (simp add: failing_restart_published) (simp add: failing_restart_def)
qed

lemma power_action_no_crash_witness:
  "crash_reports (pw_effects (observe example_docker [Stopping, Starting, Stopping, Offline] failing_restart)) = 0"
proof -
  have "crash_reports (pw_effects (example_power Running)) = 0" by (simp add: example_power_def)
  then show ?thesis
    using power_action_no_crash [OF example_power_settled [of Running], where p' = failing_restart and action = "''restart''"
        and wait = None and before = True and d = "example_docker\<lparr>dk_start := Some DockerFailed\<rparr>"
        and d' = example_docker and r = "fst (handle_power_action ''restart'' None True
          (example_docker\<lparr>dk_start := Some DockerFailed\<rparr>) (example_power Running))"]
    by (simp add: failing_restart_published) (simp add: failing_restart_def)
qed

lemma power_action_keeps_lock_witness:
  "pw_lock (snd (handle_power_action ''kill'' None True example_docker ((example_power Starting)\<lparr>pw_lock := Some True\<rparr>))) =
     Some True"
  using power_action_keeps_lock [where p = "(example_power Starting)\<lparr>pw_lock := Some True\<rparr>" and b = True
      and action = "''kill''" and wait = None and before = True and d = example_docker]
  by simp




text \<open>
  When the listeners are late, the killing of a running server is reported as a crash: the handler
  of the stopping state already sees the environment offline.
\<close>

lemma late_listener_reports_crash:
  "let p = snd (handle_power_action ''kill'' None True example_docker (example_power Running))
   in pw_published p = [Stopping, Offline] \<and>
      crash_reports (pw_effects (handle_state_event example_docker Stopping (pw_state p) p)) = 1"
  by code_simp

text \<open>A container that Docker does not have goes offline without the stopping state.\<close>

lemma kill_missing_container_reports_crash:
  "let p = snd (handle_power_action ''kill'' None True (example_docker\<lparr>dk_term_inspect := Inl DockerNotFound\<rparr>) (example_power Running))
   in crash_reports (pw_effects (observe example_docker (pw_published p) p)) = 1"
  by code_simp

text \<open>A crash is reported also when crash detection is disabled.\<close>

lemma crash_detection_ignored:
  "pw_crash_detection (example_power Running) = False \<and>
   crash_reports (pw_effects (handle_state_event example_docker Offline Offline (env_stream_ended (example_power Running)))) = 1"
  by code_simp

text \<open>The stop command on the console marks the server as offline, and so as crashed, not as stopping.\<close>

lemma console_stop_reports_crash:
  "let p = on_console_output (\<lambda>_. False) (\<lambda>v. v) ''stop'' ((example_power Running)\<lparr>pw_stop := \<lparr>sc_type = ''command'', sc_value = ''stop''\<rparr>\<rparr>)
   in pw_state p = Offline \<and> crash_reports (pw_effects (observe example_docker (pw_published p) p)) = 1"
  by code_simp

text \<open>
  A reset does not start the server again when the end of its stream has not been seen: the state
  is still stopping.
\<close>

lemma reset_may_not_restart:
  "fst (handle_reset True True example_docker example_docker example_docker (example_power Running)) = Some ErrIsRunning"
  by code_simp

text \<open>A deletion that Docker refuses leaves the server registered, and no start, stop or restart runs again.\<close>

lemma failed_deletion_strands_server:
  assumes "e \<noteq> DockerNotFound" "power_delete (Some e) p = (r, q)" "needs_lock action"
  shows "r = Some (ErrDocker e) \<and> pw_registered q = pw_registered p \<and>
    handle_power_action action wait before d q = (Some ErrLocked, q)"
proof -
  have "pw_lock q = None" "r = Some (ErrDocker e)" "pw_registered q = pw_registered p"
    using assms(1,2) by (auto simp: power_delete_def env_destroy_def power_cleanup_def locker_destroy_def Let_def
        set_state_def emit_def split: if_splits)
  then show ?thesis using assms(3)
    by (simp add: handle_power_action_def begin_power_action_def take_power_lock_def locker_acquire_def locker_try_acquire_def split: option.split)
qed

end
