(* ===== verification/Install_Lock.thy ===== *)
theory Install_Lock
  imports Main
begin

text \<open>
  The lock under which servers that share a base install it (\<^verbatim>\<open>daemon/server/install_lock.go\<close> and
  the loop of \<^verbatim>\<open>onBeforeStart\<close> in \<^verbatim>\<open>daemon/server/power.go\<close>). Any number of servers start at the same
  time; each call of the file system is one step, and a schedule says whose step is next and, where
  the outside decides, how it ends. The installation itself is one step per write and one that ends
  it; only the steps on one base folder are modelled.
\<close>

section \<open>The folder and the servers\<close>

datatype content = Empty | Partial | Complete

record base =
  ba_dir :: bool
  ba_lock :: bool
  ba_content :: content

text \<open>Where a server is in \<^verbatim>\<open>onBeforeStart\<close>, \<^verbatim>\<open>AcquireInstallLock\<close> or \<^verbatim>\<open>WaitForInstallLockReleased\<close>.\<close>

datatype pc =
    CheckBase
  | AcqCheck | AcqMkdir | AcqOpen | AcqRead | AcqRelease
  | Installing | InstallRelease | FailRelease | FailRemove
  | Waiting
  | Ready | StartFailed

record install =
  in_base :: base
  in_pcs :: "pc list"

text \<open>
  How a step ends where the model does not decide: as usual, with a failure (of a waiting server:
  with the end of its context), with a timeout, or with another write of the installation. An installation
  that proceeds has written at least one file; one that succeeds without having written any, as when the server
  is configured to skip the installation scripts, ends with \<open>Skip\<close>.
\<close>

datatype outcome = Proceed | Fail | Timeout | Write | Skip

definition is_base_installed :: "base \<Rightarrow> bool" where
  "is_base_installed b = ba_dir b"

definition install_lock_exists :: "base \<Rightarrow> bool" where
  "install_lock_exists b = (ba_dir b \<and> ba_lock b)"

text \<open>\<^verbatim>\<open>os.RemoveAll\<close> of the folder, and \<^verbatim>\<open>os.Remove\<close> of the lock file, whoever wrote it.\<close>

definition remove_base :: "base \<Rightarrow> base" where
  "remove_base b = \<lparr>ba_dir = False, ba_lock = False, ba_content = Empty\<rparr>"

definition remove_lock :: "base \<Rightarrow> base" where
  "remove_lock b = b\<lparr>ba_lock := False\<rparr>"

text \<open>The steps of \<^verbatim>\<open>AcquireInstallLock\<close>.\<close>

fun acquire_step :: "pc \<Rightarrow> outcome \<Rightarrow> base \<Rightarrow> pc \<times> base" where
  "acquire_step AcqCheck c b = (if is_base_installed b then (Waiting, b) else (AcqMkdir, b))"
| "acquire_step AcqMkdir c b = (if c = Fail then (StartFailed, b) else (AcqOpen, b\<lparr>ba_dir := True\<rparr>))"
| "acquire_step AcqOpen c b =
     (if \<not> ba_dir b \<or> c = Fail then (StartFailed, b)
      else if ba_lock b then (AcqCheck, b)
      else (AcqRead, b\<lparr>ba_lock := True\<rparr>))"
| "acquire_step AcqRead c b =
     (if \<not> ba_dir b \<or> c = Fail then (StartFailed, remove_lock b)
      else if ba_content b \<noteq> Empty then (AcqRelease, b)
      else (Installing, b))"
| "acquire_step AcqRelease c b = (Waiting, remove_lock b)"
| "acquire_step pc c b = (pc, b)"

text \<open>One look of \<^verbatim>\<open>WaitForInstallLockReleased\<close>, and what the loop does with its result.\<close>

definition wait_step :: "outcome \<Rightarrow> base \<Rightarrow> pc \<times> base" where
  "wait_step c b =
     (if \<not> install_lock_exists b then (Ready, b)
      else if c = Timeout \<or> c = Fail then (CheckBase, remove_base b)
      else (Waiting, b))"

text \<open>One step of a server.\<close>

fun before_start_step :: "pc \<Rightarrow> outcome \<Rightarrow> base \<Rightarrow> pc \<times> base" where
  "before_start_step CheckBase c b = (if is_base_installed b then (Waiting, b) else (AcqCheck, b))"
| "before_start_step Installing c b =
     (case c of
        Write \<Rightarrow> (Installing, if ba_dir b \<and> ba_content b = Empty then b\<lparr>ba_content := Partial\<rparr> else b)
      | Fail \<Rightarrow> (FailRelease, b)
      | Timeout \<Rightarrow> (FailRelease, b)
      | Proceed \<Rightarrow> (InstallRelease, if ba_dir b then b\<lparr>ba_content := Complete\<rparr> else b)
      | Skip \<Rightarrow> (InstallRelease, b))"
| "before_start_step InstallRelease c b = (Waiting, remove_lock b)"
| "before_start_step FailRelease c b = (FailRemove, remove_lock b)"
| "before_start_step FailRemove c b = (StartFailed, remove_base b)"
| "before_start_step Waiting c b = wait_step c b"
| "before_start_step Ready c b = (Ready, b)"
| "before_start_step StartFailed c b = (StartFailed, b)"
| "before_start_step pc c b = acquire_step pc c b"

definition install_step :: "nat \<times> outcome \<Rightarrow> install \<Rightarrow> install" where
  "install_step ic s = (let (i, c) = ic in
     if i < length (in_pcs s)
     then (let (pc, b) = before_start_step (in_pcs s ! i) c (in_base s)
           in \<lparr>in_base = b, in_pcs = (in_pcs s)[i := pc]\<rparr>)
     else s)"

definition install_run :: "(nat \<times> outcome) list \<Rightarrow> install \<Rightarrow> install" where
  "install_run sched s = fold install_step sched s"

definition install_start :: "nat \<Rightarrow> install" where
  "install_start n = \<lparr>in_base = \<lparr>ba_dir = False, ba_lock = False, ba_content = Empty\<rparr>, in_pcs = replicate n CheckBase\<rparr>"


section \<open>One installation\<close>

text \<open>Between creating the lock file and removing it.\<close>

definition holds_lock :: "pc \<Rightarrow> bool" where
  "holds_lock p \<longleftrightarrow> p = AcqRead \<or> p = AcqRelease \<or> p = Installing \<or> p = InstallRelease"

definition holders :: "install \<Rightarrow> nat list" where
  "holders s = filter (\<lambda>i. holds_lock (in_pcs s ! i)) [0..<length (in_pcs s)]"

definition starts_install :: "nat \<times> outcome \<Rightarrow> install \<Rightarrow> bool" where
  "starts_install ic s \<longleftrightarrow> fst ic < length (in_pcs s) \<and> in_pcs s ! fst ic \<noteq> Installing \<and>
     in_pcs (install_step ic s) ! fst ic = Installing"

text \<open>How often an installation begins.\<close>

fun installs :: "(nat \<times> outcome) list \<Rightarrow> install \<Rightarrow> nat" where
  "installs [] s = 0"
| "installs (ic # sched) s = (if starts_install ic s then 1 else 0) + installs sched (install_step ic s)"

definition undisturbed :: "nat \<times> outcome \<Rightarrow> bool" where
  "undisturbed ic \<longleftrightarrow> snd ic = Proceed \<or> snd ic = Write"

definition install_inv :: "install \<Rightarrow> bool" where
  "install_inv s \<longleftrightarrow>
     (\<forall>i < length (in_pcs s). holds_lock (in_pcs s ! i) \<longrightarrow> ba_dir (in_base s) \<and> ba_lock (in_base s) \<and>
        (\<forall>j < length (in_pcs s). holds_lock (in_pcs s ! j) \<longrightarrow> i = j)) \<and>
     (\<forall>i < length (in_pcs s). in_pcs s ! i \<noteq> FailRelease \<and> in_pcs s ! i \<noteq> FailRemove \<and>
        (in_pcs s ! i = Installing \<longrightarrow> ba_content (in_base s) \<noteq> Complete))"

text \<open>What one undisturbed step of a server does to the folder, as the others see it.\<close>

lemmas step_defs = holds_lock_def wait_step_def is_base_installed_def install_lock_exists_def remove_lock_def

definition step_effect :: "pc \<Rightarrow> base \<Rightarrow> pc \<Rightarrow> base \<Rightarrow> bool" where
  "step_effect p b p' b' \<longleftrightarrow>
     p' \<noteq> FailRelease \<and> p' \<noteq> FailRemove \<and> (ba_dir b \<longrightarrow> ba_dir b') \<and>
     (holds_lock p' \<longrightarrow> ba_dir b' \<and> ba_lock b') \<and> (holds_lock p' \<and> \<not> holds_lock p \<longrightarrow> \<not> ba_lock b) \<and>
     (\<not> holds_lock p \<and> ba_lock b \<longrightarrow> ba_lock b') \<and> (\<not> holds_lock p \<longrightarrow> ba_content b' = ba_content b) \<and>
     (p' = Installing \<longrightarrow> ba_content b' \<noteq> Complete) \<and>
     (p' = Installing \<and> p \<noteq> Installing \<longrightarrow> p = AcqRead \<and> ba_content b = Empty) \<and>
     (p = Installing \<longrightarrow> p' = Installing \<or> ba_content b' = Complete) \<and>
     (ba_content b \<noteq> Empty \<longrightarrow> ba_content b' \<noteq> Empty)"

lemma undisturbed_step:
  assumes "before_start_step p c b = (p', b')" "c = Proceed \<or> c = Write" "p \<noteq> FailRelease" "p \<noteq> FailRemove"
    "holds_lock p \<longrightarrow> ba_dir b \<and> ba_lock b" "p = Installing \<longrightarrow> ba_content b \<noteq> Complete"
  shows "step_effect p b p' b'"
proof (cases p)
qed (use assms in \<open>auto simp: step_effect_def step_defs split: if_splits\<close>)

lemma install_step_inv:
  assumes "install_inv s" "undisturbed ic"
  shows "install_inv (install_step ic s)"
proof (cases "fst ic < length (in_pcs s)")
  case False
  then show ?thesis using assms by (cases ic) (simp add: install_step_def)
next
  case True
  obtain i c where ic: "ic = (i, c)" by (cases ic)
  obtain p' b' where st: "before_start_step (in_pcs s ! i) c (in_base s) = (p', b')" by fastforce
  have i: "i < length (in_pcs s)" using True ic by simp
  let ?p = "in_pcs s ! i" and ?b = "in_base s"
  have pre: "c = Proceed \<or> c = Write" "?p \<noteq> FailRelease" "?p \<noteq> FailRemove"
    "holds_lock ?p \<longrightarrow> ba_dir ?b \<and> ba_lock ?b" "?p = Installing \<longrightarrow> ba_content ?b \<noteq> Complete"
    using assms i ic by (auto simp: install_inv_def undisturbed_def)
  have eff: "step_effect ?p ?b p' b'" by (rule undisturbed_step [OF st pre])
  have others: "holds_lock (in_pcs s ! j) \<Longrightarrow> \<not> holds_lock p'" if "j < length (in_pcs s)" "j \<noteq> i" for j
    using assms(1) that i eff by (auto simp: install_inv_def step_effect_def)
  have keep: "ba_dir b' \<and> ba_lock b'" if "j < length (in_pcs s)" "j \<noteq> i" "holds_lock (in_pcs s ! j)" for j
    using assms(1) that i eff by (auto simp: install_inv_def step_effect_def)
  have cont: "ba_content b' \<noteq> Complete" if "j < length (in_pcs s)" "j \<noteq> i" "in_pcs s ! j = Installing" for j
  proof -
    have "holds_lock (in_pcs s ! j)" using that(3) by (simp add: holds_lock_def)
    then have "\<not> holds_lock ?p" using assms(1) that(1,2) i unfolding install_inv_def by blast
    then have "ba_content b' = ba_content ?b" using eff by (simp add: step_effect_def)
    then show ?thesis using assms(1) that(1,3) by (simp add: install_inv_def)
  qed
  have new: "install_step ic s = \<lparr>in_base = b', in_pcs = (in_pcs s)[i := p']\<rparr>"
    using i st ic by (simp add: install_step_def)
  let ?q = "(in_pcs s)[i := p']"
  have p': "p' \<noteq> FailRelease" "p' \<noteq> FailRemove" "holds_lock p' \<Longrightarrow> ba_dir b' \<and> ba_lock b'"
    "p' = Installing \<Longrightarrow> ba_content b' \<noteq> Complete"
    using eff by (auto simp: step_effect_def)
  have "ba_dir b' \<and> ba_lock b'" if "j < length ?q" "holds_lock (?q ! j)" for j
    using that keep [of j] p'(3) i by (cases "j = i") auto
  moreover have "j = k" if "j < length ?q" "holds_lock (?q ! j)" "k < length ?q" "holds_lock (?q ! k)" for j k
  proof (cases "j = i \<or> k = i")
    case True
    then show ?thesis using that others [of j] others [of k] i by (cases "j = i"; cases "k = i") auto
  next
    case False
    then show ?thesis using that assms(1) by (simp add: install_inv_def)
  qed
  moreover have "?q ! j \<noteq> FailRelease \<and> ?q ! j \<noteq> FailRemove \<and> (?q ! j = Installing \<longrightarrow> ba_content b' \<noteq> Complete)"
    if "j < length ?q" for j
    using that p' cont [of j] assms(1) i by (cases "j = i") (auto simp: install_inv_def)
  ultimately show ?thesis unfolding install_inv_def new by simp
qed

lemma install_run_inv: "install_inv s \<Longrightarrow> list_all undisturbed sched \<Longrightarrow> install_inv (install_run sched s)"
  by (induction sched arbitrary: s) (auto simp: install_run_def install_step_inv)

lemma install_start_inv: "install_inv (install_start n)"
  by (simp add: install_inv_def install_start_def holds_lock_def)

text \<open>Once an installation has begun, none begins again.\<close>

definition begun :: "install \<Rightarrow> bool" where
  "begun s \<longleftrightarrow> ba_content (in_base s) \<noteq> Empty \<or> (\<exists>i < length (in_pcs s). in_pcs s ! i = Installing)"

lemma install_step_begun:
  assumes "install_inv s" "undisturbed ic"
  shows "begun s \<Longrightarrow> \<not> starts_install ic s \<and> begun (install_step ic s)"
    and "starts_install ic s \<Longrightarrow> begun (install_step ic s)"
proof -
  obtain i c where ic: "ic = (i, c)" by (cases ic)
  obtain p' b' where st: "before_start_step (in_pcs s ! i) c (in_base s) = (p', b')" by fastforce
  have "(begun s \<longrightarrow> \<not> starts_install ic s \<and> begun (install_step ic s)) \<and>
    (starts_install ic s \<longrightarrow> begun (install_step ic s))"
  proof (cases "i < length (in_pcs s)")
    case False
    then show ?thesis by (simp add: ic install_step_def starts_install_def)
  next
    case True
    let ?p = "in_pcs s ! i" and ?b = "in_base s"
    have "step_effect ?p ?b p' b'"
      by (rule undisturbed_step [OF st]) (use assms True ic in \<open>auto simp: install_inv_def undisturbed_def\<close>)
    then have eff: "p' = Installing \<Longrightarrow> ?p \<noteq> Installing \<Longrightarrow> ?p = AcqRead \<and> ba_content ?b = Empty"
      "?p = Installing \<Longrightarrow> p' = Installing \<or> ba_content b' = Complete"
      "ba_content ?b \<noteq> Empty \<Longrightarrow> ba_content b' \<noteq> Empty"
      by (auto simp: step_effect_def)
    have new: "install_step ic s = \<lparr>in_base = b', in_pcs = (in_pcs s)[i := p']\<rparr>"
      using True st ic by (simp add: install_step_def)
    have starts: "starts_install ic s \<longleftrightarrow> ?p \<noteq> Installing \<and> p' = Installing"
      using True by (simp add: starts_install_def ic new [unfolded ic])
    have only: "j = i" if "?p = AcqRead" "j < length (in_pcs s)" "in_pcs s ! j = Installing" for j
      using assms(1) that True by (auto simp: install_inv_def holds_lock_def)
    have next_begun: "begun (install_step ic s) \<longleftrightarrow> ba_content b' \<noteq> Empty \<or> (\<exists>j < length (in_pcs s). (in_pcs s)[i := p'] ! j = Installing)"
      by (simp add: begun_def new)
    have "\<not> starts_install ic s" if "begun s"
      using that eff(1) only unfolding begun_def starts by auto
    moreover have "begun (install_step ic s)" if "begun s"
      using that eff(2,3) True unfolding begun_def [of s] next_begun by (metis nth_list_update content.distinct(3))
    moreover have "begun (install_step ic s)" if "starts_install ic s"
      using that True unfolding starts next_begun by auto
    ultimately show ?thesis by blast
  qed
  then show "begun s \<Longrightarrow> \<not> starts_install ic s \<and> begun (install_step ic s)"
    and "starts_install ic s \<Longrightarrow> begun (install_step ic s)" by auto
qed

lemma installs_begun:
  "install_inv s \<Longrightarrow> list_all undisturbed sched \<Longrightarrow> begun s \<Longrightarrow> installs sched s = 0"
  by (induction sched arbitrary: s) (auto simp: install_step_inv install_step_begun)

lemma installs_at_most_once:
  "install_inv s \<Longrightarrow> list_all undisturbed sched \<Longrightarrow> installs sched s \<le> 1"
proof (induction sched arbitrary: s)
  case (Cons ic sched)
  have inv: "install_inv (install_step ic s)" "undisturbed ic" "list_all undisturbed sched"
    using Cons.prems install_step_inv by auto
  show ?case
  proof (cases "starts_install ic s")
    case True
    then have "installs sched (install_step ic s) = 0"
      using installs_begun [OF inv(1,3)] install_step_begun(2) [OF Cons.prems(1) inv(2)] by simp
    then show ?thesis by simp
  next
    case False
    then show ?thesis using Cons.IH [OF inv(1,3)] by simp
  qed
qed simp

text \<open>
  C37. However the steps of the servers that share a base interleave, as long as no installation
  fails, every one that succeeds writes a file, and no wait ends early, at most one server at a time is between
  taking and giving back the lock, and the base is installed at most once. An installation that writes nothing is
  not seen by the next server: see \<open>skipped_install_repeats\<close>.
\<close>

theorem base_installed_once:
  assumes "list_all undisturbed sched"
  shows "installs sched (install_start n) \<le> 1 \<and> length (holders (install_run sched (install_start n))) \<le> 1"
proof -
  let ?s = "install_run sched (install_start n)"
  have "install_inv ?s" by (rule install_run_inv [OF install_start_inv assms])
  then have "\<forall>i \<in> set (holders ?s). \<forall>j \<in> set (holders ?s). i = j" by (auto simp: holders_def install_inv_def)
  moreover have "distinct (holders ?s)" by (simp add: holders_def)
  ultimately have "length (holders ?s) \<le> 1"
    using card_le_Suc0_iff_eq [of "set (holders ?s)"] by (simp add: distinct_card)
  then show ?thesis using installs_at_most_once [OF install_start_inv assms] by blast
qed

definition solo :: "nat \<Rightarrow> nat \<Rightarrow> (nat \<times> outcome) list" where
  "solo i n = replicate n (i, Proceed)"

text \<open>Three servers: the first installs while the others try, and all become ready.\<close>

definition example_sched :: "(nat \<times> outcome) list" where
  "example_sched = [(0, Proceed), (1, Proceed)] @ solo 0 3 @ solo 1 3 @ [(0, Proceed), (0, Write)] @ solo 2 2 @ solo 0 3 @ solo 1 3 @ solo 2 2"

lemma base_installed_once_witness:
  "installs example_sched (install_start 3) = 1 \<and> in_pcs (install_run example_sched (install_start 3)) = [Ready, Ready, Ready] \<and>
   installs example_sched (install_start 3) \<le> 1 \<and> length (holders (install_run example_sched (install_start 3))) \<le> 1"
proof -
  have "list_all undisturbed example_sched" by code_simp
  from base_installed_once [OF this, of 3]
  show ?thesis by (intro conjI) (code_simp | simp)+
qed


section \<open>What the lock does not exclude\<close>

text \<open>
  The folder exists before the lock file does: a server that looks in between starts although
  nothing is installed.
\<close>

lemma ready_before_install:
  "let s = install_run ([(0, Proceed), (0, Proceed), (0, Proceed)] @ solo 1 2) (install_start 2)
   in in_pcs s = [AcqOpen, Ready] \<and> ba_content (in_base s) = Empty"
  by code_simp

text \<open>
  A waiting server whose context ends (it is deleted) removes the folder another one is installing,
  and begins to install it itself.
\<close>

lemma cancelled_waiter_removes_base:
  "let s = install_run (solo 0 5 @ [(1, Proceed), (1, Fail)] @ solo 1 5) (install_start 2)
   in in_pcs s = [Installing, Installing] \<and> holders s = [0, 1]"
  by code_simp

text \<open>
  An installation that succeeds and writes nothing leaves a folder that is empty but for the lock: a server that was
  about to make the folder then finds nothing in it, and installs again.
\<close>

lemma skipped_install_repeats:
  "let sched = [(0, Proceed), (1, Proceed), (1, Proceed)] @ solo 0 4 @ [(0, Skip), (0, Proceed)] @ solo 1 3
   in installs sched (install_start 2) = 2 \<and> in_pcs (install_run sched (install_start 2)) = [Waiting, Installing]"
  by code_simp

text \<open>
  A failed installation gives the lock back before it removes the folder: a server that takes the
  lock in between finds the partial files and starts with them.
\<close>

lemma partial_base_taken_for_installed:
  "let s = install_run ([(0, Proceed), (1, Proceed)] @ [(1, Proceed)] @ solo 0 4 @ [(1, Proceed), (0, Write), (0, Fail), (0, Proceed)]
       @ solo 1 5) (install_start 2)
   in in_pcs s = [FailRemove, Ready] \<and> ba_content (in_base s) = Partial"
  by code_simp

end
