(* ===== verification/Disk_Quota.thy ===== *)
theory Disk_Quota
  imports Go_Strings
begin

text \<open>
  The disk usage of a server: the quota of its volume (\<^verbatim>\<open>daemon/internal/ufs/fs_quota.go\<close>), the cached
  lookup of its size (\<^verbatim>\<open>daemon/server/filesystem/disk_space.go\<close>), and the operations that are
  accounted for (\<^verbatim>\<open>filesystem.go\<close>). The volume is a map from paths to entries; a regular file is an
  inode, so that two paths can be hard links of one file. Whether a system call succeeds, and how
  many bytes a copy transfers, are arguments. Resolving a path below the volume is not modelled.
\<close>

section \<open>The volume and its quota\<close>

datatype entry = FileEntry nat | DirEntry | OtherEntry

record volume =
  vo_limit :: int
  vo_usage :: int
  vo_names :: "(string, entry) gomap"
  vo_sizes :: "nat \<Rightarrow> int"
  vo_nlink :: "nat \<Rightarrow> nat"
  vo_last_lookup :: "int option"

datatype quota_error = ErrDiskSpace | ErrIsDirectory | ErrNotExist | ErrIO

definition new_quota :: "int \<Rightarrow> volume \<Rightarrow> volume" where
  "new_quota limit v = v\<lparr>vo_limit := limit, vo_usage := 0\<rparr>"

definition quota_add :: "int \<Rightarrow> volume \<Rightarrow> volume" where
  "quota_add i v = (if wrap64 (vo_usage v + i) < 0 then v\<lparr>vo_usage := 0\<rparr>
     else v\<lparr>vo_usage := wrap64 (vo_usage v + i)\<rparr>)"

definition can_fit :: "int \<Rightarrow> volume \<Rightarrow> bool" where
  "can_fit sz v =
     (if vo_limit v = -1 then False
      else if vo_limit v = 0 then True
      else if vo_usage v = -1 then True
      else wrap64 (vo_usage v + sz) \<le> vo_limit v)"

definition has_space_for :: "int \<Rightarrow> volume \<Rightarrow> quota_error option" where
  "has_space_for sz v = (if can_fit sz v then None else Some ErrDiskSpace)"

section \<open>Measuring the volume\<close>

text \<open>\<^verbatim>\<open>DirectorySize\<close>: the walk visits the entries in the order of the list; \<open>seen\<close> are the linked inodes.\<close>

fun walk_sizes :: "(nat \<Rightarrow> int) \<Rightarrow> (nat \<Rightarrow> nat) \<Rightarrow> nat list \<Rightarrow> entry list \<Rightarrow> int" where
  "walk_sizes sizes nlink seen [] = 0"
| "walk_sizes sizes nlink seen (FileEntry i # es) =
     (if nlink i > 1 then
        (if i \<in> set seen then walk_sizes sizes nlink seen es
         else sizes i + walk_sizes sizes nlink (i # seen) es)
      else sizes i + walk_sizes sizes nlink seen es)"
| "walk_sizes sizes nlink seen (_ # es) = walk_sizes sizes nlink seen es"

definition directory_size :: "volume \<Rightarrow> int" where
  "directory_size v = walk_sizes (vo_sizes v) (vo_nlink v) [] (gm_values (vo_names v))"

definition update_cached_disk_usage :: "int \<Rightarrow> volume \<Rightarrow> int \<times> volume" where
  "update_cached_disk_usage now v =
     (let sz = directory_size v in (sz, v\<lparr>vo_last_lookup := Some now, vo_usage := sz\<rparr>))"

text \<open>
  \<^verbatim>\<open>DiskUsage\<close> with an interval in seconds: a lookup in the background (\<open>None\<close> in the first place when it is
  not started) only changes the usage later. The result is the size, whether a lookup was started
  in the background, and the volume.
\<close>

definition disk_usage :: "int \<Rightarrow> int \<Rightarrow> bool \<Rightarrow> bool \<Rightarrow> volume \<Rightarrow> int \<times> bool \<times> volume" where
  "disk_usage interval now allow_stale in_progress v =
     (if interval = 0 then (0, False, v)
      else let fresh = (case vo_last_lookup v of None \<Rightarrow> False | Some t \<Rightarrow> t > now - interval * 1000000000)
           in if \<not> fresh \<and> \<not> allow_stale then (let (sz, v) = update_cached_disk_usage now v in (sz, False, v))
              else (vo_usage v, \<not> fresh \<and> \<not> in_progress, v))"

definition has_space_available :: "int \<Rightarrow> int \<Rightarrow> bool \<Rightarrow> bool \<Rightarrow> volume \<Rightarrow> bool \<times> volume" where
  "has_space_available interval now allow_stale in_progress v =
     (let (sz, _, v) = disk_usage interval now allow_stale in_progress v
      in (if vo_limit v = 0 then True else sz \<le> vo_limit v, v))"

section \<open>Writing and removing\<close>

definition set_size :: "nat \<Rightarrow> int \<Rightarrow> volume \<Rightarrow> volume" where
  "set_size i n v = v\<lparr>vo_sizes := (vo_sizes v)(i := n)\<rparr>"

text \<open>\<^verbatim>\<open>Touch\<close> with \<^verbatim>\<open>O_TRUNC\<close>: the inode of the file, \<open>fresh\<close> for a new one, now empty.\<close>

definition touch :: "nat \<Rightarrow> string \<Rightarrow> volume \<Rightarrow> nat \<times> volume" where
  "touch fresh p v = (case gm_get (vo_names v) p of
     Some (FileEntry i) \<Rightarrow> (i, set_size i 0 v)
   | _ \<Rightarrow> (fresh, set_size fresh 0 (v\<lparr>vo_names := gm_set (vo_names v) p (FileEntry fresh), vo_nlink := (vo_nlink v)(fresh := 1)\<rparr>)))"

text \<open>The size \<^verbatim>\<open>Stat\<close> gives the path, which may not exist.\<close>

definition stat_size :: "string \<Rightarrow> volume \<Rightarrow> quota_error + int" where
  "stat_size p v = (case gm_get (vo_names v) p of
     None \<Rightarrow> Inr 0
   | Some DirEntry \<Rightarrow> Inl ErrIsDirectory
   | Some (FileEntry i) \<Rightarrow> Inr (vo_sizes v i)
   | Some OtherEntry \<Rightarrow> Inl ErrIO)"

text \<open>
  \<^verbatim>\<open>Writefile\<close> and \<^verbatim>\<open>Write\<close>: \<open>n\<close> bytes are transferred, \<open>copied\<close> and \<open>chowned\<close> say whether the copy and the
  change of owner succeed.
\<close>

definition writefile :: "nat \<Rightarrow> string \<Rightarrow> int \<Rightarrow> bool \<Rightarrow> bool \<Rightarrow> bool \<Rightarrow> volume \<Rightarrow> quota_error option \<times> volume" where
  "writefile fresh p n touched copied chowned v = (case stat_size p v of
     Inl e \<Rightarrow> (Some e, v)
   | Inr current \<Rightarrow>
       (if \<not> touched then (Some ErrIO, v)
        else let (i, v) = touch fresh p v; v = quota_add (n - current) (set_size i n v)
             in (if chowned \<and> copied then None else Some ErrIO, v)))"

definition quota_write :: "nat \<Rightarrow> string \<Rightarrow> int \<Rightarrow> int \<Rightarrow> bool \<Rightarrow> bool \<Rightarrow> bool \<Rightarrow> volume \<Rightarrow> quota_error option \<times> volume" where
  "quota_write fresh p newSize available touched copied chowned v = (case stat_size p v of
     Inl e \<Rightarrow> (Some e, v)
   | Inr current \<Rightarrow>
       (case has_space_for (wrap64 (newSize - current)) v of
          Some e \<Rightarrow> (Some e, v)
        | None \<Rightarrow>
            (if \<not> touched then (Some ErrIO, v)
             else let (i, v) = touch fresh p v;
                      n = (if newSize \<le> 0 then 0 else min newSize available);
                      v = (if newSize = 0 then quota_add (- current) v else quota_add (n - current) (set_size i n v))
                  in (if chowned \<and> (newSize = 0 \<or> copied) then None else Some ErrIO, v))))"

text \<open>\<^verbatim>\<open>findCopySuffix\<close>: \<open>stamp\<close> is the time, \<open>exists\<close> the answer of \<^verbatim>\<open>Lstatat\<close>.\<close>

fun copy_suffix_loop :: "(string \<Rightarrow> bool) \<Rightarrow> string \<Rightarrow> string \<Rightarrow> string \<Rightarrow> string \<Rightarrow> int list \<Rightarrow> string" where
  "copy_suffix_loop exists stamp name ext suffx [] = suffx"
| "copy_suffix_loop exists stamp name ext suffx (i # is) =
     (let suffx = (if i > 0 then '' copy '' @ itoa i else suffx)
      in if \<not> exists (name @ suffx @ ext) then suffx
         else if i = 50 then copy_suffix_loop exists stamp name ext (''copy.'' @ stamp) is
         else copy_suffix_loop exists stamp name ext suffx is)"

definition find_copy_suffix :: "(string \<Rightarrow> bool) \<Rightarrow> string \<Rightarrow> string \<Rightarrow> string \<Rightarrow> string" where
  "find_copy_suffix exists stamp name ext = name @ copy_suffix_loop exists stamp name ext '' copy'' [0 .. 50] @ ext"

text \<open>
  \<^verbatim>\<open>Copy\<close> of the file \<open>p\<close>, which is \<open>name\<close> with extension \<open>ext\<close> in the directory \<open>dir\<close>: the destination is
  opened without truncating it.
\<close>

definition copy_file :: "nat \<Rightarrow> string \<Rightarrow> string \<Rightarrow> string \<Rightarrow> string \<Rightarrow> int \<Rightarrow> bool \<Rightarrow> bool \<Rightarrow> volume \<Rightarrow> quota_error option \<times> volume" where
  "copy_file fresh dir name ext stamp available opened finished v = (case gm_get (vo_names v) (dir @ name @ ext) of
     Some (FileEntry s) \<Rightarrow>
       (let current = vo_sizes v s in
        case has_space_for current v of
          Some e \<Rightarrow> (Some e, v)
        | None \<Rightarrow>
            (if \<not> opened then (Some ErrIO, v)
             else let new = dir @ find_copy_suffix (\<lambda>m. gm_has (vo_names v) (dir @ m)) stamp name ext;
                      n = min current available;
                      v = (case gm_get (vo_names v) new of
                             Some (FileEntry d) \<Rightarrow> set_size d (max (vo_sizes v d) n) v
                           | _ \<Rightarrow> set_size fresh n (v\<lparr>vo_names := gm_set (vo_names v) new (FileEntry fresh),
                               vo_nlink := (vo_nlink v)(fresh := 1)\<rparr>))
                  in (if finished then None else Some ErrIO, quota_add n v)))
   | _ \<Rightarrow> (Some ErrNotExist, v))"

definition unlink :: "string \<Rightarrow> volume \<Rightarrow> volume" where
  "unlink p v = (case gm_get (vo_names v) p of
     Some (FileEntry i) \<Rightarrow> v\<lparr>vo_names := gm_del (vo_names v) p, vo_nlink := (vo_nlink v)(i := vo_nlink v i - 1)\<rparr>
   | _ \<Rightarrow> v\<lparr>vo_names := gm_del (vo_names v) p\<rparr>)"

text \<open>\<^verbatim>\<open>Quota.Remove\<close>: the file is removed first, and its size given back when it was a regular one.\<close>

definition quota_remove :: "string \<Rightarrow> bool \<Rightarrow> volume \<Rightarrow> quota_error option \<times> volume" where
  "quota_remove p removed v = (case gm_get (vo_names v) p of
     None \<Rightarrow> (Some ErrNotExist, v)
   | Some e \<Rightarrow>
       (if \<not> removed then (Some ErrIO, v)
        else (None, case e of FileEntry i \<Rightarrow> quota_add (- vo_sizes v i) (unlink p v) | _ \<Rightarrow> unlink p v)))"

text \<open>\<^verbatim>\<open>Quota.unlinkat\<close>, by which a tree is removed: the size is given back before the system call.\<close>

definition quota_unlinkat :: "string \<Rightarrow> bool \<Rightarrow> bool \<Rightarrow> volume \<Rightarrow> quota_error option \<times> volume" where
  "quota_unlinkat p rmdir removed v =
     (let v = (case gm_get (vo_names v) p of
                 Some (FileEntry i) \<Rightarrow> if rmdir then v else quota_add (- vo_sizes v i) v
               | _ \<Rightarrow> v)
      in if removed then (None, unlink p v) else (Some ErrIO, v))"


section \<open>What the walk measures\<close>

definition inodes :: "volume \<Rightarrow> nat set" where
  "inodes v = {i. \<exists>p. gm_get (vo_names v) p = Some (FileEntry i)}"

text \<open>The bytes of all files, each counted once.\<close>

definition total_size :: "volume \<Rightarrow> int" where
  "total_size v = (\<Sum>i \<in> inodes v. vo_sizes v i)"

lemma finite_inodes [simp]: "finite (inodes v)"
proof -
  have "inodes v \<subseteq> (\<lambda>e. case e of FileEntry i \<Rightarrow> i | _ \<Rightarrow> 0) ` snd ` set (vo_names v)"
    unfolding inodes_def by (force dest: gm_get_SomeD)
  then show ?thesis by (rule finite_subset) simp
qed

lemma walk_sizes_sum:
  assumes "\<And>i. nlink i \<le> 1 \<Longrightarrow> count_list es (FileEntry i) \<le> 1 \<and> i \<notin> set seen"
  shows "walk_sizes sizes nlink seen es = (\<Sum>i \<in> {i. FileEntry i \<in> set es} - set seen. sizes i)"
  using assms
proof (induction sizes nlink seen es rule: walk_sizes.induct)
  case (2 sizes nlink seen i es)
  have fin: "finite {i. FileEntry i \<in> set es}"
    by (rule finite_subset [of _ "(\<lambda>e. case e of FileEntry i \<Rightarrow> i | _ \<Rightarrow> 0) ` set es"]) force+
  have set: "{j. FileEntry j \<in> set (FileEntry i # es)} = insert i {j. FileEntry j \<in> set es}" by auto
  show ?case
  proof (cases "nlink i > 1")
    case True
    show ?thesis
    proof (cases "i \<in> set seen")
      case True
      have "walk_sizes sizes nlink seen es = (\<Sum>i \<in> {i. FileEntry i \<in> set es} - set seen. sizes i)"
        by (rule 2(1) [OF \<open>nlink i > 1\<close> True]) (use 2(4) in \<open>force split: if_splits\<close>)
      then show ?thesis using True \<open>nlink i > 1\<close> unfolding set by (simp add: insert_Diff_if)
    next
      case False
      have "walk_sizes sizes nlink (i # seen) es = (\<Sum>i \<in> {i. FileEntry i \<in> set es} - set (i # seen). sizes i)"
        by (rule 2(2) [OF \<open>nlink i > 1\<close> False]) (use 2(4) \<open>nlink i > 1\<close> in \<open>force split: if_splits\<close>)
      moreover have "insert i {j. FileEntry j \<in> set es} - set seen = insert i ({j. FileEntry j \<in> set es} - set (i # seen))"
        using False by auto
      ultimately show ?thesis using False \<open>nlink i > 1\<close> fin unfolding set by simp
    qed
  next
    case False
    then have once: "count_list (FileEntry i # es) (FileEntry i) \<le> 1" "i \<notin> set seen" using 2(4) [of i] by auto
    then have "FileEntry i \<notin> set es" by (simp add: count_list_0_iff)
    moreover have "walk_sizes sizes nlink seen es = (\<Sum>i \<in> {i. FileEntry i \<in> set es} - set seen. sizes i)"
      by (rule 2(3) [OF False]) (use 2(4) in \<open>force split: if_splits\<close>)
    moreover have "insert i {j. FileEntry j \<in> set es} - set seen = insert i ({j. FileEntry j \<in> set es} - set seen)"
      using once by auto
    ultimately show ?thesis using False fin unfolding set by simp
  qed
qed (auto split: if_splits)

text \<open>An inode with one link has one path.\<close>

definition links_ok :: "volume \<Rightarrow> bool" where
  "links_ok v \<longleftrightarrow> (\<forall>i. vo_nlink v i \<le> 1 \<longrightarrow> count_list (gm_values (vo_names v)) (FileEntry i) \<le> 1)"

lemma directory_size_total:
  assumes "gm_wf (vo_names v)" "links_ok v"
  shows "directory_size v = total_size v"
proof -
  have "inodes v = {i. FileEntry i \<in> set (gm_values (vo_names v))}"
    using set_gm_values [OF assms(1)] by (simp add: inodes_def)
  then show ?thesis
    using walk_sizes_sum [of "vo_nlink v" "gm_values (vo_names v)" "[]" "vo_sizes v"] assms(2)
    by (simp add: directory_size_def total_size_def links_ok_def)
qed

section \<open>The tracked usage is exact\<close>

definition single_links :: "volume \<Rightarrow> bool" where
  "single_links v \<longleftrightarrow> (\<forall>p q i. gm_get (vo_names v) p = Some (FileEntry i) \<longrightarrow> gm_get (vo_names v) q = Some (FileEntry i) \<longrightarrow> p = q)"

definition disk_inv :: "volume \<Rightarrow> bool" where
  "disk_inv v \<longleftrightarrow> gm_wf (vo_names v) \<and> single_links v \<and> (\<forall>i \<in> inodes v. 0 \<le> vo_sizes v i) \<and> vo_usage v = total_size v"

lemma total_nonneg: "disk_inv v \<Longrightarrow> 0 \<le> total_size v"
  by (auto simp: disk_inv_def total_size_def intro: sum_nonneg)

lemma size_le_total: "disk_inv v \<Longrightarrow> i \<in> inodes v \<Longrightarrow> vo_sizes v i \<le> total_size v"
  unfolding total_size_def by (rule member_le_sum) (auto simp: disk_inv_def)

lemma in_range: "0 \<le> x \<Longrightarrow> x < 2 ^ 63 \<Longrightarrow> wrap64 x = x"
  by (rule wrap64_id) (simp add: in_int64_def int64_min_def int64_max_def)

lemma quota_add_exact:
  assumes "0 \<le> vo_usage v + i" "vo_usage v + i < 2 ^ 63"
  shows "quota_add i v = v\<lparr>vo_usage := vo_usage v + i\<rparr>"
  using assms by (simp add: quota_add_def in_range)

text \<open>A file that is there changes its size to \<open>n\<close>.\<close>

lemma set_size_inv:
  assumes "disk_inv v" "i \<in> inodes v" "0 \<le> n" "total_size v - vo_sizes v i + n < 2 ^ 63"
  shows "disk_inv (quota_add (n - vo_sizes v i) (set_size i n v)) \<and>
    total_size (quota_add (n - vo_sizes v i) (set_size i n v)) = total_size v - vo_sizes v i + n"
proof -
  let ?w = "set_size i n v"
  have ino: "inodes ?w = inodes v" by (simp add: inodes_def set_size_def)
  have "total_size ?w = n + (\<Sum>j \<in> inodes v - {i}. vo_sizes v j)"
    unfolding total_size_def ino using assms(2)
    by (subst sum.remove [of _ i]) (auto simp: set_size_def intro: sum.cong)
  moreover have "total_size v = vo_sizes v i + (\<Sum>j \<in> inodes v - {i}. vo_sizes v j)"
    unfolding total_size_def using assms(2) by (subst sum.remove [of _ i]) auto
  ultimately have tot: "total_size ?w = total_size v - vo_sizes v i + n" by simp
  have u: "vo_usage ?w = total_size v" using assms(1) by (simp add: set_size_def disk_inv_def)
  have add: "quota_add (n - vo_sizes v i) ?w = ?w\<lparr>vo_usage := total_size v + (n - vo_sizes v i)\<rparr>"
    unfolding u [symmetric]
    by (rule quota_add_exact) (use u size_le_total [OF assms(1,2)] assms(3,4) in auto)
  have frame: "inodes (x\<lparr>vo_usage := k\<rparr>) = inodes x" "total_size (x\<lparr>vo_usage := k\<rparr>) = total_size x" for x k
    by (simp_all add: inodes_def total_size_def)
  show ?thesis
    using assms(1,3) tot unfolding add
    by (auto simp: disk_inv_def frame ino single_links_def) (auto simp: set_size_def)
qed

text \<open>A new file of \<open>n\<close> bytes.\<close>

definition create :: "nat \<Rightarrow> string \<Rightarrow> int \<Rightarrow> volume \<Rightarrow> volume" where
  "create fresh p n v = set_size fresh n
     (v\<lparr>vo_names := gm_set (vo_names v) p (FileEntry fresh), vo_nlink := (vo_nlink v)(fresh := 1)\<rparr>)"

lemma create_inv:
  assumes "disk_inv v" "fresh \<notin> inodes v" "gm_get (vo_names v) p = None" "0 \<le> n" "total_size v + n < 2 ^ 63"
  shows "disk_inv (quota_add n (create fresh p n v)) \<and> total_size (quota_add n (create fresh p n v)) = total_size v + n"
proof -
  let ?w = "create fresh p n v"
  have ino: "inodes ?w = insert fresh (inodes v)"
    using assms(3) by (auto simp: inodes_def create_def set_size_def) (metis option.distinct(1))
  have tot: "total_size ?w = total_size v + n"
    unfolding total_size_def ino using assms(2)
    by (simp add: create_def set_size_def) (intro sum.cong, auto)
  have u: "vo_usage ?w = total_size v" using assms(1) by (simp add: create_def set_size_def disk_inv_def)
  have add: "quota_add n ?w = ?w\<lparr>vo_usage := total_size v + n\<rparr>"
    unfolding u [symmetric] by (rule quota_add_exact) (use u total_nonneg [OF assms(1)] assms(4,5) in auto)
  have frame: "inodes (x\<lparr>vo_usage := k\<rparr>) = inodes x" "total_size (x\<lparr>vo_usage := k\<rparr>) = total_size x" for x k
    by (simp_all add: inodes_def total_size_def)
  have "single_links ?w"
    using assms(1,2) by (auto simp: disk_inv_def single_links_def create_def set_size_def inodes_def split: if_splits)
  moreover have "\<forall>i \<in> inodes ?w. 0 \<le> vo_sizes ?w i"
    unfolding ino using assms(1,4) by (auto simp: disk_inv_def create_def set_size_def)
  moreover have "gm_wf (vo_names ?w)" using assms(1) by (simp add: disk_inv_def create_def set_size_def)
  ultimately show ?thesis unfolding add by (simp add: disk_inv_def frame tot single_links_def)
qed


text \<open>A removed entry; a file gives its size back.\<close>

lemma unlink_other_inv:
  assumes "disk_inv v" "\<And>i. gm_get (vo_names v) p \<noteq> Some (FileEntry i)"
  shows "disk_inv (unlink p v) \<and> total_size (unlink p v) = total_size v"
proof -
  have un: "unlink p v = v\<lparr>vo_names := gm_del (vo_names v) p\<rparr>"
    using assms(2) by (auto simp: unlink_def split: option.split entry.split)
  have ino: "inodes (unlink p v) = inodes v"
    using assms(2) unfolding un by (auto simp: inodes_def) (metis assms(2))
  then have "total_size (unlink p v) = total_size v" unfolding total_size_def by (simp add: un)
  then show ?thesis using assms(1) ino unfolding un by (auto simp: disk_inv_def single_links_def)
qed

lemma unlink_file_inv:
  assumes "disk_inv v" "gm_get (vo_names v) p = Some (FileEntry i)" "total_size v < 2 ^ 63"
  shows "disk_inv (unlink p (quota_add (- vo_sizes v i) v)) \<and>
    total_size (unlink p (quota_add (- vo_sizes v i) v)) = total_size v - vo_sizes v i"
    and "quota_add (- vo_sizes v i) (unlink p v) = unlink p (quota_add (- vo_sizes v i) v)"
proof -
  have i: "i \<in> inodes v" using assms(2) by (auto simp: inodes_def)
  have only: "q = p" if "gm_get (vo_names v) q = Some (FileEntry i)" for q
    using assms that by (auto simp: disk_inv_def single_links_def)
  let ?w = "unlink p (quota_add (- vo_sizes v i) v)"
  have names: "vo_names (quota_add k x) = vo_names x" "vo_sizes (quota_add k x) = vo_sizes x"
    "vo_nlink (quota_add k x) = vo_nlink x" for k x
    by (simp_all add: quota_add_def)
  have w: "vo_names ?w = gm_del (vo_names v) p" "vo_sizes ?w = vo_sizes v"
    using assms(2) by (simp_all add: unlink_def names)
  have ino: "inodes ?w = inodes v - {i}"
  proof (rule set_eqI)
    fix j
    have "(\<exists>q. gm_get (gm_del (vo_names v) p) q = Some (FileEntry j)) \<longleftrightarrow>
      (\<exists>q. q \<noteq> p \<and> gm_get (vo_names v) q = Some (FileEntry j))"
      by auto
    also have "\<dots> \<longleftrightarrow> (\<exists>q. gm_get (vo_names v) q = Some (FileEntry j)) \<and> j \<noteq> i"
      using only assms(2) by (metis entry.inject option.inject)
    finally show "j \<in> inodes ?w \<longleftrightarrow> j \<in> inodes v - {i}" unfolding inodes_def w by simp
  qed
  have tot: "total_size ?w = total_size v - vo_sizes v i"
    unfolding total_size_def ino w using i by (simp add: sum_diff1)
  have nn: "0 \<le> vo_sizes v i" using assms(1) i by (simp add: disk_inv_def)
  have u: "vo_usage ?w = total_size v - vo_sizes v i"
  proof -
    have "quota_add (- vo_sizes v i) v = v\<lparr>vo_usage := vo_usage v + - vo_sizes v i\<rparr>"
      using assms(1,3) size_le_total [OF assms(1) i] nn by (intro quota_add_exact) (auto simp: disk_inv_def)
    then show ?thesis using assms(1,2) by (simp add: unlink_def disk_inv_def)
  qed
  have "single_links ?w" using assms(1) unfolding single_links_def disk_inv_def w by simp
  moreover have "\<forall>j \<in> inodes ?w. 0 \<le> vo_sizes ?w j" using assms(1) unfolding ino w by (simp add: disk_inv_def)
  moreover have "gm_wf (vo_names ?w)" using assms(1) unfolding w by (simp add: disk_inv_def)
  ultimately show "disk_inv ?w \<and> total_size ?w = total_size v - vo_sizes v i"
    using tot u by (simp add: disk_inv_def)
  show "quota_add (- vo_sizes v i) (unlink p v) = unlink p (quota_add (- vo_sizes v i) v)"
    using assms(2) by (simp add: unlink_def quota_add_def)
qed


section \<open>Runs of operations\<close>

definition fresh_inode :: "volume \<Rightarrow> nat" where
  "fresh_inode v = Suc (sum_list (map (\<lambda>e. case e of FileEntry i \<Rightarrow> i | _ \<Rightarrow> 0) (gm_values (vo_names v))))"

lemma fresh_inode: "fresh_inode v \<notin> inodes v"
proof
  assume "fresh_inode v \<in> inodes v"
  then obtain p where "gm_get (vo_names v) p = Some (FileEntry (fresh_inode v))" by (auto simp: inodes_def)
  then have "FileEntry (fresh_inode v) \<in> set (gm_values (vo_names v))"
    by (force simp: gm_values_def dest: gm_get_SomeD)
  then have "fresh_inode v \<in> set (map (\<lambda>e. case e of FileEntry i \<Rightarrow> i | _ \<Rightarrow> 0) (gm_values (vo_names v)))" by force
  then have "fresh_inode v \<le> sum_list (map (\<lambda>e. case e of FileEntry i \<Rightarrow> i | _ \<Rightarrow> 0) (gm_values (vo_names v)))"
    by (rule member_le_sum_list) simp
  then show False by (simp add: fresh_inode_def)
qed

datatype disk_op =
    DWrite string int int bool bool bool
  | DWritefile string int bool bool bool
  | DCopy string string string string int bool bool
  | DRemove string bool
  | DUnlink string bool bool

fun disk_step :: "disk_op \<Rightarrow> volume \<Rightarrow> volume" where
  "disk_step (DWrite p newSize available touched copied chowned) v =
     snd (quota_write (fresh_inode v) p newSize available touched copied chowned v)"
| "disk_step (DWritefile p n touched copied chowned) v = snd (writefile (fresh_inode v) p n touched copied chowned v)"
| "disk_step (DCopy dir name ext stamp available opened finished) v =
     snd (copy_file (fresh_inode v) dir name ext stamp available opened finished v)"
| "disk_step (DRemove p removed) v = snd (quota_remove p removed v)"
| "disk_step (DUnlink p rmdir removed) v = snd (quota_unlinkat p rmdir removed v)"

text \<open>
  What the accounting takes for granted: the declared size of a write is not negative and below \<open>2 ^ 62\<close>, what
  \<^verbatim>\<open>Writefile\<close> transfers keeps the volume below \<open>2 ^ 62\<close> bytes, the name a copy falls back to is free, and a file
  removed with a tree is removed indeed.
\<close>

fun disk_op_ok :: "volume \<Rightarrow> disk_op \<Rightarrow> bool" where
  "disk_op_ok v (DWrite p newSize available touched copied chowned) = (0 \<le> newSize \<and> newSize < 2 ^ 62 \<and> 0 \<le> available)"
| "disk_op_ok v (DWritefile p n touched copied chowned) = (0 \<le> n \<and> vo_usage v + n < 2 ^ 62)"
| "disk_op_ok v (DCopy dir name ext stamp available opened finished) =
     (0 \<le> available \<and> \<not> gm_has (vo_names v) (dir @ name @ ''copy.'' @ stamp @ ext))"
| "disk_op_ok v (DRemove p removed) = True"
| "disk_op_ok v (DUnlink p rmdir removed) =
     (removed \<and> (case gm_get (vo_names v) p of Some (FileEntry i) \<Rightarrow> \<not> rmdir | _ \<Rightarrow> True))"

fun disk_run :: "disk_op list \<Rightarrow> volume \<Rightarrow> volume" where
  "disk_run [] v = v"
| "disk_run (op # ops) v = disk_run ops (disk_step op v)"

fun disk_run_ok :: "disk_op list \<Rightarrow> volume \<Rightarrow> bool" where
  "disk_run_ok [] v = True"
| "disk_run_ok (op # ops) v = (disk_op_ok v op \<and> disk_run_ok ops (disk_step op v))"

definition checks_space :: "disk_op \<Rightarrow> bool" where
  "checks_space op \<longleftrightarrow> (case op of DWritefile _ _ _ _ _ \<Rightarrow> False | _ \<Rightarrow> True)"

definition within_bound :: "int \<Rightarrow> volume \<Rightarrow> bool" where
  "within_bound k v \<longleftrightarrow> disk_inv v \<and> 0 < vo_limit v \<and> vo_limit v \<le> k \<and> k < 2 ^ 62 \<and> total_size v \<le> k"

definition within_limit :: "volume \<Rightarrow> bool" where
  "within_limit v \<longleftrightarrow> disk_inv v \<and> 0 < vo_limit v \<and> vo_limit v < 2 ^ 62 \<and> total_size v \<le> vo_limit v"

lemma within_limit_bound: "within_limit v \<longleftrightarrow> within_bound (vo_limit v) v"
  by (auto simp: within_limit_def within_bound_def)

lemma limit_same [simp]:
  "vo_limit (quota_add i v) = vo_limit v" "vo_limit (set_size j n v) = vo_limit v"
  "vo_limit (create f p n v) = vo_limit v" "vo_limit (unlink p v) = vo_limit v"
  by (auto simp: quota_add_def set_size_def create_def unlink_def split: option.split entry.split)

lemma can_fit_room:
  assumes "within_bound b v" "can_fit k v" "\<bar>k\<bar> < 2 ^ 62"
  shows "total_size v + k \<le> vo_limit v"
proof -
  have u: "vo_usage v = total_size v" "0 \<le> total_size v" "total_size v < 2 ^ 62"
    using assms(1) total_nonneg by (auto simp: within_bound_def disk_inv_def)
  then have "wrap64 (vo_usage v + k) = vo_usage v + k"
    using assms(3) by (intro wrap64_id) (auto simp: in_int64_def int64_min_def int64_max_def)
  then show ?thesis using assms(1,2) u by (auto simp: can_fit_def within_bound_def split: if_splits)
qed

lemma quota_write_within:
  assumes "within_bound k v" "fresh \<notin> inodes v" "0 \<le> newSize" "newSize < 2 ^ 62" "0 \<le> available"
  shows "within_bound k (snd (quota_write fresh p newSize available touched copied chowned v))"
proof (cases "stat_size p v")
  case (Inr current)
  have inv: "disk_inv v" "total_size v < 2 ^ 62" using assms(1) by (auto simp: within_bound_def)
  have cur: "0 \<le> current" "current \<le> total_size v"
    using Inr size_le_total [OF inv(1)] inv(1) total_nonneg [OF inv(1)]
    by (auto simp: stat_size_def disk_inv_def inodes_def split: option.splits entry.splits)
  define n where "n = (if newSize \<le> 0 then 0 else min newSize available)"
  have n: "0 \<le> n" "n \<le> newSize" using assms(3,5) by (auto simp: n_def)
  have small: "wrap64 (newSize - current) = newSize - current"
    using assms(3,4) cur inv(2) by (intro wrap64_id) (auto simp: in_int64_def int64_min_def int64_max_def)
  show ?thesis
  proof (cases "can_fit (newSize - current) v \<and> touched")
    case False
    then show ?thesis using Inr assms(1) by (auto simp: quota_write_def has_space_for_def small)
  next
    case True
    have room: "total_size v + (newSize - current) \<le> vo_limit v"
      using can_fit_room [OF assms(1)] True cur assms(3,4) inv(2) by auto
    show ?thesis
    proof (cases "gm_get (vo_names v) p")
      case None
      then have c: "current = 0" using Inr by (simp add: stat_size_def)
      have "snd (quota_write fresh p newSize available touched copied chowned v) = quota_add n (create fresh p n v)"
        using True None c Inr small by (auto simp: quota_write_def has_space_for_def touch_def n_def create_def set_size_def Let_def)
      moreover have "total_size v + n \<le> vo_limit v" using room n c by simp
      ultimately show ?thesis
        using create_inv [OF inv(1) assms(2) None n(1)] assms(1) by (simp add: within_bound_def)
    next
      case (Some e)
      then obtain i where i: "e = FileEntry i" "current = vo_sizes v i"
        using Inr by (auto simp: stat_size_def split: entry.splits)
      have "snd (quota_write fresh p newSize available touched copied chowned v) =
          quota_add (n - vo_sizes v i) (set_size i n v)"
        using True Some i Inr small by (auto simp: quota_write_def has_space_for_def touch_def n_def set_size_def Let_def)
      moreover have "i \<in> inodes v" using Some i by (auto simp: inodes_def)
      moreover have "total_size v - vo_sizes v i + n \<le> vo_limit v" using room n i by simp
      ultimately show ?thesis
        using set_size_inv [OF inv(1), of i n] n assms(1) by (simp add: within_bound_def)
    qed
  qed
qed (simp add: quota_write_def assms)

text \<open>The name of a copy is free, unless all names are taken up to the one with the time.\<close>

lemma copy_suffix_free:
  assumes "\<not> exists (name @ ''copy.'' @ stamp @ ext)" "js \<noteq> []" "last js = 50"
  shows "\<not> exists (name @ copy_suffix_loop exists stamp name ext s js @ ext)"
  using assms
proof (induction exists stamp name ext s js rule: copy_suffix_loop.induct)
  case (2 exists stamp name ext s j js)
  then show ?case by (cases js) (auto simp: Let_def)
qed simp


lemma copy_file_within:
  assumes "within_bound k v" "fresh \<notin> inodes v" "0 \<le> available"
    "\<not> gm_has (vo_names v) (dir @ name @ ''copy.'' @ stamp @ ext)"
  shows "within_bound k (snd (copy_file fresh dir name ext stamp available opened finished v))"
proof (cases "\<exists>s. gm_get (vo_names v) (dir @ name @ ext) = Some (FileEntry s)")
  case False
  then show ?thesis using assms(1) by (auto simp: copy_file_def split: option.split entry.split)
next
  case True
  then obtain s where s: "gm_get (vo_names v) (dir @ name @ ext) = Some (FileEntry s)" by blast
  define new where "new = dir @ find_copy_suffix (\<lambda>m. gm_has (vo_names v) (dir @ m)) stamp name ext"
  define n where "n = min (vo_sizes v s) available"
  have inv: "disk_inv v" "total_size v < 2 ^ 62" using assms(1) by (auto simp: within_bound_def)
  have sz: "0 \<le> vo_sizes v s" "vo_sizes v s \<le> total_size v"
    using s inv(1) size_le_total [OF inv(1), of s] by (auto simp: disk_inv_def inodes_def)
  have n: "0 \<le> n" "n \<le> vo_sizes v s" using sz assms(3) by (auto simp: n_def)
  have "last [0..50::int] = 50" "[0..50::int] \<noteq> []" by (simp_all add: upto_rec2)
  from copy_suffix_free [where exists = "\<lambda>m. gm_has (vo_names v) (dir @ m)", OF _ this(2,1)] assms(4)
  have free: "gm_get (vo_names v) new = None"
    by (simp add: new_def find_copy_suffix_def gm_has_iff)
  show ?thesis
  proof (cases "can_fit (vo_sizes v s) v \<and> opened")
    case True
    have "snd (copy_file fresh dir name ext stamp available opened finished v) = quota_add n (create fresh new n v)"
      using True s free by (simp add: copy_file_def has_space_for_def Let_def create_def set_size_def n_def flip: new_def)
    moreover have "total_size v + n \<le> vo_limit v"
      using can_fit_room [OF assms(1), of "vo_sizes v s"] True sz inv(2) n by auto
    ultimately show ?thesis
      using create_inv [OF inv(1) assms(2) free n(1)] assms(1) by (simp add: within_bound_def)
  next
    case False
    then show ?thesis using s assms(1) by (auto simp: copy_file_def has_space_for_def Let_def)
  qed
qed

lemma remove_within:
  assumes "within_bound k v" "gm_get (vo_names v) p = Some (FileEntry i)"
  shows "within_bound k (unlink p (quota_add (- vo_sizes v i) v))"
proof -
  have inv: "disk_inv v" "total_size v < 2 ^ 63" "0 \<le> vo_sizes v i"
    using assms by (auto simp: within_bound_def disk_inv_def inodes_def)
  show ?thesis using unlink_file_inv(1) [OF inv(1) assms(2) inv(2)] inv assms(1) by (simp add: within_bound_def)
qed

lemma unlink_other_within:
  "within_bound k v \<Longrightarrow> \<forall>i. gm_get (vo_names v) p \<noteq> Some (FileEntry i) \<Longrightarrow> within_bound k (unlink p v)"
  using unlink_other_inv [of v p] by (auto simp: within_bound_def)

lemma writefile_within:
  assumes "within_bound k v" "fresh \<notin> inodes v" "0 \<le> n" "vo_usage v + n \<le> k"
  shows "within_bound k (snd (writefile fresh p n touched copied chowned v))"
proof (cases "stat_size p v")
  case (Inr current)
  have inv: "disk_inv v" "total_size v + n \<le> k" "k < 2 ^ 62" using assms by (auto simp: within_bound_def disk_inv_def)
  consider "\<not> touched" | "touched" "gm_get (vo_names v) p = None" "current = 0"
    | i where "touched" "gm_get (vo_names v) p = Some (FileEntry i)" "current = vo_sizes v i"
    using Inr by (auto simp: stat_size_def split: option.splits entry.splits)
  then show ?thesis
  proof cases
    case 2
    have "snd (writefile fresh p n touched copied chowned v) = quota_add n (create fresh p n v)"
      using 2 Inr by (simp add: writefile_def touch_def create_def set_size_def Let_def)
    then show ?thesis using create_inv [OF inv(1) assms(2) 2(2) assms(3)] inv assms(1) by (simp add: within_bound_def)
  next
    case 3
    have i: "i \<in> inodes v" "0 \<le> vo_sizes v i" using 3 inv(1) by (auto simp: inodes_def disk_inv_def)
    have "snd (writefile fresh p n touched copied chowned v) = quota_add (n - vo_sizes v i) (set_size i n v)"
      using 3 Inr by (simp add: writefile_def touch_def set_size_def Let_def)
    then show ?thesis using set_size_inv [OF inv(1) i(1) assms(3)] i inv assms(1) by (simp add: within_bound_def)
  qed (use Inr assms in \<open>simp add: writefile_def\<close>)
qed (simp add: writefile_def assms)

text \<open>
  Below a bound that is the limit, or so large that it binds \<^verbatim>\<open>Writefile\<close> too, every operation stays.
\<close>

lemma disk_step_within:
  assumes "within_bound k v" "disk_op_ok v op" "checks_space op \<or> k = 2 ^ 62 - 1"
  shows "within_bound k (disk_step op v)"
proof (cases op)
  case (DWritefile p n touched copied chowned)
  then show ?thesis using writefile_within [OF assms(1) fresh_inode] assms(2,3) by (simp add: checks_space_def)
next
  case (DWrite p newSize available touched copied chowned)
  then show ?thesis using quota_write_within [OF assms(1) fresh_inode] assms(2) by simp
next
  case (DCopy dir name ext stamp available opened finished)
  then show ?thesis using copy_file_within [OF assms(1) fresh_inode] assms(2) by simp
next
  case (DRemove p removed)
  have "disk_inv v" "total_size v < 2 ^ 63" using assms(1) by (auto simp: within_bound_def)
  then show ?thesis
    using assms(1) remove_within [OF assms(1), of p] unlink_other_within [OF assms(1), of p] unlink_file_inv(2) [of v p]
    by (auto simp: DRemove quota_remove_def split: option.split entry.split)
next
  case (DUnlink p rmdir removed)
  then show ?thesis
    using assms remove_within [OF assms(1), of p] unlink_other_within [OF assms(1), of p]
    by (auto simp: quota_unlinkat_def Let_def split: option.splits entry.splits)
qed

text \<open>With one path for each inode, the inode occurs once among the entries.\<close>

lemma entry_once:
  assumes "gm_wf m" "\<And>p q. gm_get m p = Some (FileEntry i) \<Longrightarrow> gm_get m q = Some (FileEntry i) \<Longrightarrow> p = q"
  shows "count_list (gm_values m) (FileEntry i) \<le> 1"
  using assms
proof (induction m)
  case (Cons kv m)
  obtain k e where kv: "kv = (k, e)" by (cases kv)
  have wf: "gm_wf m" "k \<notin> fst ` set m" using Cons.prems(1) by (auto simp: gm_wf_def kv)
  have up: "gm_get (kv # m) q = Some x" "q \<noteq> k" if "gm_get m q = Some x" for q x
  proof -
    have "(q, x) \<in> set m" using that by (rule gm_get_SomeD)
    then show "q \<noteq> k" using wf(2) by force
    then show "gm_get (kv # m) q = Some x" using that by (simp add: kv gm_get_def)
  qed
  have "count_list (gm_values m) (FileEntry i) \<le> 1"
    by (rule Cons.IH [OF wf(1)]) (use Cons.prems(2) up(1) in blast)
  moreover have "FileEntry i \<notin> set (gm_values m)" if e: "e = FileEntry i"
  proof
    assume "FileEntry i \<in> set (gm_values m)"
    then obtain q where "(q, FileEntry i) \<in> set m" by (auto simp: gm_values_def)
    then have q: "gm_get m q = Some (FileEntry i)" using wf(1) by (simp add: gm_get_in)
    have "gm_get (kv # m) k = Some (FileEntry i)" by (simp add: kv e gm_get_def)
    then show False using Cons.prems(2) [of q k] up [OF q] by blast
  qed
  ultimately show ?case by (auto simp: kv gm_values_def count_list_0_iff)
qed (simp add: gm_values_def)

lemma within_usage:
  assumes "within_bound k v"
  shows "vo_usage v = directory_size v \<and> directory_size v \<le> k"
proof -
  have inv: "disk_inv v" using assms by (simp add: within_bound_def)
  have "links_ok v"
    unfolding links_ok_def using inv by (intro allI impI entry_once) (auto simp: disk_inv_def single_links_def)
  then have "directory_size v = total_size v"
    using inv by (intro directory_size_total) (simp add: disk_inv_def)
  then show ?thesis using assms by (simp add: within_bound_def disk_inv_def)
qed

lemma disk_run_within:
  assumes "within_bound k v" "disk_run_ok ops v" "\<forall>op \<in> set ops. checks_space op \<or> k = 2 ^ 62 - 1"
  shows "within_bound k (disk_run ops v)"
  using assms
proof (induction ops arbitrary: v)
  case (Cons op ops)
  have "within_bound k (disk_step op v)" using disk_step_within [of k v op] Cons.prems by auto
  then show ?case using Cons.IH [of "disk_step op v"] Cons.prems by auto
qed simp

text \<open>What is written with a size that is not too large stays within the limit.\<close>

lemma quota_write_limit:
  assumes "within_limit v" "fresh \<notin> inodes v" "0 \<le> newSize" "newSize < 2 ^ 62" "0 \<le> available"
  shows "within_limit (snd (quota_write fresh p newSize available touched copied chowned v))"
proof -
  have "vo_limit (snd (quota_write fresh p newSize available touched copied chowned v)) = vo_limit v"
    by (auto simp: quota_write_def touch_def Let_def split: sum.split option.split entry.split)
  then show ?thesis using quota_write_within [OF _ assms(2-5)] assms(1) by (metis within_limit_bound)
qed

text \<open>
  C38. On a volume with a positive limit and no hard links, whose usage is known, any sequence of writes, copies and
  removals keeps the tracked usage equal to what a walk of the volume would measure, whether each of them succeeds
  or fails, and, unless \<^verbatim>\<open>Writefile\<close> is among them, which does not ask for space, the volume within its limit. This
  holds under the conditions of \<open>disk_op_ok\<close>: declared sizes are not negative and below \<open>2 ^ 62\<close>, \<^verbatim>\<open>Writefile\<close> does not
  bring the volume to \<open>2 ^ 62\<close> bytes, the name with the time that a copy falls back to is free, and the system call
  that removes a file of a tree succeeds. Without them it is false: see \<open>overflowing_size_fits\<close> and
  \<open>failed_unlink_gives_back\<close>.
\<close>

theorem disk_usage_tracked:
  assumes "within_limit v" "disk_run_ok ops v"
  shows "vo_usage (disk_run ops v) = directory_size (disk_run ops v) \<and>
    ((\<forall>op \<in> set ops. checks_space op) \<longrightarrow> directory_size (disk_run ops v) \<le> vo_limit v)"
proof -
  have "within_bound (2 ^ 62 - 1) v" using assms(1) by (auto simp: within_limit_def within_bound_def)
  from disk_run_within [OF this assms(2)] have "within_bound (2 ^ 62 - 1) (disk_run ops v)" by simp
  moreover have "within_bound (vo_limit v) (disk_run ops v)" if "\<forall>op \<in> set ops. checks_space op"
    using disk_run_within [OF _ assms(2)] that assms(1) by (simp add: within_limit_bound)
  ultimately show ?thesis using within_usage by blast
qed


definition example_volume :: volume where
  "example_volume = \<lparr>vo_limit = 100, vo_usage = 40, vo_names = [(''/a.txt'', FileEntry 1), (''/d'', DirEntry)],
     vo_sizes = (\<lambda>i. if i = 1 then 40 else 0), vo_nlink = (\<lambda>_. 1), vo_last_lookup = None\<rparr>"

lemma example_volume_files:
  "gm_get (vo_names example_volume) p = Some (FileEntry i) \<longleftrightarrow> p = ''/a.txt'' \<and> i = 1"
  by (simp add: example_volume_def gm_get_def) blast

lemma example_volume_inodes: "inodes example_volume = {1}"
  by (simp add: inodes_def example_volume_files)

lemma example_volume_within: "within_limit example_volume"
proof -
  have f: "vo_limit example_volume = 100" "vo_usage example_volume = 40" "vo_sizes example_volume (Suc 0) = 40"
    "gm_wf (vo_names example_volume)"
    by (simp_all add: example_volume_def gm_wf_def)
  have "total_size example_volume = 40"
    unfolding total_size_def example_volume_inodes by (simp add: f One_nat_def)
  moreover have "single_links example_volume" by (simp add: single_links_def example_volume_files)
  ultimately show ?thesis by (simp add: within_limit_def disk_inv_def example_volume_inodes f)
qed

text \<open>A write, a copy, a write that does not fit, and a removal.\<close>

definition example_disk_ops :: "disk_op list" where
  "example_disk_ops = [DWritefile ''/w'' 5 True True True, DRemove ''/w'' True, DWrite ''/b'' 30 20 True True True, DCopy ''/'' ''a'' ''.txt'' ''2024'' 40 True True,
     DWrite ''/c'' 1 1 True True True, DRemove ''/a.txt'' True]"

lemma example_disk_run: "vo_usage (disk_run example_disk_ops example_volume) = 60"
  by code_simp

lemma disk_usage_tracked_witness:
  "60 = directory_size (disk_run example_disk_ops example_volume) \<and> directory_size (disk_run (drop 2 example_disk_ops) example_volume) \<le> 100"
proof -
  have "disk_run_ok example_disk_ops example_volume" "disk_run_ok (drop 2 example_disk_ops) example_volume"
    "\<forall>op \<in> set (drop 2 example_disk_ops). checks_space op" "vo_limit example_volume = 100"
    by code_simp+
  with disk_usage_tracked [OF example_volume_within this(1)] disk_usage_tracked [OF example_volume_within this(2)] show ?thesis
    by (simp add: example_disk_run)
qed

section \<open>Where the tracked usage is wrong\<close>

text \<open>
  A new quota counts as empty, and not as unknown, before the first walk: everything up to the limit
  fits whatever the volume holds.
\<close>

lemma new_quota_ignores_contents:
  "0 < limit \<Longrightarrow> limit < 2 ^ 63 \<Longrightarrow> can_fit limit (new_quota limit v)"
  by (simp add: can_fit_def new_quota_def in_range)

text \<open>A size that overflows the sum fits.\<close>

lemma overflowing_size_fits: "can_fit 9223372036854775807 example_volume"
  by code_simp

text \<open>Removing one of two hard links gives the whole size back.\<close>

lemma hard_link_removed:
  "let v = example_volume\<lparr>vo_names := [(''/a'', FileEntry 1), (''/b'', FileEntry 1)], vo_nlink := (\<lambda>_. 2)\<rparr>;
       v' = disk_step (DRemove ''/a'' True) v
   in directory_size v = 40 \<and> vo_usage v' = 0 \<and> directory_size v' = 40"
  by code_simp

text \<open>A file of a tree that cannot be removed is given back all the same.\<close>

lemma failed_unlink_gives_back:
  "let v' = disk_step (DUnlink ''/a.txt'' False False) example_volume in vo_usage v' = 0 \<and> directory_size v' = 40"
  by code_simp

text \<open>The limit -1 is no space at all, not an unlimited one as the comment says.\<close>

lemma negative_limit_has_no_space:
  "fst (has_space_available 150 0 False False (example_volume\<lparr>vo_limit := -1\<rparr>)) = False"
  by code_simp

text \<open>The first copy of a taken name is numbered 1, and the last one lacks the space before its name.\<close>

lemma copy_names:
  "find_copy_suffix (\<lambda>m. m = ''a copy.txt'') ''2024'' ''a'' ''.txt'' = ''a copy 1.txt''"
  "find_copy_suffix (\<lambda>m. m \<noteq> ''acopy.2024.txt'') ''2024'' ''a'' ''.txt'' = ''acopy.2024.txt''"
  by code_simp+

end
