(* ===== verification/Daemon_Boot.thy ===== *)
theory Daemon_Boot
  imports Daemon_Power Go_Path
begin

text \<open>
  The collection of servers a daemon manages, the file that keeps their states across a restart of
  the daemon, and the boot that restores them (\<^verbatim>\<open>Manager\<close> in \<^verbatim>\<open>daemon/server/manager.go\<close>). A server is
  its identifier, the folder it shares with the servers of the same software, and the state of
  theory \<^verbatim>\<open>Daemon_Power\<close>. The collection is a Go map; the list has the order of one iteration.
\<close>

section \<open>The collection\<close>

record managed =
  mg_id :: string
  mg_base :: string
  mg_power :: power

definition manager_add :: "managed \<Rightarrow> managed list \<Rightarrow> managed list" where
  "manager_add s ms = s # filter (\<lambda>x. mg_id x \<noteq> mg_id s) ms"

definition manager_get :: "string \<Rightarrow> managed list \<Rightarrow> managed option" where
  "manager_get i ms = List.find (\<lambda>x. mg_id x = i) ms"

definition manager_remove :: "string \<Rightarrow> managed list \<Rightarrow> managed list" where
  "manager_remove i ms = filter (\<lambda>x. mg_id x \<noteq> i) ms"

text \<open>\<^verbatim>\<open>sharedBasePath\<close> is the cleaned path of the folder, or empty without a file system.\<close>

definition shared_base_path :: "managed \<Rightarrow> string" where
  "shared_base_path s = (if mg_base s = [] then [] else path_clean (mg_base s))"

definition base_reinstall_allowed :: "string \<Rightarrow> managed list \<Rightarrow> bool" where
  "base_reinstall_allowed base ms =
     (let clean = path_clean base
      in if clean = [] then True
         else list_all (\<lambda>s. shared_base_path s \<noteq> clean \<or> pw_state (mg_power s) = Offline) ms)"

definition validate_reinstall :: "managed \<Rightarrow> managed list \<Rightarrow> bool" where
  "validate_reinstall s ms = base_reinstall_allowed (shared_base_path s) ms"

section \<open>The file of states\<close>

definition state_name :: "pstate \<Rightarrow> string" where
  "state_name s = (case s of Offline \<Rightarrow> ''offline'' | Starting \<Rightarrow> ''starting'' | Running \<Rightarrow> ''running''
     | Stopping \<Rightarrow> ''stopping'' | Paused \<Rightarrow> ''paused'')"

text \<open>What the file holds: it cannot be opened, is empty, does not parse, or is an object of strings.\<close>

datatype states_file = Unreadable | EmptyFile | Garbage | StatesOf "(string \<times> string) list"

definition persist_states :: "bool \<Rightarrow> managed list \<Rightarrow> states_file \<Rightarrow> states_file" where
  "persist_states writable ms file =
     (if writable then StatesOf (map (\<lambda>s. (mg_id s, state_name (pw_state (mg_power s))))
        (filter (\<lambda>s. pw_save (mg_power s)) ms)) else file)"

text \<open>\<^verbatim>\<open>ReadStates\<close>, absent on an error; only the states of servers in the collection are kept.\<close>

definition read_states :: "states_file \<Rightarrow> managed list \<Rightarrow> (string \<times> string) list option" where
  "read_states file ms = (case file of
     Unreadable \<Rightarrow> None
   | Garbage \<Rightarrow> None
   | EmptyFile \<Rightarrow> Some []
   | StatesOf xs \<Rightarrow> Some (filter (\<lambda>(i, st). manager_get i ms \<noteq> None) xs))"

section \<open>Booting\<close>

text \<open>
  What the boot of one server meets: whether its data directory exists or can be made, the answers
  of Docker, the outcome of the steps before a start, the stop configuration that Protocube
  sends, absent on an error, and whether the container is found when its limits are to be updated.
\<close>

record boot_answers =
  ba_dir :: bool
  ba_docker :: docker
  ba_before :: bool
  ba_sync :: "stop_configuration option"
  ba_found :: docker_call

text \<open>
  \<^verbatim>\<open>InSituUpdate\<close>: a container that is found is asked to take the limits of the server (theory \<open>Docker_Container\<close> has
  which); every failure is only logged.
\<close>

definition in_situ_call :: "docker_call \<Rightarrow> power \<Rightarrow> power" where
  "in_situ_call found p = (if found = None then emit LimitsUpdated p else p)"

text \<open>
  \<^verbatim>\<open>Sync\<close> with \<^verbatim>\<open>SyncWithEnvironment\<close>, which updates the limits of the container in place, or stops a suspended
  server; the goroutine that does is run at once.
\<close>

definition sync_server :: "docker \<Rightarrow> docker_call \<Rightarrow> stop_configuration option \<Rightarrow> power \<Rightarrow> power" where
  "sync_server d found answer p = (case answer of
     None \<Rightarrow> p
   | Some stop \<Rightarrow> (let p = p\<lparr>pw_stop := stop\<rparr>
       in if \<not> pw_suspended p then in_situ_call found p
          else if pw_state p \<noteq> Offline then snd (env_wait_for_stop True d p) else p))"

definition restore_server :: "string option \<Rightarrow> boot_answers \<Rightarrow> power \<Rightarrow> power" where
  "restore_server st a p0 = (let d = ba_docker a in case env_is_running (dk_running d) p0 of (r, p) \<Rightarrow>
     let running = (r = Inr True); reattach = (\<lambda>p. snd (env_attach (dk_attach d) (set_state Running p)))
     in if \<not> pw_save p then (if \<not> running then emit DeleteServer p else reattach p)
        else let p = (if \<not> running \<and> (st = Some ''running'' \<or> st = Some ''starting'')
                      then snd (handle_power_action ''start'' None (ba_before a) d p)
                      else if running \<or> was_online (pw_state p) then reattach p
                      else set_state Offline p)
             in if was_online (pw_state p) then sync_server d (ba_found a) (ba_sync a) p else p)"

definition load_servers :: "states_file \<Rightarrow> (string \<Rightarrow> boot_answers) \<Rightarrow> managed list \<Rightarrow> managed list" where
  "load_servers file answers ms = map (\<lambda>s. let a = answers (mg_id s) in
     if \<not> ba_dir a then s
     else s\<lparr>mg_power := restore_server
       (map_of (case read_states file ms of None \<Rightarrow> [] | Some xs \<Rightarrow> xs) (mg_id s)) a (mg_power s)\<rparr>) ms"

text \<open>A server as \<^verbatim>\<open>New\<close> and \<^verbatim>\<open>InitServer\<close> make it.\<close>

definition init_power :: "bool \<Rightarrow> stop_configuration \<Rightarrow> bool \<Rightarrow> power" where
  "init_power save stop crash = \<lparr>pw_state = Offline, pw_attached = False, pw_stop = stop, pw_published = [],
     pw_tracked = Offline, pw_broadcast = False, pw_lock = new_locker, pw_save = save,
     pw_crash_detection = crash, pw_suspended = False, pw_registered = True, pw_effects = []\<rparr>"

section \<open>The collection as a map\<close>

lemma manager_get_add: "manager_get i (manager_add s ms) = (if i = mg_id s then Some s else manager_get i ms)"
proof -
  have "List.find (\<lambda>x. mg_id x = i) (filter (\<lambda>x. mg_id x \<noteq> mg_id s) ms) = List.find (\<lambda>x. mg_id x = i) ms"
    if "i \<noteq> mg_id s" using that by (induction ms) auto
  then show ?thesis by (simp add: manager_get_def manager_add_def)
qed

lemma manager_get_remove: "manager_get i (manager_remove j ms) = (if i = j then None else manager_get i ms)"
  by (induction ms) (auto simp: manager_get_def manager_remove_def)

lemma manager_get_in: "manager_get i ms \<noteq> None \<longleftrightarrow> i \<in> mg_id ` set ms"
  by (auto simp: manager_get_def find_None_iff)

lemma base_reinstall_allowed_iff:
  "base_reinstall_allowed base ms \<longleftrightarrow>
     (\<forall>s \<in> set ms. shared_base_path s = path_clean base \<longrightarrow> pw_state (mg_power s) = Offline)"
proof -
  have "path_clean base \<noteq> []"
    using clean_list_path_comps [of base] by (auto simp: path_clean_def clean_list_def intro!: show_path_not_Nil)
  then show ?thesis by (auto simp: base_reinstall_allowed_def list_all_iff)
qed

lemma validate_reinstall_iff:
  assumes "is_abs (mg_base s)"
  shows "validate_reinstall s ms \<longleftrightarrow>
    (\<forall>t \<in> set ms. shared_base_path t = shared_base_path s \<longrightarrow> pw_state (mg_power t) = Offline)"
proof -
  have "mg_base s \<noteq> []" using assms by (auto simp: is_abs_iff)
  then have "path_clean (shared_base_path s) = shared_base_path s"
    using assms by (simp add: shared_base_path_def path_clean_idem)
  then show ?thesis by (simp add: validate_reinstall_def base_reinstall_allowed_iff)
qed

section \<open>A running container survives the boot\<close>

text \<open>
  The operation takes \<open>p\<close> to \<open>p'\<close> with nothing done to the container but what \<open>xs\<close> says, and without touching
  the registration.
\<close>

definition undisturbed :: "power_effect list \<Rightarrow> power \<Rightarrow> power \<Rightarrow> bool" where
  "undisturbed xs p p' \<longleftrightarrow> pw_effects p' = pw_effects p @ xs \<and> pw_lock p' = pw_lock p \<and> pw_save p' = pw_save p \<and>
     pw_suspended p' = pw_suspended p \<and> pw_registered p' = pw_registered p"

text \<open>What synchronising a saved server does to a container that runs.\<close>

definition sync_effects :: "boot_answers \<Rightarrow> bool \<Rightarrow> power_effect list" where
  "sync_effects a save = (if save \<and> ba_sync a \<noteq> None \<and> ba_found a = None then [LimitsUpdated] else [])"

lemma env_attach_state [simp]: "pw_state (snd (env_attach a p)) = pw_state p"
  by (auto simp: env_attach_def split: option.split)

lemma restore_running:
  assumes "dk_running (ba_docker a) = Inr (True, False)" "\<not> pw_suspended p"
  shows "pw_state (restore_server st a p) = Running" "undisturbed (sync_effects a (pw_save p)) p (restore_server st a p)"
proof -
  define q where "q = snd (env_attach (dk_attach (ba_docker a)) (set_state Running p))"
  have q: "pw_state q = Running" "undisturbed [] p q" "\<not> pw_suspended q"
    using assms(2) by (auto simp: q_def undisturbed_def set_state_def env_attach_def split: option.split)
  have "restore_server st a p = (if pw_save p then sync_server (ba_docker a) (ba_found a) (ba_sync a) q else q)"
    using assms(1) by (simp add: restore_server_def env_is_running_def q_def was_online_def Let_def)
  then show "pw_state (restore_server st a p) = Running" "undisturbed (sync_effects a (pw_save p)) p (restore_server st a p)"
    using q by (auto simp: sync_server_def in_situ_call_def sync_effects_def undisturbed_def emit_def Let_def split: option.split)
qed

text \<open>
  C14. A server that is not suspended, as one that is being deleted is, whose container is running when the daemon
  boots, and that Docker can be asked about, is marked as running whatever the file of states says. Its container is neither signalled nor sent a
  command, nor is the server deleted: all that is done to it is that the limits of a saved server are updated in place
  when Protocube answers and the container is found.
\<close>

theorem boot_keeps_running:
  assumes "s \<in> set (load_servers file answers ms)" "ba_dir (answers (mg_id s))"
    "dk_running (ba_docker (answers (mg_id s))) = Inr (True, False)"
    "\<forall>t \<in> set ms. mg_id t = mg_id s \<longrightarrow> \<not> pw_suspended (mg_power t)"
  shows "pw_state (mg_power s) = Running \<and>
    (\<exists>t \<in> set ms. mg_id t = mg_id s \<and> undisturbed (sync_effects (answers (mg_id s)) (pw_save (mg_power t))) (mg_power t) (mg_power s))"
proof -
  obtain t where t: "t \<in> set ms" "mg_id s = mg_id t"
    and s: "mg_power s = restore_server (map_of (case read_states file ms of None \<Rightarrow> [] | Some xs \<Rightarrow> xs) (mg_id t))
      (answers (mg_id t)) (mg_power t)"
    using assms(1,2) by (auto simp: load_servers_def Let_def)
  have "dk_running (ba_docker (answers (mg_id t))) = Inr (True, False)" "\<not> pw_suspended (mg_power t)"
    using assms(3,4) t by auto
  from restore_running [OF this] t s show ?thesis by metis
qed

text \<open>
  An unsaved server is deleted when Docker does not answer, though its container may well be
  running; so it is when the request that started the boot has ended and taken its context along.
\<close>

lemma boot_deletes_unreachable:
  "dk_running (ba_docker a) = Inl e \<Longrightarrow> \<not> pw_save p \<Longrightarrow> pw_effects (restore_server st a p) = pw_effects p @ [DeleteServer]"
  by (simp add: restore_server_def env_is_running_def Let_def)

text \<open>A saved server whose container is paused is marked as offline, unless it was last seen online.\<close>

lemma boot_forgets_pause:
  "dk_running (ba_docker a) = Inr (True, True) \<Longrightarrow> pw_save p \<Longrightarrow> st = Some ''paused'' \<Longrightarrow>
     pw_state (restore_server st a p) = Offline"
  by (simp add: restore_server_def env_is_running_def Let_def was_online_def)

section \<open>What was online is started again\<close>

lemma map_of_saved:
  assumes "distinct (map mg_id ms)" "s \<in> set ms" "pw_save (mg_power s)"
  shows "map_of (map (\<lambda>s. (mg_id s, state_name (pw_state (mg_power s)))) (filter (\<lambda>s. pw_save (mg_power s)) ms)) (mg_id s) =
    Some (state_name (pw_state (mg_power s)))"
proof (rule map_of_is_SomeI)
  have "distinct (map mg_id (filter (\<lambda>s. pw_save (mg_power s)) ms))" using assms(1) by (rule distinct_map_filter)
  then show "distinct (map fst (map (\<lambda>s. (mg_id s, state_name (pw_state (mg_power s)))) (filter (\<lambda>s. pw_save (mg_power s)) ms)))"
    by (simp add: comp_def)
qed (use assms in auto)

lemma map_of_filter_key: "P i \<Longrightarrow> map_of (filter (\<lambda>(k, v). P k) xs) i = map_of xs i"
  by (induction xs) auto

lemma states_roundtrip:
  assumes "distinct (map mg_id ms)" "s \<in> set ms" "pw_save (mg_power s)" "mg_id s \<in> mg_id ` set ms'"
  shows "\<exists>xs. read_states (persist_states True ms old) ms' = Some xs \<and>
    map_of xs (mg_id s) = Some (state_name (pw_state (mg_power s)))"
proof -
  define l where "l = map (\<lambda>s. (mg_id s, state_name (pw_state (mg_power s)))) (filter (\<lambda>s. pw_save (mg_power s)) ms)"
  have "read_states (persist_states True ms old) ms' = Some (filter (\<lambda>(i, st). manager_get i ms' \<noteq> None) l)"
    by (simp add: persist_states_def read_states_def l_def)
  moreover have "map_of (filter (\<lambda>(i, st). manager_get i ms' \<noteq> None) l) (mg_id s) = map_of l (mg_id s)"
    by (rule map_of_filter_key) (use assms(4) in \<open>simp only: manager_get_in\<close>)
  ultimately show ?thesis using map_of_saved [OF assms(1-3)] by (simp add: l_def)
qed

text \<open>Every call of Docker that a start makes succeeds, and the container is not running.\<close>

definition ready_docker :: "docker \<Rightarrow> bool" where
  "ready_docker d \<longleftrightarrow> (dk_running d = Inr (False, False) \<or> dk_running d = Inl DockerNotFound) \<and>
     (dk_start_inspect d = Inl DockerNotFound \<or> (dk_start_inspect d = Inr (False, False) \<and> dk_truncate d)) \<and>
     (dk_remove d = None \<or> dk_remove d = Some DockerNotFound) \<and> dk_create d \<and> dk_attach d = None \<and> dk_start d = None"

lemma boot_start:
  assumes "ready_docker d" "\<not> pw_attached p"
  shows "env_boot d p = (None, (set_state Starting p)\<lparr>pw_attached := True\<rparr>)"
proof -
  have "env_on_before_start d = None" "dk_attach d = None" "dk_start d = None"
    using assms(1) by (auto simp: ready_docker_def env_on_before_start_def)
  then show ?thesis using assms(2) by (simp add: env_boot_def env_attach_def Let_def)
qed

lemma start_ready:
  assumes "ready_docker d" "pw_state p = Offline" "pw_lock p = Some False" "\<not> pw_attached p" "\<not> pw_suspended p"
  obtains q where "handle_power_action ''start'' None True d p = (None, q)" "pw_state q = Starting" "\<not> pw_suspended q"
proof -
  let ?p = "p\<lparr>pw_lock := Some True\<rparr>"
  have "env_start d ?p = env_boot d ?p"
    using assms(1) by (auto simp: env_start_def ready_docker_def)
  then have start: "env_start d ?p = (None, (set_state Starting ?p)\<lparr>pw_attached := True\<rparr>)"
    using boot_start [OF assms(1), of ?p] assms(4) by simp
  have "run_power_action ''start'' True d ?p = (None, (set_state Starting ?p)\<lparr>pw_attached := True\<rparr>)"
    using assms(2) by (simp add: run_power_action_def boot_server_def start)
  then show thesis
    using assms(3,5) by (intro that [of "((set_state Starting ?p)\<lparr>pw_attached := True\<rparr>)\<lparr>pw_lock := Some False\<rparr>"])
      (simp_all add: handle_power_action_def begin_power_action_def end_power_action_def take_power_lock_def needs_lock_def locker_acquire_def locker_release_def set_state_def)
qed

lemma restore_offline:
  assumes "ready_docker (ba_docker a)" "ba_before a" "p = init_power True stop crash"
  shows "pw_state (restore_server st a p) =
    (if st = Some ''running'' \<or> st = Some ''starting'' then Starting else Offline)"
proof -
  let ?d = "ba_docker a"
  have p: "pw_state p = Offline" "pw_lock p = Some False" "\<not> pw_attached p" "\<not> pw_suspended p" "pw_save p"
    using assms(3) by (simp_all add: init_power_def new_locker_def)
  obtain r where r: "env_is_running (dk_running ?d) p = (r, p)" "r \<noteq> Inr True"
    using assms(1) by (auto simp: env_is_running_def ready_docker_def)
  obtain q where q: "handle_power_action ''start'' None True ?d p = (None, q)" "pw_state q = Starting" "\<not> pw_suspended q"
    using start_ready [OF assms(1) p(1-4)] by blast
  have "pw_state (sync_server ?d f s q) = Starting" for f s
    using q by (auto simp: sync_server_def in_situ_call_def emit_def Let_def split: option.split)
  then show ?thesis using r p q assms(2) by (simp add: restore_server_def Let_def was_online_def)
qed

text \<open>
  C36. A machine that goes down after the daemon has written its file of states, and comes up with its
  containers stopped and Docker working, gets back what it had: of the saved servers, those that
  were starting or running are starting, and the others are offline.
\<close>

theorem reboot_restores:
  assumes "distinct (map mg_id ms)" "s \<in> set ms" "pw_save (mg_power s)"
    "t \<in> set ms'" "mg_id t = mg_id s" "distinct (map mg_id ms')" "mg_power t = init_power True stop crash"
    "ba_dir (answers (mg_id s))" "ba_before (answers (mg_id s))" "ready_docker (ba_docker (answers (mg_id s)))"
  shows "map_option (pw_state \<circ> mg_power)
      (manager_get (mg_id s) (load_servers (persist_states True ms file) answers ms')) =
    Some (if was_online (pw_state (mg_power s)) then Starting else Offline)"
proof -
  have tracked: "mg_id s \<in> mg_id ` set ms'" using assms(4,5) by (metis imageI)
  obtain xs where xs: "read_states (persist_states True ms file) ms' = Some xs"
    "map_of xs (mg_id s) = Some (state_name (pw_state (mg_power s)))"
    using states_roundtrip [OF assms(1-3), where ms' = ms' and old = "file"] tracked by blast
  define f where "f = (\<lambda>s :: managed. let a = answers (mg_id s) in if \<not> ba_dir a then s
    else s\<lparr>mg_power := restore_server (map_of xs (mg_id s)) a (mg_power s)\<rparr>)"
  have f: "mg_id (f x) = mg_id x" for x by (simp add: f_def Let_def)
  have "List.find (\<lambda>x. mg_id x = mg_id s) (map f ms') = Some (f t)"
    using assms(4-6) f by (induction ms') (auto, metis imageI)
  moreover have "load_servers (persist_states True ms file) answers ms' = map f ms'"
    by (simp add: load_servers_def xs(1) f_def Let_def)
  ultimately have "manager_get (mg_id s) (load_servers (persist_states True ms file) answers ms') = Some (f t)"
    by (simp add: manager_get_def)
  moreover have "pw_state (mg_power (f t)) = (if was_online (pw_state (mg_power s)) then Starting else Offline)"
    using restore_offline [OF assms(10,9,7), of "Some (state_name (pw_state (mg_power s)))"] assms(5,8) xs(2)
    by (cases "pw_state (mg_power s)") (simp_all add: f_def Let_def state_name_def was_online_def)
  ultimately show ?thesis by simp
qed


section \<open>Concrete boots\<close>

definition example_managed :: "string \<Rightarrow> bool \<Rightarrow> pstate \<Rightarrow> managed" where
  "example_managed i save st = \<lparr>mg_id = i, mg_base = ''/srv/paper'',
     mg_power = (init_power save \<lparr>sc_type = ''signal'', sc_value = ''SIGTERM''\<rparr> False)\<lparr>pw_state := st\<rparr>\<rparr>"

definition example_answers :: "inspect \<Rightarrow> string \<Rightarrow> boot_answers" where
  "example_answers c i = \<lparr>ba_dir = True, ba_docker = example_docker\<lparr>dk_running := c\<rparr>, ba_before = True,
     ba_sync = Some \<lparr>sc_type = ''signal'', sc_value = ''SIGINT''\<rparr>, ba_found = None\<rparr>"

lemma boot_keeps_running_witness:
  "let s = hd (load_servers EmptyFile (example_answers (Inr (True, False))) [example_managed ''a'' True Offline])
   in pw_state (mg_power s) = Running \<and> pw_effects (mg_power s) = [LimitsUpdated]"
proof -
  let ?ms = "load_servers EmptyFile (example_answers (Inr (True, False))) [example_managed ''a'' True Offline]"
  have "hd ?ms \<in> set ?ms" by (simp add: load_servers_def)
  from boot_keeps_running [OF this] show ?thesis
    by (simp add: example_answers_def example_managed_def init_power_def undisturbed_def sync_effects_def load_servers_def Let_def)
qed

text \<open>A suspended server, whose deletion is under way, is stopped when it is synchronised.\<close>

lemma boot_stops_suspended:
  "Signalled ''SIGINT'' \<in> set (pw_effects (restore_server None (example_answers (Inr (True, False)) ''a'')
     ((init_power True \<lparr>sc_type = ''signal'', sc_value = ''SIGTERM''\<rparr> False)\<lparr>pw_suspended := True\<rparr>)))"
  by code_simp

lemma reboot_restores_witness:
  "map_option (pw_state \<circ> mg_power) (manager_get ''a'' (load_servers
     (persist_states True [example_managed ''a'' True Running, example_managed ''b'' True Stopping] EmptyFile)
     (example_answers (Inr (False, False)))
     [example_managed ''b'' True Offline, example_managed ''a'' True Offline])) = Some Starting"
proof -
  let ?s = "example_managed ''a'' True Running"
  have "map_option (pw_state \<circ> mg_power) (manager_get (mg_id ?s) (load_servers
     (persist_states True [?s, example_managed ''b'' True Stopping] EmptyFile)
     (example_answers (Inr (False, False)))
     [example_managed ''b'' True Offline, example_managed ''a'' True Offline])) =
    Some (if was_online (pw_state (mg_power ?s)) then Starting else Offline)"
    by (rule reboot_restores [where t = "example_managed ''a'' True Offline" and crash = False
          and stop = "\<lparr>sc_type = ''signal'', sc_value = ''SIGTERM''\<rparr>"])
      (simp_all add: example_managed_def init_power_def example_answers_def ready_docker_def example_docker_def)
  then show ?thesis by (simp add: example_managed_def init_power_def was_online_def)
qed

lemma boot_deletes_running_server:
  "DeleteServer \<in> set (pw_effects (mg_power (hd (load_servers EmptyFile (example_answers (Inl DockerFailed))
     [example_managed ''a'' False Offline]))))"
  by (simp add: load_servers_def example_managed_def init_power_def example_answers_def Let_def boot_deletes_unreachable)

end
