(* ===== verification/Install_Run.thy ===== *)
theory Install_Run
  imports Daemon_Power Go_Path
begin

text \<open>
  Installing a server on the daemon: the phases an installation reports
  (\<^verbatim>\<open>daemon/server/install_state.go\<close>), the installation container (\<^verbatim>\<open>install.go\<close>) and the warm-up
  that may follow it (\<^verbatim>\<open>warmup.go\<close>). What Docker answers to each call is an argument; a container is
  known by its name, and one the daemon has made is there until Docker confirms that it is gone.
\<close>

section \<open>The state an installation reports\<close>

datatype phase = Idle | Installing | Warming | PostWarmup | InstallFailed | WarmupFailed | PostWarmupFailed | Completed

datatype install_error =
    LockFailed | ScriptFailed | ClientFailed | WriteFailed | PullFailed | RemoveFailed docker_error | NoImage
  | ChownFailed | CreateFailed | StartFailed | WaitFailed | HelperExit int | InstallExit int | PostWarmupExit int
  | SignalExit int | LogsFailed

record install_info =
  is_phase :: phase
  is_container :: string
  is_container_name :: string
  is_status :: string
  is_exit_code :: "int option"
  is_started :: "nat option"
  is_finished :: "nat option"
  is_failure :: "install_error option"
  is_log_path :: string

definition new_install_info :: install_info where
  "new_install_info = \<lparr>is_phase = Idle, is_container = [], is_container_name = [], is_status = [],
     is_exit_code = None, is_started = None, is_finished = None, is_failure = None, is_log_path = []\<rparr>"

text \<open>
  The configuration a container of an installation is created with, as far as it differs between them:
  a mount is its source, its target and whether it is read-only.
\<close>

record container_spec =
  cs_hostname :: string
  cs_user :: string
  cs_workdir :: string
  cs_image :: string
  cs_entrypoint :: "string list"
  cs_cmd :: "string list"
  cs_env :: "string list"
  cs_type :: string
  cs_mounts :: "(string \<times> string \<times> bool) list"

datatype install_effect =
    Created string container_spec
  | Started string
  | CommandSent string
  | KillSent string
  | StopSent string
  | NotifiedInstall bool bool
  | PublishedStart
  | PublishedDone

record installer =
  in_id :: string
  in_image :: string
  in_base :: string
  in_logs :: string
  in_temp :: string
  in_user :: string
  in_variables :: "string list"
  in_mounts :: "(string \<times> string \<times> bool) list"
  in_stop :: stop_configuration
  in_skip :: bool
  in_lock :: locker
  in_env :: pstate
  in_clock :: nat
  in_info :: install_info
  in_containers :: "string list"
  in_effects :: "install_effect list"

type_synonym install_op = "installer \<Rightarrow> install_error option \<times> installer"

definition in_emit :: "install_effect \<Rightarrow> installer \<Rightarrow> installer" where
  "in_emit x s = s\<lparr>in_effects := in_effects s @ [x]\<rparr>"

text \<open>The clock advances with every reading of the time.\<close>

definition start_phase :: "phase \<Rightarrow> string \<Rightarrow> string \<Rightarrow> installer \<Rightarrow> installer" where
  "start_phase ph cname path s = s\<lparr>in_clock := Suc (in_clock s), in_info :=
     \<lparr>is_phase = ph, is_container = [], is_container_name = cname, is_status = [], is_exit_code = None,
      is_started = Some (in_clock s), is_finished = None, is_failure = None, is_log_path = path\<rparr>\<rparr>"

definition set_container :: "string \<Rightarrow> installer \<Rightarrow> installer" where
  "set_container c s = s\<lparr>in_info := (in_info s)\<lparr>is_container := c, is_status := ''created''\<rparr>\<rparr>"

definition set_status :: "string \<Rightarrow> installer \<Rightarrow> installer" where
  "set_status st s = s\<lparr>in_info := (in_info s)\<lparr>is_status := st\<rparr>\<rparr>"

definition set_exit_code :: "int \<Rightarrow> installer \<Rightarrow> installer" where
  "set_exit_code c s = s\<lparr>in_info := (in_info s)\<lparr>is_exit_code := Some c\<rparr>\<rparr>"

definition finish_phase :: "phase \<Rightarrow> install_error option \<Rightarrow> installer \<Rightarrow> installer" where
  "finish_phase ph reason s = s\<lparr>in_clock := Suc (in_clock s), in_info := (in_info s)
     \<lparr>is_phase := ph, is_finished := Some (in_clock s), is_failure := reason,
      is_exit_code := (if ph = Completed \<and> is_exit_code (in_info s) = None then Some 0 else is_exit_code (in_info s))\<rparr>\<rparr>"

section \<open>The log of a folder\<close>

definition is_alnum :: "char \<Rightarrow> bool" where
  "is_alnum c \<longleftrightarrow> (let n = char_code c in (97 \<le> n \<and> n \<le> 122) \<or> (65 \<le> n \<and> n \<le> 90) \<or> (48 \<le> n \<and> n \<le> 57))"

definition trim_char :: "char \<Rightarrow> string \<Rightarrow> string" where
  "trim_char c s = rev (dropWhile (\<lambda>x. x = c) (rev (dropWhile (\<lambda>x. x = c) s)))"

definition sanitize_install_log_key :: "string \<Rightarrow> string" where
  "sanitize_install_log_key path =
     (if path = [] then ''unknown''
      else let p = trim_char CHR ''/'' (path_clean path)
           in if p = [] then ''root''
              else let key = trim_char CHR ''-''
                     (List.map (\<lambda>r. if is_alnum r \<or> r \<in> set ''-_.'' then r else CHR ''-'') p)
                   in if key = [] then ''unknown'' else key)"

definition install_log_directory :: "string \<Rightarrow> string" where
  "install_log_directory logs = path_join [logs, ''install'']"

definition install_log_disk_path :: "string \<Rightarrow> string \<Rightarrow> string \<Rightarrow> string" where
  "install_log_disk_path logs path suf =
     path_join [install_log_directory logs, sanitize_install_log_key path @ suf @ ''.log'']"

section \<open>Containers\<close>

definition remove_container :: "string \<Rightarrow> docker_call \<Rightarrow> install_op" where
  "remove_container cname answer s =
     (if answer = None \<or> answer = Some DockerNotFound
      then (None, s\<lparr>in_containers := filter (\<lambda>c. c \<noteq> cname) (in_containers s)\<rparr>)
      else (map_option RemoveFailed answer, s))"

definition create_container :: "string \<Rightarrow> container_spec \<Rightarrow> bool \<Rightarrow> install_op" where
  "create_container cname spec made s =
     (if made then (None, in_emit (Created cname spec) (s\<lparr>in_containers := cname # in_containers s\<rparr>))
      else (Some CreateFailed, s))"

definition start_container :: "string \<Rightarrow> bool \<Rightarrow> install_op" where
  "start_container cname started s = (if started then (None, in_emit (Started cname) s) else (Some StartFailed, s))"

text \<open>The image without the mark of a local one.\<close>

definition plain_image :: "string \<Rightarrow> string" where
  "plain_image img = trim_prefix img ''~''"

text \<open>
  The container that changes the owner of the folder: the answers are those of \<^verbatim>\<open>chown\<close>, the removal
  of a container of that name, the creation, the start, the wait (an exit code, or an error) and the
  removal at the end, whose outcome is ignored.
\<close>

record helper_answers =
  ha_chown :: bool
  ha_remove :: docker_call
  ha_create :: bool
  ha_start :: bool
  ha_wait :: "int option"
  ha_cleanup :: docker_call

definition helper_exit :: "int option \<Rightarrow> install_error option" where
  "helper_exit w = (case w of None \<Rightarrow> Some WaitFailed | Some code \<Rightarrow> (if code \<noteq> 0 then Some (HelperExit code) else None))"

definition helper_spec :: "installer \<Rightarrow> container_spec" where
  "helper_spec s = \<lparr>cs_hostname = in_id s @ ''_permissions'', cs_user = ''0:0'', cs_workdir = [],
     cs_image = plain_image (in_image s), cs_entrypoint = [''/bin/sh''],
     cs_cmd = [''-lc'', ''chown -R '' @ in_user s @ '' /home/container && chmod -R u+rwX /home/container''],
     cs_env = [], cs_type = ''server_lifecycle_permissions'', cs_mounts = [(in_base s, ''/home/container'', False)]\<rparr>"

definition prepare_path_writable :: "helper_answers \<Rightarrow> install_op" where
  "prepare_path_writable h s =
     (let cname = in_id s @ ''_permissions''
      in if \<not> ha_chown h then (Some ChownFailed, s)
         else case remove_container cname (ha_remove h) s of
           (Some e, s) \<Rightarrow> (Some e, s)
         | (None, s) \<Rightarrow> (case create_container cname (helper_spec s) (ha_create h) s of
             (Some e, s) \<Rightarrow> (Some e, s)
           | (None, s) \<Rightarrow>
               (let cleanup = (\<lambda>s. snd (remove_container cname (ha_cleanup h) s))
                in case start_container cname (ha_start h) s of
                     (Some e, s) \<Rightarrow> (Some e, cleanup s)
                   | (None, s) \<Rightarrow> (helper_exit (ha_wait h), cleanup s))))"

definition lifecycle_mounts :: "installer \<Rightarrow> (string \<times> string \<times> bool) list" where
  "lifecycle_mounts s = (in_base s, ''/home/container'', False) # in_mounts s"

definition lifecycle_spec :: "string \<Rightarrow> string \<Rightarrow> string list \<Rightarrow> installer \<Rightarrow> container_spec" where
  "lifecycle_spec cname ctype cmd s = \<lparr>cs_hostname = cname, cs_user = in_user s, cs_workdir = ''/home/container'',
     cs_image = plain_image (in_image s), cs_entrypoint = take 1 cmd, cs_cmd = drop 1 cmd,
     cs_env = in_variables s, cs_type = ctype, cs_mounts = lifecycle_mounts s\<rparr>"

definition create_lifecycle_container :: "helper_answers \<Rightarrow> string \<Rightarrow> string \<Rightarrow> string list \<Rightarrow> bool \<Rightarrow> install_op" where
  "create_lifecycle_container h cname ctype cmd made s =
     (if in_image s = [] then (Some NoImage, s)
      else case prepare_path_writable h s of
        (Some e, s) \<Rightarrow> (Some e, s)
      | (None, s) \<Rightarrow> create_container cname (lifecycle_spec cname ctype cmd s) made s)"

section \<open>Warming up\<close>

text \<open>What ends the wait for the line that marks the server as started.\<close>

datatype signal_wait = Matched | ExitedBefore int | SignalError

record warmup_answers =
  wa_remove :: docker_call
  wa_helper :: helper_answers
  wa_create :: bool
  wa_start :: bool
  wa_logs :: bool
  wa_signal :: signal_wait
  wa_send :: bool
  wa_kill :: bool
  wa_exits :: bool
  wa_stop :: docker_call
  wa_cleanup :: docker_call

definition wait_for_warmup_signal :: "warmup_answers \<Rightarrow> install_error option" where
  "wait_for_warmup_signal a =
     (if \<not> wa_logs a then Some LogsFailed
      else case wa_signal a of Matched \<Rightarrow> None | ExitedBefore code \<Rightarrow> Some (SignalExit code) | SignalError \<Rightarrow> Some WaitFailed)"

text \<open>
  \<^verbatim>\<open>stopWarmupContainer\<close>: the stop command or signal, which must end the container in thirty seconds,
  and otherwise Docker's stop. Its own result is ignored.
\<close>

definition stop_warmup_container :: "string \<Rightarrow> warmup_answers \<Rightarrow> installer \<Rightarrow> installer" where
  "stop_warmup_container cname a s =
     (let t = sc_type (in_stop s); v = sc_value (in_stop s)
      in if t = ''command'' \<and> trim_space v \<noteq> [] \<and> wa_send a \<and> wa_exits a then in_emit (CommandSent v) s
         else if t = ''signal'' \<and> trim_space v \<noteq> [] \<and> wa_kill a \<and> wa_exits a then in_emit (KillSent (to_upper v)) s
         else in_emit (StopSent cname)
           (if t = ''command'' \<and> trim_space v \<noteq> [] \<and> wa_send a then in_emit (CommandSent v) s
            else if t = ''signal'' \<and> trim_space v \<noteq> [] \<and> wa_kill a then in_emit (KillSent (to_upper v)) s else s))"

definition run_warmup_attempt :: "warmup_answers \<Rightarrow> install_op" where
  "run_warmup_attempt a s0 =
     (let cname = in_id s0 @ ''_warmup'';
          s1 = start_phase Warming cname (install_log_disk_path (in_logs s0) (in_base s0) ''-warmup'') s0
      in case remove_container cname (wa_remove a) s1 of
        (Some e, s) \<Rightarrow> (Some e, s)
      | (None, s) \<Rightarrow> (case create_lifecycle_container (wa_helper a) cname ''server_warmup'' [] (wa_create a) s of
          (Some e, s) \<Rightarrow> (Some e, s)
        | (None, s) \<Rightarrow> (case start_container cname (wa_start a) (set_container cname s) of
            (Some e, s) \<Rightarrow> (Some e, s)
          | (None, s) \<Rightarrow>
              (let s = set_status ''running'' s; cleanup = (\<lambda>s. snd (remove_container cname (wa_cleanup a) s))
               in case wait_for_warmup_signal a of
                    Some e \<Rightarrow> (Some e, cleanup s)
                  | None \<Rightarrow> (None, set_exit_code 0 (set_status ''exited'' (cleanup (stop_warmup_container cname a s))))))))"

record install_script =
  sp_entrypoint :: string
  sp_warmup :: bool
  sp_warmup_timeout :: int
  sp_warmup_retries :: int
  sp_post_script :: string
  sp_post_timeout :: int
  sp_policy :: string

record post_answers =
  po_remove :: docker_call
  po_helper :: helper_answers
  po_create :: bool
  po_start :: bool
  po_wait :: "int option"
  po_cleanup :: docker_call

definition run_post_warmup :: "install_script \<Rightarrow> post_answers \<Rightarrow> install_op" where
  "run_post_warmup sp a s0 =
     (let cname = in_id s0 @ ''_post_warmup'';
          s1 = start_phase PostWarmup cname (install_log_disk_path (in_logs s0) (in_base s0) ''-post-warmup'') s0
      in case remove_container cname (po_remove a) s1 of
        (Some e, s) \<Rightarrow> (Some e, s)
      | (None, s) \<Rightarrow> (case create_lifecycle_container (po_helper a) cname ''server_post_warmup'' [''/bin/sh'', ''-lc'', sp_post_script sp] (po_create a) s of
          (Some e, s) \<Rightarrow> (Some e, s)
        | (None, s) \<Rightarrow> (case start_container cname (po_start a) (set_container cname s) of
            (Some e, s) \<Rightarrow> (Some e, s)
          | (None, s) \<Rightarrow> (case po_wait a of
              None \<Rightarrow> (Some WaitFailed, snd (remove_container cname (po_cleanup a) (set_status ''running'' s)))
            | Some code \<Rightarrow> (if code \<noteq> 0 then Some (PostWarmupExit code) else None,
                snd (remove_container cname (po_cleanup a) (set_status ''exited'' (set_exit_code code (set_status ''running'' s)))))))))"

section \<open>The policy of the warm-up\<close>

definition apply_warmup_defaults :: "install_script \<Rightarrow> install_script" where
  "apply_warmup_defaults sp = sp
     \<lparr>sp_warmup_timeout := (if sp_warmup_timeout sp \<le> 0 then 300 else sp_warmup_timeout sp),
      sp_post_timeout := (if sp_post_timeout sp \<le> 0 then 120 else sp_post_timeout sp),
      sp_policy := (if trim_space (sp_policy sp) = [] then ''fail'' else sp_policy sp)\<rparr>"

definition warmup_attempts :: "install_script \<Rightarrow> int" where
  "warmup_attempts sp = (let sp = apply_warmup_defaults sp in
     if sp_policy sp \<noteq> ''retry'' then 1 else wrap64 (1 + sp_warmup_retries sp))"

text \<open>The attempts left, the number of the next one, and the error of the last one.\<close>

fun warmup_loop :: "nat \<Rightarrow> nat \<Rightarrow> (nat \<Rightarrow> warmup_answers) \<Rightarrow> install_error option \<Rightarrow> install_op" where
  "warmup_loop 0 k answers lastErr s = (lastErr, s)"
| "warmup_loop (Suc n) k answers lastErr s =
     (case run_warmup_attempt (answers k) s of
        (Some e, s) \<Rightarrow> warmup_loop n (Suc k) answers (Some e) s
      | (None, s) \<Rightarrow> (None, s))"

definition finish_warmup :: "install_script \<Rightarrow> post_answers \<Rightarrow> install_op" where
  "finish_warmup sp post s =
     (if trim_space (sp_post_script sp) = [] then (None, s)
      else case run_post_warmup sp post s of
        (None, s) \<Rightarrow> (None, s)
      | (Some e, s) \<Rightarrow> (if sp_policy sp = ''continue'' then None else Some e, finish_phase PostWarmupFailed (Some e) s))"

definition run_warmup :: "install_script \<Rightarrow> (nat \<Rightarrow> warmup_answers) \<Rightarrow> post_answers \<Rightarrow> install_op" where
  "run_warmup script answers post s =
     (let sp = apply_warmup_defaults script
      in if \<not> sp_warmup sp then (None, s)
         else case warmup_loop (nat (warmup_attempts sp)) 1 answers None s of
           (None, s) \<Rightarrow> finish_warmup sp post s
         | (Some e, s) \<Rightarrow>
             (let s = finish_phase WarmupFailed (Some e) s
              in if sp_policy sp = ''continue'' then finish_warmup sp post s else (Some e, s)))"


section \<open>The installation container\<close>

datatype wait_exit = WaitExitError | WaitExitNil | WaitExitCode int

text \<open>
  The answers to an installation: the script of Protocube, the Docker client, the temporary files, the
  inspection and the pull of the image, and those of the container.
\<close>

record install_answers =
  ia_script :: "install_script option"
  ia_client :: bool
  ia_temp :: bool
  ia_policy :: string
  ia_inspect :: docker_call
  ia_local :: "bool option"
  ia_pull :: bool
  ia_remove :: docker_call
  ia_helper :: helper_answers
  ia_create :: bool
  ia_start :: bool
  ia_wait :: wait_exit
  ia_cleanup :: docker_call

text \<open>Whether the image is pulled, and the error; only the scheduled policy also registers the image.\<close>

definition pull_installation_image :: "install_answers \<Rightarrow> string \<Rightarrow> bool \<times> install_error option" where
  "pull_installation_image a img =
     (let pull = (True, if ia_pull a then None else Some PullFailed)
      in if img = [] then (False, Some NoImage)
         else if has_prefix img ''~'' then (False, None)
         else if ia_policy a = ''Never'' then (False, if ia_inspect a = None then None else Some PullFailed)
         else if ia_policy a = ''IfNotPresent'' \<or> ia_policy a = ''Schedule'' then
           (case ia_local a of None \<Rightarrow> (False, Some PullFailed) | Some True \<Rightarrow> (False, None) | Some False \<Rightarrow> pull)
         else pull)"

definition before_execute :: "install_answers \<Rightarrow> install_op" where
  "before_execute a s =
     (if \<not> ia_temp a then (Some WriteFailed, s)
      else case pull_installation_image a (in_image s) of
        (_, Some e) \<Rightarrow> (Some e, s)
      | (_, None) \<Rightarrow> remove_container (in_id s @ ''_installer'') (ia_remove a) s)"

definition install_entrypoint :: "install_script \<Rightarrow> string list" where
  "install_entrypoint sp = (let ep = trim_space (sp_entrypoint sp) in
     if ep = ''bash'' \<or> ep = ''/bin/bash'' then [''/bin/bash'']
     else if ep = ''sh'' \<or> ep = ''/bin/sh'' then [''/bin/sh''] else [ep])"

definition install_spec :: "install_script \<Rightarrow> installer \<Rightarrow> container_spec" where
  "install_spec sp s = \<lparr>cs_hostname = ''installer'', cs_user = in_user s, cs_workdir = [], cs_image = in_image s,
     cs_entrypoint = install_entrypoint sp, cs_cmd = [''/mnt/install/install.sh''], cs_env = in_variables s,
     cs_type = ''server_installer'',
     cs_mounts = [(in_base s, ''/home/container'', False), (in_temp s, ''/mnt/install'', False)]\<rparr>"

definition execute_install :: "install_script \<Rightarrow> install_answers \<Rightarrow> install_op" where
  "execute_install sp a s0 =
     (let cname = in_id s0 @ ''_installer''
      in if in_image s0 = [] then (Some NoImage, s0)
         else case prepare_path_writable (ia_helper a) s0 of
           (Some e, s) \<Rightarrow> (Some e, s)
         | (None, s) \<Rightarrow> (case create_container cname (install_spec sp s) (ia_create a) s of
             (Some e, s) \<Rightarrow> (Some e, s)
           | (None, s) \<Rightarrow> (case start_container cname (ia_start a) (set_container cname s) of
               (Some e, s) \<Rightarrow> (Some e, s)
             | (None, s) \<Rightarrow> (let s = set_status ''running'' s in case ia_wait a of
                 WaitExitError \<Rightarrow> (Some WaitFailed, s)
               | WaitExitNil \<Rightarrow> (None, set_status ''exited'' s)
               | WaitExitCode code \<Rightarrow>
                   (if code \<noteq> 0 then Some (InstallExit code) else None,
                    set_status ''exited'' (set_exit_code code s))))))"

text \<open>The container is removed in either case; the outcome of \<^verbatim>\<open>AfterExecute\<close> is only logged.\<close>

definition run_install :: "install_script \<Rightarrow> install_answers \<Rightarrow> install_op" where
  "run_install sp a s = (case before_execute a s of
     (Some e, s) \<Rightarrow> (Some e, s)
   | (None, s) \<Rightarrow> (case execute_install sp a s of
       (r, s) \<Rightarrow> (r, snd (remove_container (in_id s @ ''_installer'') (ia_cleanup a) s))))"

definition internal_install :: "install_answers \<Rightarrow> (nat \<Rightarrow> warmup_answers) \<Rightarrow> post_answers \<Rightarrow> install_op" where
  "internal_install a wa post s = (case ia_script a of
     None \<Rightarrow> (Some ScriptFailed, s)
   | Some sp \<Rightarrow> (if \<not> ia_client a then (Some ClientFailed, s)
       else case run_install sp a s of
         (Some e, s) \<Rightarrow> (Some e, s)
       | (None, s) \<Rightarrow> run_warmup sp wa post s))"

definition run_or_skip :: "install_answers \<Rightarrow> (nat \<Rightarrow> warmup_answers) \<Rightarrow> post_answers \<Rightarrow> install_op" where
  "run_or_skip a wa post s =
     (if in_skip s then (None, finish_phase Completed None s)
      else internal_install a wa post (in_emit PublishedStart
        (start_phase Installing (in_id s @ ''_installer'') (install_log_disk_path (in_logs s) (in_base s) []) s)))"

definition record_outcome :: "install_error option \<Rightarrow> installer \<Rightarrow> installer" where
  "record_outcome r s = (case r of
     None \<Rightarrow> finish_phase Completed None s
   | Some e \<Rightarrow> (if is_phase (in_info s) = WarmupFailed \<or> is_phase (in_info s) = PostWarmupFailed then s
       else finish_phase InstallFailed (Some e) s))"

definition install :: "bool \<Rightarrow> install_answers \<Rightarrow> (nat \<Rightarrow> warmup_answers) \<Rightarrow> post_answers \<Rightarrow> install_op" where
  "install reinstall a wa post s = (case locker_acquire (in_lock s) of (got, l) \<Rightarrow>
     if \<not> got then (Some LockFailed, s)
     else case run_or_skip a wa post (s\<lparr>in_lock := l\<rparr>) of
       (r, s) \<Rightarrow>
         (let s = in_emit (NotifiedInstall (r = None) reinstall) (record_outcome r s);
              s = in_emit PublishedDone (s\<lparr>in_env := Offline\<rparr>)
          in (r, s\<lparr>in_lock := locker_release (in_lock s)\<rparr>)))"


section \<open>What every step leaves alone\<close>

fun notified :: "install_effect list \<Rightarrow> (bool \<times> bool) list" where
  "notified [] = []"
| "notified (NotifiedInstall ok re # xs) = (ok, re) # notified xs"
| "notified (_ # xs) = notified xs"

lemma notified_append [simp]: "notified (xs @ ys) = notified xs @ notified ys"
  by (induction xs rule: notified.induct) auto

definition keeps :: "installer \<Rightarrow> installer \<Rightarrow> bool" where
  "keeps s t \<longleftrightarrow> in_id t = in_id s \<and> in_image t = in_image s \<and> in_base t = in_base s \<and> in_skip t = in_skip s \<and>
     in_logs t = in_logs s \<and> in_stop t = in_stop s \<and>
     in_lock t = in_lock s \<and> in_env t = in_env s \<and> notified (in_effects t) = notified (in_effects s)"

named_theorems keeps_intros \<open>operations that leave the server, its lock and its notifications alone\<close>

lemma keeps_refl [keeps_intros]: "keeps s s"
  by (simp add: keeps_def)

lemma keeps_record [keeps_intros]:
  "keeps s t \<Longrightarrow> keeps s (start_phase ph c l t)" "keeps s t \<Longrightarrow> keeps s (set_container c t)"
  "keeps s t \<Longrightarrow> keeps s (set_status st t)" "keeps s t \<Longrightarrow> keeps s (set_exit_code code t)"
  "keeps s t \<Longrightarrow> keeps s (finish_phase ph r t)" "keeps s t \<Longrightarrow> keeps s (in_emit (Created c img) t)"
  "keeps s t \<Longrightarrow> keeps s (in_emit (Started c) t)" "keeps s t \<Longrightarrow> keeps s (in_emit PublishedStart t)"
  "keeps s t \<Longrightarrow> keeps s (stop_warmup_container c a t)"
  by (auto simp: keeps_def start_phase_def set_container_def set_status_def set_exit_code_def finish_phase_def in_emit_def
      stop_warmup_container_def Let_def)

lemma keeps_containers [keeps_intros]:
  "keeps s t \<Longrightarrow> keeps s (snd (remove_container c a t))" "keeps s t \<Longrightarrow> keeps s (snd (create_container c img b t))"
  "keeps s t \<Longrightarrow> keeps s (snd (start_container c b t))"
  by (auto simp: keeps_def remove_container_def create_container_def start_container_def in_emit_def)

text \<open>A predicate of the state is followed through the branches of an operation.\<close>

lemma branch_rules:
  "P (snd r) \<Longrightarrow> (\<And>e t. P t \<Longrightarrow> P (snd (f e t))) \<Longrightarrow> P (snd (case r of (e, t) \<Rightarrow> f e t))"
  "P (snd a) \<Longrightarrow> (\<And>e. P (snd (b e))) \<Longrightarrow> P (snd (case x of None \<Rightarrow> a | Some e \<Rightarrow> b e))"
  "P (snd a) \<Longrightarrow> P (snd c) \<Longrightarrow> P (snd (if q then a else c))"
  "P t \<Longrightarrow> P (snd (e, t))"
  "P (snd a) \<Longrightarrow> P (snd c) \<Longrightarrow> (\<And>k. P (snd (g k))) \<Longrightarrow>
     P (snd (case w of WaitExitError \<Rightarrow> a | WaitExitNil \<Rightarrow> c | WaitExitCode k \<Rightarrow> g k))"
  by (auto split: prod.split option.split wait_exit.split)

lemma branch_pure: "(\<And>a b. P (snd (f a b))) \<Longrightarrow> P (snd (case r of (a, b) \<Rightarrow> f a b))"
  by (simp split: prod.split)

lemmas keeps_branches = branch_rules [where P = "keeps s" for s]

lemma keeps_prepare [keeps_intros]: "keeps s t \<Longrightarrow> keeps s (snd (prepare_path_writable h t))"
  unfolding prepare_path_writable_def Let_def by (intro keeps_branches keeps_intros)

lemma keeps_lifecycle [keeps_intros]: "keeps s t \<Longrightarrow> keeps s (snd (create_lifecycle_container h c ct cm b t))"
  unfolding create_lifecycle_container_def by (intro keeps_branches keeps_intros)

lemma keeps_attempt [keeps_intros]: "keeps s t \<Longrightarrow> keeps s (snd (run_warmup_attempt a t))"
  unfolding run_warmup_attempt_def Let_def by (intro keeps_branches keeps_intros)

lemma keeps_loop [keeps_intros]: "keeps s t \<Longrightarrow> keeps s (snd (warmup_loop n k answers r t))"
proof (induction n arbitrary: k r t)
  case (Suc n)
  show ?case unfolding warmup_loop.simps by (intro keeps_branches keeps_intros Suc.IH Suc.prems)
qed simp

lemma keeps_post [keeps_intros]: "keeps s t \<Longrightarrow> keeps s (snd (run_post_warmup sp a t))"
  unfolding run_post_warmup_def Let_def by (intro keeps_branches keeps_intros)

lemma keeps_finish_warmup [keeps_intros]: "keeps s t \<Longrightarrow> keeps s (snd (finish_warmup sp post t))"
  unfolding finish_warmup_def by (intro keeps_branches keeps_intros)

lemma keeps_warmup [keeps_intros]: "keeps s t \<Longrightarrow> keeps s (snd (run_warmup sp wa post t))"
  unfolding run_warmup_def Let_def by (intro keeps_branches keeps_intros)

lemma keeps_run [keeps_intros]: "keeps s t \<Longrightarrow> keeps s (snd (run_install sp a t))"
proof -
  assume t: "keeps s t"
  have "keeps s (snd (before_execute a t))"
    unfolding before_execute_def by (intro keeps_branches(2-4) branch_pure [where P = "keeps s"] keeps_intros t)
  moreover have "keeps s (snd (execute_install sp a q))" if "keeps s q" for q
    unfolding execute_install_def Let_def
    by (intro keeps_branches keeps_intros that)
  ultimately show ?thesis unfolding run_install_def by (intro keeps_branches keeps_intros)
qed

lemma keeps_internal [keeps_intros]: "keeps s t \<Longrightarrow> keeps s (snd (internal_install a wa post t))"
  unfolding internal_install_def by (intro keeps_branches keeps_intros)

lemma keeps_run_or_skip [keeps_intros]: "keeps s t \<Longrightarrow> keeps s (snd (run_or_skip a wa post t))"
  unfolding run_or_skip_def by (intro keeps_branches keeps_intros)

section \<open>Phases\<close>

text \<open>Until an error is recorded as one of the warm-up, the phase is the one of the installation.\<close>

definition in_phase :: "phase \<Rightarrow> installer \<Rightarrow> bool" where
  "in_phase ph s \<longleftrightarrow> is_phase (in_info s) = ph"

lemma in_phase_intros:
  "in_phase ph t \<Longrightarrow> in_phase ph (set_container c t)" "in_phase ph t \<Longrightarrow> in_phase ph (set_status st t)"
  "in_phase ph t \<Longrightarrow> in_phase ph (set_exit_code code t)" "in_phase ph t \<Longrightarrow> in_phase ph (in_emit x t)"
  "in_phase ph t \<Longrightarrow> in_phase ph (snd (remove_container c a t))"
  "in_phase ph t \<Longrightarrow> in_phase ph (snd (create_container c img b t))"
  "in_phase ph t \<Longrightarrow> in_phase ph (snd (start_container c b t))"
  by (auto simp: in_phase_def set_container_def set_status_def set_exit_code_def in_emit_def remove_container_def
      create_container_def start_container_def)

lemma in_phase_run: "in_phase ph t \<Longrightarrow> in_phase ph (snd (run_install sp a t))"
proof -
  assume t: "in_phase ph t"
  note rules = branch_rules [where P = "in_phase ph"] in_phase_intros
  have prep: "in_phase ph (snd (prepare_path_writable h q))" if "in_phase ph q" for h q
    unfolding prepare_path_writable_def Let_def by (intro rules that)
  have "in_phase ph (snd (before_execute a t))" unfolding before_execute_def
    by (intro rules(2-) branch_pure [where P = "in_phase ph"] t)
  moreover have "in_phase ph (snd (execute_install sp a q))" if "in_phase ph q" for q
    unfolding execute_install_def Let_def
    by (intro rules prep that)
  ultimately show ?thesis unfolding run_install_def by (intro rules)
qed

lemma finish_warmup_error:
  assumes "finish_warmup sp post s = (Some e, t)"
  shows "is_phase (in_info t) = PostWarmupFailed" "is_failure (in_info t) = Some e"
  using assms by (auto simp: finish_warmup_def finish_phase_def split: if_splits prod.splits option.splits)

lemma run_warmup_error:
  assumes "run_warmup sp wa post s = (Some e, t)"
  shows "is_phase (in_info t) \<in> {WarmupFailed, PostWarmupFailed} \<and> is_failure (in_info t) = Some e"
proof -
  obtain r u where l: "warmup_loop (nat (warmup_attempts (apply_warmup_defaults sp))) (Suc 0) wa None s = (r, u)" by fastforce
  show ?thesis
    using assms finish_warmup_error [of "apply_warmup_defaults sp" post _ e t]
    by (auto simp: run_warmup_def Let_def l finish_phase_def split: if_splits option.splits)
qed


lemma run_or_skip_error:
  assumes "run_or_skip a wa post s = (Some e, t)"
  shows "is_phase (in_info t) = Installing \<or>
    (is_phase (in_info t) \<in> {WarmupFailed, PostWarmupFailed} \<and> is_failure (in_info t) = Some e)"
proof -
  define q where "q = in_emit PublishedStart
    (start_phase Installing (in_id s @ ''_installer'') (install_log_disk_path (in_logs s) (in_base s) []) s)"
  have q: "in_phase Installing q" by (simp add: q_def in_phase_def in_emit_def start_phase_def)
  have int: "internal_install a wa post q = (Some e, t)" using assms by (simp add: run_or_skip_def q_def split: if_splits)
  show ?thesis
  proof (cases "ia_script a")
    case (Some sp)
    obtain r u where run: "run_install sp a q = (r, u)" by fastforce
    have "in_phase Installing u" using in_phase_run [OF q, of sp a] run by simp
    then show ?thesis using int q run_warmup_error [of sp wa post u e t]
      by (auto simp: internal_install_def Some run in_phase_def split: option.splits if_splits)
  qed (use int q in \<open>simp add: internal_install_def in_phase_def\<close>)
qed

text \<open>
  C11. An installation that gets its lock ends, however Docker and the scripts behave, with the lock free
  again, the server offline, and Protocube told the outcome exactly once; the phase it reports is
  completed when it succeeded, and otherwise a failed one with the error as its reason.
\<close>

theorem install_outcome:
  assumes "in_lock s = Some False" "install reinstall a wa post s = (r, t)"
  shows "in_lock t = Some False \<and> in_env t = Offline \<and>
    notified (in_effects t) = notified (in_effects s) @ [(r = None, reinstall)] \<and>
    (if r = None then is_phase (in_info t) = Completed \<and> is_failure (in_info t) = None
     else is_phase (in_info t) \<in> {InstallFailed, WarmupFailed, PostWarmupFailed} \<and> is_failure (in_info t) = r)"
proof -
  obtain r' u where run: "run_or_skip a wa post (s\<lparr>in_lock := Some True\<rparr>) = (r', u)" by fastforce
  have u: "in_lock u = Some True" "notified (in_effects u) = notified (in_effects s)"
    using keeps_run_or_skip [OF keeps_refl [of "s\<lparr>in_lock := Some True\<rparr>"], where a = a and wa = wa and post = post] run
    by (auto simp: keeps_def)
  define v where "v = record_outcome r' u"
  have v: "in_lock v = Some True" "notified (in_effects v) = notified (in_effects s)"
    using u by (auto simp: v_def record_outcome_def finish_phase_def split: option.split)
  have phase: "if r' = None then is_phase (in_info v) = Completed \<and> is_failure (in_info v) = None
     else is_phase (in_info v) \<in> {InstallFailed, WarmupFailed, PostWarmupFailed} \<and> is_failure (in_info v) = r'"
  proof (cases r')
    case (Some e)
    then show ?thesis using run_or_skip_error [OF run [unfolded Some]] by (auto simp: v_def record_outcome_def finish_phase_def)
  qed (simp add: v_def record_outcome_def finish_phase_def)
  have "r = r'" and t: "t = (let s = in_emit PublishedDone ((in_emit (NotifiedInstall (r' = None) reinstall) v)\<lparr>in_env := Offline\<rparr>)
      in s\<lparr>in_lock := locker_release (in_lock s)\<rparr>)"
    using assms run by (auto simp: install_def locker_acquire_def v_def Let_def)
  then show ?thesis using v phase by (cases r') (simp_all add: in_emit_def locker_release_def)
qed

section \<open>No container stays behind\<close>

definition ok_call :: "docker_call \<Rightarrow> bool" where
  "ok_call c \<longleftrightarrow> c = None \<or> c = Some DockerNotFound"

definition held :: "string set \<Rightarrow> installer \<Rightarrow> bool" where
  "held C s \<longleftrightarrow> set (in_containers s) \<subseteq> C"

lemma held_intros:
  "held C t \<Longrightarrow> held C (set_container c t)" "held C t \<Longrightarrow> held C (set_status st t)"
  "held C t \<Longrightarrow> held C (set_exit_code code t)" "held C t \<Longrightarrow> held C (in_emit x t)"
  "held C t \<Longrightarrow> held C (start_phase ph c l t)" "held C t \<Longrightarrow> held C (finish_phase ph r t)"
  "held C t \<Longrightarrow> held C (snd (remove_container c a t))" "held C t \<Longrightarrow> held C (stop_warmup_container c w t)"
  "held C t \<Longrightarrow> held C (snd (start_container c b t))"
  by (auto simp: held_def set_container_def set_status_def set_exit_code_def in_emit_def remove_container_def
      start_container_def start_phase_def finish_phase_def stop_warmup_container_def Let_def)

lemma held_remove: "held (insert c C) t \<Longrightarrow> ok_call a \<Longrightarrow> held C (snd (remove_container c a t))"
  by (auto simp: held_def ok_call_def remove_container_def)

lemma held_create: "held C t \<Longrightarrow> held (insert c C) (snd (create_container c img b t))"
  by (auto simp: held_def create_container_def in_emit_def)

lemma create_failed: "create_container c img b t = (Some e, u) \<Longrightarrow> u = t"
  by (simp add: create_container_def split: if_splits)

lemma start_failed_same: "start_container c b t = (Some e, u) \<Longrightarrow> u = t"
  by (simp add: start_container_def split: if_splits)

lemma held_prepare:
  assumes "held C s" "ok_call (ha_cleanup h)"
  shows "held C (snd (prepare_path_writable h s))"
proof -
  let ?c = "in_id s @ ''_permissions''"
  obtain r1 s1 where 1: "remove_container ?c (ha_remove h) s = (r1, s1)" by fastforce
  obtain r2 s2 where 2: "create_container ?c (helper_spec s1) (ha_create h) s1 = (r2, s2)" by fastforce
  obtain r3 s3 where 3: "start_container ?c (ha_start h) s2 = (r3, s3)" by fastforce
  have h1: "held C s1" using held_intros(7) [OF assms(1)] 1 by (metis snd_conv)
  have h2: "held (insert ?c C) s2" using held_create [OF h1, of ?c] 2 by (metis snd_conv)
  have h3: "held (insert ?c C) s3" using held_intros(9) [OF h2] 3 by (metis snd_conv)
  have "held C (snd (remove_container ?c (ha_cleanup h) s3))" by (rule held_remove [OF h3 assms(2)])
  moreover have "r2 \<noteq> None \<Longrightarrow> s2 = s1" using create_failed 2 by (metis not_None_eq)
  ultimately show ?thesis using assms(1) h1
    by (auto simp: prepare_path_writable_def Let_def 1 2 3 split: option.split)
qed


text \<open>A container that is created must also be started, and the removals must work, for a warm-up to leave none.\<close>

definition warmup_cleans :: "warmup_answers \<Rightarrow> bool" where
  "warmup_cleans a \<longleftrightarrow> ok_call (ha_cleanup (wa_helper a)) \<and> ok_call (wa_cleanup a) \<and> wa_start a"

definition post_cleans :: "post_answers \<Rightarrow> bool" where
  "post_cleans a \<longleftrightarrow> ok_call (ha_cleanup (po_helper a)) \<and> ok_call (po_cleanup a) \<and> po_start a"

definition install_cleans :: "install_answers \<Rightarrow> bool" where
  "install_cleans a \<longleftrightarrow> ok_call (ha_cleanup (ia_helper a)) \<and> ok_call (ia_cleanup a)"

lemma held_lifecycle:
  assumes "held C s" "ok_call (ha_cleanup h)" "create_lifecycle_container h c ct cm b s = (r, t)"
  shows "held (insert c C) t" "r \<noteq> None \<Longrightarrow> held C t"
proof -
  obtain r1 s1 where 1: "prepare_path_writable h s = (r1, s1)" by fastforce
  have h1: "held C s1" using held_prepare [OF assms(1,2)] 1 by simp
  have sub: "held C u \<Longrightarrow> held (insert c C) u" for u by (auto simp: held_def)
  show "held (insert c C) t"
    using assms(1,3) h1 sub held_create [OF h1, of c "lifecycle_spec c ct cm s1" b]
    by (auto simp: create_lifecycle_container_def 1 split: if_splits option.splits)
  show "held C t" if "r \<noteq> None"
    using that assms(1,3) h1 create_failed [of c "lifecycle_spec c ct cm s1" b s1]
    by (auto simp: create_lifecycle_container_def 1 split: if_splits option.splits)
qed


lemma held_attempt:
  assumes "held C s" "warmup_cleans a"
  shows "held C (snd (run_warmup_attempt a s))"
proof -
  let ?c = "in_id s @ ''_warmup''"
  define s1 where "s1 = start_phase Warming ?c (install_log_disk_path (in_logs s) (in_base s) ''-warmup'') s"
  obtain r2 s2 where 2: "remove_container ?c (wa_remove a) s1 = (r2, s2)" by fastforce
  obtain r3 s3 where 3: "create_lifecycle_container (wa_helper a) ?c ''server_warmup'' [] (wa_create a) s2 = (r3, s3)" by fastforce
  have h1: "held C s1" unfolding s1_def by (intro held_intros assms(1))
  have h2: "held C s2" using held_intros(7) [OF h1] 2 by (metis snd_conv)
  note h3 = held_lifecycle [OF h2 _ 3]
  have h3': "held (insert ?c C) s3" "r3 \<noteq> None \<Longrightarrow> held C s3" using h3 assms(2) by (auto simp: warmup_cleans_def)
  let ?clean = "\<lambda>u. snd (remove_container ?c (wa_cleanup a) u)"
  have clean: "held (insert ?c C) u \<Longrightarrow> held C (?clean u)" for u
    by (rule held_remove) (use assms(2) in \<open>simp_all add: warmup_cleans_def\<close>)
  define s4 where "s4 = set_status ''running'' (in_emit (Started ?c) (set_container ?c s3))"
  have h4: "held (insert ?c C) s4" unfolding s4_def by (intro held_intros h3')
  have "held C (set_exit_code 0 (set_status ''exited'' (?clean (stop_warmup_container ?c a s4))))"
    by (intro held_intros(2,3) clean held_intros(8) h4)
  moreover have "snd (run_warmup_attempt a s) = (if r2 \<noteq> None then s2 else if r3 \<noteq> None then s3
      else if wait_for_warmup_signal a \<noteq> None then ?clean s4
      else set_exit_code 0 (set_status ''exited'' (?clean (stop_warmup_container ?c a s4))))"
    using assms(2) by (auto simp: run_warmup_attempt_def Let_def 2 3 s1_def [symmetric] s4_def start_container_def
        warmup_cleans_def split: option.split)
  ultimately show ?thesis using h2 h3' clean [OF h4] by auto
qed

lemma held_post:
  assumes "held C s" "post_cleans a"
  shows "held C (snd (run_post_warmup sp a s))"
proof -
  let ?c = "in_id s @ ''_post_warmup''"
  define s1 where "s1 = start_phase PostWarmup ?c (install_log_disk_path (in_logs s) (in_base s) ''-post-warmup'') s"
  obtain r2 s2 where 2: "remove_container ?c (po_remove a) s1 = (r2, s2)" by fastforce
  obtain r3 s3 where 3: "create_lifecycle_container (po_helper a) ?c ''server_post_warmup'' [''/bin/sh'', ''-lc'', sp_post_script sp] (po_create a) s2 = (r3, s3)" by fastforce
  have h1: "held C s1" unfolding s1_def by (intro held_intros assms(1))
  have h2: "held C s2" using held_intros(7) [OF h1] 2 by (metis snd_conv)
  note h3 = held_lifecycle [OF h2 _ 3]
  have h3': "held (insert ?c C) s3" "r3 \<noteq> None \<Longrightarrow> held C s3" using h3 assms(2) by (auto simp: post_cleans_def)
  let ?clean = "\<lambda>u. snd (remove_container ?c (po_cleanup a) u)"
  have clean: "held (insert ?c C) u \<Longrightarrow> held C (?clean u)" for u
    by (rule held_remove) (use assms(2) in \<open>simp_all add: post_cleans_def\<close>)
  define s4 where "s4 = set_status ''running'' (in_emit (Started ?c) (set_container ?c s3))"
  have h4: "held (insert ?c C) s4" unfolding s4_def by (intro held_intros h3')
  have h5: "held (insert ?c C) (set_status ''exited'' (set_exit_code k s4))" for k by (intro held_intros h4)
  have "snd (run_post_warmup sp a s) = (if r2 \<noteq> None then s2 else if r3 \<noteq> None then s3
      else case po_wait a of None \<Rightarrow> ?clean s4 | Some k \<Rightarrow> ?clean (set_status ''exited'' (set_exit_code k s4)))"
    using assms(2) by (auto simp: run_post_warmup_def Let_def 2 3 s1_def [symmetric] s4_def start_container_def
        post_cleans_def split: option.split)
  then show ?thesis using h2 h3' clean [OF h4] clean [OF h5] by (auto split: option.split)
qed


lemma held_loop: "held C s \<Longrightarrow> \<forall>k. warmup_cleans (wa k) \<Longrightarrow> held C (snd (warmup_loop n k wa r s))"
proof (induction n arbitrary: k r s)
  case (Suc n)
  show ?case unfolding warmup_loop.simps
    by (intro branch_rules(1,2,4) [where P = "held C"] Suc.IH Suc.prems(2) held_attempt Suc.prems(1) spec [OF Suc.prems(2)])
qed simp

lemma held_finish_warmup: "held C s \<Longrightarrow> post_cleans post \<Longrightarrow> held C (snd (finish_warmup sp post s))"
  unfolding finish_warmup_def by (intro branch_rules [where P = "held C"] held_post held_intros(6))

lemma held_warmup: "held C s \<Longrightarrow> \<forall>k. warmup_cleans (wa k) \<Longrightarrow> post_cleans post \<Longrightarrow> held C (snd (run_warmup sp wa post s))"
  unfolding run_warmup_def Let_def
  by (intro branch_rules [where P = "held C"] held_finish_warmup held_loop held_intros(6))

lemma execute_keeps_id: "in_id (snd (execute_install sp a s)) = in_id s"
proof -
  have "keeps s (snd (execute_install sp a s))"
    unfolding execute_install_def Let_def by (intro keeps_branches keeps_intros)
  then show ?thesis by (simp add: keeps_def)
qed

lemma held_execute:
  assumes "held C s" "ok_call (ha_cleanup (ia_helper a))"
  shows "held (insert (in_id s @ ''_installer'') C) (snd (execute_install sp a s))"
proof -
  let ?c = "in_id s @ ''_installer''" and ?D = "insert (in_id s @ ''_installer'') C"
  have sub: "held C u \<Longrightarrow> held ?D u" for u by (auto simp: held_def)
  obtain r1 s1 where 1: "prepare_path_writable (ia_helper a) s = (r1, s1)" by fastforce
  obtain r2 s2 where 2: "create_container ?c (install_spec sp s1) (ia_create a) s1 = (r2, s2)" by fastforce
  have h1: "held C s1" using held_prepare [OF assms] 1 by simp
  have h2: "held ?D s2" using held_create [OF h1, of ?c] 2 by (metis snd_conv)
  have "held ?D (snd (case start_container ?c (ia_start a) (set_container ?c s2) of
      (Some e, s) \<Rightarrow> (Some e, s)
    | (None, s) \<Rightarrow> (let s = set_status ''running'' s in case ia_wait a of
        WaitExitError \<Rightarrow> (Some WaitFailed, s)
      | WaitExitNil \<Rightarrow> (None, set_status ''exited'' s)
      | WaitExitCode code \<Rightarrow>
          (if code \<noteq> 0 then Some (InstallExit code) else None, set_status ''exited'' (set_exit_code code s)))))"
    unfolding Let_def by (intro branch_rules [where P = "held (insert (in_id s @ ''_installer'') C)"] held_intros h2)
  then show ?thesis using sub assms(1) h1 h2 by (auto simp: execute_install_def Let_def 1 2 split: option.split)
qed

lemma held_run:
  assumes "held C s" "install_cleans a"
  shows "held C (snd (run_install sp a s))"
proof -
  have before: "held C (snd (before_execute a s))"
    unfolding before_execute_def
    by (intro branch_rules(2-) [where P = "held C"] branch_pure [where P = "held C"] held_intros assms(1))
  have "held C (snd (remove_container (in_id u @ ''_installer'') (ia_cleanup a) u))"
    if q: "held C q" and x: "execute_install sp a q = (r, u)" for q r u
  proof -
    have "in_id u = in_id q" using execute_keeps_id [of sp a q] x by simp
    moreover have "held (insert (in_id q @ ''_installer'') C) u"
      using held_execute [OF q, of a sp] assms(2) x by (simp add: install_cleans_def)
    ultimately show ?thesis using assms(2) by (auto simp: install_cleans_def intro: held_remove)
  qed
  then show ?thesis
    using before unfolding run_install_def by (auto split: prod.split option.split)
qed

text \<open>
  C12. An installation leaves no container behind, whether it succeeds, fails or is retried: where the
  containers of the warm-up that are created also start, and Docker does what a removal asks,
  no container is there afterwards that was not there before.
\<close>

theorem install_leaves_no_container:
  assumes "install_cleans a" "\<forall>k. warmup_cleans (wa k)" "post_cleans post"
  shows "set (in_containers (snd (install reinstall a wa post s))) \<subseteq> set (in_containers s)"
proof -
  let ?C = "set (in_containers s)" and ?s = "s\<lparr>in_lock := Some True\<rparr>"
  have s: "held ?C ?s" by (simp add: held_def)
  have "held ?C (snd (run_or_skip a wa post ?s))"
    unfolding run_or_skip_def internal_install_def
    by (intro branch_rules [where P = "held (set (in_containers s))"] held_warmup held_run held_intros s assms)
  then obtain r u where run: "run_or_skip a wa post ?s = (r, u)" "held ?C u"
    by (metis prod.collapse)
  have "held ?C (record_outcome r u)"
    unfolding record_outcome_def using run(2) held_intros(6) by (auto split: option.split)
  then show ?thesis
    by (auto simp: install_def locker_acquire_def run(1) Let_def held_def in_emit_def)
qed


section \<open>Which warm-ups succeed\<close>

definition helper_succeeds :: "helper_answers \<Rightarrow> bool" where
  "helper_succeeds h \<longleftrightarrow> ha_chown h \<and> ok_call (ha_remove h) \<and> ha_create h \<and> ha_start h \<and> ha_wait h = Some 0"

definition attempt_succeeds :: "warmup_answers \<Rightarrow> bool" where
  "attempt_succeeds a \<longleftrightarrow> ok_call (wa_remove a) \<and> helper_succeeds (wa_helper a) \<and> wa_create a \<and> wa_start a \<and>
     wa_logs a \<and> wa_signal a = Matched"

lemma prepare_result: "fst (prepare_path_writable h s) = None \<longleftrightarrow> helper_succeeds h"
  by (auto simp: prepare_path_writable_def Let_def remove_container_def create_container_def start_container_def
      helper_succeeds_def helper_exit_def ok_call_def split: option.split)

lemma lifecycle_result:
  "fst (create_lifecycle_container h c ct cm b s) = None \<longleftrightarrow> in_image s \<noteq> [] \<and> helper_succeeds h \<and> b"
  using prepare_result [of h s]
  by (auto simp: create_lifecycle_container_def create_container_def split: prod.split option.split)

lemma attempt_result: "fst (run_warmup_attempt a s) = None \<longleftrightarrow> in_image s \<noteq> [] \<and> attempt_succeeds a"
proof -
  let ?c = "in_id s @ ''_warmup''"
  define s1 where "s1 = start_phase Warming ?c (install_log_disk_path (in_logs s) (in_base s) ''-warmup'') s"
  obtain r2 s2 where 2: "remove_container ?c (wa_remove a) s1 = (r2, s2)" by fastforce
  obtain r3 s3 where 3: "create_lifecycle_container (wa_helper a) ?c ''server_warmup'' [] (wa_create a) s2 = (r3, s3)" by fastforce
  have r2: "r2 = None \<longleftrightarrow> ok_call (wa_remove a)" "in_image s2 = in_image s"
    using 2 by (auto simp: remove_container_def ok_call_def s1_def start_phase_def split: if_splits)
  have r3: "r3 = None \<longleftrightarrow> in_image s \<noteq> [] \<and> helper_succeeds (wa_helper a) \<and> wa_create a"
    using lifecycle_result [of "wa_helper a" ?c "''server_warmup''" "[]" "wa_create a" s2] 3 r2(2) by simp
  have "fst (run_warmup_attempt a s) = None \<longleftrightarrow>
      r2 = None \<and> r3 = None \<and> wa_start a \<and> wait_for_warmup_signal a = None"
    by (auto simp: run_warmup_attempt_def Let_def 2 3 s1_def [symmetric] start_container_def split: option.split)
  then show ?thesis
    using r2(1) r3 by (auto simp: attempt_succeeds_def wait_for_warmup_signal_def split: signal_wait.split)
qed

lemma loop_result:
  "in_image s \<noteq> [] \<Longrightarrow> fst (warmup_loop n k wa r s) = None \<longleftrightarrow>
     (if n = 0 then r = None else \<exists>i \<in> {k..<k + n}. attempt_succeeds (wa i))"
proof (induction n arbitrary: k r s)
  case (Suc n)
  obtain r1 s1 where 1: "run_warmup_attempt (wa k) s = (r1, s1)" by fastforce
  have img: "in_image s1 \<noteq> []" using keeps_attempt [OF keeps_refl [of s], of "wa k"] 1 Suc.prems by (simp add: keeps_def)
  have r1: "r1 = None \<longleftrightarrow> attempt_succeeds (wa k)" using attempt_result [of "wa k" s] 1 Suc.prems by simp
  have split: "{k..<k + Suc n} = insert k {Suc k..<Suc k + n}" by auto
  show ?case
  proof (cases r1)
    case None
    then show ?thesis using 1 r1 split by simp
  next
    case (Some e)
    then have "fst (warmup_loop (Suc n) k wa r s) = fst (warmup_loop n (Suc k) wa (Some e) s1)" by (simp add: 1)
    then show ?thesis using Suc.IH [OF img, of "Suc k" "Some e"] Some r1 split by auto
  qed
qed simp

lemma retry_defaults:
  assumes "sp_policy sp = ''retry''"
  shows "sp_policy (apply_warmup_defaults sp) = ''retry''" "warmup_attempts sp = wrap64 (1 + sp_warmup_retries sp)"
    "warmup_attempts (apply_warmup_defaults sp) = wrap64 (1 + sp_warmup_retries sp)"
  using assms by (simp_all add: apply_warmup_defaults_def warmup_attempts_def Let_def trim_space_def is_space_def)

lemma run_warmup_no_post:
  assumes "trim_space (sp_post_script sp) = []" "sp_warmup sp" "sp_policy sp = ''retry''"
  shows "run_warmup sp wa post s = (case warmup_loop (nat (wrap64 (1 + sp_warmup_retries sp))) 1 wa None s of
    (None, s) \<Rightarrow> (None, s) | (Some e, s) \<Rightarrow> (Some e, finish_phase WarmupFailed (Some e) s))"
proof -
  have "trim_space (sp_post_script (apply_warmup_defaults sp)) = []" "sp_warmup (apply_warmup_defaults sp)"
    using assms by (simp_all add: apply_warmup_defaults_def)
  then show ?thesis
    using retry_defaults [OF assms(3)]
    by (auto simp: run_warmup_def Let_def finish_warmup_def split: prod.split option.split)
qed

text \<open>
  A warm-up whose policy is to retry succeeds exactly if one of the first attempt and the given
  number of retries succeeds: none of them is left out, and there are no more.
\<close>

theorem warmup_retries:
  assumes "sp_warmup sp" "sp_policy sp = ''retry''" "trim_space (sp_post_script sp) = []" "in_image s \<noteq> []"
    "sp_warmup_retries sp = int n" "n < 2 ^ 63 - 1"
  shows "fst (run_warmup sp wa post s) = None \<longleftrightarrow> (\<exists>k \<in> {1..Suc n}. attempt_succeeds (wa k))"
proof -
  have "in_int64 (1 + int n)" using assms(6) by (simp add: in_int64_def int64_min_def int64_max_def)
  then have "nat (wrap64 (1 + sp_warmup_retries sp)) = Suc n" using assms(5) by simp
  then have "fst (run_warmup sp wa post s) = fst (warmup_loop (Suc n) 1 wa None s)"
    unfolding run_warmup_no_post [OF assms(3,1,2)] by (auto split: prod.split option.split)
  then show ?thesis
    using loop_result [OF assms(4), of "Suc n" 1 wa None] by (auto simp: atLeastLessThanSuc_atLeastAtMost)
qed

text \<open>With a negative number of retries there is no attempt at all, and the warm-up succeeds.\<close>

lemma negative_retries_skip_warmup:
  "sp_policy sp = ''retry'' \<Longrightarrow> sp_warmup sp \<Longrightarrow> sp_warmup_retries sp = - 1 \<Longrightarrow> trim_space (sp_post_script sp) = [] \<Longrightarrow>
     run_warmup sp wa post s = (None, s)"
  by (simp add: run_warmup_no_post wrap64_def)

text \<open>Under the policy to continue, neither the warm-up nor the script after it fails the installation.\<close>

lemma continue_never_fails:
  assumes "sp_policy sp = ''continue''"
  shows "fst (run_warmup sp wa post s) = None"
proof -
  have c: "sp_policy (apply_warmup_defaults sp) = ''continue''"
    using assms by (simp add: apply_warmup_defaults_def trim_space_def is_space_def)
  then have "fst (finish_warmup (apply_warmup_defaults sp) post u) = None" for u
    by (auto simp: finish_warmup_def split: prod.split option.split)
  then show ?thesis using c by (auto simp: run_warmup_def Let_def split: prod.split option.split)
qed


section \<open>Reading the logs\<close>

text \<open>
  The disk gives the lines of a file; scanning stops without a word at a line that does not fit the
  buffer of the scanner. Docker gives the lines of a container, or an error.
\<close>

type_synonym disk = "string \<Rightarrow> string list option"
type_synonym docker_logs = "string \<Rightarrow> int \<Rightarrow> docker_error + string list"

definition scan_lines :: "string list \<Rightarrow> string list" where
  "scan_lines ls = takeWhile (\<lambda>l. length l < 65536) ls"

definition cut_tail :: "int \<Rightarrow> 'a list \<Rightarrow> 'a list" where
  "cut_tail m xs = (if m > 0 \<and> int (length xs) > m then drop (length xs - nat m) xs else xs)"

definition read_tail_lines :: "disk \<Rightarrow> string \<Rightarrow> int \<Rightarrow> string list" where
  "read_tail_lines dsk path m =
     (if path = [] then [] else case dsk (path_clean path) of
        None \<Rightarrow> []
      | Some ls \<Rightarrow> fold (\<lambda>l acc. cut_tail m (acc @ [l])) (scan_lines ls) [])"

definition read_docker_logs :: "docker_logs \<Rightarrow> string \<Rightarrow> int \<Rightarrow> docker_error + string list" where
  "read_docker_logs dock ref n =
     (if ref = [] then Inr [] else case dock ref n of
        Inl e \<Rightarrow> (if e = DockerNotFound then Inr [] else Inl e)
      | Inr ls \<Rightarrow> Inr (scan_lines ls))"

text \<open>The logs of the phases, an empty line between them.\<close>

definition join_logs :: "string list list \<Rightarrow> string list" where
  "join_logs logs = fold (\<lambda>l out. if l = [] then out else if out \<noteq> [] then out @ [[]] @ l else out @ l) logs []"

definition stored_log_paths :: "installer \<Rightarrow> string list" where
  "stored_log_paths s = map (install_log_disk_path (in_logs s) (in_base s)) [[], ''-warmup'', ''-post-warmup'']"

definition read_stored_logs :: "disk \<Rightarrow> installer \<Rightarrow> int \<Rightarrow> string list" where
  "read_stored_logs dsk s n = cut_tail n (join_logs (map (\<lambda>p. read_tail_lines dsk p n) (stored_log_paths s)))"

definition install_container_ref :: "installer \<Rightarrow> string" where
  "install_container_ref s = (if is_container (in_info s) \<noteq> [] then is_container (in_info s) else is_container_name (in_info s))"

definition read_install_logfile :: "disk \<Rightarrow> docker_logs \<Rightarrow> installer \<Rightarrow> int \<Rightarrow> docker_error + string list" where
  "read_install_logfile dsk dock s n = (case read_docker_logs dock (install_container_ref s) n of
     Inl e \<Rightarrow> Inl e
   | Inr ls \<Rightarrow> (if ls \<noteq> [] then Inr ls
       else let ls = read_tail_lines dsk (is_log_path (in_info s)) n
            in if ls \<noteq> [] then Inr ls else Inr (read_stored_logs dsk s n)))"

text \<open>\<open>owner\<close> is the server named in the lock file of the folder, or empty.\<close>

definition install_logs_for_server :: "disk \<Rightarrow> docker_logs \<Rightarrow> string \<Rightarrow> installer \<Rightarrow> int \<Rightarrow> docker_error + string list" where
  "install_logs_for_server dsk dock owner s n =
     (if is_phase (in_info s) \<noteq> Idle \<and> is_phase (in_info s) \<noteq> Completed then read_install_logfile dsk dock s n
      else let ls = read_stored_logs dsk s n
           in if ls \<noteq> [] then Inr ls
              else if owner = [] \<or> owner = in_id s then Inr []
              else read_docker_logs dock (owner @ ''_installer'') n)"

definition read_logfile :: "disk \<Rightarrow> docker_logs \<Rightarrow> string \<Rightarrow> (docker_error + string list) \<Rightarrow> installer \<Rightarrow> int \<Rightarrow> docker_error + string list" where
  "read_logfile dsk dock owner env s n = (case (install_logs_for_server dsk dock owner s n, env) of
     (Inl _, Inl e) \<Rightarrow> Inl e
   | (r, q) \<Rightarrow> Inr (cut_tail n ((case r of Inl _ \<Rightarrow> [] | Inr ls \<Rightarrow> ls) @ (case q of Inl _ \<Rightarrow> [] | Inr ls \<Rightarrow> ls))))"

definition install_log_sources :: "installer \<Rightarrow> (phase \<times> string \<times> string) list" where
  "install_log_sources s = map (\<lambda>(ph, suf, name). (ph, install_log_disk_path (in_logs s) (in_base s) suf, in_id s @ name))
     [(Installing, [], ''_installer''), (Warming, ''-warmup'', ''_warmup''), (PostWarmup, ''-post-warmup'', ''_post_warmup'')]"

definition install_phase_logs :: "disk \<Rightarrow> docker_logs \<Rightarrow> string \<Rightarrow> installer \<Rightarrow> phase \<times> string \<times> string \<Rightarrow> docker_error + string list" where
  "install_phase_logs dsk dock owner s src = (case src of (ph, path, cname) \<Rightarrow>
     let fromDisk = (let ls = read_tail_lines dsk path 0 in
           if ls \<noteq> [] then Inr ls
           else if ph \<noteq> Installing \<or> owner = [] \<or> owner = in_id s then Inr []
           else read_docker_logs dock (owner @ ''_installer'') 0)
     in if is_phase (in_info s) = ph then
          (case read_docker_logs dock cname 0 of
             Inl e \<Rightarrow> Inl e
           | Inr ls \<Rightarrow> (if ls \<noteq> [] then Inr ls else fromDisk))
        else fromDisk)"

fun collect_logs :: "(docker_error + string list) list \<Rightarrow> docker_error + string list list" where
  "collect_logs [] = Inr []"
| "collect_logs (Inl e # rs) = Inl e"
| "collect_logs (Inr l # rs) = map_sum id (\<lambda>ls. l # ls) (collect_logs rs)"

definition install_logs_all :: "disk \<Rightarrow> docker_logs \<Rightarrow> string \<Rightarrow> installer \<Rightarrow> docker_error + string list" where
  "install_logs_all dsk dock owner s =
     map_sum id join_logs (collect_logs (map (install_phase_logs dsk dock owner s) (install_log_sources s)))"


lemma cut_tail_pos: "m > 0 \<Longrightarrow> cut_tail m xs = last_n (nat m) xs"
  by (auto simp: cut_tail_def last_n_def)

lemma cut_tail_nonpos [simp]: "m \<le> 0 \<Longrightarrow> cut_tail m xs = xs"
  by (simp add: cut_tail_def)

lemma cut_tail_append: "cut_tail m (cut_tail m xs @ cut_tail m ys) = cut_tail m (xs @ ys)"
proof (cases "m > 0")
  case True
  then show ?thesis
    by (cases "length xs \<le> nat m"; cases "length ys \<le> nat m") (auto simp: cut_tail_pos last_n_def intro!: arg_cong2 [where f = drop])
qed simp

lemma cut_tail_empty [simp]: "cut_tail m [] = []"
  by (simp add: cut_tail_def)

lemma cut_tail_idem [simp]: "cut_tail m (cut_tail m xs) = cut_tail m xs"
  using cut_tail_append [of m "[]" xs] by (simp add: cut_tail_def)

lemma cut_tail_cong: "cut_tail m xs = cut_tail m xs' \<Longrightarrow> cut_tail m ys = cut_tail m ys' \<Longrightarrow>
    cut_tail m (xs @ ys) = cut_tail m (xs' @ ys')"
  by (metis cut_tail_append)

lemma cut_tail_Nil [simp]: "cut_tail m xs = [] \<longleftrightarrow> xs = []"
  by (auto simp: cut_tail_def)

lemma scan_tail: "fold (\<lambda>l acc. cut_tail m (acc @ [l])) ls acc = (if ls = [] then acc else cut_tail m (acc @ ls))"
proof (induction ls arbitrary: acc)
  case (Cons l ls)
  have "cut_tail m (cut_tail m (acc @ [l]) @ ls) = cut_tail m ((acc @ [l]) @ ls)"
    by (rule cut_tail_cong) simp_all
  then show ?case using Cons.IH by simp
qed simp

lemma scan_all: "fold (\<lambda>l acc. acc @ [l]) ls acc = acc @ ls"
  by (induction ls arbitrary: acc) auto

lemma read_tail_lines_cut: "read_tail_lines dsk p n = cut_tail n (read_tail_lines dsk p 0)"
  by (auto simp: read_tail_lines_def scan_tail scan_all split: option.split)

lemma join_logs_snoc:
  "join_logs (ls @ [l]) = (if l = [] then join_logs ls else if join_logs ls \<noteq> [] then join_logs ls @ [[]] @ l else l)"
  by (simp add: join_logs_def)

lemma join_logs_cut: "cut_tail n (join_logs (map (cut_tail n) ls)) = cut_tail n (join_logs ls)"
proof (induction ls rule: rev_induct)
  case (snoc l ls)
  have empty: "join_logs (map (cut_tail n) ls) = [] \<longleftrightarrow> join_logs ls = []" using snoc by (metis cut_tail_Nil)
  have "cut_tail n (join_logs (map (cut_tail n) ls) @ ([[]] @ cut_tail n l)) = cut_tail n (join_logs ls @ ([[]] @ l))"
    by (intro cut_tail_cong snoc refl) simp
  then show ?case using empty snoc unfolding map_append list.map(1,2) join_logs_snoc by simp
qed simp

text \<open>
  Asking for the last lines of the stored installation logs gives the last lines of everything that
  is stored, the three phases in their order, although each file is cut on its own first.
\<close>

theorem stored_logs_tail: "read_stored_logs dsk s n = cut_tail n (read_stored_logs dsk s 0)"
proof -
  have "(\<lambda>p. read_tail_lines dsk p n) = cut_tail n \<circ> (\<lambda>p. read_tail_lines dsk p 0)"
    by (rule ext) (simp only: comp_apply read_tail_lines_cut [of dsk _ n])
  then have "read_stored_logs dsk s n =
      cut_tail n (join_logs (map (cut_tail n) (map (\<lambda>p. read_tail_lines dsk p 0) (stored_log_paths s))))"
    by (simp add: read_stored_logs_def del: map_map)
      (simp only: map_map)
  then show ?thesis unfolding join_logs_cut by (simp add: read_stored_logs_def)
qed

text \<open>A log has its own file in the directory of the logs, whatever the folder is called.\<close>

lemma trim_char_subset: "set (trim_char c s) \<subseteq> set s"
  unfolding trim_char_def by (auto dest!: set_dropWhileD)

lemma sanitized_key_plain: "\<forall>c \<in> set (sanitize_install_log_key p). is_alnum c \<or> c \<in> set ''-_.''"
proof -
  let ?m = "map (\<lambda>r. if is_alnum r \<or> r \<in> set ''-_.'' then r else CHR ''-'') (trim_char CHR ''/'' (path_clean p))"
  have "\<forall>c \<in> set (trim_char CHR ''-'' ?m). is_alnum c \<or> c \<in> set ''-_.''"
    using trim_char_subset [of "CHR ''-''" ?m] by (auto split: if_splits)
  moreover have "\<forall>c \<in> set ''unknown''. is_alnum c" "\<forall>c \<in> set ''root''. is_alnum c"
    by (simp_all add: is_alnum_def char_code_def)
  ultimately show ?thesis by (auto simp: sanitize_install_log_key_def Let_def)
qed

lemma install_logs_collide: "install_log_disk_path ''/logs'' ''/srv/a/b'' [] = install_log_disk_path ''/logs'' ''/srv/a-b'' []"
  by code_simp


lemma path_comps_join_name:
  assumes "is_abs d" "CHR ''/'' \<notin> set f" "plain_comp f" "f \<noteq> ''..''"
  shows "path_comps (path_join [d, f]) = path_comps d @ [f]" "is_abs (path_join [d, f])"
proof -
  have "split_on CHR ''/'' f = [f]" using assms(2) by (simp add: split_on_single)
  then show "path_comps (path_join [d, f]) = path_comps d @ [f]"
    using assms(1,3,4) path_comps_join2 [of d f] by (simp add: plain_comp_def)
  have "f \<noteq> []" "d \<noteq> []" using assms by (auto simp: plain_comp_def is_abs_iff)
  then show "is_abs (path_join [d, f])"
    using assms(1) by (auto simp: path_join_def is_abs_iff path_clean_def show_path_def)
qed

lemma install_log_confined:
  assumes "is_abs logs" "suf \<in> {[], ''-warmup'', ''-post-warmup''}"
  shows "path_comps (install_log_disk_path logs p suf) =
    path_comps logs @ [''install'', sanitize_install_log_key p @ suf @ ''.log'']"
proof -
  let ?f = "sanitize_install_log_key p @ suf @ ''.log''"
  have 1: "path_comps (install_log_directory logs) = path_comps logs @ [''install'']" "is_abs (install_log_directory logs)"
    unfolding install_log_directory_def by (rule path_comps_join_name; use assms(1) in \<open>simp add: plain_comp_def\<close>)+
  have "CHR ''/'' \<notin> set (sanitize_install_log_key p)"
    using sanitized_key_plain [of p] by (auto simp: is_alnum_def char_code_def)
  then have "CHR ''/'' \<notin> set ?f" using assms(2) by auto
  moreover have "?f \<noteq> ''.'' \<and> ?f \<noteq> ''..'' \<and> ?f \<noteq> []"
    by (auto simp: append_eq_Cons_conv)
  ultimately show ?thesis
    unfolding install_log_disk_path_def
    by (subst path_comps_join_name) (simp_all add: 1 plain_comp_def)
qed


section \<open>Concrete installations\<close>

definition example_helper :: helper_answers where
  "example_helper = \<lparr>ha_chown = True, ha_remove = Some DockerNotFound, ha_create = True, ha_start = True,
     ha_wait = Some 0, ha_cleanup = None\<rparr>"

definition example_warmup :: "signal_wait \<Rightarrow> warmup_answers" where
  "example_warmup w = \<lparr>wa_remove = Some DockerNotFound, wa_helper = example_helper, wa_create = True, wa_start = True,
     wa_logs = True, wa_signal = w, wa_send = True, wa_kill = True, wa_exits = True, wa_stop = None, wa_cleanup = None\<rparr>"

definition example_post :: post_answers where
  "example_post = \<lparr>po_remove = None, po_helper = example_helper, po_create = True, po_start = True,
     po_wait = Some 0, po_cleanup = None\<rparr>"

definition example_script :: install_script where
  "example_script = \<lparr>sp_entrypoint = ''bash'', sp_warmup = True, sp_warmup_timeout = 0, sp_warmup_retries = 2,
     sp_post_script = [], sp_post_timeout = 0, sp_policy = ''retry''\<rparr>"

definition example_install :: install_answers where
  "example_install = \<lparr>ia_script = Some example_script, ia_client = True, ia_temp = True, ia_policy = ''Always'',
     ia_inspect = None, ia_local = Some True, ia_pull = True, ia_remove = Some DockerNotFound,
     ia_helper = example_helper, ia_create = True, ia_start = True, ia_wait = WaitExitCode 0, ia_cleanup = None\<rparr>"

definition example_installer :: installer where
  "example_installer = \<lparr>in_id = ''s1'', in_image = ''java:21'', in_base = ''/srv/paper'', in_logs = ''/var/log'',
     in_temp = ''/tmp/s1'', in_user = ''988:988'', in_variables = [], in_mounts = [],
     in_stop = \<lparr>sc_type = ''command'', sc_value = ''stop''\<rparr>, in_skip = False, in_lock = Some False, in_env = Offline,
     in_clock = 0, in_info = new_install_info, in_containers = [''s1''], in_effects = []\<rparr>"

text \<open>Two attempts fail, the third succeeds.\<close>

definition flaky :: "nat \<Rightarrow> warmup_answers" where
  "flaky k = example_warmup (if k = 3 then Matched else ExitedBefore 1)"

lemma install_outcome_witness:
  "notified (in_effects (snd (install False example_install flaky example_post example_installer))) =
     [(fst (install False example_install flaky example_post example_installer) = None, False)]"
  using install_outcome [of example_installer False example_install flaky example_post, OF _ prod.collapse [symmetric]]
  by (simp add: example_installer_def)

lemma install_leaves_no_container_witness:
  "set (in_containers (snd (install False example_install flaky example_post example_installer))) \<subseteq> {''s1''}"
proof -
  have "install_cleans example_install" "\<forall>k. warmup_cleans (flaky k)" "post_cleans example_post"
    by (simp_all add: install_cleans_def warmup_cleans_def post_cleans_def example_install_def flaky_def
        example_warmup_def example_helper_def example_post_def ok_call_def)
  from install_leaves_no_container [OF this, of False example_installer]
  show ?thesis by (simp add: example_installer_def)
qed

lemma warmup_retries_witness: "fst (run_warmup example_script flaky example_post example_installer) = None"
proof -
  have ok: "attempt_succeeds (flaky 3)"
    by (simp add: attempt_succeeds_def flaky_def example_warmup_def example_helper_def helper_succeeds_def ok_call_def)
  have "fst (run_warmup example_script flaky example_post example_installer) = None \<longleftrightarrow>
      (\<exists>k \<in> {1..Suc 2}. attempt_succeeds (flaky k))"
    by (rule warmup_retries) (simp_all add: example_script_def example_installer_def trim_space_def)
  moreover have "(3::nat) \<in> {1..Suc 2}" by simp
  ultimately show ?thesis using ok by blast
qed

text \<open>A warm-up container that is created but does not start stays behind.\<close>

lemma unstarted_warmup_leaks:
  "in_containers (snd (run_warmup_attempt ((example_warmup Matched)\<lparr>wa_start := False\<rparr>) example_installer)) =
     [''s1_warmup'', ''s1'']"
  by code_simp

text \<open>An image marked as local is given to the installation container with its mark, to the others without.\<close>

fun created_images :: "install_effect list \<Rightarrow> (string \<times> string) list" where
  "created_images [] = []"
| "created_images (Created c spec # xs) = (c, cs_image spec) # created_images xs"
| "created_images (_ # xs) = created_images xs"

lemma local_image_mark:
  "created_images (in_effects (snd (execute_install example_script example_install (example_installer\<lparr>in_image := ''~java:21''\<rparr>)))) =
     [(''s1_permissions'', ''java:21''), (''s1_installer'', ''~java:21'')]"
  by code_simp

text \<open>A warm-up that failed under the policy to continue is reported as completed.\<close>

lemma continued_warmup_completed:
  "is_phase (in_info (snd (install False (example_install\<lparr>ia_script := Some (example_script\<lparr>sp_policy := ''continue''\<rparr>)\<rparr>)
     (\<lambda>k. example_warmup (ExitedBefore 1)) example_post example_installer))) = Completed"
  by code_simp

end
