(* ===== verification/Sandbox_FS.thy ===== *)
theory Sandbox_FS
  imports Unix_Tree
begin

text \<open>
  The sandboxed file system a daemon keeps a server's files in: \<^verbatim>\<open>UnixFS\<close> in
  \<^verbatim>\<open>daemon/internal/ufs/fs_unix.go\<close>, with \<^verbatim>\<open>mkdir_unix.go\<close>, \<^verbatim>\<open>removeall_unix.go\<close> and
  \<^verbatim>\<open>path_unix.go\<close>. An operation cleans the path it is given, opens the directory the path is in
  without leaving the base, and acts on one name there. Interrupted system calls are retried and not
  modelled, nor are changes other processes make meanwhile.
\<close>

section \<open>Paths below the base\<close>

record sandbox =
  sb_base :: string
  sb_openat2 :: bool

definition new_unix_fs :: "string \<Rightarrow> bool \<Rightarrow> sandbox" where
  "new_unix_fs base o2 = \<lparr>sb_base = trim_suffix base ''/'', sb_openat2 = o2\<rparr>"

text \<open>A \<^verbatim>\<open>PathError\<close> with the path it names.\<close>

datatype fs_error = BadPath string | SysErr string errno

fun err_path :: "fs_error \<Rightarrow> string" where
  "err_path (BadPath p) = p"
| "err_path (SysErr p e) = p"

definition not_exist :: "fs_error \<Rightarrow> bool" where
  "not_exist e \<longleftrightarrow> (case e of SysErr _ n \<Rightarrow> n = ENOENT | BadPath _ \<Rightarrow> False)"

definition inside_base :: "sandbox \<Rightarrow> string \<Rightarrow> bool" where
  "inside_base sb p \<longleftrightarrow> has_prefix (trim_suffix p ''/'' @ ''/'') (sb_base sb @ ''/'')"

definition unsafe_path :: "sandbox \<Rightarrow> string \<Rightarrow> fs_error + string" where
  "unsafe_path sb p =
     (let r = path_clean (path_join [sb_base sb, trim_prefix p (sb_base sb)])
      in if inside_base sb r then
           (let r = trim_prefix (trim_prefix r (sb_base sb)) ''/'' in Inr (if r = [] then ''.'' else r))
         else Inl (BadPath p))"

text \<open>\<^verbatim>\<open>filepath.Split\<close>: up to and with the last slash, and the rest.\<close>

definition path_split :: "string \<Rightarrow> string \<times> string" where
  "path_split p = (let f = rev (takeWhile (\<lambda>c. c \<noteq> CHR ''/'') (rev p)) in (take (length p - length f) p, f))"

text \<open>\<^verbatim>\<open>openat\<close> of a directory: without \<^verbatim>\<open>openat2\<close> the place it is at is checked afterwards.\<close>

definition openat_dir :: "sandbox \<Rightarrow> tree \<Rightarrow> path \<Rightarrow> string \<Rightarrow> fs_error + path" where
  "openat_dir sb t b dir = (case sys_openat_dir t (if sb_openat2 sb then Some b else None) b dir of
     Inl e \<Rightarrow> Inl (SysErr dir e)
   | Inr d \<Rightarrow> (if sb_openat2 sb then Inr d
       else if inside_base sb (show_path True d) then Inr d else Inl (BadPath dir)))"

definition safe_path :: "sandbox \<Rightarrow> tree \<Rightarrow> string \<Rightarrow> fs_error + (path \<times> string)" where
  "safe_path sb t p = (case unsafe_path sb p of
     Inl e \<Rightarrow> Inl e
   | Inr name \<Rightarrow> (case sys_open_dir t (sb_base sb) of
       Inl e \<Rightarrow> Inl (SysErr (sb_base sb) e)
     | Inr b \<Rightarrow> (case path_split name of (dir, f) \<Rightarrow>
         if dir = [] then Inr (b, f)
         else (case openat_dir sb t b (trim_suffix dir ''/'') of Inl e \<Rightarrow> Inl e | Inr d \<Rightarrow> Inr (d, f)))))"

section \<open>Operations on one name\<close>

type_synonym fs_op = "tree \<Rightarrow> fs_error option \<times> tree"

definition with_safe :: "sandbox \<Rightarrow> string \<Rightarrow> (path \<Rightarrow> string \<Rightarrow> fs_op) \<Rightarrow> fs_op" where
  "with_safe sb p act t = (case safe_path sb t p of Inl e \<Rightarrow> (Some e, t) | Inr (d, f) \<Rightarrow> act d f t)"

definition name_error :: "string \<Rightarrow> errno option \<times> tree \<Rightarrow> fs_error option \<times> tree" where
  "name_error f r = (map_option (SysErr f) (fst r), snd r)"

definition fs_chmod :: "sandbox \<Rightarrow> string \<Rightarrow> nat \<Rightarrow> fs_op" where
  "fs_chmod sb p mode = with_safe sb p (\<lambda>d f t. name_error f (sys_fchmodat d f mode t))"

definition fs_chown :: "sandbox \<Rightarrow> bool \<Rightarrow> string \<Rightarrow> int \<Rightarrow> int \<Rightarrow> fs_op" where
  "fs_chown sb follow p uid gid = with_safe sb p (\<lambda>d f t. name_error p (sys_fchownat d f uid gid follow t))"

definition fs_chtimes :: "sandbox \<Rightarrow> string \<Rightarrow> int option \<Rightarrow> int option \<Rightarrow> fs_op" where
  "fs_chtimes sb p atime mtime = with_safe sb p (\<lambda>d f t. name_error f (sys_utimensat d f atime mtime t))"

definition fs_mkdir :: "sandbox \<Rightarrow> string \<Rightarrow> nat \<Rightarrow> fs_op" where
  "fs_mkdir sb p mode = with_safe sb p (\<lambda>d f t. name_error f (sys_mkdirat d f mode t))"

definition fs_symlink :: "sandbox \<Rightarrow> string \<Rightarrow> string \<Rightarrow> fs_op" where
  "fs_symlink sb target p = with_safe sb p (\<lambda>d f t. name_error p (sys_symlinkat target d f t))"

text \<open>\<^verbatim>\<open>openat\<close> of one name: the check of its place comes after the call.\<close>

definition openat_name :: "sandbox \<Rightarrow> path \<Rightarrow> string \<Rightarrow> open_flags \<Rightarrow> nat \<Rightarrow> tree \<Rightarrow> (fs_error + path) \<times> tree" where
  "openat_name sb d f flags mode t = (case sys_openat d f flags mode t of
     (Inl e, t) \<Rightarrow> (Inl (SysErr f e), t)
   | (Inr q, t) \<Rightarrow> (if sb_openat2 sb \<or> inside_base sb (show_path True q) then (Inr q, t) else (Inl (BadPath f), t)))"

definition fs_open_file :: "sandbox \<Rightarrow> string \<Rightarrow> open_flags \<Rightarrow> nat \<Rightarrow> tree \<Rightarrow> (fs_error + path) \<times> tree" where
  "fs_open_file sb p flags mode t = (case safe_path sb t p of
     Inl e \<Rightarrow> (Inl e, t)
   | Inr (d, f) \<Rightarrow> openat_name sb d f flags mode t)"

definition read_flags :: open_flags where
  "read_flags = \<lparr>of_create = False, of_writable = False, of_truncate = False, of_directory = False\<rparr>"

definition create_flags :: open_flags where
  "create_flags = \<lparr>of_create = True, of_writable = True, of_truncate = True, of_directory = False\<rparr>"

definition fs_create :: "sandbox \<Rightarrow> string \<Rightarrow> tree \<Rightarrow> (fs_error + path) \<times> tree" where
  "fs_create sb p = fs_open_file sb p create_flags 420"

definition fs_open :: "sandbox \<Rightarrow> string \<Rightarrow> tree \<Rightarrow> (fs_error + path) \<times> tree" where
  "fs_open sb p = fs_open_file sb p read_flags 0"

definition fs_read_dir :: "sandbox \<Rightarrow> string \<Rightarrow> tree \<Rightarrow> fs_error + string list" where
  "fs_read_dir sb p t = (case safe_path sb t p of
     Inl e \<Rightarrow> Inl e
   | Inr (d, f) \<Rightarrow> (case fst (openat_name sb d f (read_flags\<lparr>of_directory := True\<rparr>) 0 t) of
       Inl e \<Rightarrow> Inl e
     | Inr q \<Rightarrow> Inr (names_in t q)))"

definition fs_stat :: "sandbox \<Rightarrow> bool \<Rightarrow> string \<Rightarrow> tree \<Rightarrow> fs_error + (path \<times> tentry)" where
  "fs_stat sb follow p t = (case safe_path sb t p of
     Inl e \<Rightarrow> Inl e
   | Inr (d, f) \<Rightarrow> (case sys_fstatat follow d f t of Inl e \<Rightarrow> Inl (SysErr f e) | Inr r \<Rightarrow> Inr r))"

definition fs_remove_stat :: "sandbox \<Rightarrow> string \<Rightarrow> fs_op" where
  "fs_remove_stat sb p = with_safe sb p (\<lambda>d f t. case sys_fstatat False d f t of
     Inl e \<Rightarrow> (Some (SysErr f e), t)
   | Inr (_, (n, _)) \<Rightarrow> name_error f (sys_unlinkat d f (n = DirNode) t))"

definition fs_remove :: "sandbox \<Rightarrow> string \<Rightarrow> fs_op" where
  "fs_remove sb p = with_safe sb p (\<lambda>d f t.
     if f = ''.'' then (Some (BadPath f), t)
     else case sys_unlinkat d f False t of
       (None, t) \<Rightarrow> (None, t)
     | (Some e, t) \<Rightarrow> (case sys_unlinkat d f True t of
         (None, t) \<Rightarrow> (None, t)
       | (Some e1, t) \<Rightarrow> (Some (SysErr f (if e1 \<noteq> ENOTDIR then e1 else e)), t)))"

section \<open>Making and renaming directories\<close>

text \<open>The path without its last element, or empty where there is none left.\<close>

definition parent_name :: "string \<Rightarrow> string" where
  "parent_name p = (let s = rev (dropWhile (\<lambda>c. c = CHR ''/'') (rev p));
       d = dropWhile (\<lambda>c. c \<noteq> CHR ''/'') (rev s)
     in if length d > 1 then rev (drop 1 d) else [])"

lemma parent_name_shorter: "parent_name p \<noteq> [] \<Longrightarrow> length (parent_name p) < length p"
proof -
  let ?s = "rev (dropWhile (\<lambda>c. c = CHR ''/'') (rev p))"
  have "length (dropWhile (\<lambda>c. c \<noteq> CHR ''/'') (rev ?s)) \<le> length p"
    by (rule order.trans [OF length_dropWhile_le]) (simp add: length_dropWhile_le [THEN order.trans])
  then show "parent_name p \<noteq> [] \<Longrightarrow> ?thesis" by (auto simp: parent_name_def Let_def split: if_splits)
qed

function mkdir_all :: "sandbox \<Rightarrow> nat \<Rightarrow> string \<Rightarrow> fs_op" where
  "mkdir_all sb mode p t = (case fs_stat sb False p t of
     Inr (_, (n, _)) \<Rightarrow>
       (case (case n of LinkNode _ \<Rightarrow> fs_stat sb True p t | _ \<Rightarrow> fs_stat sb False p t) of
          Inl e \<Rightarrow> (Some e, t)
        | Inr (_, (n, _)) \<Rightarrow> (if n = DirNode then None else Some (SysErr p ENOTDIR), t))
   | Inl _ \<Rightarrow>
       (case (if parent_name p \<noteq> [] then mkdir_all sb mode (parent_name p) t else (None, t)) of
          (Some e, t) \<Rightarrow> (Some e, t)
        | (None, t) \<Rightarrow> (case fs_mkdir sb p mode t of
            (None, t) \<Rightarrow> (None, t)
          | (Some e, t) \<Rightarrow> (case fs_stat sb False p t of
              Inr (_, (n, _)) \<Rightarrow> (if n = DirNode then None else Some e, t)
            | Inl _ \<Rightarrow> (Some e, t)))))"
  by pat_completeness auto
termination
  by (relation "measure (\<lambda>(sb, mode, p, t). length p)") (auto dest: parent_name_shorter)

declare mkdir_all.simps [simp del]

definition fs_mkdir_all :: "sandbox \<Rightarrow> string \<Rightarrow> nat \<Rightarrow> fs_op" where
  "fs_mkdir_all sb p mode t = (case unsafe_path sb p of Inl e \<Rightarrow> (Some e, t) | Inr name \<Rightarrow> mkdir_all sb mode name t)"

text \<open>
  \<^verbatim>\<open>TouchPath\<close>: the directory that is missing is made, and the path opened again; the flag says whether
  it was there already.
\<close>

definition touch_path :: "sandbox \<Rightarrow> string \<Rightarrow> tree \<Rightarrow> (fs_error + (path \<times> string)) \<times> bool \<times> tree" where
  "touch_path sb p t = (case safe_path sb t p of
     Inr r \<Rightarrow> (Inr r, True, t)
   | Inl e \<Rightarrow> (if \<not> not_exist e then (Inl e, False, t)
       else case fs_mkdir_all sb (err_path e) 493 t of
         (Some e', t) \<Rightarrow> (Inl e', False, t)
       | (None, t) \<Rightarrow> (safe_path sb t p, False, t)))"

definition fs_touch :: "sandbox \<Rightarrow> string \<Rightarrow> open_flags \<Rightarrow> nat \<Rightarrow> tree \<Rightarrow> (fs_error + path) \<times> tree" where
  "fs_touch sb p flags mode t = (case touch_path sb p t of
     (Inl e, _, t) \<Rightarrow> (Inl e, t)
   | (Inr (d, f), _, t) \<Rightarrow> openat_name sb d f (flags\<lparr>of_create := True\<rparr>) mode t)"

text \<open>The second half of \<^verbatim>\<open>Rename\<close>, with the new name's directory open.\<close>

definition rename_to :: "sandbox \<Rightarrow> path \<Rightarrow> string \<Rightarrow> path \<Rightarrow> string \<Rightarrow> string \<Rightarrow> fs_op" where
  "rename_to sb d f d' f' old t =
     (if f' = ''.'' then (Some (BadPath f'), t)
      else case sys_fstatat False d' f' t of
        Inr _ \<Rightarrow> (Some (SysErr f' EEXIST), t)
      | Inl e \<Rightarrow> (if e \<noteq> ENOENT then (Some (SysErr f' e), t) else name_error old (sys_renameat d f d' f' t)))"

definition fs_rename :: "sandbox \<Rightarrow> string \<Rightarrow> string \<Rightarrow> fs_op" where
  "fs_rename sb old new t =
     (if old = new then (None, t)
      else case safe_path sb t old of
        Inl e \<Rightarrow> (Some e, t)
      | Inr (d, f) \<Rightarrow>
          (if f = ''.'' then (Some (BadPath f), t)
           else case sys_fstatat False d f t of
             Inl e \<Rightarrow> (Some (SysErr f e), t)
           | Inr _ \<Rightarrow> (case safe_path sb t new of
               Inr (d', f') \<Rightarrow> rename_to sb d f d' f' old t
             | Inl e \<Rightarrow> (if \<not> not_exist e then (Some e, t)
                 else case fs_mkdir_all sb (err_path e) 493 t of
                   (Some e', t) \<Rightarrow> (Some e', t)
                 | (None, t) \<Rightarrow> (case safe_path sb t new of
                     Inl e' \<Rightarrow> (Some e', t)
                   | Inr (d', f') \<Rightarrow> rename_to sb d f d' f' old t)))))"

section \<open>Removing trees\<close>

text \<open>
  \<^verbatim>\<open>removeAllFrom\<close> with \<^verbatim>\<open>removeContentsFrom\<close>, to the given depth. The error of an entry of the
  directory is dropped, and the error that is given back is the one of the first attempt. The
  entries come in batches, which a failing one does not stop.
\<close>

fun remove_all_from :: "nat \<Rightarrow> path \<Rightarrow> string \<Rightarrow> sys" where
  "remove_all_from k d f t = (case sys_unlinkat d f False t of
     (None, t) \<Rightarrow> (None, t)
   | (Some e, t) \<Rightarrow>
       (if e = ENOENT then (None, t)
        else if e \<noteq> EISDIR \<and> e \<noteq> EPERM \<and> e \<noteq> EACCES then (Some e, t)
        else case sys_fstatat False d f t of
          Inl e' \<Rightarrow> (if e' = ENOENT then None else Some e', t)
        | Inr (_, (n, _)) \<Rightarrow>
            (if n \<noteq> DirNode then (Some e, t)
             else (case k of
                 0 \<Rightarrow> (Some e, t)
               | Suc k \<Rightarrow> (case sys_unlinkat d f True
                     (fold (\<lambda>c t. snd (remove_all_from k (at d f) c t)) (names_in t (at d f)) t) of
                   (None, t) \<Rightarrow> (None, t)
                 | (Some e', t) \<Rightarrow> (if e' = ENOENT then None else Some e, t))))))"

declare remove_all_from.simps [simp del]

definition remove_contents_from :: "nat \<Rightarrow> path \<Rightarrow> string \<Rightarrow> sys" where
  "remove_contents_from k d f t = (case look t (at d f) of
     Some (DirNode, _) \<Rightarrow> (None, fold (\<lambda>c t. snd (remove_all_from k (at d f) c t)) (names_in t (at d f)) t)
   | Some (FileNode _, _) \<Rightarrow> (Some ENOTDIR, t)
   | _ \<Rightarrow> (None, t))"

text \<open>No entry of the tree is deeper.\<close>

definition depth :: "tree \<Rightarrow> nat" where
  "depth t = Suc (fold max (map (length \<circ> fst) (tr_entries t)) 0)"

definition ends_with_dot :: "string \<Rightarrow> bool" where
  "ends_with_dot p \<longleftrightarrow> p = ''.'' \<or> has_suffix p ''/.''"

text \<open>\<^verbatim>\<open>splitPath\<close>: the parent directory and the base name.\<close>

definition split_path :: "string \<Rightarrow> string \<times> string" where
  "split_path p =
     (let r = dropWhile (\<lambda>c. c = CHR ''/'') p; p = (if r = p then p else CHR ''/'' # r);
          s = rev (dropWhile (\<lambda>c. c = CHR ''/'') (rev p)); s = (if s = [] \<and> p \<noteq> [] then ''/'' else s);
          b = rev (takeWhile (\<lambda>c. c \<noteq> CHR ''/'') (rev s)); d = take (length s - length b) s
      in if d = [] then (''.'', s) else if length d = 1 then (''/'', b) else (butlast d, b))"

definition in_parent :: "sandbox \<Rightarrow> string \<Rightarrow> (path \<Rightarrow> string \<Rightarrow> sys) \<Rightarrow> fs_op" where
  "in_parent sb name act t = (case split_path name of (parent, base) \<Rightarrow> (case fs_open sb parent t of
     (Inl e, t) \<Rightarrow> (if not_exist e then None else Some e, t)
   | (Inr d, t) \<Rightarrow> name_error (parent @ ''/'' @ base) (act d base t)))"

definition fs_remove_all :: "sandbox \<Rightarrow> string \<Rightarrow> fs_op" where
  "fs_remove_all sb p t = (case unsafe_path sb p of
     Inl e \<Rightarrow> (Some e, t)
   | Inr name \<Rightarrow>
       (if name = ''.'' then (Some (BadPath name), t)
        else if ends_with_dot name then (Some (SysErr name EINVAL), t)
        else case fs_remove sb name t of
          (None, t) \<Rightarrow> (None, t)
        | (Some e, t) \<Rightarrow> (if not_exist e then (None, t)
            else in_parent sb name (\<lambda>d f t. remove_all_from (depth t) d f t) t)))"

definition fs_remove_contents :: "sandbox \<Rightarrow> string \<Rightarrow> fs_op" where
  "fs_remove_contents sb p t = (case unsafe_path sb p of
     Inl e \<Rightarrow> (Some e, t)
   | Inr name \<Rightarrow> in_parent sb name (\<lambda>d f t. remove_contents_from (depth t) d f t) t)"


section \<open>A path opened safely is below the base\<close>

text \<open>The base is a clean absolute path, and each directory on the way to it is there and is no link.\<close>

definition sandboxed :: "sandbox \<Rightarrow> path \<Rightarrow> tree \<Rightarrow> bool" where
  "sandboxed sb b t \<longleftrightarrow> sb_base sb = show_path True b \<and> rooted_list b \<and> b \<noteq> [] \<and> (\<forall>q. prefix q b \<longrightarrow> is_dir t q)"

lemma trim_prefix_app: "trim_prefix (p @ r) p = r"
  by simp

lemma show_path_base:
  assumes "rooted_list b" "b \<noteq> []"
  shows "show_path True b \<noteq> []" "is_abs (show_path True b)"
  by (simp_all add: show_path_def is_abs_iff)

lemma inside_base_prefix:
  assumes "sandboxed sb b t" "rooted_list d"
  shows "inside_base sb (show_path True d) \<longleftrightarrow> prefix b d"
proof -
  let ?B = "show_path True b"
  have b: "sb_base sb = ?B" "rooted_list b" "b \<noteq> []" using assms(1) by (auto simp: sandboxed_def)
  show ?thesis
  proof (cases "d = []")
    case True
    then show ?thesis using b join_not_slash(1) [of b]
      by (auto simp: inside_base_def show_path_def trim_suffix_def has_suffix_def has_prefix_def)
  next
    case False
    then have trim: "trim_suffix (show_path True d) ''/'' = show_path True d"
      using show_path_suffix [OF assms(2)] by (simp add: trim_suffix_def)
    have x: "rooted_list (d @ [''x''])" using assms(2) by (simp add: rooted_list_def plain_comp_def)
    have ext: "show_path True (d @ [''x'']) = (show_path True d @ ''/'') @ ''x''"
      using False by (simp add: show_path_def join_with_append)
    have "has_prefix (show_path True d @ ''/'') (?B @ ''/'') \<longleftrightarrow> has_prefix (show_path True (d @ [''x''])) (?B @ ''/'')"
    proof
      assume "has_prefix (show_path True d @ ''/'') (?B @ ''/'')"
      then show "has_prefix (show_path True (d @ [''x''])) (?B @ ''/'')"
        unfolding has_prefix_iff ext by (metis append.assoc)
    next
      assume "has_prefix (show_path True (d @ [''x''])) (?B @ ''/'')"
      then obtain qs where "qs \<noteq> []" "d @ [''x''] = b @ qs" using show_path_child_prefix [OF b(2,3) x] by blast
      then obtain cs where cs: "d = b @ cs" by (metis append_butlast_last_id butlast_append butlast_snoc)
      then show "has_prefix (show_path True d @ ''/'') (?B @ ''/'')"
        using b(3) by (cases "cs = []") (auto simp: has_prefix_iff show_path_def join_with_append)
    qed
    also have "\<dots> \<longleftrightarrow> (\<exists>qs. qs \<noteq> [] \<and> d @ [''x''] = b @ qs)" by (rule show_path_child_prefix [OF b(2,3) x])
    also have "\<dots> \<longleftrightarrow> prefix b d"
      by (auto simp: prefix_def) (metis append_butlast_last_id butlast_append butlast_snoc)
    finally show ?thesis by (simp add: inside_base_def trim b(1))
  qed
qed

text \<open>The clean name of a path is the base itself or a list of plain components below it.\<close>

lemma unsafe_path_plain:
  assumes "sandboxed sb b t" "unsafe_path sb p = Inr name"
  obtains (base) "name = ''.''" | (below) cs where "cs \<noteq> []" "rooted_list cs" "name = join_with ''/'' cs"
proof -
  let ?B = "show_path True b"
  have b: "sb_base sb = ?B" "rooted_list b" "b \<noteq> []" using assms(1) by (auto simp: sandboxed_def)
  define q where "q = path_join [?B, trim_prefix p ?B]"
  have "is_abs q"
    using show_path_base [OF b(2,3)] by (auto simp: q_def path_join_def show_path_def intro!: is_abs_clean)
  then obtain rc where rc: "path_clean q = show_path True rc" "rooted_list rc"
    using rooted_list_path_comps by (auto simp: path_clean_def)
  have ins: "inside_base sb (path_clean q)" and name: "name =
      (let r = trim_prefix (trim_prefix (path_clean q) ?B) ''/'' in if r = [] then ''.'' else r)"
    using assms(2) by (auto simp: unsafe_path_def Let_def b(1) q_def split: if_splits)
  obtain cs where cs: "rc = b @ cs" using ins inside_base_prefix [OF assms(1) rc(2)] rc(1) by (auto simp: prefix_def)
  show thesis
  proof (cases "cs = []")
    case True
    then have "trim_prefix (trim_prefix (path_clean q) ?B) ''/'' = []"
      using rc(1) cs trim_prefix_app [of ?B "[]"] by (simp add: trim_prefix_def has_prefix_def)
    then show thesis using base name by simp
  next
    case False
    have rl: "rooted_list cs" using rc(2) cs by (auto simp: rooted_list_def)
    have "show_path True rc = ?B @ ''/'' @ join_with ''/'' cs"
      using cs False b(3) by (simp add: show_path_def join_with_append)
    then have "trim_prefix (trim_prefix (path_clean q) ?B) ''/'' = join_with ''/'' cs"
      using rc(1) trim_prefix_app [of ?B "''/'' @ join_with ''/'' cs"] trim_prefix_app [of "''/''" "join_with ''/'' cs"] by simp
    then show thesis using below [OF False rl] name join_not_slash(1) [OF rl False] by simp
  qed
qed

lemma path_split_join:
  assumes "rooted_list cs" "cs \<noteq> []"
  shows "path_split (join_with ''/'' cs) =
    (if length cs = 1 then [] else join_with ''/'' (butlast cs) @ ''/'', last cs)"
proof -
  obtain ds c where cs: "cs = ds @ [c]" using assms(2) by (cases cs rule: rev_cases) auto
  have c: "CHR ''/'' \<notin> set c" using assms(1) cs by (auto simp: rooted_list_def plain_comp_def)
  then have all: "takeWhile (\<lambda>x. x \<noteq> CHR ''/'') (rev c) = rev c" by (simp add: takeWhile_eq_all_conv) blast
  have tw: "takeWhile (\<lambda>x. x \<noteq> CHR ''/'') (rev c @ CHR ''/'' # u) = rev c" for u
    using c by (subst takeWhile_append2) auto
  show ?thesis
  proof (cases "ds = []")
    case True
    then show ?thesis using cs by (simp add: path_split_def all)
  next
    case False
    then have "join_with ''/'' cs = join_with ''/'' ds @ CHR ''/'' # c" using cs by (simp add: join_with_append)
    then show ?thesis using tw cs False by (simp add: path_split_def)
  qed
qed

lemma open_base:
  assumes "sandboxed sb b t"
  shows "sys_open_dir t (sb_base sb) = Inr b"
proof -
  have b: "sb_base sb = show_path True b" "rooted_list b" "b \<noteq> []" "\<forall>q. prefix q b \<longrightarrow> is_dir t q"
    using assms by (auto simp: sandboxed_def)
  have "split_on CHR ''/'' (join_with ''/'' b) = b" using split_join rooted_list_slash [OF b(2)] b(3) by blast
  then have "split_on CHR ''/'' (show_path True b) = [] # b" by (simp add: show_path_def)
  moreover have "is_abs (show_path True b)" by simp
  ultimately show ?thesis
    using b resolve_plain [of "[]" b t None True max_links] by (simp add: sys_open_dir_def)
qed

lemma openat_dir_below:
  assumes "sandboxed sb b t" "openat_dir sb t b dir = Inr d"
  shows "prefix b d" "is_dir t d"
proof -
  have b: "rooted_list b" using assms(1) by (simp add: sandboxed_def)
  have open_d: "sys_openat_dir t (if sb_openat2 sb then Some b else None) b dir = Inr d"
    "sb_openat2 sb \<or> inside_base sb (show_path True d)"
    using assms(2) by (auto simp: openat_dir_def split: sum.splits if_splits)
  then show dir: "is_dir t d" by (auto simp: sys_openat_dir_def split: sum.splits if_splits)
  have res: "resolve t (if sb_openat2 sb then Some b else None) False max_links b (split_on CHR ''/'' dir) = Inr d"
    using open_d(1) by (auto simp: sys_openat_dir_def split: sum.splits if_splits)
  show "prefix b d"
  proof (cases "sb_openat2 sb")
    case True
    then show ?thesis using res resolve_beneath [of t b False max_links b _ d] by simp
  next
    case False
    have "rooted_list d" by (rule resolve_rooted [OF res b]) (auto dest: split_on_no_sep)
    then show ?thesis using open_d(2) False inside_base_prefix [OF assms(1)] by simp
  qed
qed

lemma safe_path_below:
  assumes "sandboxed sb b t" "safe_path sb t p = Inr (d, f)"
  shows "prefix b d" "is_dir t d" "f = ''.'' \<or> \<not> dot_name f" "CHR ''/'' \<notin> set f"
proof -
  have "is_dir t b" using assms(1) by (simp add: sandboxed_def)
  obtain name where name: "unsafe_path sb p = Inr name" using assms(2) by (auto simp: safe_path_def split: sum.splits)
  have split: "case path_split name of (dir, f') \<Rightarrow> f' = f \<and>
      (if dir = [] then d = b else openat_dir sb t b (trim_suffix dir ''/'') = Inr d)"
    using assms(2) name open_base [OF assms(1)] by (auto simp: safe_path_def split: prod.splits sum.splits if_splits)
  show "prefix b d" "is_dir t d"
    using split openat_dir_below [OF assms(1)] \<open>is_dir t b\<close> by (auto split: prod.splits if_splits)
  show "f = ''.'' \<or> \<not> dot_name f" "CHR ''/'' \<notin> set f"
  proof -
    have "f = ''.'' \<or> (plain_comp f \<and> f \<noteq> ''..'')"
      using assms(1) name
    proof (cases rule: unsafe_path_plain)
      case base
      then show ?thesis using split by (simp add: path_split_def)
    next
      case (below cs)
      then have "f = last cs" using split path_split_join [OF below(2,1)] by simp
      moreover have "last cs \<in> set cs" using below(1) by simp
      ultimately show ?thesis using below(2) by (auto simp: rooted_list_def list_all_iff)
    qed
    then show "f = ''.'' \<or> \<not> dot_name f" "CHR ''/'' \<notin> set f" by (auto simp: dot_name_def plain_comp_def)
  qed
qed

section \<open>Operations stay below the base\<close>

definition stays :: "sandbox \<Rightarrow> path \<Rightarrow> tree \<Rightarrow> tree \<Rightarrow> bool" where
  "stays sb b t t' \<longleftrightarrow> (sandboxed sb b t \<longrightarrow> confined b t t')"

lemma sandboxed_confined: "sandboxed sb b t \<Longrightarrow> confined b t t' \<Longrightarrow> sandboxed sb b t'"
proof -
  assume s: "sandboxed sb b t" and c: "confined b t t'"
  have "is_dir t' q" if "prefix q b" for q
  proof -
    have "\<not> strict_prefix b q" using that by (auto simp: strict_prefix_def dest: prefix_order.antisym)
    then show ?thesis using is_dir_confined [OF c] s that by (simp add: sandboxed_def)
  qed
  then show ?thesis using s by (simp add: sandboxed_def)
qed

lemma stays_refl [simp]: "stays sb b t t"
  by (simp add: stays_def)

lemma stays_trans: "stays sb b t u \<Longrightarrow> stays sb b u v \<Longrightarrow> stays sb b t v"
  unfolding stays_def using sandboxed_confined confined_trans by blast

lemma stays_with_safe:
  assumes "\<And>d f. prefix b d \<Longrightarrow> f = ''.'' \<or> \<not> dot_name f \<Longrightarrow> confined b t (snd (act d f t))"
  shows "stays sb b t (snd (with_safe sb p act t))"
proof (cases "safe_path sb t p")
  case (Inr r)
  then obtain d f where r: "safe_path sb t p = Inr (d, f)" by (cases r) auto
  show ?thesis using safe_path_below [OF _ r] assms by (auto simp: stays_def with_safe_def r)
qed (simp add: with_safe_def)

lemma dot_calls:
  "snd (sys_mkdirat d ''.'' mode t) = t" "snd (sys_unlinkat d ''.'' rmdir t) = t" "snd (sys_symlinkat target d ''.'' t) = t"
  by (simp_all add: sys_mkdirat_def sys_unlinkat_def sys_symlinkat_def dot_name_def Let_def)

lemma dot_openat: "is_dir t d \<Longrightarrow> snd (sys_openat d ''.'' flags mode t) = t"
  by (auto simp: sys_openat_def at_def is_dir_def Let_def split: option.splits node.splits prod.splits)

lemma stays_mkdir: "stays sb b t (snd (fs_mkdir sb p mode t))"
  unfolding fs_mkdir_def by (rule stays_with_safe) (auto simp: name_error_def dot_calls confined_calls)

lemma stays_symlink: "stays sb b t (snd (fs_symlink sb target p t))"
  unfolding fs_symlink_def by (rule stays_with_safe) (auto simp: name_error_def dot_calls confined_calls)

lemma stays_remove_stat: "stays sb b t (snd (fs_remove_stat sb p t))"
  unfolding fs_remove_stat_def
  by (rule stays_with_safe) (auto simp: name_error_def dot_calls confined_calls split: sum.split prod.split)

lemma unlink_error_same: "sys_unlinkat d f rmdir t = (Some e, u) \<Longrightarrow> u = t"
  by (auto simp: sys_unlinkat_def Let_def split: if_splits option.splits prod.splits)

lemma stays_remove: "stays sb b t (snd (fs_remove sb p t))"
  unfolding fs_remove_def
proof (rule stays_with_safe)
  fix d f
  assume d: "prefix b d" "f = ''.'' \<or> \<not> dot_name f"
  show "confined b t (snd (if f = ''.'' then (Some (BadPath f), t)
     else case sys_unlinkat d f False t of
       (None, t) \<Rightarrow> (None, t)
     | (Some e, t) \<Rightarrow> (case sys_unlinkat d f True t of
         (None, t) \<Rightarrow> (None, t)
       | (Some e1, t) \<Rightarrow> (Some (SysErr f (if e1 \<noteq> ENOTDIR then e1 else e)), t))))"
  proof (cases "f = ''.''")
    case False
    then have 1: "confined b u (snd (sys_unlinkat d f r u))" for r u using d confined_calls(3) by blast
    obtain r1 u1 where 2: "sys_unlinkat d f False t = (r1, u1)" by fastforce
    obtain r2 u2 where 3: "sys_unlinkat d f True u1 = (r2, u2)" by fastforce
    have "confined b t u1" "confined b u1 u2" using 1 2 3 by (metis snd_conv)+
    then show ?thesis using False by (auto simp: 2 3 split: option.split intro: confined_trans)
  qed simp
qed


lemma confined_openat_name:
  assumes "prefix b d" "f = ''.'' \<or> \<not> dot_name f" "is_dir t d"
  shows "confined b t (snd (openat_name sb d f flags mode t))"
proof -
  have "confined b t (snd (sys_openat d f flags mode t))"
    using assms confined_calls(1) dot_openat by (metis confined_refl)
  moreover have "snd (openat_name sb d f flags mode t) = snd (sys_openat d f flags mode t)"
    by (auto simp: openat_name_def split: prod.split sum.split)
  ultimately show ?thesis by simp
qed

lemma stays_open_file: "stays sb b t (snd (fs_open_file sb p flags mode t))"
proof (cases "safe_path sb t p")
  case (Inr r)
  then obtain d f where r: "safe_path sb t p = Inr (d, f)" by (cases r) auto
  show ?thesis
    using safe_path_below [OF _ r] confined_openat_name by (auto simp: stays_def fs_open_file_def r)
qed (simp add: fs_open_file_def)

lemma stays_sequel:
  "stays sb b t (snd r) \<Longrightarrow> (\<And>u. stays sb b t u \<Longrightarrow> stays sb b t (snd (g u))) \<Longrightarrow>
   (\<And>e u. stays sb b t u \<Longrightarrow> stays sb b t (snd (h e u))) \<Longrightarrow>
     stays sb b t (snd (case r of (None, u) \<Rightarrow> g u | (Some e, u) \<Rightarrow> h (e :: fs_error) u))"
  by (cases r) (auto split: option.split)

lemma stays_after: "stays sb b t u \<Longrightarrow> (\<And>v. stays sb b v (snd (act v))) \<Longrightarrow> stays sb b t (snd (act u))"
  by (blast intro: stays_trans)

lemma stays_mkdir_all_name: "stays sb b t (snd (mkdir_all sb mode p t))"
proof (induction sb mode p t rule: mkdir_all.induct)
  case (1 sb mode p t)
  show ?case
  proof (cases "fs_stat sb False p t")
    case (Inl e)
    define m where "m = (if parent_name p \<noteq> [] then mkdir_all sb mode (parent_name p) t else (None, t))"
    have m: "stays sb b t (snd m)" using 1 Inl by (simp add: m_def)
    have "stays sb b t (snd (case fs_mkdir sb p mode u of
            (None, t) \<Rightarrow> (None, t)
          | (Some e, t) \<Rightarrow> (case fs_stat sb False p t of
              Inr (_, (n, _)) \<Rightarrow> (if n = DirNode then None else Some e, t)
            | Inl _ \<Rightarrow> (Some e, t))))" if "stays sb b t u" for u
      by (rule stays_sequel [OF stays_after [OF that stays_mkdir]]) (auto split: sum.split)
    then show ?thesis
      by (subst mkdir_all.simps) (simp add: Inl m_def [symmetric] stays_sequel [OF m])
  qed (auto simp: mkdir_all.simps split: sum.split node.split)
qed

lemma stays_mkdir_all: "stays sb b t (snd (fs_mkdir_all sb p mode t))"
  by (auto simp: fs_mkdir_all_def stays_mkdir_all_name split: sum.split)

lemma stays_touch: "stays sb b t (snd (fs_touch sb p flags mode t))"
proof -
  obtain r new u where tp: "touch_path sb p t = (r, new, u)" by (metis surj_pair)
  have u: "stays sb b t u"
    using tp stays_mkdir_all [of sb b t _ 493] by (auto simp: touch_path_def split: sum.splits if_splits prod.splits option.splits)
      (metis snd_conv)+
  have safe: "r = Inr (d, f) \<Longrightarrow> safe_path sb u p = Inr (d, f)" for d f
    using tp by (auto simp: touch_path_def split: sum.splits if_splits prod.splits option.splits)
  have "stays sb b u (snd (openat_name sb d f fl mode u))" if r: "r = Inr (d, f)" for d f fl
    unfolding stays_def
  proof
    assume s: "sandboxed sb b u"
    note below = safe_path_below [OF s safe [OF r]]
    show "confined b u (snd (openat_name sb d f fl mode u))" by (rule confined_openat_name [OF below(1,3,2)])
  qed
  then show ?thesis using u tp by (auto simp: fs_touch_def split: sum.split intro: stays_trans)
qed


lemma stays_rename_to:
  assumes "sandboxed sb b t" "prefix b d" "f = ''.'' \<or> \<not> dot_name f" "prefix b d'" "f' = ''.'' \<or> \<not> dot_name f'" "f \<noteq> ''.''"
  shows "confined b t (snd (rename_to sb d f d' f' old t))"
  using assms confined_rename [of b d f d' f' t]
  by (auto simp: rename_to_def name_error_def split: sum.split)

lemma stays_rename: "stays sb b t (snd (fs_rename sb old new t))"
proof -
  have "confined b t (snd (fs_rename sb old new t))" if s: "sandboxed sb b t"
  proof (cases "old = new")
    case False
    show ?thesis
    proof (cases "safe_path sb t old")
      case (Inr r)
      then obtain d f where r: "safe_path sb t old = Inr (d, f)" by (cases r) auto
      note df = safe_path_below [OF s r]
      show ?thesis
      proof (cases "f \<noteq> ''.'' \<and> (\<exists>q. sys_fstatat False d f t = Inr q)")
        case True
        then obtain q where q: "sys_fstatat False d f t = Inr q" "f \<noteq> ''.''" by blast
        have to: "confined b u (snd (rename_to sb d f d' f' old u))"
          if "sandboxed sb b u" "safe_path sb u new = Inr (d', f')" for u d' f'
          using stays_rename_to [OF that(1) df(1,3) safe_path_below(1,3) [OF that] q(2)] .
        show ?thesis
        proof (cases "safe_path sb t new")
          case (Inr x)
          then show ?thesis using to [OF s] False r q by (cases x) (simp add: fs_rename_def)
        next
          case (Inl e)
          obtain m u where m: "fs_mkdir_all sb (err_path e) 493 t = (m, u)" by fastforce
          have c: "confined b t u" using stays_mkdir_all [of sb b t "err_path e" 493] m s by (simp add: stays_def)
          note s' = sandboxed_confined [OF s c]
          have "confined b t (snd (case safe_path sb u new of Inl e' \<Rightarrow> (Some e', u)
              | Inr (d', f') \<Rightarrow> rename_to sb d f d' f' old u))"
            using c to [OF s'] by (auto split: sum.split intro: confined_trans)
          then show ?thesis using False r q Inl m c by (auto simp: fs_rename_def split: option.split)
        qed
      qed (use False r in \<open>auto simp: fs_rename_def split: sum.split\<close>)
    qed (use False in \<open>simp add: fs_rename_def\<close>)
  qed (simp add: fs_rename_def)
  then show ?thesis by (simp add: stays_def)
qed

lemma confined_fold:
  "(\<And>c u. c \<in> set cs \<Longrightarrow> confined b u (f c u)) \<Longrightarrow> confined b t (fold f cs t)"
  by (induction cs arbitrary: t) (auto intro: confined_trans)

lemma confined_remove_all_from:
  "prefix b d \<Longrightarrow> \<not> dot_name f \<Longrightarrow> confined b t (snd (remove_all_from k d f t))"
proof (induction k arbitrary: d f t)
  case 0
  obtain r u where 1: "sys_unlinkat d f False t = (r, u)" by fastforce
  have "confined b t u" using confined_calls(3) [OF 0, where t = t and rmdir = False] 1 by simp
  then show ?case by (auto simp: remove_all_from.simps [of 0] 1 split: option.split sum.split)
next
  case (Suc k)
  obtain r u where 1: "sys_unlinkat d f False t = (r, u)" by fastforce
  have u: "confined b t u" using confined_calls(3) [OF Suc.prems, where t = t and rmdir = False] 1 by simp
  define v where "v = fold (\<lambda>c t. snd (remove_all_from k (at d f) c t)) (names_in u (at d f)) u"
  have "prefix b (at d f)" using at_below [OF Suc.prems] by (simp add: strict_prefix_def)
  then have "confined b u v"
    unfolding v_def by (intro confined_fold Suc.IH) (simp_all add: names_in_iff)
  moreover obtain r' w where 2: "sys_unlinkat d f True v = (r', w)" by fastforce
  moreover have "confined b v w" using confined_calls(3) [OF Suc.prems, where t = v and rmdir = True] 2 by simp
  ultimately have "confined b t w" using u by (blast intro: confined_trans)
  then show ?case using u
    by (auto simp: remove_all_from.simps [of "Suc k"] 1 v_def [symmetric] 2 split: option.split sum.split)
qed

lemma confined_remove_contents:
  assumes "prefix b (at d f)"
  shows "confined b t (snd (remove_contents_from k d f t))"
proof -
  have "confined b t (fold (\<lambda>c t. snd (remove_all_from k (at d f) c t)) (names_in t (at d f)) t)"
    by (intro confined_fold confined_remove_all_from assms) (simp add: names_in_iff)
  then show ?thesis by (auto simp: remove_contents_from_def split: option.split node.split)
qed


lemma at_prefix: "prefix b d \<Longrightarrow> f = ''.'' \<or> \<not> dot_name f \<Longrightarrow> prefix b (at d f)"
  by (auto simp: at_def dot_name_def)

lemma open_below:
  assumes "sandboxed sb b t" "fs_open sb p t = (Inr q, u)"
  shows "prefix b q"
proof -
  obtain d f where r: "safe_path sb t p = Inr (d, f)" "openat_name sb d f read_flags 0 t = (Inr q, u)"
    using assms(2) by (auto simp: fs_open_def fs_open_file_def split: sum.splits)
  have "q = at d f"
    using r(2) by (auto simp: openat_name_def sys_openat_def Let_def split: prod.splits sum.splits if_splits option.splits node.splits)
  moreover have "prefix b d" "f = ''.'' \<or> \<not> dot_name f" using safe_path_below [OF assms(1) r(1)] by auto
  ultimately show ?thesis by (simp add: at_prefix)
qed

lemma split_path_join:
  assumes "rooted_list cs" "cs \<noteq> []"
  shows "snd (split_path (join_with ''/'' cs)) = last cs"
proof -
  let ?p = "join_with ''/'' cs"
  have ne: "?p \<noteq> []" "hd ?p \<noteq> CHR ''/''" "last ?p \<noteq> CHR ''/''"
    using join_not_slash [OF assms] has_suffix_single [of ?p] by (auto simp: has_prefix_def hd_conv_nth take_Suc)
  have 1: "dropWhile (\<lambda>c. c = CHR ''/'') ?p = ?p" using ne by (cases ?p) auto
  have 2: "dropWhile (\<lambda>c. c = CHR ''/'') (rev ?p) = rev ?p"
    using ne by (cases "rev ?p") (auto simp: last_rev hd_rev [symmetric])
  define w where "w = takeWhile (\<lambda>c. c \<noteq> CHR ''/'') (rev ?p)"
  have ps: "path_split ?p = (take (length ?p - length w) ?p, rev w)" by (simp add: path_split_def w_def)
  then have w: "rev w = last cs" using path_split_join [OF assms] by simp
  have "?p = last cs" if "length ?p \<le> length w"
    using that ps path_split_join [OF assms] assms(2) by (cases cs; auto split: if_splits)
  then show ?thesis
    using ne 1 2 w by (auto simp: split_path_def Let_def w_def [symmetric])
qed

lemma stays_in_parent:
  assumes "unsafe_path sb p = Inr name"
    "\<And>d f u. prefix b d \<Longrightarrow> f = ''.'' \<and> name = ''.'' \<or> \<not> dot_name f \<Longrightarrow> confined b u (snd (act d f u))"
  shows "stays sb b t (snd (in_parent sb name act t))"
  unfolding stays_def
proof
  assume s: "sandboxed sb b t"
  obtain parent base where sp: "split_path name = (parent, base)" by fastforce
  have base: "base = ''.'' \<and> name = ''.'' \<or> \<not> dot_name base"
    using s assms(1)
  proof (cases rule: unsafe_path_plain)
    case base
    then show ?thesis using sp by (auto simp: split_path_def Let_def)
  next
    case (below cs)
    then have "base = last cs" using split_path_join [OF below(2,1)] sp by simp
    moreover have "last cs \<in> set cs" using below(1) by simp
    ultimately show ?thesis using below(2) by (auto simp: rooted_list_def list_all_iff dot_name_def plain_comp_def)
  qed
  obtain r u where op: "fs_open sb parent t = (r, u)" by fastforce
  have u: "confined b t u" using stays_open_file [of sb b t parent read_flags 0] s op by (simp add: stays_def fs_open_def)
  show "confined b t (snd (in_parent sb name act t))"
  proof (cases r)
    case (Inr d)
    then have "confined b u (snd (act d base u))" using assms(2) base open_below [OF s] op by blast
    then show ?thesis using u by (auto simp: in_parent_def sp op Inr name_error_def intro: confined_trans)
  qed (use u in \<open>simp add: in_parent_def sp op\<close>)
qed

lemma stays_remove_all: "stays sb b t (snd (fs_remove_all sb p t))"
proof (cases "unsafe_path sb p")
  case (Inr name)
  show ?thesis
  proof (cases "name = ''.'' \<or> ends_with_dot name")
    case False
    obtain r u where r: "fs_remove sb name t = (r, u)" by fastforce
    have u: "stays sb b t u" using stays_remove [of sb b t name] r by simp
    have "stays sb b u (snd (in_parent sb name (\<lambda>d f t. remove_all_from (depth t) d f t) u))"
      by (rule stays_in_parent [OF Inr]) (use False in \<open>auto intro: confined_remove_all_from\<close>)
    then show ?thesis using u False by (auto simp: fs_remove_all_def Inr r split: option.split intro: stays_trans)
  qed (auto simp: fs_remove_all_def Inr)
qed (simp add: fs_remove_all_def)

lemma stays_remove_contents: "stays sb b t (snd (fs_remove_contents sb p t))"
proof (cases "unsafe_path sb p")
  case (Inr name)
  have "prefix b (at d f)" if "prefix b d" "f = ''.'' \<and> name = ''.'' \<or> \<not> dot_name f" for d f
    using that at_prefix by blast
  then show ?thesis
    by (simp add: fs_remove_contents_def Inr) (rule stays_in_parent [OF Inr], rule confined_remove_contents, blast)
qed (simp add: fs_remove_contents_def)


section \<open>No sequence of operations leaves the base\<close>

datatype fs_call =
    CallMkdir string nat
  | CallMkdirAll string nat
  | CallOpen string open_flags nat
  | CallTouch string open_flags nat
  | CallSymlink string string
  | CallRemove string
  | CallRemoveStat string
  | CallRemoveAll string
  | CallRemoveContents string
  | CallRename string string
  | CallChmod string nat
  | CallChown string int int
  | CallLchown string int int
  | CallChtimes string "int option" "int option"

fun fs_exec :: "sandbox \<Rightarrow> fs_call \<Rightarrow> tree \<Rightarrow> tree" where
  "fs_exec sb (CallMkdir p m) t = snd (fs_mkdir sb p m t)"
| "fs_exec sb (CallMkdirAll p m) t = snd (fs_mkdir_all sb p m t)"
| "fs_exec sb (CallOpen p fl m) t = snd (fs_open_file sb p fl m t)"
| "fs_exec sb (CallTouch p fl m) t = snd (fs_touch sb p fl m t)"
| "fs_exec sb (CallSymlink target p) t = snd (fs_symlink sb target p t)"
| "fs_exec sb (CallRemove p) t = snd (fs_remove sb p t)"
| "fs_exec sb (CallRemoveStat p) t = snd (fs_remove_stat sb p t)"
| "fs_exec sb (CallRemoveAll p) t = snd (fs_remove_all sb p t)"
| "fs_exec sb (CallRemoveContents p) t = snd (fs_remove_contents sb p t)"
| "fs_exec sb (CallRename old new) t = snd (fs_rename sb old new t)"
| "fs_exec sb (CallChmod p m) t = snd (fs_chmod sb p m t)"
| "fs_exec sb (CallChown p u g) t = snd (fs_chown sb True p u g t)"
| "fs_exec sb (CallLchown p u g) t = snd (fs_chown sb False p u g t)"
| "fs_exec sb (CallChtimes p a m) t = snd (fs_chtimes sb p a m t)"

text \<open>The calls that change attributes, and those of them that follow a link at the end of the path.\<close>

fun through_link :: "fs_call \<Rightarrow> bool" where
  "through_link (CallChmod p m) = True"
| "through_link (CallChown p u g) = True"
| "through_link (CallChtimes p a m) = True"
| "through_link _ = False"

fun changes_attrs :: "fs_call \<Rightarrow> bool" where
  "changes_attrs (CallLchown p u g) = True"
| "changes_attrs c = through_link c"

lemma stays_exec: "\<not> changes_attrs c \<Longrightarrow> stays sb b t (fs_exec sb c t)"
  by (cases c) (simp_all add: stays_mkdir stays_mkdir_all stays_open_file stays_touch stays_symlink stays_remove
      stays_remove_stat stays_remove_all stays_remove_contents stays_rename)

lemma sandboxed_nodes: "sandboxed sb b t \<Longrightarrow> same_nodes b t t' \<Longrightarrow> sandboxed sb b t'"
proof -
  assume s: "sandboxed sb b t" and n: "same_nodes b t t'"
  have "is_dir t' q" if "prefix q b" for q
  proof -
    have "\<not> strict_prefix b q" using that by (auto simp: strict_prefix_def dest: prefix_order.antisym)
    then show ?thesis using n s that by (simp add: same_nodes_def sandboxed_def is_dir_node)
  qed
  then show ?thesis using s by (simp add: sandboxed_def)
qed

text \<open>What each call does outside the base, with and without the calls that go through a link.\<close>

lemma exec_outside:
  assumes "sandboxed sb b t"
  shows "same_nodes b t (fs_exec sb c t) \<and>
    (\<not> through_link c \<longrightarrow> \<not> prefix b p \<longrightarrow> look (fs_exec sb c t) p = look t p)"
proof (cases "changes_attrs c")
  case False
  then have "confined b t (fs_exec sb c t)" using stays_exec assms by (auto simp: stays_def)
  then show ?thesis using confined_same_nodes by (auto simp: confined_def strict_prefix_def)
next
  case True
  have nodes: "same_nodes b t (snd (with_safe sb q (\<lambda>d f t. name_error (e d f) (set_attrs fo d f (ch d f) t)) t))" for q e fo ch
    by (auto simp: with_safe_def name_error_def same_nodes_def set_attrs_nodes split: sum.split)
  have "look (snd (fs_chown sb False q u g t)) p = look t p" if "\<not> prefix b p" for q u g
  proof (cases "safe_path sb t q")
    case (Inr r)
    then obtain d f where r: "safe_path sb t q = Inr (d, f)" by (cases r) auto
    show ?thesis
      using set_attrs_below [OF safe_path_below(1,3) [OF assms r] that] by (simp add: fs_chown_def sys_fchownat_def with_safe_def name_error_def r)
  qed (simp add: fs_chown_def with_safe_def)
  then show ?thesis using True nodes
    by (cases c) (auto simp: fs_chmod_def fs_chown_def fs_chtimes_def sys_fchmodat_def sys_fchownat_def sys_utimensat_def)
qed

lemma run_outside:
  assumes "sandboxed sb b t"
  shows "same_nodes b t (fold (fs_exec sb) calls t) \<and>
    ((\<forall>c \<in> set calls. \<not> through_link c) \<longrightarrow> \<not> prefix b p \<longrightarrow> look (fold (fs_exec sb) calls t) p = look t p)"
  using assms
proof (induction calls arbitrary: t)
  case (Cons c calls)
  note c = exec_outside [OF Cons.prems, of c p]
  then have s: "sandboxed sb b (fs_exec sb c t)" using sandboxed_nodes [OF Cons.prems] by blast
  from Cons.IH [OF s] c show ?case by (auto intro: same_nodes_trans)
qed simp

text \<open>
  C9. Whatever paths and links a server's files hold and whatever paths it is asked for, with \<^verbatim>\<open>openat2\<close> or without, no
  sequence of operations makes, removes, replaces or rewrites anything outside the base directory, or the base
  itself. Changing modes, owners and times follows a link at the end of the path, so these attributes are the only
  thing that can change outside; a sequence without \<^verbatim>\<open>Chmod\<close>, \<^verbatim>\<open>Chown\<close> and \<^verbatim>\<open>Chtimes\<close> changes nothing outside at all,
  and one without \<^verbatim>\<open>Lchown\<close> as well does not change the base either.
\<close>

theorem sandbox_confined:
  assumes "sandboxed sb b t" "\<not> strict_prefix b p"
  shows "map_option fst (look (fold (fs_exec sb) calls t) p) = map_option fst (look t p) \<and>
    ((\<forall>c \<in> set calls. \<not> through_link c) \<longrightarrow> p \<noteq> b \<longrightarrow> look (fold (fs_exec sb) calls t) p = look t p) \<and>
    ((\<forall>c \<in> set calls. \<not> changes_attrs c) \<longrightarrow> look (fold (fs_exec sb) calls t) p = look t p)"
proof -
  have "stays sb b t (fold (fs_exec sb) calls t)" if "\<forall>c \<in> set calls. \<not> changes_attrs c"
    using that by (induction calls arbitrary: t) (auto intro: stays_trans stays_exec)
  moreover have "\<not> prefix b p" if "p \<noteq> b" using assms(2) that by (simp add: strict_prefix_def)
  ultimately show ?thesis using assms run_outside [OF assms(1), of calls p] by (auto simp: stays_def confined_def same_nodes_def)
qed

text \<open>
  What is opened is below the base and is there, and was there before unless the caller asked for it to
  be created: a link inside the base that points elsewhere cannot be opened through.
\<close>

theorem open_stays_below:
  assumes "sandboxed sb b t" "fs_open_file sb p flags mode t = (Inr q, u)"
  shows "prefix b q \<and> look u q \<noteq> None \<and> (\<not> of_create flags \<longrightarrow> look t q \<noteq> None)"
proof -
  obtain d f where r: "safe_path sb t p = Inr (d, f)" "openat_name sb d f flags mode t = (Inr q, u)"
    using assms(2) by (auto simp: fs_open_file_def split: sum.splits)
  have sys: "sys_openat d f flags mode t = (Inr q, u)"
    using r(2) by (auto simp: openat_name_def split: prod.splits sum.splits if_splits)
  then have q: "q = at d f"
    by (auto simp: sys_openat_def Let_def split: sum.splits if_splits option.splits node.splits)
  have "look u q \<noteq> None \<and> (\<not> of_create flags \<longrightarrow> look t q \<noteq> None)"
    using sys look_put [of q _ t q]
    by (auto simp: sys_openat_def Let_def q look_def put_entry_def split: sum.splits if_splits option.splits node.splits)
  moreover have "prefix b q" using at_prefix safe_path_below(1,3) [OF assms(1) r(1)] q by simp
  ultimately show ?thesis by blast
qed

section \<open>What the operations achieve\<close>

lemma shrinks_remove_all_from: "\<not> dot_name f \<Longrightarrow> shrinks t (snd (remove_all_from k d f t))"
proof (induction k arbitrary: d f t)
  case 0
  obtain r u where 1: "sys_unlinkat d f False t = (r, u)" by fastforce
  have "shrinks t u" using shrinks_unlink [OF 0, where t = t and d = d and rmdir = False] 1 by simp
  then show ?case by (auto simp: remove_all_from.simps [of 0] 1 split: option.split sum.split)
next
  case (Suc k)
  obtain r u where 1: "sys_unlinkat d f False t = (r, u)" by fastforce
  have u: "shrinks t u" using shrinks_unlink [OF Suc.prems, where t = t and d = d and rmdir = False] 1 by simp
  define v where "v = fold (\<lambda>c t. snd (remove_all_from k (at d f) c t)) (names_in u (at d f)) u"
  have "shrinks u v" unfolding v_def by (intro shrinks_fold Suc.IH) (simp add: names_in_iff)
  moreover obtain r' w where 2: "sys_unlinkat d f True v = (r', w)" by fastforce
  moreover have "shrinks v w" using shrinks_unlink [OF Suc.prems, where t = v and d = d and rmdir = True] 2 by simp
  ultimately have "shrinks t w" using u by (blast intro: shrinks_trans)
  then show ?case using u
    by (auto simp: remove_all_from.simps [of "Suc k"] 1 v_def [symmetric] 2 split: option.split sum.split)
qed

text \<open>Nothing that is not at or below the entry is touched.\<close>

lemma unlink_keeps:
  assumes "\<not> dot_name f" "q \<noteq> d @ [f]"
  shows "look (snd (sys_unlinkat d f rmdir t)) q = look t q"
  using assms by (auto simp: sys_unlinkat_def at_def dot_name_def Let_def look_drop split: option.split)

lemma keeps_others:
  assumes "\<not> dot_name f" "\<not> prefix (d @ [f]) q"
  shows "look (snd (remove_all_from k d f t)) q = look t q"
proof -
  have at: "at d f = d @ [f]" using assms(1) by (simp add: at_def dot_name_def)
  have ne: "q \<noteq> d @ [f]" using assms(2) by auto
  obtain r u where 1: "sys_unlinkat d f False t = (r, u)" by fastforce
  have u: "look u q = look t q" using unlink_keeps [OF assms(1) ne, of False t] 1 by simp
  show ?thesis
  proof (cases k)
    case 0
    then show ?thesis using u by (auto simp: remove_all_from.simps [of 0] 1 split: option.split sum.split)
  next
    case (Suc j)
    define v where "v = fold (\<lambda>c t. snd (remove_all_from j (at d f) c t)) (names_in u (at d f)) u"
    have "confined (d @ [f]) u v"
      unfolding v_def by (intro confined_fold confined_remove_all_from) (simp_all add: at names_in_iff)
    then have v: "look v q = look t q" using u assms(2) by (simp add: confined_def strict_prefix_def)
    obtain r' w where 2: "sys_unlinkat d f True v = (r', w)" by fastforce
    have "look w q = look t q" using unlink_keeps [OF assms(1) ne, of True v] 2 v by simp
    then show ?thesis using u
      by (auto simp: Suc remove_all_from.simps [of "Suc j"] 1 v_def [symmetric] 2 split: option.split sum.split)
  qed
qed

text \<open>No entry at or below \<open>p\<close> is \<open>k\<close> levels below it.\<close>

definition within_depth :: "nat \<Rightarrow> path \<Rightarrow> tree \<Rightarrow> bool" where
  "within_depth k p t \<longleftrightarrow> (\<forall>q. look t q \<noteq> None \<longrightarrow> prefix p q \<longrightarrow> length q < length p + k)"

lemma within_depth_child: "within_depth (Suc k) p t \<Longrightarrow> shrinks t u \<Longrightarrow> within_depth k (p @ [c]) u"
  by (fastforce simp: within_depth_def shrinks_def prefix_def)

lemma unlink_ok:
  assumes "tr_refuse t (at d f) = None" "\<not> dot_name f" "look t (at d f) = Some (n, a)"
  shows "sys_unlinkat d f rmdir t = (if n = DirNode then
      (if \<not> rmdir then (Some EISDIR, t) else if names_in t (at d f) \<noteq> [] then (Some ENOTEMPTY, t) else (None, drop_entry (at d f) t))
    else if rmdir then (Some ENOTDIR, t) else (None, drop_entry (at d f) t))"
  using assms by (auto simp: sys_unlinkat_def dot_name_def Let_def)

lemma unlink_missing: "\<not> dot_name f \<Longrightarrow> look t (at d f) = None \<Longrightarrow> sys_unlinkat d f rmdir t = (Some ENOENT, t)"
  by (auto simp: sys_unlinkat_def dot_name_def Let_def)

lemma remove_all_from_gone:
  assumes "\<forall>q. tr_refuse t q = None" "\<not> dot_name f" "f \<noteq> []" "within_depth k (at d f) t"
  shows "fst (remove_all_from k d f t) = None \<and> look (snd (remove_all_from k d f t)) (at d f) = None"
  using assms
proof (induction k arbitrary: d f t)
  case 0
  then have "look t (at d f) = None" unfolding within_depth_def by (metis add_0_right less_irrefl prefix_order.refl)
  then show ?case using unlink_missing [OF 0(2)] by (simp add: remove_all_from.simps [of 0])
next
  case (Suc k)
  let ?p = "at d f"
  have p: "?p = d @ [f]" using Suc.prems(2) by (simp add: at_def dot_name_def)
  show ?case
  proof (cases "look t ?p")
    case None
    then show ?thesis using unlink_missing [OF Suc.prems(2)] by (simp add: remove_all_from.simps [of "Suc k"])
  next
    case (Some e)
    then obtain n a where e: "look t ?p = Some (n, a)" by (cases e) auto
    show ?thesis
    proof (cases "n = DirNode")
      case False
      then show ?thesis using unlink_ok [OF _ Suc.prems(2) e] Suc.prems(1) p
        by (simp add: remove_all_from.simps [of "Suc k"] look_drop)
    next
      case True
      define v where "v = fold (\<lambda>c t. snd (remove_all_from k ?p c t)) (names_in t ?p) t"
      have sh: "shrinks t v"
        unfolding v_def by (intro shrinks_fold shrinks_remove_all_from) (simp add: names_in_iff)
      have gone: "look v (?p @ [c]) = None" if c: "c \<in> set (names_in t ?p)" for c
        unfolding v_def
      proof (rule fold_removes [where g = "\<lambda>c. ?p @ [c]", OF _ _ c])
        fix x u
        assume x: "x \<in> set (names_in t ?p)" and u: "shrinks t u"
        have at: "at ?p x = ?p @ [x]" using x by (simp add: names_in_iff at_def dot_name_def)
        have "\<forall>q. tr_refuse u q = None" using Suc.prems(1) u by (simp add: shrinks_def)
        moreover have "within_depth k (at ?p x) u" using within_depth_child [OF Suc.prems(4) u] at by simp
        ultimately show "look (snd (remove_all_from k ?p x u)) (?p @ [x]) = None"
          using Suc.IH [of u x ?p] x at by (simp add: names_in_iff)
      qed (simp add: shrinks_remove_all_from names_in_iff)
      have "c \<notin> set (names_in v ?p)" for c
        using gone [of c] sh unfolding names_in_iff shrinks_def by metis
      then have empty: "names_in v ?p = []" by (cases "names_in v ?p") auto
      have stat: "sys_fstatat False d f t = Inr (?p, (DirNode, a))"
        using e True p Suc.prems(2,3) by (simp add: sys_fstatat_def target_of_def dot_name_def)
      have first: "sys_unlinkat d f False t = (Some EISDIR, t)"
        using unlink_ok [OF _ Suc.prems(2) e] Suc.prems(1) True by simp
      have refuse: "tr_refuse v ?p = None" using sh Suc.prems(1) by (simp add: shrinks_def)
      have "remove_all_from (Suc k) d f t = (case sys_unlinkat d f True v of
          (None, t) \<Rightarrow> (None, t) | (Some e', t) \<Rightarrow> (if e' = ENOENT then None else Some EISDIR, t))"
        by (simp add: remove_all_from.simps [of "Suc k"] first stat v_def [symmetric])
      then show ?thesis
        using unlink_missing [OF Suc.prems(2)] unlink_ok [OF refuse Suc.prems(2)] empty sh e True p
        by (cases "look v ?p") (auto simp: look_drop shrinks_def)
    qed
  qed
qed

lemma depth_enough: "within_depth (depth t) (p @ [c]) t"
proof -
  have "length q < length (p @ [c]) + depth t" if "look t q \<noteq> None" "q \<noteq> []" for q
  proof -
    have "q \<in> fst ` set (tr_entries t)" using that by (simp add: look_def map_of_eq_None_iff)
    then have "length q \<in> set (0 # map (length \<circ> fst) (tr_entries t))" by force
    then have "length q \<le> fold max (map (length \<circ> fst) (tr_entries t)) 0"
      unfolding Max.set_eq_fold [symmetric] by (intro Max_ge) simp_all
    then show ?thesis by (simp add: depth_def)
  qed
  then show ?thesis by (auto simp: within_depth_def prefix_def)
qed

text \<open>A tree as a kernel keeps it: every entry is in a directory, and has a name.\<close>

definition proper_tree :: "tree \<Rightarrow> bool" where
  "proper_tree t \<longleftrightarrow> closed_tree t \<and> (\<forall>q. look t q \<noteq> None \<longrightarrow> (\<forall>c \<in> set q. \<not> dot_name c \<and> c \<noteq> []))"

lemma proper_unlink:
  assumes "proper_tree t" "\<not> dot_name f"
  shows "proper_tree (snd (sys_unlinkat d f rmdir t))"
proof -
  let ?p = "at d f"
  have p: "?p \<noteq> []" using assms(2) by (auto simp: at_def dot_name_def)
  have drop: "proper_tree (drop_entry ?p t)" if e: "look t ?p = Some (n, a)" and empty: "n = DirNode \<longrightarrow> names_in t ?p = []" for n a
  proof -
    have "butlast q \<noteq> ?p" if q: "q \<noteq> []" "look t q \<noteq> None" for q
    proof
      assume b: "butlast q = ?p"
      then have qe: "q = ?p @ [last q]" using q(1) by (metis append_butlast_last_id)
      have "is_dir t ?p" using assms(1) q b unfolding proper_tree_def closed_tree_def by metis
      then have "n = DirNode" using e by (simp add: is_dir_node)
      moreover have "\<not> dot_name (last q) \<and> last q \<noteq> []" using assms(1) q unfolding proper_tree_def by (metis last_in_set)
      ultimately have "last q \<in> set (names_in t ?p)" using q(2) qe by (simp add: names_in_iff del: not_None_eq)
      then show False using empty \<open>n = DirNode\<close> by simp
    qed
    then show ?thesis
      using assms(1) p unfolding proper_tree_def closed_tree_def is_dir_node by (auto simp: look_drop simp del: not_None_eq)
  qed
  then show ?thesis using assms(1) by (auto simp: sys_unlinkat_def Let_def split: option.split)
qed

lemma proper_fold: "(\<And>c u. c \<in> set cs \<Longrightarrow> proper_tree u \<Longrightarrow> proper_tree (f c u)) \<Longrightarrow> proper_tree t \<Longrightarrow> proper_tree (fold f cs t)"
  by (induction cs arbitrary: t) auto

lemma proper_remove_all_from: "proper_tree t \<Longrightarrow> \<not> dot_name f \<Longrightarrow> proper_tree (snd (remove_all_from k d f t))"
proof (induction k arbitrary: d f t)
  case 0
  obtain r u where 1: "sys_unlinkat d f False t = (r, u)" by fastforce
  have "proper_tree u" using proper_unlink [OF 0, of d False] 1 by simp
  then show ?case by (auto simp: remove_all_from.simps [of 0] 1 split: option.split sum.split)
next
  case (Suc k)
  obtain r u where 1: "sys_unlinkat d f False t = (r, u)" by fastforce
  have u: "proper_tree u" using proper_unlink [OF Suc.prems, of d False] 1 by simp
  define v where "v = fold (\<lambda>c t. snd (remove_all_from k (at d f) c t)) (names_in u (at d f)) u"
  have v: "proper_tree v" unfolding v_def by (intro proper_fold Suc.IH u) (simp_all add: names_in_iff)
  obtain r' w where 2: "sys_unlinkat d f True v = (r', w)" by fastforce
  have "proper_tree w" using proper_unlink [OF v Suc.prems(2), of d True] 2 by simp
  then show ?case using u
    by (auto simp: remove_all_from.simps [of "Suc k"] 1 v_def [symmetric] 2 split: option.split sum.split)
qed

text \<open>
  C40. In a tree as a kernel keeps it, and when the kernel refuses nothing, removing an entry with all it contains
  succeeds and leaves nothing of it behind, neither the entry nor anything at any depth below it, whatever links and
  directories it holds; what is not below it stays as it was. The depth to which the model follows the entry is
  always enough.
\<close>

theorem remove_all_complete:
  assumes "proper_tree t" "\<forall>q. tr_refuse t q = None" "\<not> dot_name f" "f \<noteq> []" "remove_all_from (depth t) d f t = (r, t')"
  shows "r = None \<and> (\<forall>q. prefix (d @ [f]) q \<longrightarrow> look t' q = None) \<and> (\<forall>q. \<not> prefix (d @ [f]) q \<longrightarrow> look t' q = look t q)"
proof -
  have at: "at d f = d @ [f]" using assms(3) by (simp add: at_def dot_name_def)
  then have "within_depth (depth t) (at d f) t" using depth_enough by simp
  from remove_all_from_gone [OF assms(2-4) this] have gone: "r = None" "look t' (d @ [f]) = None" using at assms(5) by simp_all
  have "proper_tree t'" using proper_remove_all_from [OF assms(1,3), of "depth t" d] assms(5) by simp
  then have "look t' q = None" if "prefix (d @ [f]) q" for q
    using closed_prefix that gone(2) unfolding proper_tree_def by blast
  moreover have "look t' q = look t q" if "\<not> prefix (d @ [f]) q" for q
    using keeps_others [OF assms(3) that, where k = "depth t" and t = t] assms(5) by simp
  ultimately show ?thesis using gone(1) by blast
qed

text \<open>A path that opens safely still does where the tree has grown, to the same place.\<close>

lemma lookup_grows:
  assumes "safe_path sb t p = Inr r" "grows t t'"
  shows "safe_path sb t' p = Inr r"
proof -
  have dir: "sys_openat_dir t' root b x = Inr d" if "sys_openat_dir t root b x = Inr d" for root b x d
  proof -
    have "resolve t root False max_links b (split_on CHR ''/'' x) = Inr d" "is_dir t d"
      using that by (auto simp: sys_openat_dir_def split: sum.splits if_splits)
    then show ?thesis using resolve_grows [OF _ assms(2)] grows_is_dir [OF assms(2)] by (simp add: sys_openat_dir_def)
  qed
  have op: "sys_open_dir t' x = Inr d" if "sys_open_dir t x = Inr d" for x d
  proof -
    have "is_abs x" "resolve t None True max_links [] (split_on CHR ''/'' x) = Inr d" "is_dir t d"
      using that by (auto simp: sys_open_dir_def split: sum.splits if_splits)
    then show ?thesis using resolve_grows [OF _ assms(2)] grows_is_dir [OF assms(2)] by (simp add: sys_open_dir_def)
  qed
  have od: "openat_dir sb t b x = Inr d \<Longrightarrow> openat_dir sb t' b x = Inr d" for b x d
    using dir by (auto simp: openat_dir_def split: sum.splits if_splits)
  obtain name where name: "unsafe_path sb p = Inr name" using assms(1) by (auto simp: safe_path_def split: sum.splits)
  obtain b where b: "sys_open_dir t (sb_base sb) = Inr b"
    using assms(1) name by (auto simp: safe_path_def split: sum.splits)
  show ?thesis using assms(1) name b op [OF b] od
    by (auto simp: safe_path_def split: prod.splits sum.splits if_splits)
qed

lemma stat_no_link:
  assumes "fs_stat sb False p t = Inr (q, (DirNode, a))"
  shows "fs_stat sb True p t = Inr (q, (DirNode, a))"
proof -
  obtain d f where df: "safe_path sb t p = Inr (d, f)" "sys_fstatat False d f t = Inr (q, (DirNode, a))"
    using assms by (auto simp: fs_stat_def split: sum.splits)
  have "sys_fstatat True d f t = Inr (q, (DirNode, a))"
    using df(2) by (auto simp: sys_fstatat_def target_of_def split: sum.splits option.splits if_splits node.splits)
  then show ?thesis by (simp add: fs_stat_def df(1))
qed


lemma mkdir_makes:
  assumes "fs_mkdir sb p mode t = (None, t')" "sandboxed sb b t"
  obtains q a where "fs_stat sb follow p t' = Inr (q, (DirNode, a))"
proof -
  obtain d f where df: "safe_path sb t p = Inr (d, f)" "sys_mkdirat d f mode t = (None, t')"
    using assms(1) by (auto simp: fs_mkdir_def with_safe_def name_error_def prod_eq_iff split: sum.splits)
  have f: "\<not> dot_name f" and mk: "look t (at d f) = None" "t' = put_entry (at d f) (DirNode, default_attrs mode) t"
    using df(2) by (auto simp: sys_mkdirat_def Let_def simp del: not_None_eq split: if_splits option.splits)
  have at: "at d f = d @ [f]" using f by (simp add: at_def dot_name_def)
  have "f \<noteq> []"
  proof -
    obtain name where name: "unsafe_path sb p = Inr name" "snd (path_split name) = f"
      using df(1) by (auto simp: safe_path_def split: sum.splits prod.splits if_splits)
    show ?thesis
      using assms(2) name(1)
    proof (cases rule: unsafe_path_plain)
      case base
      then show ?thesis using name(2) by (auto simp: path_split_def)
    next
      case (below cs)
      then have "f = last cs" "last cs \<in> set cs" using name(2) path_split_join [OF below(2,1)] by auto
      then show ?thesis using below(2) by (auto simp: rooted_list_def list_all_iff plain_comp_def)
    qed
  qed
  moreover have "safe_path sb t' p = Inr (d, f)"
    by (rule lookup_grows [OF df(1)]) (simp add: mk grows_put)
  moreover have "look t' (d @ [f]) = Some (DirNode, default_attrs mode)" using mk(2) at by (simp add: look_put)
  ultimately have "fs_stat sb follow p t' = Inr (d @ [f], (DirNode, default_attrs mode))"
    using f by (simp add: fs_stat_def sys_fstatat_def target_of_def dot_name_def)
  then show thesis by (rule that)
qed

lemma mkdir_all_makes_name:
  assumes "mkdir_all sb mode p t = (None, t')" "sandboxed sb b t"
  shows "\<exists>q a. fs_stat sb True p t' = Inr (q, (DirNode, a))"
proof (cases "fs_stat sb False p t")
  case (Inr x)
  then obtain q n a where x: "fs_stat sb False p t = Inr (q, (n, a))" by (cases x) auto
  then have "t' = t" using assms(1) by (subst (asm) mkdir_all.simps) (auto split: node.splits sum.splits if_splits)
  then show ?thesis using assms(1) x stat_no_link
    by (subst (asm) mkdir_all.simps) (auto split: node.splits sum.splits if_splits)
next
  case (Inl e)
  define m where "m = (if parent_name p \<noteq> [] then mkdir_all sb mode (parent_name p) t else (None, t))"
  obtain u where m: "m = (None, u)" and rest: "(case fs_mkdir sb p mode u of
          (None, t) \<Rightarrow> (None, t)
        | (Some e, t) \<Rightarrow> (case fs_stat sb False p t of
            Inr (_, (n, _)) \<Rightarrow> (if n = DirNode then None else Some e, t)
          | Inl _ \<Rightarrow> (Some e, t))) = (None, t')"
    using assms(1) Inl by (subst (asm) mkdir_all.simps) (auto simp: m_def [symmetric] split: prod.splits option.splits)
  have u: "sandboxed sb b u"
  proof -
    have "stays sb b t (snd m)" by (simp add: m_def stays_mkdir_all_name)
    then show ?thesis using assms(2) sandboxed_confined m by (auto simp: stays_def)
  qed
  obtain r v where v: "fs_mkdir sb p mode u = (r, v)" by fastforce
  show ?thesis
  proof (cases r)
    case None
    then have "fs_mkdir sb p mode u = (None, t')" using rest v by simp
    from mkdir_makes [OF this u, of True] show ?thesis by blast
  next
    case (Some e)
    then obtain q a where "fs_stat sb False p t' = Inr (q, (DirNode, a))"
      using rest v by (auto split: sum.splits prod.splits if_splits)
    then show ?thesis using stat_no_link by blast
  qed
qed

text \<open>
  A path that \<^verbatim>\<open>MkdirAll\<close> reports as made is a directory afterwards, or a link to one, whether it was
  there before, was made with some of its parents, or was made by someone else in between.
\<close>

theorem mkdir_all_makes:
  assumes "sandboxed sb b t" "unsafe_path sb p = Inr name" "fs_mkdir_all sb p mode t = (None, t')"
  shows "\<exists>q a. fs_stat sb True name t' = Inr (q, (DirNode, a))"
  using mkdir_all_makes_name [OF _ assms(1)] assms(2,3) by (simp add: fs_mkdir_all_def)


text \<open>
  A rename that succeeds within directories that are there moves the entry with all that is below it,
  unchanged, to a name that was free, and leaves nothing at the old one.
\<close>

theorem rename_moves:
  assumes "sandboxed sb b t" "closed_tree t" "old \<noteq> new" "safe_path sb t old = Inr (d, f)"
    "safe_path sb t new = Inr (d', f')" "f \<noteq> []" "f' \<noteq> []" "fs_rename sb old new t = (None, t')" "d @ [f] \<noteq> d' @ [f']"
  shows "look t (d' @ [f']) = None \<and>
    (\<forall>r. look t' (d' @ f' # r) = look t (d @ f # r) \<and> look t' (d @ f # r) = None)"
proof -
  have f: "\<not> dot_name f" "\<not> dot_name f'" and rn: "sys_renameat d f d' f' t = (None, t')"
    and gone: "sys_fstatat False d' f' t = Inl ENOENT"
    using safe_path_below(3) [OF assms(1,4)] safe_path_below(3) [OF assms(1,5)] assms(3,4,5,8)
    by (auto simp: fs_rename_def rename_to_def name_error_def prod_eq_iff split: if_splits sum.splits)
  let ?p = "d @ [f]" and ?q = "d' @ [f']"
  have at: "at d f = ?p" "at d' f' = ?q" using f by (simp_all add: at_def dot_name_def)
  have q: "look t ?q = None"
    using gone f(2) assms(7) by (auto simp: sys_fstatat_def target_of_def dot_name_def split: option.splits node.splits prod.splits)
  have p: "look t ?p \<noteq> None" "\<not> prefix ?p ?q" "t' = move_entries ?p ?q t"
    using rn at q assms(9) by (auto simp: sys_renameat_def Let_def simp del: prefix_snoc split: if_splits option.splits)
  have below: "\<forall>r. look t (?q @ r) = None" using closed_prefix [OF assms(2), of _ ?q] q by (metis prefixI)
  have "\<not> prefix ?q ?p" using closed_prefix [OF assms(2) p(1)] q by blast
  from look_moved [OF p(2) this below] show ?thesis using p(3) q by simp
qed


section \<open>A concrete tree\<close>

text \<open>The base \<^verbatim>\<open>/d/s\<close> holds a link to a file outside and one to a directory outside.\<close>

definition example_tree :: tree where
  "example_tree = \<lparr>tr_entries =
     [([''d''], (DirNode, default_attrs 493)), ([''d'', ''s''], (DirNode, default_attrs 493)),
      ([''d'', ''s'', ''w''], (DirNode, default_attrs 493)), ([''d'', ''s'', ''w'', ''l''], (FileNode ''level'', default_attrs 420)),
      ([''d'', ''s'', ''out''], (LinkNode ''/etc/shadow'', default_attrs 511)),
      ([''d'', ''s'', ''up''], (LinkNode ''../../etc'', default_attrs 511)),
      ([''etc''], (DirNode, default_attrs 493)), ([''etc'', ''shadow''], (FileNode ''secret'', default_attrs 384))],
     tr_refuse = (\<lambda>q. None)\<rparr>"

definition example_box :: "bool \<Rightarrow> sandbox" where
  "example_box o2 = new_unix_fs ''/d/s/'' o2"

lemma example_sandboxed: "sandboxed (example_box o2) [''d'', ''s''] example_tree"
proof -
  have "is_dir example_tree q" if "prefix q [''d'', ''s'']" for q
  proof -
    have "q = [] \<or> q = [''d''] \<or> q = [''d'', ''s'']" using that by (auto simp: prefix_Cons)
    then show ?thesis by (auto simp: is_dir_def look_def example_tree_def)
  qed
  moreover have "sb_base (example_box o2) = show_path True [''d'', ''s'']"
    by (simp add: example_box_def new_unix_fs_def trim_suffix_def has_suffix_def show_path_def)
  ultimately show ?thesis by (simp add: sandboxed_def rooted_list_def plain_comp_def)
qed

lemma sandbox_confined_witness:
  "look (fold (fs_exec (example_box False)) [CallOpen ''out'' create_flags 420, CallMkdirAll ''up/x/y'' 493,
     CallRemoveAll ''up/shadow'', CallRename ''w'' ''../../etc/w'', CallLchown ''out'' 988 988] example_tree) [''etc'', ''shadow''] =
     Some (FileNode ''secret'', default_attrs 384) \<and>
   map_option fst (look (fold (fs_exec (example_box False)) [CallChmod ''out'' 511, CallRemoveAll ''out''] example_tree) [''etc'', ''shadow'']) =
     Some (FileNode ''secret'')"
proof -
  have p: "\<not> strict_prefix [''d'', ''s''] [''etc'', ''shadow'']" by (simp add: strict_prefix_def)
  have "look example_tree [''etc'', ''shadow''] = Some (FileNode ''secret'', default_attrs 384)" by (simp add: look_def example_tree_def)
  then show ?thesis
    using sandbox_confined [OF example_sandboxed [of False] p, of "[CallOpen ''out'' create_flags 420, CallMkdirAll ''up/x/y'' 493,
        CallRemoveAll ''up/shadow'', CallRename ''w'' ''../../etc/w'', CallLchown ''out'' 988 988]"]
      sandbox_confined [OF example_sandboxed [of False] p, of "[CallChmod ''out'' 511, CallRemoveAll ''out'']"]
    by simp
qed

lemma first_of: "fst x = a \<Longrightarrow> x = (a, snd x)"
  by auto

lemma open_stays_below_witness: "prefix [''d'', ''s''] [''d'', ''s'', ''w'', ''l'']"
proof -
  have "fst (fs_open_file (example_box True) ''w/l'' read_flags 0 example_tree) = Inr [''d'', ''s'', ''w'', ''l'']"
    by code_simp
  from open_stays_below [OF example_sandboxed first_of [OF this]] show ?thesis by blast
qed

lemma example_closed: "closed_tree example_tree"
proof -
  have "is_dir example_tree (butlast q)" if "q \<in> fst ` set (tr_entries example_tree)" for q
    using that by (auto simp: example_tree_def is_dir_def look_def)
  then show ?thesis by (auto simp: closed_tree_def look_def map_of_eq_None_iff simp flip: not_None_eq)
qed

lemma example_proper: "proper_tree example_tree"
proof -
  have "\<forall>q \<in> fst ` set (tr_entries example_tree). \<forall>c \<in> set q. \<not> dot_name c \<and> c \<noteq> []"
    by (simp add: example_tree_def dot_name_def)
  then show ?thesis using example_closed by (auto simp: proper_tree_def look_def map_of_eq_None_iff simp flip: not_None_eq)
qed

lemma remove_all_complete_witness:
  "look (snd (remove_all_from (depth example_tree) [''d''] ''s'' example_tree)) [''d'', ''s'', ''w'', ''l''] = None"
proof -
  have "\<forall>q. tr_refuse example_tree q = None" "\<not> dot_name ''s''" "''s'' \<noteq> []"
    by (simp_all add: example_tree_def dot_name_def)
  from remove_all_complete [OF example_proper this prod.collapse [symmetric], of "[''d'']"] show ?thesis by simp
qed

lemma mkdir_all_makes_witness:
  "\<exists>q a. fs_stat (example_box True) True ''w/x/y'' (snd (fs_mkdir_all (example_box True) ''/w/x/../x/y'' 493 example_tree)) =
     Inr (q, (DirNode, a))"
proof -
  have "unsafe_path (example_box True) ''/w/x/../x/y'' = Inr ''w/x/y''" by code_simp
  moreover have "fst (fs_mkdir_all (example_box True) ''/w/x/../x/y'' 493 example_tree) = None"
    by code_simp
  ultimately show ?thesis using mkdir_all_makes [OF example_sandboxed _ first_of] by blast
qed

lemma rename_moves_witness:
  "look (snd (fs_rename (example_box True) ''w'' ''v'' example_tree)) [''d'', ''s'', ''v'', ''l''] =
     Some (FileNode ''level'', default_attrs 420)"
proof -
  have "safe_path (example_box True) example_tree ''w'' = Inr ([''d'', ''s''], ''w'')"
    "safe_path (example_box True) example_tree ''v'' = Inr ([''d'', ''s''], ''v'')"
    "fst (fs_rename (example_box True) ''w'' ''v'' example_tree) = None"
    by code_simp+
  note moved = rename_moves [OF example_sandboxed example_closed _ this(1,2) _ _ first_of [OF this(3)]]
  have "look (snd (fs_rename (example_box True) ''w'' ''v'' example_tree)) ([''d'', ''s''] @ ''v'' # [''l'']) =
    look example_tree ([''d'', ''s''] @ ''w'' # [''l''])"
    using moved by simp
  then show ?thesis by (simp add: look_def example_tree_def)
qed

text \<open>Changing the mode or the owner follows a link at the end of the path, also out of the base.\<close>

lemma chmod_escapes:
  "look (snd (fs_chmod (example_box True) ''out'' 511 example_tree)) [''etc'', ''shadow''] = Some (FileNode ''secret'', default_attrs 511)"
  by code_simp

lemma chown_escapes:
  "map_option (at_uid \<circ> snd) (look (snd (fs_chown (example_box True) True ''out'' 1000 1000 example_tree)) [''etc'', ''shadow'']) = Some 1000"
  by code_simp

text \<open>What cannot be removed: removing the contents of a directory reports success all the same.\<close>

lemma remove_contents_hides_errors:
  "fst (fs_remove_contents (example_box True) ''w'' (example_tree\<lparr>tr_refuse := (\<lambda>q. if q = [''d'', ''s'', ''w'', ''l''] then Some EPERM else None)\<rparr>)) = None"
  by code_simp

text \<open>Removing the directory itself gives the error of the first attempt: that it is a directory.\<close>

lemma remove_all_reports_first_error:
  "fst (fs_remove_all (example_box True) ''w'' (example_tree\<lparr>tr_refuse := (\<lambda>q. if q = [''d'', ''s'', ''w'', ''l''] then Some EPERM else None)\<rparr>)) =
     Some (SysErr ''./w'' EISDIR)"
  by code_simp

end
