(* ===== verification/Docker_Container.thy ===== *)
theory Docker_Container
  imports Complex_Main Daemon_Mounts
begin

text \<open>
  What the daemon asks Docker for when it makes the container of a server: its environment
  (\<^verbatim>\<open>daemon/server/server.go\<close>), its ports (\<^verbatim>\<open>daemon/environment/allocations.go\<close>), its limits
  (\<^verbatim>\<open>daemon/environment/settings.go\<close>, \<^verbatim>\<open>daemon/config/config_docker.go\<close>), the image and when it is pulled
  (\<^verbatim>\<open>daemon/config/image_pull_policy.go\<close>, \<^verbatim>\<open>daemon/environment/docker/container.go\<close>, \<^verbatim>\<open>pull.go\<close>), and the
  network (\<^verbatim>\<open>daemon/environment/docker.go\<close>). What Docker answers is an argument.
\<close>

section \<open>The environment of a server\<close>

text \<open>A value from JSON, or one Go code put there; \<open>'f\<close> is the type of floating-point numbers.\<close>

datatype 'f env_value =
    EvInt int
  | EvInt32 int
  | EvInt64 int
  | EvFloat32 'f
  | EvFloat64 'f
  | EvBool bool
  | EvString string
  | EvOther

text \<open>
  \<^verbatim>\<open>Variables.Get\<close>; \<open>show\<close> prints a floating-point number. A value of 32 bits is asserted to have
  64, which panics.
\<close>

definition variables_get :: "('f \<Rightarrow> string) \<Rightarrow> (string, 'f env_value) gomap \<Rightarrow> string \<Rightarrow> string go" where
  "variables_get show v key = (case gm_get v key of
     None \<Rightarrow> Ret []
   | Some (EvInt i) \<Rightarrow> Ret (itoa i)
   | Some (EvInt32 i) \<Rightarrow> Panic
   | Some (EvInt64 i) \<Rightarrow> Ret (itoa i)
   | Some (EvFloat32 f) \<Rightarrow> Ret (show f)
   | Some (EvFloat64 f) \<Rightarrow> Ret (show f)
   | Some (EvBool b) \<Rightarrow> Ret (if b then ''true'' else ''false'')
   | Some (EvString s) \<Rightarrow> Ret s
   | Some EvOther \<Rightarrow> Ret [])"

record 'f server_env =
  se_timezone :: string
  se_invocation :: string
  se_memory :: int
  se_ip :: string
  se_port :: int
  se_version :: string
  se_vars :: "(string, 'f env_value) gomap"

definition base_variables :: "'f server_env \<Rightarrow> string list" where
  "base_variables s =
     [''TZ='' @ se_timezone s, ''STARTUP='' @ se_invocation s, ''SERVER_MEMORY='' @ itoa (se_memory s),
      ''SERVER_IP='' @ se_ip s, '' '' @ itoa (se_port s)] @
     (if se_version s \<noteq> [] then [''VERSION='' @ se_version s] else [])"

fun add_variables :: "('f \<Rightarrow> string) \<Rightarrow> (string, 'f env_value) gomap \<Rightarrow> string list \<Rightarrow> string list \<Rightarrow> string list go" where
  "add_variables show v [] out = Ret out"
| "add_variables show v (k # ks) out =
     (if list_ex (\<lambda>e. has_prefix e (to_upper k @ ''='')) out then add_variables show v ks out
      else go_bind (variables_get show v k) (\<lambda>x. add_variables show v ks (out @ [to_upper k @ ''='' @ x])))"

definition get_environment_variables :: "('f \<Rightarrow> string) \<Rightarrow> 'f server_env \<Rightarrow> string list go" where
  "get_environment_variables show s = add_variables show (se_vars s) (gm_keys (se_vars s)) (base_variables s)"

text \<open>What the process sees under a name: the part of an entry before the first equals sign names it.\<close>

definition env_entries :: "string \<Rightarrow> string list \<Rightarrow> string list" where
  "env_entries n = filter (\<lambda>e. has_prefix e (n @ ''=''))"

definition reserved :: "'f server_env \<Rightarrow> (string \<times> string) list" where
  "reserved s = [(''TZ'', se_timezone s), (''STARTUP'', se_invocation s), (''SERVER_MEMORY'', itoa (se_memory s)),
     (''SERVER_IP'', se_ip s)] @ (if se_version s \<noteq> [] then [(''VERSION'', se_version s)] else [])"

lemma name_prefix: "CHR ''='' \<notin> set n \<Longrightarrow> CHR ''='' \<notin> set m \<Longrightarrow> has_prefix (m @ CHR ''='' # x) (n @ ''='') \<longleftrightarrow> m = n"
proof (induction n arbitrary: m)
  case Nil
  then show ?case by (cases m) (auto simp: has_prefix_def)
next
  case (Cons c n)
  then show ?case by (cases m) (auto simp: has_prefix_def)
qed

lemma upper_char_eq: "upper_char c = CHR ''='' \<longleftrightarrow> c = CHR ''=''"
proof (cases "map_of (zip lower_letters upper_letters) c")
  case (Some d)
  then have "d \<in> set upper_letters" "c \<in> set lower_letters" by (auto dest: map_of_SomeD set_zip_leftD set_zip_rightD)
  moreover have "CHR ''='' \<notin> set upper_letters" "CHR ''='' \<notin> set lower_letters"
    by (simp_all add: upper_letters_def lower_letters_def)
  moreover have "upper_char c = d" using Some by (simp add: upper_char_def)
  ultimately show ?thesis by metis
qed (simp add: upper_char_def)

lemma to_upper_eq [simp]: "CHR ''='' \<in> set (to_upper k) \<longleftrightarrow> CHR ''='' \<in> set k"
  unfolding to_upper_def set_map image_iff using upper_char_eq by metis

lemma no_equals: "CHR ''='' \<notin> set e \<Longrightarrow> \<not> has_prefix e (n @ ''='')"
  by (auto simp: has_prefix_iff)

lemma itoa_no_equals: "CHR ''='' \<notin> set (itoa i)"
proof -
  have "CHR ''='' \<notin> set (nat_digits n)" if "0 \<le> n" for n
  proof -
    have "\<not> is_digit (CHR ''='')" by (simp add: is_digit_def)
    then show ?thesis using nat_digits_props [OF that] by (metis list_all_iff)
  qed
  then show ?thesis by (simp add: itoa_def)
qed

lemma add_variables_entries:
  assumes "add_variables show v ks out = Ret out'" "\<forall>k \<in> set ks. CHR ''='' \<notin> set k" "CHR ''='' \<notin> set n"
  shows "if env_entries n out \<noteq> [] then env_entries n out' = env_entries n out
    else case List.find (\<lambda>k. to_upper k = n) ks of
      None \<Rightarrow> env_entries n out' = []
    | Some k \<Rightarrow> \<exists>x. variables_get show v k = Ret x \<and> env_entries n out' = [n @ ''='' @ x]"
  using assms(1,2)
proof (induction ks arbitrary: out)
  case (Cons k ks)
  let ?K = "to_upper k"
  show ?case
  proof (cases "list_ex (\<lambda>e. has_prefix e (?K @ ''='')) out")
    case True
    then have "env_entries ?K out \<noteq> []" by (auto simp: env_entries_def list_ex_iff filter_empty_conv)
    then show ?thesis using Cons True by (auto split: if_splits)
  next
    case False
    then obtain x where x: "variables_get show v k = Ret x"
      "add_variables show v ks (out @ [?K @ ''='' @ x]) = Ret out'"
      using Cons(2) by (auto simp: go_outcome)
    have none: "env_entries ?K out = []" using False by (auto simp: env_entries_def list_ex_iff filter_empty_conv)
    have new: "env_entries n (out @ [?K @ ''='' @ x]) = env_entries n out @ (if ?K = n then [n @ ''='' @ x] else [])"
      using name_prefix [OF assms(3), of ?K x] Cons(3) by (auto simp: env_entries_def)
    show ?thesis using Cons(1) [OF x(2)] Cons(3) x(1) none unfolding new by (auto split: if_splits)
  qed
qed simp

lemma base_entries:
  assumes "CHR ''='' \<notin> set n"
  shows "env_entries n (base_variables s) = (case map_of (reserved s) n of None \<Rightarrow> [] | Some v \<Rightarrow> [n @ ''='' @ v])"
proof -
  have "\<not> has_prefix ('' '' @ itoa (se_port s)) (n @ ''='')" using itoa_no_equals by (intro no_equals) auto
  moreover note name_prefix [OF assms, of "''TZ''"] name_prefix [OF assms, of "''STARTUP''"]
    name_prefix [OF assms, of "''SERVER_MEMORY''"] name_prefix [OF assms, of "''SERVER_IP''"]
    name_prefix [OF assms, of "''VERSION''"]
  ultimately show ?thesis unfolding base_variables_def reserved_def env_entries_def by auto
qed

text \<open>
  What a server's environment says under a name: for the names the daemon sets itself, exactly the
  value it gives, which no variable of the server can change or double; for another name exactly the
  value of one variable of that name, in any case of letters; and nothing for any other.
\<close>

theorem environment_exact:
  assumes "get_environment_variables show s = Ret out" "\<forall>k \<in> set (gm_keys (se_vars s)). CHR ''='' \<notin> set k"
    "CHR ''='' \<notin> set n"
  shows "case map_of (reserved s) n of
      Some v \<Rightarrow> env_entries n out = [n @ ''='' @ v]
    | None \<Rightarrow> (case List.find (\<lambda>k. to_upper k = n) (gm_keys (se_vars s)) of
        None \<Rightarrow> env_entries n out = []
      | Some k \<Rightarrow> \<exists>x. variables_get show (se_vars s) k = Ret x \<and> env_entries n out = [n @ ''='' @ x])"
  using add_variables_entries [OF assms(1) [unfolded get_environment_variables_def] assms(2,3)]
  unfolding base_entries [OF assms(3)] by (cases "map_of (reserved s) n") simp_all

definition example_env :: "rat server_env" where
  "example_env = \<lparr>se_timezone = ''UTC'', se_invocation = ''java -jar s.jar'', se_memory = 2048, se_ip = ''10.0.0.1'', se_port = 25565,
     se_version = [], se_vars = [(''server_ip'', EvString ''1.1.1.1''), (''eula'', EvBool True), (''Eula'', EvBool False)]\<rparr>"

abbreviation example_out :: "string list" where
  "example_out \<equiv> [''TZ=UTC'', ''STARTUP=java -jar s.jar'', ''SERVER_MEMORY=2048'', ''SERVER_IP=10.0.0.1'', '' 25565'', ''EULA=true'']"

lemma environment_exact_witness: "env_entries ''SERVER_IP'' example_out = [''SERVER_IP=10.0.0.1'']"
proof -
  have out: "get_environment_variables (\<lambda>_. []) example_env = Ret example_out" by code_simp
  have "\<forall>k \<in> set (gm_keys (se_vars example_env)). CHR ''='' \<notin> set k" "CHR ''='' \<notin> set ''SERVER_IP''"
    by (simp_all add: example_env_def gm_keys_def)
  from environment_exact [OF out this] show ?thesis by (simp add: reserved_def example_env_def)
qed

text \<open>A variable whose name has an equals sign gets past the check, and the port has no name.\<close>

lemma equals_sign_overrides:
  "get_environment_variables (\<lambda>_. []) (example_env\<lparr>se_vars := [(''server_ip=1.1.1.1'', EvString [])]\<rparr>) =
     Ret [''TZ=UTC'', ''STARTUP=java -jar s.jar'', ''SERVER_MEMORY=2048'', ''SERVER_IP=10.0.0.1'', '' 25565'',
       ''SERVER_IP=1.1.1.1='']"
  by code_simp

lemma small_integer_panics:
  "get_environment_variables (\<lambda>_. []) (example_env\<lparr>se_vars := [(''players'', EvInt32 20)]\<rparr>) = Panic"
  by code_simp

section \<open>The ports of a container\<close>

text \<open>The addresses with their ports, the port Docker publishes, and the addresses of the host it is published on.\<close>

type_synonym mappings = "(string, int list) gomap"

type_synonym binding = "string \<times> string"

type_synonym port_map = "(string, binding list) gomap"

definition append_to :: "string \<Rightarrow> binding \<Rightarrow> port_map \<Rightarrow> port_map" where
  "append_to p b out = gm_set out p ((case gm_get out p of None \<Rightarrow> [] | Some bs \<Rightarrow> bs) @ [b])"

definition bind_port :: "string \<Rightarrow> int \<Rightarrow> port_map \<Rightarrow> port_map" where
  "bind_port ip port out =
     (if port < 1 \<or> port > 65535 then out
      else append_to (itoa port @ ''/udp'') (ip, itoa port) (append_to (itoa port @ ''/tcp'') (ip, itoa port) out))"

definition bindings :: "mappings \<Rightarrow> port_map" where
  "bindings m = fold (\<lambda>(ip, ports) out. fold (bind_port ip) ports out) m []"

text \<open>
  With \<^verbatim>\<open>ISPN\<close> the bindings to the loopback address are cut out of the slice while a copy of its
  header is ranged over: both share the array \<open>arr\<close>, and \<open>m\<close> is the length of the one in the map.
  Cutting at a position that is no longer within that length panics.
\<close>

definition loopback :: string where
  "loopback = ''127.0.0.1''"

function cut_local :: "nat \<Rightarrow> binding list \<Rightarrow> nat \<Rightarrow> binding list go" where
  "cut_local i arr m =
     (if i \<ge> length arr then Ret (take m arr)
      else if fst (arr ! i) \<noteq> loopback then cut_local (Suc i) arr m
      else if Suc i > m then Panic
      else cut_local (Suc i) (take i arr @ take (m - Suc i) (drop (Suc i) arr) @ drop (m - 1) arr) (m - 1))"
  by pat_completeness auto
termination by (relation "measure (\<lambda>(i, arr, m). length arr - i)") auto

declare cut_local.simps [simp del]

fun go_map_values :: "('v \<Rightarrow> 'w go) \<Rightarrow> ('k, 'v) gomap \<Rightarrow> ('k, 'w) gomap go" where
  "go_map_values f [] = Ret []"
| "go_map_values f ((k, v) # m) = go_bind (f v) (\<lambda>w. go_bind (go_map_values f m) (\<lambda>m. Ret ((k, w) # m)))"

definition docker_bindings :: "bool \<Rightarrow> string \<Rightarrow> mappings \<Rightarrow> port_map go" where
  "docker_bindings ispn iface m = go_map_values
     (\<lambda>bs. if ispn then cut_local 0 bs (length bs)
           else Ret (map (\<lambda>b. if fst b \<noteq> loopback then b else (iface, snd b)) bs)) (bindings m)"

definition exposed :: "bool \<Rightarrow> string \<Rightarrow> mappings \<Rightarrow> string list go" where
  "exposed ispn iface m = go_bind (docker_bindings ispn iface m) (\<lambda>out. Ret (gm_keys out))"


definition port_at :: "port_map \<Rightarrow> string \<Rightarrow> binding list" where
  "port_at out k = (case gm_get out k of None \<Rightarrow> [] | Some bs \<Rightarrow> bs)"

definition names_port :: "string \<Rightarrow> int \<Rightarrow> bool" where
  "names_port k p \<longleftrightarrow> 1 \<le> p \<and> p \<le> 65535 \<and> (k = itoa p @ ''/tcp'' \<or> k = itoa p @ ''/udp'')"

definition published :: "mappings \<Rightarrow> string \<Rightarrow> binding list" where
  "published m k = concat (map (\<lambda>(ip, ports). map (\<lambda>p. (ip, itoa p)) (filter (names_port k) ports)) m)"

lemma bind_port_at: "port_at (bind_port ip p out) k = port_at out k @ (if names_port k p then [(ip, itoa p)] else [])"
  by (auto simp: bind_port_def append_to_def port_at_def names_port_def)

lemma bind_ports_at: "port_at (fold (bind_port ip) ports out) k = port_at out k @ map (\<lambda>p. (ip, itoa p)) (filter (names_port k) ports)"
  by (induction ports arbitrary: out) (auto simp: bind_port_at)

lemma bindings_at: "port_at (bindings m) k = published m k"
proof -
  have "port_at (fold (\<lambda>(ip, ports) out. fold (bind_port ip) ports out) m out) k = port_at out k @ published m k" for out
    by (induction m arbitrary: out) (auto simp: bind_ports_at published_def)
  from this [of "[]"] show ?thesis by (simp add: bindings_def port_at_def)
qed

lemma bindings_wf: "gm_wf (bindings m)"
proof -
  have step: "gm_wf out \<Longrightarrow> gm_wf (bind_port ip p out)" for ip p out by (simp add: bind_port_def append_to_def)
  have inner: "gm_wf out \<Longrightarrow> gm_wf (fold (bind_port ip) ports out)" for ip ports out
    by (induction ports arbitrary: out) (auto simp: step)
  have "gm_wf out \<Longrightarrow> gm_wf (fold (\<lambda>(ip, ports) out. fold (bind_port ip) ports out) m out)" for out
    by (induction m arbitrary: out) (auto simp: inner)
  then show ?thesis by (simp add: bindings_def)
qed

lemma names_port_unique: "names_port k p \<Longrightarrow> names_port k q \<Longrightarrow> p = q"
proof -
  assume pq: "names_port k p" "names_port k q"
  then have "in_int64 p" "in_int64 q" by (auto simp: names_port_def in_int64_def int64_min_def int64_max_def)
  moreover have "itoa p = itoa q" using pq by (auto simp: names_port_def)
  ultimately show "p = q" by (metis atoi_itoa fst_conv)
qed

text \<open>Cutting one loopback address out of the list leaves the others.\<close>

lemma cut_none: "\<forall>j. i \<le> j \<longrightarrow> j < length arr \<longrightarrow> fst (arr ! j) \<noteq> loopback \<Longrightarrow> cut_local i arr m = Ret (take m arr)"
  by (induction i arr m rule: cut_local.induct) (subst cut_local.simps, simp)

lemma cut_one:
  assumes "\<forall>b \<in> set xs. fst b \<noteq> loopback" "\<forall>b \<in> set ys. fst b \<noteq> loopback"
  shows "cut_local 0 (xs @ (loopback, q) # ys) (Suc (length xs + length ys)) = Ret (xs @ ys)"
proof -
  let ?arr = "xs @ (loopback, q) # ys"
  have skip: "cut_local (length xs - n) ?arr (length ?arr) = cut_local (length xs) ?arr (length ?arr)" if "n \<le> length xs" for n
    using that
  proof (induction n)
    case (Suc n)
    then have "length xs - Suc n < length xs" "Suc (length xs - Suc n) = length xs - n" by auto
    then show ?case using Suc assms(1) by (subst cut_local.simps) (simp add: nth_append)
  qed simp
  have at: "cut_local (length xs) ?arr (length ?arr) = cut_local (Suc (length xs)) (xs @ ys @ drop (length ys) ((loopback, q) # ys)) (length xs + length ys)"
    by (subst cut_local.simps) simp
  have "fst ((xs @ ys @ drop (length ys) ((loopback, q) # ys)) ! j) \<noteq> loopback"
    if "Suc (length xs) \<le> j" "j < length (xs @ ys @ drop (length ys) ((loopback, q) # ys))" for j
  proof (cases ys rule: rev_cases)
    case (snoc zs z)
    have "(ys @ drop (length ys) ((loopback, q) # ys)) ! (j - length xs) \<in> set ys"
    proof -
      have "drop (length ys) ((loopback, q) # ys) = [z]" using snoc by simp
      then have "set (ys @ drop (length ys) ((loopback, q) # ys)) = set ys" using snoc by auto
      moreover have "j - length xs < length (ys @ drop (length ys) ((loopback, q) # ys))" using that by simp
      ultimately show ?thesis by (metis nth_mem)
    qed
    then show ?thesis using that assms(2) by (auto simp: nth_append)
  qed (use that in simp)
  then have "cut_local (Suc (length xs)) (xs @ ys @ drop (length ys) ((loopback, q) # ys)) (length xs + length ys) = Ret (xs @ ys)"
    by (subst cut_none) auto
  then show ?thesis using at skip [of "length xs"] by simp
qed

lemma cut_filter:
  assumes "length (filter (\<lambda>b. fst b = loopback) bs) \<le> 1"
  shows "cut_local 0 bs (length bs) = Ret (filter (\<lambda>b. fst b \<noteq> loopback) bs)"
proof (cases "\<exists>b \<in> set bs. fst b = loopback")
  case True
  then obtain xs b ys where bs: "bs = xs @ b # ys" "fst b = loopback" "\<forall>x \<in> set xs. fst x \<noteq> loopback"
    using split_list_first_prop [of bs "\<lambda>b. fst b = loopback"] by blast
  then have "\<forall>y \<in> set ys. fst y \<noteq> loopback" using assms by (auto simp: filter_empty_conv)
  moreover obtain q where "b = (loopback, q)" using bs(2) by (cases b) simp
  ultimately show ?thesis using bs cut_one [of xs ys q] by (simp add: filter_id_conv)
next
  case False
  then have "cut_local 0 bs (length bs) = Ret (take (length bs) bs)" by (intro cut_none) (auto dest: nth_mem)
  then show ?thesis using False by (auto simp: filter_id_conv)
qed

lemma one_port: "distinct ps \<Longrightarrow> length (filter (names_port k) ps) \<le> 1"
proof -
  assume ps: "distinct ps"
  show ?thesis
  proof (cases "filter (names_port k) ps")
    case (Cons p qs)
    then have all: "\<forall>q \<in> set (p # qs). names_port k q" by (metis (mono_tags, lifting) mem_Collect_eq set_filter)
    then have "\<forall>q \<in> set qs. q = p" using names_port_unique by auto
    moreover have "distinct (p # qs)" using ps Cons by (metis distinct_filter)
    ultimately show ?thesis using Cons by (cases qs) auto
  qed simp
qed

lemma one_loopback:
  assumes "gm_wf m" "\<forall>ps. gm_get m loopback = Some ps \<longrightarrow> distinct ps"
  shows "length (filter (\<lambda>b. fst b = loopback) (published m k)) \<le> 1"
  using assms
proof (induction m)
  case (Cons x m)
  obtain ip ps where x: "x = (ip, ps)" by fastforce
  have cut: "filter (\<lambda>b. fst b = loopback) (published (x # m) k) =
      (if ip = loopback then map (\<lambda>p. (ip, itoa p)) (filter (names_port k) ps) else []) @
      filter (\<lambda>b. fst b = loopback) (published m k)"
    by (auto simp: published_def x filter_map comp_def)
  show ?case
  proof (cases "ip = loopback")
    case True
    then have "\<forall>y \<in> set m. fst y \<noteq> loopback" using Cons(2) x by (force simp: gm_wf_def)
    then have "filter (\<lambda>b. fst b = loopback) (published m k) = []"
      by (auto simp: published_def filter_empty_conv)
    moreover have "distinct ps" using Cons(3) True x by (simp add: gm_get_def)
    ultimately show ?thesis using one_port [of ps k] cut True by simp
  next
    case False
    then show ?thesis using Cons cut x by (auto simp: gm_wf_def gm_get_def)
  qed
qed (simp add: published_def)

lemma go_map_values_Ret:
  "\<forall>(k, v) \<in> set m. f v = Ret (g v) \<Longrightarrow> go_map_values f m = Ret (map (\<lambda>(k, v). (k, g v)) m)"
  by (induction f m rule: go_map_values.induct) auto

lemma bindings_nonempty: "gm_get (bindings m) k \<noteq> Some []"
proof -
  have step: "gm_get out k \<noteq> Some [] \<Longrightarrow> gm_get (bind_port ip p out) k \<noteq> Some []" for ip p out
    by (auto simp: bind_port_def append_to_def)
  have inner: "gm_get out k \<noteq> Some [] \<Longrightarrow> gm_get (fold (bind_port ip) ports out) k \<noteq> Some []" for ip ports out
    by (induction ports arbitrary: out) (auto simp: step)
  have "gm_get out k \<noteq> Some [] \<Longrightarrow> gm_get (fold (\<lambda>(ip, ports) out. fold (bind_port ip) ports out) m out) k \<noteq> Some []" for out
  proof (induction m arbitrary: out)
    case (Cons x m)
    show ?case using Cons.IH [OF inner [OF Cons.prems, of "fst x" "snd x"]] by (simp add: case_prod_beta)
  qed simp
  then show ?thesis by (simp add: bindings_def)
qed

lemma bindings_get: "gm_get (bindings m) k = (if published m k = [] then None else Some (published m k))"
  using bindings_at [of m k] bindings_nonempty [of m k] by (auto simp: port_at_def split: option.splits)

text \<open>What is to be published: without the loopback address under \<^verbatim>\<open>ISPN\<close>, and otherwise with the interface for it.\<close>

definition expected :: "bool \<Rightarrow> string \<Rightarrow> mappings \<Rightarrow> string \<Rightarrow> binding list" where
  "expected ispn iface m k = concat (map (\<lambda>(ip, ports).
     if ispn \<and> ip = loopback then []
     else map (\<lambda>p. (if ip = loopback then iface else ip, itoa p)) (filter (names_port k) ports)) m)"

lemma expected_published:
  "expected True iface m k = filter (\<lambda>b. fst b \<noteq> loopback) (published m k)"
  "expected False iface m k = map (\<lambda>b. if fst b \<noteq> loopback then b else (iface, snd b)) (published m k)"
  by (induction m) (auto simp: expected_def published_def filter_map comp_def)

text \<open>
  C16. The ports of a container are exactly the valid ports of the server's allocation, each over TCP and
  UDP, on exactly the addresses the allocation has it on: with the loopback address left out
  under \<^verbatim>\<open>ISPN\<close>, where cutting it out in place does not panic or skip an address as long as it has no
  port twice, and with the interface of the network in its place otherwise.
\<close>

theorem ports_exact:
  assumes "gm_wf m" "ispn \<longrightarrow> (\<forall>ps. gm_get m loopback = Some ps \<longrightarrow> distinct ps)"
  shows "\<exists>out. docker_bindings ispn iface m = Ret out \<and> gm_wf out \<and>
    (\<forall>k. gm_get out k = (if published m k = [] then None else Some (expected ispn iface m k)))"
proof -
  let ?g = "\<lambda>bs. if ispn then filter (\<lambda>b. fst b \<noteq> loopback) bs
    else map (\<lambda>b. if fst b \<noteq> loopback then b else (iface, snd b)) bs"
  have "(if ispn then cut_local 0 bs (length bs)
      else Ret (map (\<lambda>b. if fst b \<noteq> loopback then b else (iface, snd b)) bs)) = Ret (?g bs)"
    if "(k, bs) \<in> set (bindings m)" for k bs
  proof -
    have "bs = published m k"
      using that gm_get_in [OF bindings_wf, of k bs m] bindings_get [of m k] by (auto split: if_splits)
    then show ?thesis using cut_filter one_loopback [OF assms(1), of k] assms(2) by auto
  qed
  then have "docker_bindings ispn iface m = Ret (map (\<lambda>(k, bs). (k, ?g bs)) (bindings m))"
    unfolding docker_bindings_def by (intro go_map_values_Ret) auto
  moreover have "gm_wf (map (\<lambda>(k, bs). (k, ?g bs)) (bindings m))"
    using bindings_wf [of m] by (simp add: gm_wf_def comp_def case_prod_beta)
  moreover have "gm_get (map (\<lambda>(k, bs). (k, ?g bs)) (bindings m)) k = map_option ?g (gm_get (bindings m) k)" for k
    unfolding gm_get_def by (simp add: map_of_map)
  ultimately show ?thesis using expected_published [of iface m]
    by (intro exI [of _ "map (\<lambda>(k, bs). (k, ?g bs)) (bindings m)"]) (auto simp: bindings_get)
qed

lemma ports_exact_witness:
  "\<exists>out. docker_bindings True [] [(''127.0.0.1'', [25565]), (''10.0.0.1'', [25565, 0])] = Ret out \<and>
     gm_get out ''25565/udp'' = Some [(''10.0.0.1'', ''25565'')] \<and> gm_get out ''0/tcp'' = None"
proof -
  let ?m = "[(''127.0.0.1'', [25565]), (''10.0.0.1'', [25565, 0])] :: mappings"
  have "gm_wf ?m" "True \<longrightarrow> (\<forall>ps. gm_get ?m loopback = Some ps \<longrightarrow> distinct ps)"
    by (simp_all add: gm_wf_def gm_get_def loopback_def)
  from ports_exact [OF this, of "[]"] obtain out where
    "docker_bindings True [] ?m = Ret out"
    "\<forall>k. gm_get out k = (if published ?m k = [] then None else Some (expected True [] ?m k))" by blast
  moreover have "published ?m ''25565/udp'' = [(''127.0.0.1'', ''25565''), (''10.0.0.1'', ''25565'')]"
    "published ?m ''0/tcp'' = []" "expected True [] ?m ''25565/udp'' = [(''10.0.0.1'', ''25565'')]"
    by code_simp+
  ultimately show ?thesis by auto
qed

text \<open>A port twice on the loopback address, and a port that is exposed with nothing bound to it.\<close>

lemma double_port_panics: "docker_bindings True [] [(''127.0.0.1'', [25565, 25565])] = Panic"
  by code_simp

lemma exposed_unbound:
  "docker_bindings True [] [(''127.0.0.1'', [25565])] = Ret [(''25565/tcp'', []), (''25565/udp'', [])]"
  by code_simp


section \<open>The limits of a container\<close>

text \<open>
  Multipliers are decimals, and \<open>scale m x\<close> stands for the rounded product of a number of mebibytes,
  a multiplier and 1024 * 1024 in floating point.
\<close>

record overhead =
  oh_override :: bool
  oh_default :: rat
  oh_multipliers :: "(int, rat) gomap"

definition get_multiplier :: "overhead \<Rightarrow> int \<Rightarrow> rat" where
  "get_multiplier o1 limit =
     (if \<not> oh_override o1 then (if limit \<le> 2048 then 115 / 100 else if limit \<le> 4096 then 110 / 100 else 105 / 100)
      else case List.find (\<lambda>m. \<not> limit > m) (sort (gm_keys (oh_multipliers o1))) of
        None \<Rightarrow> oh_default o1
      | Some m \<Rightarrow> (case gm_get (oh_multipliers o1) m of None \<Rightarrow> 0 | Some x \<Rightarrow> x))"

record build_limits =
  bl_memory :: int
  bl_swap :: int
  bl_io_weight :: int
  bl_cpu :: int
  bl_threads :: string
  bl_oom_disabled :: bool

definition converted_cpu_limit :: "build_limits \<Rightarrow> int" where
  "converted_cpu_limit l = (if bl_cpu l = 0 then -1 else wrap64 (bl_cpu l * 1000))"

definition bounded_memory_limit :: "(int \<Rightarrow> rat \<Rightarrow> int) \<Rightarrow> overhead \<Rightarrow> build_limits \<Rightarrow> int" where
  "bounded_memory_limit scale o1 l = scale (bl_memory l) (get_multiplier o1 (bl_memory l))"

definition converted_swap :: "(int \<Rightarrow> rat \<Rightarrow> int) \<Rightarrow> overhead \<Rightarrow> build_limits \<Rightarrow> int" where
  "converted_swap scale o1 l =
     (if bl_swap l < 0 then -1 else wrap64 (wrap64 (bl_swap l * 1024 * 1024) + bounded_memory_limit scale o1 l))"

record resources =
  rs_memory :: int
  rs_reservation :: int
  rs_swap :: int
  rs_oom_disable :: bool
  rs_pids :: "int option"
  rs_blkio_weight :: int
  rs_cpu_quota :: int
  rs_cpu_period :: int
  rs_cpu_shares :: int
  rs_cpuset :: string

definition as_container_resources :: "(int \<Rightarrow> rat \<Rightarrow> int) \<Rightarrow> overhead \<Rightarrow> int \<Rightarrow> build_limits \<Rightarrow> resources" where
  "as_container_resources scale o1 pids l =
     \<lparr>rs_memory = bounded_memory_limit scale o1 l, rs_reservation = wrap64 (bl_memory l * 1024 * 1024),
      rs_swap = converted_swap scale o1 l, rs_oom_disable = bl_oom_disabled l, rs_pids = Some pids,
      rs_blkio_weight = (if bl_io_weight l > 0 then bl_io_weight l else 0),
      rs_cpu_quota = (if bl_cpu l > 0 then wrap64 (bl_cpu l * 1000) else 0),
      rs_cpu_period = (if bl_cpu l > 0 then 100000 else 0), rs_cpu_shares = (if bl_cpu l > 0 then 1024 else 0),
      rs_cpuset = bl_threads l\<rparr>"

text \<open>The installation container has at least the limits of the installer, and no limit of processes.\<close>

definition resource_limits :: "(int \<Rightarrow> rat \<Rightarrow> int) \<Rightarrow> overhead \<Rightarrow> int \<Rightarrow> int \<Rightarrow> int \<Rightarrow> build_limits \<Rightarrow> resources" where
  "resource_limits scale o1 pids mem cpu l =
     (let l = (if bl_memory l < mem then l\<lparr>bl_memory := mem\<rparr> else l);
          l = (if cpu = 0 then l\<lparr>bl_cpu := 0\<rparr> else if bl_cpu l \<noteq> 0 \<and> bl_cpu l < cpu then l\<lparr>bl_cpu := cpu\<rparr> else l)
      in (as_container_resources scale o1 pids l)\<lparr>rs_pids := None\<rparr>)"

text \<open>The multiplier is that of the smallest threshold the memory does not exceed, in whatever order the map is.\<close>

lemma find_sorted: "sorted xs \<Longrightarrow> List.find (\<lambda>m. \<not> limit > m) xs = Some k \<Longrightarrow> k \<in> set xs \<and> limit \<le> k \<and> (\<forall>x \<in> set xs. limit \<le> x \<longrightarrow> k \<le> x)"
  for limit :: int
  by (induction xs) (auto split: if_splits)

lemma multiplier_least:
  assumes "oh_override o1" "gm_wf (oh_multipliers o1)" "gm_get (oh_multipliers o1) k = Some x" "limit \<le> k"
    "\<forall>j. gm_get (oh_multipliers o1) j \<noteq> None \<longrightarrow> limit \<le> j \<longrightarrow> k \<le> j"
  shows "get_multiplier o1 limit = x"
proof -
  let ?ks = "sort (gm_keys (oh_multipliers o1))"
  have k: "k \<in> set ?ks" using assms(3) set_gm_keys [of "oh_multipliers o1"] by auto
  then obtain j where j: "List.find (\<lambda>m. \<not> limit > m) ?ks = Some j"
    using assms(4) by (cases "List.find (\<lambda>m. \<not> limit > m) ?ks") (auto simp: find_None_iff)
  from find_sorted [OF _ j] have "j \<in> set ?ks" "limit \<le> j" "j \<le> k" using k assms(4) by auto
  moreover have "k \<le> j" using calculation(1,2) assms(5) set_gm_keys [of "oh_multipliers o1"] by auto
  ultimately show ?thesis using j assms(1,3) by (simp add: get_multiplier_def)
qed

lemma multiplier_default:
  "oh_override o1 \<Longrightarrow> \<forall>j. gm_get (oh_multipliers o1) j \<noteq> None \<longrightarrow> j < limit \<Longrightarrow> get_multiplier o1 limit = oh_default o1"
proof -
  assume *: "oh_override o1" "\<forall>j. gm_get (oh_multipliers o1) j \<noteq> None \<longrightarrow> j < limit"
  then have "List.find (\<lambda>m. \<not> limit > m) (sort (gm_keys (oh_multipliers o1))) = None"
    using set_gm_keys [of "oh_multipliers o1"] by (auto simp: find_None_iff)
  then show ?thesis using * by (simp add: get_multiplier_def)
qed

text \<open>
  What Docker asks of the limits of a container: that its reservation is at most its memory, and that
  memory and swap together, where they are limited, are at least the memory, which must then be
  limited as well. Zero and minus one are no limit.
\<close>

definition docker_accepts :: "resources \<Rightarrow> bool" where
  "docker_accepts r \<longleftrightarrow> (rs_memory r > 0 \<longrightarrow> rs_reservation r \<le> rs_memory r) \<and>
     (rs_swap r > 0 \<longrightarrow> rs_memory r > 0 \<and> rs_memory r \<le> rs_swap r)"

lemma accepts:
  assumes "\<forall>m x. 0 < m \<longrightarrow> 1 \<le> x \<longrightarrow> m * 1024 * 1024 \<le> scale m x" "1 \<le> oh_default o1"
    "\<forall>k x. gm_get (oh_multipliers o1) k = Some x \<longrightarrow> 1 \<le> x" "0 < bl_memory l"
    "in_int64 (scale (bl_memory l) (get_multiplier o1 (bl_memory l)))"
    "in_int64 (bl_swap l * 1024 * 1024 + scale (bl_memory l) (get_multiplier o1 (bl_memory l)))"
  shows "docker_accepts (as_container_resources scale o1 pids l)"
proof -
  let ?x = "get_multiplier o1 (bl_memory l)"
  have x: "1 \<le> ?x"
  proof (cases "List.find (\<lambda>m. \<not> bl_memory l > m) (sort (gm_keys (oh_multipliers o1)))")
    case (Some k)
    then have "k \<in> set (gm_keys (oh_multipliers o1))" using find_sorted [OF sorted_sort Some] by simp
    then show ?thesis using assms(3) Some set_gm_keys [of "oh_multipliers o1"] by (auto simp: get_multiplier_def)
  qed (use assms(2) in \<open>simp add: get_multiplier_def\<close>)
  then have big: "bl_memory l * 1024 * 1024 \<le> scale (bl_memory l) ?x" using assms(1,4) by blast
  then have "in_int64 (bl_memory l * 1024 * 1024)" using assms(4,5) by (auto simp: in_int64_def int64_min_def)
  moreover have "in_int64 (bl_swap l * 1024 * 1024)" if "0 \<le> bl_swap l"
    using that assms(4,6) big by (auto simp: in_int64_def int64_min_def)
  ultimately show ?thesis
    using big assms(4,6)
    by (auto simp: docker_accepts_def as_container_resources_def bounded_memory_limit_def converted_swap_def)
qed

text \<open>
  The limits of every server with some memory, and of its installation, are ones Docker accepts, when no
  configured multiplier is below one, the numbers of bytes fit into 64 bits, and the product in floating
  point is at least the exact one for multipliers of at least one.
\<close>

theorem resources_accepted:
  assumes "\<forall>m x. 0 < m \<longrightarrow> 1 \<le> x \<longrightarrow> m * 1024 * 1024 \<le> scale m x" "1 \<le> oh_default o1"
    "\<forall>k x. gm_get (oh_multipliers o1) k = Some x \<longrightarrow> 1 \<le> x" "0 < bl_memory l"
    "\<forall>m \<in> {bl_memory l, max (bl_memory l) mem}. in_int64 (scale m (get_multiplier o1 m)) \<and>
       in_int64 (bl_swap l * 1024 * 1024 + scale m (get_multiplier o1 m))"
  shows "docker_accepts (as_container_resources scale o1 pids l) \<and> docker_accepts (resource_limits scale o1 pids mem cpu l)"
proof -
  let ?l = "l\<lparr>bl_memory := max (bl_memory l) mem\<rparr>"
  define c where "c = (if cpu = 0 then 0 else if bl_cpu l \<noteq> 0 \<and> bl_cpu l < cpu then cpu else bl_cpu l)"
  have "docker_accepts (as_container_resources scale o1 pids (?l\<lparr>bl_cpu := c\<rparr>))"
    using assms(4,5) by (intro accepts [OF assms(1-3)]) auto
  moreover have "resource_limits scale o1 pids mem cpu l = (as_container_resources scale o1 pids (?l\<lparr>bl_cpu := c\<rparr>))\<lparr>rs_pids := None\<rparr>"
    by (auto simp: resource_limits_def Let_def c_def max_def as_container_resources_def bounded_memory_limit_def converted_swap_def)
  ultimately show ?thesis
    using accepts [OF assms(1-4)] assms(5) by (auto simp: docker_accepts_def)
qed

definition example_overhead :: overhead where
  "example_overhead = \<lparr>oh_override = False, oh_default = 105 / 100, oh_multipliers = []\<rparr>"

definition example_limits :: build_limits where
  "example_limits = \<lparr>bl_memory = 1024, bl_swap = 0, bl_io_weight = 500, bl_cpu = 100, bl_threads = [], bl_oom_disabled = True\<rparr>"

definition exact_scale :: "int \<Rightarrow> rat \<Rightarrow> int" where
  "exact_scale m x = \<lceil>of_int m * x * 1024 * 1024\<rceil>"

lemma exact_scale_large: "0 < m \<Longrightarrow> 1 \<le> x \<Longrightarrow> m * 1024 * 1024 \<le> exact_scale m x"
proof -
  assume mx: "0 < m" "1 \<le> x"
  then have "of_int (m * 1024 * 1024) \<le> (of_int m * x * 1024 * 1024 :: rat)" by simp
  also have "\<dots> \<le> of_int (exact_scale m x)" by (simp add: exact_scale_def)
  finally show ?thesis by (simp only: of_int_le_iff)
qed

lemma resources_accepted_witness:
  "docker_accepts (as_container_resources exact_scale example_overhead 512 example_limits) \<and>
   docker_accepts (resource_limits exact_scale example_overhead 512 4096 200 example_limits)"
proof (rule resources_accepted)
  show "\<forall>m x. 0 < m \<longrightarrow> 1 \<le> x \<longrightarrow> m * 1024 * 1024 \<le> exact_scale m x" using exact_scale_large by blast
qed (auto simp: example_overhead_def example_limits_def exact_scale_def get_multiplier_def in_int64_def int64_min_def int64_max_def)

text \<open>A server without a limit of memory, written as zero, but with some swap is not accepted.\<close>

lemma swap_without_memory:
  "\<not> docker_accepts (as_container_resources exact_scale example_overhead 512 (example_limits\<lparr>bl_memory := 0, bl_swap := 64\<rparr>))"
  by (simp add: docker_accepts_def as_container_resources_def bounded_memory_limit_def converted_swap_def exact_scale_def
      example_limits_def wrap64_def)


section \<open>The image\<close>

datatype pull_policy = Always | IfNotPresent | Never | Schedule

definition parse_image_pull_policy :: "string \<Rightarrow> pull_policy option" where
  "parse_image_pull_policy s = (let t = trim_space (to_lower s) in
     if t = [] then Some Schedule else if t = ''ifnotpresent'' then Some IfNotPresent
     else if t = ''always'' then Some Always else if t = ''never'' then Some Never
     else if t = ''schedule'' then Some Schedule else None)"

text \<open>\<open>cron\<close> says whether the cron library parses an expression.\<close>

definition validate_image_pull_policy :: "(string \<Rightarrow> bool) \<Rightarrow> string \<Rightarrow> string \<Rightarrow> (pull_policy \<times> string) option" where
  "validate_image_pull_policy cron policy schedule = (case parse_image_pull_policy policy of
     None \<Rightarrow> None
   | Some p \<Rightarrow>
       (if p \<noteq> Schedule then Some (p, schedule)
        else let s = (if trim_space schedule = [] then ''0 1 1 * *'' else trim_space schedule)
          in if cron s then Some (p, s) else None))"

text \<open>
  What Docker answers about images: the tags it has, unless listing them fails, whether inspecting one
  finds it, and whether pulling one ends well. The images that were pulled and those that are
  registered for the schedule are the state.
\<close>

datatype inspect_answer = Found | Missing | Failed

record image_answers =
  im_local :: "string list option"
  im_inspect :: "string \<Rightarrow> inspect_answer"
  im_pulls :: "string \<Rightarrow> bool"

record image_state =
  im_pulled :: "string list"
  im_scheduled :: "string list"

datatype create_error = ListImagesFailed | ImageNotPresent | InspectImageFailed | PullFailed
  | InspectFailed | NetworkFailed | CreateRefused

definition image_exists_locally :: "image_answers \<Rightarrow> string \<Rightarrow> create_error + bool" where
  "image_exists_locally a img = (case im_local a of None \<Rightarrow> Inl ListImagesFailed | Some tags \<Rightarrow> Inr (img \<in> set tags))"

definition pull_image_with_offline_fallback :: "image_answers \<Rightarrow> string \<Rightarrow> image_state \<Rightarrow> create_error option \<times> image_state" where
  "pull_image_with_offline_fallback a img s =
     (if im_pulls a img then (None, s\<lparr>im_pulled := im_pulled s @ [img]\<rparr>)
      else case im_local a of
        None \<Rightarrow> (Some ListImagesFailed, s)
      | Some tags \<Rightarrow> (if img \<in> set tags then None else Some PullFailed, s))"

text \<open>The credentials a pull carries: of the first registry, in some order, whose name the image begins with.\<close>

definition registry_auth_for_image :: "(string, string \<times> string) gomap \<Rightarrow> string \<Rightarrow> (string \<times> string) option" where
  "registry_auth_for_image registries img = map_option snd (List.find (\<lambda>(r, c). has_prefix img r) registries)"

lemma registry_auth_leaks:
  "registry_auth_for_image [(''ghcr.io'', (''user'', ''secret''))] ''ghcr.io.example.com/image'' = Some (''user'', ''secret'')"
  by code_simp

definition register_scheduled_pull_image :: "string \<Rightarrow> image_state \<Rightarrow> image_state" where
  "register_scheduled_pull_image img s =
     (if img = [] \<or> has_prefix img ''~'' then s else s\<lparr>im_scheduled := List.insert img (im_scheduled s)\<rparr>)"

definition pull_if_absent :: "image_answers \<Rightarrow> string \<Rightarrow> image_state \<Rightarrow> create_error option \<times> image_state" where
  "pull_if_absent a img s = (case image_exists_locally a img of
     Inl e \<Rightarrow> (Some e, s)
   | Inr True \<Rightarrow> (None, s)
   | Inr False \<Rightarrow> pull_image_with_offline_fallback a img s)"

definition ensure_image_exists :: "pull_policy \<Rightarrow> image_answers \<Rightarrow> string \<Rightarrow> image_state \<Rightarrow> create_error option \<times> image_state" where
  "ensure_image_exists policy a img s =
     (if has_prefix img ''~'' then (None, s)
      else case policy of
        Never \<Rightarrow> (case im_inspect a img of
            Found \<Rightarrow> (None, s) | Missing \<Rightarrow> (Some ImageNotPresent, s) | Failed \<Rightarrow> (Some InspectImageFailed, s))
      | IfNotPresent \<Rightarrow> pull_if_absent a img s
      | Schedule \<Rightarrow> pull_if_absent a img (register_scheduled_pull_image img s)
      | Always \<Rightarrow> pull_image_with_offline_fallback a img s)"

definition run_scheduled_pulls :: "image_answers \<Rightarrow> image_state \<Rightarrow> image_state" where
  "run_scheduled_pulls a s = fold (\<lambda>img s.
     if img = [] then s else snd (pull_image_with_offline_fallback a img s)) (im_scheduled s) s"

lemma pull_cases:
  "pull_image_with_offline_fallback a img s = (r, t) \<Longrightarrow>
     (r = None \<longrightarrow> img \<in> set (im_pulled t) \<or> (\<exists>tags. im_local a = Some tags \<and> img \<in> set tags)) \<and> im_scheduled t = im_scheduled s"
  by (auto simp: pull_image_with_offline_fallback_def split: if_splits option.splits)

text \<open>
  An image that is reported to exist was pulled, is on the machine, or is marked as local; the policies never
  to pull, and to pull what is absent, do not pull what is there, and only a scheduled one is registered.
\<close>

lemma ensured_image:
  assumes "ensure_image_exists policy a img s = (None, t)"
  shows "has_prefix img ''~'' \<or> img \<in> set (im_pulled t) \<or> (\<exists>tags. im_local a = Some tags \<and> img \<in> set tags) \<or>
    (policy = Never \<and> im_inspect a img = Found)"
  using assms pull_cases
  by (fastforce simp: ensure_image_exists_def pull_if_absent_def image_exists_locally_def
      split: if_splits pull_policy.splits inspect_answer.splits sum.splits bool.splits option.splits)

lemma present_not_pulled:
  "policy \<noteq> Always \<Longrightarrow> im_local a = Some tags \<Longrightarrow> img \<in> set tags \<Longrightarrow>
     im_pulled (snd (ensure_image_exists policy a img s)) = im_pulled s"
  by (cases policy) (auto simp: ensure_image_exists_def pull_if_absent_def image_exists_locally_def
      register_scheduled_pull_image_def split: inspect_answer.splits)

lemma scheduled_registered:
  "\<not> has_prefix img ''~'' \<Longrightarrow> img \<noteq> [] \<Longrightarrow> img \<in> set (im_scheduled (snd (ensure_image_exists Schedule a img s)))"
  by (auto simp: ensure_image_exists_def pull_if_absent_def register_scheduled_pull_image_def
      pull_image_with_offline_fallback_def split: sum.splits bool.splits option.splits)

section \<open>The network\<close>

record network_config =
  nw_name :: string
  nw_driver :: string
  nw_mode :: string
  nw_interface :: string
  nw_ispn :: bool
  nw_v4 :: "string \<times> string"
  nw_v6 :: "string \<times> string"

text \<open>What \<^verbatim>\<open>NetworkInspect\<close> says of the network: its driver and the gateways of its address pools.\<close>

type_synonym network_resource = "string \<times> string list"

text \<open>\<open>ipv4\<close> is whether \<^verbatim>\<open>net.ParseIP\<close> gives an address with a form of four bytes.\<close>

definition apply_network :: "(string \<Rightarrow> bool) \<Rightarrow> network_resource \<Rightarrow> network_config \<Rightarrow> network_config" where
  "apply_network ipv4 r nw = (let nw = nw\<lparr>nw_driver := fst r\<rparr> in
     if nw_driver nw = ''host'' then nw\<lparr>nw_interface := ''127.0.0.1'', nw_ispn := False\<rparr>
     else if nw_driver nw = ''overlay'' \<or> nw_driver nw = ''weavemesh'' then nw\<lparr>nw_interface := [], nw_ispn := True\<rparr>
     else let nw = nw\<lparr>nw_ispn := False\<rparr> in
       case List.find (\<lambda>g. g \<noteq> [] \<and> ipv4 g) (snd r) of None \<Rightarrow> nw | Some g \<Rightarrow> nw\<lparr>nw_interface := g\<rparr>)"

definition network_pools :: "network_config \<Rightarrow> (string \<times> string) list" where
  "network_pools nw = (if fst (nw_v4 nw) \<noteq> [] then [nw_v4 nw] else []) @ (if fst (nw_v6 nw) \<noteq> [] then [nw_v6 nw] else [])"

definition created_network :: "network_config \<Rightarrow> network_config" where
  "created_network nw =
     (if nw_driver nw \<notin> {''host'', ''overlay'', ''weavemesh''} \<and> fst (nw_v4 nw) \<noteq> []
      then nw\<lparr>nw_interface := snd (nw_v4 nw)\<rparr> else nw)"

datatype network_answer = NetworkFound network_resource | NetworkMissing | NetworkError

text \<open>The answers of the first inspection, of making the network, and of inspecting it again.\<close>

definition configure_docker :: "(string \<Rightarrow> bool) \<Rightarrow> network_answer \<Rightarrow> bool \<Rightarrow> network_answer \<Rightarrow> network_config \<Rightarrow> network_config option" where
  "configure_docker ipv4 found made again nw = (case found of
     NetworkFound r \<Rightarrow> Some (apply_network ipv4 r nw)
   | NetworkError \<Rightarrow> None
   | NetworkMissing \<Rightarrow> (if \<not> made then None else case again of
         NetworkFound r \<Rightarrow> Some (apply_network ipv4 r (created_network nw))
       | _ \<Rightarrow> None))"

text \<open>After it, \<^verbatim>\<open>ISPN\<close> holds exactly for the drivers that have no interface.\<close>

lemma configured_ispn:
  "configure_docker ipv4 found made again nw = Some nw' \<Longrightarrow> nw_ispn nw' \<longleftrightarrow> nw_driver nw' \<in> {''overlay'', ''weavemesh''}"
  by (auto simp: configure_docker_def apply_network_def Let_def split: network_answer.splits if_splits option.splits)


section \<open>Making the container\<close>

record docker_config =
  dc_network :: network_config
  dc_domainname :: string
  dc_dns :: "string list"
  dc_tmpfs_size :: int
  dc_pid_limit :: int
  dc_overhead :: overhead
  dc_policy :: pull_policy
  dc_userns :: string
  dc_rootless :: bool
  dc_container_user :: "int \<times> int"
  dc_user :: "int \<times> int"
  dc_log :: "string \<times> (string, string) gomap"

text \<open>
  The configuration a server's environment holds: the settings, and the list of variables, which
  \<^verbatim>\<open>Create\<close> changes in place.
\<close>

record env_config =
  ev_id :: string
  ev_image :: string
  ev_variables :: "string list"
  ev_labels :: "(string, string) gomap"
  ev_mounts :: "mount list"
  ev_mappings :: mappings
  ev_force_ip :: bool
  ev_default_ip :: string
  ev_limits :: build_limits

record container_request =
  cr_name :: string
  cr_domainname :: string
  cr_user :: string
  cr_image :: string
  cr_env :: "string list"
  cr_labels :: "(string, string) gomap"
  cr_exposed :: "string list"
  cr_bindings :: port_map
  cr_mounts :: "(string \<times> string \<times> bool) list"
  cr_tmpfs :: string
  cr_resources :: resources
  cr_dns :: "string list"
  cr_log :: "string \<times> (string, string) gomap"
  cr_security_opt :: "string list"
  cr_readonly_root :: bool
  cr_cap_drop :: "string list"
  cr_network :: string
  cr_userns :: string

definition convert_mounts :: "env_config \<Rightarrow> (string \<times> string \<times> bool) list" where
  "convert_mounts e = map (\<lambda>m. (mt_source m, mt_target m, mt_read_only m)) (ev_mounts e)"

definition replace_server_ip :: "docker_config \<Rightarrow> string list \<Rightarrow> string list" where
  "replace_server_ip cfg = map (\<lambda>v. if v = ''SERVER_IP=127.0.0.1'' then ''SERVER_IP='' @ nw_interface (dc_network cfg) else v)"

definition container_labels :: "(string, string) gomap \<Rightarrow> (string, string) gomap" where
  "container_labels m = gm_set (gm_set (fold (\<lambda>(k, v) out. gm_set out k v) m []) ''Service'' ''sls'') ''ContainerType'' ''server_process''"

definition outgoing_network :: "env_config \<Rightarrow> string" where
  "outgoing_network e = ''ip-'' @ replace_all '':'' ''-'' (replace_all ''.'' ''-'' (ev_default_ip e))"

definition container_user :: "docker_config \<Rightarrow> string" where
  "container_user cfg = (let (u, g) = (if dc_rootless cfg then dc_container_user cfg else dc_user cfg) in itoa u @ '':'' @ itoa g)"

definition container_log_config :: "docker_config \<Rightarrow> string \<times> (string, string) gomap" where
  "container_log_config cfg = (if fst (dc_log cfg) = [] then ([], []) else dc_log cfg)"

definition cap_drop :: "string list" where
  "cap_drop = [''setpcap'', ''mknod'', ''audit_write'', ''net_raw'', ''dac_override'', ''fowner'', ''fsetid'',
     ''net_bind_service'', ''sys_chroot'', ''setfcap'']"

definition container_config :: "(int \<Rightarrow> rat \<Rightarrow> int) \<Rightarrow> docker_config \<Rightarrow> env_config \<Rightarrow> container_request go" where
  "container_config scale cfg e = (let nw = dc_network cfg in
     go_bind (exposed (nw_ispn nw) (nw_interface nw) (ev_mappings e)) (\<lambda>ports.
     go_bind (docker_bindings (nw_ispn nw) (nw_interface nw) (ev_mappings e)) (\<lambda>bs.
       Ret \<lparr>cr_name = ev_id e, cr_domainname = dc_domainname cfg, cr_user = container_user cfg,
         cr_image = trim_prefix (ev_image e) ''~'', cr_env = ev_variables e, cr_labels = container_labels (ev_labels e),
         cr_exposed = ports, cr_bindings = bs, cr_mounts = convert_mounts e,
         cr_tmpfs = ''rw,exec,nosuid,size='' @ itoa (dc_tmpfs_size cfg) @ ''M'',
         cr_resources = as_container_resources scale (dc_overhead cfg) (dc_pid_limit cfg) (ev_limits e),
         cr_dns = dc_dns cfg, cr_log = container_log_config cfg, cr_security_opt = [''no-new-privileges''], cr_readonly_root = True, cr_cap_drop = cap_drop,
         cr_network = (if ev_force_ip e then outgoing_network e else nw_mode nw), cr_userns = dc_userns cfg\<rparr>)))"

text \<open>What Docker answers on the way: about the container, the image, the network of the address, and making both.\<close>

record create_answers =
  ca_inspect :: inspect_answer
  ca_image :: image_answers
  ca_network :: inspect_answer
  ca_network_made :: bool
  ca_made :: bool

text \<open>\<^verbatim>\<open>Create\<close>: the error, the container that is made, if one is, and the state afterwards.\<close>

definition create_env :: "(int \<Rightarrow> rat \<Rightarrow> int) \<Rightarrow> docker_config \<Rightarrow> create_answers \<Rightarrow> env_config \<Rightarrow> image_state \<Rightarrow>
    (create_error option \<times> container_request option \<times> env_config \<times> image_state) go" where
  "create_env scale cfg a e st = (case ca_inspect a of
     Found \<Rightarrow> Ret (None, None, e, st)
   | Failed \<Rightarrow> Ret (Some InspectFailed, None, e, st)
   | Missing \<Rightarrow> (case ensure_image_exists (dc_policy cfg) (ca_image a) (ev_image e) st of
       (Some er, st) \<Rightarrow> Ret (Some er, None, e, st)
     | (None, st) \<Rightarrow> (let e = e\<lparr>ev_variables := replace_server_ip cfg (ev_variables e)\<rparr> in
         go_bind (container_config scale cfg e) (\<lambda>r.
           if ev_force_ip e \<and> (ca_network a = Failed \<or> (ca_network a = Missing \<and> \<not> ca_network_made a))
           then Ret (Some NetworkFailed, None, e, st)
           else if ca_made a then Ret (None, Some r, e, st) else Ret (Some CreateRefused, None, e, st)))))"

text \<open>The settings a synchronisation gives the environment, and the limits it gives a container that is there.\<close>

definition sync_environment :: "('f \<Rightarrow> string) \<Rightarrow> 'f server_env \<Rightarrow> mount list \<Rightarrow> mappings \<Rightarrow> build_limits \<Rightarrow> (string, string) gomap \<Rightarrow>
    string \<Rightarrow> env_config \<Rightarrow> env_config go" where
  "sync_environment show s mounts m l labels img e = go_bind (get_environment_variables show s) (\<lambda>vs.
     Ret (e\<lparr>ev_mounts := mounts, ev_mappings := m, ev_limits := l, ev_labels := labels, ev_image := img, ev_variables := vs\<rparr>))"

definition in_situ_update :: "(int \<Rightarrow> rat \<Rightarrow> int) \<Rightarrow> docker_config \<Rightarrow> inspect_answer \<Rightarrow> bool \<Rightarrow> env_config \<Rightarrow> bool \<times> resources option" where
  "in_situ_update scale cfg found updated e = (case found of
     Missing \<Rightarrow> (True, None)
   | Failed \<Rightarrow> (False, None)
   | Found \<Rightarrow> (if updated then (True, Some (as_container_resources scale (dc_overhead cfg) (dc_pid_limit cfg) (ev_limits e)))
       else (False, None)))"

lemma labels_get:
  "gm_wf m \<Longrightarrow> gm_get (fold (\<lambda>(k, v) out. gm_set out k v) m out) k = (case gm_get m k of None \<Rightarrow> gm_get out k | Some v \<Rightarrow> Some v)"
proof (induction m arbitrary: out)
  case (Cons x m)
  obtain l v where x: "x = (l, v)" by fastforce
  have "gm_wf m" "gm_get m l = None"
    using Cons(2) by (auto simp: gm_wf_def gm_get_def x map_of_eq_None_iff)
  then show ?case using Cons(1) [of "gm_set out l v"] by (auto simp: x gm_get_def [of "(l, v) # m"] gm_get_def [of m] split: option.split)
qed (simp add: gm_get_def [of "[]"])

text \<open>
  C15. A server's container, when it is made, is labelled as a process of the daemon whatever labels the server
  has, has the server's other labels, shows exactly the server's mounts, gains no privileges, has a
  read-only root, has an image that was pulled, is on the machine or is marked as local, and
  sees the address of the network in place of the loopback address; it is made only if none was there.
\<close>

theorem container_made:
  assumes "create_env scale cfg a e st = Ret (None, Some r, e', st')" "gm_wf (ev_labels e)"
  shows "ca_inspect a = Missing \<and>
    gm_get (cr_labels r) k = (if k = ''Service'' then Some ''sls'' else if k = ''ContainerType'' then Some ''server_process''
      else gm_get (ev_labels e) k) \<and>
    cr_mounts r = map (\<lambda>m. (mt_source m, mt_target m, mt_read_only m)) (ev_mounts e) \<and>
    ''no-new-privileges'' \<in> set (cr_security_opt r) \<and> cr_readonly_root r \<and>
    cr_image r = trim_prefix (ev_image e) ''~'' \<and>
    (has_prefix (ev_image e) ''~'' \<or> ev_image e \<in> set (im_pulled st') \<or>
      (\<exists>tags. im_local (ca_image a) = Some tags \<and> ev_image e \<in> set tags) \<or>
      (dc_policy cfg = Never \<and> im_inspect (ca_image a) (ev_image e) = Found)) \<and>
    (nw_interface (dc_network cfg) \<noteq> loopback \<longrightarrow> ''SERVER_IP=127.0.0.1'' \<notin> set (cr_env r)) \<and>
    cr_env r = ev_variables e'"
proof -
  obtain st1 where ens: "ensure_image_exists (dc_policy cfg) (ca_image a) (ev_image e) st = (None, st1)"
    and miss: "ca_inspect a = Missing"
    using assms(1) by (auto simp: create_env_def split: inspect_answer.splits prod.splits option.splits)
  define f where "f = e\<lparr>ev_variables := replace_server_ip cfg (ev_variables e)\<rparr>"
  from assms(1) have r: "container_config scale cfg f = Ret r" and eq: "e' = f" "st' = st1"
    using ens miss by (auto simp: create_env_def f_def Let_def go_outcome split: if_splits)
  have parts: "cr_labels r = container_labels (ev_labels e)" "cr_mounts r = convert_mounts e"
    "cr_security_opt r = [''no-new-privileges'']" "cr_readonly_root r" "cr_image r = trim_prefix (ev_image e) ''~''"
    "cr_env r = replace_server_ip cfg (ev_variables e)"
    using r by (auto simp: container_config_def Let_def go_outcome f_def convert_mounts_def)
  have labels: "gm_get (container_labels (ev_labels e)) k = (if k = ''Service'' then Some ''sls''
      else if k = ''ContainerType'' then Some ''server_process'' else gm_get (ev_labels e) k)"
    using labels_get [OF assms(2), of "[]" k] by (auto simp: container_labels_def split: option.split)
  have ip: "''SERVER_IP=127.0.0.1'' \<notin> set (replace_server_ip cfg (ev_variables e))"
    if "nw_interface (dc_network cfg) \<noteq> loopback"
    using that by (auto simp: replace_server_ip_def loopback_def)
  have "cr_env r = ev_variables e'" using parts(6) eq(1) by (simp add: f_def)
  then show ?thesis
    unfolding parts(1-5) labels convert_mounts_def [symmetric] eq(2)
    using parts(4,6) miss ip ensured_image [OF ens] by (intro conjI) simp_all
qed


definition example_docker :: docker_config where
  "example_docker = \<lparr>dc_network = \<lparr>nw_name = ''sls'', nw_driver = ''bridge'', nw_mode = ''sls'', nw_interface = ''172.60.0.1'',
       nw_ispn = False, nw_v4 = (''172.60.0.0/16'', ''172.60.0.1''), nw_v6 = ([], [])\<rparr>,
     dc_domainname = [], dc_dns = [''1.1.1.1''], dc_tmpfs_size = 100, dc_pid_limit = 512, dc_overhead = example_overhead,
     dc_policy = Schedule, dc_userns = [], dc_rootless = False, dc_container_user = (0, 0), dc_user = (988, 988), dc_log = (''local'', [(''max-size'', ''5m'')])\<rparr>"

definition example_env_config :: env_config where
  "example_env_config = \<lparr>ev_id = ''s1'', ev_image = ''java:21'', ev_variables = [''SERVER_IP=127.0.0.1''],
     ev_labels = [(''Service'', ''other''), (''team'', ''a'')],
     ev_mounts = [\<lparr>mt_default = True, mt_target = ''/home/container'', mt_source = ''/var/sls/s1'', mt_read_only = False\<rparr>],
     ev_mappings = [(''127.0.0.1'', [25565])], ev_force_ip = False, ev_default_ip = ''127.0.0.1'', ev_limits = example_limits\<rparr>"

definition example_create :: create_answers where
  "example_create = \<lparr>ca_inspect = Missing,
     ca_image = \<lparr>im_local = Some [], im_inspect = (\<lambda>_. Missing), im_pulls = (\<lambda>_. True)\<rparr>,
     ca_network = Missing, ca_network_made = False, ca_made = True\<rparr>"

definition fresh_images :: image_state where
  "fresh_images = \<lparr>im_pulled = [], im_scheduled = []\<rparr>"

lemma example_request:
  "container_config scale example_docker (example_env_config\<lparr>ev_variables := [''SERVER_IP=172.60.0.1'']\<rparr>) \<noteq> Panic"
proof -
  have "docker_bindings False ''172.60.0.1'' [(''127.0.0.1'', [25565])] =
      Ret [(''25565/tcp'', [(''172.60.0.1'', ''25565'')]), (''25565/udp'', [(''172.60.0.1'', ''25565'')])]"
    by code_simp
  then show ?thesis by (simp add: container_config_def Let_def example_docker_def example_env_config_def exposed_def)
qed

lemma container_made_witness:
  "\<exists>r e' st'. create_env exact_scale example_docker example_create example_env_config fresh_images = Ret (None, Some r, e', st') \<and>
     gm_get (cr_labels r) ''Service'' = Some ''sls'' \<and> gm_get (cr_labels r) ''team'' = Some ''a'' \<and>
     ''SERVER_IP=127.0.0.1'' \<notin> set (cr_env r)"
proof -
  let ?e = "example_env_config\<lparr>ev_variables := [''SERVER_IP=172.60.0.1'']\<rparr>"
  obtain r where "container_config exact_scale example_docker ?e = Ret r"
    using example_request [of exact_scale] by (cases "container_config exact_scale example_docker ?e") auto
  moreover have "replace_server_ip example_docker (ev_variables example_env_config) = [''SERVER_IP=172.60.0.1'']"
    by (simp add: replace_server_ip_def example_docker_def example_env_config_def)
  moreover have "ensure_image_exists (dc_policy example_docker) (ca_image example_create) (ev_image example_env_config) fresh_images =
      (None, \<lparr>im_pulled = [''java:21''], im_scheduled = [''java:21'']\<rparr>)"
    by (simp add: ensure_image_exists_def pull_if_absent_def image_exists_locally_def register_scheduled_pull_image_def
        pull_image_with_offline_fallback_def example_docker_def example_create_def example_env_config_def fresh_images_def has_prefix_def)
  ultimately have made: "create_env exact_scale example_docker example_create example_env_config fresh_images =
      Ret (None, Some r, ?e, \<lparr>im_pulled = [''java:21''], im_scheduled = [''java:21'']\<rparr>)"
    by (simp add: create_env_def example_create_def example_env_config_def)
  have wf: "gm_wf (ev_labels example_env_config)" by (simp add: example_env_config_def gm_wf_def)
  have "nw_interface (dc_network example_docker) \<noteq> loopback" by (simp add: example_docker_def loopback_def)
  then show ?thesis
    using made container_made [OF made wf, of "''Service''"] container_made [OF made wf, of "''team''"]
    by (intro exI [of _ r] exI) (auto simp: example_env_config_def gm_get_def)
qed

end
