(* ===== verification/Http_Access.thy ===== *)
theory Http_Access
  imports Server_Sync Daemon_Power
begin

text \<open>
  Who may ask what: the routes of Protocube (\<^verbatim>\<open>protocube/api/router/router.go\<close>) and of the daemon
  (\<^verbatim>\<open>daemon/api/router/router.go\<close>) with the middleware in front of their handlers
  (\<^verbatim>\<open>middleware.go\<close>, \<^verbatim>\<open>rate_limiter.go\<close> and \<^verbatim>\<open>request_error.go\<close> of both), the token a daemon is asked with
  (\<^verbatim>\<open>daemon/api/auth\<close>), and the pages of the log of a server. The web framework, the key service and
  the token buckets are packages outside the repository, and arguments here.
\<close>

section \<open>Requests and middleware\<close>

text \<open>
  A request on its way: what it carries, what is answered so far, and the state \<open>'s\<close> of the
  program, which only a handler changes. An error knows whether it is an exceeded deadline.
\<close>

record 's ctx =
  cx_method :: string
  cx_path :: string
  cx_header :: "string \<Rightarrow> string"
  cx_param :: "string \<Rightarrow> string"
  cx_keys :: "(string \<times> string) list"
  cx_out :: "(string \<times> string) list"
  cx_status :: int
  cx_bodies :: "http_error list"
  cx_errors :: "(string \<times> bool) list"
  cx_state :: 's

type_synonym 's handler = "'s ctx \<Rightarrow> 's ctx"

text \<open>A middleware is given the rest of the chain, which it runs with \<^verbatim>\<open>Next\<close> or leaves with \<^verbatim>\<open>Abort\<close>.\<close>

type_synonym 's middleware = "'s handler \<Rightarrow> 's handler"

text \<open>What is relied on of the framework, whose chain is \<open>run\<close>: the handlers of a route run in order.\<close>

definition runs_in_order :: "('s middleware list \<Rightarrow> 's handler) \<Rightarrow> bool" where
  "runs_in_order run \<longleftrightarrow> (\<forall>m ms c. run (m # ms) c = m (run ms) c) \<and> (\<forall>c. run [] c = c)"

definition set_header :: "string \<Rightarrow> string \<Rightarrow> 's handler" where
  "set_header k v c = c\<lparr>cx_out := cx_out c @ [(k, v)]\<rparr>"

definition set_key :: "string \<Rightarrow> string \<Rightarrow> 's handler" where
  "set_key k v c = c\<lparr>cx_keys := (k, v) # cx_keys c\<rparr>"

text \<open>\<^verbatim>\<open>httperror.AbortWithJSON\<close> and \<^verbatim>\<open>httperror.JSON\<close>: the status and the body.\<close>

definition abort_json :: "int \<Rightarrow> string \<Rightarrow> string \<Rightarrow> 's handler" where
  "abort_json status detail hint c =
     c\<lparr>cx_status := status, cx_bodies := cx_bodies c @ [new_http_error status detail hint]\<rparr>"

definition attach_request_id :: "string \<Rightarrow> 's middleware" where
  "attach_request_id uuid next c = next (set_header ''X-Request-Id'' uuid (set_key ''logger'' [] (set_key ''request_id'' uuid c)))"

text \<open>\<^verbatim>\<open>RequestError.Abort\<close> of an error, with the status given to it.\<close>

definition abort_error :: "string \<times> bool \<Rightarrow> int \<Rightarrow> 's handler" where
  "abort_error e status c =
     (if cx_status c = 200 \<and> snd e
        then abort_json 504 (fst e) ''The server could not process this request in time, please try again.'' c
      else if cx_status c = 200 \<and> contains_sub (fst e) ''context canceled''
        then abort_json 400 (fst e) ''Request aborted by client.'' c
      else abort_json status (fst e) ''An unexpected error was encountered while processing this request'' c)"

definition capture_errors :: "'s middleware" where
  "capture_errors next c = (let c = next c in
     if cx_errors c = [] then c
     else let e = last (cx_errors c); status = (if cx_status c \<noteq> 200 then cx_status c else 500)
       in if fst e = ''EOF'' then
            abort_json 400 ''empty or unreadable request body'' ''The data passed in the request was not in a parsable format.'' c
          else abort_error e status c)"

definition allowed_origin :: "string list \<Rightarrow> string \<Rightarrow> string option" where
  "allowed_origin origins origin = List.find (\<lambda>o1. \<not> (o1 \<noteq> ''*'' \<and> o1 \<noteq> origin)) origins"

definition access_control_headers :: "string list \<Rightarrow> bool \<Rightarrow> 's handler" where
  "access_control_headers origins private c =
     (let c = set_header ''Access-Control-Allow-Credentials'' ''true'' c;
          c = set_header ''Access-Control-Allow-Methods'' ''GET, POST, PATCH, PUT, DELETE, OPTIONS'' c;
          c = set_header ''Access-Control-Allow-Headers''
            ''Accept, Accept-Encoding, Authorization, Cache-Control, Content-Type, Content-Length, Origin, X-Real-IP, X-CSRF-NodeToken'' c;
          c = (if private then set_header ''Access-Control-Request-Private-Network'' ''true'' c else c);
          c = set_header ''Access-Control-Max-Age'' ''7200'' c
      in case allowed_origin origins (cx_header c ''Origin'') of None \<Rightarrow> c
         | Some o1 \<Rightarrow> set_header ''Access-Control-Allow-Origin'' o1 c)"

definition set_access_control_headers :: "string list \<Rightarrow> bool \<Rightarrow> 's middleware" where
  "set_access_control_headers origins private next c =
     (let c = access_control_headers origins private c in
      if cx_method c = ''OPTIONS'' then c\<lparr>cx_status := 204\<rparr> else next c)"

text \<open>
  The rate limiter of Protocube: whether the bucket of the client allows the request, and the numbers
  of its headers.
\<close>

definition rate_limiter :: "bool \<Rightarrow> int \<Rightarrow> string \<Rightarrow> int \<Rightarrow> 's middleware" where
  "rate_limiter allow remaining reset retry next c =
     (let c = set_header ''X-RateLimit-Limit'' (itoa (20 * 50)) c;
          c = set_header ''X-RateLimit-Remaining'' (itoa remaining) c;
          c = set_header ''X-RateLimit-Reset'' reset c
      in if \<not> allow then abort_json 429 ''rate_limit_exceeded'' ''Too many requests. Please try again later.''
           (set_header ''Retry-After'' (itoa retry) c)
         else next c)"

text \<open>\<open>late\<close> is whether the deadline of the request is exceeded when its handlers return.\<close>

definition timeout :: "bool \<Rightarrow> 's middleware" where
  "timeout late next c =
     (if cx_header c ''Accept'' = ''text/event-stream'' then next c
      else if to_lower (cx_header c ''Upgrade'') = ''websocket'' \<or> contains_sub (to_lower (cx_header c ''Connection'')) ''upgrade''
        then next c
      else let c = next c in
        if late then abort_json 504 ''request deadline exceeded'' ''Request timed out'' c else c)"

section \<open>Authorization\<close>

text \<open>The token of a header of the form \<^verbatim>\<open>Bearer token\<close>, or what to answer.\<close>

definition bearer :: "'s ctx \<Rightarrow> string option" where
  "bearer c = (let h = cx_header c ''Authorization'' in
     if h = [] \<or> \<not> has_prefix h ''Bearer '' then None else Some (trim_prefix h ''Bearer ''))"

definition refuse_bearer :: "'s handler" where
  "refuse_bearer c =
     (if cx_header c ''Authorization'' = []
      then abort_json 401 [] ''The required authorization header was not present in the request.'' (set_header ''WWW-Authenticate'' ''Bearer'' c)
      else abort_json 401 [] ''Invalid authorization header format.'' c)"

text \<open>
  Protocube: the key service validates the token, or gives the text of an error, and a key has the scope
  that is asked for.
\<close>

definition require_authorization :: "(string \<Rightarrow> string + 'k) \<Rightarrow> ('k \<Rightarrow> string \<Rightarrow> bool) \<Rightarrow> string \<Rightarrow> 's middleware" where
  "require_authorization validate has_scope scope next c = (case bearer c of
     None \<Rightarrow> refuse_bearer c
   | Some token \<Rightarrow> (case validate token of
       Inl e \<Rightarrow> abort_json 401 e ''You are not authorized to access this endpoint.'' c
     | Inr key \<Rightarrow>
         (if scope \<noteq> [] \<and> \<not> has_scope key scope
          then abort_json 403 ''Api key missing required scope for this endpoint'' ''Insufficient privileges'' c
          else next (set_key ''apiKey'' token c))))"

text \<open>The daemon: the token is verified as it is.\<close>

definition require_token :: "(string \<Rightarrow> bool) \<Rightarrow> 's middleware" where
  "require_token verify next c = (case bearer c of
     None \<Rightarrow> refuse_bearer c
   | Some token \<Rightarrow>
       (if \<not> verify token then abort_json 401 ''invalid token'' ''You are not authorized to access this endpoint.'' c
        else next c))"

text \<open>A resource named by a parameter of the path has to be there; it is then part of the context.\<close>

definition resource_exists :: "string \<Rightarrow> (string \<Rightarrow> bool) \<Rightarrow> 's middleware" where
  "resource_exists kind found next c = (let i = cx_param c kind in
     if i = [] \<or> \<not> found i
     then abort_json 404 ''resource not found'' ''The requested resource does not exist on this instance.'' c
     else next (set_key kind i c))"


section \<open>The routes\<close>

text \<open>What stands between a route and its handler, in order.\<close>

datatype guard = Scope string | Token | Exists string

record route =
  rt_method :: string
  rt_path :: string
  rt_guards :: "guard list"
  rt_handler :: string

abbreviation route :: "string \<Rightarrow> string \<Rightarrow> guard list \<Rightarrow> string \<Rightarrow> route" where
  "route m p g h \<equiv> \<lparr>rt_method = m, rt_path = p, rt_guards = g, rt_handler = h\<rparr>"

text \<open>A group of routes: the path in front of theirs, and the guards of the group.\<close>

definition group :: "string \<Rightarrow> guard list \<Rightarrow> (string \<times> string \<times> string) list \<Rightarrow> route list" where
  "group base guards = map (\<lambda>(m, p, h). route m (base @ p) guards h)"

definition protocube_routes :: "route list" where
  "protocube_routes =
     group [] [] [(''GET'', [], ''postBanner''), (''GET'', ''/nodes'', ''getNodes'')] @
     group ''/api'' [Scope ''app:admin'']
       [(''GET'', ''/nodes'', ''getAllNodes''), (''GET'', ''/system'', ''getSystemInformation''),
        (''GET'', ''/servers'', ''getAllServers''), (''POST'', ''/servers'', ''postCreateServer''),
        (''GET'', ''/blueprints'', ''getAllBlueprints''), (''POST'', ''/blueprints/reload'', ''postReloadBlueprints''),
        (''POST'', ''/software/reload'', ''postReloadSoftware''), (''GET'', ''/events'', ''getEventStream''),
        (''GET'', ''/events/ws'', ''getServerWebsocket'')] @
     group ''/api/blueprints/:blueprint'' [Scope ''node'', Exists ''blueprint''] [(''GET'', [], ''getBlueprint'')] @
     group ''/api/servers/:server'' [Scope ''app:admin'', Exists ''server'']
       [(''GET'', [], ''getServer''), (''DELETE'', [], ''deleteServer''), (''GET'', ''/logs'', ''getServerLogs''),
        (''POST'', ''/power'', ''postServerPower''), (''GET'', ''/status'', ''getServerStatus''),
        (''GET'', ''/stats'', ''getServerStats''), (''POST'', ''/commands'', ''postServerCommands''),
        (''POST'', ''/reset'', ''postServerReset''), (''GET'', ''/install/logs'', ''getServerInstallLogs''),
        (''GET'', ''/install'', ''getServerInstallInfo''), (''POST'', ''/reinstall'', ''postServerReinstall'')] @
     group ''/api/nodes/:node'' [Scope ''node''] [(''POST'', ''/register'', ''postNodeRegister'')] @
     group ''/api/nodes/:node'' [Scope ''app:admin'', Exists ''node'']
       [(''GET'', [], ''getNode''), (''GET'', ''/system'', ''getNodeSystemInfo''), (''PATCH'', ''/drained'', ''toggleNodeDrained'')] @
     group ''/api/nodes/:node/internal'' [Scope ''node'', Exists ''node'']
       [(''POST'', ''/heartbeat'', ''postNodeHeartbeat''), (''POST'', ''/disconnect'', ''postNodeDisconnect''),
        (''GET'', ''/servers'', ''getAllServerConfigurations'')] @
     group ''/api/nodes/:node/internal/servers/:server'' [Scope ''node'', Exists ''node'', Exists ''server'']
       [(''GET'', [], ''getServerConfiguration''), (''GET'', ''/install'', ''getInstallInfo'')] @
     group ''/api/nodes/:node/internal/event/servers/:server'' [Scope ''node'', Exists ''node'', Exists ''server'']
       [(''POST'', ''/status'', ''postNodeServerStatus''), (''POST'', ''/install-status'', ''postNodeServerInstallStatus''),
        (''POST'', ''/crash'', ''postEventServerCrash''), (''POST'', ''/deleted'', ''postEventServerDeleted'')]"

text \<open>The daemon adds its authorization to the engine itself, so the group of a server has it twice.\<close>

definition daemon_routes :: "route list" where
  "daemon_routes =
     group [] [] [(''GET'', ''/'', ''postBanner'')] @
     group [] [Token]
       [(''GET'', ''/api/system'', ''getSystemInformation''), (''POST'', ''/api/sync'', ''postSync''),
        (''GET'', ''/api/servers'', ''getAllServers''), (''POST'', ''/api/servers'', ''postCreateServer'')] @
     group ''/api/servers/:server'' [Token, Token, Exists ''server'']
       [(''DELETE'', [], ''deleteServer''), (''GET'', ''/logs'', ''getServerLogs''), (''POST'', ''/power'', ''postServerPower''),
        (''GET'', ''/status'', ''getServerStatus''), (''GET'', ''/stats'', ''getServerStats''),
        (''POST'', ''/commands'', ''postServerCommands''), (''POST'', ''/reset'', ''postServerReset''),
        (''GET'', ''/install/logs'', ''getServerInstallLogs''), (''GET'', ''/install'', ''getServerInstallInfo''),
        (''POST'', ''/reinstall'', ''postServerReinstall'')]"

text \<open>What a request meets on its way: the answers of the packages, the keys, the token and the resources that are there.\<close>

record 'k web =
  wb_uuid :: string
  wb_origins :: "string list"
  wb_private :: bool
  wb_allow :: bool
  wb_remaining :: int
  wb_reset :: string
  wb_retry :: int
  wb_late :: bool
  wb_validate :: "string \<Rightarrow> string + 'k"
  wb_has_scope :: "'k \<Rightarrow> string \<Rightarrow> bool"
  wb_verify :: "string \<Rightarrow> bool"
  wb_found :: "string \<Rightarrow> string \<Rightarrow> bool"

fun guard_middleware :: "'k web \<Rightarrow> guard \<Rightarrow> 's middleware" where
  "guard_middleware w (Scope s) = require_authorization (wb_validate w) (wb_has_scope w) s"
| "guard_middleware w Token = require_token (wb_verify w)"
| "guard_middleware w (Exists kind) = resource_exists kind (wb_found w kind)"

definition protocube_chain :: "'k web \<Rightarrow> (string \<Rightarrow> 's handler) \<Rightarrow> route \<Rightarrow> 's middleware list" where
  "protocube_chain w h r =
     [attach_request_id (wb_uuid w), capture_errors, set_access_control_headers (wb_origins w) (wb_private w),
      rate_limiter (wb_allow w) (wb_remaining w) (wb_reset w) (wb_retry w), timeout (wb_late w)] @
     map (guard_middleware w) (rt_guards r) @ [\<lambda>next. h (rt_handler r)]"

text \<open>The daemon sends the address of Protocube as the origin, unless the origin of the request is another allowed one.\<close>

definition daemon_access_control_headers :: "string \<Rightarrow> string list \<Rightarrow> bool \<Rightarrow> 's middleware" where
  "daemon_access_control_headers location origins private next c =
     set_access_control_headers (if cx_header c ''Origin'' = location then [] else origins) private next
       (set_header ''Access-Control-Allow-Origin'' location c)"

definition daemon_chain :: "string \<Rightarrow> 'k web \<Rightarrow> (string \<Rightarrow> 's handler) \<Rightarrow> route \<Rightarrow> 's middleware list" where
  "daemon_chain location w h r =
     [attach_request_id (wb_uuid w), capture_errors,
      daemon_access_control_headers location (wb_origins w) (wb_private w)] @
     map (guard_middleware w) (rt_guards r) @ [\<lambda>next. h (rt_handler r)]"

section \<open>Who gets through\<close>

text \<open>What each guard asks of the request.\<close>

fun passes :: "'k web \<Rightarrow> 's ctx \<Rightarrow> guard \<Rightarrow> bool" where
  "passes w c (Scope s) = (case bearer c of
     None \<Rightarrow> False
   | Some t \<Rightarrow> (case wb_validate w t of Inl _ \<Rightarrow> False | Inr key \<Rightarrow> s = [] \<or> wb_has_scope w key s))"
| "passes w c Token = (case bearer c of None \<Rightarrow> False | Some t \<Rightarrow> wb_verify w t)"
| "passes w c (Exists kind) = (cx_param c kind \<noteq> [] \<and> wb_found w kind (cx_param c kind))"

text \<open>The request is the same one, whatever was answered to it and noted of it so far.\<close>

definition same_request :: "'s ctx \<Rightarrow> 's ctx \<Rightarrow> bool" where
  "same_request c d \<longleftrightarrow> cx_method d = cx_method c \<and> cx_path d = cx_path c \<and> cx_header d = cx_header c \<and> cx_param d = cx_param c"

text \<open>
  A middleware on the way: where \<open>p\<close> holds of the request it leaves the state to the rest of the chain,
  which it gives the same request in the same state; otherwise it leaves the state alone.
\<close>

definition guards :: "('s ctx \<Rightarrow> bool) \<Rightarrow> 's middleware \<Rightarrow> bool" where
  "guards p m \<longleftrightarrow> (\<forall>next c. (p c \<longrightarrow> (\<exists>d. same_request c d \<and> cx_state d = cx_state c \<and> cx_state (m next c) = cx_state (next d))) \<and>
     (\<not> p c \<longrightarrow> cx_state (m next c) = cx_state c))"

lemma same_request_refl [simp]: "same_request c c"
  by (simp add: same_request_def)

lemma same_request_trans: "same_request c d \<Longrightarrow> same_request d e \<Longrightarrow> same_request c e"
  by (simp add: same_request_def)

lemma same_request_updates [simp]:
  "same_request c (set_header k v d) = same_request c d" "same_request c (set_key k v d) = same_request c d"
  "cx_state (set_header k v d) = cx_state d" "cx_state (set_key k v d) = cx_state d"
  "cx_state (abort_json s a b d) = cx_state d" "cx_state (abort_error e s d) = cx_state d"
  "cx_method (set_header k v d) = cx_method d" "cx_header (set_header k v d) = cx_header d"
  by (simp_all add: same_request_def set_header_def set_key_def abort_json_def abort_error_def)

lemma guardsI:
  assumes "\<And>next c. p c \<Longrightarrow> m next c = next (f c)" "\<And>c. same_request c (f c)" "\<And>c. cx_state (f c) = cx_state c"
    "\<And>next c. \<not> p c \<Longrightarrow> cx_state (m next c) = cx_state c"
  shows "guards p m"
  using assms unfolding guards_def by metis

lemma guards_after:
  assumes "\<And>next c. cx_state (m next c) = cx_state (next c)"
  shows "guards (\<lambda>_. True) m"
  using assms unfolding guards_def by (metis same_request_refl)

lemma access_control_same [simp]:
  "same_request c (access_control_headers origins private d) = same_request c d"
  "cx_state (access_control_headers origins private c) = cx_state c"
  "cx_method (access_control_headers origins private c) = cx_method c"
  by (auto simp: access_control_headers_def Let_def split: option.split)

lemma guards_global:
  "guards (\<lambda>_. True) (attach_request_id uuid)" "guards (\<lambda>_. True) capture_errors"
  "guards (\<lambda>c. cx_method c \<noteq> ''OPTIONS'') (set_access_control_headers origins private)"
  "guards (\<lambda>c. cx_method c \<noteq> ''OPTIONS'') (daemon_access_control_headers location origins private)"
  "guards (\<lambda>_. allow) (rate_limiter allow remaining reset retry)" "guards (\<lambda>_. True) (timeout late)"
proof -
  show "guards (\<lambda>_. True) (attach_request_id uuid)"
    by (rule guardsI [where f = "\<lambda>c. set_header ''X-Request-Id'' uuid (set_key ''logger'' [] (set_key ''request_id'' uuid c))"])
      (auto simp: attach_request_id_def)
  show "guards (\<lambda>_. True) capture_errors" by (rule guards_after) (auto simp: capture_errors_def Let_def)
  show "guards (\<lambda>c. cx_method c \<noteq> ''OPTIONS'') (set_access_control_headers origins private)"
    by (rule guardsI [where f = "access_control_headers origins private"]) (auto simp: set_access_control_headers_def Let_def)
  let ?f = "\<lambda>c. access_control_headers (if cx_header c ''Origin'' = location then [] else origins) private
    (set_header ''Access-Control-Allow-Origin'' location c)"
  show "guards (\<lambda>c. cx_method c \<noteq> ''OPTIONS'') (daemon_access_control_headers location origins private)"
    by (rule guardsI [where f = ?f]) (auto simp: daemon_access_control_headers_def set_access_control_headers_def Let_def)
  let ?h = "\<lambda>c. set_header ''X-RateLimit-Reset'' reset (set_header ''X-RateLimit-Remaining'' (itoa remaining)
    (set_header ''X-RateLimit-Limit'' (itoa (20 * 50)) c))"
  show "guards (\<lambda>_. allow) (rate_limiter allow remaining reset retry)"
    by (rule guardsI [where f = ?h]) (auto simp: rate_limiter_def Let_def)
  show "guards (\<lambda>_. True) (timeout late)" by (rule guards_after) (auto simp: timeout_def Let_def)
qed

lemma guards_guard: "guards (\<lambda>c. passes w c g) (guard_middleware w g)"
proof (cases g)
  case (Scope s)
  show ?thesis
    by (rule guardsI [where f = "\<lambda>c. set_key ''apiKey'' (case bearer c of None \<Rightarrow> [] | Some t \<Rightarrow> t) c"])
      (auto simp: Scope require_authorization_def refuse_bearer_def split: option.splits sum.splits if_splits)
next
  case Token
  show ?thesis
    by (rule guardsI [where f = "\<lambda>c. c"]) (auto simp: Token require_token_def refuse_bearer_def split: option.splits if_splits)
next
  case (Exists kind)
  show ?thesis
    by (rule guardsI [where f = "\<lambda>c. set_key kind (cx_param c kind) c"])
      (auto simp: Exists resource_exists_def Let_def split: if_splits)
qed

lemma passes_same: "same_request c d \<Longrightarrow> passes w d g = passes w c g"
  by (cases g) (auto simp: same_request_def bearer_def Let_def)

text \<open>A chain of middleware lets the request through exactly if each of them does.\<close>

lemma guards_chain:
  assumes "runs_in_order run" "\<forall>(p, m) \<in> set pms. guards p m \<and> (\<forall>c d. same_request c d \<longrightarrow> p d = p c)"
  shows "if (\<forall>(p, m) \<in> set pms. p c)
    then \<exists>d. same_request c d \<and> cx_state d = cx_state c \<and> cx_state (run (map snd pms @ [\<lambda>next. h]) c) = cx_state (h d)
    else cx_state (run (map snd pms @ [\<lambda>next. h]) c) = cx_state c"
  using assms(2)
proof (induction pms arbitrary: c)
  case Nil
  then show ?case using assms(1) by (auto simp: runs_in_order_def intro: exI [of _ c])
next
  case (Cons x pms)
  obtain p m where x: "x = (p, m)" by fastforce
  let ?rest = "run (map snd pms @ [\<lambda>next. h])"
  have run: "run (m # map snd pms @ [\<lambda>next. h]) c = m ?rest c" using assms(1) by (simp add: runs_in_order_def)
  have g: "guards p m" using Cons(2) x by simp
  show ?case
  proof (cases "p c")
    case True
    then obtain d where d: "same_request c d" "cx_state d = cx_state c" "cx_state (m ?rest c) = cx_state (?rest d)"
      using g by (force simp: guards_def)
    have "(\<forall>(p, m) \<in> set pms. p d) = (\<forall>(p, m) \<in> set pms. p c)" using Cons(2) d(1) by fastforce
    moreover have "\<forall>(p, m) \<in> set pms. guards p m \<and> (\<forall>c d. same_request c d \<longrightarrow> p d = p c)" using Cons(2) by simp
    ultimately show ?thesis using Cons.IH [of d] d True same_request_trans [OF d(1)]
      by (auto simp: x run split: if_splits)
  next
    case False
    then show ?thesis using g by (auto simp: guards_def x run)
  qed
qed


definition admitted :: "'k web \<Rightarrow> route \<Rightarrow> 's ctx \<Rightarrow> bool" where
  "admitted w r c \<longleftrightarrow> cx_method c \<noteq> ''OPTIONS'' \<and> (\<forall>g \<in> set (rt_guards r). passes w c g)"

lemma chain_admits:
  assumes "runs_in_order run" "\<forall>(p, m) \<in> set pms. guards p m \<and> (\<forall>c d. same_request c d \<longrightarrow> p d = p c)"
    "ms = map snd pms" "(\<forall>(p, m) \<in> set pms. p c) \<longleftrightarrow> a"
  shows "if a \<and> (\<forall>g \<in> set gs. passes w c g)
    then \<exists>d. same_request c d \<and> cx_state d = cx_state c \<and> cx_state (run (ms @ map (guard_middleware w) gs @ [\<lambda>next. h]) c) = cx_state (h d)
    else cx_state (run (ms @ map (guard_middleware w) gs @ [\<lambda>next. h]) c) = cx_state c"
proof -
  let ?gs = "map (\<lambda>g. (\<lambda>c. passes w c g, guard_middleware w g)) gs"
  have "\<forall>(p, m) \<in> set (pms @ ?gs). guards p m \<and> (\<forall>c d. same_request c d \<longrightarrow> p d = p c)"
    using assms(2) guards_guard passes_same [where w = w, THEN iffD1] passes_same [where w = w, THEN iffD2]
    by (fastforce simp del: guard_middleware.simps passes.simps)
  from guards_chain [OF assms(1) this, of c h] show ?thesis
    using assms(4) by (auto simp: assms(3) comp_def split: if_splits)
qed

lemma protocube_admits:
  assumes "runs_in_order run"
  shows "if wb_allow w \<and> admitted w r c
    then \<exists>d. same_request c d \<and> cx_state d = cx_state c \<and> cx_state (run (protocube_chain w h r) c) = cx_state (h (rt_handler r) d)
    else cx_state (run (protocube_chain w h r) c) = cx_state c"
proof -
  let ?ms = "[attach_request_id (wb_uuid w), capture_errors, set_access_control_headers (wb_origins w) (wb_private w),
    rate_limiter (wb_allow w) (wb_remaining w) (wb_reset w) (wb_retry w), timeout (wb_late w)]"
  let ?ps = "[\<lambda>_. True, \<lambda>_. True, \<lambda>c. cx_method c \<noteq> ''OPTIONS'', \<lambda>_. wb_allow w, \<lambda>_. True] :: ('s ctx \<Rightarrow> bool) list"
  have ok: "\<forall>(p, m) \<in> set (zip ?ps ?ms). guards p m \<and> (\<forall>c d. same_request c d \<longrightarrow> p d = p c)"
    using guards_global by (auto simp: same_request_def)
  have ms: "?ms = map snd (zip ?ps ?ms)" by simp
  have p: "(\<forall>(p, m) \<in> set (zip ?ps ?ms). p c) \<longleftrightarrow> wb_allow w \<and> cx_method c \<noteq> ''OPTIONS''" by auto
  from chain_admits [OF assms ok ms p] show ?thesis
    unfolding protocube_chain_def admitted_def by (simp only: conj_assoc)
qed

lemma daemon_admits:
  assumes "runs_in_order run"
  shows "if admitted w r c
    then \<exists>d. same_request c d \<and> cx_state d = cx_state c \<and> cx_state (run (daemon_chain location w h r) c) = cx_state (h (rt_handler r) d)
    else cx_state (run (daemon_chain location w h r) c) = cx_state c"
proof -
  let ?ms = "[attach_request_id (wb_uuid w), capture_errors, daemon_access_control_headers location (wb_origins w) (wb_private w)]"
  let ?ps = "[\<lambda>_. True, \<lambda>_. True, \<lambda>c. cx_method c \<noteq> ''OPTIONS''] :: ('s ctx \<Rightarrow> bool) list"
  have ok: "\<forall>(p, m) \<in> set (zip ?ps ?ms). guards p m \<and> (\<forall>c d. same_request c d \<longrightarrow> p d = p c)"
    using guards_global by (auto simp: same_request_def)
  have ms: "?ms = map snd (zip ?ps ?ms)" by simp
  have p: "(\<forall>(p, m) \<in> set (zip ?ps ?ms). p c) \<longleftrightarrow> cx_method c \<noteq> ''OPTIONS''" by auto
  from chain_admits [OF assms ok ms p] show ?thesis unfolding daemon_chain_def admitted_def .
qed

text \<open>What the scope of a route is: that of a node for what nodes ask, and an administrator's for the rest.\<close>

definition node_handlers :: "string set" where
  "node_handlers = {''getBlueprint'', ''postNodeRegister'', ''postNodeHeartbeat'', ''postNodeDisconnect'',
     ''getAllServerConfigurations'', ''getServerConfiguration'', ''getInstallInfo'', ''postNodeServerStatus'',
     ''postNodeServerInstallStatus'', ''postEventServerCrash'', ''postEventServerDeleted''}"

definition public_handlers :: "string set" where
  "public_handlers = {''postBanner'', ''getNodes''}"

lemma route_scopes:
  "list_all (\<lambda>r. rt_handler r \<in> public_handlers \<or>
     Scope (if rt_handler r \<in> node_handlers then ''node'' else ''app:admin'') \<in> set (rt_guards r)) protocube_routes"
  by code_simp

lemma daemon_tokens: "list_all (\<lambda>r. rt_handler r = ''postBanner'' \<or> Token \<in> set (rt_guards r)) daemon_routes"
  by code_simp

text \<open>
  C3. A request changes the state of Protocube only if its route is one of the two public ones, or its header
  carries a key that the key service validates and that has the scope of the route: that of a node for
  what nodes ask, that of an administrator for everything else.
\<close>

theorem keys_required:
  assumes "runs_in_order run" "r \<in> set protocube_routes" "cx_state (run (protocube_chain w h r) c) \<noteq> cx_state c"
  shows "rt_handler r \<in> public_handlers \<or> (\<exists>t key. bearer c = Some t \<and> wb_validate w t = Inr key \<and>
     wb_has_scope w key (if rt_handler r \<in> node_handlers then ''node'' else ''app:admin''))"
proof (cases "rt_handler r \<in> public_handlers")
  case False
  let ?s = "if rt_handler r \<in> node_handlers then ''node'' else ''app:admin''"
  have "admitted w r c" using protocube_admits [OF assms(1), of w r c h] assms(3) by presburger
  moreover have "Scope ?s \<in> set (rt_guards r)" using route_scopes assms(2) False unfolding list_all_iff by blast
  ultimately have "passes w c (Scope ?s)" unfolding admitted_def by blast
  then show ?thesis by (auto split: option.splits sum.splits if_splits)
qed simp

section \<open>The token of a daemon\<close>

record token =
  tk_value :: string
  tk_set :: bool
  tk_locked :: bool

definition no_token :: token where
  "no_token = \<lparr>tk_value = [], tk_set = False, tk_locked = False\<rparr>"

text \<open>
  \<^verbatim>\<open>SetToken\<close> returns on an empty token before it gives back the lock, which \<^verbatim>\<open>Verify\<close> then waits for
  for ever, as the next \<^verbatim>\<open>SetToken\<close> does: \<open>None\<close> is not returning.
\<close>

definition set_token :: "string \<Rightarrow> token \<Rightarrow> (bool \<times> token) option" where
  "set_token t k = (if tk_locked k then None
     else if t = [] then Some (False, k\<lparr>tk_locked := True\<rparr>)
     else Some (True, k\<lparr>tk_value := t, tk_set := True\<rparr>))"

definition verify_token :: "string \<Rightarrow> token \<Rightarrow> bool option" where
  "verify_token key k = (if tk_locked k then None else if \<not> tk_set k then Some False else Some (key = tk_value k))"

text \<open>
  \<^verbatim>\<open>Register\<close>: the answer of Protocube is a status and, where its body is JSON with a text as its token, that
  token. The first success since the last failure calls back.
\<close>

datatype register_error = RegisterFailed | RegisterStatus int | RegisterToken | RegisterEmpty

record registration =
  rg_token :: token
  rg_connected :: bool
  rg_callbacks :: nat

definition register_daemon :: "(int \<times> string option) option \<Rightarrow> registration \<Rightarrow> (register_error option \<times> registration) option" where
  "register_daemon answer g = (case answer of
     None \<Rightarrow> Some (Some RegisterFailed, g)
   | Some (status, body) \<Rightarrow>
       (if status < 200 \<or> status \<ge> 300 then Some (Some (RegisterStatus status), g)
        else case body of
          None \<Rightarrow> Some (Some RegisterToken, g)
        | Some t \<Rightarrow> (case set_token t (rg_token g) of
            None \<Rightarrow> None
          | Some (False, k) \<Rightarrow> Some (Some RegisterEmpty, g\<lparr>rg_token := k\<rparr>)
          | Some (True, k) \<Rightarrow> Some (None, (if rg_connected g then g
              else g\<lparr>rg_connected := True, rg_callbacks := Suc (rg_callbacks g)\<rparr>)\<lparr>rg_token := k\<rparr>))))"

definition heartbeat :: "bool \<Rightarrow> registration \<Rightarrow> registration" where
  "heartbeat answered g = (if answered then g else g\<lparr>rg_connected := False\<rparr>)"

fun register_all :: "(int \<times> string option) option list \<Rightarrow> registration \<Rightarrow> registration option" where
  "register_all [] g = Some g"
| "register_all (a # as) g = (case register_daemon a g of None \<Rightarrow> None | Some (_, g) \<Rightarrow> register_all as g)"

text \<open>The tokens that registrations give out, in order.\<close>

fun issued :: "(int \<times> string option) option list \<Rightarrow> string list" where
  "issued [] = []"
| "issued (Some (s, Some t) # as) = (if 200 \<le> s \<and> s < 300 then t # issued as else issued as)"
| "issued (_ # as) = issued as"

lemma register_all_token:
  assumes "\<forall>t \<in> set (issued as). t \<noteq> []" "\<not> tk_locked (rg_token g)"
  shows "\<exists>g'. register_all as g = Some g' \<and> rg_token g' =
    (if issued as = [] then rg_token g else \<lparr>tk_value = last (issued as), tk_set = True, tk_locked = False\<rparr>)"
  using assms
proof (induction as arbitrary: g rule: issued.induct)
  case (2 s t as)
  show ?case
  proof (cases "200 \<le> s \<and> s < 300")
    case True
    let ?g = "(if rg_connected g then g else g\<lparr>rg_connected := True, rg_callbacks := Suc (rg_callbacks g)\<rparr>)
      \<lparr>rg_token := (rg_token g)\<lparr>tk_value := t, tk_set := True\<rparr>\<rparr>"
    have "register_daemon (Some (s, Some t)) g = Some (None, ?g)"
      using True 2(3,4) by (simp add: register_daemon_def set_token_def)
    moreover have "\<exists>g'. register_all as ?g = Some g' \<and> rg_token g' =
        (if issued as = [] then rg_token ?g else \<lparr>tk_value = last (issued as), tk_set = True, tk_locked = False\<rparr>)"
      using 2(1) [of ?g] True 2(3,4) by simp
    ultimately show ?thesis using True 2(4) by (cases "rg_token g") auto
  next
    case False
    then show ?thesis using 2 by (auto simp: register_daemon_def)
  qed
qed (auto simp: register_daemon_def)

text \<open>
  C4. A request changes the state of a daemon only if its route is the banner or it carries the token that
  Protocube gave out in the last registration that succeeded, and before there was one none does; this
  for any registrations, failed ones among them, that give out no empty token.
\<close>

theorem daemon_token_required:
  assumes "runs_in_order run" "r \<in> set daemon_routes" "\<forall>t \<in> set (issued as). t \<noteq> []"
    "register_all as \<lparr>rg_token = no_token, rg_connected = False, rg_callbacks = 0\<rparr> = Some g"
    "wb_verify w = (\<lambda>key. verify_token key (rg_token g) = Some True)"
    "cx_state (run (daemon_chain location w h r) c) \<noteq> cx_state c"
  shows "rt_handler r = ''postBanner'' \<or> (issued as \<noteq> [] \<and> bearer c = Some (last (issued as)))"
proof (cases "rt_handler r = ''postBanner''")
  case False
  have "admitted w r c" using daemon_admits [OF assms(1), of w r c location h] assms(6) by presburger
  moreover have "Token \<in> set (rt_guards r)" using daemon_tokens assms(2) False unfolding list_all_iff by blast
  ultimately have "passes w c Token" unfolding admitted_def by blast
  moreover have "rg_token g = (if issued as = [] then no_token else \<lparr>tk_value = last (issued as), tk_set = True, tk_locked = False\<rparr>)"
    using register_all_token [OF assms(3), of "\<lparr>rg_token = no_token, rg_connected = False, rg_callbacks = 0\<rparr>"] assms(4)
    by (auto simp: no_token_def)
  ultimately show ?thesis using assms(5)
    by (auto simp: verify_token_def no_token_def split: option.splits if_splits)
qed simp

text \<open>An empty token in an answer blocks every later request and registration.\<close>

lemma empty_token_blocks:
  assumes "\<not> tk_locked (rg_token g)" "register_daemon (Some (200, Some [])) g = Some (e, g')"
  shows "verify_token key (rg_token g') = None \<and> register_daemon (Some (200, Some t)) g' = None"
  using assms by (auto simp: register_daemon_def set_token_def verify_token_def)

section \<open>Clients of Protocube that are limited\<close>

text \<open>The bucket of each client and when it was last seen; times and the limit of twenty minutes in seconds.\<close>

type_synonym 'l clients = "(string, 'l \<times> int) gomap"

definition client_ttl :: int where
  "client_ttl = 20 * 60"

definition get_limiter :: "'l \<Rightarrow> int \<Rightarrow> string \<Rightarrow> 'l clients \<Rightarrow> 'l \<times> 'l clients" where
  "get_limiter fresh now i m = (case gm_get m i of
     Some (l, _) \<Rightarrow> (l, gm_set m i (l, now))
   | None \<Rightarrow> (fresh, gm_set m i (fresh, now)))"

definition clean_up_clients :: "int \<Rightarrow> 'l clients \<Rightarrow> 'l clients" where
  "clean_up_clients now m = filter (\<lambda>(i, l, t). \<not> t < now - client_ttl) m"

datatype limiter_event = Seen string int | CleanUp int

fun limiter_step :: "'l \<Rightarrow> limiter_event \<Rightarrow> 'l clients \<Rightarrow> 'l clients" where
  "limiter_step fresh (Seen i now) m = snd (get_limiter fresh now i m)"
| "limiter_step fresh (CleanUp now) m = clean_up_clients now m"

lemma clean_up_get:
  "gm_wf m \<Longrightarrow> gm_get (clean_up_clients now m) i =
     (case gm_get m i of None \<Rightarrow> None | Some (l, t) \<Rightarrow> if t < now - client_ttl then None else Some (l, t))"
proof (induction m)
  case (Cons x m)
  obtain j l t where x: "x = (j, l, t)" by (cases x) auto
  have "gm_wf m" "map_of m j = None" using Cons(2) by (auto simp: gm_wf_def x map_of_eq_None_iff)
  then show ?case using Cons(1) by (auto simp: clean_up_clients_def gm_get_def x split: option.splits)
qed (simp add: clean_up_clients_def)

lemma limiter_step_wf: "gm_wf m \<Longrightarrow> gm_wf (limiter_step fresh s m)"
  by (cases s) (auto simp: get_limiter_def clean_up_clients_def gm_wf_def distinct_map_filter gm_set_def distinct_update
      split: option.split)

text \<open>
  A client keeps its bucket, so that waiting does not refill it beyond its rate, as long as it is seen again
  within twenty minutes before each cleaning.
\<close>

lemma limiter_kept:
  assumes "gm_wf m" "gm_get m i = Some (l, t)" "\<forall>now. CleanUp now \<in> set steps \<longrightarrow> now \<le> t + client_ttl"
    "\<forall>now. Seen i now \<in> set steps \<longrightarrow> t \<le> now"
  shows "\<exists>t' \<ge> t. gm_get (fold (limiter_step fresh) steps m) i = Some (l, t')"
proof -
  have "\<exists>u' \<ge> t. gm_get (fold (limiter_step fresh) steps m) i = Some (l, u')" if "gm_wf m" "gm_get m i = Some (l, u)" "t \<le> u" for u m
    using that assms(3,4)
  proof (induction steps arbitrary: m u)
    case (Cons s steps)
    have "\<exists>v \<ge> t. gm_get (limiter_step fresh s m) i = Some (l, v)"
      using Cons(2-6) by (cases s) (auto simp: get_limiter_def clean_up_get split: option.split)
    then obtain v where "v \<ge> t" "gm_get (limiter_step fresh s m) i = Some (l, v)" by blast
    then show ?case using Cons(1) [OF limiter_step_wf [OF Cons(2)]] Cons(5,6) by auto
  qed auto
  from this [OF assms(1,2) order.refl] show ?thesis .
qed


section \<open>The pages of a log\<close>

text \<open>
  \<^verbatim>\<open>paginateLogLines\<close>: the first page has the newest lines. The positions are computed in 64 bits, and one
  beyond the lines panics.
\<close>

definition paginate_log_lines :: "string list \<Rightarrow> int \<Rightarrow> int \<Rightarrow> (string list \<times> int) go" where
  "paginate_log_lines lines page perPage =
     (let n = int (length lines);
          pages = (if n > 0 then go_quot (wrap64 (wrap64 (n + perPage) - 1)) perPage else 0);
          stop = wrap64 (n - wrap64 (wrap64 (page - 1) * perPage))
      in if stop \<le> 0 then Ret ([], pages)
         else let start = wrap64 (stop - perPage); start = (if start < 0 then 0 else start)
           in if stop > n then Panic else Ret (drop (nat start) (take (nat stop) lines), pages))"

definition page_lines :: "string list \<Rightarrow> nat \<Rightarrow> nat \<Rightarrow> string list" where
  "page_lines lines per k = drop (length lines - k * per) (take (length lines - (k - 1) * per) lines)"

lemma paginate_page:
  assumes "int (length lines) \<le> 2 ^ 62" "1 \<le> k" "1 \<le> per" "per \<le> 100" "k \<le> 2 ^ 55"
  shows "paginate_log_lines lines (int k) (int per) = Ret (page_lines lines per k, int ((length lines + per - 1) div per))"
proof -
  let ?n = "length lines"
  have "(k - 1) * per \<le> 2 ^ 55 * 100" using assms(4,5) by (intro mult_le_mono) auto
  then have "int ((k - 1) * per) \<le> int (2 ^ 55 * 100)" by (simp only: of_nat_le_iff)
  then have kp: "int ((k - 1) * per) \<le> 2 ^ 55 * 100" by simp
  have km: "int k - 1 = int (k - 1)" using assms(2) by simp
  have in1: "in_int64 (int (k - 1))" using assms(5) by (simp add: in_int64_def int64_min_def int64_max_def)
  have in2: "in_int64 (int (k - 1) * int per)" using kp by (simp add: in_int64_def int64_min_def int64_max_def flip: of_nat_mult)
  have "in_int64 (int ?n - int x) \<and> in_int64 (int ?n - int x - int per)" if "int x \<le> 2 ^ 55 * 100" for x
    using that assms(1,4) by (simp add: in_int64_def int64_min_def int64_max_def)
  from this [OF kp] have in3: "in_int64 (int ?n - int ((k - 1) * per))"
    and in4: "in_int64 (int ?n - int ((k - 1) * per) - int per)" by auto
  have stop: "wrap64 (int ?n - wrap64 (wrap64 (int k - 1) * int per)) = int ?n - int ((k - 1) * per)"
    unfolding km wrap64_id [OF in1] wrap64_id [OF in2] using wrap64_id [OF in3] by simp
  have in5: "in_int64 (int ?n + int per)" "in_int64 (int ?n + int per - 1)"
    using assms(1,3,4) by (simp_all add: in_int64_def int64_min_def int64_max_def)
  have pages: "go_quot (wrap64 (wrap64 (int ?n + int per) - 1)) (int per) = int ((?n + per - 1) div per)"
    using in5 assms(3) by (simp add: go_quot_nonneg of_nat_diff zdiv_int)
  have step: "k * per = (k - 1) * per + per" using assms(2) by (cases k) auto
  have z: "(?n + per - 1) div per = 0" if "?n = 0" using that assms(3) by simp
  define x where "x = (k - 1) * per"
  note stop = stop [folded x_def] and in4 = in4 [folded x_def]
  have page: "page_lines lines per k = drop (?n - (x + per)) (take (?n - x) lines)"
    using step by (simp add: page_lines_def x_def)
  show ?thesis
  proof (cases "?n \<le> x")
    case True
    then have "int ?n - int x \<le> 0" "page_lines lines per k = []" by (auto simp: page)
    then show ?thesis unfolding paginate_log_lines_def Let_def stop pages using z by simp
  next
    case False
    have s: "\<not> int ?n - int x \<le> 0" "\<not> int ?n - int x > int ?n" using False by auto
    have "nat (int ?n - int x) = ?n - x"
      "nat (if int ?n - int x - int per < 0 then 0 else int ?n - int x - int per) = ?n - (x + per)"
      using False by auto
    then show ?thesis unfolding paginate_log_lines_def Let_def stop pages wrap64_id [OF in4] using s z by (simp add: page)
  qed
qed

text \<open>
  Every page of a log can be asked for and has at most the lines of a page, and the pages together, from
  the last to the first, are the log: no line is missing or twice.
\<close>

theorem log_pages_exact:
  assumes "int (length lines) \<le> 2 ^ 55" "1 \<le> per" "per \<le> 100"
  shows "\<exists>pages :: nat. \<exists>page. (\<forall>k \<in> {1..pages}. paginate_log_lines lines (int k) (int per) = Ret (page k, int pages) \<and>
      length (page k) \<le> per) \<and> concat (map page (rev [1..<Suc pages])) = lines"
proof -
  let ?pages = "(length lines + per - 1) div per"
  have small: "?pages \<le> length lines"
  proof (cases "length lines")
    case (Suc n)
    have "n + per \<le> Suc n * per" using assms(2) by (cases per) auto
    then have "(n + per) div per \<le> (Suc n * per) div per" by (rule div_le_mono)
    then show ?thesis using Suc assms(2) by simp
  qed (use assms(2) in simp)
  have "length lines \<le> ?pages * per"
  proof -
    have "length lines + per - 1 = ?pages * per + (length lines + per - 1) mod per" by simp
    moreover have "(length lines + per - 1) mod per < per" using assms(2) by simp
    ultimately show ?thesis by linarith
  qed
  then have all: "length lines - ?pages * per = 0" by simp
  have cover: "concat (map (page_lines lines per) (rev [1..<Suc k])) = drop (length lines - k * per) lines" for k
  proof (induction k)
    case (Suc k)
    have "page_lines lines per (Suc k) = drop (length lines - Suc k * per) (take (length lines - k * per) lines)"
      by (simp add: page_lines_def)
    then have "concat (map (page_lines lines per) (rev [1..<Suc (Suc k)])) =
        drop (length lines - Suc k * per) (take (length lines - k * per) lines) @ drop (length lines - k * per) lines"
      using Suc by simp
    also have "\<dots> = drop (length lines - Suc k * per) lines"
      using drop_append [of "length lines - Suc k * per" "take (length lines - k * per) lines" "drop (length lines - k * per) lines"]
      by (simp add: min_def)
    finally show ?case by simp
  qed simp
  have "\<forall>k \<in> {1..?pages}. paginate_log_lines lines (int k) (int per) = Ret (page_lines lines per k, int ?pages)"
  proof
    fix k assume k: "k \<in> {1..?pages}"
    have len: "length lines \<le> 2 ^ 55" using assms(1) by simp
    then have "k \<le> 2 ^ 55" using k small by simp
    then show "paginate_log_lines lines (int k) (int per) = Ret (page_lines lines per k, int ?pages)"
      using k len assms(2,3) by (intro paginate_page) auto
  qed
  moreover have "length (page_lines lines per k) \<le> per" for k
    by (cases k) (auto simp: page_lines_def min_def)
  ultimately show ?thesis using cover [of ?pages] all by (intro exI [of _ ?pages] exI [of _ "page_lines lines per"]) auto
qed


lemma log_pages_exact_witness:
  "\<exists>pages :: nat. \<exists>page. (\<forall>k \<in> {1..pages}. paginate_log_lines [''a'', ''b'', ''c''] (int k) (int 2) = Ret (page k, int pages) \<and>
      length (page k) \<le> 2) \<and> concat (map page (rev [1..<Suc pages])) = [''a'', ''b'', ''c'']"
  by (rule log_pages_exact) simp_all

text \<open>A page number whose offset leaves 64 bits gives a position beyond the log.\<close>

lemma huge_log_page_panics: "paginate_log_lines [''a''] 92233720368547760 100 = Panic"
  by code_simp

section \<open>The handlers of a daemon\<close>

text \<open>
  \<^verbatim>\<open>postServerPower\<close>: the answer, and what the action does in the background. \<open>freed\<close> is whether the lock is
  freed within a number of seconds.
\<close>

definition wait_seconds :: "int \<Rightarrow> int" where
  "wait_seconds n = (if n < 0 \<or> n > 300 then 30 else n)"

definition post_server_power :: "(string \<times> int) option \<Rightarrow> (int \<Rightarrow> bool) \<Rightarrow> bool \<Rightarrow> docker \<Rightarrow> power \<Rightarrow> int \<times> power" where
  "post_server_power body freed before d p = (case body of
     None \<Rightarrow> (400, p)
   | Some (action, n) \<Rightarrow>
       (if \<not> power_action_valid action then (422, p)
        else if (action = ''start'' \<or> action = ''restart'') \<and> pw_suspended p then (400, p)
        else (202, snd (handle_power_action action
          (if wait_seconds n > 0 then Some (freed (wait_seconds n)) else None) before d p))))"

text \<open>\<^verbatim>\<open>postServerCommands\<close>: the commands are sent one after the other, whatever becomes of each.\<close>

definition send_commands :: "bool \<Rightarrow> string list \<Rightarrow> power \<Rightarrow> power" where
  "send_commands written cs p = fold (\<lambda>c p. if pw_attached p then snd (env_send_command written c p) else p) cs p"

definition post_server_commands :: "inspect \<Rightarrow> string list option \<Rightarrow> bool \<Rightarrow> power \<Rightarrow> int \<times> power" where
  "post_server_commands answer body written p = (case env_is_running answer p of
     (Inl e, p) \<Rightarrow> (500, p)
   | (Inr False, p) \<Rightarrow> (502, p)
   | (Inr True, p) \<Rightarrow> (case body of None \<Rightarrow> (400, p) | Some cs \<Rightarrow> (204, send_commands written cs p)))"

text \<open>\<^verbatim>\<open>postServerReinstall\<close> and \<^verbatim>\<open>deleteServer\<close>: whether the server's base is in use, and what removing it answers.\<close>

definition post_server_reinstall :: "bool option \<Rightarrow> int" where
  "post_server_reinstall in_use = (case in_use of None \<Rightarrow> 500 | Some True \<Rightarrow> 409 | Some False \<Rightarrow> 202)"

definition delete_server_daemon :: "docker_call \<Rightarrow> power \<Rightarrow> int \<times> power" where
  "delete_server_daemon remove p = (case power_delete remove p of
     (None, p) \<Rightarrow> (200, p)
   | (Some e, p) \<Rightarrow> (500, p))"

text \<open>The commands a server was sent, in order.\<close>

fun commanded :: "power_effect list \<Rightarrow> string list" where
  "commanded [] = []"
| "commanded (Commanded c # xs) = c # commanded xs"
| "commanded (_ # xs) = commanded xs"

lemma commanded_append [simp]: "commanded (xs @ ys) = commanded xs @ commanded ys"
  by (induction xs rule: commanded.induct) auto

lemma commands_in_order:
  "pw_attached p \<Longrightarrow> commanded (pw_effects (send_commands True cs p)) = commanded (pw_effects p) @ cs \<and>
     pw_attached (send_commands True cs p)"
proof (induction cs arbitrary: p)
  case (Cons c cs)
  let ?p = "snd (env_send_command True c p)"
  have "pw_attached ?p" "commanded (pw_effects ?p) = commanded (pw_effects p) @ [c]"
    using Cons(2) by (auto simp: env_send_command_def emit_def set_state_def Let_def)
  then show ?case using Cons(1) [of ?p] Cons(2) by (simp add: send_commands_def)
qed (simp add: send_commands_def)

text \<open>A suspended server is neither started nor restarted, and an action that is not one does nothing.\<close>

lemma refused_power:
  "fst (post_server_power body freed before d p) \<noteq> 202 \<Longrightarrow> snd (post_server_power body freed before d p) = p"
  "pw_suspended p \<Longrightarrow> body = Some (''start'', n) \<or> body = Some (''restart'', n) \<Longrightarrow> post_server_power body freed before d p = (400, p)"
  by (auto simp: post_server_power_def power_action_valid_def split: option.splits if_splits)

section \<open>Examples\<close>

definition run_chain :: "'s middleware list \<Rightarrow> 's handler" where
  "run_chain ms = foldr (\<lambda>m next. m next) ms (\<lambda>c. c)"

lemma run_chain_in_order: "runs_in_order run_chain"
  by (simp add: runs_in_order_def run_chain_def)

text \<open>The key of the administrator is \<^verbatim>\<open>root\<close>, that of a node \<^verbatim>\<open>n1\<close>; a handler counts that it ran.\<close>

definition example_web :: "(string \<Rightarrow> bool) \<Rightarrow> string web" where
  "example_web verify = \<lparr>wb_uuid = ''u'', wb_origins = [], wb_private = False, wb_allow = True, wb_remaining = 49, wb_reset = ''0'',
     wb_retry = 1, wb_late = False,
     wb_validate = (\<lambda>t. if t = ''root'' \<or> t = ''n1'' then Inr t else Inl ''invalid key''),
     wb_has_scope = (\<lambda>k s. s = (if k = ''root'' then ''app:admin'' else ''node'')),
     wb_verify = verify, wb_found = (\<lambda>k i. True)\<rparr>"

definition example_request :: "string \<Rightarrow> string \<Rightarrow> nat ctx" where
  "example_request token node = \<lparr>cx_method = ''POST'', cx_path = ''/'', cx_header = (\<lambda>h. if h = ''Authorization'' then ''Bearer '' @ token else []),
     cx_param = (\<lambda>p. if p = ''node'' then node else ''s1''), cx_keys = [], cx_out = [], cx_status = 200, cx_bodies = [],
     cx_errors = [], cx_state = 0\<rparr>"

definition count_run :: "string \<Rightarrow> nat handler" where
  "count_run name c = c\<lparr>cx_state := Suc (cx_state c)\<rparr>"

lemma create_route: "route ''POST'' ''/api/servers'' [Scope ''app:admin''] ''postCreateServer'' \<in> set protocube_routes"
  by (simp add: protocube_routes_def group_def)

lemma keys_required_witness:
  "\<exists>t key. bearer (example_request ''root'' []) = Some t \<and> wb_validate (example_web (\<lambda>_. False)) t = Inr key \<and>
     wb_has_scope (example_web (\<lambda>_. False)) key ''app:admin''"
proof -
  let ?r = "route ''POST'' ''/api/servers'' [Scope ''app:admin''] ''postCreateServer''"
  have "cx_state (run_chain (protocube_chain (example_web (\<lambda>_. False)) count_run ?r) (example_request ''root'' [])) \<noteq>
      cx_state (example_request ''root'' [])"
    by code_simp
  from keys_required [OF run_chain_in_order create_route this] show ?thesis
    by (simp add: public_handlers_def node_handlers_def)
qed

text \<open>The key of one node changes what belongs to another: no guard compares the key with the node of the path.\<close>

lemma node_key_any_node:
  "cx_state (run_chain (protocube_chain (example_web (\<lambda>_. False)) count_run
     (route ''POST'' ''/api/nodes/:node/internal/disconnect'' [Scope ''node'', Exists ''node''] ''postNodeDisconnect''))
     (example_request ''n1'' ''n2'')) = 1"
  by code_simp

lemma daemon_token_required_witness: "bearer (example_request ''t2'' []) = Some ''t2''"
proof -
  let ?as = "[Some (200, Some ''t1''), None, Some (500, None), Some (200, Some ''t2'')]"
  let ?g = "\<lparr>rg_token = \<lparr>tk_value = ''t2'', tk_set = True, tk_locked = False\<rparr>, rg_connected = True, rg_callbacks = 1\<rparr>"
  let ?w = "example_web (\<lambda>key. verify_token key (rg_token ?g) = Some True)"
  let ?r = "route ''POST'' ''/api/sync'' [Token] ''postSync''"
  have r: "?r \<in> set daemon_routes" by (simp add: daemon_routes_def group_def)
  have ts: "\<forall>t \<in> set (issued ?as). t \<noteq> []" by simp
  have g: "register_all ?as \<lparr>rg_token = no_token, rg_connected = False, rg_callbacks = 0\<rparr> = Some ?g"
    by (simp add: register_daemon_def set_token_def no_token_def)
  have v: "wb_verify ?w = (\<lambda>key. verify_token key (rg_token ?g) = Some True)" by (simp add: example_web_def)
  have "cx_state (run_chain (daemon_chain ''https://p'' ?w count_run ?r) (example_request ''t2'' [])) \<noteq>
      cx_state (example_request ''t2'' [])"
    by code_simp
  from daemon_token_required [OF run_chain_in_order r ts g v this] show ?thesis by simp
qed

end
