(* ===== verification/Config_Files.thy ===== *)
theory Config_Files
  imports Go_Values
begin

text \<open>
  The configuration files of a server that the daemon changes before it starts it:
  \<^verbatim>\<open>daemon/parser/parser.go\<close> and \<^verbatim>\<open>helpers.go\<close>. The libraries that read and write JSON, YAML, XML,
  properties and INI documents, that find values in JSON and that fill in the template of a replacement are arguments.
\<close>

section \<open>Replacements\<close>

text \<open>The value of a replacement, as the JSON text it came in.\<close>

datatype replace_value =
    RvString string
  | RvNumber string
  | RvBoolean string
  | RvNull
  | RvOther string

record replacement =
  rp_match :: string
  rp_if_value :: string
  rp_with :: replace_value

text \<open>\<open>unescape\<close> resolves the escapes of a JSON text; where it cannot, \<^verbatim>\<open>String\<close> and \<^verbatim>\<open>Bytes\<close> panic.\<close>

definition value_string :: "(string \<Rightarrow> string option) \<Rightarrow> replace_value \<Rightarrow> string go" where
  "value_string unescape v = (case v of
     RvString raw \<Rightarrow> (case unescape raw of None \<Rightarrow> Panic | Some s \<Rightarrow> Ret s)
   | RvNull \<Rightarrow> Ret ''<nil>''
   | RvBoolean raw \<Rightarrow> Ret raw
   | RvNumber raw \<Rightarrow> Ret raw
   | RvOther _ \<Rightarrow> Ret ''<invalid>'')"

text \<open>
  \<^verbatim>\<open>UnmarshalJSON\<close> of a replacement: \<open>field\<close> is what the document has under a name, a text for the first two
  and any value for the last, which an older name may carry; \<open>Inl True\<close> is that it is not there.
\<close>

definition unmarshal_replacement :: "(string \<Rightarrow> bool + string) \<Rightarrow> (string \<Rightarrow> bool + replace_value) \<Rightarrow> replacement option" where
  "unmarshal_replacement str val = (case str ''match'' of
     Inl _ \<Rightarrow> None
   | Inr m \<Rightarrow>
       (if str ''if_value'' = Inl False then None
        else let iv = (case str ''if_value'' of Inl _ \<Rightarrow> [] | Inr s \<Rightarrow> s)
          in case (case val ''replace_with'' of Inl True \<Rightarrow> val ''value'' | r \<Rightarrow> r) of
               Inl _ \<Rightarrow> None
             | Inr v \<Rightarrow> Some \<lparr>rp_match = m, rp_if_value = iv, rp_with = v\<rparr>))"

text \<open>A replacement that does not decode empties the list of its file.\<close>

definition unmarshal_replacements :: "replacement option list \<Rightarrow> replacement list" where
  "unmarshal_replacements rs = (if None \<in> set rs then [] else map the rs)"

section \<open>Placeholders\<close>

text \<open>
  The pattern \<^verbatim>\<open>{{\s?config\.([\w.-]+)\s?}}\<close>, and the one with \<^verbatim>\<open>server\<close>: what follows a match at the head of a
  text, with the key.
\<close>

definition is_blank :: "char \<Rightarrow> bool" where
  "is_blank c \<longleftrightarrow> c = CHR '' '' \<or> c = CHR 0x09 \<or> c = CHR 0x0A \<or> c = CHR 0x0C \<or> c = CHR 0x0D"

definition key_char :: "char \<Rightarrow> bool" where
  "key_char c \<longleftrightarrow> c \<in> set lower_letters \<or> c \<in> set upper_letters \<or> is_digit c \<or> c = CHR ''_'' \<or> c = CHR ''.'' \<or> c = CHR ''-''"

definition skip_blank :: "string \<Rightarrow> string" where
  "skip_blank s = (case s of [] \<Rightarrow> [] | c # r \<Rightarrow> if is_blank c then r else s)"

definition match_placeholder :: "string \<Rightarrow> string \<Rightarrow> (string \<times> string) option" where
  "match_placeholder kind s =
     (if \<not> has_prefix s ''{{'' then None
      else let r = skip_blank (drop 2 s) in
        if \<not> has_prefix r (kind @ ''.'') then None
        else let r = drop (length kind + 1) r; key = takeWhile key_char r; r = skip_blank (dropWhile key_char r)
          in if key = [] \<or> \<not> has_prefix r ''}}'' then None else Some (key, drop 2 r))"

lemma match_placeholder_shorter: "match_placeholder kind s = Some (k, r) \<Longrightarrow> length r < length s"
proof -
  have skip: "length (skip_blank x) \<le> length x" for x by (simp add: skip_blank_def split: list.split)
  assume "match_placeholder kind s = Some (k, r)"
  then have r: "r = drop 2 (skip_blank (dropWhile key_char (drop (length kind + 1) (skip_blank (drop 2 s)))))"
    and s: "has_prefix s ''{{''"
    by (auto simp: match_placeholder_def Let_def split: if_splits)
  have "length (skip_blank (dropWhile key_char (drop (length kind + 1) (skip_blank (drop 2 s))))) \<le> length (drop 2 s)"
  proof -
    let ?x = "drop (length kind + 1) (skip_blank (drop 2 s))"
    have "length (skip_blank (dropWhile key_char ?x)) \<le> length ?x"
      by (rule order.trans [OF skip length_dropWhile_le])
    also have "\<dots> \<le> length (skip_blank (drop 2 s))" by simp
    finally show ?thesis using skip [of "drop 2 s"] by simp
  qed
  then show ?thesis using r s by (auto simp: has_prefix_iff)
qed

fun find_placeholder :: "string \<Rightarrow> string \<Rightarrow> string option" where
  "find_placeholder kind [] = None"
| "find_placeholder kind (c # s) = (case match_placeholder kind (c # s) of
     Some (k, _) \<Rightarrow> Some k
   | None \<Rightarrow> find_placeholder kind s)"

text \<open>\<^verbatim>\<open>ReplaceAllString\<close>: every match is replaced by what \<open>expand\<close> makes of the template and the key of the match.\<close>

function replace_placeholders :: "(string \<Rightarrow> string \<Rightarrow> string) \<Rightarrow> string \<Rightarrow> string \<Rightarrow> string \<Rightarrow> string" where
  "replace_placeholders expand kind v [] = []"
| "replace_placeholders expand kind v (c # s) = (case match_placeholder kind (c # s) of
     Some (k, r) \<Rightarrow> expand v k @ replace_placeholders expand kind v r
   | None \<Rightarrow> c # replace_placeholders expand kind v s)"
  by pat_completeness auto
termination
  by (relation "measure (\<lambda>(e, k, v, s). length s)") (auto dest: match_placeholder_shorter)

declare replace_placeholders.simps [simp del]

text \<open>
  \<open>get\<close> finds the value at a path of a JSON document: \<open>Inl True\<close> is that the path is not there, and \<open>snake\<close>
  writes a name with underscores.
\<close>

type_synonym json_get = "string list \<Rightarrow> bool + string"

definition lookup_placeholder :: "(string \<Rightarrow> string \<Rightarrow> string) \<Rightarrow> (string \<Rightarrow> string) \<Rightarrow> string \<Rightarrow> json_get \<Rightarrow> string \<Rightarrow> string option" where
  "lookup_placeholder expand snake kind get s =
     (let key = (case find_placeholder kind s of None \<Rightarrow> [] | Some k \<Rightarrow> k)
      in case get (map snake (split_on CHR ''.'' key)) of
           Inl True \<Rightarrow> Some s
         | Inl False \<Rightarrow> None
         | Inr v \<Rightarrow> Some (replace_placeholders expand kind v s))"

record lookup_env =
  lk_unescape :: "string \<Rightarrow> string option"
  lk_expand :: "string \<Rightarrow> string \<Rightarrow> string"
  lk_snake :: "string \<Rightarrow> string"
  lk_config :: json_get
  lk_server :: "json_get option"

text \<open>\<^verbatim>\<open>LookupConfigurationValue\<close>; \<open>Ret None\<close> is its error. The pattern is looked for in the escaped text.\<close>

definition lookup_configuration_value :: "lookup_env \<Rightarrow> replacement \<Rightarrow> string option go" where
  "lookup_configuration_value e r = (case rp_with r of
     RvString raw \<Rightarrow> go_bind (value_string (lk_unescape e) (rp_with r)) (\<lambda>s.
       if find_placeholder ''config'' raw \<noteq> None
         then Ret (lookup_placeholder (lk_expand e) (lk_snake e) ''config'' (lk_config e) s)
       else (case lk_server e of
           Some get \<Rightarrow> (if find_placeholder ''server'' raw \<noteq> None
             then Ret (lookup_placeholder (lk_expand e) (lk_snake e) ''server'' get s) else Ret (Some s))
         | None \<Rightarrow> Ret (Some s)))
   | v \<Rightarrow> go_bind (value_string (lk_unescape e) v) (\<lambda>s. Ret (Some s)))"

text \<open>For JSON and YAML a value that is no text is decoded as it is.\<close>

definition lookup_configuration_value_any :: "lookup_env \<Rightarrow> (replace_value \<Rightarrow> go_value option) \<Rightarrow> replacement \<Rightarrow> go_value option go" where
  "lookup_configuration_value_any e decode r = (case rp_with r of
     RvString raw \<Rightarrow> go_bind (lookup_configuration_value e r) (\<lambda>v. Ret (map_option VStr v))
   | v \<Rightarrow> Ret (decode v))"

subsection \<open>What a placeholder becomes\<close>

lemma no_placeholder: "\<not> contains_sub s ''{{'' \<Longrightarrow> find_placeholder kind s = None \<and> replace_placeholders expand kind v s = s"
proof (induction s)
  case (Cons c s)
  have "\<not> has_prefix (c # s) ''{{''" "\<not> contains_sub s ''{{''"
    using Cons(2) by (auto simp: has_prefix_iff contains_sub_iff) (metis append_Cons)+
  then have "match_placeholder kind (c # s) = None" "\<not> contains_sub s ''{{''" by (auto simp: match_placeholder_def)
  then show ?case using Cons(1) by (simp add: replace_placeholders.simps)
qed (simp add: replace_placeholders.simps)

lemma match_placeholder_here:
  assumes "k \<noteq> []" "\<forall>c \<in> set k. key_char c"
  shows "match_placeholder ''config'' (''{{config.'' @ k @ ''}}'' @ b) = Some (k, b)"
proof -
  have "takeWhile key_char (k @ ''}}'' @ b) = k" "dropWhile key_char (k @ ''}}'' @ b) = ''}}'' @ b"
    using assms(2) by (auto simp: takeWhile_append dropWhile_append key_char_def lower_letters_def upper_letters_def is_digit_def)
  then show ?thesis using assms(1)
    by (simp add: match_placeholder_def Let_def has_prefix_def skip_blank_def is_blank_def)
qed

text \<open>
  A text with one placeholder of the daemon's configuration becomes the text with the value of the
  configuration in its place, nothing else changed, where the configuration has a value at that path and the
  value has no meaning as a template; where it has none the text is left as it is.
\<close>

theorem placeholder_resolved:
  assumes "\<not> contains_sub (a @ ''{'') ''{{''" "\<not> contains_sub b ''{{''" "k \<noteq> []" "\<forall>c \<in> set k. key_char c"
    "rp_with r = RvString raw" "lk_unescape e raw = Some raw" "raw = a @ ''{{config.'' @ k @ ''}}'' @ b"
    "\<forall>v. lk_config e (map (lk_snake e) (split_on CHR ''.'' k)) = Inr v \<longrightarrow> lk_expand e v k = v"
    "lk_config e (map (lk_snake e) (split_on CHR ''.'' k)) \<noteq> Inl False"
  shows "lookup_configuration_value e r = Ret (Some (case lk_config e (map (lk_snake e) (split_on CHR ''.'' k)) of
    Inr v \<Rightarrow> a @ v @ b | Inl _ \<Rightarrow> raw))"
proof -
  let ?m = "''{{config.'' @ k @ ''}}'' @ b"
  have here: "match_placeholder ''config'' ?m = Some (k, b)" using match_placeholder_here assms(3,4) by blast
  have skip: "find_placeholder ''config'' (a @ ?m) = Some k \<and>
      replace_placeholders (lk_expand e) ''config'' v (a @ ?m) = a @ lk_expand e v k @ b" for v
    using assms(1)
  proof (induction a)
    case Nil
    have "replace_placeholders (lk_expand e) ''config'' v b = b" using no_placeholder assms(2) by blast
    then show ?case using here by (simp add: replace_placeholders.simps)
  next
    case (Cons c a)
    have "\<not> has_prefix ((c # a) @ ?m) ''{{''" "\<not> contains_sub (a @ ''{'') ''{{''"
    proof -
      show "\<not> has_prefix ((c # a) @ ?m) ''{{''"
      proof
        assume "has_prefix ((c # a) @ ?m) ''{{''"
        then have "has_prefix ((c # a) @ ''{'') ''{{''" by (cases a) (auto simp: has_prefix_iff)
        then show False using Cons(2) unfolding has_prefix_iff contains_sub_iff by (metis append_Nil)
      qed
      show "\<not> contains_sub (a @ ''{'') ''{{''"
        using Cons(2) unfolding contains_sub_iff by (metis append_Cons)
    qed
    then have "match_placeholder ''config'' (c # a @ ?m) = None" by (auto simp: match_placeholder_def)
    then show ?case using Cons(1) \<open>\<not> contains_sub (a @ ''{'') ''{{''\<close> by (simp add: replace_placeholders.simps)
  qed
  then show ?thesis using assms(5-9)
    by (auto simp: lookup_configuration_value_def value_string_def lookup_placeholder_def Let_def split: sum.split bool.split)
qed


text \<open>\<open>expand\<close> for values without a dollar sign.\<close>

definition plain_lookup :: "json_get \<Rightarrow> json_get option \<Rightarrow> lookup_env" where
  "plain_lookup config server = \<lparr>lk_unescape = Some, lk_expand = (\<lambda>v k. v), lk_snake = (\<lambda>s. s), lk_config = config, lk_server = server\<rparr>"

definition example_get :: json_get where
  "example_get path = (if path = [''docker'', ''interface''] then Inr ''172.60.0.1'' else if path = [''uuid''] then Inr ''n1'' else Inl True)"

lemma placeholder_resolved_witness:
  "lookup_configuration_value (plain_lookup example_get None)
     \<lparr>rp_match = ''ip'', rp_if_value = [], rp_with = RvString ''http://{{config.docker.interface}}:80''\<rparr> =
   Ret (Some ''http://172.60.0.1:80'')"
proof -
  let ?e = "plain_lookup example_get None" and ?r = "\<lparr>rp_match = ''ip'', rp_if_value = [], rp_with = RvString ''http://{{config.docker.interface}}:80''\<rparr>"
  have path: "split_on CHR ''.'' ''docker.interface'' = [''docker'', ''interface'']" by simp
  have "lookup_configuration_value ?e ?r = Ret (Some (case lk_config ?e (map (lk_snake ?e) (split_on CHR ''.'' ''docker.interface'')) of
      Inr v \<Rightarrow> ''http://'' @ v @ '':80'' | Inl _ \<Rightarrow> ''http://{{config.docker.interface}}:80''))"
    by (rule placeholder_resolved [of "''http://''" "'':80''" "''docker.interface''" ?r "''http://{{config.docker.interface}}:80''" ?e])
      (simp_all add: plain_lookup_def key_char_def lower_letters_def upper_letters_def is_digit_def path example_get_def contains_sub.simps has_prefix_def)
  then show ?thesis by (simp add: plain_lookup_def example_get_def path)
qed

text \<open>Two placeholders become the value of the first, and one of the server is left beside one of the daemon.\<close>

lemma second_placeholder_lost:
  "lookup_configuration_value (plain_lookup example_get None)
     \<lparr>rp_match = [], rp_if_value = [], rp_with = RvString ''{{config.uuid}}-{{config.docker.interface}}''\<rparr> = Ret (Some ''n1-n1'')"
  by code_simp

lemma mixed_placeholders:
  "lookup_configuration_value (plain_lookup example_get (Some (\<lambda>_. Inr ''25565'')))
     \<lparr>rp_match = [], rp_if_value = [], rp_with = RvString ''{{config.uuid}}:{{server.port}}''\<rparr> = Ret (Some ''n1:{{server.port}}'')"
  by code_simp

section \<open>Text files\<close>

text \<open>
  The lines a \<^verbatim>\<open>bufio.Scanner\<close> gives: it ends at a line that does not fit into its buffer, and the error of
  that is not looked at, so the rest of the file is lost.
\<close>

definition drop_cr :: "string \<Rightarrow> string" where
  "drop_cr l = (if l \<noteq> [] \<and> last l = CHR 0x0D then butlast l else l)"

definition raw_lines :: "string \<Rightarrow> string list" where
  "raw_lines s = (let ls = split_on CHR 0x0A s in if last ls = [] then butlast ls else ls)"

definition scan_text :: "string \<Rightarrow> string list" where
  "scan_text s = map drop_cr (takeWhile (\<lambda>l. int (length l) < 65536) (raw_lines s))"

fun replace_line :: "(string \<Rightarrow> string option) \<Rightarrow> replacement list \<Rightarrow> string \<Rightarrow> (bool \<times> string) go" where
  "replace_line unescape [] line = Ret (False, [])"
| "replace_line unescape (r # rs) line =
     (if \<not> has_prefix line (rp_match r) then replace_line unescape rs line
      else go_bind (value_string unescape (rp_with r)) (\<lambda>v.
        go_bind (replace_line unescape rs line) (\<lambda>(_, out). Ret (True, v @ out))))"

fun replace_lines :: "(string \<Rightarrow> string option) \<Rightarrow> replacement list \<Rightarrow> string list \<Rightarrow> string go" where
  "replace_lines unescape rs [] = Ret []"
| "replace_lines unescape rs (l # ls) = go_bind (replace_line unescape rs l) (\<lambda>(hit, out).
     go_bind (replace_lines unescape rs ls) (\<lambda>rest. Ret ((if hit then out else l) @ CHR 0x0A # rest)))"

definition parse_text_file :: "(string \<Rightarrow> string option) \<Rightarrow> replacement list \<Rightarrow> string \<Rightarrow> string go" where
  "parse_text_file unescape rs content = replace_lines unescape rs (scan_text content)"

text \<open>What a line becomes.\<close>

definition new_line :: "(string \<Rightarrow> string option) \<Rightarrow> replacement list \<Rightarrow> string \<Rightarrow> string go" where
  "new_line unescape rs l = go_bind (replace_line unescape rs l) (\<lambda>(hit, out). Ret (if hit then out else l))"

definition text_line :: "string \<Rightarrow> bool" where
  "text_line l \<longleftrightarrow> CHR 0x0A \<notin> set l \<and> int (length l) < 65536 \<and> (l = [] \<or> last l \<noteq> CHR 0x0D)"

definition write_lines :: "string list \<Rightarrow> string" where
  "write_lines ls = concat (map (\<lambda>l. l @ [CHR 0x0A]) ls)"

lemma write_lines_join: "write_lines ls = join_with [CHR 0x0A] (ls @ [[]])"
  by (induction ls) (auto simp: write_lines_def join_with_Cons)

lemma raw_lines_write: "\<forall>l \<in> set ls. CHR 0x0A \<notin> set l \<Longrightarrow> raw_lines (write_lines ls) = ls"
  unfolding raw_lines_def write_lines_join Let_def by (subst split_join, auto)+

lemma scan_write: "\<forall>l \<in> set ls. text_line l \<Longrightarrow> scan_text (write_lines ls) = ls"
proof -
  assume ls: "\<forall>l \<in> set ls. text_line l"
  then have "raw_lines (write_lines ls) = ls" by (intro raw_lines_write) (auto simp: text_line_def)
  moreover have "takeWhile (\<lambda>l. int (length l) < 65536) ls = ls" using ls by (auto simp: takeWhile_eq_all_conv text_line_def)
  moreover have "map drop_cr ls = ls" using ls by (intro map_idI) (auto simp: drop_cr_def text_line_def)
  ultimately show ?thesis unfolding scan_text_def by metis
qed

lemma replace_lines_write:
  "replace_lines unescape rs ls = Ret out \<Longrightarrow> \<exists>ls'. list_all2 (\<lambda>l l'. new_line unescape rs l = Ret l') ls ls' \<and> out = write_lines ls'"
proof (induction ls arbitrary: out)
  case (Cons l ls)
  obtain hit o1 rest where o1: "replace_line unescape rs l = Ret (hit, o1)" "replace_lines unescape rs ls = Ret rest"
    "out = (if hit then o1 else l) @ CHR 0x0A # rest"
    using Cons(2) by (auto simp: go_outcome)
  obtain ls' where ls': "list_all2 (\<lambda>l l'. new_line unescape rs l = Ret l') ls ls'" "rest = write_lines ls'"
    using Cons(1) [OF o1(2)] by blast
  have "new_line unescape rs l = Ret (if hit then o1 else l)" using o1(1) by (simp add: new_line_def)
  then show ?case using ls' o1(3) by (intro exI [of _ "(if hit then o1 else l) # ls'"]) (simp add: write_lines_def)
qed (simp add: write_lines_def)

lemma replace_lines_same:
  "\<forall>l \<in> set ls. new_line unescape rs l = Ret l \<Longrightarrow> replace_lines unescape rs ls = Ret (write_lines ls)"
proof (induction ls)
  case (Cons l ls)
  obtain hit o1 where "replace_line unescape rs l = Ret (hit, o1)" "(if hit then o1 else l) = l"
    using Cons(2) by (auto simp: new_line_def go_outcome)
  then show ?case using Cons by (simp add: write_lines_def split: if_splits)
qed (simp add: write_lines_def)

text \<open>
  A set of replacements is stable when the value of each is a single line that it applies to itself, and no
  line has two of the texts that are looked for at its head.
\<close>

definition stable :: "(string \<Rightarrow> string option) \<Rightarrow> replacement list \<Rightarrow> bool" where
  "stable unescape rs \<longleftrightarrow> (\<forall>r \<in> set rs. \<exists>v. value_string unescape (rp_with r) = Ret v \<and> text_line v \<and> has_prefix v (rp_match r)) \<and>
     (\<forall>i < length rs. \<forall>j < length rs. has_prefix (rp_match (rs ! i)) (rp_match (rs ! j)) \<longrightarrow> i = j)"

lemma prefix_either: "has_prefix l p \<Longrightarrow> has_prefix l q \<Longrightarrow> has_prefix p q \<or> has_prefix q p"
  by (auto simp: has_prefix_iff append_eq_append_conv2)

lemma no_hit: "\<forall>r \<in> set rs. \<not> has_prefix l (rp_match r) \<Longrightarrow> replace_line unescape rs l = Ret (False, [])"
  by (induction rs) auto

lemma one_hit:
  assumes "has_prefix l (rp_match r)" "value_string unescape (rp_with r) = Ret v"
    "\<forall>s \<in> set xs \<union> set ys. \<not> has_prefix l (rp_match s)"
  shows "replace_line unescape (xs @ r # ys) l = Ret (True, v)"
  using assms no_hit [of ys l] by (induction xs) auto

lemma stable_line:
  assumes "stable unescape rs"
  shows "(\<forall>r \<in> set rs. \<not> has_prefix l (rp_match r)) \<and> new_line unescape rs l = Ret l \<or>
    (\<exists>r \<in> set rs. has_prefix l (rp_match r) \<and> (\<exists>v. value_string unescape (rp_with r) = Ret v \<and> new_line unescape rs l = Ret v))"
proof (cases "\<exists>r \<in> set rs. has_prefix l (rp_match r)")
  case True
  then obtain i where i: "i < length rs" "has_prefix l (rp_match (rs ! i))" by (metis in_set_conv_nth)
  let ?xs = "take i rs" and ?ys = "drop (Suc i) rs"
  obtain v where v: "value_string unescape (rp_with (rs ! i)) = Ret v" using assms i(1) by (force simp: stable_def)
  have "\<not> has_prefix l (rp_match (rs ! j))" if "j < length rs" "j \<noteq> i" for j
    using prefix_either [OF i(2)] assms that i(1) unfolding stable_def by metis
  moreover have "\<exists>j < length rs. j \<noteq> i \<and> rs ! j = s" if s: "s \<in> set ?xs \<union> set ?ys" for s
  proof (cases "s \<in> set ?xs")
    case True
    then obtain k where "k < i" "rs ! k = s" using i(1) by (auto simp: in_set_conv_nth)
    then show ?thesis using i(1) by (intro exI [of _ k]) auto
  next
    case False
    then obtain k where "k < length ?ys" "?ys ! k = s" using s by (auto simp: in_set_conv_nth)
    then show ?thesis using i(1) by (intro exI [of _ "Suc i + k"]) auto
  qed
  ultimately have "\<forall>s \<in> set ?xs \<union> set ?ys. \<not> has_prefix l (rp_match s)" by blast
  then have "replace_line unescape (?xs @ rs ! i # ?ys) l = Ret (True, v)" using one_hit i(2) v by blast
  then have "new_line unescape rs l = Ret v" using i(1) by (simp add: new_line_def flip: id_take_nth_drop)
  then show ?thesis using i v nth_mem by blast
next
  case False
  then show ?thesis by (auto simp: new_line_def no_hit)
qed

text \<open>
  C24. Changing a text file for the second time, as happens whenever the server starts, changes nothing more:
  with stable replacements, lines that begin with what is looked for stay the lines they were made, and
  every other line stays what it is.
\<close>

theorem text_file_idempotent:
  assumes "stable unescape rs" "\<forall>l \<in> set (scan_text content). text_line l" "parse_text_file unescape rs content = Ret out"
  shows "parse_text_file unescape rs out = Ret out"
proof -
  obtain ls' where ls': "list_all2 (\<lambda>l l'. new_line unescape rs l = Ret l') (scan_text content) ls'" "out = write_lines ls'"
    using replace_lines_write assms(3) unfolding parse_text_file_def by blast
  have "text_line l' \<and> new_line unescape rs l' = Ret l'" if l': "l' \<in> set ls'" for l'
  proof -
    obtain l where l: "l \<in> set (scan_text content)" "new_line unescape rs l = Ret l'"
    proof -
      obtain n where "n < length ls'" "ls' ! n = l'" using l' by (auto simp: in_set_conv_nth)
      then show ?thesis using ls'(1) that [of "scan_text content ! n"] by (auto simp: list_all2_conv_all_nth)
    qed
    show ?thesis using stable_line [OF assms(1), of l]
    proof
      assume "(\<forall>r \<in> set rs. \<not> has_prefix l (rp_match r)) \<and> new_line unescape rs l = Ret l"
      then show ?thesis using l assms(2) by auto
    next
      assume "\<exists>r \<in> set rs. has_prefix l (rp_match r) \<and> (\<exists>v. value_string unescape (rp_with r) = Ret v \<and> new_line unescape rs l = Ret v)"
      then obtain r where r: "r \<in> set rs" "value_string unescape (rp_with r) = Ret l'" using l(2) by auto
      then have v: "text_line l'" "has_prefix l' (rp_match r)" using assms(1) by (auto simp: stable_def)
      obtain s where s: "s \<in> set rs" "has_prefix l' (rp_match s)" "new_line unescape rs l' = value_string unescape (rp_with s)"
        using stable_line [OF assms(1), of l'] r(1) v(2) by metis
      obtain i j where ij: "i < length rs" "rs ! i = r" "j < length rs" "rs ! j = s" using r(1) s(1) by (metis in_set_conv_nth)
      then have "i = j" using prefix_either [OF v(2) s(2)] assms(1) unfolding stable_def by metis
      then show ?thesis using ij s(3) r(2) v(1) by simp
    qed
  qed
  then show ?thesis unfolding parse_text_file_def ls'(2) using scan_write [of ls'] by (simp add: replace_lines_same)
qed


definition example_replacements :: "replacement list" where
  "example_replacements = [\<lparr>rp_match = ''port='', rp_if_value = [], rp_with = RvString ''port=25565''\<rparr>,
     \<lparr>rp_match = ''motd='', rp_if_value = [], rp_with = RvString ''motd=hi''\<rparr>]"

abbreviation (input) newline :: string where
  "newline \<equiv> [CHR 0x0A]"

lemma text_file_idempotent_witness:
  "parse_text_file Some example_replacements (''# top'' @ newline @ ''port=1'' @ newline @ ''x=2'') =
     Ret (''# top'' @ newline @ ''port=25565'' @ newline @ ''x=2'' @ newline) \<and>
   parse_text_file Some example_replacements (''# top'' @ newline @ ''port=25565'' @ newline @ ''x=2'' @ newline) =
     Ret (''# top'' @ newline @ ''port=25565'' @ newline @ ''x=2'' @ newline)"
proof
  show first: "parse_text_file Some example_replacements (''# top'' @ newline @ ''port=1'' @ newline @ ''x=2'') =
     Ret (''# top'' @ newline @ ''port=25565'' @ newline @ ''x=2'' @ newline)"
    by code_simp
  have "stable Some example_replacements"
    by (auto simp: stable_def example_replacements_def value_string_def text_line_def has_prefix_def less_Suc_eq nth_Cons')
  moreover have "list_all text_line (scan_text (''# top'' @ newline @ ''port=1'' @ newline @ ''x=2''))" by code_simp
  ultimately show "parse_text_file Some example_replacements (''# top'' @ newline @ ''port=25565'' @ newline @ ''x=2'' @ newline) =
     Ret (''# top'' @ newline @ ''port=25565'' @ newline @ ''x=2'' @ newline)"
    using text_file_idempotent [OF _ _ first] by (simp add: list_all_iff)
qed

text \<open>
  Two texts that a line begins with put both values on one line, a placeholder is not resolved in a text
  file, and everything from a line of 64 KiB on is lost.
\<close>

lemma both_values_written:
  "parse_text_file Some [\<lparr>rp_match = ''p'', rp_if_value = [], rp_with = RvString ''a''\<rparr>, \<lparr>rp_match = ''port'', rp_if_value = [], rp_with = RvString ''b''\<rparr>]
     ''port=1'' = Ret (''ab'' @ newline)"
  by code_simp

lemma text_placeholder_kept:
  "parse_text_file Some [\<lparr>rp_match = ''ip'', rp_if_value = [], rp_with = RvString ''ip={{config.uuid}}''\<rparr>] ''ip=1'' =
     Ret (''ip={{config.uuid}}'' @ newline)"
  by code_simp

lemma long_line_lost: "length l \<ge> 65536 \<Longrightarrow> CHR 0x0A \<notin> set l \<Longrightarrow> parse_text_file unescape rs (l @ newline @ rest) = Ret []"
proof -
  assume l: "length l \<ge> 65536" "CHR 0x0A \<notin> set l"
  have "split_on CHR 0x0A (l @ newline @ rest) = l # split_on CHR 0x0A rest" using split_on_append_sep [OF l(2)] by simp
  then have "raw_lines (l @ newline @ rest) = l # raw_lines rest" by (simp add: raw_lines_def Let_def)
  then show ?thesis using l(1) by (simp add: parse_text_file_def scan_text_def)
qed

section \<open>INI files\<close>

text \<open>
  The path of a key: the part before the first dot that is in no brackets is the section. The state is the
  path so far, the depth of brackets and the text of the part.
\<close>

fun ini_path_loop :: "string list \<Rightarrow> int \<Rightarrow> string \<Rightarrow> string \<Rightarrow> string list" where
  "ini_path_loop path depth v [] = path @ [v]"
| "ini_path_loop path depth v (c # s) =
     (if c = CHR ''['' then ini_path_loop path (depth + 1) v s
      else if c = CHR '']'' then ini_path_loop path (depth - 1) v s
      else if c = CHR ''.'' \<and> \<not> (depth > 0 \<or> length path = 1) then ini_path_loop (path @ [v]) depth [] s
      else ini_path_loop path depth (v @ [c]) s)"

definition ini_path :: "string \<Rightarrow> string list" where
  "ini_path m = ini_path_loop [] 0 [] m"

text \<open>The library of INI files: reading, looking for a key of a section, setting and adding one, and writing.\<close>

record 'i ini_lib =
  il_load :: "string \<Rightarrow> 'i option"
  il_has_key :: "'i \<Rightarrow> string \<Rightarrow> string \<Rightarrow> bool"
  il_set :: "'i \<Rightarrow> string \<Rightarrow> string \<Rightarrow> string \<Rightarrow> 'i"
  il_new_key :: "'i \<Rightarrow> string \<Rightarrow> string \<Rightarrow> string \<Rightarrow> 'i option"
  il_write :: "'i \<Rightarrow> string"

definition ini_replace :: "lookup_env \<Rightarrow> 'i ini_lib \<Rightarrow> replacement \<Rightarrow> 'i \<Rightarrow> 'i option go" where
  "ini_replace e lib r doc = (let path = ini_path (rp_match r) in
     go_bind (lookup_configuration_value e r) (\<lambda>v. Ret (case v of
       None \<Rightarrow> None
     | Some value \<Rightarrow>
         (let (section, k) = (if length path = 2 then (path ! 0, path ! 1) else ([], path ! 0))
          in if il_has_key lib doc section k then Some (il_set lib doc section k value) else il_new_key lib doc section k value))))"

fun ini_replace_all :: "lookup_env \<Rightarrow> 'i ini_lib \<Rightarrow> replacement list \<Rightarrow> 'i \<Rightarrow> 'i option go" where
  "ini_replace_all e lib [] doc = Ret (Some doc)"
| "ini_replace_all e lib (r # rs) doc = go_bind (ini_replace e lib r doc) (\<lambda>d.
     case d of None \<Rightarrow> Ret None | Some doc \<Rightarrow> ini_replace_all e lib rs doc)"

text \<open>The file is written when everything else succeeded: \<open>None\<close> leaves it as it is.\<close>

definition parse_ini_file :: "lookup_env \<Rightarrow> 'i ini_lib \<Rightarrow> replacement list \<Rightarrow> string \<Rightarrow> string option go" where
  "parse_ini_file e lib rs content = (case il_load lib content of
     None \<Rightarrow> Ret None
   | Some doc \<Rightarrow> go_bind (ini_replace_all e lib rs doc) (\<lambda>d. Ret (map_option (il_write lib) d)))"

definition bracket_free :: "string \<Rightarrow> bool" where
  "bracket_free s \<longleftrightarrow> CHR ''['' \<notin> set s \<and> CHR '']'' \<notin> set s"

lemma ini_path_key: "bracket_free k \<Longrightarrow> ini_path_loop [s] d v k = [s, v @ k]"
  by (induction k arbitrary: v) (auto simp: bracket_free_def)

lemma ini_path_inside: "bracket_free s \<Longrightarrow> 0 < d \<Longrightarrow> ini_path_loop [] d v (s @ CHR '']'' # r) = ini_path_loop [] (d - 1) (v @ s) r"
  by (induction s arbitrary: v) (auto simp: bracket_free_def)

lemma ini_path_plain: "bracket_free s \<Longrightarrow> CHR ''.'' \<notin> set s \<Longrightarrow> ini_path_loop [] 0 v (s @ CHR ''.'' # r) = ini_path_loop [v @ s] 0 [] r"
  by (induction s arbitrary: v) (auto simp: bracket_free_def)

text \<open>
  A section and a key written as the path of an INI file are read back as they were: any section without
  brackets in brackets, with or without dots, one without dots also as it is, and any key without
  brackets, dots included; a path without a dot is a key of no section.
\<close>

theorem ini_path_roundtrip:
  assumes "bracket_free s" "bracket_free k"
  shows "ini_path (''['' @ s @ ''].'' @ k) = [s, k] \<and> (CHR ''.'' \<notin> set s \<longrightarrow> ini_path (s @ ''.'' @ k) = [s, k]) \<and>
    (CHR ''.'' \<notin> set k \<longrightarrow> ini_path k = [k])"
proof -
  have "ini_path (''['' @ s @ ''].'' @ k) = [s, k]"
    using assms ini_path_inside [of s 1 "[]" "CHR ''.'' # k"] ini_path_key [of k s 0 "[]"] by (simp add: ini_path_def)
  moreover have "ini_path (s @ ''.'' @ k) = [s, k]" if "CHR ''.'' \<notin> set s"
    using assms that ini_path_plain [of s "[]" k] ini_path_key [of k s 0 "[]"] by (simp add: ini_path_def)
  moreover have "ini_path_loop [] 0 v k = [v @ k]" if "CHR ''.'' \<notin> set k" for v
    using assms(2) that by (induction k arbitrary: v) (auto simp: bracket_free_def)
  ultimately show ?thesis by (simp add: ini_path_def)
qed

lemma ini_path_roundtrip_witness: "ini_path ''[/Script/Engine.GameSession].MaxPlayers'' = [''/Script/Engine.GameSession'', ''MaxPlayers'']"
  using ini_path_roundtrip [of "''/Script/Engine.GameSession''" "''MaxPlayers''"] by (simp add: bracket_free_def)


section \<open>Properties\<close>

text \<open>The library of properties, and \<^verbatim>\<open>strconv.QuoteToASCII\<close>; \<open>pl_set\<close> fails on a circular reference.\<close>

record 'p properties_lib =
  pl_load :: "string \<Rightarrow> 'p option"
  pl_get :: "'p \<Rightarrow> string \<Rightarrow> string option"
  pl_set :: "'p \<Rightarrow> string \<Rightarrow> string \<Rightarrow> 'p option"
  pl_keys :: "'p \<Rightarrow> string list"
  pl_quote :: "string \<Rightarrow> string"

text \<open>The head of the file: empty lines and comments up to the first line with something else.\<close>

definition head_comments :: "string \<Rightarrow> string list" where
  "head_comments content = takeWhile (\<lambda>l. l = [] \<or> hd l = CHR ''#'') (scan_text content)"

text \<open>A scanner that does not come to the end of the head because of a line that is too long fails.\<close>

definition head_fails :: "string \<Rightarrow> bool" where
  "head_fails content \<longleftrightarrow> length (head_comments content) < length (raw_lines content) \<and>
     int (length (raw_lines content ! length (head_comments content))) \<ge> 65536"

definition trim_quotes :: "string \<Rightarrow> string" where
  "trim_quotes s = (let q = (\<lambda>c. c = CHR 0x22) in rev (dropWhile q (rev (dropWhile q s))))"

fun properties_replace :: "lookup_env \<Rightarrow> 'p properties_lib \<Rightarrow> replacement list \<Rightarrow> 'p \<Rightarrow> 'p option go" where
  "properties_replace e lib [] p = Ret (Some p)"
| "properties_replace e lib (r # rs) p = go_bind (lookup_configuration_value e r) (\<lambda>data. case data of
     None \<Rightarrow> Ret None
   | Some data \<Rightarrow>
       (if rp_if_value r \<noteq> [] \<and> pl_get lib p (rp_match r) \<noteq> Some (rp_if_value r) then properties_replace e lib rs p
        else case pl_set lib p (rp_match r) data of None \<Rightarrow> Ret None | Some p \<Rightarrow> properties_replace e lib rs p))"

definition properties_lines :: "'p properties_lib \<Rightarrow> 'p \<Rightarrow> string list" where
  "properties_lines lib p = concat (map (\<lambda>k. case pl_get lib p k of None \<Rightarrow> []
     | Some v \<Rightarrow> [k @ ''='' @ trim_quotes (pl_quote lib v)]) (pl_keys lib p))"

definition parse_properties_file :: "lookup_env \<Rightarrow> 'p properties_lib \<Rightarrow> replacement list \<Rightarrow> string \<Rightarrow> string option go" where
  "parse_properties_file e lib rs content =
     (if head_fails content then Ret None
      else case pl_load lib content of
        None \<Rightarrow> Ret None
      | Some p \<Rightarrow> go_bind (properties_replace e lib rs p) (\<lambda>d.
          Ret (map_option (\<lambda>p. write_lines (head_comments content @ properties_lines lib p)) d)))"

text \<open>The quotes of a value at its end are trimmed with those around it, which leaves their backslash.\<close>

lemma quoted_value_broken: "trim_quotes [CHR 0x22, CHR ''a'', CHR 0x5C, CHR 0x22, CHR 0x22] = [CHR ''a'', CHR 0x5C]"
  by code_simp

section \<open>JSON and YAML\<close>

text \<open>
  The library of unknown JSON: documents \<open>'d\<close> and places \<open>'c\<close> in them, with the root. Setting below a
  place changes the document, also where it fails half way; the children of a place are in the order the
  library gives them.
\<close>

datatype gabs_error = GabsNotFound | GabsNotArray | GabsOther

record ('d, 'c) gabs_lib =
  gb_root :: 'c
  gb_set_p :: "'d \<Rightarrow> 'c \<Rightarrow> string \<Rightarrow> go_value \<Rightarrow> gabs_error option \<times> 'd"
  gb_array_element :: "'d \<Rightarrow> 'c \<Rightarrow> int \<Rightarrow> string \<Rightarrow> gabs_error + 'c"
  gb_exists :: "'d \<Rightarrow> 'c \<Rightarrow> string \<Rightarrow> bool"
  gb_children :: "'d \<Rightarrow> string \<Rightarrow> 'c list"
  gb_path_text :: "'d \<Rightarrow> 'c \<Rightarrow> string \<Rightarrow> string"
  gb_bytes :: "'d \<Rightarrow> 'c \<Rightarrow> string"

text \<open>
  The pattern \<^verbatim>\<open>^([^\[\]]+)\[([\d]+)](\..+)?$\<close>: the name, the index and the rest, which is empty where there is
  none. A match always has four parts, so the case of three parts in the source does not occur.
\<close>

definition array_match :: "string \<Rightarrow> (string \<times> string \<times> string) option" where
  "array_match s = (let outer = (\<lambda>c. c \<noteq> CHR ''['' \<and> c \<noteq> CHR '']'');
       a = takeWhile outer s; r = dropWhile outer s
     in if a = [] \<or> \<not> has_prefix r ''['' then None
        else let i = takeWhile is_digit (drop 1 r); r = dropWhile is_digit (drop 1 r)
          in if i = [] \<or> \<not> has_prefix r '']'' then None
             else let r = drop 1 r
               in if r = [] \<or> (length r > 1 \<and> has_prefix r ''.'' \<and> CHR 0x0A \<notin> set r) then Some (a, i, r) else None)"

definition set_value_at_path :: "('d, 'c) gabs_lib \<Rightarrow> 'd \<Rightarrow> 'c \<Rightarrow> string \<Rightarrow> go_value \<Rightarrow> gabs_error option \<times> 'd" where
  "set_value_at_path lib d c path v = (case array_match path of
     None \<Rightarrow> gb_set_p lib d c path v
   | Some (name, idx, rest) \<Rightarrow> (let i = fst (atoi idx); below = trim_prefix rest ''.'' in
       case gb_array_element lib d c i name of
         Inr ct \<Rightarrow> gb_set_p lib d ct below v
       | Inl e \<Rightarrow>
           (if i \<noteq> 0 \<or> (e \<noteq> GabsNotArray \<and> e \<noteq> GabsNotFound) then (Some e, d)
            else case gb_set_p lib d c name (VList [VMap []]) of
              (Some e, d) \<Rightarrow> (Some e, d)
            | (None, d) \<Rightarrow> (case gb_array_element lib d c 0 name of
                Inl e \<Rightarrow> (Some e, d)
              | Inr ct \<Rightarrow> gb_set_p lib d ct below v))))"

text \<open>
  \<open>regex p text v\<close> is what replacing the matches of the expression \<open>p\<close> in a text gives, where it matches;
  \<open>Inl\<close> says that it does not compile (\<open>True\<close>) or does not match.
\<close>

definition set_at_pathway :: "('d, 'c) gabs_lib \<Rightarrow> (string \<Rightarrow> string \<Rightarrow> string \<Rightarrow> bool + string) \<Rightarrow> replacement \<Rightarrow> 'd \<Rightarrow> 'c \<Rightarrow> string \<Rightarrow> go_value \<Rightarrow> gabs_error option \<times> 'd" where
  "set_at_pathway lib regex r d c path v =
     (if rp_if_value r = [] then set_value_at_path lib d c path v
      else if has_prefix (rp_if_value r) ''regex:'' then
        (case v of
           VStr s \<Rightarrow>
             (if gb_exists lib d c path then (Some GabsNotFound, d)
              else case regex (trim_prefix (rp_if_value r) ''regex:'') (trim_quotes (gb_path_text lib d c path)) s of
                Inl _ \<Rightarrow> (None, d)
              | Inr s' \<Rightarrow> set_value_at_path lib d c path (VStr s'))
         | _ \<Rightarrow> (None, d))
      else if gb_exists lib d c path \<and> gb_bytes lib d c \<noteq> rp_if_value r then (None, d)
      else set_value_at_path lib d c path v)"

text \<open>A place that is not found is passed over; any other error ends the work.\<close>

definition pass_missing :: "gabs_error option \<times> 'd \<Rightarrow> 'd option" where
  "pass_missing r = (case r of (e, d) \<Rightarrow> if e = None \<or> e = Some GabsNotFound then Some d else None)"

fun split_first :: "string \<Rightarrow> string \<Rightarrow> string \<times> string" where
  "split_first sep [] = ([], [])"
| "split_first sep (c # s) = (if has_prefix (c # s) sep then ([], drop (length sep) (c # s))
     else (case split_first sep s of (a, b) \<Rightarrow> (c # a, b)))"

definition trim_dots :: "string \<Rightarrow> string" where
  "trim_dots s = (let q = (\<lambda>c. c = CHR ''.'') in rev (dropWhile q (rev (dropWhile q s))))"

fun set_children :: "('d, 'c) gabs_lib \<Rightarrow> (string \<Rightarrow> string \<Rightarrow> string \<Rightarrow> bool + string) \<Rightarrow> replacement \<Rightarrow> string \<Rightarrow> go_value \<Rightarrow> 'c list \<Rightarrow> 'd \<Rightarrow> 'd option" where
  "set_children lib regex r path v [] d = Some d"
| "set_children lib regex r path v (c # cs) d = (case pass_missing (set_at_pathway lib regex r d c path v) of
     None \<Rightarrow> None | Some d \<Rightarrow> set_children lib regex r path v cs d)"

definition json_replace :: "('d, 'c) gabs_lib \<Rightarrow> (string \<Rightarrow> string \<Rightarrow> string \<Rightarrow> bool + string) \<Rightarrow> replacement \<Rightarrow> go_value \<Rightarrow> 'd \<Rightarrow> 'd option" where
  "json_replace lib regex r v d =
     (if contains_sub (rp_match r) ''.*'' then
        (let (a, b) = split_first ''.*'' (rp_match r)
         in set_children lib regex r (trim_dots b) v (gb_children lib d (trim_dots a)) d)
      else pass_missing (set_at_pathway lib regex r d (gb_root lib) (rp_match r) v))"

fun iterate_over_json :: "lookup_env \<Rightarrow> (replace_value \<Rightarrow> go_value option) \<Rightarrow> ('d, 'c) gabs_lib \<Rightarrow> (string \<Rightarrow> string \<Rightarrow> string \<Rightarrow> bool + string) \<Rightarrow> replacement list \<Rightarrow> 'd \<Rightarrow> 'd option go" where
  "iterate_over_json e decode lib regex [] d = Ret (Some d)"
| "iterate_over_json e decode lib regex (r # rs) d = go_bind (lookup_configuration_value_any e decode r) (\<lambda>v. case v of
     None \<Rightarrow> Ret None
   | Some v \<Rightarrow> (case json_replace lib regex r v d of None \<Rightarrow> Ret None | Some d \<Rightarrow> iterate_over_json e decode lib regex rs d))"

definition parse_json_file :: "lookup_env \<Rightarrow> (replace_value \<Rightarrow> go_value option) \<Rightarrow> ('d, 'c) gabs_lib \<Rightarrow> (string \<Rightarrow> string \<Rightarrow> string \<Rightarrow> bool + string) \<Rightarrow>
    (string \<Rightarrow> 'd option) \<Rightarrow> ('d \<Rightarrow> string) \<Rightarrow> replacement list \<Rightarrow> string \<Rightarrow> string option go" where
  "parse_json_file e decode lib regex load indent rs content = (case load content of
     None \<Rightarrow> Ret None
   | Some d \<Rightarrow> go_bind (iterate_over_json e decode lib regex rs d) (\<lambda>d. Ret (map_option indent d)))"

text \<open>YAML is read into the same documents, and writing it can fail.\<close>

definition parse_yaml_file :: "lookup_env \<Rightarrow> (replace_value \<Rightarrow> go_value option) \<Rightarrow> ('d, 'c) gabs_lib \<Rightarrow> (string \<Rightarrow> string \<Rightarrow> string \<Rightarrow> bool + string) \<Rightarrow>
    (string \<Rightarrow> string option) \<Rightarrow> (string \<Rightarrow> 'd option) \<Rightarrow> ('d \<Rightarrow> string option) \<Rightarrow> replacement list \<Rightarrow> string \<Rightarrow> string option go" where
  "parse_yaml_file e decode lib regex to_json load render rs content = (case to_json content of
     None \<Rightarrow> Ret None
   | Some json \<Rightarrow> (case load json of
       None \<Rightarrow> Ret None
     | Some d \<Rightarrow> go_bind (iterate_over_json e decode lib regex rs d) (\<lambda>d.
         Ret (case d of None \<Rightarrow> None | Some d \<Rightarrow> render d))))"

text \<open>A replacement with an expression as its condition never changes a value that is there, which it is meant for.\<close>

lemma regex_needs_absence:
  assumes "has_prefix (rp_if_value r) ''regex:''" "gb_exists lib d (gb_root lib) (rp_match r)" "\<not> contains_sub (rp_match r) ''.*''"
  shows "json_replace lib regex r v d = Some d"
proof -
  have "rp_if_value r \<noteq> []" using assms(1) by (auto simp: has_prefix_iff)
  then show ?thesis using assms by (auto simp: json_replace_def set_at_pathway_def pass_missing_def split: go_value.split)
qed

text \<open>A plain condition is compared with the whole document, so it does not hold of the value it is meant for.\<close>

lemma condition_on_document:
  assumes "rp_if_value r \<noteq> []" "\<not> has_prefix (rp_if_value r) ''regex:''" "gb_exists lib d (gb_root lib) (rp_match r)"
    "gb_bytes lib d (gb_root lib) \<noteq> rp_if_value r" "\<not> contains_sub (rp_match r) ''.*''"
  shows "json_replace lib regex r v d = Some d"
  using assms by (simp add: json_replace_def set_at_pathway_def pass_missing_def)

text \<open>The element of an array itself is set under the empty name below it.\<close>

lemma element_set_below:
  "gb_array_element lib d c 1 ''hosts'' = Inr ct \<Longrightarrow> set_value_at_path lib d c ''hosts[1]'' v = gb_set_p lib d ct [] v"
proof -
  have "array_match ''hosts[1]'' = Some (''hosts'', ''1'', [])" "atoi ''1'' = (1, None)" by code_simp+
  then show "gb_array_element lib d c 1 ''hosts'' = Inr ct \<Longrightarrow> ?thesis" by (simp add: set_value_at_path_def trim_prefix_def has_prefix_def)
qed


section \<open>XML\<close>

text \<open>
  The library of XML documents: documents \<open>'x\<close> and elements \<open>'e\<close>. Looking for a path that is none panics.
\<close>

record ('x, 'e) xml_lib =
  xl_load :: "string \<Rightarrow> 'x option"
  xl_root :: "'x \<Rightarrow> 'e option"
  xl_proc_inst :: "'x \<Rightarrow> string \<Rightarrow> string \<Rightarrow> 'x"
  xl_create_root :: "'x \<Rightarrow> string \<Rightarrow> 'x"
  xl_find_element :: "'x \<Rightarrow> 'e \<Rightarrow> string \<Rightarrow> 'e option go"
  xl_create_element :: "'x \<Rightarrow> 'e \<Rightarrow> string \<Rightarrow> 'x \<times> 'e"
  xl_find_elements :: "'x \<Rightarrow> string \<Rightarrow> 'e list go"
  xl_create_attr :: "'x \<Rightarrow> 'e \<Rightarrow> string \<Rightarrow> string \<Rightarrow> 'x"
  xl_set_text :: "'x \<Rightarrow> 'e \<Rightarrow> string \<Rightarrow> 'x"
  xl_write :: "'x \<Rightarrow> string"

text \<open>The pattern \<^verbatim>\<open>^\[([\w]+)='(.*)'\]$\<close>: the name and the value of an attribute.\<close>

definition word_char :: "char \<Rightarrow> bool" where
  "word_char c \<longleftrightarrow> c \<in> set lower_letters \<or> c \<in> set upper_letters \<or> is_digit c \<or> c = CHR ''_''"

definition xml_value_match :: "string \<Rightarrow> (string \<times> string) option" where
  "xml_value_match s =
     (if \<not> has_prefix s ''['' then None
      else let k = takeWhile word_char (drop 1 s); r = dropWhile word_char (drop 1 s); v = drop 2 r;
               n = length v - 2
        in if k = [] \<or> \<not> has_prefix r [CHR ''='', CHR 0x27] \<or> length v < 2 \<or> drop n v \<noteq> [CHR 0x27, CHR '']''] \<or>
             CHR 0x0A \<in> set (take n v) then None
           else Some (k, take n v))"

text \<open>The elements of a path that are missing below \<open>el\<close>; without a root, walking down from it panics.\<close>

fun create_path :: "('x, 'e) xml_lib \<Rightarrow> string list \<Rightarrow> 'e option \<Rightarrow> 'x \<Rightarrow> 'x go" where
  "create_path lib [] el x = Ret x"
| "create_path lib (t # ts) None x = Panic"
| "create_path lib (t # ts) (Some el) x = go_bind (xl_find_element lib x el t) (\<lambda>e. case e of
     Some el \<Rightarrow> create_path lib ts (Some el) x
   | None \<Rightarrow> (case xl_create_element lib x el t of (x, el) \<Rightarrow> create_path lib ts (Some el) x))"

definition set_element :: "('x, 'e) xml_lib \<Rightarrow> string \<Rightarrow> 'e \<Rightarrow> 'x \<Rightarrow> 'x" where
  "set_element lib v el x = (case xml_value_match v of
     Some (k, a) \<Rightarrow> xl_create_attr lib x el k a
   | None \<Rightarrow> xl_set_text lib x el v)"

definition xml_set_value :: "('x, 'e) xml_lib \<Rightarrow> bool \<Rightarrow> string \<Rightarrow> string \<Rightarrow> 'x \<Rightarrow> 'x go" where
  "xml_set_value lib first_one m v x =
     (let parts = split_on CHR ''.'' m;
          x = (if first_one \<and> xl_root lib x = None then xl_create_root lib x (hd parts) else x);
          path = ''./'' @ join_with ''/'' parts
      in go_bind (if CHR ''*'' \<in> set path then Ret x else create_path lib (tl parts) (xl_root lib x) x) (\<lambda>x.
         go_bind (xl_find_elements lib x path) (\<lambda>els. Ret (fold (set_element lib v) els x))))"

fun xml_replace :: "lookup_env \<Rightarrow> ('x, 'e) xml_lib \<Rightarrow> bool \<Rightarrow> replacement list \<Rightarrow> 'x \<Rightarrow> 'x option go" where
  "xml_replace e lib first_one [] x = Ret (Some x)"
| "xml_replace e lib first_one (r # rs) x = go_bind (lookup_configuration_value e r) (\<lambda>v. case v of
     None \<Rightarrow> Ret None
   | Some v \<Rightarrow> go_bind (xml_set_value lib first_one (rp_match r) v x) (xml_replace e lib False rs))"

definition parse_xml_file :: "lookup_env \<Rightarrow> ('x, 'e) xml_lib \<Rightarrow> replacement list \<Rightarrow> string \<Rightarrow> string option go" where
  "parse_xml_file e lib rs content = (case xl_load lib content of
     None \<Rightarrow> Ret None
   | Some x \<Rightarrow> (let q = CHR 0x22;
         x = (if xl_root lib x = None
                then xl_proc_inst lib x ''xml'' (''version='' @ q # ''1.0'' @ q # '' encoding='' @ q # ''utf-8'' @ [q]) else x)
       in go_bind (xml_replace e lib True rs x) (\<lambda>d. Ret (map_option (xl_write lib) d))))"

text \<open>A value is read back as the attribute it names.\<close>

lemma xml_value_roundtrip:
  assumes "k \<noteq> []" "\<forall>c \<in> set k. word_char c" "CHR 0x0A \<notin> set v"
  shows "xml_value_match (''['' @ k @ [CHR ''='', CHR 0x27] @ v @ [CHR 0x27, CHR '']'']) = Some (k, v)"
proof -
  let ?r = "[CHR ''='', CHR 0x27] @ v @ [CHR 0x27, CHR '']'']"
  have "\<not> word_char CHR ''=''" by code_simp
  then have "takeWhile word_char (k @ ?r) = k" "dropWhile word_char (k @ ?r) = ?r"
    using assms(2) by (auto simp: takeWhile_append dropWhile_append)
  then show ?thesis using assms(1,3) by (simp add: xml_value_match_def Let_def has_prefix_def)
qed

section \<open>The parser of a file\<close>

record ('d, 'c, 'i, 'p, 'x, 'e) parser_env =
  pe_lookup :: lookup_env
  pe_decode :: "replace_value \<Rightarrow> go_value option"
  pe_regex :: "string \<Rightarrow> string \<Rightarrow> string \<Rightarrow> bool + string"
  pe_gabs :: "('d, 'c) gabs_lib"
  pe_json :: "string \<Rightarrow> 'd option"
  pe_indent :: "'d \<Rightarrow> string"
  pe_yaml_json :: "string \<Rightarrow> string option"
  pe_yaml :: "'d \<Rightarrow> string option"
  pe_ini :: "'i ini_lib"
  pe_properties :: "'p properties_lib"
  pe_xml :: "('x, 'e) xml_lib"

text \<open>
  \<^verbatim>\<open>Parse\<close>: the new text of the file, \<open>Ret None\<close> where it fails. The lock on the file and the text of the
  daemon's own configuration are \<open>locked\<close> and \<open>marshalled\<close>.
\<close>

definition parse_configuration :: "('d, 'c, 'i, 'p, 'x, 'e) parser_env \<Rightarrow> bool \<Rightarrow> bool \<Rightarrow> string \<Rightarrow> replacement list \<Rightarrow> string \<Rightarrow> string option go" where
  "parse_configuration pe locked marshalled parser rs content =
     (if \<not> locked \<or> \<not> marshalled then Ret None
      else if parser = ''properties'' then parse_properties_file (pe_lookup pe) (pe_properties pe) rs content
      else if parser = ''file'' then go_bind (parse_text_file (lk_unescape (pe_lookup pe)) rs content) (\<lambda>out. Ret (Some out))
      else if parser = ''yaml'' \<or> parser = ''yml'' then
        parse_yaml_file (pe_lookup pe) (pe_decode pe) (pe_gabs pe) (pe_regex pe) (pe_yaml_json pe) (pe_json pe) (pe_yaml pe) rs content
      else if parser = ''json'' then
        parse_json_file (pe_lookup pe) (pe_decode pe) (pe_gabs pe) (pe_regex pe) (pe_json pe) (pe_indent pe) rs content
      else if parser = ''ini'' then parse_ini_file (pe_lookup pe) (pe_ini pe) rs content
      else if parser = ''xml'' then parse_xml_file (pe_lookup pe) (pe_xml pe) rs content
      else Ret None)"


section \<open>The files of a server\<close>

text \<open>What \<^verbatim>\<open>{{server.X}}\<close> is looked up in: the default address and the limits of the server.\<close>

record server_build =
  sb_ip :: string
  sb_port :: int
  sb_memory :: int
  sb_swap :: int
  sb_cpu :: int
  sb_disk :: int
  sb_io_weight :: int

definition build_server_data :: "server_build \<Rightarrow> go_value" where
  "build_server_data b = VMap [(''build'', VMap
     [(''default'', VMap [(''ip'', VStr (sb_ip b)), (''port'', VInt (sb_port b))]),
      (''memory'', VInt (sb_memory b)), (''memory_limit'', VInt (sb_memory b)), (''swap'', VInt (sb_swap b)),
      (''cpu'', VInt (sb_cpu b)), (''cpu_limit'', VInt (sb_cpu b)), (''disk'', VInt (sb_disk b)), (''disk_space'', VInt (sb_disk b)),
      (''io_weight'', VInt (sb_io_weight b))])]"

text \<open>A path in a document, as the library finds it: the texts and numbers at its end.\<close>

fun value_at :: "go_value \<Rightarrow> string list \<Rightarrow> go_value option" where
  "value_at v [] = Some v"
| "value_at (VMap m) (k # ks) = (case map_of m k of None \<Rightarrow> None | Some v \<Rightarrow> value_at v ks)"
| "value_at v (k # ks) = None"

definition server_get :: "go_value \<Rightarrow> json_get" where
  "server_get doc path = (case value_at doc path of
     Some (VStr s) \<Rightarrow> Inr s | Some (VInt i) \<Rightarrow> Inr (itoa i) | _ \<Rightarrow> Inl True)"

record config_file =
  cf_name :: string
  cf_parser :: string
  cf_replace :: "replacement list"

text \<open>
  \<^verbatim>\<open>UpdateConfigurationFiles\<close>: every file is made where it is missing, and gets its new text unless it cannot be
  opened, which \<open>opens\<close> says, or parsing it fails. The jobs of the pool take their files one at a time, the
  order being that of the list; the lock of a file keeps two jobs on one file apart.
\<close>

fun update_configuration_files ::
  "(string \<Rightarrow> bool) \<Rightarrow> (string \<Rightarrow> replacement list \<Rightarrow> string \<Rightarrow> string option go) \<Rightarrow> config_file list \<Rightarrow> (string \<rightharpoonup> string) \<Rightarrow> (string \<rightharpoonup> string) go" where
  "update_configuration_files opens parse [] files = Ret files"
| "update_configuration_files opens parse (f # fs) files =
     (if \<not> opens (cf_name f) then update_configuration_files opens parse fs files
      else let old = (case files (cf_name f) of Some c \<Rightarrow> c | None \<Rightarrow> [])
        in go_bind (parse (cf_parser f) (cf_replace f) old) (\<lambda>out.
             update_configuration_files opens parse fs (files(cf_name f \<mapsto> (case out of Some c \<Rightarrow> c | None \<Rightarrow> old)))))"

lemma update_other_file:
  "update_configuration_files opens parse fs files = Ret out \<Longrightarrow> n \<notin> cf_name ` set fs \<Longrightarrow> out n = files n"
  by (induction fs arbitrary: files) (auto simp: Let_def go_outcome split: if_splits)

text \<open>
  Every file of the list that can be opened is afterwards what its parser makes of it, or what it was where
  that fails, whatever happens to the others; and no other file changes.
\<close>

lemma files_updated:
  assumes "update_configuration_files opens parse fs files = Ret out" "distinct (map cf_name fs)" "f \<in> set fs" "opens (cf_name f)"
  shows "\<exists>r. parse (cf_parser f) (cf_replace f) (case files (cf_name f) of Some c \<Rightarrow> c | None \<Rightarrow> []) = Ret r \<and>
    out (cf_name f) = Some (case r of Some c \<Rightarrow> c | None \<Rightarrow> (case files (cf_name f) of Some c \<Rightarrow> c | None \<Rightarrow> []))"
  using assms
proof (induction fs arbitrary: files)
  case (Cons g fs)
  show ?case
  proof (cases "opens (cf_name g)")
    case False
    then have "f \<noteq> g" "update_configuration_files opens parse fs files = Ret out" using Cons(2,5) by auto
    then show ?thesis using Cons(1) [of files] Cons(3-5) by auto
  next
    case True
    define old where "old = (case files (cf_name g) of Some c \<Rightarrow> c | None \<Rightarrow> [])"
    obtain r where r: "parse (cf_parser g) (cf_replace g) old = Ret r"
      "update_configuration_files opens parse fs (files(cf_name g \<mapsto> (case r of Some c \<Rightarrow> c | None \<Rightarrow> old))) = Ret out"
    proof -
      have "go_bind (parse (cf_parser g) (cf_replace g) old) (\<lambda>o'. update_configuration_files opens parse fs
          (files(cf_name g \<mapsto> (case o' of Some c \<Rightarrow> c | None \<Rightarrow> old)))) = Ret out"
        using Cons(2) True unfolding old_def by (simp add: Let_def)
      then show ?thesis using that by (auto simp: go_outcome)
    qed
    show ?thesis
    proof (cases "f = g")
      case True
      then have "out (cf_name g) = Some (case r of Some c \<Rightarrow> c | None \<Rightarrow> old)"
        using update_other_file [OF r(2), of "cf_name g"] Cons(3) by simp
      then show ?thesis using r(1) True unfolding old_def by blast
    next
      case False
      then have "cf_name f \<noteq> cf_name g" "f \<in> set fs" using Cons(3,4) by (auto simp: image_iff)
      then show ?thesis using Cons(1) [OF r(2)] Cons(3,5) by (auto cong: option.case_cong)
    qed
  qed
qed simp

text \<open>A port placeholder in a file of properties or text values resolves to the port of the server.\<close>

lemma server_port_placeholder:
  "lookup_configuration_value (plain_lookup (\<lambda>_. Inl True) (Some (server_get (build_server_data
       \<lparr>sb_ip = ''0.0.0.0'', sb_port = 25565, sb_memory = 1, sb_swap = 0, sb_cpu = 100, sb_disk = 9, sb_io_weight = 500\<rparr>))))
     \<lparr>rp_match = ''server-port'', rp_if_value = [], rp_with = RvString ''{{server.build.default.port}}''\<rparr> = Ret (Some ''25565'')"
  by code_simp

end
