(* ===== verification/Slime_Packs.thy ===== *)
theory Slime_Packs
  imports Go_Path Software_Version Blueprint
begin

text \<open>
  The plugin that serves resource packs in the version a client asks for (\<^verbatim>\<open>slimepacks\<close>): the table of pack
  formats, the releases of snapshots, the packs with their conversion and compression, and the update of
  the converter. Decoding JSON, the converter itself and the network are arguments.
\<close>

section \<open>Versions and formats\<close>

record pack_format =
  pf_format :: int
  pf_versions :: string

fun parse_pack_parts :: "string list \<Rightarrow> int list option" where
  "parse_pack_parts [] = Some []"
| "parse_pack_parts (p # ps) = (case atoi (trim_space p) of
     (_, Some _) \<Rightarrow> None
   | (n, None) \<Rightarrow> (case parse_pack_parts ps of None \<Rightarrow> None | Some ns \<Rightarrow> Some (n # ns)))"

definition parse_pack_version :: "string \<Rightarrow> int list option" where
  "parse_pack_version v = (let v = trim_space v in if v = [] then None else parse_pack_parts (split_on CHR ''.'' v))"

text \<open>\<^verbatim>\<open>compareVersions\<close>: a missing number is 0.\<close>

fun pack_compare :: "int list \<Rightarrow> int list \<Rightarrow> int" where
  "pack_compare [] [] = 0"
| "pack_compare (x # a) [] = (if x < 0 then - 1 else if x > 0 then 1 else pack_compare a [])"
| "pack_compare [] (y # b) = (if 0 < y then - 1 else if 0 > y then 1 else pack_compare [] b)"
| "pack_compare (x # a) (y # b) = (if x < y then - 1 else if x > y then 1 else pack_compare a b)"

text \<open>\<^verbatim>\<open>SplitN\<close> into two: what is before and after the first occurrence.\<close>

fun cut_at :: "string \<Rightarrow> string \<Rightarrow> (string \<times> string) option" where
  "cut_at sep [] = None"
| "cut_at sep (c # s) = (if has_prefix (c # s) sep then Some ([], drop (length sep) (c # s))
     else map_option (\<lambda>(a, b). (c # a, b)) (cut_at sep s))"

text \<open>The two separators of a range: the long dash, three bytes in UTF-8, and the hyphen.\<close>

definition long_dash :: string where
  "long_dash = [CHR 0xE2, CHR 0x80, CHR 0x93]"

definition range_bounds :: "string \<Rightarrow> string \<times> string" where
  "range_bounds s = (case cut_at long_dash s of
     Some b \<Rightarrow> b
   | None \<Rightarrow> (case cut_at ''-'' s of Some b \<Rightarrow> b | None \<Rightarrow> (s, s)))"

definition parse_version_range :: "string \<Rightarrow> (int list \<times> int list) option" where
  "parse_version_range s = (let s = trim_space s in
     if s = [] then None
     else case range_bounds s of (a, b) \<Rightarrow>
       (case parse_pack_version a of
          None \<Rightarrow> None
        | Some lower \<Rightarrow> (case parse_pack_version b of None \<Rightarrow> None | Some upper \<Rightarrow> Some (lower, upper))))"

text \<open>\<^verbatim>\<open>FindClosestPackFormat\<close>: the result of the loop is an exact match or the best so far.\<close>

fun closest_loop :: "int \<Rightarrow> pack_format list \<Rightarrow> pack_format option \<Rightarrow> pack_format option" where
  "closest_loop p [] best = best"
| "closest_loop p (e # es) best =
     (if pf_format e = p then Some e
      else closest_loop p es (if pf_format e \<ge> p \<and> (case best of None \<Rightarrow> True | Some b \<Rightarrow> pf_format e < pf_format b) then Some e else best))"

fun highest_loop :: "pack_format \<Rightarrow> pack_format list \<Rightarrow> pack_format" where
  "highest_loop h [] = h"
| "highest_loop h (e # es) = highest_loop (if pf_format e > pf_format h then e else h) es"

definition find_closest_pack_format :: "pack_format list \<Rightarrow> int \<Rightarrow> pack_format go" where
  "find_closest_pack_format table p = (case closest_loop p table None of
     Some e \<Rightarrow> Ret e
   | None \<Rightarrow> go_bind (go_index table 0) (\<lambda>h. Ret (highest_loop h table)))"

text \<open>\<open>None\<close> is an error of the lookups.\<close>

fun format_loop :: "int list \<Rightarrow> pack_format list \<Rightarrow> int option option" where
  "format_loop v [] = Some None"
| "format_loop v (e # es) = (case parse_version_range (pf_versions e) of
     None \<Rightarrow> None
   | Some (lower, upper) \<Rightarrow>
       (if pack_compare v lower < 0 \<or> pack_compare v upper > 0 then format_loop v es else Some (Some (pf_format e))))"

definition get_pack_format_from_version :: "pack_format list \<Rightarrow> string \<Rightarrow> int option" where
  "get_pack_format_from_version table version =
     (if table = [] then None
      else case parse_pack_version version of
        None \<Rightarrow> None
      | Some v \<Rightarrow> (case format_loop v table of
          None \<Rightarrow> None
        | Some (Some f) \<Rightarrow> Some f
        | Some None \<Rightarrow> Some (pf_format (last table))))"

definition get_version_range_from_pack_format :: "pack_format list \<Rightarrow> int \<Rightarrow> string option" where
  "get_version_range_from_pack_format table f = (case find (\<lambda>e. pf_format e = f) table of
     Some e \<Rightarrow> Some (pf_versions e)
   | None \<Rightarrow> (if table = [] then None else Some (pf_versions (last table))))"

definition extract_upper_bound :: "string \<Rightarrow> string" where
  "extract_upper_bound versions = (let versions = trim_space versions in
     case cut_at long_dash versions of
       Some (_, b) \<Rightarrow> trim_space b
     | None \<Rightarrow> (case cut_at ''-'' versions of Some (_, b) \<Rightarrow> trim_space b | None \<Rightarrow> versions))"

definition get_version_from_format :: "pack_format list \<Rightarrow> int \<Rightarrow> string option" where
  "get_version_from_format table f = (case find (\<lambda>e. pf_format e = f) table of
     Some e \<Rightarrow> Some (extract_upper_bound (pf_versions e))
   | None \<Rightarrow> (case table of [] \<Rightarrow> None | h # es \<Rightarrow> Some (extract_upper_bound (pf_versions (highest_loop h es)))))"

text \<open>The table of \<^verbatim>\<open>pack_formats.json\<close>.\<close>

definition pack_formats :: "pack_format list" where
  "pack_formats = (let r = (\<lambda>f a b. \<lparr>pf_format = f, pf_versions = a @ long_dash @ b\<rparr>); o1 = (\<lambda>f a. \<lparr>pf_format = f, pf_versions = a\<rparr>) in
     [r 1 ''1.6.1'' ''1.8.9'', r 2 ''1.9'' ''1.10.2'', r 3 ''1.11'' ''1.12.2'', r 4 ''1.13'' ''1.14.4'',
      r 5 ''1.15'' ''1.16.1'', r 6 ''1.16.2'' ''1.16.5'', r 7 ''1.17'' ''1.17.1'', r 8 ''1.18'' ''1.18.2'',
      r 9 ''1.19'' ''1.19.2'', o1 12 ''1.19.3'', o1 13 ''1.19.4'', r 15 ''1.20'' ''1.20.1'', o1 18 ''1.20.2'',
      r 22 ''1.20.3'' ''1.20.4'', r 32 ''1.20.5'' ''1.20.6'', r 34 ''1.21'' ''1.21.1'', r 42 ''1.21.2'' ''1.21.3'',
      o1 46 ''1.21.4'', o1 55 ''1.21.5'', o1 63 ''1.21.6'', r 64 ''1.21.7'' ''1.21.8'', r 69 ''1.21.9'' ''1.21.10''])"

subsection \<open>The two orders of versions agree\<close>

lemma compare_loop_shift: "compare_loop k (Suc i) (x # a) (y # b) = compare_loop k i a b"
  by (induction k arbitrary: i) (auto simp: Let_def)

lemma compare_loop_Nil1: "compare_loop k (Suc i) [] (y # b) = compare_loop k i [] b"
  by (induction k arbitrary: i) (auto simp: Let_def)

lemma compare_loop_Nil2: "compare_loop k (Suc i) (x # a) [] = compare_loop k i a []"
  by (induction k arbitrary: i) (auto simp: Let_def)

lemma pack_compare_versions: "pack_compare a b = compare_versions a b"
proof -
  have "pack_compare a b = compare_loop (max (length a) (length b)) 0 a b"
    by (induction a b rule: pack_compare.induct)
      (simp_all add: Let_def compare_loop_shift compare_loop_Nil1 compare_loop_Nil2)
  moreover have "max (length a) (length b) = (if length b > length a then length b else length a)" by simp
  ultimately show ?thesis by (simp add: compare_versions_def)
qed


subsection \<open>The table\<close>

text \<open>A table is ordered when its formats grow and every range is behind the one before it.\<close>

definition range_before :: "pack_format \<Rightarrow> pack_format \<Rightarrow> bool" where
  "range_before d e \<longleftrightarrow> pf_format d < pf_format e \<and>
     (case (parse_version_range (pf_versions d), parse_version_range (pf_versions e)) of
        (Some (_, hi), Some (lo, _)) \<Rightarrow> pack_compare hi lo < 0 | _ \<Rightarrow> False)"

definition range_ok :: "pack_format \<Rightarrow> bool" where
  "range_ok e \<longleftrightarrow> (case parse_version_range (pf_versions e) of Some (lo, hi) \<Rightarrow> pack_compare lo hi \<le> 0 | None \<Rightarrow> False)"

definition table_ordered :: "pack_format list \<Rightarrow> bool" where
  "table_ordered t \<longleftrightarrow> list_all range_ok t \<and> sorted_wrt range_before t"

definition in_range :: "int list \<Rightarrow> pack_format \<Rightarrow> bool" where
  "in_range v e \<longleftrightarrow> (case parse_version_range (pf_versions e) of
     Some (lo, hi) \<Rightarrow> pack_compare lo v \<le> 0 \<and> pack_compare v hi \<le> 0 | None \<Rightarrow> False)"

lemma shipped_table_ordered: "table_ordered pack_formats"
  by code_simp

lemma pack_compare_swap: "pack_compare b a = - pack_compare a b"
  using compare_versions_total_order [of b a] unfolding pack_compare_versions by blast

lemma pack_compare_trans: "pack_compare a b \<le> 0 \<Longrightarrow> pack_compare b c \<le> 0 \<Longrightarrow> pack_compare a c \<le> 0"
  using compare_versions_total_order [of b a c] unfolding pack_compare_versions by blast

lemma pack_compare_refl: "pack_compare a a = 0"
  using pack_compare_swap [of a a] by simp

lemma parse_trimmed: "parse_pack_version (trim_space s) = parse_pack_version s"
  by (simp add: parse_pack_version_def Let_def)

lemma format_loop_skip:
  "\<forall>d \<in> set xs. range_ok d \<and> \<not> in_range v d \<Longrightarrow> format_loop v (xs @ ys) = format_loop v ys"
proof (induction xs)
  case (Cons d xs)
  then obtain lo hi where d: "parse_version_range (pf_versions d) = Some (lo, hi)" by (auto simp: range_ok_def split: option.splits)
  have "\<not> (pack_compare lo v \<le> 0 \<and> pack_compare v hi \<le> 0)" using Cons(2) d by (simp add: in_range_def)
  then have "pack_compare v lo < 0 \<or> pack_compare v hi > 0" using pack_compare_swap [of v lo] by linarith
  then show ?case using Cons d by simp
qed simp

lemma format_loop_here: "in_range v e \<Longrightarrow> format_loop v (e # es) = Some (Some (pf_format e))"
  using pack_compare_swap [of v] by (fastforce simp: in_range_def split: option.splits)

lemma before_not_in_range:
  assumes "range_before d e" "in_range v e"
  shows "\<not> in_range v d"
proof
  assume d: "in_range v d"
  obtain lo hi lo' hi' where r: "parse_version_range (pf_versions d) = Some (lo', hi')" "parse_version_range (pf_versions e) = Some (lo, hi)"
    using d assms(2) by (auto simp: in_range_def split: option.splits)
  then have "pack_compare lo v \<le> 0" "pack_compare v hi' \<le> 0" "pack_compare hi' lo < 0"
    using d assms by (auto simp: in_range_def range_before_def)
  then show False using pack_compare_trans [of lo v hi'] pack_compare_swap [of lo hi'] by simp
qed

lemma format_loop_in:
  assumes "table_ordered t" "e \<in> set t" "in_range v e"
  shows "format_loop v t = Some (Some (pf_format e))"
proof -
  obtain xs ys where t: "t = xs @ e # ys" using assms(2) by (meson split_list)
  have "\<forall>d \<in> set xs. range_ok d \<and> \<not> in_range v d"
    using assms(1,3) before_not_in_range unfolding t table_ordered_def by (auto simp: sorted_wrt_append list_all_iff)
  then show ?thesis using format_loop_skip format_loop_here [OF assms(3)] unfolding t by metis
qed

lemma table_find:
  assumes "table_ordered t" "e \<in> set t"
  shows "find (\<lambda>d. pf_format d = pf_format e) t = Some e"
proof -
  obtain xs ys where t: "t = xs @ e # ys" using assms(2) by (meson split_list)
  have "\<forall>d \<in> set xs. pf_format d \<noteq> pf_format e"
    using assms(1) unfolding t table_ordered_def by (force simp: sorted_wrt_append range_before_def)
  then show ?thesis unfolding t by (induction xs) auto
qed

lemma upper_bound_in_range:
  assumes "range_ok e"
  shows "\<exists>n. parse_pack_version (extract_upper_bound (pf_versions e)) = Some n \<and> in_range n e"
proof -
  obtain lo hi where r: "parse_version_range (pf_versions e) = Some (lo, hi)" "pack_compare lo hi \<le> 0"
    using assms by (auto simp: range_ok_def split: option.splits)
  have "parse_pack_version (extract_upper_bound (pf_versions e)) = Some hi"
    using r(1) by (auto simp: parse_version_range_def range_bounds_def extract_upper_bound_def Let_def parse_trimmed
        split: option.splits if_splits prod.splits)
  then show ?thesis using r pack_compare_refl [of hi] by (auto simp: in_range_def)
qed

text \<open>
  Over an ordered table a version within the range of a format gets that format, one within none gets
  the newest, and the version and the range given for a format lead back to it, so a pack is converted
  between formats and not only between versions.
\<close>

theorem pack_format_exact:
  assumes "table_ordered t" "e \<in> set t" "parse_pack_version version = Some n"
  shows "get_pack_format_from_version t version =
      Some (case find (in_range n) t of Some d \<Rightarrow> pf_format d | None \<Rightarrow> Max (pf_format ` set t)) \<and>
    (in_range n e \<longrightarrow> get_pack_format_from_version t version = Some (pf_format e)) \<and>
    (\<exists>u. get_version_from_format t (pf_format e) = Some u \<and> get_pack_format_from_version t u = Some (pf_format e)) \<and>
    get_version_range_from_pack_format t (pf_format e) = Some (pf_versions e)"
proof (intro conjI impI)
  have t: "t \<noteq> []" using assms(2) by auto
  have at: "get_pack_format_from_version t w = Some (pf_format d)"
    if "parse_pack_version w = Some m" "d \<in> set t" "in_range m d" for w m d
    using format_loop_in [OF assms(1) that(2,3)] that(1) t by (simp add: get_pack_format_from_version_def)
  have newest: "Max (pf_format ` set t) = pf_format (last t)"
  proof (rule Max_eqI)
    fix f assume "f \<in> pf_format ` set t"
    then obtain d where d: "d \<in> set t" "f = pf_format d" by blast
    have t': "t = butlast t @ [last t]" using t by simp
    have "\<forall>x \<in> set (butlast t). pf_format x < pf_format (last t)"
      using assms(1) unfolding table_ordered_def by (subst (asm) (2) t') (auto simp: sorted_wrt_append range_before_def)
    then show "f \<le> pf_format (last t)" using d t' by (metis Un_iff empty_iff empty_set order.order_iff_strict set_ConsD set_append)
  qed (use t in auto)
  show "get_pack_format_from_version t version =
      Some (case find (in_range n) t of Some d \<Rightarrow> pf_format d | None \<Rightarrow> Max (pf_format ` set t))"
  proof (cases "find (in_range n) t")
    case None
    then have "\<forall>d \<in> set t. range_ok d \<and> \<not> in_range n d"
      using assms(1) by (auto simp: find_None_iff table_ordered_def list_all_iff)
    then have "format_loop n t = Some None" using format_loop_skip [of t n "[]"] by simp
    then show ?thesis using None assms(3) t newest by (simp add: get_pack_format_from_version_def)
  next
    case (Some d)
    then have "d \<in> set t" "in_range n d" by (auto simp: find_Some_iff)
    then show ?thesis using Some at assms(3) by simp
  qed
  show "get_pack_format_from_version t version = Some (pf_format e)" if "in_range n e" using at assms that by blast
  obtain m where "parse_pack_version (extract_upper_bound (pf_versions e)) = Some m" "in_range m e"
    using upper_bound_in_range assms(1,2) by (auto simp: table_ordered_def list_all_iff)
  then show "\<exists>u. get_version_from_format t (pf_format e) = Some u \<and> get_pack_format_from_version t u = Some (pf_format e)"
    using at assms(2) table_find [OF assms(1,2)] by (simp add: get_version_from_format_def)
  show "get_version_range_from_pack_format t (pf_format e) = Some (pf_versions e)"
    using table_find [OF assms(1,2)] by (simp add: get_version_range_from_pack_format_def)
qed

lemma pack_format_exact_witness:
  "get_pack_format_from_version pack_formats ''1.20.2'' = Some 18 \<and>
   get_version_range_from_pack_format pack_formats 18 = Some ''1.20.2''"
proof -
  have "\<lparr>pf_format = 18, pf_versions = ''1.20.2''\<rparr> \<in> set pack_formats"
    "parse_pack_version ''1.20.2'' = Some [1, 20, 2]" "in_range [1, 20, 2] \<lparr>pf_format = 18, pf_versions = ''1.20.2''\<rparr>"
    by code_simp+
  with shipped_table_ordered have "get_pack_format_from_version pack_formats ''1.20.2'' = Some (pf_format \<lparr>pf_format = 18, pf_versions = ''1.20.2''\<rparr>) \<and>
    get_version_range_from_pack_format pack_formats (pf_format \<lparr>pf_format = 18, pf_versions = ''1.20.2''\<rparr>) =
      Some (pf_versions \<lparr>pf_format = 18, pf_versions = ''1.20.2''\<rparr>)"
    using pack_format_exact [of pack_formats "\<lparr>pf_format = 18, pf_versions = ''1.20.2''\<rparr>" "''1.20.2''" "[1, 20, 2]"] by blast
  then show ?thesis by simp
qed

text \<open>The closest format is the least one that is not smaller, or the greatest of all.\<close>

lemma closest_loop_spec:
  assumes "\<forall>b. best = Some b \<longrightarrow> pf_format b > p"
  shows "case closest_loop p t best of
      None \<Rightarrow> best = None \<and> (\<forall>e \<in> set t. pf_format e < p)
    | Some r \<Rightarrow> (r \<in> set t \<or> best = Some r) \<and> pf_format r \<ge> p \<and>
        (\<forall>e. e \<in> set t \<or> best = Some e \<longrightarrow> pf_format e \<ge> p \<longrightarrow> pf_format r \<le> pf_format e)"
  using assms
proof (induction t arbitrary: best)
  case Nil
  then show ?case by (auto split: option.split intro: less_imp_le)
next
  case (Cons e t)
  show ?case
  proof (cases "pf_format e = p")
    case True
    then show ?thesis by simp
  next
    case False
    define best' where "best' = (if pf_format e \<ge> p \<and> (case best of None \<Rightarrow> True | Some b \<Rightarrow> pf_format e < pf_format b) then Some e else best)"
    have b: "\<forall>b. best' = Some b \<longrightarrow> pf_format b > p" using Cons(2) False by (auto simp: best'_def)
    have c: "closest_loop p (e # t) best = closest_loop p t best'" using False by (simp add: best'_def)
    have best': "best' = None \<longleftrightarrow> best = None \<and> pf_format e < p"
      by (auto simp: best'_def split: option.splits if_splits)
    show ?thesis
    proof (cases "closest_loop p t best'")
      case None
      then show ?thesis using Cons(1) [OF b] c best' by auto
    next
      case (Some r)
      then have r: "r \<in> set t \<or> best' = Some r" "pf_format r \<ge> p"
        "\<forall>d. d \<in> set t \<or> best' = Some d \<longrightarrow> pf_format d \<ge> p \<longrightarrow> pf_format r \<le> pf_format d"
        using Cons(1) [OF b] by auto
      have "r \<in> set (e # t) \<or> best = Some r" using r(1) by (auto simp: best'_def split: if_splits)
      moreover have "pf_format r \<le> pf_format d" if d: "d \<in> set (e # t) \<or> best = Some d" "pf_format d \<ge> p" for d
      proof (cases "d \<in> set t \<or> best' = Some d")
        case False
        then obtain x where "best' = Some x" "pf_format x \<le> pf_format d"
          using d by (auto simp: best'_def split: option.splits if_splits)
        then show ?thesis using r(3) b by fastforce
      qed (use r(3) d in blast)
      ultimately show ?thesis using Some c r(2) by auto
    qed
  qed
qed

lemma highest_loop_spec: "highest_loop h t \<in> insert h (set t) \<and> (\<forall>e \<in> insert h (set t). pf_format e \<le> pf_format (highest_loop h t))"
proof (induction t arbitrary: h)
  case (Cons e t)
  have "(if pf_format e > pf_format h then e else h) \<in> {h, e}" "pf_format h \<le> pf_format (if pf_format e > pf_format h then e else h)"
    "pf_format e \<le> pf_format (if pf_format e > pf_format h then e else h)" by auto
  then show ?case using Cons [of "if pf_format e > pf_format h then e else h"] by (simp del: not_less) (smt (verit) insert_iff)
qed simp

lemma closest_format:
  assumes "t \<noteq> []"
  shows "\<exists>r. find_closest_pack_format t p = Ret r \<and> r \<in> set t \<and>
    (if \<exists>e \<in> set t. pf_format e \<ge> p then pf_format r \<ge> p \<and> (\<forall>e \<in> set t. pf_format e \<ge> p \<longrightarrow> pf_format r \<le> pf_format e)
     else \<forall>e \<in> set t. pf_format e \<le> pf_format r)"
proof (cases "closest_loop p t None")
  case None
  obtain h t' where t: "t = h # t'" using assms by (cases t) auto
  have "find_closest_pack_format t p = Ret (highest_loop h t)" using None t by (simp add: find_closest_pack_format_def go_index_def)
  moreover have "\<forall>e \<in> set t. \<not> pf_format e \<ge> p" using closest_loop_spec [of None p t] None by auto
  ultimately show ?thesis using highest_loop_spec [of h t] t by auto
next
  case (Some r)
  then have "r \<in> set t" "pf_format r \<ge> p" "\<forall>e \<in> set t. pf_format e \<ge> p \<longrightarrow> pf_format r \<le> pf_format e"
    using closest_loop_spec [of None p t] by auto
  then show ?thesis using Some by (auto simp: find_closest_pack_format_def)
qed

lemma closest_of_empty_panics: "find_closest_pack_format [] p = Panic"
  by (simp add: find_closest_pack_format_def go_index_def)


section \<open>Snapshots\<close>

text \<open>
  The releases of snapshots, from the manifest with its newest version first: a version that is no release
  belongs to the release that was last seen.
\<close>

fun snapshot_loop :: "string \<Rightarrow> (string \<times> string) list \<Rightarrow> (string, string) gomap \<Rightarrow> (string, string) gomap" where
  "snapshot_loop cur [] m = m"
| "snapshot_loop cur ((vid, kind) # es) m =
     (if kind = ''release'' then snapshot_loop vid es m
      else if cur = [] then snapshot_loop cur es m
      else snapshot_loop cur es (gm_set m vid cur))"

text \<open>\<^verbatim>\<open>FetchSnapshotMappings\<close>: \<open>answer\<close> is the status with the decoded manifest, or no answer at all.\<close>

definition fetch_snapshot_mappings :: "(int \<times> (string \<times> string) list option) option \<Rightarrow> (string, string) gomap option" where
  "fetch_snapshot_mappings answer = (case answer of
     None \<Rightarrow> None
   | Some (status, manifest) \<Rightarrow> (if status \<noteq> 200 then None else map_option (\<lambda>es. snapshot_loop [] es []) manifest))"

lemma snapshot_loop_other: "\<forall>e \<in> set es. fst e \<noteq> s \<Longrightarrow> gm_get (snapshot_loop cur es m) s = gm_get m s"
  by (induction cur es m rule: snapshot_loop.induct) auto

lemma snapshot_loop_append: "\<forall>e \<in> set xs. snd e = ''release'' \<longrightarrow> fst e \<noteq> [] \<Longrightarrow>
    \<exists>m'. snapshot_loop cur (xs @ ys) m =
      snapshot_loop (case filter (\<lambda>e. snd e = ''release'') (rev xs) of [] \<Rightarrow> cur | (r, _) # _ \<Rightarrow> r) ys m'"
proof (induction xs arbitrary: cur m)
  case (Cons e xs)
  define last_release where "last_release = (\<lambda>cur (rs :: (string \<times> string) list). case rs of [] \<Rightarrow> cur | (r, _) # _ \<Rightarrow> r)"
  have h: "last_release cur (rs @ [e]) = last_release (fst e) rs" for rs :: "(string \<times> string) list"
    by (cases rs; cases e) (auto simp: last_release_def)
  obtain v k where e: "e = (v, k)" by (cases e)
  have IH: "\<exists>m'. snapshot_loop cur (xs @ ys) m = snapshot_loop (last_release cur (filter (\<lambda>e. snd e = ''release'') (rev xs))) ys m'" for cur m
    using Cons(1) Cons(2) by (simp add: last_release_def)
  have "\<exists>m'. snapshot_loop cur ((e # xs) @ ys) m = snapshot_loop (last_release cur (filter (\<lambda>e. snd e = ''release'') (rev (e # xs)))) ys m'"
  proof (cases "k = ''release''")
    case True
    then show ?thesis using IH [of v m] h e by simp
  next
    case False
    then show ?thesis using IH [of cur m] IH [of cur "gm_set m v cur"] e by (cases "cur = []") simp_all
  qed
  then show ?case unfolding last_release_def .
qed auto

text \<open>A snapshot of the manifest belongs to the release that comes before it, the oldest one that is newer.\<close>

lemma snapshot_release:
  assumes "distinct (map fst es)" "es = xs @ (s, kind) # ys" "kind \<noteq> ''release''"
    "filter (\<lambda>e. snd e = ''release'') (rev xs) = (r, k) # rs" "\<forall>e \<in> set xs. snd e = ''release'' \<longrightarrow> fst e \<noteq> []"
  shows "gm_get (snapshot_loop [] es []) s = Some r"
proof -
  obtain m where m: "snapshot_loop [] es [] = snapshot_loop r ((s, kind) # ys) m"
    using snapshot_loop_append [OF assms(5), of "[]" "(s, kind) # ys" "[]"] assms(2,4) by auto
  have "r \<noteq> []"
  proof -
    have "(r, k) \<in> set (filter (\<lambda>e. snd e = ''release'') (rev xs))" using assms(4) by simp
    then show ?thesis using assms(5) by auto
  qed
  moreover have "s \<notin> fst ` set ys" using assms(1) unfolding assms(2) by simp
  then have "\<forall>e \<in> set ys. fst e \<noteq> s" by blast
  ultimately show ?thesis using assms(3) snapshot_loop_other [of ys s] unfolding m by simp
qed

section \<open>Files\<close>

text \<open>What is at a path: a file with its bytes, one that cannot be opened, or a directory in the order of its names.\<close>

datatype pnode = PFile string | PUnreadable | PDir pdir
and pdir = DNil | DCons string pnode pdir

definition child_path :: "string \<Rightarrow> string \<Rightarrow> string" where
  "child_path rel n = (if rel = [] then n else rel @ ''/'' @ n)"

text \<open>
  The entries of an archive, a directory with a slash and no content; \<open>False\<close> is that a file could not be
  opened, whose entry is then the last.
\<close>

type_synonym zip = "(string \<times> string option) list"

primrec zip_node :: "string \<Rightarrow> pnode \<Rightarrow> zip \<times> bool"
  and zip_dir :: "string \<Rightarrow> pdir \<Rightarrow> zip \<times> bool" where
  "zip_node rel (PFile c) = ([(rel, Some c)], True)"
| "zip_node rel PUnreadable = ([(rel, Some [])], False)"
| "zip_node rel (PDir d) = (case zip_dir rel d of (out, ok) \<Rightarrow> ((rel @ ''/'', None) # out, ok))"
| "zip_dir rel DNil = ([], True)"
| "zip_dir rel (DCons n t d) = (case zip_node (child_path rel n) t of
     (out, ok) \<Rightarrow> (if \<not> ok then (out, False) else (case zip_dir rel d of (rest, ok) \<Rightarrow> (out @ rest, ok))))"

primrec dir_get :: "pdir \<Rightarrow> string \<Rightarrow> pnode option" where
  "dir_get DNil m = None"
| "dir_get (DCons n t d) m = (if n = m then Some t else dir_get d m)"

fun node_at :: "pnode \<Rightarrow> string list \<Rightarrow> pnode option" where
  "node_at t [] = Some t"
| "node_at (PDir d) (n # ns) = (case dir_get d n of None \<Rightarrow> None | Some t \<Rightarrow> node_at t ns)"
| "node_at t (n # ns) = None"

primrec names_ok :: "pnode \<Rightarrow> bool" and dir_names_ok :: "pdir \<Rightarrow> bool" where
  "names_ok (PFile c) = True"
| "names_ok PUnreadable = True"
| "names_ok (PDir d) = dir_names_ok d"
| "dir_names_ok DNil = True"
| "dir_names_ok (DCons n t d) = (n \<noteq> [] \<and> dir_get d n = None \<and> names_ok t \<and> dir_names_ok d)"

text \<open>The path of an entry below \<open>rel\<close>.\<close>

fun entry_path :: "string \<Rightarrow> string list \<Rightarrow> string" where
  "entry_path rel [] = rel"
| "entry_path rel (n # ns) = entry_path (child_path rel n) ns"

definition entries_of :: "string \<Rightarrow> pnode \<Rightarrow> (string \<times> string option) set" where
  "entries_of rel t = {(entry_path rel ns, Some c) |ns c. node_at t ns = Some (PFile c)} \<union>
     {(entry_path rel ns @ ''/'', None) |ns d. node_at t ns = Some (PDir d)}"

lemma entries_of_File: "entries_of rel (PFile c) = {(rel, Some c)}"
proof -
  have "node_at (PFile c) ns = (if ns = [] then Some (PFile c) else None)" for ns by (cases ns) auto
  then show ?thesis by (auto simp: entries_of_def split: if_splits)
qed

lemma entries_of_Dir:
  "entries_of rel (PDir d) = insert (rel @ ''/'', None) (\<Union>n. case dir_get d n of None \<Rightarrow> {} | Some t \<Rightarrow> entries_of (child_path rel n) t)"
proof (rule set_eqI, rule iffI)
  fix x assume "x \<in> entries_of rel (PDir d)"
  then obtain ns t where x: "node_at (PDir d) ns = Some t"
    "(\<exists>c. t = PFile c \<and> x = (entry_path rel ns, Some c)) \<or> (\<exists>e. t = PDir e \<and> x = (entry_path rel ns @ ''/'', None))"
    by (auto simp: entries_of_def)
  show "x \<in> insert (rel @ ''/'', None) (\<Union>n. case dir_get d n of None \<Rightarrow> {} | Some t \<Rightarrow> entries_of (child_path rel n) t)"
  proof (cases ns)
    case Nil
    then show ?thesis using x by auto
  next
    case (Cons n ms)
    then obtain u where u: "dir_get d n = Some u" "node_at u ms = Some t" using x(1) by (auto split: option.splits)
    then have "x \<in> entries_of (child_path rel n) u" using x(2) Cons by (auto simp: entries_of_def)
    then show ?thesis using u(1) by (auto intro!: exI [of _ n])
  qed
next
  fix x assume "x \<in> insert (rel @ ''/'', None) (\<Union>n. case dir_get d n of None \<Rightarrow> {} | Some t \<Rightarrow> entries_of (child_path rel n) t)"
  then consider "x = (rel @ ''/'', None)" | n t where "dir_get d n = Some t" "x \<in> entries_of (child_path rel n) t"
    by (auto split: option.splits)
  then show "x \<in> entries_of rel (PDir d)"
  proof cases
    case 1
    have "node_at (PDir d) [] = Some (PDir d)" "x = (entry_path rel [] @ ''/'', None)" using 1 by simp_all
    then show ?thesis unfolding entries_of_def by blast
  next
    case (2 n t)
    then obtain ns u where u: "node_at t ns = Some u"
      "(\<exists>c. u = PFile c \<and> x = (entry_path (child_path rel n) ns, Some c)) \<or>
       (\<exists>e. u = PDir e \<and> x = (entry_path (child_path rel n) ns @ ''/'', None))"
      by (auto simp: entries_of_def)
    then have "node_at (PDir d) (n # ns) = Some u" using 2(1) by simp
    moreover have "(\<exists>c. u = PFile c \<and> x = (entry_path rel (n # ns), Some c)) \<or> (\<exists>e. u = PDir e \<and> x = (entry_path rel (n # ns) @ ''/'', None))"
      using u(2) by simp
    ultimately show ?thesis unfolding entries_of_def by blast
  qed
qed


lemma dir_get_none: "dir_names_ok (DCons n t d) \<Longrightarrow>
    (\<Union>m. case dir_get (DCons n t d) m of None \<Rightarrow> {} | Some u \<Rightarrow> E m u) =
    E n t \<union> (\<Union>m. case dir_get d m of None \<Rightarrow> {} | Some u \<Rightarrow> E m u)"
proof -
  define F where "F = (\<lambda>m. case dir_get d m of None \<Rightarrow> {} | Some u \<Rightarrow> E m u)"
  assume "dir_names_ok (DCons n t d)"
  then have "F n = {}" by (simp add: F_def)
  have "x \<in> (\<Union>m. if m = n then E n t else F m) \<longleftrightarrow> x \<in> E n t \<union> (\<Union>m. F m)" for x
    using \<open>F n = {}\<close> unfolding UN_iff Un_iff by (metis UNIV_I empty_iff)
  then have "(\<Union>m. if m = n then E n t else F m) = E n t \<union> (\<Union>m. F m)" by blast
  moreover have "(case dir_get (DCons n t d) m of None \<Rightarrow> {} | Some u \<Rightarrow> E m u) = (if m = n then E n t else F m)" for m
    by (simp add: F_def)
  ultimately show ?thesis by (simp add: F_def)
qed

text \<open>An archive that was written to the end has exactly the files of the tree with their contents, and its directories.\<close>

lemma zip_entries:
  "names_ok t \<Longrightarrow> snd (zip_node rel t) \<Longrightarrow> set (fst (zip_node rel t)) = entries_of rel t"
  "dir_names_ok d \<Longrightarrow> snd (zip_dir rel d) \<Longrightarrow>
     set (fst (zip_dir rel d)) = (\<Union>n. case dir_get d n of None \<Rightarrow> {} | Some t \<Rightarrow> entries_of (child_path rel n) t)"
proof (induction t and d arbitrary: rel and rel)
  case (PFile c)
  then show ?case by (simp add: entries_of_File)
next
  case (PDir d)
  obtain out ok where z: "zip_dir rel d = (out, ok)" by (metis surj_pair)
  then have "set out = (\<Union>n. case dir_get d n of None \<Rightarrow> {} | Some t \<Rightarrow> entries_of (child_path rel n) t)"
    using PDir(1) [of rel] PDir(2,3) by simp
  then show ?case using z by (simp add: entries_of_Dir)
next
  case (DCons n t d)
  obtain o1 k1 o2 k2 where z: "zip_node (child_path rel n) t = (o1, k1)" "zip_dir rel d = (o2, k2)"
    by (metis surj_pair)
  have k: "k1" "k2" using DCons(4) z by (auto split: if_splits)
  have "set o1 = entries_of (child_path rel n) t" using DCons(1) [of "child_path rel n"] DCons(3) z k by simp
  moreover have "set o2 = (\<Union>n. case dir_get d n of None \<Rightarrow> {} | Some t \<Rightarrow> entries_of (child_path rel n) t)"
    using DCons(2) [of rel] DCons(3) z k by simp
  moreover have "fst (zip_dir rel (DCons n t d)) = o1 @ o2" using z k by simp
  ultimately show ?case using dir_get_none [OF DCons(3), of "\<lambda>m u. entries_of (child_path rel m) u"] by simp
qed simp_all

section \<open>Packs\<close>

text \<open>
  What the plugin has: the releases of snapshots behind a pointer, the format of a pack, which is cached in
  one variable for all packs, and the files and the archives by their paths.
\<close>

record pack_world =
  pw_snapshots :: "(string, string) gomap option"
  pw_format :: int
  pw_tree :: "string \<Rightarrow> pnode option"
  pw_zips :: "string \<Rightarrow> zip option"

record pack =
  pk_id :: string
  pk_source :: string
  pk_formats :: "pack_format list"

text \<open>
  What it runs on: its two directories, the file system, the format in a \<^verbatim>\<open>pack.mcmeta\<close>, and the converter,
  which says whether it succeeded and leaves a converted tree behind or not.
\<close>

record pack_env =
  pe_root :: string
  pe_conversions :: string
  pe_stat_fails :: "string \<Rightarrow> bool"
  pe_mkdir_ok :: "string \<Rightarrow> bool"
  pe_create_ok :: "string \<Rightarrow> bool"
  pe_meta :: "string \<Rightarrow> int option"
  pe_java :: "string \<Rightarrow> string \<Rightarrow> pnode option \<Rightarrow> bool \<times> pnode option"

definition pack_file_exists :: "pack_env \<Rightarrow> pack_world \<Rightarrow> string \<Rightarrow> bool option" where
  "pack_file_exists e w p = (if pe_stat_fails e p then None else Some (pw_tree w p \<noteq> None \<or> pw_zips w p \<noteq> None))"

text \<open>\<^verbatim>\<open>IsDir\<close> does not look at the error of the call that fills what it reads.\<close>

definition pack_is_dir :: "pack_env \<Rightarrow> pack_world \<Rightarrow> string \<Rightarrow> bool go" where
  "pack_is_dir e w p = (if pe_stat_fails e p then Panic
     else case pw_tree w p of
       Some (PDir _) \<Rightarrow> Ret True
     | Some _ \<Rightarrow> Ret False
     | None \<Rightarrow> (if pw_zips w p \<noteq> None then Ret False else Panic))"

definition compress_contents :: "pack_env \<Rightarrow> string \<Rightarrow> string \<Rightarrow> string \<Rightarrow> pack_world \<Rightarrow> (bool \<times> pack_world) go" where
  "compress_contents e source out n w = go_bind (pack_is_dir e w source) (\<lambda>dir.
     if \<not> dir \<or> \<not> pe_mkdir_ok e out then Ret (False, w)
     else let n = (if has_suffix n ''.zip'' then n else n @ ''.zip''); path = path_join [out, n]
       in if \<not> pe_create_ok e path then Ret (False, w)
          else case pw_tree w source of
            Some (PDir d) \<Rightarrow> (case zip_dir [] d of (entries, ok) \<Rightarrow> Ret (ok, w\<lparr>pw_zips := (pw_zips w)(path \<mapsto> entries)\<rparr>))
          | _ \<Rightarrow> Ret (False, w))"

text \<open>\<^verbatim>\<open>os.Rename\<close> of a directory: onto nothing or onto an empty directory.\<close>

definition rename_directory :: "string \<Rightarrow> string \<Rightarrow> pack_world \<Rightarrow> (string \<times> pack_world) option" where
  "rename_directory p n w = (let q = path_join [path_dir p, n] in
     if (pw_tree w q \<noteq> None \<and> pw_tree w q \<noteq> Some (PDir DNil)) \<or> pw_zips w q \<noteq> None then None
     else Some (q, w\<lparr>pw_tree := (pw_tree w)(p := None, q := pw_tree w p)\<rparr>))"

definition delete_directory :: "string \<Rightarrow> pack_world \<Rightarrow> pack_world" where
  "delete_directory p w = (case pw_tree w p of Some (PDir _) \<Rightarrow> w\<lparr>pw_tree := (pw_tree w)(p := None)\<rparr> | _ \<Rightarrow> w)"

text \<open>
  \<^verbatim>\<open>Convert\<close>: where the converter leaves no directory behind, the error that is wrapped is none, so that this
  succeeds.
\<close>

definition convert_pack :: "pack_env \<Rightarrow> string \<Rightarrow> string \<Rightarrow> string \<Rightarrow> string \<Rightarrow> string \<Rightarrow> string \<Rightarrow> pack_world \<Rightarrow> (bool \<times> pack_world) go" where
  "convert_pack e root source out from to rng w = go_bind (pack_is_dir e w source) (\<lambda>dir.
     if \<not> dir then Ret (False, w)
     else let (ok, made) = pe_java e from to (pw_tree w source); c = path_join [root, ''pack_converted''];
              w = (case made of None \<Rightarrow> w | Some t \<Rightarrow> w\<lparr>pw_tree := (pw_tree w)(c \<mapsto> t)\<rparr>)
       in if \<not> ok then Ret (False, w)
          else if pe_stat_fails e c \<or> \<not> (\<exists>d. pw_tree w c = Some (PDir d)) then Ret (True, w)
          else let n = path_base root @ ''='' @ rng in
            case rename_directory c n w of
              None \<Rightarrow> Ret (False, w)
            | Some (q, w) \<Rightarrow> go_bind (compress_contents e q out n w) (\<lambda>(ok, w).
                if \<not> ok then Ret (False, w) else Ret (True, delete_directory q w)))"

definition get_source_dir :: "pack_env \<Rightarrow> pack_world \<Rightarrow> pack \<Rightarrow> string option" where
  "get_source_dir e w p = (let d = path_join [pe_root e, pk_id p, ''pack''] in
     case pack_file_exists e w d of None \<Rightarrow> None | Some _ \<Rightarrow> Some d)"

definition get_root_dir :: "pack_env \<Rightarrow> pack_world \<Rightarrow> pack \<Rightarrow> string option" where
  "get_root_dir e w p = (let d = path_join [pe_root e, pk_id p] in
     case pack_file_exists e w d of None \<Rightarrow> None | Some _ \<Rightarrow> Some d)"

definition get_pack_format :: "pack_env \<Rightarrow> pack \<Rightarrow> pack_world \<Rightarrow> (int option \<times> pack_world) go" where
  "get_pack_format e p w =
     (if pw_format w \<noteq> -1 then Ret (Some (pw_format w), w)
      else case get_source_dir e w p of
        None \<Rightarrow> Ret (None, w)
      | Some source \<Rightarrow> (case pe_meta e (path_join [source, ''pack.mcmeta'']) of
          None \<Rightarrow> Ret (None, w)
        | Some m \<Rightarrow> go_bind (find_closest_pack_format (pk_formats p) m) (\<lambda>f.
            Ret (Some (pf_format f), w\<lparr>pw_format := pf_format f\<rparr>))))"

definition release_version :: "(string, string) gomap \<Rightarrow> string \<Rightarrow> string" where
  "release_version s v = (case gm_get s v of Some r \<Rightarrow> r | None \<Rightarrow> v)"

text \<open>The archive of a range of versions, made with \<open>mk\<close> where it is not there.\<close>

definition served :: "pack_env \<Rightarrow> string \<Rightarrow> (pack_world \<Rightarrow> (bool \<times> pack_world) go) \<Rightarrow> pack_world \<Rightarrow> (string option \<times> pack_world) go" where
  "served e path mk w =
     (if pack_file_exists e w path = Some True then Ret (Some path, w)
      else go_bind (mk w) (\<lambda>(ok, w). Ret (if ok then Some path else None, w)))"

text \<open>
  \<^verbatim>\<open>GetVersion\<close>; \<open>None\<close> is its error. Reading the releases through the pointer panics where it is nil. The
  error for a version that is no version is dropped, and the format is then 0.
\<close>

definition get_version :: "pack_env \<Rightarrow> pack \<Rightarrow> string \<Rightarrow> pack_world \<Rightarrow> (string option \<times> pack_world) go" where
  "get_version e p version w = (case pw_snapshots w of
     None \<Rightarrow> Panic
   | Some s \<Rightarrow> go_bind (get_pack_format e p w) (\<lambda>(format, w).
       case format of None \<Rightarrow> Ret (None, w) | Some format \<Rightarrow>
       (case (get_root_dir e w p, get_source_dir e w p) of
          (Some root, Some source) \<Rightarrow>
            (let usr = (case get_pack_format_from_version (pk_formats p) (release_version s version) of Some f \<Rightarrow> f | None \<Rightarrow> 0)
             in case (get_version_from_format (pk_formats p) format, get_version_from_format (pk_formats p) usr,
                 get_version_range_from_pack_format (pk_formats p) usr) of
               (Some from, Some to, Some rng) \<Rightarrow>
                 (let n = pk_id p @ ''='' @ rng @ ''.zip''; out = path_join [pe_conversions e, pk_id p];
                      path = path_join [pe_conversions e, pk_id p, n]
                  in served e path (if usr = format then compress_contents e source out n
                       else convert_pack e root source out from to rng) w)
             | _ \<Rightarrow> Ret (None, w))
        | _ \<Rightarrow> Ret (None, w))))"


section \<open>What a request gets\<close>


lemma known_format:
  assumes "table_ordered (pk_formats p)" "f \<in> set (pk_formats p)" "\<forall>q. \<not> pe_stat_fails e q"
    "pw_format w = pf_format f \<and> pf_format f \<noteq> -1 \<or>
     pw_format w = -1 \<and> pe_meta e (path_join [path_join [pe_root e, pk_id p, ''pack''], ''pack.mcmeta'']) = Some (pf_format f)"
  shows "get_pack_format e p w = Ret (Some (pf_format f), w\<lparr>pw_format := pf_format f\<rparr>)"
  using assms(4)
proof
  assume "pw_format w = -1 \<and> pe_meta e (path_join [path_join [pe_root e, pk_id p, ''pack''], ''pack.mcmeta'']) = Some (pf_format f)"
  moreover obtain r where r: "find_closest_pack_format (pk_formats p) (pf_format f) = Ret r" "pf_format r = pf_format f"
  proof -
    have "pk_formats p \<noteq> []" "\<exists>e \<in> set (pk_formats p). pf_format e \<ge> pf_format f" using assms(2) by auto
    then obtain r where "find_closest_pack_format (pk_formats p) (pf_format f) = Ret r" "pf_format r \<ge> pf_format f"
      "\<forall>e \<in> set (pk_formats p). pf_format e \<ge> pf_format f \<longrightarrow> pf_format r \<le> pf_format e"
      using closest_format [of "pk_formats p" "pf_format f"] by auto
    then show ?thesis using that assms(2) by (meson order.refl order_antisym)
  qed
  ultimately show ?thesis
    using assms(3) by (simp add: get_pack_format_def get_source_dir_def pack_file_exists_def Let_def)
qed (simp add: get_pack_format_def)

text \<open>
  A pack that is asked for in a version of its own format, for which nothing was made yet, is served as an
  archive of exactly the files of the pack with their contents; and whoever asks later for a version of the same
  format is served the same archive, with nothing made anew.
\<close>

theorem pack_served:
  assumes "table_ordered (pk_formats p)" "f \<in> set (pk_formats p)" "\<forall>q. \<not> pe_stat_fails e q \<and> pe_mkdir_ok e q \<and> pe_create_ok e q"
    "pw_format w = pf_format f \<and> pf_format f \<noteq> -1 \<or>
     pw_format w = -1 \<and> pf_format f \<noteq> -1 \<and> pe_meta e (path_join [path_join [pe_root e, pk_id p, ''pack''], ''pack.mcmeta'']) = Some (pf_format f)"
    "pw_snapshots w = Some s" "parse_pack_version (release_version s version) = Some v" "in_range v f"
    "pw_tree w (path_join [pe_root e, pk_id p, ''pack'']) = Some (PDir d)" "dir_names_ok d" "snd (zip_dir [] d)"
    "is_abs (pe_conversions e)" "pk_id p \<noteq> []"
    "path = path_join [pe_conversions e, pk_id p, pk_id p @ ''='' @ pf_versions f @ ''.zip'']"
    "pw_tree w path = None" "pw_zips w path = None"
  shows "\<exists>z w'. get_version e p version w = Ret (Some path, w') \<and> pw_zips w' path = Some z \<and>
    set z = (\<Union>n. case dir_get d n of None \<Rightarrow> {} | Some t \<Rightarrow> entries_of n t) \<and>
    (\<forall>version' v'. parse_pack_version (release_version s version') = Some v' \<longrightarrow> in_range v' f \<longrightarrow>
       get_version e p version' w' = Ret (Some path, w'))"
proof -
  let ?n = "pk_id p @ ''='' @ pf_versions f @ ''.zip''" and ?out = "path_join [pe_conversions e, pk_id p]"
    and ?source = "path_join [pe_root e, pk_id p, ''pack'']"
  define w1 where "w1 = w\<lparr>pw_format := pf_format f\<rparr>"
  obtain z where z: "zip_dir [] d = (z, True)" using assms(10) by (cases "zip_dir [] d") auto
  define w' where "w' = w1\<lparr>pw_zips := (pw_zips w1)(path \<mapsto> z)\<rparr>"
  have fmt: "get_pack_format e p w = Ret (Some (pf_format f), w1)" "get_pack_format e p w' = Ret (Some (pf_format f), w')"
    using known_format [OF assms(1,2), of e w] known_format [OF assms(1,2), of e w'] assms(3,4) by (auto simp: w1_def w'_def)
  obtain u where u: "get_version_from_format (pk_formats p) (pf_format f) = Some u"
    "get_version_range_from_pack_format (pk_formats p) (pf_format f) = Some (pf_versions f)"
    using pack_format_exact [OF assms(1,2,6)] by blast
  have n: "has_suffix ?n ''.zip''" by (simp add: has_suffix_def)
  have path: "path_join [?out, ?n] = path" using path_join_nest [OF assms(11,12), of ?n] assms(13) by simp
  have rest: "get_version e p x y = served e path (compress_contents e ?source ?out ?n) y"
    if "get_pack_format e p y = Ret (Some (pf_format f), y')" "y' = y" "pw_snapshots y = Some s"
      "parse_pack_version (release_version s x) = Some m" "in_range m f" for x y y' m
  proof -
    have "get_pack_format_from_version (pk_formats p) (release_version s x) = Some (pf_format f)"
      using pack_format_exact [OF assms(1,2) that(4)] that(5) by blast
    then show ?thesis
      using that(1-3) u assms(3) unfolding assms(13)
      by (simp add: get_version_def get_root_dir_def get_source_dir_def pack_file_exists_def Let_def)
  qed
  have mk: "compress_contents e ?source ?out ?n w1 = Ret (True, w')"
    using assms(3,8) n path z by (simp add: compress_contents_def pack_is_dir_def Let_def w1_def w'_def)
  have "get_version e p version w = served e path (compress_contents e ?source ?out ?n) w1"
  proof -
    have "get_version e p version w = get_version e p version w1"
      using fmt(1) known_format [OF assms(1,2), of e w1] assms(3,4,5) by (auto simp: get_version_def w1_def)
    then show ?thesis using rest [of w1 w1] known_format [OF assms(1,2), of e w1] assms(3,4,5,6,7) by (auto simp: w1_def)
  qed
  also have "\<dots> = Ret (Some path, w')"
    using mk assms(14,15) by (simp add: served_def pack_file_exists_def w1_def)
  finally have first: "get_version e p version w = Ret (Some path, w')" .
  have again: "get_version e p x w' = Ret (Some path, w')"
    if "parse_pack_version (release_version s x) = Some m" "in_range m f" for x m
    using rest [OF fmt(2) refl _ that] assms(3,5) by (simp add: served_def pack_file_exists_def w'_def w1_def)
  have "set z = (\<Union>n. case dir_get d n of None \<Rightarrow> {} | Some t \<Rightarrow> entries_of n t)"
  proof -
    have "child_path [] n = n" for n by (simp add: child_path_def)
    then show ?thesis using zip_entries(2) [OF assms(9,10)] unfolding z by (simp cong: option.case_cong)
  qed
  then show ?thesis using first again by (intro exI [of _ z] exI [of _ w']) (simp add: w'_def)
qed


definition plain_pack_env :: "(string \<Rightarrow> string \<Rightarrow> pnode option \<Rightarrow> bool \<times> pnode option) \<Rightarrow> pack_env" where
  "plain_pack_env java = \<lparr>pe_root = ''/packs'', pe_conversions = ''/conv'', pe_stat_fails = (\<lambda>_. False), pe_mkdir_ok = (\<lambda>_. True),
     pe_create_ok = (\<lambda>_. True), pe_meta = (\<lambda>p. if p = ''/packs/cube/pack/pack.mcmeta'' then Some 18 else Some 8), pe_java = java\<rparr>"

definition cube_pack :: pack where
  "cube_pack = \<lparr>pk_id = ''cube'', pk_source = ''/packs/x'', pk_formats = pack_formats\<rparr>"

definition cube_files :: pdir where
  "cube_files = DCons ''assets'' (PDir (DCons ''a.png'' (PFile ''png'') DNil)) (DCons ''pack.mcmeta'' (PFile ''{}'') DNil)"

definition cube_world :: "pdir \<Rightarrow> int \<Rightarrow> pack_world" where
  "cube_world d f = \<lparr>pw_snapshots = Some [(''23w35a'', ''1.20.2'')], pw_format = f,
     pw_tree = [''/packs/cube/pack'' \<mapsto> PDir d, ''/packs/cube'' \<mapsto> PDir DNil], pw_zips = Map.empty\<rparr>"

lemma cube_paths:
  "path_join [''/packs'', ''cube'', ''pack''] = ''/packs/cube/pack''" "path_join [''/packs'', ''cube''] = ''/packs/cube''"
  "path_join [''/packs/cube/pack'', ''pack.mcmeta''] = ''/packs/cube/pack/pack.mcmeta''"
  "path_join [''/conv'', ''cube'', ''cube=1.20.2.zip''] = ''/conv/cube/cube=1.20.2.zip''"
  by code_simp+

lemma pack_served_witness:
  "\<exists>z w'. get_version (plain_pack_env (\<lambda>_ _ _. (True, None))) cube_pack ''23w35a'' (cube_world cube_files (-1)) =
     Ret (Some ''/conv/cube/cube=1.20.2.zip'', w') \<and> pw_zips w' ''/conv/cube/cube=1.20.2.zip'' = Some z"
proof -
  let ?f = "\<lparr>pf_format = 18, pf_versions = ''1.20.2''\<rparr>" and ?e = "plain_pack_env (\<lambda>_ _ _. (True, None))" and ?w = "cube_world cube_files (-1)"
  have "\<exists>z w'. get_version ?e cube_pack ''23w35a'' ?w = Ret (Some ''/conv/cube/cube=1.20.2.zip'', w') \<and>
      pw_zips w' ''/conv/cube/cube=1.20.2.zip'' = Some z \<and>
      set z = (\<Union>n. case dir_get cube_files n of None \<Rightarrow> {} | Some t \<Rightarrow> entries_of n t) \<and>
      (\<forall>version' v'. parse_pack_version (release_version [(''23w35a'', ''1.20.2'')] version') = Some v' \<longrightarrow> in_range v' ?f \<longrightarrow>
         get_version ?e cube_pack version' w' = Ret (Some ''/conv/cube/cube=1.20.2.zip'', w'))"
  proof (rule pack_served [where v = "[1, 20, 2]"])
    have "?f \<in> set pack_formats" by code_simp
    with shipped_table_ordered show "table_ordered (pk_formats cube_pack)" "?f \<in> set (pk_formats cube_pack)" by (simp_all add: cube_pack_def)
    show "parse_pack_version (release_version [(''23w35a'', ''1.20.2'')] ''23w35a'') = Some [1, 20, 2]" "in_range [1, 20, 2] ?f"
      "dir_names_ok cube_files" "snd (zip_dir [] cube_files)" by code_simp+
  qed (simp_all add: plain_pack_env_def cube_pack_def cube_world_def cube_paths is_abs_def has_prefix_def)
  then show ?thesis by blast
qed

text \<open>
  One variable holds the format of every pack: the second pack is served as if it had the format of the first,
  and after the releases could not be fetched every request panics.
\<close>

lemma format_of_first_pack: "pw_format w \<noteq> -1 \<Longrightarrow> get_pack_format e p w = Ret (Some (pw_format w), w)"
  by (simp add: get_pack_format_def)

lemma failed_fetch_panics: "fetch_snapshot_mappings answer = None \<Longrightarrow>
    get_version e p v (w\<lparr>pw_snapshots := fetch_snapshot_mappings answer\<rparr>) = Panic"
  by (simp add: get_version_def)

text \<open>An archive that broke off stays where it is, and the next request is served it.\<close>

lemma broken_archive_served:
  "\<exists>w'. get_version (plain_pack_env (\<lambda>_ _ _. (True, None))) cube_pack ''1.20.2''
       (cube_world (DCons ''a'' (PFile ''x'') (DCons ''b'' PUnreadable (DCons ''c'' (PFile ''y'') DNil))) 18) = Ret (None, w') \<and>
     get_version (plain_pack_env (\<lambda>_ _ _. (True, None))) cube_pack ''1.20.2'' w' = Ret (Some ''/conv/cube/cube=1.20.2.zip'', w') \<and>
     pw_zips w' ''/conv/cube/cube=1.20.2.zip'' = Some [(''a'', Some ''x''), (''b'', Some [])]"
proof -
  have u: "get_version_from_format pack_formats 18 = Some ''1.20.2''" "get_pack_format_from_version pack_formats ''1.20.2'' = Some 18"
    "get_version_range_from_pack_format pack_formats 18 = Some ''1.20.2''" "path_join [''/conv'', ''cube''] = ''/conv/cube''"
    "path_join [''/conv/cube'', ''cube=1.20.2.zip''] = ''/conv/cube/cube=1.20.2.zip''"
    "gm_get [(''23w35a'', ''1.20.2'')] ''1.20.2'' = None" by code_simp+
  show ?thesis
    by (simp add: get_version_def get_pack_format_def get_root_dir_def get_source_dir_def pack_file_exists_def release_version_def
        plain_pack_env_def cube_pack_def cube_world_def cube_paths u served_def compress_contents_def pack_is_dir_def Let_def
        has_suffix_def child_path_def)
qed

text \<open>A converter that leaves nothing behind is taken to have succeeded: the archive that is served is not there.\<close>

lemma missing_archive_served:
  "\<exists>w'. get_version (plain_pack_env (\<lambda>_ _ _. (True, None))) cube_pack ''1.18'' (cube_world cube_files 18) =
       Ret (Some (''/conv/cube/cube=1.18'' @ long_dash @ ''1.18.2.zip''), w') \<and> pw_zips w' = Map.empty"
proof -
  have u: "get_version_from_format pack_formats 18 = Some ''1.20.2''" "get_pack_format_from_version pack_formats ''1.18'' = Some 8"
    "get_version_from_format pack_formats 8 = Some ''1.18.2''"
    "get_version_range_from_pack_format pack_formats 8 = Some (''1.18'' @ long_dash @ ''1.18.2'')"
    "path_join [''/conv'', ''cube'', ''cube=1.18'' @ long_dash @ ''1.18.2.zip''] = ''/conv/cube/cube=1.18'' @ long_dash @ ''1.18.2.zip''"
    "gm_get [(''23w35a'', ''1.20.2'')] ''1.18'' = None" "path_join [''/packs/cube'', ''pack_converted''] = ''/packs/cube/pack_converted''"
    by code_simp+
  show ?thesis
    using u(5) by (simp add: get_version_def get_pack_format_def get_root_dir_def get_source_dir_def pack_file_exists_def release_version_def
        plain_pack_env_def cube_pack_def cube_world_def cube_paths u served_def convert_pack_def pack_is_dir_def Let_def)
qed


section \<open>The packs and the requests for them\<close>

type_synonym packs = "(string, pack) gomap"

definition new_pack :: "string \<Rightarrow> string \<Rightarrow> pack_format list \<Rightarrow> pack" where
  "new_pack pid source formats = \<lparr>pk_id = pid, pk_source = source, pk_formats = formats\<rparr>"

definition add_pack :: "string \<Rightarrow> pack \<Rightarrow> packs \<Rightarrow> packs" where
  "add_pack n p m = gm_set m n p"

definition load_all_packs :: "string \<Rightarrow> pack_format list \<Rightarrow> blueprint list \<Rightarrow> packs \<Rightarrow> packs" where
  "load_all_packs root formats bps m = fold (\<lambda>bp m. case gm_get (bp_annotations bp) ''resource_pack'' of
      Some (VStr dir) \<Rightarrow> add_pack (bp_id bp) (new_pack (bp_id bp) (path_join [root, dir]) formats) m
    | _ \<Rightarrow> m) bps m"

text \<open>\<^verbatim>\<open>PackExists\<close> and \<^verbatim>\<open>getSlimePack\<close>: the status, and the file that is sent. The version may be empty.\<close>

definition get_slime_pack :: "pack_env \<Rightarrow> packs \<Rightarrow> string \<Rightarrow> string option \<Rightarrow> string option \<Rightarrow> pack_world \<Rightarrow> (int \<times> string option \<times> pack_world) go" where
  "get_slime_pack e packs n version v w =
     (case (if n = [] then None else gm_get packs n) of
        None \<Rightarrow> Ret (404, None, w)
      | Some p \<Rightarrow> (let v = (case v of Some x \<Rightarrow> x | None \<Rightarrow> []); version = (case version of Some x \<Rightarrow> x | None \<Rightarrow> v)
          in go_bind (get_version e p version w) (\<lambda>(path, w).
            Ret (case path of None \<Rightarrow> (500, None, w) | Some f \<Rightarrow> (200, Some f, w)))))"

text \<open>The packs are those of the blueprints that name one; where two have the same id, the last counts.\<close>

lemma load_all_packs_exact:
  "gm_get (load_all_packs root formats bps m) n =
    (case find (\<lambda>bp. bp_id bp = n \<and> (\<exists>d. gm_get (bp_annotations bp) ''resource_pack'' = Some (VStr d))) (rev bps) of
       Some bp \<Rightarrow> (case gm_get (bp_annotations bp) ''resource_pack'' of
         Some (VStr d) \<Rightarrow> Some (new_pack n (path_join [root, d]) formats) | _ \<Rightarrow> None)
     | None \<Rightarrow> gm_get m n)"
proof (induction bps rule: rev_induct)
  case (snoc bp bps)
  have "load_all_packs root formats (bps @ [bp]) m = (case gm_get (bp_annotations bp) ''resource_pack'' of
      Some (VStr dir) \<Rightarrow> gm_set (load_all_packs root formats bps m) (bp_id bp) (new_pack (bp_id bp) (path_join [root, dir]) formats)
    | _ \<Rightarrow> load_all_packs root formats bps m)"
    by (simp add: load_all_packs_def add_pack_def cong: option.case_cong go_value.case_cong)
  then show ?case using snoc by (auto split: option.splits go_value.splits)
qed (simp add: load_all_packs_def)

text \<open>The directory that a blueprint names for its pack is not read: the packs are where their ids say.\<close>

lemma source_unused: "get_version e (p\<lparr>pk_source := x\<rparr>) v w = get_version e p v w"
proof -
  have p: "pk_id (p\<lparr>pk_source := x\<rparr>) = pk_id p" "pk_formats (p\<lparr>pk_source := x\<rparr>) = pk_formats p" by simp_all
  show ?thesis by (simp only: get_version_def get_pack_format_def get_root_dir_def get_source_dir_def p)
qed

section \<open>The update of the converter\<close>

text \<open>
  What is downloaded: nothing, a part before it broke off, or the whole; \<^verbatim>\<open>os.Create\<close> empties the file first. A
  page that says that there is nothing is a download as well.
\<close>

datatype download = NoAnswer | Partial string | Whole string

definition download_file :: "download \<Rightarrow> bool \<Rightarrow> string option \<Rightarrow> bool \<times> string option" where
  "download_file d create_ok jar = (case d of
     NoAnswer \<Rightarrow> (False, jar)
   | Partial c \<Rightarrow> (if create_ok then (False, Some c) else (False, jar))
   | Whole c \<Rightarrow> (if create_ok then (True, Some c) else (False, jar)))"

definition asset_digest :: "(string \<times> string) list \<Rightarrow> string" where
  "asset_digest as = (case find (\<lambda>a. fst a = ''ResourcePackConverter.jar'') as of Some a \<Rightarrow> snd a | None \<Rightarrow> [])"

text \<open>
  \<^verbatim>\<open>updateIfNeeded\<close>: whether there was an update, or \<open>None\<close> for an error, and the file. \<open>readable\<close> says whether
  the file can be read, and \<open>sha\<close> is the digest of its bytes.
\<close>

definition update_if_needed :: "(string \<Rightarrow> string) \<Rightarrow> bool \<Rightarrow> bool \<Rightarrow> (string \<times> string) list option \<Rightarrow> download \<Rightarrow> bool \<Rightarrow>
    string option \<Rightarrow> bool option \<times> string option" where
  "update_if_needed sha mkdir_ok readable release d create_ok jar =
     (if \<not> mkdir_ok then (None, jar)
      else case release of
        None \<Rightarrow> (None, jar)
      | Some as \<Rightarrow>
          (if asset_digest as = [] then (None, jar)
           else if jar \<noteq> None \<and> \<not> readable then (None, jar)
           else if trim_prefix (asset_digest as) ''sha256:'' = (case jar of None \<Rightarrow> [] | Some c \<Rightarrow> sha c) then (Some False, jar)
           else (case download_file d create_ok jar of
             (False, jar) \<Rightarrow> (None, jar)
           | (True, jar) \<Rightarrow> (if readable then (Some True, jar) else (None, jar)))))"

text \<open>Without an update the file has the digest of the release; with one it is what was downloaded, whatever its digest.\<close>

lemma update_exact:
  assumes "update_if_needed sha mkdir_ok readable release d create_ok jar = (r, jar')" "release = Some as"
    "trim_prefix (asset_digest as) ''sha256:'' \<noteq> []"
  shows "r = Some False \<Longrightarrow> jar' = jar \<and> (\<exists>c. jar = Some c \<and> sha c = trim_prefix (asset_digest as) ''sha256:'')"
    and "r = Some True \<Longrightarrow> \<exists>c. d = Whole c \<and> jar' = Some c"
  using assms by (auto simp: update_if_needed_def download_file_def split: if_splits option.splits download.splits prod.splits bool.splits)

lemma unverified_download:
  "update_if_needed sha True True (Some [(''ResourcePackConverter.jar'', ''sha256:d1'')]) (Whole ''Not Found'') True None =
     (Some True, Some ''Not Found'')"
proof -
  have "trim_prefix ''sha256:d1'' ''sha256:'' \<noteq> []" by code_simp
  then show ?thesis by (simp add: update_if_needed_def asset_digest_def download_file_def)
qed

end
