(* ===== verification/Volume_Perms.thy ===== *)
theory Volume_Perms
  imports Disk_Quota Daemon_Mounts "HOL-Library.List_Lexorder" "HOL-Library.Char_ord" "HOL-Library.Multiset"
begin

text \<open>
  Owners, modes and listings of files: \<^verbatim>\<open>daemon/server/filesystem/filesystem.go\<close> with the walks of
  \<^verbatim>\<open>path/filepath\<close> and of \<^verbatim>\<open>daemon/internal/ufs/walk_unix.go\<close>. A tree has the inodes of its files, and a link
  also the inode it leads to, if there is one; the attributes are a map from inodes, so that names can share a
  file and a link can lead out of the tree.
\<close>

unbundle bit_operations_syntax

section \<open>Trees and walks\<close>

text \<open>Of a mode there are the twelve bits of Linux, and beside it whether the inode is a directory.\<close>

record attr =
  at_uid :: int
  at_gid :: int
  at_mode :: "32 word"
  at_dir :: bool

type_synonym attrs = "nat \<Rightarrow> attr"

text \<open>A directory that cannot be read has \<open>False\<close>.\<close>

datatype wnode = WFile nat | WLink nat "nat option" | WDir nat bool wdir
and wdir = WNil | WCons string wnode wdir

fun own_inode :: "wnode \<Rightarrow> nat" where
  "own_inode (WFile i) = i"
| "own_inode (WLink i _) = i"
| "own_inode (WDir i _ _) = i"

text \<open>What a call that follows links gets.\<close>

fun followed :: "wnode \<Rightarrow> nat option" where
  "followed (WFile i) = Some i"
| "followed (WLink _ t) = t"
| "followed (WDir i _ _) = Some i"

primrec node_inodes :: "wnode \<Rightarrow> nat set" and dir_inodes :: "wdir \<Rightarrow> nat set" where
  "node_inodes (WFile i) = {i}"
| "node_inodes (WLink i t) = {i}"
| "node_inodes (WDir i r d) = insert i (dir_inodes d)"
| "dir_inodes WNil = {}"
| "dir_inodes (WCons n t d) = node_inodes t \<union> dir_inodes d"

primrec no_links :: "wnode \<Rightarrow> bool" and dir_no_links :: "wdir \<Rightarrow> bool" where
  "no_links (WFile i) = True"
| "no_links (WLink i t) = False"
| "no_links (WDir i r d) = dir_no_links d"
| "dir_no_links WNil = True"
| "dir_no_links (WCons n t d) = (no_links t \<and> dir_no_links d)"

primrec readable :: "wnode \<Rightarrow> bool" and dir_readable :: "wdir \<Rightarrow> bool" where
  "readable (WFile i) = True"
| "readable (WLink i t) = True"
| "readable (WDir i r d) = (r \<and> dir_readable d)"
| "dir_readable WNil = True"
| "dir_readable (WCons n t d) = (readable t \<and> dir_readable d)"

text \<open>
  \<^verbatim>\<open>filepath.WalkDir\<close> with a function that gives back the errors it gets: \<open>False\<close> ends the walk. A directory comes
  before what is in it, and links are not followed.
\<close>

primrec walk_node :: "(wnode \<Rightarrow> 's \<Rightarrow> bool \<times> 's) \<Rightarrow> wnode \<Rightarrow> 's \<Rightarrow> bool \<times> 's"
  and walk_dir :: "(wnode \<Rightarrow> 's \<Rightarrow> bool \<times> 's) \<Rightarrow> wdir \<Rightarrow> 's \<Rightarrow> bool \<times> 's" where
  "walk_node f (WFile i) s = f (WFile i) s"
| "walk_node f (WLink i t) s = f (WLink i t) s"
| "walk_node f (WDir i r d) s = (case f (WDir i r d) s of
     (False, s) \<Rightarrow> (False, s)
   | (True, s) \<Rightarrow> (if \<not> r then (False, s) else walk_dir f d s))"
| "walk_dir f WNil s = (True, s)"
| "walk_dir f (WCons n t d) s = (case walk_node f t s of (False, s) \<Rightarrow> (False, s) | (True, s) \<Rightarrow> walk_dir f d s)"

section \<open>Changing attributes\<close>

text \<open>
  \<open>refuses\<close> are the inodes for which the kernel refuses a change; -1 leaves an owner as it is. A change of owner
  takes set-user-ID from everything but a directory, and set-group-ID too where the group may execute it, also
  when root makes it (\<^verbatim>\<open>chown(2)\<close>).
\<close>

definition drop_set_ids :: "32 word \<Rightarrow> 32 word" where
  "drop_set_ids m = (let m = unset_bit 11 m in if bit m 10 \<and> bit m 3 then unset_bit 10 m else m)"

definition no_set_ids :: "32 word \<Rightarrow> bool" where
  "no_set_ids m \<longleftrightarrow> \<not> bit m 11 \<and> \<not> bit m 10"

definition chown_attr :: "int \<Rightarrow> int \<Rightarrow> attr \<Rightarrow> attr" where
  "chown_attr uid gid a = a\<lparr>at_uid := (if uid = -1 then at_uid a else uid), at_gid := (if gid = -1 then at_gid a else gid),
     at_mode := (if at_dir a then at_mode a else drop_set_ids (at_mode a))\<rparr>"

definition chown_inode :: "(nat \<Rightarrow> bool) \<Rightarrow> int \<Rightarrow> int \<Rightarrow> nat \<Rightarrow> attrs \<Rightarrow> bool \<times> attrs" where
  "chown_inode refuses uid gid i s = (if refuses i then (False, s) else (True, s(i := chown_attr uid gid (s i))))"

definition chmod_inode :: "(nat \<Rightarrow> bool) \<Rightarrow> 32 word \<Rightarrow> nat \<Rightarrow> attrs \<Rightarrow> bool \<times> attrs" where
  "chmod_inode refuses mode i s = (if refuses i then (False, s) else (True, s(i := (s i)\<lparr>at_mode := mode\<rparr>)))"

text \<open>\<^verbatim>\<open>os.Chown\<close> and \<^verbatim>\<open>os.Chmod\<close> follow links, and fail on one that leads nowhere; \<^verbatim>\<open>Lchownat\<close> does not follow.\<close>

definition os_chown :: "(nat \<Rightarrow> bool) \<Rightarrow> int \<Rightarrow> int \<Rightarrow> wnode \<Rightarrow> attrs \<Rightarrow> bool \<times> attrs" where
  "os_chown refuses uid gid n s = (case followed n of None \<Rightarrow> (False, s) | Some i \<Rightarrow> chown_inode refuses uid gid i s)"

definition os_chmod :: "(nat \<Rightarrow> bool) \<Rightarrow> 32 word \<Rightarrow> wnode \<Rightarrow> attrs \<Rightarrow> bool \<times> attrs" where
  "os_chmod refuses mode n s = (case followed n of None \<Rightarrow> (False, s) | Some i \<Rightarrow> chmod_inode refuses mode i s)"

definition lchownat :: "(nat \<Rightarrow> bool) \<Rightarrow> int \<Rightarrow> int \<Rightarrow> wnode \<Rightarrow> attrs \<Rightarrow> bool \<times> attrs" where
  "lchownat refuses uid gid n s = chown_inode refuses uid gid (own_inode n) s"

text \<open>
  A loop over paths: an empty one is skipped, and one that is not there ends it, as does the first failure.
  \<open>tree\<close> is what is at a path. Without a configuration nothing is done.
\<close>

type_synonym host = "string \<Rightarrow> wnode option"

fun walk_paths :: "host \<Rightarrow> (wnode \<Rightarrow> attrs \<Rightarrow> bool \<times> attrs) \<Rightarrow> string list \<Rightarrow> attrs \<Rightarrow> bool \<times> attrs" where
  "walk_paths tree f [] s = (True, s)"
| "walk_paths tree f (p # ps) s =
     (if p = [] then walk_paths tree f ps s
      else case tree p of
        None \<Rightarrow> (False, s)
      | Some t \<Rightarrow> (case walk_node f t s of (False, s) \<Rightarrow> (False, s) | (True, s) \<Rightarrow> walk_paths tree f ps s))"

fun chown_unsafe :: "(int \<times> int) option \<Rightarrow> (nat \<Rightarrow> bool) \<Rightarrow> host \<Rightarrow> string list \<Rightarrow> attrs \<Rightarrow> bool \<times> attrs" where
  "chown_unsafe None refuses tree ps s = (True, s)"
| "chown_unsafe cfg refuses tree [] s = (True, s)"
| "chown_unsafe (Some (uid, gid)) refuses tree (p # ps) s =
     (if p = [] then chown_unsafe (Some (uid, gid)) refuses tree ps s
      else case tree p of
        None \<Rightarrow> (False, s)
      | Some t \<Rightarrow> (case os_chown refuses uid gid t s of
          (False, s) \<Rightarrow> (False, s)
        | (True, s) \<Rightarrow> chown_unsafe (Some (uid, gid)) refuses tree ps s))"

definition chown_recursive_unsafe :: "(int \<times> int) option \<Rightarrow> (nat \<Rightarrow> bool) \<Rightarrow> host \<Rightarrow> string list \<Rightarrow> attrs \<Rightarrow> bool \<times> attrs" where
  "chown_recursive_unsafe cfg refuses tree ps s = (case cfg of
     None \<Rightarrow> (True, s) | Some (uid, gid) \<Rightarrow> walk_paths tree (os_chown refuses uid gid) ps s)"

definition chgrp_recursive_unsafe :: "(int \<times> int) option \<Rightarrow> (nat \<Rightarrow> bool) \<Rightarrow> host \<Rightarrow> string list \<Rightarrow> attrs \<Rightarrow> bool \<times> attrs" where
  "chgrp_recursive_unsafe cfg refuses tree ps s = (case cfg of
     None \<Rightarrow> (True, s) | Some (_, gid) \<Rightarrow> walk_paths tree (os_chown refuses (-1) gid) ps s)"

definition chmod_unsafe :: "(nat \<Rightarrow> bool) \<Rightarrow> host \<Rightarrow> 32 word \<Rightarrow> string list \<Rightarrow> attrs \<Rightarrow> bool \<times> attrs" where
  "chmod_unsafe refuses tree mode ps s = walk_paths tree (os_chmod refuses mode) ps s"

text \<open>Group permissions are added to the mode of the entry itself, which for a link is that of the link.\<close>

definition add_group_rwx :: "(nat \<Rightarrow> bool) \<Rightarrow> wnode \<Rightarrow> attrs \<Rightarrow> bool \<times> attrs" where
  "add_group_rwx refuses n s = os_chmod refuses (at_mode (s (own_inode n)) OR 0x38) n s"

definition chmod_add_group_rwx_recursive_unsafe :: "(nat \<Rightarrow> bool) \<Rightarrow> host \<Rightarrow> string list \<Rightarrow> attrs \<Rightarrow> bool \<times> attrs" where
  "chmod_add_group_rwx_recursive_unsafe refuses tree ps s = walk_paths tree (add_group_rwx refuses) ps s"

text \<open>The two walks for overlays look first whether there is something to change.\<close>

definition upper_work_step :: "(nat \<Rightarrow> bool) \<Rightarrow> int \<Rightarrow> int \<Rightarrow> wnode \<Rightarrow> attrs \<Rightarrow> bool \<times> attrs" where
  "upper_work_step refuses uid gid n s = (let a = s (own_inode n);
       (ok, s) = (if at_uid a = uid \<and> at_gid a = gid then (True, s) else os_chown refuses uid gid n s)
     in if \<not> ok then (False, s)
        else if at_mode a AND 0x1FF \<noteq> 0x1ED then os_chmod refuses 0x1ED n s else (True, s))"

definition set_overlay_upper_work_permissions :: "(int \<times> int) option \<Rightarrow> (nat \<Rightarrow> bool) \<Rightarrow> host \<Rightarrow> string list \<Rightarrow> attrs \<Rightarrow> bool \<times> attrs" where
  "set_overlay_upper_work_permissions cfg refuses tree ps s = (case cfg of
     None \<Rightarrow> (True, s) | Some (uid, gid) \<Rightarrow> walk_paths tree (upper_work_step refuses uid gid) ps s)"

definition lower_step :: "(nat \<Rightarrow> bool) \<Rightarrow> int \<Rightarrow> wnode \<Rightarrow> attrs \<Rightarrow> bool \<times> attrs" where
  "lower_step refuses gid n s = (let a = s (own_inode n);
       (ok, s) = (if at_gid a = gid then (True, s) else os_chown refuses (-1) gid n s)
     in if \<not> ok then (False, s)
        else if at_mode a AND 0x38 \<noteq> 0x38 then os_chmod refuses (at_mode a OR 0x38) n s else (True, s))"

definition set_overlay_lower_permissions :: "(int \<times> int) option \<Rightarrow> (nat \<Rightarrow> bool) \<Rightarrow> host \<Rightarrow> string list \<Rightarrow> attrs \<Rightarrow> bool \<times> attrs" where
  "set_overlay_lower_permissions cfg refuses tree ps s = (case cfg of
     None \<Rightarrow> (True, s) | Some (_, gid) \<Rightarrow> walk_paths tree (lower_step refuses gid) ps s)"

text \<open>
  \<^verbatim>\<open>SetBindMountPermissions\<close>; \<open>stat_fails\<close> are the paths for which it cannot be told whether they are there.
\<close>

fun set_bind_mount_permissions :: "(int \<times> int) option \<Rightarrow> (nat \<Rightarrow> bool) \<Rightarrow> (string \<Rightarrow> bool) \<Rightarrow> host \<Rightarrow> mount list \<Rightarrow> attrs \<Rightarrow> bool \<times> attrs" where
  "set_bind_mount_permissions cfg refuses stat_fails tree [] s = (True, s)"
| "set_bind_mount_permissions cfg refuses stat_fails tree (m # ms) s =
     (if mt_default m \<or> mt_read_only m \<or> mt_source m = [] then set_bind_mount_permissions cfg refuses stat_fails tree ms s
      else if stat_fails (mt_source m) then (False, s)
      else if tree (mt_source m) = None then set_bind_mount_permissions cfg refuses stat_fails tree ms s
      else case chgrp_recursive_unsafe cfg refuses tree [mt_source m] s of
        (False, s) \<Rightarrow> (False, s)
      | (True, s) \<Rightarrow> (case chmod_add_group_rwx_recursive_unsafe refuses tree [mt_source m] s of
          (False, s) \<Rightarrow> (False, s)
        | (True, s) \<Rightarrow> set_bind_mount_permissions cfg refuses stat_fails tree ms s))"

section \<open>The walk of the sandboxed file system\<close>

text \<open>
  \<^verbatim>\<open>walkDir\<close> of \<^verbatim>\<open>walk_unix.go\<close>: the function gets the path from where the walk began, the entry, and whether this
  is the report of a directory whose entries could not be read, \<open>unlistable\<close>; it may skip a directory, or what is
  left of the one it is in, or all that is left.
\<close>

datatype walk_result = WkOk | WkSkipDir | WkSkipAll | WkErr

type_synonym 's walk_fun = "string \<Rightarrow> wnode \<Rightarrow> bool \<Rightarrow> 's \<Rightarrow> walk_result \<times> 's"

definition child_relative :: "string \<Rightarrow> string \<Rightarrow> string" where
  "child_relative rel n = (if rel = ''.'' then n else path_join [rel, n])"

definition skipped_dir :: "walk_result \<times> 's \<Rightarrow> walk_result \<times> 's" where
  "skipped_dir r = (case r of (WkSkipDir, s) \<Rightarrow> (WkOk, s) | _ \<Rightarrow> r)"

primrec walk_at :: "(nat \<Rightarrow> bool) \<Rightarrow> 's walk_fun \<Rightarrow> string \<Rightarrow> wnode \<Rightarrow> 's \<Rightarrow> walk_result \<times> 's"
  and walk_entries :: "(nat \<Rightarrow> bool) \<Rightarrow> 's walk_fun \<Rightarrow> string \<Rightarrow> wdir \<Rightarrow> 's \<Rightarrow> walk_result \<times> 's" where
  "walk_at unlistable f rel (WFile i) s = f rel (WFile i) False s"
| "walk_at unlistable f rel (WLink i t) s = f rel (WLink i t) False s"
| "walk_at unlistable f rel (WDir i r d) s = (case f rel (WDir i r d) False s of
     (WkOk, s) \<Rightarrow>
       (if \<not> r then (WkErr, s)
        else if unlistable i then skipped_dir (f rel (WDir i r d) True s)
        else walk_entries unlistable f rel d s)
   | e \<Rightarrow> skipped_dir e)"
| "walk_entries unlistable f rel WNil s = (WkOk, s)"
| "walk_entries unlistable f rel (WCons n t d) s = (case walk_at unlistable f (child_relative rel n) t s of
     (WkOk, s) \<Rightarrow> walk_entries unlistable f rel d s
   | e \<Rightarrow> skipped_dir e)"

text \<open>\<^verbatim>\<open>WalkDirat\<close>: \<open>None\<close> is that the entry is not there, which the function is told of.\<close>

definition walk_dirat :: "(nat \<Rightarrow> bool) \<Rightarrow> ('s \<Rightarrow> walk_result \<times> 's) \<Rightarrow> 's walk_fun \<Rightarrow> wnode option \<Rightarrow> 's \<Rightarrow> bool \<times> 's" where
  "walk_dirat unlistable missing f t s = (case (case t of None \<Rightarrow> missing s | Some t \<Rightarrow> walk_at unlistable f ''.'' t s) of
     (e, s) \<Rightarrow> (e \<noteq> WkErr, s))"

text \<open>A walk that skips nothing comes to every entry once, to a directory before what is in it.\<close>

primrec preorder_node :: "string \<Rightarrow> wnode \<Rightarrow> string list" and preorder_dir :: "string \<Rightarrow> wdir \<Rightarrow> string list" where
  "preorder_node rel (WFile i) = [rel]"
| "preorder_node rel (WLink i t) = [rel]"
| "preorder_node rel (WDir i r d) = rel # preorder_dir rel d"
| "preorder_dir rel WNil = []"
| "preorder_dir rel (WCons n t d) = preorder_node (child_relative rel n) t @ preorder_dir rel d"

lemma walk_visits:
  assumes "\<forall>i. \<not> unlistable i"
  shows "readable t \<Longrightarrow> walk_at unlistable (\<lambda>rel _ _ s. (WkOk, s @ [rel])) rel t s = (WkOk, s @ preorder_node rel t)"
    and "dir_readable d \<Longrightarrow> walk_entries unlistable (\<lambda>rel _ _ s. (WkOk, s @ [rel])) rel d s = (WkOk, s @ preorder_dir rel d)"
  using assms by (induction t and d arbitrary: rel s and rel s) simp_all

text \<open>With a function that gives back every error it is the plain walk.\<close>

definition passing :: "(wnode \<Rightarrow> 's \<Rightarrow> bool \<times> 's) \<Rightarrow> 's walk_fun" where
  "passing f rel n err s = (if err then (WkErr, s) else case f n s of (ok, s) \<Rightarrow> (if ok then WkOk else WkErr, s))"

primrec listable :: "(nat \<Rightarrow> bool) \<Rightarrow> wnode \<Rightarrow> wnode" and dir_listable :: "(nat \<Rightarrow> bool) \<Rightarrow> wdir \<Rightarrow> wdir" where
  "listable u (WFile i) = WFile i"
| "listable u (WLink i t) = WLink i t"
| "listable u (WDir i r d) = WDir i (r \<and> \<not> u i) (dir_listable u d)"
| "dir_listable u WNil = WNil"
| "dir_listable u (WCons n t d) = WCons n (listable u t) (dir_listable u d)"

lemma walk_at_plain:
  assumes "\<And>i r r' d d'. f (WDir i r d) = f (WDir i r' d')"
  shows "walk_at u (passing f) rel t s = (case walk_node f (listable u t) s of (ok, s) \<Rightarrow> (if ok then WkOk else WkErr, s))"
    and "walk_entries u (passing f) rel d s = (case walk_dir f (dir_listable u d) s of (ok, s) \<Rightarrow> (if ok then WkOk else WkErr, s))"
proof (induction t and d arbitrary: rel s and rel s)
  case (WDir i r d)
  have "f (WDir i r d) = f (WDir i (r \<and> \<not> u i) (dir_listable u d))" by (rule assms)
  then show ?case using WDir by (auto simp: passing_def skipped_dir_def split: prod.split bool.split)
next
  case (WCons n t d)
  then show ?case by (auto simp: skipped_dir_def split: prod.split bool.split)
qed (auto simp: passing_def split: prod.split)

text \<open>
  \<^verbatim>\<open>Chown\<close> of the sandboxed file system, of what is at a path: the entry itself first, then again with all below
  it. A directory that cannot be read is reported to the function, which ends the walk.
\<close>

definition chown_sandboxed :: "(nat \<Rightarrow> bool) \<Rightarrow> (nat \<Rightarrow> bool) \<Rightarrow> int \<Rightarrow> int \<Rightarrow> wnode \<Rightarrow> attrs \<Rightarrow> bool \<times> attrs" where
  "chown_sandboxed unlistable refuses uid gid t s = (case lchownat refuses uid gid t s of
     (False, s) \<Rightarrow> (False, s)
   | (True, s) \<Rightarrow> (case t of
       WDir _ _ _ \<Rightarrow> walk_dirat unlistable (\<lambda>s. (WkErr, s)) (passing (lchownat refuses uid gid)) (Some t) s
     | _ \<Rightarrow> (True, s)))"


section \<open>What the walks do\<close>

text \<open>A function that changes the attributes of its entry alone, and in the same way every time it comes back to it.\<close>

definition pointwise :: "(attr \<Rightarrow> attr) \<Rightarrow> (wnode \<Rightarrow> attrs \<Rightarrow> bool \<times> attrs) \<Rightarrow> bool" where
  "pointwise g f \<longleftrightarrow> (\<forall>a. g (g a) = g a) \<and>
     (\<forall>n s. (\<forall>i t. n \<noteq> WLink i t) \<longrightarrow> f n s = (True, s(own_inode n := g (s (own_inode n)))))"

definition changed :: "(attr \<Rightarrow> attr) \<Rightarrow> nat set \<Rightarrow> attrs \<Rightarrow> attrs" where
  "changed g I s = (\<lambda>i. if i \<in> I then g (s i) else s i)"

lemma changed_Un: "(\<forall>a. g (g a) = g a) \<Longrightarrow> changed g J (changed g I s) = changed g (I \<union> J) s"
  by (rule ext) (simp add: changed_def)

lemma changed_comp: "changed h I (changed g I s) = changed (\<lambda>a. h (g a)) I s"
  by (rule ext) (simp add: changed_def)

lemma changed_single: "s(i := g (s i)) = changed g {i} s"
  by (rule ext) (simp add: changed_def)

lemma walk_pointwise:
  assumes "pointwise g f"
  shows "no_links t \<Longrightarrow> readable t \<Longrightarrow> walk_node f t s = (True, changed g (node_inodes t) s)"
    and "dir_no_links d \<Longrightarrow> dir_readable d \<Longrightarrow> walk_dir f d s = (True, changed g (dir_inodes d) s)"
proof (induction t and d arbitrary: s and s)
  case (WFile i)
  then show ?case using assms by (simp add: pointwise_def changed_single)
next
  case (WDir i r d)
  then show ?case using assms by (simp add: pointwise_def changed_single changed_Un)
next
  case WNil
  then show ?case by (simp add: changed_def)
next
  case (WCons n t d)
  then show ?case using assms by (simp add: pointwise_def changed_Un)
qed simp_all

definition walkable :: "host \<Rightarrow> string list \<Rightarrow> bool" where
  "walkable tree ps \<longleftrightarrow> (\<forall>p \<in> set ps. p = [] \<or> (\<exists>t. tree p = Some t \<and> no_links t \<and> readable t))"

definition paths_inodes :: "host \<Rightarrow> string list \<Rightarrow> nat set" where
  "paths_inodes tree ps = (\<Union>p \<in> set ps. if p = [] then {} else case tree p of None \<Rightarrow> {} | Some t \<Rightarrow> node_inodes t)"

lemma walk_paths_pointwise:
  assumes "pointwise g f" "walkable tree ps"
  shows "walk_paths tree f ps s = (True, changed g (paths_inodes tree ps) s)"
  using assms(2)
proof (induction ps arbitrary: s)
  case Nil
  then show ?case by (simp add: changed_def paths_inodes_def)
next
  case (Cons p ps)
  have IH: "walk_paths tree f ps s' = (True, changed g (paths_inodes tree ps) s')" for s'
    using Cons by (simp add: walkable_def)
  show ?case
  proof (cases "p = []")
    case True
    then show ?thesis using IH by (simp add: paths_inodes_def)
  next
    case False
    then obtain t where t: "tree p = Some t" "no_links t" "readable t" using Cons(2) by (auto simp: walkable_def)
    moreover have "paths_inodes tree (p # ps) = node_inodes t \<union> paths_inodes tree ps"
      using t(1) False by (simp add: paths_inodes_def)
    ultimately show ?thesis
      using IH False walk_pointwise(1) [OF assms(1) t(2,3)] assms(1) by (simp add: pointwise_def changed_Un)
  qed
qed

lemma pointwiseI:
  assumes "\<And>a. g (g a) = g a" "\<And>i s. f (WFile i) s = (True, s(i := g (s i)))" "\<And>i r d s. f (WDir i r d) s = (True, s(i := g (s i)))"
  shows "pointwise g f"
  unfolding pointwise_def
proof (intro conjI allI impI)
  fix n s assume "\<forall>i t. n \<noteq> WLink i t"
  then show "f n s = (True, s(own_inode n := g (s (own_inode n))))" using assms(2,3) by (cases n) auto
qed (use assms(1) in simp)

text \<open>What a change of owner does to a mode: the permissions stay, and a mode without the two bits stays whole.\<close>

lemma bit_drop_set_ids: "bit (drop_set_ids m) n \<longleftrightarrow> bit m n \<and> n \<noteq> 11 \<and> \<not> (n = 10 \<and> bit m 3)"
  by (auto simp: drop_set_ids_def Let_def bit_unset_bit_iff)

lemma drop_set_ids_permissions: "take_bit 10 (drop_set_ids m) = take_bit 10 m"
  by (rule bit_eqI) (auto simp: bit_take_bit_iff bit_drop_set_ids)

lemma drop_set_ids_part:
  assumes "take_bit 10 k = k"
  shows "drop_set_ids m AND k = m AND k"
proof -
  have "n < 10" if "bit k n" for n using that assms by (metis bit_take_bit_iff)
  then have "\<not> bit k 11" "\<not> bit k 10" by fastforce+
  then show ?thesis by (intro bit_eqI) (auto simp: bit_and_iff bit_drop_set_ids)
qed

lemmas drop_set_ids_group = drop_set_ids_part [where k = "0x38", simplified]
lemmas drop_set_ids_perm = drop_set_ids_part [where k = "0x1FF", simplified]

lemma drop_set_ids_idem [simp]: "drop_set_ids (drop_set_ids m) = drop_set_ids m"
  by (rule bit_eqI) (auto simp: bit_drop_set_ids)

lemma drop_set_ids_plain: "no_set_ids m \<Longrightarrow> drop_set_ids m = m"
  by (rule bit_eqI) (auto simp: bit_drop_set_ids no_set_ids_def)

lemma chown_attr_idem [simp]: "chown_attr uid gid (chown_attr uid gid a) = chown_attr uid gid a"
  by (simp add: chown_attr_def)

definition upper_attr :: "int \<Rightarrow> int \<Rightarrow> attr \<Rightarrow> attr" where
  "upper_attr uid gid a = (let b = (if at_uid a = uid \<and> at_gid a = gid then a else chown_attr uid gid a)
     in if at_mode a AND 0x1FF = 0x1ED then b else b\<lparr>at_mode := 0x1ED\<rparr>)"

text \<open>The mode that is written back is the one from before the change of the group.\<close>

definition lower_attr :: "int \<Rightarrow> attr \<Rightarrow> attr" where
  "lower_attr gid a = (let b = (if at_gid a = gid then a else chown_attr (-1) gid a)
     in if at_mode a AND 0x38 = 0x38 then b else b\<lparr>at_mode := at_mode a OR 0x38\<rparr>)"

lemma pointwise_chown: "\<forall>i. \<not> refuses i \<Longrightarrow> pointwise (chown_attr uid gid) (os_chown refuses uid gid)"
  by (rule pointwiseI) (simp_all add: os_chown_def chown_inode_def)

lemma or_idem: "(x OR y) OR y = x OR (y :: 'a :: len word)"
  by (simp add: or.assoc)

lemma and_or_own: "(x OR y) AND y = (y :: 'a :: len word)"
  by (rule bit_eqI) (simp add: bit_simps)

lemma pointwise_add_group: "\<forall>i. \<not> refuses i \<Longrightarrow> pointwise (\<lambda>a. a\<lparr>at_mode := at_mode a OR 0x38\<rparr>) (add_group_rwx refuses)"
  by (rule pointwiseI) (simp_all add: add_group_rwx_def os_chmod_def chmod_inode_def or_idem)

lemma or_absorb: "x AND y = y \<Longrightarrow> x OR y = (x :: 'a :: len word)"
proof -
  assume "x AND y = y"
  then have "bit y n \<Longrightarrow> bit x n" for n by (metis bit_and_iff)
  then show ?thesis by (intro bit_eqI) (auto simp: bit_or_iff)
qed

lemma lower_attr_idem: "gid \<noteq> -1 \<Longrightarrow> lower_attr gid (lower_attr gid a) = lower_attr gid a"
  by (auto simp: lower_attr_def Let_def chown_attr_def drop_set_ids_group and_or_own)

lemma lower_step_at:
  assumes "\<forall>i. \<not> refuses i" "gid \<noteq> -1" "followed n = Some i" "own_inode n = i"
  shows "lower_step refuses gid n s = (True, s(i := lower_attr gid (s i)))"
  using assms
  by (cases "at_gid (s i) = gid"; cases "at_mode (s i) AND 0x38 = 0x38")
    (simp_all add: lower_step_def lower_attr_def Let_def os_chown_def os_chmod_def chown_inode_def chmod_inode_def)

lemma pointwise_lower:
  "\<forall>i. \<not> refuses i \<Longrightarrow> gid \<noteq> -1 \<Longrightarrow> pointwise (lower_attr gid) (lower_step refuses gid)"
  by (rule pointwiseI) (simp_all add: lower_step_at lower_attr_idem)

lemma upper_attr_idem: "uid \<noteq> -1 \<Longrightarrow> gid \<noteq> -1 \<Longrightarrow> upper_attr uid gid (upper_attr uid gid a) = upper_attr uid gid a"
  by (auto simp: upper_attr_def Let_def chown_attr_def drop_set_ids_perm)

lemma upper_step_at:
  assumes "\<forall>i. \<not> refuses i" "uid \<noteq> -1" "gid \<noteq> -1" "followed n = Some i" "own_inode n = i"
  shows "upper_work_step refuses uid gid n s = (True, s(i := upper_attr uid gid (s i)))"
  using assms
  by (cases "at_uid (s i) = uid \<and> at_gid (s i) = gid"; cases "at_mode (s i) AND 0x1FF = 0x1ED")
    (auto simp: upper_work_step_def upper_attr_def Let_def os_chown_def os_chmod_def chown_inode_def chmod_inode_def)

lemma pointwise_upper:
  "\<forall>i. \<not> refuses i \<Longrightarrow> uid \<noteq> -1 \<Longrightarrow> gid \<noteq> -1 \<Longrightarrow> pointwise (upper_attr uid gid) (upper_work_step refuses uid gid)"
  by (rule pointwiseI) (simp_all add: upper_step_at upper_attr_idem)

text \<open>One file after the walk that changes what needs it, and after the two that change everything.\<close>

lemma lower_attr_reference:
  fixes a :: attr
  assumes "gid \<noteq> -1"
  defines "b \<equiv> (chown_attr (-1) gid a)\<lparr>at_mode := at_mode (chown_attr (-1) gid a) OR 0x38\<rparr>"
  shows "at_uid (lower_attr gid a) = at_uid b" "at_gid (lower_attr gid a) = gid" "at_gid b = gid"
    "take_bit 10 (at_mode (lower_attr gid a)) = take_bit 10 (at_mode b)" "at_mode (lower_attr gid a) AND 0x38 = 0x38"
    "at_dir a \<or> no_set_ids (at_mode a) \<Longrightarrow> lower_attr gid a = b"
proof -
  have perm: "take_bit 10 (drop_set_ids m OR 0x38) = take_bit 10 (m OR 0x38)" for m
    by (simp only: take_bit_or drop_set_ids_permissions)
  have full: "m AND 0x38 = 0x38 \<Longrightarrow> m OR 0x38 = m" for m :: "32 word" by (rule or_absorb)
  have full': "m AND 0x38 = 0x38 \<Longrightarrow> drop_set_ids m OR 0x38 = drop_set_ids m" for m
    by (rule or_absorb) (simp add: drop_set_ids_group)
  have low: "m AND 0x38 = 0x38 \<Longrightarrow> drop_set_ids m AND 0x38 = 0x38" for m by (simp add: drop_set_ids_group)
  show "at_uid (lower_attr gid a) = at_uid b" "at_gid (lower_attr gid a) = gid" "at_gid b = gid"
    using assms(1) by (simp_all add: b_def lower_attr_def Let_def chown_attr_def)
  show "take_bit 10 (at_mode (lower_attr gid a)) = take_bit 10 (at_mode b)"
    using assms(1) by (simp add: b_def lower_attr_def Let_def chown_attr_def perm full full' drop_set_ids_permissions del: take_bit_or)
  show "at_mode (lower_attr gid a) AND 0x38 = 0x38"
    using assms(1) by (simp add: lower_attr_def Let_def chown_attr_def low and_or_own)
  assume "at_dir a \<or> no_set_ids (at_mode a)"
  then have m: "(if at_dir a then at_mode a else drop_set_ids (at_mode a)) = at_mode a" by (auto simp: drop_set_ids_plain)
  obtain u g md d where a: "a = \<lparr>at_uid = u, at_gid = g, at_mode = md, at_dir = d\<rparr>" by (cases a)
  show "lower_attr gid a = b" using assms(1) m by (auto simp: b_def lower_attr_def Let_def chown_attr_def full a)
qed

text \<open>
  C17. Where the lower directories of an overlay hold no symbolic link and the kernel refuses nothing, the walk
  over them, which changes only what needs it, succeeds and agrees with changing the group of everything and then
  adding the permissions of the group to everything: every file has the same owner, the group of the daemon and the
  same permissions, those of the group among them, and nothing else is changed. When no file has set-user-ID or
  set-group-ID the two agree in everything. Where one has, they need not (\<open>lower_set_ids_differ\<close>): the kernel takes
  these bits when the group is changed, and the walk writes back the mode from before.
\<close>

theorem lower_permissions_reference:
  assumes "walkable tree ps" "\<forall>i. \<not> refuses i" "gid \<noteq> -1"
    and "set_overlay_lower_permissions (Some (uid, gid)) refuses tree ps s = (ok, s1)"
    and "chgrp_recursive_unsafe (Some (uid, gid)) refuses tree ps s = (ok', s')"
    and "chmod_add_group_rwx_recursive_unsafe refuses tree ps s' = (ok'', s2)"
  shows "ok \<and> ok' \<and> ok'' \<and>
    (\<forall>i. at_uid (s1 i) = at_uid (s2 i) \<and> at_gid (s1 i) = at_gid (s2 i) \<and> take_bit 10 (at_mode (s1 i)) = take_bit 10 (at_mode (s2 i))) \<and>
    (\<forall>i \<in> paths_inodes tree ps. at_gid (s1 i) = gid \<and> at_mode (s1 i) AND 0x38 = 0x38) \<and>
    (\<forall>i. i \<notin> paths_inodes tree ps \<longrightarrow> s1 i = s i) \<and>
    ((\<forall>i \<in> paths_inodes tree ps. at_dir (s i) \<or> no_set_ids (at_mode (s i))) \<longrightarrow> s1 = s2)"
proof -
  have l: "ok" "s1 = changed (lower_attr gid) (paths_inodes tree ps) s"
    using walk_paths_pointwise [OF pointwise_lower [OF assms(2,3)] assms(1)] assms(4)
    by (simp_all add: set_overlay_lower_permissions_def)
  have g: "ok'" "s' = changed (chown_attr (-1) gid) (paths_inodes tree ps) s"
    using walk_paths_pointwise [OF pointwise_chown [OF assms(2)] assms(1)] assms(5) by (simp_all add: chgrp_recursive_unsafe_def)
  have c: "ok''" "s2 = changed (\<lambda>a. a\<lparr>at_mode := at_mode a OR 0x38\<rparr>) (paths_inodes tree ps) s'"
    using walk_paths_pointwise [OF pointwise_add_group [OF assms(2)] assms(1)] assms(6)
    by (simp_all add: chmod_add_group_rwx_recursive_unsafe_def)
  note ref = lower_attr_reference [OF assms(3)]
  have "ok \<and> ok' \<and> ok''" using l g c by simp
  moreover have "\<forall>i. at_uid (s1 i) = at_uid (s2 i) \<and> at_gid (s1 i) = at_gid (s2 i) \<and> take_bit 10 (at_mode (s1 i)) = take_bit 10 (at_mode (s2 i))"
    using ref(1-4) by (simp add: l(2) g(2) c(2) changed_comp) (simp add: changed_def)
  moreover have "\<forall>i \<in> paths_inodes tree ps. at_gid (s1 i) = gid \<and> at_mode (s1 i) AND 0x38 = 0x38"
    using ref(2,5) by (simp add: l(2) changed_def)
  moreover have "\<forall>i. i \<notin> paths_inodes tree ps \<longrightarrow> s1 i = s i" by (simp add: l(2) changed_def)
  moreover have "(\<forall>i \<in> paths_inodes tree ps. at_dir (s i) \<or> no_set_ids (at_mode (s i))) \<longrightarrow> s1 = s2"
    using ref(6) by (auto simp: l(2) g(2) c(2) changed_comp fun_eq_iff) (simp add: changed_def)
  ultimately show ?thesis by blast
qed

definition example_tree :: host where
  "example_tree = [''/lower'' \<mapsto> WDir 1 True (WCons ''a'' (WFile 2) (WCons ''d'' (WDir 3 True WNil) WNil))]"

definition example_attrs :: attrs where
  "example_attrs i = (if i = 2 then \<lparr>at_uid = 0, at_gid = 0, at_mode = 0x1A4, at_dir = False\<rparr>
     else if i = 9 then \<lparr>at_uid = 0, at_gid = 0, at_mode = 0x180, at_dir = False\<rparr>
     else \<lparr>at_uid = 988, at_gid = 988, at_mode = 0x1FF, at_dir = i \<noteq> 5\<rparr>)"

lemma lower_permissions_reference_witness:
  "case set_overlay_lower_permissions (Some (988, 988)) (\<lambda>_. False) example_tree [''/lower''] example_attrs of
     (ok, s1) \<Rightarrow> ok \<and> at_gid (s1 2) = 988 \<and> at_mode (s1 2) AND 0x38 = 0x38 \<and>
       s1 = snd (chmod_add_group_rwx_recursive_unsafe (\<lambda>_. False) example_tree [''/lower'']
         (snd (chgrp_recursive_unsafe (Some (988, 988)) (\<lambda>_. False) example_tree [''/lower''] example_attrs)))"
proof -
  have w: "walkable example_tree [''/lower'']" and i: "paths_inodes example_tree [''/lower''] = {1, 2, 3}"
    by (auto simp: walkable_def paths_inodes_def example_tree_def)
  have m: "\<forall>i \<in> {1, 2, 3}. at_dir (example_attrs i) \<or> no_set_ids (at_mode (example_attrs i))"
    by (simp add: example_attrs_def no_set_ids_def)
  have no: "\<forall>i :: nat. \<not> (\<lambda>_. False) i" and g: "(988 :: int) \<noteq> -1" by simp_all
  note r = lower_permissions_reference [OF w no g prod.collapse [symmetric] prod.collapse [symmetric] prod.collapse [symmetric],
      where uid = 988 and s = example_attrs, unfolded i]
  have "snd (set_overlay_lower_permissions (Some (988, 988)) (\<lambda>_. False) example_tree [''/lower''] example_attrs) =
      snd (chmod_add_group_rwx_recursive_unsafe (\<lambda>_. False) example_tree [''/lower'']
        (snd (chgrp_recursive_unsafe (Some (988, 988)) (\<lambda>_. False) example_tree [''/lower''] example_attrs)))"
    using r [THEN conjunct2, THEN conjunct2, THEN conjunct2, THEN conjunct2, THEN conjunct2, THEN conjunct2, THEN mp] m by blast
  moreover have "at_gid (snd (set_overlay_lower_permissions (Some (988, 988)) (\<lambda>_. False) example_tree [''/lower''] example_attrs) 2) = 988 \<and>
      at_mode (snd (set_overlay_lower_permissions (Some (988, 988)) (\<lambda>_. False) example_tree [''/lower''] example_attrs) 2) AND 0x38 = 0x38"
    using r [THEN conjunct2, THEN conjunct2, THEN conjunct2, THEN conjunct2, THEN conjunct1] by blast
  moreover note r [THEN conjunct1]
  ultimately show ?thesis by (simp only: split_beta simp_thms)
qed

text \<open>
  A program that is set-user-ID keeps that under the one walk, which writes back the mode it has seen, and loses it
  under the other.
\<close>

lemma lower_set_ids_differ:
  "let s = (\<lambda>_. \<lparr>at_uid = 0, at_gid = 0, at_mode = 0x9C0, at_dir = False\<rparr>) in
   at_mode (snd (set_overlay_lower_permissions (Some (988, 988)) (\<lambda>_. False) [''/lower'' \<mapsto> WFile 2] [''/lower''] s) 2) = 0x9F8 \<and>
   at_mode (snd (chmod_add_group_rwx_recursive_unsafe (\<lambda>_. False) [''/lower'' \<mapsto> WFile 2] [''/lower'']
     (snd (chgrp_recursive_unsafe (Some (988, 988)) (\<lambda>_. False) [''/lower'' \<mapsto> WFile 2] [''/lower''] s))) 2) = 0x1F8"
  by code_simp

text \<open>The walk over the upper and the working directory: the owner, and exactly 0755 where the mode is another.\<close>

lemma upper_permissions:
  assumes "walkable tree ps" "\<forall>i. \<not> refuses i" "uid \<noteq> -1" "gid \<noteq> -1"
  shows "set_overlay_upper_work_permissions (Some (uid, gid)) refuses tree ps s =
    (True, changed (upper_attr uid gid) (paths_inodes tree ps) s)"
  using walk_paths_pointwise [OF pointwise_upper [OF assms(2-4)] assms(1)] by (simp add: set_overlay_upper_work_permissions_def)

text \<open>What the functions that follow links do with one that a server can make: the file it leads to is changed.\<close>

definition linked_tree :: host where
  "linked_tree = [''/data'' \<mapsto> WDir 1 True (WCons ''l'' (WLink 5 (Some 9)) WNil)]"

lemma bind_mount_opens_link_target:
  "at_mode (example_attrs 9) = 0x180 \<and> (case set_bind_mount_permissions (Some (988, 988)) (\<lambda>_. False) (\<lambda>_. False) linked_tree
      [\<lparr>mt_default = False, mt_target = ''/t'', mt_source = ''/data'', mt_read_only = False\<rparr>] example_attrs of
    (ok, s) \<Rightarrow> ok \<and> at_gid (s 9) = 988 \<and> at_mode (s 9) = 0x1FF)"
  by (simp add: chgrp_recursive_unsafe_def chmod_add_group_rwx_recursive_unsafe_def linked_tree_def os_chown_def chown_inode_def
      add_group_rwx_def os_chmod_def chmod_inode_def example_attrs_def chown_attr_def drop_set_ids_def)

lemma upper_opens_link_target:
  "at_mode (example_attrs 9) = 0x180 \<and>
   (case set_overlay_upper_work_permissions (Some (988, 988)) (\<lambda>_. False) linked_tree [''/data''] example_attrs of
     (ok, s) \<Rightarrow> ok \<and> at_mode (s 9) = 0x1ED)"
  by code_simp

section \<open>The sandboxed walk\<close>

definition chown_only :: "int \<Rightarrow> int \<Rightarrow> nat set \<Rightarrow> attrs \<Rightarrow> attrs \<Rightarrow> bool" where
  "chown_only uid gid I s s' \<longleftrightarrow> (\<forall>i. s' i = s i \<or> i \<in> I \<and> s' i = chown_attr uid gid (s i))"

lemma chown_only_trans: "chown_only uid gid I s s1 \<Longrightarrow> chown_only uid gid J s1 s2 \<Longrightarrow> chown_only uid gid (I \<union> J) s s2"
  unfolding chown_only_def by (metis Un_iff chown_attr_idem)

lemma lchownat_only: "lchownat refuses uid gid n s = (ok, s') \<Longrightarrow>
    chown_only uid gid {own_inode n} s s' \<and> (ok \<longrightarrow> s' (own_inode n) = chown_attr uid gid (s (own_inode n)))"
  by (auto simp: lchownat_def chown_inode_def chown_only_def split: if_splits)

lemma walk_lchownat:
  shows "walk_node (lchownat refuses uid gid) t s = (ok, s') \<Longrightarrow>
      chown_only uid gid (node_inodes t) s s' \<and> (ok \<longrightarrow> (\<forall>i \<in> node_inodes t. s' i = chown_attr uid gid (s i)))"
    and "walk_dir (lchownat refuses uid gid) d s = (ok, s') \<Longrightarrow>
      chown_only uid gid (dir_inodes d) s s' \<and> (ok \<longrightarrow> (\<forall>i \<in> dir_inodes d. s' i = chown_attr uid gid (s i)))"
proof (induction t and d arbitrary: s ok s' and s ok s')
  case (WFile i)
  then show ?case using lchownat_only [of refuses uid gid "WFile i" s ok s'] by simp
next
  case (WLink i t)
  then show ?case using lchownat_only [of refuses uid gid "WLink i t" s ok s'] by simp
next
  case (WDir i r d)
  obtain k1 s1 where s1: "lchownat refuses uid gid (WDir i r d) s = (k1, s1)" by (metis surj_pair)
  have c1: "chown_only uid gid {i} s s1" "k1 \<longrightarrow> s1 i = chown_attr uid gid (s i)" using lchownat_only [OF s1] by auto
  show ?case
  proof (cases "k1 \<and> r")
    case False
    then have "s' = s1" "\<not> ok" using WDir(2) s1 by (auto split: bool.splits if_splits)
    then show ?thesis using c1 chown_only_trans [OF c1(1), of "dir_inodes d" s1] by (simp add: chown_only_def)
  next
    case True
    then have "walk_dir (lchownat refuses uid gid) d s1 = (ok, s')" using WDir(2) s1 by simp
    then have c2: "chown_only uid gid (dir_inodes d) s1 s'" "ok \<longrightarrow> (\<forall>j \<in> dir_inodes d. s' j = chown_attr uid gid (s1 j))"
      using WDir(1) by blast+
    have "s' j = chown_attr uid gid (s j)" if "ok" "j \<in> insert i (dir_inodes d)" for j
    proof (cases "j \<in> dir_inodes d")
      case True
      then show ?thesis using c2(2) c1(1) that(1) unfolding chown_only_def by (metis chown_attr_idem)
    next
      case False
      then show ?thesis using c2(1) c1(2) True that \<open>k1 \<and> r\<close> unfolding chown_only_def by (metis insertE)
    qed
    then show ?thesis using chown_only_trans [OF c1(1) c2(1)] by simp
  qed
next
  case WNil
  then show ?case by (simp add: chown_only_def)
next
  case (WCons n t d)
  obtain k1 s1 where s1: "walk_node (lchownat refuses uid gid) t s = (k1, s1)" by (metis surj_pair)
  have c1: "chown_only uid gid (node_inodes t) s s1" "k1 \<longrightarrow> (\<forall>j \<in> node_inodes t. s1 j = chown_attr uid gid (s j))"
    using WCons(1) [OF s1] by auto
  show ?case
  proof (cases k1)
    case False
    then have "s' = s1" "\<not> ok" using WCons(3) s1 by (auto split: bool.splits)
    then show ?thesis using c1(1) by (auto simp: chown_only_def)
  next
    case True
    then have "walk_dir (lchownat refuses uid gid) d s1 = (ok, s')" using WCons(3) s1 by simp
    then have c2: "chown_only uid gid (dir_inodes d) s1 s'" "ok \<longrightarrow> (\<forall>j \<in> dir_inodes d. s' j = chown_attr uid gid (s1 j))"
      using WCons(2) by blast+
    have "s' j = chown_attr uid gid (s j)" if "ok" "j \<in> node_inodes t \<union> dir_inodes d" for j
      using c1 c2 True that unfolding chown_only_def by (metis Un_iff chown_attr_idem)
    then show ?thesis using chown_only_trans [OF c1(1) c2(1)] by simp
  qed
qed

text \<open>
  C27. The walk of the sandboxed file system changes the owner of the entries of the tree alone, of links
  themselves and not of what they lead to, also when it fails on the way; when it succeeds all of them have the
  owner.
\<close>

theorem chown_confined:
  assumes "chown_sandboxed unlistable refuses uid gid t s = (ok, s')"
  shows "(\<forall>i. i \<notin> node_inodes t \<longrightarrow> s' i = s i) \<and> (\<forall>i. s' i = s i \<or> s' i = chown_attr uid gid (s i)) \<and>
    (ok \<longrightarrow> (\<forall>i \<in> node_inodes t. s' i = chown_attr uid gid (s i)))"
proof -
  obtain k1 s1 where s1: "lchownat refuses uid gid t s = (k1, s1)" by (metis surj_pair)
  have c1: "chown_only uid gid {own_inode t} s s1" "k1 \<longrightarrow> s1 (own_inode t) = chown_attr uid gid (s (own_inode t))"
    using lchownat_only [OF s1] by auto
  have own: "own_inode t \<in> node_inodes t" by (cases t) auto
  have "chown_only uid gid (node_inodes t) s s' \<and> (ok \<longrightarrow> (\<forall>i \<in> node_inodes t. s' i = chown_attr uid gid (s i)))"
  proof (cases "k1 \<and> (\<exists>i r d. t = WDir i r d)")
    case True
    have at: "lchownat refuses uid gid (WDir i r d) = lchownat refuses uid gid (WDir i r' d')" for i r r' d d'
      by (rule ext) (simp add: lchownat_def)
    have "walk_node (lchownat refuses uid gid) (listable unlistable t) s1 = (ok, s')"
      using assms s1 True walk_at_plain(1) [where f = "lchownat refuses uid gid", OF at, of unlistable "''.''" t s1]
      by (auto simp: chown_sandboxed_def walk_dirat_def split: prod.splits if_splits)
    moreover have "node_inodes (listable unlistable t) = node_inodes t" "dir_inodes (dir_listable unlistable d) = dir_inodes d" for d
      by (induction t and d) auto
    ultimately have "chown_only uid gid (node_inodes t) s1 s'" "ok \<longrightarrow> (\<forall>i \<in> node_inodes t. s' i = chown_attr uid gid (s1 i))"
      using walk_lchownat(1) by metis+
    then show ?thesis using c1(1) own unfolding chown_only_def by (metis chown_attr_idem singletonD)
  next
    case False
    then have "s' = s1 \<and> (ok \<longrightarrow> k1)" using assms s1 by (auto simp: chown_sandboxed_def split: wnode.splits bool.splits)
    moreover have "node_inodes t = {own_inode t}" if "k1" using False that by (cases t) auto
    moreover have "chown_only uid gid (node_inodes t) s s1" using c1(1) own by (auto simp: chown_only_def)
    ultimately show ?thesis using c1(2) by auto
  qed
  then show ?thesis by (auto simp: chown_only_def)
qed

lemma chown_confined_witness:
  "case chown_sandboxed (\<lambda>_. False) (\<lambda>i. i = 3) 988 988 (WDir 1 True (WCons ''l'' (WLink 2 (Some 9)) (WCons ''x'' (WFile 3) WNil))) example_attrs of
     (ok, s') \<Rightarrow> s' 9 = example_attrs 9"
proof -
  obtain ok s' where s': "chown_sandboxed (\<lambda>_. False) (\<lambda>i. i = 3) 988 988 (WDir 1 True (WCons ''l'' (WLink 2 (Some 9)) (WCons ''x'' (WFile 3) WNil)))
      example_attrs = (ok, s')" by (metis surj_pair)
  show ?thesis using chown_confined [OF s'] s' by simp
qed


section \<open>Directories\<close>

text \<open>A stable sort: an entry goes before the first that is not less than it, from the last on.\<close>

fun insert_by :: "('a \<Rightarrow> 'a \<Rightarrow> bool) \<Rightarrow> 'a \<Rightarrow> 'a list \<Rightarrow> 'a list" where
  "insert_by lt x [] = [x]"
| "insert_by lt x (y # ys) = (if lt y x then y # insert_by lt x ys else x # y # ys)"

definition stable_sort :: "('a \<Rightarrow> 'a \<Rightarrow> bool) \<Rightarrow> 'a list \<Rightarrow> 'a list" where
  "stable_sort lt xs = foldr (insert_by lt) xs []"

record file_stat =
  fi_name :: string
  fi_dir :: bool
  fi_mimetype :: string

text \<open>
  What is listed of an entry: \<open>detect\<close> is the type of the content of a regular file, if it can be opened and
  has one; \<open>None\<close> is that the entry or its file cannot be read, which ends the listing.
\<close>

datatype dir_entry_kind = EntryDir | EntryRegular | EntryOther

definition stat_entry :: "(string \<Rightarrow> bool) \<Rightarrow> (string \<Rightarrow> string option option) \<Rightarrow> string \<times> dir_entry_kind \<Rightarrow> file_stat option" where
  "stat_entry info detect e = (case e of (n, k) \<Rightarrow>
     if \<not> info n then None
     else let d = (if k = EntryDir then ''inode/directory'' else ''application/octet-stream'')
       in if k = EntryRegular then
            (case detect n of
               None \<Rightarrow> None
             | Some m \<Rightarrow> Some \<lparr>fi_name = n, fi_dir = False, fi_mimetype = (case m of Some m \<Rightarrow> m | None \<Rightarrow> d)\<rparr>)
          else Some \<lparr>fi_name = n, fi_dir = (k = EntryDir), fi_mimetype = d\<rparr>)"

fun read_dir_map :: "('a \<Rightarrow> 'b option) \<Rightarrow> 'a list \<Rightarrow> 'b list option" where
  "read_dir_map f [] = Some []"
| "read_dir_map f (e # es) = (case f e of None \<Rightarrow> None | Some v \<Rightarrow> map_option (\<lambda>vs. v # vs) (read_dir_map f es))"

definition list_directory :: "(string \<Rightarrow> bool) \<Rightarrow> (string \<Rightarrow> string option option) \<Rightarrow> (string \<times> dir_entry_kind) list option \<Rightarrow> file_stat list option" where
  "list_directory info detect entries = (case entries of
     None \<Rightarrow> None
   | Some es \<Rightarrow> (case read_dir_map (stat_entry info detect) es of
       None \<Rightarrow> None
     | Some out \<Rightarrow> Some (stable_sort (\<lambda>a b. fi_dir a \<and> \<not> fi_dir b) (stable_sort (\<lambda>a b. fi_name a < fi_name b) out))))"

lemma mset_insert_by: "mset (insert_by lt x xs) = add_mset x (mset xs)"
  by (induction xs) auto

lemma mset_stable_sort: "mset (stable_sort lt xs) = mset xs"
  by (induction xs) (simp_all add: stable_sort_def mset_insert_by)

lemma insert_by_sorted:
  assumes "sorted_wrt (\<lambda>a b. key a \<le> (key b :: 'b :: linorder)) xs"
  shows "sorted_wrt (\<lambda>a b. key a \<le> key b) (insert_by (\<lambda>a b. key a < key b) x xs)"
  using assms
proof (induction xs)
  case (Cons y ys)
  have "set (insert_by (\<lambda>a b. key a < key b) x ys) = insert x (set ys)"
    by (metis mset_insert_by set_mset_add_mset_insert set_mset_mset)
  then show ?case using Cons by (auto simp: not_less)
qed simp

lemma stable_sort_sorted: "sorted_wrt (\<lambda>a b. key a \<le> (key b :: 'b :: linorder)) (stable_sort (\<lambda>a b. key a < key b) xs)"
  by (induction xs) (simp_all add: stable_sort_def insert_by_sorted)

text \<open>Sorting by a condition moves what has it to the front and keeps the order on both sides.\<close>

lemma insert_by_split:
  assumes "\<forall>a \<in> set as. P a" "\<forall>b \<in> set bs. \<not> P b"
  shows "insert_by (\<lambda>a b. P a \<and> \<not> P b) x (as @ bs) = (if P x then x # as @ bs else as @ x # bs)"
proof (cases "P x")
  case True
  then show ?thesis using assms by (cases "as @ bs") auto
next
  case False
  have "insert_by (\<lambda>a b. P a \<and> \<not> P b) x bs = x # bs" using assms(2) by (cases bs) auto
  then show ?thesis using assms(1) False by (induction as) auto
qed

lemma stable_sort_split: "stable_sort (\<lambda>a b. P a \<and> \<not> P b) xs = filter P xs @ filter (\<lambda>x. \<not> P x) xs"
proof (induction xs)
  case (Cons x xs)
  have "stable_sort (\<lambda>a b. P a \<and> \<not> P b) (x # xs) = insert_by (\<lambda>a b. P a \<and> \<not> P b) x (stable_sort (\<lambda>a b. P a \<and> \<not> P b) xs)"
    by (simp add: stable_sort_def)
  also have "\<dots> = insert_by (\<lambda>a b. P a \<and> \<not> P b) x (filter P xs @ filter (\<lambda>x. \<not> P x) xs)" by (simp only: Cons)
  also have "\<dots> = filter P (x # xs) @ filter (\<lambda>x. \<not> P x) (x # xs)"
    by (subst insert_by_split) simp_all
  finally show ?case .
qed (simp add: stable_sort_def)

lemma read_dir_map_Some: "read_dir_map f es = Some vs \<Longrightarrow> map f es = map Some vs"
  by (induction es arbitrary: vs) (auto split: option.splits)

text \<open>
  A listing has every entry of the directory once, directories before everything else, and both parts in the
  order of their names, whatever order the kernel gave them in.
\<close>

theorem listing_sorted:
  assumes "list_directory info detect (Some es) = Some out"
  shows "mset (map fi_name out) = mset (map fst es) \<and>
    sorted_wrt (\<lambda>a b. (fi_dir a \<or> \<not> fi_dir b) \<and> (fi_dir a = fi_dir b \<longrightarrow> fi_name a \<le> fi_name b)) out \<and>
    (\<forall>x \<in> set out. (fi_name x, EntryDir) \<in> set es \<longrightarrow> distinct (map fst es) \<longrightarrow> fi_dir x)"
proof -
  obtain vs where vs: "read_dir_map (stat_entry info detect) es = Some vs"
    "out = stable_sort (\<lambda>a b. fi_dir a \<and> \<not> fi_dir b) (stable_sort (\<lambda>a b. fi_name a < fi_name b) vs)"
    using assms by (auto simp: list_directory_def split: option.splits)
  define by_name where "by_name = stable_sort (\<lambda>a b. fi_name a < fi_name b) vs"
  have out: "out = filter fi_dir by_name @ filter (\<lambda>x. \<not> fi_dir x) by_name"
    unfolding vs(2) by_name_def by (rule stable_sort_split)
  have perm: "mset out = mset vs" unfolding vs(2) by (simp add: mset_stable_sort)
  have entry: "stat_entry info detect e = Some v \<Longrightarrow> fi_name v = fst e \<and> (fi_dir v \<longleftrightarrow> snd e = EntryDir)" for e v
    by (cases e) (auto simp: stat_entry_def Let_def split: if_splits option.splits)
  have len: "map (stat_entry info detect) es = map Some vs" using read_dir_map_Some vs(1) by blast
  have nth: "fi_name (vs ! i) = fst (es ! i) \<and> (fi_dir (vs ! i) \<longleftrightarrow> snd (es ! i) = EntryDir)" if "i < length es" for i
  proof -
    have "stat_entry info detect (es ! i) = Some (vs ! i)" using len that by (metis length_map nth_map)
    then show ?thesis by (rule entry)
  qed
  have l: "length vs = length es" using len by (metis length_map)
  then have "map fi_name vs = map fst es" using nth by (intro nth_equalityI) auto
  then have names: "mset (map fi_name out) = mset (map fst es)" using perm by (metis mset_map)
  have sorted: "sorted_wrt (\<lambda>a b. fi_name a \<le> fi_name b) by_name" unfolding by_name_def by (rule stable_sort_sorted)
  have "sorted_wrt (\<lambda>a b. (fi_dir a \<or> \<not> fi_dir b) \<and> (fi_dir a = fi_dir b \<longrightarrow> fi_name a \<le> fi_name b)) out"
  proof -
    have "sorted_wrt (\<lambda>a b. (fi_dir a \<or> \<not> fi_dir b) \<and> (fi_dir a = fi_dir b \<longrightarrow> fi_name a \<le> fi_name b)) (filter Q by_name)"
      if "\<And>a b. Q a \<Longrightarrow> Q b \<Longrightarrow> fi_dir a = fi_dir b" for Q
      by (rule sorted_wrt_mono_rel [OF _ sorted_wrt_filter [OF sorted]]) (use that in auto)
    from this [of fi_dir] this [of "\<lambda>x. \<not> fi_dir x"] show ?thesis unfolding out by (simp add: sorted_wrt_append)
  qed
  moreover have "fi_dir x" if x: "x \<in> set out" "(fi_name x, EntryDir) \<in> set es" "distinct (map fst es)" for x
  proof -
    have "x \<in> set vs" using x(1) perm by (metis set_mset_mset)
    then obtain i where i: "i < length es" "vs ! i = x" using l by (auto simp: in_set_conv_nth)
    then have "(fst (es ! i), EntryDir) \<in> set es" using x(2) nth by metis
    moreover have "es ! i \<in> set es" using i(1) by simp
    ultimately have "es ! i = (fst (es ! i), EntryDir)" using x(3) by (metis eq_key_imp_eq_value prod.collapse)
    then show ?thesis using nth [OF i(1)] i(2) by (metis snd_conv)
  qed
  ultimately show ?thesis using names by blast
qed

lemma listing_sorted_witness:
  "\<exists>out. list_directory (\<lambda>_. True) (\<lambda>_. Some None) (Some [(''b'', EntryRegular), (''w'', EntryDir), (''a'', EntryOther)]) = Some out \<and>
     mset (map fi_name out) = {#''b'', ''w'', ''a''#}"
proof -
  obtain out where out: "list_directory (\<lambda>_. True) (\<lambda>_. Some None) (Some [(''b'', EntryRegular), (''w'', EntryDir), (''a'', EntryOther)]) = Some out"
    by (simp add: list_directory_def stat_entry_def)
  then show ?thesis using listing_sorted [OF out] by auto
qed

section \<open>Removing everything\<close>

text \<open>
  \<^verbatim>\<open>TruncateRootDirectory\<close>: the directory is removed and made anew, and the quota starts at nothing. The
  flags say which calls succeed; \<open>True\<close> beside the volume is that the directory is there.
\<close>

definition truncate_root_directory :: "bool \<Rightarrow> bool \<Rightarrow> bool \<Rightarrow> bool \<Rightarrow> Disk_Quota.volume \<Rightarrow> bool \<times> bool \<times> Disk_Quota.volume" where
  "truncate_root_directory removed made opened test v =
     (if \<not> removed then (False, True, v)
      else let v = v\<lparr>vo_names := []\<rparr> in
        if \<not> made then (False, False, v)
        else if \<not> opened then (False, True, v)
        else (True, True, new_quota (if test then 0 else vo_limit v) v))"

text \<open>\<^verbatim>\<open>Destroy\<close> does all three steps whatever fails; the errors are collected.\<close>

definition destroy_filesystem :: "bool \<Rightarrow> bool \<Rightarrow> bool \<Rightarrow> string list" where
  "destroy_filesystem closed overlay_destroyed removed =
     (if closed then [] else [''failed to close filesystem'']) @
     (if overlay_destroyed then [] else [''failed to destroy overlay'']) @
     (if removed then [] else [''failed to remove server files''])"

lemma truncated_volume_empty:
  "truncate_root_directory removed made opened test v = (True, there, w) \<Longrightarrow> there \<and> vo_names w = [] \<and> vo_usage w = 0"
  by (auto simp: truncate_root_directory_def new_quota_def Let_def split: if_splits)

text \<open>When the directory cannot be made again the server is left without one, and with the usage it had.\<close>

lemma truncated_volume_lost:
  "truncate_root_directory True False opened test v = (False, False, w) \<Longrightarrow> vo_names w = [] \<and> vo_usage w = vo_usage v"
  by (auto simp: truncate_root_directory_def Let_def)

end
