(* ===== verification/Console_Stream.thy ===== *)
theory Console_Stream
  imports Go_Strings
begin

text \<open>
  How the output of a container becomes the lines that are sent to clients, and the small helpers beside it:
  \<^verbatim>\<open>daemon/system/utils.go\<close>, which \<^verbatim>\<open>protocube/system/utils.go\<close> repeats.
\<close>

section \<open>Reading lines\<close>

abbreviation (input) nl :: char where "nl \<equiv> CHR 0x0A"
abbreviation (input) cr :: char where "cr \<equiv> CHR 0x0D"

definition reader_size :: nat where
  "reader_size = 256"

text \<open>
  \<^verbatim>\<open>bufio.Reader.ReadLine\<close> on what is left to read: the line without its end, whether it is only the head of a
  line that does not fit into the buffer, and what is left then; \<open>None\<close> at the end. A carriage return at the
  end of such a head is put back.
\<close>

definition read_line :: "string \<Rightarrow> (string \<times> bool \<times> string) option" where
  "read_line s =
     (if s = [] then None
      else if nl \<in> set (take reader_size s) then
        (let l = takeWhile (\<lambda>c. c \<noteq> nl) s
         in Some (if l \<noteq> [] \<and> last l = cr then butlast l else l, False, drop (length l + 1) s))
      else if reader_size \<le> length s then
        (let l = take reader_size s
         in if last l = cr then Some (butlast l, True, cr # drop reader_size s) else Some (l, True, drop reader_size s))
      else Some (s, False, []))"

lemma read_line_shorter: "read_line s = Some (l, p, r) \<Longrightarrow> length r < length s"
  by (auto simp: read_line_def reader_size_def Let_def split: if_splits)

text \<open>
  The inner loop of \<^verbatim>\<open>ScanReader\<close>: what is in the buffer when it ends, whether the end was reached, and what is
  left. A line that exceeds the size \<open>mx\<close> of the buffer is cut, and the rest of what was read of it dropped.
\<close>

function scan_line :: "nat \<Rightarrow> string \<Rightarrow> string \<Rightarrow> string \<times> bool \<times> string" where
  "scan_line mx buf s = (case read_line s of
     None \<Rightarrow> (buf, True, [])
   | Some (line, more, rest) \<Rightarrow>
       (let line = replace_all [CHR 0x20, cr] [cr, nl] line; ns = length buf + length line
        in if ns > mx then (buf @ take (length line - (ns - mx)) line, False, rest)
           else if \<not> more then (buf @ line, False, rest)
           else scan_line mx (buf @ line) rest))"
  by pat_completeness auto
termination
  by (relation "measure (\<lambda>(mx, buf, s). length s)") (auto dest: read_line_shorter)

declare scan_line.simps [simp del]

lemma scan_line_shorter: "scan_line mx buf s = (out, eof, r) \<Longrightarrow> \<not> eof \<Longrightarrow> length r < length s"
proof (induction mx buf s rule: scan_line.induct)
  case (1 mx buf s)
  show ?case
  proof (cases "read_line s")
    case None
    then show ?thesis using 1(2,3) by (simp add: scan_line.simps)
  next
    case (Some x)
    obtain line more rest where x: "x = (line, more, rest)" by (metis prod_cases3)
    have l: "length rest < length s" using read_line_shorter Some x by blast
    show ?thesis
    proof (cases "length buf + length (replace_all [CHR 0x20, cr] [cr, nl] line) > mx \<or> \<not> more")
      case True
      then show ?thesis using 1(2) Some x l by (auto simp: scan_line.simps [of mx buf s] Let_def split: if_splits)
    next
      case False
      then have "scan_line mx (buf @ replace_all [CHR 0x20, cr] [cr, nl] line) rest = (out, eof, r)"
        using 1(2) Some x by (simp add: scan_line.simps [of mx buf s] Let_def)
      then have "length r < length rest" using 1(1) [OF Some x [symmetric] refl refl refl] 1(3) False by (auto simp: Let_def)
      then show ?thesis using l by simp
    qed
  qed
qed

text \<open>
  \<^verbatim>\<open>ScanReader\<close>: what the callback is given, and whether it ended without an error. A reader that is \<open>broken\<close>
  fails after what it had to read, and then what is in the buffer is lost.
\<close>

function scan_reader :: "nat \<Rightarrow> bool \<Rightarrow> string \<Rightarrow> string list \<times> bool" where
  "scan_reader mx broken s = (case scan_line mx [] s of (buf, eof, rest) \<Rightarrow>
     if eof \<and> broken then ([], False)
     else let out = (if buf \<noteq> [] then [buf] else [])
       in if eof then (out, True) else (case scan_reader mx broken rest of (ls, ok) \<Rightarrow> (out @ ls, ok)))"
  by pat_completeness auto
termination
  by (relation "measure (\<lambda>(mx, broken, s). length s)") (auto dest: scan_line_shorter [OF sym])

declare scan_reader.simps [simp del]

text \<open>What is sent never exceeds the size of the buffer, whatever the container puts out.\<close>

lemma scan_line_bounded: "length buf \<le> mx \<Longrightarrow> length (fst (scan_line mx buf s)) \<le> mx"
proof (induction mx buf s rule: scan_line.induct)
  case (1 mx buf s)
  show ?case
  proof (cases "read_line s")
    case None
    then show ?thesis using 1(2) by (simp add: scan_line.simps)
  next
    case (Some x)
    obtain line more rest where x: "x = (line, more, rest)" by (metis prod_cases3)
    then show ?thesis using 1(1) [OF Some x [symmetric] refl refl refl] 1(2) x Some
      by (auto simp: scan_line.simps [of mx buf s] Let_def not_less)
  qed
qed

text \<open>
  Nothing that is sent of the output of a container is empty or longer than the size of the buffer, for any
  output, and reading comes to an end.
\<close>

theorem events_bounded:
  assumes "l \<in> set (fst (scan_reader mx broken s))"
  shows "l \<noteq> [] \<and> length l \<le> mx"
  using assms
proof (induction mx broken s rule: scan_reader.induct)
  case (1 mx broken s)
  obtain buf eof rest where l: "scan_line mx [] s = (buf, eof, rest)" by (metis prod_cases3)
  have b: "length buf \<le> mx" using scan_line_bounded [of "[]" mx s] l by simp
  show ?case
  proof (cases "l = buf \<and> buf \<noteq> []")
    case True
    then show ?thesis using b by simp
  next
    case False
    then have "\<not> eof" "l \<in> set (fst (scan_reader mx broken rest))"
      using 1(2) l by (auto simp: scan_reader.simps [of mx broken s] Let_def split: if_splits prod.splits)
    then show ?thesis using 1(1) [OF l [symmetric] refl _ refl] by (auto simp: Let_def)
  qed
qed


lemma events_bounded_witness:
  "length (hd (fst (scan_reader 4 False ''abcdefgh''))) \<le> 4"
proof -
  have "fst (scan_reader 4 False ''abcdefgh'') = [''abcd'']"
    by code_simp
  then show ?thesis using events_bounded [of "hd (fst (scan_reader 4 False ''abcdefgh''))" 4 False "''abcdefgh''"] by simp
qed

subsection \<open>Nothing is lost\<close>

lemma replace_no_cr: "cr \<notin> set s \<Longrightarrow> replace_all [CHR 0x20, cr] new s = s"
proof (induction s)
  case (Cons c s)
  have "\<not> has_prefix (c # s) [CHR 0x20, cr]" using Cons(2) by (auto simp: has_prefix_iff)
  then show ?case using Cons by simp
qed simp

lemma read_line_here:
  assumes "nl \<notin> set l" "cr \<notin> set l" "length l < reader_size"
  shows "read_line (l @ nl # rest) = Some (l, False, rest)"
proof -
  have "nl \<in> set (take reader_size (l @ nl # rest))" using assms(3) by (auto simp: take_Cons' )
  moreover have "takeWhile (\<lambda>c. c \<noteq> nl) (l @ nl # rest) = l" using assms(1) by (subst takeWhile_append2) auto
  moreover have "l \<noteq> [] \<Longrightarrow> last l \<noteq> cr" using assms(2) by (metis last_in_set)
  ultimately show ?thesis by (auto simp: read_line_def Let_def)
qed

lemma read_line_head:
  assumes "nl \<notin> set (take reader_size s)" "cr \<notin> set (take reader_size s)" "reader_size \<le> length s"
  shows "read_line s = Some (take reader_size s, True, drop reader_size s)"
proof -
  have "take reader_size s \<noteq> []" using assms(3) by (auto simp: reader_size_def)
  then have "last (take reader_size s) \<noteq> cr" "s \<noteq> []" using assms(2) last_in_set by (metis, auto)
  then show ?thesis using assms by (simp add: read_line_def Let_def)
qed

lemma scan_line_whole:
  "nl \<notin> set l \<Longrightarrow> cr \<notin> set l \<Longrightarrow> length buf + length l \<le> mx \<Longrightarrow> scan_line mx buf (l @ nl # rest) = (buf @ l, False, rest)"
proof (induction "length l" arbitrary: l buf rule: less_induct)
  case less
  show ?case
  proof (cases "length l < reader_size")
    case True
    then show ?thesis using read_line_here [OF less(2,3)] less(3,4) replace_no_cr
      by (simp add: scan_line.simps [of mx buf] Let_def)
  next
    case False
    let ?h = "take reader_size l" and ?t = "drop reader_size l"
    have h: "take reader_size (l @ nl # rest) = ?h" "drop reader_size (l @ nl # rest) = ?t @ nl # rest" using False by simp_all
    have sub: "nl \<notin> set ?h" "cr \<notin> set ?h" "nl \<notin> set ?t" "cr \<notin> set ?t"
      using less(2,3) by (meson in_set_takeD in_set_dropD)+
    have "read_line (l @ nl # rest) = Some (?h, True, ?t @ nl # rest)"
      using read_line_head [of "l @ nl # rest"] sub False unfolding h by simp
    moreover have "length buf + length ?h \<le> mx" "length (buf @ ?h) + length ?t \<le> mx" using less(4) by simp_all
    moreover have "length ?t < length l" using False by (simp add: reader_size_def)
    ultimately show ?thesis using less(1) [of ?t "buf @ ?h"] sub replace_no_cr
      by (simp add: scan_line.simps [of mx buf] Let_def)
  qed
qed

lemma scan_line_end:
  "nl \<notin> set l \<Longrightarrow> cr \<notin> set l \<Longrightarrow> length buf + length l \<le> mx \<Longrightarrow> \<exists>eof. scan_line mx buf l = (buf @ l, eof, [])"
proof (induction "length l" arbitrary: l buf rule: less_induct)
  case less
  show ?case
  proof (cases "length l < reader_size")
    case True
    have "nl \<notin> set (take reader_size l)" using less(2) by (meson in_set_takeD)
    then have "read_line l = (if l = [] then None else Some (l, False, []))" using True by (simp add: read_line_def)
    then show ?thesis using less(3,4) replace_no_cr by (auto simp: scan_line.simps [of mx buf] Let_def)
  next
    case False
    let ?h = "take reader_size l" and ?t = "drop reader_size l"
    have sub: "nl \<notin> set ?h" "cr \<notin> set ?h" "nl \<notin> set ?t" "cr \<notin> set ?t"
      using less(2,3) by (meson in_set_takeD in_set_dropD)+
    have "read_line l = Some (?h, True, ?t)" using read_line_head [of l] sub False by simp
    moreover have "length buf + length ?h \<le> mx" "length (buf @ ?h) + length ?t \<le> mx" using less(4) by simp_all
    moreover have "length ?t < length l" using False by (simp add: reader_size_def)
    ultimately show ?thesis using less(1) [of ?t "buf @ ?h"] sub replace_no_cr
      by (simp add: scan_line.simps [of mx buf] Let_def)
  qed
qed

text \<open>
  C25. Of an output without carriage returns whose lines fit into the buffer, every line that is not empty is
  sent, once, whole and in order, wherever the reads of its buffer end.
\<close>

theorem events_are_lines:
  assumes "cr \<notin> set s" "\<forall>l \<in> set (split_on nl s). length l \<le> mx"
  shows "scan_reader mx False s = (filter (\<lambda>l. l \<noteq> []) (split_on nl s), True)"
  using assms
proof (induction "length s" arbitrary: s rule: less_induct)
  case less
  show ?case
  proof (cases "nl \<in> set s")
    case True
    then obtain l rest where s: "s = l @ nl # rest" "nl \<notin> set l" by (meson split_list_first)
    have split: "split_on nl s = l # split_on nl rest" unfolding s(1) using split_on_append_sep s(2) by blast
    have "scan_line mx [] s = (l, False, rest)"
      using scan_line_whole [of l "[]" mx rest] s less(2,3) split by auto
    moreover have "scan_reader mx False rest = (filter (\<lambda>l. l \<noteq> []) (split_on nl rest), True)"
      using less(1) [of rest] less(2,3) s(1) split by simp
    ultimately show ?thesis by (simp add: scan_reader.simps [of mx False s] split)
  next
    case False
    then have split: "split_on nl s = [s]" by (rule split_on_single)
    obtain eof where e: "scan_line mx [] s = (s, eof, [])"
      using scan_line_end [OF False less(2), of "[]" mx] less(3) split by auto
    have "scan_reader mx False [] = ([], True)" by (simp add: scan_reader.simps scan_line.simps read_line_def)
    then show ?thesis using e by (simp add: scan_reader.simps [of mx False s] split)
  qed
qed

lemma events_are_lines_witness:
  "scan_reader 65536 False (''one'' @ [nl, nl] @ ''two'') = ([''one'', ''two''], True)"
proof -
  have "split_on nl (''one'' @ [nl, nl] @ ''two'') = [''one'', [], ''two'']" by code_simp
  then show ?thesis using events_are_lines [of "''one'' @ [nl, nl] @ ''two''" 65536] by simp
qed

text \<open>
  A longer line is not one event: what follows the piece that was cut comes as further events. A space and a
  carriage return that are read apart are not made into the end of a line.
\<close>

lemma long_line_split:
  "scan_reader 4 False (replicate 300 CHR ''a'') = ([''aaaa'', ''aaaa''], True)"
  by code_simp

lemma return_across_reads:
  "fst (scan_reader 1000 False (replicate 255 CHR ''a'' @ [CHR 0x20, cr] @ ''b'')) = [replicate 255 CHR ''a'' @ [CHR 0x20, cr] @ ''b'']"
  by code_simp

text \<open>What was read of a line before the reader fails is not sent.\<close>

lemma broken_reader_loses: "length s < reader_size \<Longrightarrow> nl \<notin> set s \<Longrightarrow> cr \<notin> set s \<Longrightarrow> s \<noteq> [] \<Longrightarrow> length s \<le> mx \<Longrightarrow>
    scan_reader mx True s = ([s], False)"
proof -
  assume h: "length s < reader_size" "nl \<notin> set s" "cr \<notin> set s" "s \<noteq> []" "length s \<le> mx"
  have "nl \<notin> set (take reader_size s)" using h(2) by (meson in_set_takeD)
  then have "read_line s = Some (s, False, [])" using h by (simp add: read_line_def)
  then have "scan_line mx [] s = (s, False, [])" using h replace_no_cr by (simp add: scan_line.simps [of mx "[]" s] Let_def)
  moreover have "scan_reader mx True [] = ([], False)" by (simp add: scan_reader.simps scan_line.simps read_line_def)
  ultimately show ?thesis using h(4) by (simp add: scan_reader.simps [of mx True s])
qed

section \<open>Helpers\<close>

definition first_not_empty :: "string list \<Rightarrow> string" where
  "first_not_empty vs = (case find (\<lambda>v. v \<noteq> []) vs of Some v \<Rightarrow> v | None \<Rightarrow> [])"

definition must_int :: "string \<Rightarrow> int go" where
  "must_int v = (case atoi v of (i, None) \<Rightarrow> Ret i | (_, Some _) \<Rightarrow> Panic)"

text \<open>\<^verbatim>\<open>SwapIf\<close>: the answer and the new value.\<close>

definition swap_if :: "bool \<Rightarrow> bool \<Rightarrow> bool \<times> bool" where
  "swap_if v cur = (if cur \<noteq> v then (True, v) else (False, cur))"

text \<open>\<^verbatim>\<open>PathId\<close>: the first eight of the digits of the digest \<open>sha\<close>.\<close>

definition path_id :: "(string \<Rightarrow> string) \<Rightarrow> string \<Rightarrow> string go" where
  "path_id sha target = (if length (sha target) < 8 then Panic else Ret (take 8 (sha target)))"

text \<open>\<^verbatim>\<open>FormatBytes\<close>: \<open>render b d\<close> is the quotient with one digit after the point.\<close>

function unit_loop :: "int \<Rightarrow> int \<Rightarrow> nat \<Rightarrow> int \<times> nat" where
  "unit_loop n d e = (if n \<ge> 1024 then unit_loop (n div 1024) (d * 1024) (e + 1) else (d, e))"
  by pat_completeness auto
termination by (relation "measure (\<lambda>(n, d, e). nat n)") auto

declare unit_loop.simps [simp del]

definition format_bytes :: "(int \<Rightarrow> int \<Rightarrow> string) \<Rightarrow> int \<Rightarrow> string go" where
  "format_bytes render b =
     (if b < 1024 then Ret (itoa b @ '' B'')
      else case unit_loop (b div 1024) 1024 0 of (d, e) \<Rightarrow>
        go_bind (go_index ''KMGTPE'' e) (\<lambda>u. Ret (render b d @ '' '' @ [u] @ ''iB'')))"

lemma unit_loop_exact:
  "0 < n \<Longrightarrow> unit_loop n d e = (d', e') \<Longrightarrow> \<exists>k. e' = e + k \<and> d' = d * 1024 ^ k \<and> 1024 ^ k \<le> n \<and> n < 1024 ^ (k + 1)"
proof (induction n d e rule: unit_loop.induct)
  case (1 n d e)
  show ?case
  proof (cases "n \<ge> 1024")
    case True
    then have "unit_loop (n div 1024) (d * 1024) (e + 1) = (d', e')" using 1(3) by (simp add: unit_loop.simps [of n])
    moreover have "0 < n div 1024" using True by (simp add: pos_imp_zdiv_pos_iff)
    ultimately obtain k where k: "e' = e + 1 + k" "d' = d * 1024 * 1024 ^ k" "1024 ^ k \<le> n div 1024" "n div 1024 < 1024 ^ (k + 1)"
      using 1(1) [OF True] by blast
    define p :: int where "p = 1024 ^ k"
    have "p \<le> n div 1024" "n div 1024 < 1024 * p" using k(3,4) by (simp_all add: p_def)
    moreover have "n = 1024 * (n div 1024) + n mod 1024" "0 \<le> n mod 1024" "n mod 1024 < 1024" by simp_all
    ultimately have "1024 * p \<le> n" "n < 1024 * (1024 * p)" by linarith+
    moreover have "e' = e + (k + 1)" "d' = d * 1024 ^ (k + 1)" "1024 ^ (k + 1) = 1024 * p" "1024 ^ (k + 1 + 1) = 1024 * (1024 * p)"
      using k(1,2) by (simp_all add: p_def)
    ultimately show ?thesis by metis
  next
    case False
    then show ?thesis using 1(2,3) by (intro exI [of _ 0]) (simp add: unit_loop.simps [of n])
  qed
qed

text \<open>Every number of 64 bits has a unit, in which it is at least 1 and less than 1024.\<close>

lemma format_bytes_unit:
  assumes "b < 2 ^ 64"
  shows "\<exists>s. format_bytes render b = Ret s" "1024 \<le> b \<Longrightarrow> unit_loop (b div 1024) 1024 0 = (d, e) \<Longrightarrow>
    e < 6 \<and> d = 1024 ^ (e + 1) \<and> d \<le> b \<and> b < 1024 * d"
proof -
  have u: "e < 6 \<and> d = 1024 ^ (e + 1) \<and> d \<le> b \<and> b < 1024 * d" if "1024 \<le> b" "unit_loop (b div 1024) 1024 0 = (d, e)" for d e
  proof -
    have "0 < b div 1024" using that(1) by (simp add: pos_imp_zdiv_pos_iff)
    then have k: "d = 1024 * 1024 ^ e" "1024 ^ e \<le> b div 1024" "b div 1024 < 1024 ^ (e + 1)"
      using unit_loop_exact [OF _ that(2)] by auto
    have "1024 * 1024 ^ e \<le> b" "b < 1024 * (1024 * 1024 ^ e)" using k(2,3) by auto
    moreover have "e < 6"
    proof (rule ccontr)
      assume "\<not> e < 6"
      then have "(1024 :: int) ^ 6 \<le> 1024 ^ e" by (intro power_increasing) auto
      then show False using k(2) assms by simp
    qed
    ultimately show ?thesis using k(1) by simp
  qed
  show "1024 \<le> b \<Longrightarrow> unit_loop (b div 1024) 1024 0 = (d, e) \<Longrightarrow> e < 6 \<and> d = 1024 ^ (e + 1) \<and> d \<le> b \<and> b < 1024 * d"
    using u by blast
  show "\<exists>s. format_bytes render b = Ret s"
  proof (cases "b < 1024")
    case False
    obtain d e where de: "unit_loop (b div 1024) 1024 0 = (d, e)" by (metis surj_pair)
    then have "e < 6" using u [OF _ de] False by simp
    then show ?thesis using de False by (simp add: format_bytes_def go_index_def)
  qed (simp add: format_bytes_def)
qed

lemma must_int_itoa: "in_int64 i \<Longrightarrow> must_int (itoa i) = Ret i"
  by (simp add: must_int_def atoi_itoa)

end
