(* ===== verification/Key_Commands.thy ===== *)
theory Key_Commands
  imports Go_Strings
begin

text \<open>
  The commands for API keys of Protocube's command line (\<^verbatim>\<open>protocube/cmd/api_key_commands.go\<close>): the request for a
  new key from flags or from what is typed, and the table of keys. Reading identifiers, durations and
  environments is done by packages, which are arguments, and the service that stores the keys is another. The
  table is that of texts of ASCII characters, which are as wide as they are long.
\<close>

section \<open>Scopes and durations\<close>

definition parse_scopes :: "string \<Rightarrow> string list" where
  "parse_scopes s = (if s = [] then [] else filter (\<lambda>p. p \<noteq> []) (map trim_space (split_on CHR '','' s)))"

text \<open>A duration is a number of nanoseconds of 64 bits. The product of days wraps around.\<close>

definition day_nanoseconds :: int where
  "day_nanoseconds = 24 * 3600 * 1000000000"

definition parse_expires_in :: "(string \<Rightarrow> int option) \<Rightarrow> string \<Rightarrow> int option" where
  "parse_expires_in duration s = (let s = trim_space s in
     if has_suffix s ''d'' then
       (case atoi (trim_suffix s ''d'') of (n, None) \<Rightarrow> Some (wrap64 (n * day_nanoseconds)) | (_, Some _) \<Rightarrow> None)
     else duration s)"

text \<open>What a list of scopes is written as is read back.\<close>

lemma parse_scopes_join:
  assumes "\<forall>x \<in> set xs. x \<noteq> [] \<and> CHR '','' \<notin> set x \<and> trim_space x = x"
  shows "parse_scopes (join_with '','' xs) = xs"
proof (cases xs)
  case Nil
  then show ?thesis by (simp add: parse_scopes_def)
next
  case (Cons x ys)
  then have "join_with '','' xs \<noteq> []" using assms by (cases ys) auto
  moreover have "split_on CHR '','' (join_with '','' xs) = xs" using assms Cons by (intro split_join) auto
  moreover have "map trim_space xs = xs" using assms by (intro map_idI) auto
  moreover have "filter (\<lambda>p. p \<noteq> []) xs = xs" using assms by (auto simp: filter_id_conv)
  ultimately show ?thesis by (simp add: parse_scopes_def)
qed

lemma days_exact: "0 \<le> n \<Longrightarrow> n \<le> 106751 \<Longrightarrow> wrap64 (n * day_nanoseconds) = n * day_nanoseconds"
  by (rule wrap64_id) (auto simp: in_int64_def int64_min_def int64_max_def day_nanoseconds_def)

text \<open>A key that is to live for 106752 days, 292 years, has a negative duration.\<close>

lemma days_wrap: "parse_expires_in duration ''106752d'' = Some (-9223371273709551616)"
proof -
  have "has_suffix (trim_space ''106752d'') ''d''" "atoi (trim_suffix (trim_space ''106752d'') ''d'') = (106752, None)" by code_simp+
  then show ?thesis by (simp add: parse_expires_in_def Let_def day_nanoseconds_def wrap64_def)
qed

section \<open>Requests\<close>

record key_request =
  kq_name :: string
  kq_owner :: string
  kq_organization :: string
  kq_scopes :: "string list"
  kq_description :: string
  kq_environment :: string
  kq_expires :: "int option"
  kq_metadata :: "(string, string) gomap"

definition nil_uuid :: string where
  "nil_uuid = ''00000000-0000-0000-0000-000000000000''"

record key_flags =
  kf_name :: string
  kf_owner :: string
  kf_scopes :: string
  kf_description :: string
  kf_environment :: string
  kf_expires :: string
  kf_metadata :: "string list"

fun cut_equals :: "string \<Rightarrow> (string \<times> string) option" where
  "cut_equals [] = None"
| "cut_equals (c # s) = (if c = CHR ''='' then Some ([], s) else map_option (\<lambda>(k, v). (c # k, v)) (cut_equals s))"

fun parse_metadata :: "string list \<Rightarrow> (string, string) gomap \<Rightarrow> (string, string) gomap option" where
  "parse_metadata [] m = Some m"
| "parse_metadata (kv # kvs) m = (case cut_equals kv of
     None \<Rightarrow> None
   | Some (k, v) \<Rightarrow> parse_metadata kvs (gm_set m (trim_space k) (trim_space v)))"

datatype key_error = NameRequired | OwnerRequired | BadOwner | BadEnvironment | BadExpiry | BadMetadata | BadKeyType

definition request_from_flags :: "(string \<Rightarrow> string option) \<Rightarrow> (string \<Rightarrow> string option) \<Rightarrow> (string \<Rightarrow> int option) \<Rightarrow> key_flags \<Rightarrow>
    key_error + key_request" where
  "request_from_flags uuid environment duration f =
     (if kf_name f = [] then Inl NameRequired
      else if kf_owner f = [] then Inl OwnerRequired
      else case uuid (kf_owner f) of None \<Rightarrow> Inl BadOwner | Some owner \<Rightarrow>
        (case environment (kf_environment f) of None \<Rightarrow> Inl BadEnvironment | Some env \<Rightarrow>
          (case (if kf_expires f = [] then Some None else map_option Some (duration (kf_expires f))) of
             None \<Rightarrow> Inl BadExpiry
           | Some expires \<Rightarrow> (case parse_metadata (kf_metadata f) [] of
               None \<Rightarrow> Inl BadMetadata
             | Some m \<Rightarrow> Inr \<lparr>kq_name = kf_name f, kq_owner = owner, kq_organization = nil_uuid,
                 kq_scopes = (if kf_scopes f = [] then [] else parse_scopes (kf_scopes f)), kq_description = kf_description f,
                 kq_environment = env, kq_expires = expires, kq_metadata = m\<rparr>))))"

text \<open>What is typed is a list of lines; the end of the input is an empty one.\<close>

definition prompt :: "string \<Rightarrow> string list \<Rightarrow> string \<times> string list" where
  "prompt dflt ls = (let line = (case ls of [] \<Rightarrow> [] | l # _ \<Rightarrow> trim_space l)
     in (if line = [] \<and> dflt \<noteq> [] then dflt else line, tl ls))"

definition base_scopes :: "string \<Rightarrow> string list option" where
  "base_scopes kind = (let k = to_lower (trim_space kind) in
     if k = ''n'' \<or> k = ''node'' then Some [''node'']
     else if k = ''a'' \<or> k = ''app'' \<or> k = ''application'' then Some [''app:admin''] else None)"

definition request_interactive :: "(string \<Rightarrow> int option) \<Rightarrow> string \<Rightarrow> key_flags \<Rightarrow> string list \<Rightarrow> key_error + key_request" where
  "request_interactive duration owner f ls = (case prompt (kf_name f) ls of (n, ls) \<Rightarrow>
     if n = [] then Inl NameRequired
     else case prompt [] ls of (kind, ls) \<Rightarrow> (case base_scopes kind of
         None \<Rightarrow> Inl BadKeyType
       | Some base \<Rightarrow> (case prompt [] ls of (extra, ls) \<Rightarrow>
          case prompt (kf_description f) ls of (descr, ls) \<Rightarrow>
          case prompt (kf_expires f) ls of (expiry, ls) \<Rightarrow>
            (case (if expiry = [] then Some None else map_option Some (parse_expires_in duration expiry)) of
               None \<Rightarrow> Inl BadExpiry
             | Some expires \<Rightarrow> Inr \<lparr>kq_name = n, kq_owner = owner, kq_organization = nil_uuid,
                 kq_scopes = base @ parse_scopes extra, kq_description = descr, kq_environment = ''live'',
                 kq_expires = expires, kq_metadata = []\<rparr>))))"

text \<open>A key that was typed in has one of the two scopes the routes ask for; one from flags may have none.\<close>

lemma typed_key_has_scope:
  "request_interactive duration owner f ls = Inr r \<Longrightarrow> hd (kq_scopes r) \<in> {''node'', ''app:admin''} \<and> kq_name r \<noteq> []"
  by (auto simp: request_interactive_def base_scopes_def Let_def split: prod.splits if_splits option.splits)

lemma flag_key_without_scope:
  "\<exists>r. request_from_flags Some Some (\<lambda>_. None) \<lparr>kf_name = ''k'', kf_owner = ''o'', kf_scopes = [], kf_description = [],
     kf_environment = ''live'', kf_expires = [], kf_metadata = []\<rparr> = Inr r \<and> kq_scopes r = []"
  by (simp add: request_from_flags_def)

section \<open>The table of keys\<close>

record key_row =
  kr_id :: string
  kr_name :: string
  kr_prefix :: string
  kr_scopes :: "string list"
  kr_expires :: "(string \<times> bool) option"
  kr_revoked :: bool

definition short_name :: "string \<Rightarrow> string" where
  "short_name n = (if length n > 36 then take 34 n @ ''..'' else n)"

text \<open>The cells of a key: the time at which it expires is already a text, with whether it is past.\<close>

definition row_cells :: "key_row \<Rightarrow> string list" where
  "row_cells k = [kr_id k, short_name (kr_name k), kr_prefix k, join_with '','' (kr_scopes k),
     (case kr_expires k of None \<Rightarrow> ''never'' | Some (t, _) \<Rightarrow> t)]"

definition header_cells :: "string list" where
  "header_cells = [''ID'', ''Name'', ''Prefix'', ''Scopes'', ''Expires At'']"

definition column_widths :: "key_row list \<Rightarrow> nat list" where
  "column_widths ks = fold (\<lambda>k ws. map2 (\<lambda>c w. if length c > w then length c else w) (row_cells k) ws) ks (map length header_cells)"

definition pad :: "nat \<Rightarrow> string \<Rightarrow> string" where
  "pad w s = s @ replicate (w - length s) CHR '' ''"

definition table_line :: "nat list \<Rightarrow> string list \<Rightarrow> string" where
  "table_line ws cells = join_with ''   '' (map2 pad ws cells)"

definition total_width :: "nat list \<Rightarrow> nat" where
  "total_width ws = sum_list ws + 3 * (length ws - 1)"

text \<open>\<open>gray\<close> and \<open>red\<close> put the codes of a colour around a text.\<close>

definition key_line :: "(string \<Rightarrow> string) \<Rightarrow> (string \<Rightarrow> string) \<Rightarrow> nat list \<Rightarrow> key_row \<Rightarrow> string" where
  "key_line gray red ws k = (let expired = (case kr_expires k of Some (_, past) \<Rightarrow> past | None \<Rightarrow> False);
       cells = (if expired then (row_cells k)[4 := gray (row_cells k ! 4)] else row_cells k)
     in table_line ws cells @ (if kr_revoked k then '' '' @ red ''(revoked)'' else []) @ (if expired then '' '' @ red ''(expired)'' else []))"

definition list_api_keys :: "(string \<Rightarrow> string) \<Rightarrow> (string \<Rightarrow> string) \<Rightarrow> key_row list \<Rightarrow> string list" where
  "list_api_keys gray red ks =
     (if ks = [] then [''No API keys found.'']
      else let ws = column_widths ks; rule = replicate (total_width ws) CHR ''-''
        in [''=== API Keys ==='', table_line ws header_cells, rule] @ map (key_line gray red ws) ks @ [rule])"


lemma wide_step:
  assumes "length cells = length ws"
  shows "length (map2 (\<lambda>c w. if length c > w then length c else w) cells ws) = length ws \<and>
    (\<forall>j < length ws. ws ! j \<le> map2 (\<lambda>c w. if length c > w then length c else w) cells ws ! j \<and>
      length (cells ! j) \<le> map2 (\<lambda>c w. if length c > w then length c else w) cells ws ! j)"
  using assms by auto

lemma column_widths_wide:
  "length (column_widths ks) = 5 \<and> (\<forall>j < 5. length (header_cells ! j) \<le> column_widths ks ! j \<and>
     (\<forall>k \<in> set ks. length (row_cells k ! j) \<le> column_widths ks ! j))"
proof (induction ks rule: rev_induct)
  case Nil
  have "length header_cells = 5" by code_simp
  then show ?case by (simp add: column_widths_def)
next
  case (snoc k ks)
  have l: "length (row_cells k) = length (column_widths ks)" using snoc by (simp add: row_cells_def)
  have s: "column_widths (ks @ [k]) = map2 (\<lambda>c w. if length c > w then length c else w) (row_cells k) (column_widths ks)"
    by (simp add: column_widths_def)
  define ws where "ws = column_widths (ks @ [k])"
  have len: "length ws = 5" and mono: "\<forall>j < 5. column_widths ks ! j \<le> ws ! j" and row: "\<forall>j < 5. length (row_cells k ! j) \<le> ws ! j"
    using wide_step [OF l] snoc unfolding s [symmetric] ws_def by simp_all
  have "length (x ! j) \<le> ws ! j" if "j < 5" "x = header_cells \<or> x \<in> row_cells ` set (ks @ [k])" for x j
  proof -
    have "length (x ! j) \<le> column_widths ks ! j \<or> x = row_cells k" using snoc that by auto
    then show ?thesis using mono row that(1) order.trans by blast
  qed
  then show ?case using len unfolding ws_def by auto
qed

lemma table_line_length:
  assumes "length cells = length ws" "\<forall>j < length ws. length (cells ! j) \<le> ws ! j"
  shows "length (table_line ws cells) = total_width ws"
  using assms
proof (induction ws arbitrary: cells)
  case (Cons w ws)
  obtain c cs where c: "cells = c # cs" "length cs = length ws" using Cons(2) by (cases cells) auto
  have w: "length (pad w c) = w" using Cons(3) c(1) by (force simp: pad_def)
  have IH: "length (table_line ws cs) = total_width ws"
    using Cons(1) [OF c(2)] Cons(3) c(1) by (metis Suc_less_eq length_Cons nth_Cons_Suc)
  show ?case
  proof (cases ws)
    case Nil
    then show ?thesis using c w by (simp add: table_line_def total_width_def)
  next
    case (Cons v vs)
    then have "map2 pad ws cs \<noteq> []" using c(2) by (cases cs) auto
    then show ?thesis using IH w Cons c(1) by (simp add: table_line_def total_width_def join_with_Cons)
  qed
qed (simp add: table_line_def total_width_def)

text \<open>
  Every line of the table, the header and the rules included, has the same width, but for the marks of keys
  that were revoked, when no key is expired; whatever the keys are.
\<close>

theorem table_aligned:
  assumes "ks \<noteq> []" "\<forall>k \<in> set ks. \<forall>t past. kr_expires k = Some (t, past) \<longrightarrow> \<not> past"
  shows "\<exists>n. list_api_keys gray red ks = [''=== API Keys ==='', table_line (column_widths ks) header_cells, replicate n CHR ''-''] @
      map (key_line gray red (column_widths ks)) ks @ [replicate n CHR ''-''] \<and>
    length (table_line (column_widths ks) header_cells) = n \<and>
    (\<forall>k \<in> set ks. key_line gray red (column_widths ks) k =
       table_line (column_widths ks) (row_cells k) @ (if kr_revoked k then '' '' @ red ''(revoked)'' else []) \<and>
       length (table_line (column_widths ks) (row_cells k)) = n)"
proof -
  let ?ws = "column_widths ks"
  have w: "length ?ws = 5" "\<forall>j < 5. length (header_cells ! j) \<le> ?ws ! j" "\<forall>k \<in> set ks. \<forall>j < 5. length (row_cells k ! j) \<le> ?ws ! j"
    using column_widths_wide by auto
  have "length (table_line ?ws header_cells) = total_width ?ws"
    using w by (intro table_line_length) (auto simp: header_cells_def)
  moreover have "length (table_line ?ws (row_cells k)) = total_width ?ws" if "k \<in> set ks" for k
    using w that by (intro table_line_length) (auto simp: row_cells_def)
  moreover have "key_line gray red ?ws k = table_line ?ws (row_cells k) @ (if kr_revoked k then '' '' @ red ''(revoked)'' else [])"
    if "k \<in> set ks" for k
  proof -
    have "\<not> (case kr_expires k of Some (_, past) \<Rightarrow> past | None \<Rightarrow> False)"
      using assms(2) that by (auto split: option.splits)
    then show ?thesis by (simp add: key_line_def Let_def)
  qed
  ultimately show ?thesis using assms(1) by (intro exI [of _ "total_width ?ws"]) (simp add: list_api_keys_def Let_def)
qed

lemma table_aligned_witness:
  "length (table_line (column_widths [\<lparr>kr_id = ''1'', kr_name = ''node one'', kr_prefix = ''ab'', kr_scopes = [''node''],
     kr_expires = None, kr_revoked = False\<rparr>]) header_cells) = 44"
proof -
  let ?k = "\<lparr>kr_id = ''1'', kr_name = ''node one'', kr_prefix = ''ab'', kr_scopes = [''node''], kr_expires = None, kr_revoked = False\<rparr>"
  have "list_api_keys (\<lambda>s. s) (\<lambda>s. s) [?k] ! 2 = replicate 44 CHR ''-''" by code_simp
  then show ?thesis using table_aligned [of "[?k]" "\<lambda>s. s" "\<lambda>s. s"] by (auto simp: replicate_eq_replicate)
qed

end
