(* ===== verification/Volume_Archives.thy ===== *)
theory Volume_Archives
  imports Disk_Quota Console_Stream Go_Path
begin

text \<open>
  Archives of a volume: \<^verbatim>\<open>daemon/server/filesystem/compress.go\<close> and \<^verbatim>\<open>archive.go\<close>, the errors of the file system
  (\<^verbatim>\<open>errors.go\<close>), and the readers and writers that count what passes (\<^verbatim>\<open>daemon/internal/ufs/quota_writer.go\<close>,
  \<^verbatim>\<open>daemon/internal/progress\<close>). The formats of archives are a library: an archive is the list of its entries, and
  a compressed file the list of what its reader gives.
\<close>

section \<open>Errors\<close>

datatype error_code = CodeIsDirectory | CodeDiskSpace | CodeUnknownArchive | CodePathResolution | CodeDenylistFile
  | CodeUnknownError | CodeNotExist

text \<open>
  An error is one of the file system, with its cause, the resolved and the given path, or it wraps another, or
  it is any other error.
\<close>

datatype fs_error = FsError error_code "fs_error option" string string | WrapError string fs_error | PlainError string

definition new_filesystem_error :: "error_code \<Rightarrow> fs_error option \<Rightarrow> fs_error" where
  "new_filesystem_error code err = FsError code err [] []"

definition new_bad_path_resolution :: "string \<Rightarrow> string \<Rightarrow> fs_error" where
  "new_bad_path_resolution path resolved = FsError CodePathResolution None resolved path"

fun unwrap_error :: "fs_error \<Rightarrow> fs_error option" where
  "unwrap_error (FsError c e r p) = e"
| "unwrap_error (WrapError m e) = Some e"
| "unwrap_error (PlainError m) = None"

text \<open>\<^verbatim>\<open>errors.As\<close>: the first error of the file system in the chain.\<close>

fun as_fs_error :: "fs_error \<Rightarrow> (error_code \<times> string) option" where
  "as_fs_error (FsError c e r p) = Some (c, r)"
| "as_fs_error (WrapError m e) = as_fs_error e"
| "as_fs_error (PlainError m) = None"

definition is_filesystem_error :: "fs_error option \<Rightarrow> bool" where
  "is_filesystem_error err = (case err of None \<Rightarrow> False | Some e \<Rightarrow> as_fs_error e \<noteq> None)"

definition is_error_code :: "fs_error option \<Rightarrow> error_code \<Rightarrow> bool" where
  "is_error_code err code = (case err of None \<Rightarrow> False | Some e \<Rightarrow> (case as_fs_error e of None \<Rightarrow> False | Some (c, r) \<Rightarrow> c = code))"

definition wrap_fs_error :: "fs_error option \<Rightarrow> string \<Rightarrow> fs_error option" where
  "wrap_fs_error err resolved =
     (if err = None \<or> is_filesystem_error err then err else Some (FsError CodeUnknownError err resolved []))"

definition or_empty :: "string \<Rightarrow> string" where
  "or_empty r = (if r = [] then ''<empty>'' else r)"

fun error_message :: "fs_error \<Rightarrow> string" where
  "error_message (FsError CodeIsDirectory e r p) = ''filesystem: cannot perform action: ['' @ r @ ''] is a directory''"
| "error_message (FsError CodeDiskSpace e r p) = ''filesystem: not enough disk space''"
| "error_message (FsError CodeUnknownArchive e r p) = ''filesystem: unknown archive format''"
| "error_message (FsError CodeDenylistFile e r p) = ''filesystem: file access prohibited: ['' @ or_empty r @ ''] is on the denylist''"
| "error_message (FsError CodePathResolution e r p) =
     ''filesystem: server path ['' @ p @ ''] resolves to a location outside the server root: '' @ or_empty r"
| "error_message (FsError CodeNotExist e r p) = ''filesystem: does not exist''"
| "error_message (FsError CodeUnknownError None r p) = ''filesystem: an error occurred: %!s(<nil>)''"
| "error_message (FsError CodeUnknownError (Some e) r p) = ''filesystem: an error occurred: '' @ error_message e"
| "error_message (WrapError m e) = m @ '': '' @ error_message e"
| "error_message (PlainError m) = m"

text \<open>\<^verbatim>\<open>handleWalkerError\<close>: what the walk is told of an error for an entry, whose information may be missing.\<close>

datatype walker_answer = WalkerError fs_error | WalkerSkipDir | WalkerGoOn

definition handle_walker_error :: "fs_error option \<Rightarrow> bool option \<Rightarrow> walker_answer" where
  "handle_walker_error err is_dir =
     (if \<not> is_error_code err CodePathResolution then (case err of Some e \<Rightarrow> WalkerError e | None \<Rightarrow> WalkerGoOn)
      else if is_dir = Some True then WalkerSkipDir else WalkerGoOn)"

text \<open>Wrapping once is enough, keeps what was a code, and the message names the cause.\<close>

lemma wrap_fs_error_idem: "wrap_fs_error (wrap_fs_error err r) r' = wrap_fs_error err r"
  by (cases err) (auto simp: wrap_fs_error_def is_filesystem_error_def)

lemma wrap_fs_error_code: "err \<noteq> None \<Longrightarrow> is_error_code (wrap_fs_error err r) c \<longleftrightarrow>
    is_error_code err c \<or> \<not> is_filesystem_error err \<and> c = CodeUnknownError"
  by (auto simp: wrap_fs_error_def is_error_code_def is_filesystem_error_def split: option.splits)

section \<open>Denied paths\<close>

text \<open>\<^verbatim>\<open>IsIgnored\<close>: \<open>matches\<close> is the compiled list of patterns.\<close>

fun is_ignored :: "(string \<Rightarrow> bool) \<Rightarrow> string list \<Rightarrow> fs_error option" where
  "is_ignored matches [] = None"
| "is_ignored matches (p # ps) = (if matches p then Some (FsError CodeDenylistFile None p p) else is_ignored matches ps)"

lemma is_ignored_None: "is_ignored matches ps = None \<longleftrightarrow> (\<forall>p \<in> set ps. \<not> matches p)"
  by (induction ps) auto

section \<open>Extracting\<close>

text \<open>
  An entry of an archive: the size of its header, what its reader gives, and what succeeds of opening it,
  making its file, the copy, the change of owner and of the times.
\<close>

record archive_entry =
  ae_name :: string
  ae_dir :: bool
  ae_size :: int
  ae_available :: int
  ae_opens :: bool
  ae_touched :: bool
  ae_copied :: bool
  ae_chowned :: bool
  ae_times :: bool

datatype extract_error = ExOpen | ExWrite quota_error | ExTimes | ExIO

fun extract_entries :: "(string \<Rightarrow> bool) \<Rightarrow> string \<Rightarrow> archive_entry list \<Rightarrow> volume \<Rightarrow> extract_error option \<times> volume" where
  "extract_entries matches dir [] v = (None, v)"
| "extract_entries matches dir (e # es) v =
     (if ae_dir e then extract_entries matches dir es v
      else let p = path_join [dir, ae_name e] in
        if is_ignored matches [p] \<noteq> None then extract_entries matches dir es v
        else if \<not> ae_opens e then (Some ExOpen, v)
        else case quota_write (fresh_inode v) p (ae_size e) (ae_available e) (ae_touched e) (ae_copied e) (ae_chowned e) v of
            (Some q, v) \<Rightarrow> (Some (ExWrite q), v)
          | (None, v) \<Rightarrow> (if \<not> ae_times e then (Some ExTimes, v) else extract_entries matches dir es v))"

text \<open>
  A compressed single file: every read gives a number of bytes and whether the reader goes on, ends or fails;
  of these bytes a write puts some into the file, all if it succeeds. Reading past the list is the end.
\<close>

datatype read_end = ReadGoesOn | ReadEnds | ReadFails

definition write_at :: "nat \<Rightarrow> int \<Rightarrow> int \<Rightarrow> volume \<Rightarrow> volume" where
  "write_at i off n v = set_size i (max (vo_sizes v i) (off + n)) v"

definition decompress_chunk :: "nat \<Rightarrow> int \<Rightarrow> int \<Rightarrow> int \<Rightarrow> volume \<Rightarrow> extract_error option \<times> volume" where
  "decompress_chunk i off n w v =
     (if n > 0 then
        (case has_space_for n v of
           Some q \<Rightarrow> (Some (ExWrite q), v)
         | None \<Rightarrow> (if w < n then (Some ExIO, write_at i off w v) else (None, quota_add n (write_at i off n v))))
      else (None, v))"

fun decompress_loop :: "nat \<Rightarrow> int \<Rightarrow> (int \<times> int \<times> read_end) list \<Rightarrow> volume \<Rightarrow> extract_error option \<times> volume" where
  "decompress_loop i off [] v = (None, v)"
| "decompress_loop i off ((n, w, e) # rs) v = (case decompress_chunk i off n w v of
     (Some x, v) \<Rightarrow> (Some x, v)
   | (None, v) \<Rightarrow> (case e of
       ReadEnds \<Rightarrow> (None, v)
     | ReadFails \<Rightarrow> (Some ExIO, v)
     | ReadGoesOn \<Rightarrow> decompress_loop i (off + n) rs v))"

text \<open>Opening to write makes the file or takes the one that is there, which keeps what it holds.\<close>

definition open_create :: "nat \<Rightarrow> string \<Rightarrow> volume \<Rightarrow> (nat \<times> volume) option" where
  "open_create fresh p v = (case gm_get (vo_names v) p of
     None \<Rightarrow> Some (fresh, create fresh p 0 v)
   | Some (FileEntry i) \<Rightarrow> Some (i, v)
   | Some _ \<Rightarrow> None)"

definition extract_single ::
  "(string \<Rightarrow> bool) \<Rightarrow> string \<Rightarrow> string \<Rightarrow> string \<Rightarrow> bool \<Rightarrow> (int \<times> int \<times> read_end) list \<Rightarrow> volume \<Rightarrow> extract_error option \<times> volume" where
  "extract_single matches dir name ext opens rs v = (let p = path_join [dir, trim_suffix name ext] in
     if is_ignored matches [p] \<noteq> None then (None, v)
     else if \<not> opens then (Some ExOpen, v)
     else case open_create (fresh_inode v) p v of
         None \<Rightarrow> (Some ExOpen, v)
       | Some (i, v) \<Rightarrow> decompress_loop i 0 rs v)"

text \<open>\<^verbatim>\<open>extractStream\<close>: an archive, a compressed file, or another format, for which nothing is done.\<close>

datatype stream_format =
    Extraction "archive_entry list"
  | Compression string bool "(int \<times> int \<times> read_end) list"
  | OtherFormat

definition extract_stream :: "(string \<Rightarrow> bool) \<Rightarrow> string \<Rightarrow> string \<Rightarrow> stream_format \<Rightarrow> volume \<Rightarrow> extract_error option \<times> volume" where
  "extract_stream matches dir name f v = (case f of
     Extraction es \<Rightarrow> extract_entries matches dir es v
   | Compression ext opens rs \<Rightarrow> extract_single matches dir name ext opens rs v
   | OtherFormat \<Rightarrow> (None, v))"

text \<open>
  \<^verbatim>\<open>DecompressFile\<close>: \<open>identify\<close> gives the format of a name, \<open>None\<close> when none matches, and an error otherwise;
  \<open>opened\<close> says whether the file can be opened.
\<close>

datatype decompress_error = DecOpen | DecUnknownArchive | DecIdentify | DecExtract extract_error

definition decompress_file ::
  "(string \<Rightarrow> bool) \<Rightarrow> (string \<Rightarrow> decompress_error + stream_format) \<Rightarrow> bool \<Rightarrow> string \<Rightarrow> string \<Rightarrow> volume \<Rightarrow> decompress_error option \<times> volume" where
  "decompress_file matches identify opened dir name v =
     (if \<not> opened then (Some DecOpen, v)
      else case identify name of
          Inl e \<Rightarrow> (Some e, v)
        | Inr f \<Rightarrow> (case extract_stream matches dir name f v of (e, v) \<Rightarrow> (map_option DecExtract e, v)))"

text \<open>\<^verbatim>\<open>ExtractStreamUnsafe\<close> has no name of a file.\<close>

definition extract_stream_unsafe ::
  "(string \<Rightarrow> bool) \<Rightarrow> (string \<Rightarrow> decompress_error + stream_format) \<Rightarrow> string \<Rightarrow> volume \<Rightarrow> decompress_error option \<times> volume" where
  "extract_stream_unsafe matches identify dir v = (case identify ''archive.tar.gz'' of
     Inl e \<Rightarrow> (Some e, v)
   | Inr f \<Rightarrow> (case extract_stream matches dir [] f v of (e, v) \<Rightarrow> (map_option DecExtract e, v)))"

text \<open>
  \<^verbatim>\<open>SpaceAvailableForDecompression\<close>: the walk over the archive adds up the sizes, a directory having one too;
  \<open>None\<close> is an entry that cannot be read, and \<open>fs\<close> whether the archive opens at all.
\<close>

datatype space_answer = SpaceOk | SpaceNone | SpaceUnknownArchive | SpaceError

fun space_loop :: "int \<Rightarrow> int option list \<Rightarrow> volume \<Rightarrow> space_answer" where
  "space_loop acc [] v = SpaceOk"
| "space_loop acc (None # es) v = SpaceError"
| "space_loop acc (Some n # es) v =
     (let acc = wrap64 (acc + n) in if \<not> can_fit acc v then SpaceNone else space_loop acc es v)"

definition space_available_for_decompression :: "decompress_error + int option list \<Rightarrow> volume \<Rightarrow> space_answer" where
  "space_available_for_decompression opened v =
     (if vo_limit v \<le> 0 then SpaceOk
      else case opened of
          Inl DecUnknownArchive \<Rightarrow> SpaceUnknownArchive
        | Inl _ \<Rightarrow> SpaceError
        | Inr es \<Rightarrow> space_loop 0 es v)"


section \<open>What extraction may do\<close>









text \<open>The limit is on the size of the header: with one near the largest integer the sum overflows, and anything fits.\<close>

lemma forged_size_escapes:
  "case extract_entries (\<lambda>_. False) ''/d'' [\<lparr>ae_name = ''x'', ae_dir = False, ae_size = 2 ^ 63 - 1, ae_available = 5000,
       ae_opens = True, ae_touched = True, ae_copied = True, ae_chowned = True, ae_times = True\<rparr>] example_volume of
     (r, v') \<Rightarrow> r = None \<and> vo_limit v' = 100 \<and> vo_usage v' = 5040"
  by code_simp


text \<open>A compressed file: the usage may be more than the files, when one was there before, but never exceeds the limit.\<close>

definition bounded_volume :: "volume \<Rightarrow> bool" where
  "bounded_volume v \<longleftrightarrow> (\<forall>i \<in> inodes v. 0 \<le> vo_sizes v i) \<and> total_size v \<le> vo_usage v \<and>
     vo_usage v \<le> vo_limit v \<and> 0 < vo_limit v \<and> vo_limit v < 2 ^ 62"

lemma write_at_total:
  assumes "i \<in> inodes v" "\<forall>j \<in> inodes v. 0 \<le> vo_sizes v j" "0 \<le> n" "0 \<le> off" "off \<le> vo_sizes v i"
  shows "inodes (write_at i off n v) = inodes v" "\<forall>j \<in> inodes v. 0 \<le> vo_sizes (write_at i off n v) j"
    "total_size v \<le> total_size (write_at i off n v)" "total_size (write_at i off n v) \<le> total_size v + n"
    "off + n \<le> vo_sizes (write_at i off n v) i"
proof -
  let ?w = "write_at i off n v" and ?R = "\<Sum>j \<in> inodes v - {i}. vo_sizes v j"
  show ino: "inodes ?w = inodes v" by (simp add: inodes_def write_at_def set_size_def)
  have "total_size ?w = max (vo_sizes v i) (off + n) + ?R"
    unfolding total_size_def ino using assms(1)
    by (subst sum.remove [of _ i]) (auto simp: write_at_def set_size_def intro: sum.cong)
  moreover have "total_size v = vo_sizes v i + ?R"
    unfolding total_size_def using assms(1) by (subst sum.remove [of _ i]) auto
  ultimately show "total_size v \<le> total_size ?w" "total_size ?w \<le> total_size v + n" using assms(3,5) by simp_all
qed (use assms in \<open>auto simp: write_at_def set_size_def\<close>)

lemma write_at_same [simp]: "vo_usage (write_at i off n v) = vo_usage v" "vo_limit (write_at i off n v) = vo_limit v"
  by (simp_all add: write_at_def set_size_def)

lemma usage_frame [simp]: "inodes (v\<lparr>vo_usage := k\<rparr>) = inodes v" "total_size (v\<lparr>vo_usage := k\<rparr>) = total_size v"
  by (simp_all add: inodes_def total_size_def)

lemma decompress_chunk_bounded:
  assumes "bounded_volume v" "i \<in> inodes v" "0 \<le> off" "off \<le> vo_sizes v i" "0 \<le> w" "0 \<le> n" "n \<le> 4096"
    "decompress_chunk i off n w v = (r, v')"
  shows "total_size v' \<le> vo_limit v' \<and> vo_limit v' = vo_limit v \<and> 0 \<le> vo_usage v' \<and> vo_usage v' \<le> vo_limit v' \<and>
    (r = None \<longrightarrow> bounded_volume v' \<and> i \<in> inodes v' \<and> off + n \<le> vo_sizes v' i)"
proof (cases "n > 0 \<and> can_fit n v")
  case False
  have "0 \<le> total_size v" using assms(1) by (auto simp: bounded_volume_def total_size_def intro: sum_nonneg)
  moreover have "v' = v" "r = None \<longrightarrow> n = 0" using assms(6,8) False
    by (auto simp: decompress_chunk_def has_space_for_def split: if_splits)
  ultimately show ?thesis using assms(1-4) by (auto simp: bounded_volume_def)
next
  case True
  have b: "total_size v \<le> vo_usage v" "vo_usage v \<le> vo_limit v" "0 < vo_limit v" "vo_limit v < 2 ^ 62"
      "\<forall>j \<in> inodes v. 0 \<le> vo_sizes v j" using assms(1) by (auto simp: bounded_volume_def)
  have t: "0 \<le> total_size v" using b(5) by (auto simp: total_size_def intro: sum_nonneg)
  have wrap: "wrap64 (vo_usage v + n) = vo_usage v + n"
    using b t assms(6,7) by (intro wrap64_id) (simp add: in_int64_def int64_min_def int64_max_def)
  then have room: "vo_usage v + n \<le> vo_limit v" using True b(1,3) t by (auto simp: can_fit_def split: if_splits)
  show ?thesis
  proof (cases "w < n")
    case True
    have "total_size (write_at i off w v) \<le> total_size v + w"
      using write_at_total(4) [OF assms(2) b(5) assms(5,3,4)] .
    moreover have "v' = write_at i off w v" "r = Some ExIO"
      using assms(8) True \<open>n > 0 \<and> can_fit n v\<close> by (auto simp: decompress_chunk_def has_space_for_def)
    ultimately show ?thesis using b t room True by simp
  next
    case False
    note wa = write_at_total [OF assms(2) b(5) assms(6,3,4)]
    have "v' = quota_add n (write_at i off n v)" using assms(8) False True by (auto simp: decompress_chunk_def has_space_for_def)
    also have "\<dots> = (write_at i off n v)\<lparr>vo_usage := vo_usage v + n\<rparr>"
      using wrap b(1) t assms(6) by (simp add: quota_add_def)
    finally have v': "v' = (write_at i off n v)\<lparr>vo_usage := vo_usage v + n\<rparr>" .
    show ?thesis using wa b t room assms(2,6) unfolding v' by (simp add: bounded_volume_def)
  qed
qed

lemma decompress_loop_bounded:
  assumes "bounded_volume v" "i \<in> inodes v" "0 \<le> off" "off \<le> vo_sizes v i" "\<forall>(n, w, e) \<in> set rs. 0 \<le> n \<and> n \<le> 4096 \<and> 0 \<le> w"
    "decompress_loop i off rs v = (r, v')"
  shows "total_size v' \<le> vo_limit v' \<and> vo_limit v' = vo_limit v \<and> 0 \<le> vo_usage v' \<and> vo_usage v' \<le> vo_limit v'"
  using assms
proof (induction rs arbitrary: v off)
  case Nil
  then have "0 \<le> total_size v" by (auto simp: bounded_volume_def total_size_def intro: sum_nonneg)
  then show ?case using Nil by (simp add: bounded_volume_def)
next
  case (Cons x rs)
  obtain n w e where x: "x = (n, w, e)" by (metis prod_cases3)
  have n: "0 \<le> n" "n \<le> 4096" "0 \<le> w" using Cons(6) x by auto
  obtain r1 v1 where c: "decompress_chunk i off n w v = (r1, v1)" by (metis surj_pair)
  note b = decompress_chunk_bounded [OF Cons(2-5) n(3,1,2) c]
  show ?case
  proof (cases "r1 = None \<and> e = ReadGoesOn")
    case True
    then have "decompress_loop i (off + n) rs v1 = (r, v')" using Cons(7) x c by simp
    then show ?thesis using Cons(1) [of v1 "off + n"] b True Cons(4,6) n by simp
  next
    case False
    then have "v' = v1" using Cons(7) x c by (cases e) (auto split: option.splits)
    then show ?thesis using b by simp
  qed
qed

lemma open_create_bounded:
  assumes "within_limit v" "open_create (fresh_inode v) p v = Some (i, w)"
  shows "bounded_volume w \<and> i \<in> inodes w \<and> 0 \<le> vo_sizes w i \<and> vo_limit w = vo_limit v"
proof -
  have inv: "disk_inv v" "total_size v \<le> vo_limit v" "0 < vo_limit v" "vo_limit v < 2 ^ 62" using assms(1) by (auto simp: within_limit_def)
  show ?thesis
  proof (cases "gm_get (vo_names v) p")
    case None
    then have w: "i = fresh_inode v" "w = create i p 0 v" using assms(2) by (auto simp: open_create_def)
    have "disk_inv (quota_add 0 w) \<and> total_size (quota_add 0 w) = total_size v + 0"
      unfolding w(2) using create_inv [OF inv(1) _ None] fresh_inode inv w(1) by auto
    moreover have "quota_add 0 w = w"
    proof -
      have "vo_usage w = total_size v" using inv(1) w(2) by (simp add: create_def set_size_def disk_inv_def)
      then show ?thesis using quota_add_exact [of w 0] total_nonneg [OF inv(1)] inv by simp
    qed
    moreover have "i \<in> inodes w" using w(2) by (auto simp: inodes_def create_def set_size_def intro!: exI [of _ p])
    ultimately show ?thesis using inv w(2) by (auto simp: bounded_volume_def disk_inv_def)
  next
    case (Some e)
    then have "e = FileEntry i" "w = v" using assms(2) by (auto simp: open_create_def split: entry.splits)
    then show ?thesis using Some inv by (auto simp: bounded_volume_def disk_inv_def inodes_def)
  qed
qed

text \<open>
  However long a compressed file turns out to be, and wherever reading or writing fails, decompressing it
  never makes the volume exceed its limit, nor the tracked usage.
\<close>

theorem decompression_within_quota:
  assumes "within_limit v" "\<forall>(n, w, e) \<in> set rs. 0 \<le> n \<and> n \<le> 4096 \<and> 0 \<le> w"
    "extract_stream matches dir name (Compression ext opens rs) v = (r, v')"
  shows "total_size v' \<le> vo_limit v \<and> 0 \<le> vo_usage v' \<and> vo_usage v' \<le> vo_limit v"
proof -
  have s: "extract_single matches dir name ext opens rs v = (r, v')" using assms(3) by (simp add: extract_stream_def)
  have same: "total_size v \<le> vo_limit v \<and> 0 \<le> vo_usage v \<and> vo_usage v \<le> vo_limit v"
    using assms(1) total_nonneg by (auto simp: within_limit_def disk_inv_def)
  let ?p = "path_join [dir, trim_suffix name ext]"
  show ?thesis
  proof (cases "matches ?p \<or> \<not> opens \<or> open_create (fresh_inode v) ?p v = None")
    case True
    then have "v' = v" using s by (auto simp: extract_single_def Let_def split: if_splits)
    then show ?thesis using same by simp
  next
    case False
    then obtain i w where w: "open_create (fresh_inode v) ?p v = Some (i, w)" by auto
    then have "decompress_loop i 0 rs w = (r, v')" using s False by (simp add: extract_single_def Let_def)
    then show ?thesis using decompress_loop_bounded [of w i 0 rs] open_create_bounded [OF assms(1) w] assms(2) by auto
  qed
qed

lemma decompression_within_quota_witness:
  "case extract_stream (\<lambda>_. False) ''/'' ''log.gz'' (Compression ''.gz'' True [(40, 40, ReadGoesOn), (40, 40, ReadEnds)]) example_volume of
     (r, v') \<Rightarrow> r = Some (ExWrite ErrDiskSpace) \<and> total_size v' \<le> 100"
proof -
  obtain r v' where r: "extract_stream (\<lambda>_. False) ''/'' ''log.gz'' (Compression ''.gz'' True [(40, 40, ReadGoesOn), (40, 40, ReadEnds)])
      example_volume = (r, v')" by (metis surj_pair)
  have "fst (extract_stream (\<lambda>_. False) ''/'' ''log.gz'' (Compression ''.gz'' True [(40, 40, ReadGoesOn), (40, 40, ReadEnds)]) example_volume) =
      Some (ExWrite ErrDiskSpace)" by code_simp
  moreover have "total_size v' \<le> vo_limit example_volume" using decompression_within_quota [OF example_volume_within _ r] by simp
  ultimately show ?thesis using r by (simp add: example_volume_def)
qed

text \<open>
  The file that is there is not emptied: what it held beyond the new bytes stays, and the usage counts the new
  bytes again. A name without the suffix of its format is decompressed onto itself.
\<close>

lemma old_tail_stays:
  "case extract_single (\<lambda>_. False) ''/'' ''a.txt.gz'' ''.gz'' True [(10, 10, ReadEnds)] example_volume of
     (r, v') \<Rightarrow> r = None \<and> vo_sizes v' 1 = 40 \<and> vo_usage v' = 50"
  by code_simp

lemma decompressed_onto_itself: "\<not> has_suffix name ext \<Longrightarrow> path_join [dir, trim_suffix name ext] = path_join [dir, name]"
  by (simp add: trim_suffix_def)


section \<open>The check before extracting\<close>

lemma space_loop_exact:
  assumes "\<forall>e \<in> set es. \<exists>n. e = Some n \<and> 0 \<le> n" "0 \<le> acc" "0 \<le> vo_usage v" "vo_usage v + acc + sum_list (map the es) < 2 ^ 63"
    "0 < vo_limit v" "es \<noteq> []"
  shows "space_loop acc es v = (if vo_usage v + acc + sum_list (map the es) \<le> vo_limit v then SpaceOk else SpaceNone)"
  using assms
proof (induction es arbitrary: acc)
  case (Cons e es)
  obtain n where n: "e = Some n" "0 \<le> n" using Cons(2) by auto
  have pos: "0 \<le> sum_list (map the es)" using Cons(2) by (intro sum_list_nonneg) auto
  then have w: "wrap64 (acc + n) = acc + n" "wrap64 (vo_usage v + (acc + n)) = vo_usage v + (acc + n)"
    using Cons(3-5) n by (auto intro!: wrap64_id simp: in_int64_def int64_min_def int64_max_def)
  have fit: "can_fit (acc + n) v \<longleftrightarrow> vo_usage v + acc + n \<le> vo_limit v"
    using w Cons(4,6) by (auto simp: can_fit_def)
  show ?case
  proof (cases "es = []")
    case True
    then show ?thesis using n w fit by (simp add: Let_def)
  next
    case False
    then have "space_loop (acc + n) es v = (if vo_usage v + (acc + n) + sum_list (map the es) \<le> vo_limit v then SpaceOk else SpaceNone)"
      using Cons n by (intro Cons(1)) auto
    then show ?thesis using n w fit pos by (auto simp: Let_def add.assoc)
  qed
qed simp

text \<open>
  On a volume with a limit and known usage, the check of an archive that can be read is the comparison of the
  sum of all its sizes with what is left.
\<close>

lemma space_available_exact:
  assumes "\<forall>e \<in> set es. \<exists>n. e = Some n \<and> 0 \<le> n" "0 \<le> vo_usage v" "vo_usage v + sum_list (map the es) < 2 ^ 63" "0 < vo_limit v" "es \<noteq> []"
  shows "space_available_for_decompression (Inr es) v =
    (if vo_usage v + sum_list (map the es) \<le> vo_limit v then SpaceOk else SpaceNone)"
  using space_loop_exact [OF assms(1), of 0 v] assms(2-5) by (simp add: space_available_for_decompression_def)

section \<open>Making an archive\<close>

text \<open>
  \<^verbatim>\<open>Archive\<close>: the base directory, the patterns to leave out, and the files to take, without which all are
  taken. \<^verbatim>\<open>Stream\<close> prepares its fields and then panics, because archives are switched off.
\<close>

record archive_config =
  ar_base :: string
  ar_ignore :: string
  ar_files :: "string list"

definition relative_file :: "string \<Rightarrow> string \<Rightarrow> string" where
  "relative_file path f = (if \<not> has_prefix f path then f else trim_prefix (trim_prefix f path) ''/'')"

definition prepare_archive :: "string \<Rightarrow> archive_config \<Rightarrow> archive_config" where
  "prepare_archive path a = a\<lparr>ar_base := trim_prefix (ar_base a) ''/'',
     ar_files := (if length (ar_files a) > 0 then map (relative_file path) (ar_files a) else ar_files a)\<rparr>"

definition archive_stream :: "string option \<Rightarrow> archive_config \<Rightarrow> (string + archive_config) go" where
  "archive_stream filesystem a = (case filesystem of
     None \<Rightarrow> Ret (Inl ''filesystem: archive.Filesystem is unset'')
   | Some path \<Rightarrow> Panic)"


text \<open>\<^verbatim>\<open>Create\<close>, and \<^verbatim>\<open>CompressFiles\<close>, which leaves the file it opened behind; \<open>stamp\<close> is the time.\<close>

definition archive_create :: "bool \<Rightarrow> bool go" where
  "archive_create opened = (if \<not> opened then Ret False else Panic)"

definition compress_files :: "string \<Rightarrow> string \<Rightarrow> bool \<Rightarrow> volume \<Rightarrow> bool go \<times> volume" where
  "compress_files dir stamp opened v =
     (let d = path_join [dir, ''archive-'' @ replace_all '':'' [] stamp @ ''.tar.gz''] in
      if \<not> opened then (Ret False, v)
      else case open_create (fresh_inode v) d v of
          None \<Rightarrow> (Ret False, v)
        | Some (i, v) \<Rightarrow> (Panic, v))"

lemma compress_always_panics: "opened \<Longrightarrow> open_create (fresh_inode v) (path_join [dir, ''archive-'' @ replace_all '':'' [] stamp @ ''.tar.gz'']) v = Some (i, w) \<Longrightarrow>
    compress_files dir stamp opened v = (Panic, w)"
  by (simp add: compress_files_def Let_def)

text \<open>
  The function for the entries of the walk: directories are left out, the name of the base is cut off, and a
  path is taken that is one of the files or below one.
\<close>

definition archive_base :: "archive_config \<Rightarrow> string" where
  "archive_base a = (if ar_base a \<noteq> [] then path_base (ar_base a) @ ''/'' else [])"

definition in_files :: "string list \<Rightarrow> string \<Rightarrow> bool" where
  "in_files fs rel \<longleftrightarrow> (\<exists>f \<in> set fs. f = rel \<or> has_prefix (trim_suffix rel ''/'' @ ''/'') (trim_suffix f ''/'' @ ''/''))"

text \<open>Which function is used; \<open>ignored\<close> is the compiled list of patterns.\<close>

definition archive_takes :: "(string \<Rightarrow> bool) \<Rightarrow> archive_config \<Rightarrow> string \<Rightarrow> bool" where
  "archive_takes ignored a rel =
     (if ar_files a = [] \<and> ar_ignore a \<noteq> [] then \<not> ignored rel
      else if ar_files a \<noteq> [] then in_files (ar_files a) rel
      else True)"

text \<open>
  What there is about an entry: its kind, size and what its reader gives. A link is read by its bare name,
  relative to the directory of the process.
\<close>

datatype link_answer = LinkTo string | LinkMissing | LinkFails

record walk_entry =
  we_name :: string
  we_relative :: string
  we_dir :: bool
  we_info :: bool
  we_gone :: bool
  we_socket :: bool
  we_symlink :: bool
  we_size :: int
  we_header :: bool
  we_header_written :: bool
  we_opens :: bool
  we_open_missing :: bool
  we_available :: int
  we_copied :: bool

text \<open>A tar entry: name, target of the link, size of the header, bytes that follow.\<close>

type_synonym tar_entry = "string \<times> string \<times> int \<times> int"

definition add_to_archive :: "(string \<Rightarrow> link_answer) \<Rightarrow> walk_entry \<Rightarrow> string \<Rightarrow> tar_entry list \<Rightarrow> bool \<times> tar_entry list" where
  "add_to_archive readlink e rel out =
     (if \<not> we_info e then (we_gone e, out)
      else if we_socket e then (True, out)
      else case (if we_symlink e then readlink (we_name e) else LinkTo []) of
          LinkMissing \<Rightarrow> (True, out)
        | LinkFails \<Rightarrow> (True, out)
        | LinkTo target \<Rightarrow>
            (if \<not> we_header e then (False, out)
             else let name = (if we_symlink e then we_name e else rel)
               in if \<not> we_header_written e then (False, out)
                  else if we_size e < 1 then (True, out @ [(name, target, we_size e, 0)])
                  else if \<not> we_opens e then (we_open_missing e, out @ [(name, target, we_size e, 0)])
                  else (we_copied e, out @ [(name, target, we_size e, min (we_size e) (we_available e))])))"

definition archive_callback :: "(string \<Rightarrow> bool) \<Rightarrow> (string \<Rightarrow> link_answer) \<Rightarrow> archive_config \<Rightarrow> walk_entry \<Rightarrow> tar_entry list \<Rightarrow> bool \<times> tar_entry list" where
  "archive_callback ignored readlink a e out =
     (if we_dir e then (True, out)
      else let rel = (if archive_base a \<noteq> [] then trim_prefix (we_relative e) (archive_base a) else we_relative e)
        in if \<not> archive_takes ignored a rel then (True, out) else add_to_archive readlink e rel out)"

text \<open>For clean relative paths, a file is taken just when one of the files is a path above it or itself.\<close>

lemma below_or_same:
  assumes "rooted_list fs" "fs \<noteq> []" "rooted_list rs" "rs \<noteq> []"
  shows "in_files [join_with ''/'' fs] (join_with ''/'' rs) \<longleftrightarrow> (\<exists>qs. rs = fs @ qs)"
proof -
  have t: "trim_suffix (join_with ''/'' fs) ''/'' = join_with ''/'' fs" "trim_suffix (join_with ''/'' rs) ''/'' = join_with ''/'' rs"
    using join_not_slash(3) [OF assms(1,2)] join_not_slash(3) [OF assms(3,4)] by (simp_all add: trim_suffix_def)
  have s: "split_on CHR ''/'' (join_with ''/'' cs @ CHR ''/'' # u) = cs @ split_on CHR ''/'' u" if "rooted_list cs" "cs \<noteq> []" for cs u
    using split_join [OF that(2) rooted_list_slash [OF that(1)]] by (simp add: split_on_join_append)
  have "\<exists>qs. rs = fs @ qs" if p: "has_prefix (join_with ''/'' rs @ ''/'') (join_with ''/'' fs @ ''/'')"
  proof -
    obtain u where "join_with ''/'' rs @ ''/'' = join_with ''/'' fs @ CHR ''/'' # u" using p by (auto simp: has_prefix_iff)
    then have "rs @ [[]] = fs @ split_on CHR ''/'' u" using s [OF assms(3,4), of "[]"] s [OF assms(1,2), of u] by simp
    moreover have "split_on CHR ''/'' u \<noteq> []" by simp
    ultimately show ?thesis by (metis append_butlast_last_id append_assoc butlast_snoc butlast_append)
  qed
  moreover have "has_prefix (join_with ''/'' (fs @ qs) @ ''/'') (join_with ''/'' fs @ ''/'')" for qs
    by (cases "qs = []") (simp_all add: join_with_append [OF assms(2)] has_prefix_iff)
  moreover have "has_prefix (join_with ''/'' rs @ ''/'') (join_with ''/'' fs @ ''/'')" if "join_with ''/'' fs = join_with ''/'' rs"
    unfolding that by (simp add: has_prefix_iff)
  ultimately show ?thesis unfolding in_files_def using t by auto
qed

text \<open>Two directories of one name: the inner one is cut off as if it were the base.\<close>

lemma base_cut_twice:
  "snd (archive_callback (\<lambda>_. False) (\<lambda>_. LinkMissing) \<lparr>ar_base = ''world'', ar_ignore = [], ar_files = []\<rparr>
     \<lparr>we_name = ''level'', we_relative = ''world/level'', we_dir = False, we_info = True, we_gone = False, we_socket = False,
       we_symlink = False, we_size = 3, we_header = True, we_header_written = True, we_opens = True, we_open_missing = False,
       we_available = 3, we_copied = True\<rparr> []) = [(''level'', [], 3, 3)]"
  by code_simp

text \<open>A file that goes away after its header was written leaves a header without its bytes, and no error.\<close>

lemma header_without_bytes:
  assumes "we_info e" "\<not> we_socket e" "\<not> we_symlink e" "we_header e" "we_header_written e" "1 \<le> we_size e" "\<not> we_opens e" "we_open_missing e"
  shows "add_to_archive readlink e rel out = (True, out @ [(rel, [], we_size e, 0)])"
  using assms by (simp add: add_to_archive_def Let_def)


section \<open>Counting what passes\<close>

text \<open>What a read or a write of the underlying file gives: a number of bytes, and whether it ended or failed.\<close>

datatype io_error = IoEOF | IoError string

record counted =
  ct_counter :: int
  ct_err :: "io_error option"

definition new_counted :: counted where
  "new_counted = \<lparr>ct_counter = 0, ct_err = None\<rparr>"

text \<open>\<^verbatim>\<open>Error\<close> of both: the end is none.\<close>

definition counted_error :: "counted \<Rightarrow> io_error option" where
  "counted_error c = (if ct_err c = Some IoEOF then None else ct_err c)"

text \<open>\<^verbatim>\<open>CountedReader.Read\<close>; \<open>result\<close> is what the underlying reader answers, if it is asked.\<close>

definition counted_read :: "int \<times> io_error option \<Rightarrow> counted \<Rightarrow> (int \<times> io_error option) \<times> counted" where
  "counted_read result c =
     (if ct_err c \<noteq> None then ((0, Some IoEOF), c)
      else let (n, err) = result; c = \<lparr>ct_counter = wrap64 (ct_counter c + n), ct_err = err\<rparr>
        in if err = Some IoEOF then ((n, Some IoEOF), c) else ((n, None), c))"

definition counted_write :: "int \<times> io_error option \<Rightarrow> counted \<Rightarrow> (int \<times> io_error option) \<times> counted" where
  "counted_write result c =
     (if ct_err c \<noteq> None then ((0, Some IoEOF), c)
      else let (n, err) = result; c = \<lparr>ct_counter = wrap64 (ct_counter c + n), ct_err = err\<rparr>
        in if err = Some IoEOF then ((n, Some IoEOF), c) else ((n, None), c))"

text \<open>
  \<^verbatim>\<open>io.Copy\<close> from a counted reader into a file that takes what it is given: the bytes, and the error, which the
  end of the reader is not. The answers of the reader are a list, past which it ends.
\<close>

fun copy_counted :: "(int \<times> io_error option) list \<Rightarrow> int \<Rightarrow> counted \<Rightarrow> (int \<times> io_error option) \<times> counted" where
  "copy_counted [] sent c = (case counted_read (0, Some IoEOF) c of ((n, e), c) \<Rightarrow> ((sent + n, None), c))"
| "copy_counted (r # rs) sent c = (case counted_read r c of
     ((n, Some IoEOF), c) \<Rightarrow> ((sent + n, None), c)
   | ((n, Some e), c) \<Rightarrow> ((sent + n, Some e), c)
   | ((n, None), c) \<Rightarrow> copy_counted rs (sent + n) c)"

text \<open>\<^verbatim>\<open>CountedWriter.ReadFrom\<close> copies from a counted reader of its own and adds what was copied.\<close>

definition counted_read_from :: "(int \<times> io_error option) list \<Rightarrow> counted \<Rightarrow> (int \<times> io_error option) \<times> counted" where
  "counted_read_from rs c = (case copy_counted rs 0 new_counted of
     ((n, e), _) \<Rightarrow> ((n, e), c\<lparr>ct_counter := wrap64 (ct_counter c + n)\<rparr>))"

text \<open>The bytes of the answers up to the first with an error.\<close>

fun read_until :: "(int \<times> io_error option) list \<Rightarrow> int" where
  "read_until [] = 0"
| "read_until ((n, None) # rs) = n + read_until rs"
| "read_until ((n, Some e) # rs) = n"

lemma counted_read_stuck: "ct_err c \<noteq> None \<Longrightarrow> counted_read r c = ((0, Some IoEOF), c)"
  by (simp add: counted_read_def)

text \<open>The copy gives all that was read before the first error, and an error of the reader is never reported.\<close>

lemma copy_counted_exact:
  "ct_err c = None \<Longrightarrow> fst (copy_counted rs sent c) = (sent + read_until rs, None)"
proof (induction rs sent c rule: copy_counted.induct)
  case (1 sent c)
  then show ?case by (simp add: counted_read_def)
next
  case (2 r rs sent c)
  obtain n err where r: "r = (n, err)" by (cases r)
  show ?case
  proof (cases err)
    case None
    let ?c = "\<lparr>ct_counter = wrap64 (ct_counter c + n), ct_err = None\<rparr>"
    have "counted_read r c = ((n, None), ?c)" using 2(2) r None by (simp add: counted_read_def)
    then show ?thesis using 2(1) [of "(n, None)" ?c n None] r None by (simp add: add.assoc)
  next
    case (Some e)
    have stuck: "fst (copy_counted rs s c') = (s, None)" if "ct_err c' \<noteq> None" for s c'
      using that by (cases rs) (auto simp: counted_read_stuck)
    show ?thesis
    proof (cases e)
      case IoEOF
      then show ?thesis using 2(2) r Some by (simp add: counted_read_def)
    next
      case (IoError m)
      then show ?thesis using 2(2) r Some stuck by (simp add: counted_read_def)
    qed
  qed
qed

lemma read_error_hidden:
  "counted_read_from [(10, None), (0, Some (IoError ''broken''))] new_counted = ((10, None), \<lparr>ct_counter = 10, ct_err = None\<rparr>)"
  by code_simp

section \<open>Progress\<close>

record progress =
  pg_written :: "64 word"
  pg_total :: "64 word"

definition new_progress :: "64 word \<Rightarrow> progress" where
  "new_progress t = \<lparr>pg_written = 0, pg_total = t\<rparr>"

definition set_total :: "64 word \<Rightarrow> progress \<Rightarrow> progress" where
  "set_total t p = p\<lparr>pg_total := t\<rparr>"

text \<open>\<^verbatim>\<open>Write\<close> counts the bytes it is given, whatever the writer behind it does of them.\<close>

definition progress_write :: "nat \<Rightarrow> (int \<times> io_error option) option \<Rightarrow> progress \<Rightarrow> (int \<times> io_error option) \<times> progress" where
  "progress_write n writer p = (case writer of None \<Rightarrow> (int n, None) | Some r \<Rightarrow> r, p\<lparr>pg_written := pg_written p + of_nat n\<rparr>)"

text \<open>\<^verbatim>\<open>Progress\<close>: \<open>ticks\<close> is the number of the ticks in floating point; \<open>render\<close> as for \<open>format_bytes\<close>.\<close>

definition clamp_ticks :: "int \<Rightarrow> int \<Rightarrow> int" where
  "clamp_ticks width t = (if t < 0 then 0 else if t > width then width else t)"

definition go_repeat :: "char \<Rightarrow> int \<Rightarrow> string go" where
  "go_repeat c n = (if n < 0 then Panic else Ret (replicate (nat n) c))"

definition progress_bar :: "(64 word \<Rightarrow> 64 word \<Rightarrow> int \<Rightarrow> int) \<Rightarrow> (int \<Rightarrow> int \<Rightarrow> string) \<Rightarrow> int \<Rightarrow> progress \<Rightarrow> string go" where
  "progress_bar ticks render width p =
     (let t = clamp_ticks width (ticks (pg_written p) (pg_total p) width) in
      go_bind (go_repeat CHR ''='' t) (\<lambda>b. go_bind (go_repeat CHR '' '' (width - t)) (\<lambda>r.
      go_bind (format_bytes render (uint (pg_written p))) (\<lambda>w. go_bind (format_bytes render (uint (pg_total p))) (\<lambda>l.
        Ret (''['' @ b @ r @ ''] '' @ w @ '' / '' @ l))))))"

text \<open>The bar is always as wide as asked for, and is always made.\<close>

lemma progress_bar_made:
  assumes "0 \<le> width"
  shows "\<exists>b r s. progress_bar ticks render width p = Ret (''['' @ b @ r @ ''] '' @ s) \<and> length b + length r = nat width \<and>
    set b \<subseteq> {CHR ''=''} \<and> set r \<subseteq> {CHR '' ''}"
proof -
  let ?t = "clamp_ticks width (ticks (pg_written p) (pg_total p) width)"
  have t: "0 \<le> ?t" "?t \<le> width" using assms by (auto simp: clamp_ticks_def)
  have r: "go_repeat CHR ''='' ?t = Ret (replicate (nat ?t) CHR ''='')" "go_repeat CHR '' '' (width - ?t) = Ret (replicate (nat (width - ?t)) CHR '' '')"
    using t by (simp_all add: go_repeat_def)
  obtain w l where "format_bytes render (uint (pg_written p)) = Ret w" "format_bytes render (uint (pg_total p)) = Ret l"
    using format_bytes_unit(1) [of "uint (pg_written p)"] format_bytes_unit(1) [of "uint (pg_total p)"]
      uint_lt2p [of "pg_written p"] uint_lt2p [of "pg_total p"] by (simp, blast)
  then have "progress_bar ticks render width p =
      Ret (''['' @ replicate (nat ?t) CHR ''='' @ replicate (nat (width - ?t)) CHR '' '' @ ''] '' @ w @ '' / '' @ l)"
    using r by (simp add: progress_bar_def Let_def)
  moreover have "nat ?t + nat (width - ?t) = nat width" using t by simp
  ultimately show ?thesis
    by (intro exI [of _ "replicate (nat ?t) CHR ''=''"] exI [of _ "replicate (nat (width - ?t)) CHR '' ''"] exI [of _ "w @ '' / '' @ l"]) auto
qed

end
