(* ===== verification/Boot_Config.thy ===== *)
theory Boot_Config
  imports Docker_Container Console_Stream
begin

text \<open>
  Reading the configuration of the programs and preparing the machine: \<^verbatim>\<open>daemon/config/config.go\<close>,
  \<^verbatim>\<open>protocube/config/config.go\<close>, \<^verbatim>\<open>protocube/config/software_defaults.go\<close> and \<^verbatim>\<open>slimepacks/config/config.go\<close>.
  Decoding YAML and the library of defaults are arguments; a list that a file does not name is \<open>None\<close>.
\<close>

section \<open>The configuration of the daemon\<close>

text \<open>
  \<^verbatim>\<open>defaults.Set\<close>, for each type of a field: the value of the tag, and the value of the field; and whether it
  also goes through the elements of a list that is there.
\<close>

record defaulter =
  df_string :: "string \<Rightarrow> string \<Rightarrow> string"
  df_int :: "int \<Rightarrow> int \<Rightarrow> int"
  df_bool :: "bool \<Rightarrow> bool \<Rightarrow> bool"
  df_list :: "string list \<Rightarrow> string list option \<Rightarrow> string list option"
  df_pointer :: "bool \<Rightarrow> bool option \<Rightarrow> bool option"
  df_float :: "rat \<Rightarrow> rat \<Rightarrow> rat"
  df_map :: "(string, string) gomap \<Rightarrow> (string, string) gomap option \<Rightarrow> (string, string) gomap option"
  df_elements :: bool

text \<open>As the library documents it, a field that has the zero value of its type gets the value of its tag.\<close>

definition fills_zero :: "defaulter \<Rightarrow> bool" where
  "fills_zero d \<longleftrightarrow> (\<forall>t v. df_string d t v = (if v = [] then t else v)) \<and> (\<forall>t v. df_int d t v = (if v = 0 then t else v)) \<and>
     (\<forall>t v. df_bool d t v = (if v then v else t)) \<and> (\<forall>t v. df_list d t v = (case v of None \<Rightarrow> Some t | Some l \<Rightarrow> Some l)) \<and>
     (\<forall>t v. df_pointer d t v = (case v of None \<Rightarrow> Some t | Some b \<Rightarrow> Some b)) \<and> (\<forall>t v. df_float d t v = (if v = 0 then t else v)) \<and>
     (\<forall>t v. df_map d t v = (case v of None \<Rightarrow> Some t | Some m \<Rightarrow> Some m))"

record allocation_settings =
  al_address :: string
  al_alias :: string
  al_force :: bool
  al_ports :: string

record throttle_settings =
  th_enabled :: bool
  th_lines :: int
  th_period :: int

record api_settings =
  ap_url :: string
  ap_host :: string
  ap_port :: int
  ap_tls :: "bool option"
  ap_cert :: string
  ap_key :: string

record user_settings =
  us_rootless :: bool
  us_container_uid :: int
  us_container_gid :: int
  us_uid :: int
  us_gid :: int

record system_settings =
  sy_root :: string
  sy_log :: string
  sy_allowed_mounts :: "string list option"
  sy_tmp :: string
  sy_timezone :: string
  sy_log_rotate :: bool
  sy_disk_check_interval :: int
  sy_user :: user_settings
  sy_openat_mode :: string
  sy_username :: string
  sy_data :: string
  sy_volumes :: string
  sy_servers :: string

text \<open>The settings for Docker; the logins at registries and the multipliers have no default, and a map may be missing.\<close>

record docker_settings =
  ds_interface :: string
  ds_dns :: "string list option"
  ds_network :: string
  ds_ispn :: bool
  ds_driver :: string
  ds_mode :: string
  ds_internal :: bool
  ds_icc :: bool
  ds_mtu :: int
  ds_v4_subnet :: string
  ds_v4_gateway :: string
  ds_v6_subnet :: string
  ds_v6_gateway :: string
  ds_domainname :: string
  ds_tmpfs :: int
  ds_pid_limit :: int
  ds_installer_memory :: int
  ds_installer_cpu :: int
  ds_overhead :: overhead
  ds_performant_inspect :: bool
  ds_userns_mode :: string
  ds_log_type :: string
  ds_log_config :: "(string, string) gomap option"
  ds_policy :: string
  ds_schedule :: string

record daemon_settings =
  cf_uuid :: string
  cf_debug :: bool
  cf_location :: string
  cf_node_name :: string
  cf_system :: system_settings
  cf_docker :: docker_settings
  cf_api :: api_settings
  cf_allocations :: "allocation_settings list"
  cf_throttles :: throttle_settings
  cf_remote_url :: string
  cf_remote_token :: string
  cf_query_timeout :: int
  cf_boot_servers :: int
  cf_origins :: "string list option"
  cf_private_network :: bool

definition default_allocation :: "defaulter \<Rightarrow> allocation_settings \<Rightarrow> allocation_settings" where
  "default_allocation d a = a\<lparr>al_address := df_string d ''0.0.0.0'' (al_address a), al_alias := df_string d ''127.0.0.1'' (al_alias a),
     al_ports := df_string d ''40000-45000'' (al_ports a)\<rparr>"

definition default_throttles :: "defaulter \<Rightarrow> throttle_settings \<Rightarrow> throttle_settings" where
  "default_throttles d t = t\<lparr>th_enabled := df_bool d True (th_enabled t), th_lines := df_int d 2000 (th_lines t),
     th_period := df_int d 100 (th_period t)\<rparr>"

definition default_api :: "defaulter \<Rightarrow> api_settings \<Rightarrow> api_settings" where
  "default_api d a = a\<lparr>ap_url := df_string d ''https://daemon.sls.net:5585'' (ap_url a), ap_host := df_string d ''0.0.0.0'' (ap_host a),
     ap_port := df_int d 5585 (ap_port a), ap_tls := df_pointer d True (ap_tls a),
     ap_cert := df_string d ''/etc/ssl/certs/sls.crt'' (ap_cert a), ap_key := df_string d ''/etc/ssl/private/sls.key'' (ap_key a)\<rparr>"

definition default_user :: "defaulter \<Rightarrow> user_settings \<Rightarrow> user_settings" where
  "default_user d u = u\<lparr>us_rootless := df_bool d False (us_rootless u), us_container_uid := df_int d 0 (us_container_uid u),
     us_container_gid := df_int d 0 (us_container_gid u), us_uid := df_int d 988 (us_uid u), us_gid := df_int d 988 (us_gid u)\<rparr>"

definition default_system :: "defaulter \<Rightarrow> system_settings \<Rightarrow> system_settings" where
  "default_system d s = s\<lparr>sy_root := df_string d ''/var/lib/sls'' (sy_root s), sy_log := df_string d ''/var/log/sls'' (sy_log s),
     sy_allowed_mounts := df_list d [] (sy_allowed_mounts s), sy_tmp := df_string d ''/tmp/sls/daemon'' (sy_tmp s),
     sy_log_rotate := df_bool d True (sy_log_rotate s), sy_disk_check_interval := df_int d 150 (sy_disk_check_interval s),
     sy_user := default_user d (sy_user s), sy_openat_mode := df_string d ''auto'' (sy_openat_mode s),
     sy_username := df_string d ''sls'' (sy_username s), sy_data := df_string d ''/var/lib/sls/data'' (sy_data s),
     sy_volumes := df_string d ''/var/lib/sls/volumes'' (sy_volumes s), sy_servers := df_string d ''/var/lib/sls/servers'' (sy_servers s)\<rparr>"

definition default_overhead :: "defaulter \<Rightarrow> overhead \<Rightarrow> overhead" where
  "default_overhead d h = h\<lparr>oh_override := df_bool d False (oh_override h), oh_default := df_float d (105 / 100) (oh_default h)\<rparr>"

definition default_docker :: "defaulter \<Rightarrow> docker_settings \<Rightarrow> docker_settings" where
  "default_docker d s = s\<lparr>ds_interface := df_string d ''172.60.0.1'' (ds_interface s), ds_dns := df_list d [''1.1.1.1'', ''1.0.0.1''] (ds_dns s),
     ds_network := df_string d ''sls'' (ds_network s), ds_ispn := df_bool d False (ds_ispn s), ds_driver := df_string d ''bridge'' (ds_driver s),
     ds_mode := df_string d ''sls'' (ds_mode s), ds_internal := df_bool d False (ds_internal s), ds_icc := df_bool d True (ds_icc s), ds_mtu := df_int d 1500 (ds_mtu s),
     ds_v4_subnet := df_string d ''172.60.0.0/16'' (ds_v4_subnet s), ds_v4_gateway := df_string d ''172.60.0.1'' (ds_v4_gateway s),
     ds_v6_subnet := df_string d ''fdba:17c8:6c94::/64'' (ds_v6_subnet s), ds_v6_gateway := df_string d ''fdba:17c8:6c94::1011'' (ds_v6_gateway s),
     ds_domainname := df_string d [] (ds_domainname s),
     ds_tmpfs := df_int d 100 (ds_tmpfs s), ds_pid_limit := df_int d 512 (ds_pid_limit s),
     ds_installer_memory := df_int d 4096 (ds_installer_memory s), ds_installer_cpu := df_int d 200 (ds_installer_cpu s),
     ds_overhead := default_overhead d (ds_overhead s), ds_performant_inspect := df_bool d True (ds_performant_inspect s),
     ds_userns_mode := df_string d [] (ds_userns_mode s), ds_log_type := df_string d ''local'' (ds_log_type s),
     ds_log_config := df_map d [(''max-size'', ''5m''), (''max-file'', ''1''), (''compress'', ''false''), (''mode'', ''non-blocking'')] (ds_log_config s),
     ds_policy := df_string d ''Schedule'' (ds_policy s), ds_schedule := df_string d ''0 1 1 * *'' (ds_schedule s)\<rparr>"

definition default_settings :: "defaulter \<Rightarrow> daemon_settings \<Rightarrow> daemon_settings" where
  "default_settings d c = c\<lparr>cf_location := df_string d ''main'' (cf_location c), cf_node_name := df_string d ''SLS'' (cf_node_name c),
     cf_system := default_system d (cf_system c), cf_docker := default_docker d (cf_docker c), cf_api := default_api d (cf_api c),
     cf_allocations := (if df_elements d then map (default_allocation d) (cf_allocations c) else cf_allocations c),
     cf_throttles := default_throttles d (cf_throttles c),
     cf_remote_url := df_string d ''https://protocube.sls.net:5620'' (cf_remote_url c), cf_remote_token := df_string d ''API_KEY'' (cf_remote_token c),
     cf_query_timeout := df_int d 30 (cf_query_timeout c), cf_boot_servers := df_int d 50 (cf_boot_servers c)\<rparr>"

definition empty_allocation :: allocation_settings where
  "empty_allocation = \<lparr>al_address = [], al_alias = [], al_force = False, al_ports = []\<rparr>"

text \<open>\<^verbatim>\<open>applyDefaults\<close>: a list without elements gets one that has the defaults.\<close>

definition apply_settings :: "defaulter \<Rightarrow> daemon_settings \<Rightarrow> daemon_settings" where
  "apply_settings d c = (let c = default_settings d c in
     if length (cf_allocations c) = 0 then c\<lparr>cf_allocations := [default_allocation d empty_allocation]\<rparr> else c)"

text \<open>The name of a policy that was parsed.\<close>

definition policy_name :: "pull_policy \<Rightarrow> string" where
  "policy_name p = (case p of Always \<Rightarrow> ''Always'' | IfNotPresent \<Rightarrow> ''IfNotPresent'' | Never \<Rightarrow> ''Never'' | Schedule \<Rightarrow> ''Schedule'')"

text \<open>
  \<^verbatim>\<open>loadConfigFromFile\<close>: what the file decodes to, if it can be read and decoded, and the token of the environment,
  which is empty when it is not set.
\<close>

datatype config_error = ConfigMissing | ConfigUnreadable | ConfigUndecodable | ConfigDocker

definition load_settings :: "defaulter \<Rightarrow> (string \<Rightarrow> bool) \<Rightarrow> config_error + daemon_settings option \<Rightarrow> string \<Rightarrow> config_error + daemon_settings" where
  "load_settings d cron content token = (case content of
     Inl e \<Rightarrow> Inl e
   | Inr None \<Rightarrow> Inl ConfigUndecodable
   | Inr (Some c) \<Rightarrow>
       (let c = apply_settings d c; c = (if token \<noteq> [] then c\<lparr>cf_remote_token := token\<rparr> else c); k = cf_docker c in
        case validate_image_pull_policy cron (ds_policy k) (ds_schedule k) of
          None \<Rightarrow> Inl ConfigDocker
        | Some (p, s) \<Rightarrow> Inr (c\<lparr>cf_docker := k\<lparr>ds_policy := policy_name p, ds_schedule := s\<rparr>\<rparr>)))"

text \<open>
  A configuration with a value that is not the zero value of its type wherever a tag has a default that is not:
  component by component.
\<close>

definition complete_allocation :: "allocation_settings \<Rightarrow> bool" where
  "complete_allocation a \<longleftrightarrow> al_address a \<noteq> [] \<and> al_alias a \<noteq> [] \<and> al_ports a \<noteq> []"

definition complete_throttles :: "throttle_settings \<Rightarrow> bool" where
  "complete_throttles t \<longleftrightarrow> th_enabled t \<and> th_lines t \<noteq> 0 \<and> th_period t \<noteq> 0"

definition complete_api :: "api_settings \<Rightarrow> bool" where
  "complete_api a \<longleftrightarrow> ap_url a \<noteq> [] \<and> ap_host a \<noteq> [] \<and> ap_port a \<noteq> 0 \<and> ap_tls a \<noteq> None \<and> ap_cert a \<noteq> [] \<and> ap_key a \<noteq> []"

definition complete_system :: "system_settings \<Rightarrow> bool" where
  "complete_system s \<longleftrightarrow> sy_root s \<noteq> [] \<and> sy_log s \<noteq> [] \<and> sy_allowed_mounts s \<noteq> None \<and> sy_tmp s \<noteq> [] \<and> sy_log_rotate s \<and>
     sy_disk_check_interval s \<noteq> 0 \<and> us_uid (sy_user s) \<noteq> 0 \<and> us_gid (sy_user s) \<noteq> 0 \<and> sy_openat_mode s \<noteq> [] \<and>
     sy_username s \<noteq> [] \<and> sy_data s \<noteq> [] \<and> sy_volumes s \<noteq> [] \<and> sy_servers s \<noteq> []"

definition complete_docker :: "docker_settings \<Rightarrow> bool" where
  "complete_docker k \<longleftrightarrow> ds_interface k \<noteq> [] \<and> ds_dns k \<noteq> None \<and> ds_network k \<noteq> [] \<and> ds_driver k \<noteq> [] \<and> ds_mode k \<noteq> [] \<and>
     ds_icc k \<and> ds_mtu k \<noteq> 0 \<and> ds_v4_subnet k \<noteq> [] \<and> ds_v4_gateway k \<noteq> [] \<and> ds_v6_subnet k \<noteq> [] \<and> ds_v6_gateway k \<noteq> [] \<and>
     ds_tmpfs k \<noteq> 0 \<and> ds_pid_limit k \<noteq> 0 \<and> ds_installer_memory k \<noteq> 0 \<and> ds_installer_cpu k \<noteq> 0 \<and>
     oh_default (ds_overhead k) \<noteq> 0 \<and> ds_performant_inspect k \<and> ds_log_type k \<noteq> [] \<and> ds_log_config k \<noteq> None \<and>
     ds_policy k \<noteq> [] \<and> ds_schedule k \<noteq> []"

definition complete_settings :: "daemon_settings \<Rightarrow> bool" where
  "complete_settings c \<longleftrightarrow> cf_location c \<noteq> [] \<and> cf_node_name c \<noteq> [] \<and> complete_system (cf_system c) \<and> complete_docker (cf_docker c) \<and>
     complete_api (cf_api c) \<and> complete_throttles (cf_throttles c) \<and> cf_remote_url c \<noteq> [] \<and> cf_remote_token c \<noteq> [] \<and>
     cf_query_timeout c \<noteq> 0 \<and> cf_boot_servers c \<noteq> 0"

definition valid_policy :: "(string \<Rightarrow> bool) \<Rightarrow> docker_settings \<Rightarrow> bool" where
  "valid_policy cron k \<longleftrightarrow> (\<exists>p. parse_image_pull_policy (ds_policy k) = Some p \<and> ds_policy k = policy_name p \<and> (p = Schedule \<longrightarrow> cron (ds_schedule k)))"

lemma parse_policy_name: "parse_image_pull_policy (policy_name p) = Some p"
proof -
  have "parse_image_pull_policy (policy_name Always) = Some Always" "parse_image_pull_policy (policy_name IfNotPresent) = Some IfNotPresent"
    "parse_image_pull_policy (policy_name Never) = Some Never" "parse_image_pull_policy (policy_name Schedule) = Some Schedule"
    by code_simp+
  then show ?thesis by (cases p) simp_all
qed

lemma validated_policy:
  "validate_image_pull_policy cron policy schedule = Some (p, s) \<Longrightarrow> p = Schedule \<Longrightarrow> cron s"
  by (auto simp: validate_image_pull_policy_def Let_def split: option.splits if_splits)

lemmas default_defs = default_settings_def default_system_def default_overhead_def default_docker_def default_api_def default_throttles_def
  default_user_def default_allocation_def

lemma validated_schedule:
  "validate_image_pull_policy cron policy schedule = Some (p, s) \<Longrightarrow> schedule \<noteq> [] \<Longrightarrow> s \<noteq> []"
  by (auto simp: validate_image_pull_policy_def Let_def split: option.splits if_splits)

text \<open>What the library does with a default that is not zero.\<close>

lemma filled:
  assumes "fills_zero d"
  shows "t \<noteq> [] \<Longrightarrow> df_string d t v \<noteq> []" "k \<noteq> 0 \<Longrightarrow> df_int d k n \<noteq> 0" "df_bool d True b" "df_list d l m \<noteq> None"
    "df_pointer d b p \<noteq> None" "x \<noteq> 0 \<Longrightarrow> df_float d x y \<noteq> 0" "df_map d g h \<noteq> None"
  using assms by (auto simp: fills_zero_def split: option.split)

lemma default_components:
  assumes "fills_zero d"
  shows "complete_allocation (default_allocation d a)" "complete_throttles (default_throttles d t)" "complete_api (default_api d i)"
    "complete_system (default_system d s)" "complete_docker (default_docker d k)"
  by (simp_all add: complete_allocation_def complete_throttles_def complete_api_def complete_system_def complete_docker_def
      default_defs filled [OF assms] del: not_None_eq)

lemma apply_settings_complete:
  assumes "fills_zero d"
  shows "complete_settings (apply_settings d c)" "cf_allocations (apply_settings d c) \<noteq> []"
    "df_elements d \<or> cf_allocations c = [] \<Longrightarrow> a \<in> set (cf_allocations (apply_settings d c)) \<Longrightarrow> complete_allocation a"
  using default_components [OF assms] filled [OF assms]
  by (auto simp: apply_settings_def complete_settings_def default_settings_def Let_def split: if_splits)

text \<open>
  C30. A configuration the daemon loads is complete. Every field whose tag has a default other than the zero value of
  its type has a value other than that; there is an allocation to serve from, and each has an address, an alias and
  ports, if the library goes through the elements of a list or the file names none; and the policy for pulling
  images is one of the four, with a schedule that parses where it needs one.
\<close>

theorem loaded_settings_complete:
  assumes "fills_zero d" "load_settings d cron (Inr (Some c0)) token = Inr c"
  shows "complete_settings c \<and> cf_allocations c \<noteq> [] \<and>
    (df_elements d \<or> cf_allocations c0 = [] \<longrightarrow> (\<forall>a \<in> set (cf_allocations c). complete_allocation a)) \<and>
    valid_policy cron (cf_docker c)"
proof -
  define c1 where "c1 = apply_settings d c0"
  define c2 where "c2 = (if token \<noteq> [] then c1\<lparr>cf_remote_token := token\<rparr> else c1)"
  obtain p s where ps: "validate_image_pull_policy cron (ds_policy (cf_docker c2)) (ds_schedule (cf_docker c2)) = Some (p, s)"
    and c: "c = c2\<lparr>cf_docker := (cf_docker c2)\<lparr>ds_policy := policy_name p, ds_schedule := s\<rparr>\<rparr>"
    using assms(2) unfolding load_settings_def c2_def c1_def by (auto simp: Let_def split: option.splits)
  have c1: "complete_settings c1" "cf_allocations c1 \<noteq> []"
      "\<forall>a \<in> set (cf_allocations c1). df_elements d \<or> cf_allocations c0 = [] \<longrightarrow> complete_allocation a"
    using apply_settings_complete [OF assms(1), of c0] by (auto simp: c1_def)
  then have c2: "complete_settings c2" "cf_allocations c2 = cf_allocations c1" by (auto simp: c2_def complete_settings_def)
  have "s \<noteq> []" using validated_schedule [OF ps] c2(1) by (simp add: complete_settings_def complete_docker_def)
  moreover have "policy_name p \<noteq> []" by (cases p) (simp_all add: policy_name_def)
  ultimately have "complete_settings c" using c2(1) by (simp add: c complete_settings_def complete_docker_def)
  moreover have "valid_policy cron (cf_docker c)"
    using parse_policy_name [of p] validated_policy [OF ps] by (auto simp: c valid_policy_def)
  moreover have "cf_allocations c = cf_allocations c1" using c2(2) by (simp add: c)
  ultimately show ?thesis using c1(2,3) by simp
qed

text \<open>The library with its documented behaviour, and a file that says nothing.\<close>

definition zero_filler :: defaulter where
  "zero_filler = \<lparr>df_string = (\<lambda>t v. if v = [] then t else v), df_int = (\<lambda>t v. if v = 0 then t else v), df_bool = (\<lambda>t v. if v then v else t),
     df_list = (\<lambda>t v. case v of None \<Rightarrow> Some t | Some l \<Rightarrow> Some l), df_pointer = (\<lambda>t v. case v of None \<Rightarrow> Some t | Some b \<Rightarrow> Some b),
     df_float = (\<lambda>t v. if v = 0 then t else v), df_map = (\<lambda>t v. case v of None \<Rightarrow> Some t | Some m \<Rightarrow> Some m), df_elements = True\<rparr>"

lemma zero_filler_fills: "fills_zero zero_filler"
  by (simp add: fills_zero_def zero_filler_def)

definition empty_settings :: daemon_settings where
  "empty_settings = \<lparr>cf_uuid = ''u'', cf_debug = False, cf_location = [], cf_node_name = [],
     cf_system = \<lparr>sy_root = [], sy_log = [], sy_allowed_mounts = None, sy_tmp = [], sy_timezone = [], sy_log_rotate = False,
       sy_disk_check_interval = 0, sy_user = \<lparr>us_rootless = False, us_container_uid = 0, us_container_gid = 0, us_uid = 0, us_gid = 0\<rparr>,
       sy_openat_mode = [], sy_username = [], sy_data = [], sy_volumes = [], sy_servers = []\<rparr>,
     cf_docker = \<lparr>ds_interface = [], ds_dns = None, ds_network = [], ds_ispn = False, ds_driver = [], ds_mode = [],
       ds_internal = False, ds_icc = False, ds_mtu = 0, ds_v4_subnet = [], ds_v4_gateway = [], ds_v6_subnet = [], ds_v6_gateway = [],
       ds_domainname = [], ds_tmpfs = 0, ds_pid_limit = 0, ds_installer_memory = 0, ds_installer_cpu = 0,
       ds_overhead = \<lparr>oh_override = False, oh_default = 0, oh_multipliers = []\<rparr>, ds_performant_inspect = False, ds_userns_mode = [],
       ds_log_type = [], ds_log_config = None,
       ds_policy = [], ds_schedule = []\<rparr>,
     cf_api = \<lparr>ap_url = [], ap_host = [], ap_port = 0, ap_tls = None, ap_cert = [], ap_key = []\<rparr>,
     cf_allocations = [], cf_throttles = \<lparr>th_enabled = False, th_lines = 0, th_period = 0\<rparr>, cf_remote_url = [], cf_remote_token = [],
     cf_query_timeout = 0, cf_boot_servers = 0, cf_origins = None, cf_private_network = False\<rparr>"

lemma loaded_settings_complete_witness:
  "case load_settings zero_filler (\<lambda>s. s = ''0 1 1 * *'') (Inr (Some empty_settings)) [] of
     Inl e \<Rightarrow> False
   | Inr c \<Rightarrow> complete_settings c \<and> cf_allocations c \<noteq> [] \<and> (\<forall>a \<in> set (cf_allocations c). complete_allocation a)"
proof -
  have "\<not> isl (load_settings zero_filler (\<lambda>s. s = ''0 1 1 * *'') (Inr (Some empty_settings)) [])" by code_simp
  then obtain c where c: "load_settings zero_filler (\<lambda>s. s = ''0 1 1 * *'') (Inr (Some empty_settings)) [] = Inr c"
    by (auto simp: isl_def) (metis sum.exhaust)
  show ?thesis using loaded_settings_complete [OF zero_filler_fills c] c by (simp add: zero_filler_def)
qed

text \<open>
  Defaults come after decoding, so that a file cannot ask for what is the zero value: the checks of disk
  space, the throttle of the console, the rotation of logs and the traffic between containers cannot be
  switched off.
\<close>

lemma never_switched_off:
  assumes "fills_zero d" "load_settings d cron content token = Inr c"
  shows "sy_disk_check_interval (cf_system c) \<noteq> 0 \<and> th_enabled (cf_throttles c) \<and> sy_log_rotate (cf_system c) \<and> ds_icc (cf_docker c)"
proof -
  have b: "df_bool d True v" "df_int d 150 w \<noteq> 0" for v w using assms(1) by (auto simp: fills_zero_def)
  show ?thesis using assms(2)
    by (auto simp: load_settings_def apply_settings_def default_defs Let_def b split: sum.splits option.splits if_splits)
qed

text \<open>The allocation that is added when a file names none does not come beside those it names.\<close>

lemma named_allocations_kept:
  "load_settings d cron (Inr (Some c0)) token = Inr c \<Longrightarrow> cf_allocations c0 \<noteq> [] \<Longrightarrow>
     cf_allocations c = (if df_elements d then map (default_allocation d) (cf_allocations c0) else cf_allocations c0)"
  by (auto simp: load_settings_def apply_settings_def default_settings_def Let_def split: option.splits if_splits)


section \<open>The directories\<close>

text \<open>
  \<^verbatim>\<open>ConfigureDirectories\<close>: the directories that were made, the first failure ends it. The data directory is
  replaced by what it leads to; \<open>links\<close> is the answer of \<^verbatim>\<open>EvalSymlinks\<close>, \<open>Inl True\<close> when nothing is there.
\<close>

fun make_all :: "(string \<Rightarrow> bool) \<Rightarrow> string list \<Rightarrow> string list \<Rightarrow> bool \<times> string list" where
  "make_all mk [] made = (True, made)"
| "make_all mk (p # ps) made = (if mk p then make_all mk ps (made @ [p]) else (False, made))"

definition configure_directories :: "(string \<Rightarrow> bool + string) \<Rightarrow> (string \<Rightarrow> bool) \<Rightarrow> daemon_settings \<Rightarrow> bool \<times> string list \<times> daemon_settings" where
  "configure_directories links mk c = (let s = cf_system c in
     if \<not> mk (sy_root s) then (False, [], c)
     else case links (sy_data s) of
         Inl False \<Rightarrow> (False, [sy_root s], c)
       | r \<Rightarrow>
           (let s = (case r of Inr d \<Rightarrow> if d \<noteq> sy_data s then s\<lparr>sy_data := d\<rparr> else s | Inl _ \<Rightarrow> s);
                (ok, made) = make_all mk [sy_data s, sy_servers s, sy_volumes s] [sy_root s]
            in (ok, made, c\<lparr>cf_system := s\<rparr>)))"

text \<open>When it succeeds all four directories are there, the data directory under the name that is configured then.\<close>

lemma configured_directories:
  "configure_directories links mk c = (True, made, c') \<Longrightarrow>
    set made = {sy_root (cf_system c'), sy_data (cf_system c'), sy_servers (cf_system c'), sy_volumes (cf_system c')} \<and>
    (\<forall>p \<in> set made. mk p) \<and> (\<forall>d. links (sy_data (cf_system c)) = Inr d \<longrightarrow> sy_data (cf_system c') = d)"
  by (auto simp: configure_directories_def Let_def split: if_splits sum.splits bool.splits prod.splits)

section \<open>The user\<close>

datatype user_lookup = UserFound string string | UserUnknown | UserFails

text \<open>What the machine answers: its name, its environment, the user it runs as, and whether a command succeeds.\<close>

record machine =
  mc_system :: "string option"
  mc_env :: "string \<Rightarrow> string"
  mc_current :: "(string \<times> string \<times> string) option"
  mc_lookup :: "string \<Rightarrow> user_lookup"
  mc_created :: "string \<Rightarrow> user_lookup"
  mc_exec :: "string list \<Rightarrow> bool"

definition set_user :: "string \<Rightarrow> string \<Rightarrow> string \<Rightarrow> system_settings \<Rightarrow> system_settings go" where
  "set_user name uid gid s = go_bind (must_int uid) (\<lambda>u. go_bind (must_int gid) (\<lambda>g.
     Ret (s\<lparr>sy_username := name, sy_user := (sy_user s)\<lparr>us_uid := u, us_gid := g\<rparr>\<rparr>)))"

text \<open>\<^verbatim>\<open>EnsureSLSUser\<close>: whether it succeeds, the commands that were run, and the settings.\<close>

definition user_command :: "string \<Rightarrow> string \<Rightarrow> string list" where
  "user_command sysName name = split_on CHR '' ''
     (if has_prefix sysName ''alpine'' then ''adduser -S -D -H -G '' @ name @ '' -s /sbin/nologin '' @ name
      else ''useradd --system --no-create-home --shell /usr/sbin/nologin '' @ name)"

definition create_user :: "machine \<Rightarrow> string \<Rightarrow> system_settings \<Rightarrow> (bool \<times> string list list \<times> system_settings) go" where
  "create_user m sysName s = (let name = sy_username s; group = [''addgroup'', ''-S'', name]; alpine = has_prefix sysName ''alpine'';
       before = (if alpine then [group] else []); cmd = user_command sysName name in
     if alpine \<and> \<not> mc_exec m group then Ret (False, [group], s)
     else if \<not> mc_exec m cmd then Ret (False, before @ [cmd], s)
     else case mc_created m name of
         UserFound u g \<Rightarrow> go_bind (set_user name u g s) (\<lambda>s. Ret (True, before @ [cmd], s))
       | _ \<Rightarrow> Ret (False, before @ [cmd], s))"

definition ensure_user :: "machine \<Rightarrow> system_settings \<Rightarrow> (bool \<times> string list list \<times> system_settings) go" where
  "ensure_user m s = (case mc_system m of
     None \<Rightarrow> Ret (False, [], s)
   | Some sysName \<Rightarrow>
       (if sysName = ''distroless'' then
          go_bind (set_user (first_not_empty [mc_env m ''SLS_USERNAME'', ''sls'']) (first_not_empty [mc_env m ''SLS_UID'', ''988''])
            (first_not_empty [mc_env m ''SLS_GID'', ''988'']) s) (\<lambda>s. Ret (True, [], s))
        else if us_rootless (sy_user s) then (case mc_current m of
            None \<Rightarrow> Ret (False, [], s)
          | Some (name, u, g) \<Rightarrow> go_bind (set_user name u g s) (\<lambda>s. Ret (True, [], s)))
        else case mc_lookup m (sy_username s) of
            UserFails \<Rightarrow> Ret (False, [], s)
          | UserFound u g \<Rightarrow> go_bind (set_user (sy_username s) u g s) (\<lambda>s. Ret (True, [], s))
          | UserUnknown \<Rightarrow> create_user m sysName s))"

text \<open>
  A command is run only where the user is unknown and the program runs neither in its own image nor without
  root; and afterwards the settings name the user that was found or made.
\<close>

lemma ensure_user_commands:
  assumes "ensure_user m s = Ret (ok, cmds, s')" "cmds \<noteq> []"
  shows "mc_lookup m (sy_username s) = UserUnknown \<and> \<not> us_rootless (sy_user s) \<and> mc_system m \<noteq> Some ''distroless'' \<and>
    sy_username s' = sy_username s"
  using assms
  by (auto simp: ensure_user_def create_user_def set_user_def go_outcome Let_def split: option.splits if_splits user_lookup.splits)

lemma ensure_user_ids:
  assumes "ensure_user m s = Ret (True, cmds, s')" "mc_system m \<noteq> Some ''distroless''" "\<not> us_rootless (sy_user s)"
  shows "\<exists>u g. (mc_lookup m (sy_username s) = UserFound u g \<and> cmds = [] \<or> mc_created m (sy_username s) = UserFound u g \<and> cmds \<noteq> []) \<and>
    must_int u = Ret (us_uid (sy_user s')) \<and> must_int g = Ret (us_gid (sy_user s'))"
  using assms
  by (auto simp: ensure_user_def create_user_def set_user_def go_outcome Let_def split: option.splits if_splits user_lookup.splits)

text \<open>The identifiers of users that are no numbers, as on other systems, make it panic.\<close>

lemma ensure_user_panics:
  "mc_system m = Some ''debian'' \<Longrightarrow> \<not> us_rootless (sy_user s) \<Longrightarrow> mc_lookup m (sy_username s) = UserFound ''S-1-5'' ''0'' \<Longrightarrow>
    ensure_user m s = Panic"
proof -
  assume h: "mc_system m = Some ''debian''" "\<not> us_rootless (sy_user s)" "mc_lookup m (sy_username s) = UserFound ''S-1-5'' ''0''"
  have "must_int ''S-1-5'' = Panic" by code_simp
  then show ?thesis using h by (simp add: ensure_user_def set_user_def)
qed

section \<open>Rotation of logs and openat2\<close>

datatype stat_result = StatDir | StatFile | StatMissing | StatFails

text \<open>\<^verbatim>\<open>EnableLogRotation\<close>: whether it succeeds, and the file it writes, which stays empty if the template fails.\<close>

definition log_rotation :: "string \<Rightarrow> string" where
  "log_rotation dir = dir @ ''/sls.log {'' @ [CHR 0x0A] @ join_with [CHR 0x0A] (map (\<lambda>l. ''    '' @ l)
     [''size 10M'', ''compress'', ''delaycompress'', ''dateext'', ''maxage 7'', ''missingok'', ''notifempty'', ''postrotate'',
      ''    /usr/bin/systemctl kill -s HUP sls.service >/dev/null 2>&1 || true'', ''endscript'']) @ [CHR 0x0A] @ ''}''"

definition enable_log_rotation :: "(string \<Rightarrow> stat_result) \<Rightarrow> bool \<Rightarrow> bool \<Rightarrow> system_settings \<Rightarrow> bool \<times> string option" where
  "enable_log_rotation stat created executed s =
     (if \<not> sy_log_rotate s then (True, None)
      else case stat ''/etc/logrotate.d'' of
          StatFails \<Rightarrow> (False, None)
        | StatMissing \<Rightarrow> (True, None)
        | StatFile \<Rightarrow> (True, None)
        | StatDir \<Rightarrow> (case stat ''/etc/logrotate.d/sls'' of
            StatFails \<Rightarrow> (False, None)
          | StatMissing \<Rightarrow> (if \<not> created then (False, None) else (executed, Some (if executed then log_rotation (sy_log s) else [])))
          | _ \<Rightarrow> (True, None)))"

lemma log_rotation_kept: "stat ''/etc/logrotate.d/sls'' \<noteq> StatMissing \<Longrightarrow> snd (enable_log_rotation stat created executed s) = None"
  by (auto simp: enable_log_rotation_def split: stat_result.split)

text \<open>\<^verbatim>\<open>UseOpenat2\<close>: the answer is kept once it was given; \<open>probe\<close> is whether the kernel has the call.\<close>

definition use_openat2 :: "bool \<Rightarrow> string \<Rightarrow> bool option \<Rightarrow> bool \<times> bool option" where
  "use_openat2 probe mode cache = (case cache of
     Some b \<Rightarrow> (b, cache)
   | None \<Rightarrow> (let b = (if mode = ''openat2'' then True else if mode = ''openat'' then False else probe) in (b, Some b)))"

lemma openat2_stable: "use_openat2 probe mode cache = (b, cache') \<Longrightarrow> use_openat2 probe' mode' cache' = (b, cache')"
  by (auto simp: use_openat2_def Let_def split: option.splits)

section \<open>Reading it at boot\<close>

text \<open>
  \<^verbatim>\<open>InitConfig\<close>: the file is made where it is missing, from a configuration of defaults alone with a new
  identifier. The program ends when the path, the file or its content is of no use.
\<close>

definition written_settings :: "defaulter \<Rightarrow> string \<Rightarrow> daemon_settings \<Rightarrow> daemon_settings" where
  "written_settings d uuid zero = (apply_settings d zero)\<lparr>cf_uuid := uuid\<rparr>"

datatype init_result = ProgramEnds | InitFails | InitDone daemon_settings

definition init_config :: "(string \<Rightarrow> bool) \<Rightarrow> bool \<Rightarrow> (unit \<Rightarrow> daemon_settings option) \<Rightarrow> (daemon_settings option \<Rightarrow> config_error + daemon_settings) \<Rightarrow>
    (daemon_settings \<Rightarrow> bool \<times> string list \<times> daemon_settings) \<Rightarrow> string \<Rightarrow> bool \<Rightarrow> init_result" where
  "init_config absolute missing write load directories path abs_ok =
     (if \<not> absolute path \<and> \<not> abs_ok then ProgramEnds
      else let written = (if missing then write () else None) in
        if missing \<and> written = None then ProgramEnds
        else case load written of
            Inl e \<Rightarrow> ProgramEnds
          | Inr c \<Rightarrow> (case directories c of (ok, _, c) \<Rightarrow> if ok then InitDone c else InitFails))"

text \<open>A configuration with which the daemon goes on was loaded, and its directories are there.\<close>

lemma init_config_done:
  "init_config absolute missing write load directories path abs_ok = InitDone c \<Longrightarrow>
    \<exists>w c0 made. load w = Inr c0 \<and> directories c0 = (True, made, c)"
  by (auto simp: init_config_def Let_def split: if_splits sum.splits prod.splits)


section \<open>The configuration of Protocube\<close>

record protocube_settings =
  ps_uuid :: string
  ps_debug :: bool
  ps_host :: string
  ps_port :: int
  ps_tls :: "bool \<times> string \<times> string"
  ps_app_name :: string
  ps_root :: string
  ps_log :: string
  ps_volumes :: string
  ps_software :: string
  ps_blueprints :: string
  ps_plugins :: string
  ps_origins :: "string list option"
  ps_private_network :: bool
  ps_telemetry :: "bool option"

text \<open>\<^verbatim>\<open>loadConfigFromFile\<close> does not look at the defaults in the tags: the file is all there is.\<close>

definition load_protocube :: "config_error + protocube_settings option \<Rightarrow> config_error + protocube_settings" where
  "load_protocube content = (case content of Inl e \<Rightarrow> Inl e | Inr None \<Rightarrow> Inl ConfigUndecodable | Inr (Some c) \<Rightarrow> Inr c)"

lemma protocube_tags_unused: "load_protocube (Inr (Some c)) = Inr c"
  by (simp add: load_protocube_def)

definition is_telemetry_enabled :: "protocube_settings option \<Rightarrow> bool" where
  "is_telemetry_enabled c = (case c of None \<Rightarrow> True | Some c \<Rightarrow> (case ps_telemetry c of None \<Rightarrow> True | Some b \<Rightarrow> b))"

definition configure_protocube :: "(string \<Rightarrow> bool) \<Rightarrow> protocube_settings \<Rightarrow> bool \<times> string list" where
  "configure_protocube mk c = make_all mk [ps_root c, ps_plugins c, ps_blueprints c, ps_software c, ps_volumes c] []"

section \<open>The default software\<close>

text \<open>
  \<^verbatim>\<open>syncDefaultSoftwareYAMLs\<close>: the entries of the directory on GitHub, what a download answers (\<open>None\<close> for no
  answer, else the status, the content and whether all of it came), and the files of the machine.
\<close>

record gh_entry =
  gh_name :: string
  gh_type :: string
  gh_url :: string

type_synonym file_map = "string \<rightharpoonup> string"

text \<open>
  \<^verbatim>\<open>downloadFile\<close>: \<open>opened\<close>, \<open>closed\<close> and \<open>renamed\<close> say whether the calls on the temporary file succeed.
\<close>

record download_calls =
  dl_opened :: bool
  dl_closed :: bool
  dl_renamed :: bool

definition download_file :: "(int \<times> string \<times> bool) option \<Rightarrow> download_calls \<Rightarrow> string \<Rightarrow> file_map \<Rightarrow> bool \<times> file_map" where
  "download_file answer k dest fs = (case answer of
     None \<Rightarrow> (False, fs)
   | Some (status, body, whole) \<Rightarrow>
       (if status \<noteq> 200 then (False, fs)
        else let tmp = dest @ ''.tmp'' in
          if \<not> dl_opened k then (False, fs)
          else if \<not> whole \<or> \<not> dl_closed k then (False, fs(tmp := None))
          else if \<not> dl_renamed k then (False, fs(tmp := Some body))
          else (True, fs(tmp := None, dest := Some body))))"

definition wanted_entry :: "gh_entry \<Rightarrow> bool" where
  "wanted_entry e \<longleftrightarrow> gh_type e = ''file'' \<and> gh_url e \<noteq> [] \<and>
     (has_suffix (to_lower (gh_name e)) ''.yml'' \<or> has_suffix (to_lower (gh_name e)) ''.yaml'')"

fun sync_entries :: "string \<Rightarrow> (string \<Rightarrow> (int \<times> string \<times> bool) option) \<Rightarrow> (string \<Rightarrow> download_calls) \<Rightarrow> gh_entry list \<Rightarrow> file_map \<Rightarrow> file_map" where
  "sync_entries dir get calls [] fs = fs"
| "sync_entries dir get calls (e # es) fs =
     (if \<not> wanted_entry e then sync_entries dir get calls es fs
      else let dest = path_join [dir, gh_name e] in
        if fs dest \<noteq> None then sync_entries dir get calls es fs
        else sync_entries dir get calls es (snd (download_file (get (gh_url e)) (calls dest) dest fs)))"

definition sync_software :: "string \<Rightarrow> (int \<times> gh_entry list option) option \<Rightarrow> (string \<Rightarrow> (int \<times> string \<times> bool) option) \<Rightarrow> (string \<Rightarrow> download_calls) \<Rightarrow> file_map \<Rightarrow> file_map" where
  "sync_software dir listing get calls fs = (case listing of
     None \<Rightarrow> fs
   | Some (status, entries) \<Rightarrow>
       (if status \<noteq> 200 then fs else case entries of None \<Rightarrow> fs | Some es \<Rightarrow> sync_entries dir get calls es fs))"

lemma tmp_differs: "has_suffix f ''.tmp'' = False \<Longrightarrow> f \<noteq> dest @ ''.tmp''"
  by (auto simp: has_suffix_def)

lemma sync_entries_keeps:
  "fs f = Some c \<Longrightarrow> \<not> has_suffix f ''.tmp'' \<Longrightarrow> sync_entries dir get calls es fs f = Some c"
proof (induction es arbitrary: fs)
  case (Cons e es)
  let ?d = "path_join [dir, gh_name e]"
  have "snd (download_file (get (gh_url e)) (calls ?d) ?d fs) f = Some c" if "fs ?d = None"
    using Cons(2,3) that tmp_differs [of f ?d] by (auto simp: download_file_def Let_def split: option.split)
  then show ?case using Cons by (auto simp: Let_def)
qed simp

lemma sync_entries_whole:
  "sync_entries dir get calls es fs f = Some c \<Longrightarrow> fs f \<noteq> Some c \<Longrightarrow> \<not> has_suffix f ''.tmp'' \<Longrightarrow>
    \<exists>e \<in> set es. wanted_entry e \<and> f = path_join [dir, gh_name e] \<and> get (gh_url e) = Some (200, c, True)"
proof (induction es arbitrary: fs)
  case (Cons e es)
  let ?d = "path_join [dir, gh_name e]" and ?fs = "snd (download_file (get (gh_url e)) (calls (path_join [dir, gh_name e])) (path_join [dir, gh_name e]) fs)"
  show ?case
  proof (cases "wanted_entry e \<and> fs ?d = None")
    case False
    then have "sync_entries dir get calls es fs f = Some c" using Cons(2) by (auto simp: Let_def split: if_splits)
    then show ?thesis using Cons(1) [of fs] Cons(3,4) by auto
  next
    case True
    then have run: "sync_entries dir get calls es ?fs f = Some c" using Cons(2) by (simp add: Let_def)
    show ?thesis
    proof (cases "?fs f = Some c")
      case False
      then show ?thesis using Cons(1) [OF run False Cons(4)] by auto
    next
      case here: True
      then have "f = ?d \<and> get (gh_url e) = Some (200, c, True)"
        using Cons(3,4) tmp_differs [of f ?d] by (auto simp: download_file_def Let_def split: option.splits if_splits)
      then show ?thesis using True by auto
    qed
  qed
qed simp

text \<open>
  C29. Fetching the default software definitions never changes a definition that is there, and a definition it
  adds is a YAML file that the listing names with exactly the content that its whole download had, whichever
  downloads fail and at whichever call.
\<close>

theorem software_sync_atomic:
  assumes "sync_software dir listing get calls fs = fs'" "\<not> has_suffix f ''.tmp''"
  shows "(\<forall>c. fs f = Some c \<longrightarrow> fs' f = Some c) \<and>
    (\<forall>c. fs f = None \<longrightarrow> fs' f = Some c \<longrightarrow>
      (\<exists>es. listing = Some (200, Some es) \<and>
        (\<exists>e \<in> set es. wanted_entry e \<and> f = path_join [dir, gh_name e] \<and> get (gh_url e) = Some (200, c, True))))"
proof (cases "\<exists>es. listing = Some (200, Some es)")
  case False
  then have "fs' = fs" using assms(1) by (auto simp: sync_software_def split: option.splits prod.splits if_splits)
  then show ?thesis by auto
next
  case True
  then obtain es where es: "listing = Some (200, Some es)" by blast
  then have fs': "fs' = sync_entries dir get calls es fs" using assms(1) by (simp add: sync_software_def)
  show ?thesis unfolding fs' es
  proof (intro conjI allI impI)
    fix c assume "fs f = Some c"
    then show "sync_entries dir get calls es fs f = Some c" using assms(2) by (rule sync_entries_keeps)
  next
    fix c assume h: "fs f = None" "sync_entries dir get calls es fs f = Some c"
    show "\<exists>es'. Some (200, Some es) = Some (200, Some es') \<and>
        (\<exists>e \<in> set es'. wanted_entry e \<and> f = path_join [dir, gh_name e] \<and> get (gh_url e) = Some (200, c, True))"
      using sync_entries_whole [OF h(2) _ assms(2)] h(1) by simp
  qed
qed

definition example_listing :: "gh_entry list" where
  "example_listing = [\<lparr>gh_name = ''paper.yml'', gh_type = ''file'', gh_url = ''u1''\<rparr>, \<lparr>gh_name = ''readme.md'', gh_type = ''file'', gh_url = ''u2''\<rparr>,
     \<lparr>gh_name = ''velocity.YAML'', gh_type = ''file'', gh_url = ''u3''\<rparr>]"

definition example_download :: "string \<Rightarrow> (int \<times> string \<times> bool) option" where
  "example_download u = (if u = ''u1'' then Some (200, ''new'', True) else if u = ''u3'' then Some (200, ''half'', False) else None)"

lemma software_sync_atomic_witness:
  "sync_software ''/sw'' (Some (200, Some example_listing)) example_download (\<lambda>_. \<lparr>dl_opened = True, dl_closed = True, dl_renamed = True\<rparr>)
     [''/sw/paper.yml'' \<mapsto> ''mine''] ''/sw/paper.yml'' = Some ''mine''"
proof -
  have "\<not> has_suffix ''/sw/paper.yml'' ''.tmp''" by code_simp
  from software_sync_atomic [OF refl this, THEN conjunct1] show ?thesis by simp
qed


text \<open>
  \<^verbatim>\<open>writeDefaultConfig\<close> of Protocube: the embedded configuration with a new identifier is written, and then the
  definitions are fetched, where a directory for them is named. The result is whether it succeeds, the
  configuration that was written and the files.
\<close>

definition write_protocube :: "protocube_settings option \<Rightarrow> string \<Rightarrow> (string \<Rightarrow> bool) \<Rightarrow> bool \<Rightarrow> (string \<Rightarrow> file_map \<Rightarrow> file_map) \<Rightarrow> string \<Rightarrow> file_map \<Rightarrow>
    bool \<times> protocube_settings option \<times> file_map" where
  "write_protocube embedded uuid mk written sync path fs =
     (if \<not> mk (path_dir path) then (False, None, fs)
      else case embedded of
          None \<Rightarrow> (False, None, fs)
        | Some c \<Rightarrow>
            (let c = c\<lparr>ps_uuid := uuid\<rparr>; sw = path_clean (ps_software c) in
             if \<not> written then (False, None, fs)
             else if sw = [] \<or> sw = ''.'' then (True, Some c, fs)
             else if \<not> mk sw then (False, Some c, fs)
             else (True, Some c, sync sw fs)))"

text \<open>\<^verbatim>\<open>InitConfig\<close> of Protocube: directories that cannot be made are only logged.\<close>

definition init_protocube :: "bool \<Rightarrow> bool \<Rightarrow> (unit \<Rightarrow> bool \<times> protocube_settings option \<times> file_map) \<Rightarrow>
    (protocube_settings option \<Rightarrow> config_error + protocube_settings option) \<Rightarrow> (string \<Rightarrow> bool) \<Rightarrow> (protocube_settings \<times> bool) option" where
  "init_protocube path_ok missing write content mk =
     (if \<not> path_ok then None
      else let w = (if missing then write () else (True, None, \<lambda>_. None)) in
        if \<not> fst w then None
        else case load_protocube (content (fst (snd w))) of
            Inl e \<Rightarrow> None
          | Inr c \<Rightarrow> Some (c, fst (configure_protocube mk c)))"

section \<open>The configuration of SlimePacks\<close>

record slime_settings =
  sl_packs :: string
  sl_conversions :: string
  sl_update :: bool
  sl_jar :: string

definition default_slime :: "string \<Rightarrow> slime_settings" where
  "default_slime folder = \<lparr>sl_packs = path_join [folder, ''resource_packs''], sl_conversions = path_join [folder, ''conversions''],
     sl_update = True, sl_jar = path_join [folder, ''ResourcePackConverter.jar'']\<rparr>"

text \<open>
  \<^verbatim>\<open>loadConfigFromFile\<close> and \<^verbatim>\<open>InitConfig\<close>: the errors are only logged, and then there is no configuration. \<open>content\<close>
  is what the file holds once the default was written.
\<close>

definition load_slime :: "bool \<Rightarrow> bool \<Rightarrow> (slime_settings option \<Rightarrow> slime_settings option) \<Rightarrow> string \<Rightarrow> slime_settings option" where
  "load_slime missing created content folder =
     (if missing \<and> \<not> created then None
      else content (if missing then Some (default_slime folder) else None))"

definition init_slime :: "bool \<Rightarrow> bool \<Rightarrow> (slime_settings option \<Rightarrow> slime_settings option) \<Rightarrow> string \<Rightarrow> string \<Rightarrow> slime_settings option" where
  "init_slime missing created content plugins name = load_slime missing created content (path_join [plugins, name])"

definition slime_get :: "slime_settings option \<Rightarrow> (slime_settings \<Rightarrow> 'a) \<Rightarrow> 'a go" where
  "slime_get c f = (case c of None \<Rightarrow> Panic | Some c \<Rightarrow> Ret (f c))"

lemma slime_without_config: "slime_get (init_slime True False content plugins name) sl_packs = Panic"
  by (simp add: slime_get_def init_slime_def load_slime_def)

lemma slime_first_run:
  "(\<And>c. content (Some c) = Some c) \<Longrightarrow> slime_get (init_slime True True content plugins name) sl_packs =
    Ret (path_join [path_join [plugins, name], ''resource_packs''])"
  by (simp add: slime_get_def init_slime_def load_slime_def default_slime_def)

end
