(* ===== verification/Relay_Requests.thy ===== *)
theory Relay_Requests
  imports Http_Access
begin

text \<open>
  What the two programs ask of each other: the requests of Protocube's clients of a node and of a server
  (\<^verbatim>\<open>protocube/client/server_client.go\<close>, \<^verbatim>\<open>node_client.go\<close>, \<^verbatim>\<open>requests.go\<close>), those of the daemon's client of
  Protocube (\<^verbatim>\<open>daemon/remote\<close>), and the handlers that only relay a request
  (\<^verbatim>\<open>protocube/api/router/router_server.go\<close>, \<^verbatim>\<open>router_node.go\<close>, \<^verbatim>\<open>router_system.go\<close>), with the logs a daemon
  serves. How the web framework matches a path with the pattern of a route is an argument.
\<close>

section \<open>Requests\<close>

datatype request_body =
    NoBody
  | NullBody
  | PowerBody string int
  | CommandsBody "string list"
  | ServerBody string
  | StatusBody string
  | CrashBody string
  | InstallStatusBody bool bool
  | RegistrationBody string
  | HeartbeatBody

record http_request =
  rq_method :: string
  rq_path :: string
  rq_query :: "(string, string) gomap"
  rq_body :: request_body

definition get_request :: "string \<Rightarrow> (string, string) gomap \<Rightarrow> http_request" where
  "get_request path query = \<lparr>rq_method = ''GET'', rq_path = path, rq_query = fold (\<lambda>(k, v) m. gm_set m k v) query [], rq_body = NoBody\<rparr>"

definition post_request :: "string \<Rightarrow> request_body \<Rightarrow> http_request" where
  "post_request path body = \<lparr>rq_method = ''POST'', rq_path = path, rq_query = [], rq_body = body\<rparr>"

definition delete_request :: "string \<Rightarrow> http_request" where
  "delete_request path = \<lparr>rq_method = ''DELETE'', rq_path = path, rq_query = [], rq_body = NoBody\<rparr>"

text \<open>\<^verbatim>\<open>requestOnce\<close> of both clients: the URL and the headers.\<close>

definition protocube_headers :: "string \<Rightarrow> string \<Rightarrow> (string, string) gomap" where
  "protocube_headers version token =
     [(''User-Agent'', ''Protocube/v'' @ version @ '' ''), (''Accept'', ''application/vnd.protocube.v1+json''),
      (''Content-Type'', ''application/json''), (''Authorization'', ''Bearer '' @ token)]"

definition daemon_headers :: "string \<Rightarrow> string \<Rightarrow> string \<Rightarrow> (string, string) gomap" where
  "daemon_headers version uuid token =
     [(''User-Agent'', ''SLS/v'' @ version @ '' (id:'' @ uuid @ '')''), (''Accept'', ''application/vnd.sls.v1+json''),
      (''Content-Type'', ''application/json''), (''Authorization'', ''Bearer '' @ token)]"

text \<open>\<^verbatim>\<open>debugLogRequest\<close>: the headers that are logged, of those with the values \<open>vs\<close>.\<close>

definition logged_headers :: "(string, string list) gomap \<Rightarrow> (string, string list) gomap" where
  "logged_headers hs = map (\<lambda>(k, vs). (k,
     if k \<noteq> ''Authorization'' \<or> length vs = 0 \<or> length (hd vs) = 0 then vs else [''(redacted)''])) hs"

lemma token_not_logged:
  "gm_wf hs \<Longrightarrow> gm_get hs ''Authorization'' = Some [''Bearer '' @ token] \<Longrightarrow> gm_get (logged_headers hs) ''Authorization'' = Some [''(redacted)'']"
proof (induction hs)
  case (Cons kv hs)
  obtain k v where kv: "kv = (k, v)" by (cases kv)
  show ?case
  proof (cases "k = ''Authorization''")
    case True
    then show ?thesis using Cons(3) by (simp add: kv gm_get_def logged_headers_def)
  next
    case False
    then have "gm_get hs ''Authorization'' = Some [''Bearer '' @ token]" using Cons(3) by (simp add: kv gm_get_def)
    moreover have "gm_wf hs" using Cons(2) by (simp add: gm_wf_def)
    ultimately have "gm_get (logged_headers hs) ''Authorization'' = Some [''(redacted)'']" using Cons(1) by blast
    then show ?thesis using False by (simp add: kv gm_get_def logged_headers_def)
  qed
qed (simp add: gm_get_def)

section \<open>What Protocube asks of a daemon\<close>

datatype server_op =
    OpPower string int
  | OpReset
  | OpReinstall
  | OpStats bool
  | OpStatus
  | OpGetServer
  | OpDelete
  | OpCommands "string list"
  | OpLogs int int
  | OpInstallInfo
  | OpInstallLogs int int

definition page_query :: "int \<Rightarrow> int \<Rightarrow> (string, string) gomap" where
  "page_query page per = [(''page'', itoa page), (''per_page'', itoa per)]"

fun server_request :: "string \<Rightarrow> server_op \<Rightarrow> http_request" where
  "server_request i (OpPower action wait) = post_request (nc_path (sc_route i ''/power'')) (PowerBody action wait)"
| "server_request i OpReset = post_request (nc_path (sc_route i ''/reset'')) NullBody"
| "server_request i OpReinstall = post_request (nc_path (sc_route i ''/reinstall'')) NullBody"
| "server_request i (OpStats update) =
     get_request (nc_path (sc_route i ''/stats'')) (if update then [(''update_disk_usage'', ''true'')] else [])"
| "server_request i OpStatus = get_request (nc_path (sc_route i ''/status'')) []"
| "server_request i OpGetServer = get_request (nc_path (sc_route i ''/'')) []"
| "server_request i OpDelete = delete_request (nc_path (sc_route i ''/''))"
| "server_request i (OpCommands cs) = post_request (nc_path (sc_route i ''/commands'')) (CommandsBody cs)"
| "server_request i (OpLogs page per) = get_request (nc_path (sc_route i ''/logs'')) (page_query page per)"
| "server_request i OpInstallInfo = get_request (nc_path (sc_route i ''/install'')) []"
| "server_request i (OpInstallLogs page per) = get_request (nc_path (sc_route i ''/install/logs'')) (page_query page per)"

datatype node_op = OpCreateServer string | OpSync | OpSystem

fun node_op_request :: "node_op \<Rightarrow> http_request" where
  "node_op_request (OpCreateServer config) = post_request (nc_path ''/servers'') (ServerBody config)"
| "node_op_request OpSync = post_request (nc_path ''/sync'') NullBody"
| "node_op_request OpSystem = get_request (nc_path ''/system'') []"

section \<open>What a daemon asks of Protocube\<close>

datatype remote_op =
    RemRegister string
  | RemHeartbeat
  | RemDisconnect
  | RemStatus string string
  | RemCrash string string
  | RemDeleted string
  | RemInstallStatus string bool bool
  | RemServers int int
  | RemServer string
  | RemInstallScript string

fun remote_request :: "string \<Rightarrow> remote_op \<Rightarrow> http_request" where
  "remote_request n (RemRegister body) = post_request (node_api_path n ''/register'') (RegistrationBody body)"
| "remote_request n RemHeartbeat = post_request (node_api_path n ''/internal/heartbeat'') HeartbeatBody"
| "remote_request n RemDisconnect = post_request (node_api_path n ''/internal/disconnect'') NullBody"
| "remote_request n (RemStatus i s) = post_request (node_api_path n (''/internal/event/servers/'' @ i @ ''/status'')) (StatusBody s)"
| "remote_request n (RemCrash i c) = post_request (node_api_path n (''/internal/event/servers/'' @ i @ ''/crash'')) (CrashBody c)"
| "remote_request n (RemDeleted i) = post_request (node_api_path n (''/internal/event/servers/'' @ i @ ''/deleted'')) NullBody"
| "remote_request n (RemInstallStatus i ok re) =
     post_request (node_api_path n (''/internal/event/servers/'' @ i @ ''/install-status'')) (InstallStatusBody ok re)"
| "remote_request n (RemServers page limit) = get_request (node_api_path n ''/internal/servers'') (page_query page limit)"
| "remote_request n (RemServer i) = get_request (node_api_path n (''/internal/servers/'' @ i)) []"
| "remote_request n (RemInstallScript i) = get_request (node_api_path n (''/internal/servers/'' @ i @ ''/install'')) []"

section \<open>Requests meet routes\<close>

text \<open>A parameter in the pattern of a route stands for one segment of the path that is not empty.\<close>

fun match_comps :: "string list \<Rightarrow> string list \<Rightarrow> bool" where
  "match_comps [] [] = True"
| "match_comps (p # ps) (c # cs) = ((if has_prefix p '':'' then c \<noteq> [] else p = c) \<and> match_comps ps cs)"
| "match_comps _ _ = False"

text \<open>The framework as it documents its patterns.\<close>

definition route_matcher :: "(string \<Rightarrow> string \<Rightarrow> bool) \<Rightarrow> bool" where
  "route_matcher matches \<longleftrightarrow> (\<forall>p s. match_comps (split_on CHR ''/'' p) (split_on CHR ''/'' s) \<longrightarrow> matches p s)"

definition segment :: "string \<Rightarrow> bool" where
  "segment s \<longleftrightarrow> s \<noteq> [] \<and> CHR ''/'' \<notin> set s"

definition routed :: "(string \<Rightarrow> string \<Rightarrow> bool) \<Rightarrow> route list \<Rightarrow> string \<Rightarrow> string \<Rightarrow> string \<Rightarrow> bool" where
  "routed matches routes m path h \<longleftrightarrow> (\<exists>r \<in> set routes. rt_method r = m \<and> matches (rt_path r) path \<and> rt_handler r = h)"

fun server_handler :: "server_op \<Rightarrow> string" where
  "server_handler (OpPower a w) = ''postServerPower''"
| "server_handler OpReset = ''postServerReset''"
| "server_handler OpReinstall = ''postServerReinstall''"
| "server_handler (OpStats u) = ''getServerStats''"
| "server_handler OpStatus = ''getServerStatus''"
| "server_handler OpGetServer = ''getServer''"
| "server_handler OpDelete = ''deleteServer''"
| "server_handler (OpCommands cs) = ''postServerCommands''"
| "server_handler (OpLogs p n) = ''getServerLogs''"
| "server_handler OpInstallInfo = ''getServerInstallInfo''"
| "server_handler (OpInstallLogs p n) = ''getServerInstallLogs''"

fun remote_handler :: "remote_op \<Rightarrow> string" where
  "remote_handler (RemRegister b) = ''postNodeRegister''"
| "remote_handler RemHeartbeat = ''postNodeHeartbeat''"
| "remote_handler RemDisconnect = ''postNodeDisconnect''"
| "remote_handler (RemStatus i s) = ''postNodeServerStatus''"
| "remote_handler (RemCrash i c) = ''postEventServerCrash''"
| "remote_handler (RemDeleted i) = ''postEventServerDeleted''"
| "remote_handler (RemInstallStatus i ok re) = ''postNodeServerInstallStatus''"
| "remote_handler (RemServers p l) = ''getAllServerConfigurations''"
| "remote_handler (RemServer i) = ''getServerConfiguration''"
| "remote_handler (RemInstallScript i) = ''getInstallInfo''"

fun remote_server :: "remote_op \<Rightarrow> string option" where
  "remote_server (RemStatus i s) = Some i"
| "remote_server (RemCrash i c) = Some i"
| "remote_server (RemDeleted i) = Some i"
| "remote_server (RemInstallStatus i ok re) = Some i"
| "remote_server (RemServer i) = Some i"
| "remote_server (RemInstallScript i) = Some i"
| "remote_server _ = None"

lemma routedI:
  assumes "route_matcher matches" "route m p g h \<in> set routes" "match_comps (split_on CHR ''/'' p) (split_on CHR ''/'' path)"
  shows "routed matches routes m path h"
  using assms unfolding routed_def route_matcher_def by (metis route.select_convs(1,2,4))

lemma split_segment: "CHR ''/'' \<notin> set s \<Longrightarrow> split_on CHR ''/'' (s @ CHR ''/'' # t) = s # split_on CHR ''/'' t"
  by (rule split_on_append_sep)


lemma split_server_path: "segment i \<Longrightarrow> split_on CHR ''/'' (nc_path (sc_route i (CHR ''/'' # p))) = [[], ''api'', ''servers'', i] @ split_on CHR ''/'' p"
  by (simp add: nc_path_def sc_route_def segment_def split_segment)

lemma split_node_path: "segment n \<Longrightarrow> split_on CHR ''/'' (node_api_path n (CHR ''/'' # p)) = [[], ''api'', ''nodes'', n] @ split_on CHR ''/'' p"
  by (simp add: node_api_path_def segment_def split_segment)

definition server_guards :: "guard list" where
  "server_guards = [Token, Token, Exists ''server'']"

lemma server_routes:
  "(m, p, h) \<in> set [(''DELETE'', [], ''deleteServer''), (''GET'', ''/logs'', ''getServerLogs''), (''POST'', ''/power'', ''postServerPower''),
        (''GET'', ''/status'', ''getServerStatus''), (''GET'', ''/stats'', ''getServerStats''),
        (''POST'', ''/commands'', ''postServerCommands''), (''POST'', ''/reset'', ''postServerReset''),
        (''GET'', ''/install/logs'', ''getServerInstallLogs''), (''GET'', ''/install'', ''getServerInstallInfo''),
        (''POST'', ''/reinstall'', ''postServerReinstall'')] \<Longrightarrow>
    route m (''/api/servers/:server'' @ p) server_guards h \<in> set daemon_routes"
  unfolding daemon_routes_def server_guards_def group_def by (force simp del: append.simps)

lemma server_routed:
  assumes "route_matcher matches" "segment i" "route m (''/api/servers/:server/'' @ p) server_guards h \<in> set daemon_routes"
    "match_comps (split_on CHR ''/'' p) (split_on CHR ''/'' p)"
  shows "routed matches daemon_routes m (nc_path (sc_route i (CHR ''/'' # p))) h"
proof (rule routedI [OF assms(1,3)])
  have "split_on CHR ''/'' (''/api/servers/:server/'' @ p) = [[], ''api'', ''servers'', '':server''] @ split_on CHR ''/'' p"
    by simp
  then show "match_comps (split_on CHR ''/'' (''/api/servers/:server/'' @ p)) (split_on CHR ''/'' (nc_path (sc_route i (CHR ''/'' # p))))"
    unfolding split_server_path [OF assms(2)] using assms(2,4) by (simp add: has_prefix_def segment_def)
qed

lemma routed_node:
  assumes "route_matcher matches"
  shows "routed matches daemon_routes ''POST'' ''/api/servers'' ''postCreateServer''" "routed matches daemon_routes ''POST'' ''/api/sync'' ''postSync''"
    "routed matches daemon_routes ''GET'' ''/api/system'' ''getSystemInformation''"
proof -
  have r: "route ''POST'' ''/api/servers'' [Token] ''postCreateServer'' \<in> set daemon_routes"
      "route ''POST'' ''/api/sync'' [Token] ''postSync'' \<in> set daemon_routes"
      "route ''GET'' ''/api/system'' [Token] ''getSystemInformation'' \<in> set daemon_routes"
    by (simp_all add: daemon_routes_def group_def)
  show "routed matches daemon_routes ''POST'' ''/api/servers'' ''postCreateServer''"
    by (rule routedI [OF assms r(1)]) (simp add: has_prefix_def)
  show "routed matches daemon_routes ''POST'' ''/api/sync'' ''postSync''"
    by (rule routedI [OF assms r(2)]) (simp add: has_prefix_def)
  show "routed matches daemon_routes ''GET'' ''/api/system'' ''getSystemInformation''"
    by (rule routedI [OF assms r(3)]) (simp add: has_prefix_def)
qed

text \<open>
  Everything Protocube's clients ask of a daemon meets the handler of the daemon that is meant for it, for
  every identifier of a server that is one segment of a path; only deleting a server asks for the path with a
  slash at its end, of which the route without it is the one of its handler.
\<close>

theorem daemon_requests_routed:
  assumes "route_matcher matches" "segment i"
  shows "(op \<noteq> OpGetServer \<and> op \<noteq> OpDelete \<longrightarrow>
      routed matches daemon_routes (rq_method (server_request i op)) (rq_path (server_request i op)) (server_handler op)) \<and>
    (\<exists>p. rq_path (server_request i OpDelete) = p @ ''/'' \<and> routed matches daemon_routes ''DELETE'' p ''deleteServer'') \<and>
    routed matches daemon_routes (rq_method (node_op_request (OpCreateServer c))) (rq_path (node_op_request (OpCreateServer c))) ''postCreateServer'' \<and>
    routed matches daemon_routes (rq_method (node_op_request OpSync)) (rq_path (node_op_request OpSync)) ''postSync'' \<and>
    routed matches daemon_routes (rq_method (node_op_request OpSystem)) (rq_path (node_op_request OpSystem)) ''getSystemInformation''"
proof (intro conjI impI)
  have s: "routed matches daemon_routes m (nc_path (sc_route i (CHR ''/'' # p))) h"
    if "(m, CHR ''/'' # p, h) \<in> set [(''GET'', ''/logs'', ''getServerLogs''), (''POST'', ''/power'', ''postServerPower''),
        (''GET'', ''/status'', ''getServerStatus''), (''GET'', ''/stats'', ''getServerStats''),
        (''POST'', ''/commands'', ''postServerCommands''), (''POST'', ''/reset'', ''postServerReset''),
        (''GET'', ''/install/logs'', ''getServerInstallLogs''), (''GET'', ''/install'', ''getServerInstallInfo''),
        (''POST'', ''/reinstall'', ''postServerReinstall'')]" for m p h
  proof (rule server_routed [OF assms])
    show "route m (''/api/servers/:server/'' @ p) server_guards h \<in> set daemon_routes"
      using server_routes [of m "CHR ''/'' # p" h] that by auto
    show "match_comps (split_on CHR ''/'' p) (split_on CHR ''/'' p)" using that by (auto simp: has_prefix_def)
  qed
  show "routed matches daemon_routes (rq_method (server_request i op)) (rq_path (server_request i op)) (server_handler op)"
    if "op \<noteq> OpGetServer \<and> op \<noteq> OpDelete"
    using that by (cases op) (simp_all add: get_request_def post_request_def s)
  have "routed matches daemon_routes ''DELETE'' (nc_path (sc_route i [])) ''deleteServer''"
    using server_routes [of "''DELETE''" "[]" "''deleteServer''"] assms(2)
    by (intro routedI [OF assms(1), of _ _ server_guards]) (auto simp: nc_path_def sc_route_def segment_def has_prefix_def split_on_single)
  then show "\<exists>p. rq_path (server_request i OpDelete) = p @ ''/'' \<and> routed matches daemon_routes ''DELETE'' p ''deleteServer''"
    by (intro exI [of _ "nc_path (sc_route i [])"]) (simp add: delete_request_def nc_path_def sc_route_def)
qed (simp_all add: routed_node [OF assms(1)] post_request_def get_request_def nc_path_def)


lemma daemon_requests_routed_witness:
  "routed (\<lambda>p s. match_comps (split_on CHR ''/'' p) (split_on CHR ''/'' s)) daemon_routes ''GET'' ''/api/servers/s1/logs'' ''getServerLogs''"
  using daemon_requests_routed [of "\<lambda>p s. match_comps (split_on CHR ''/'' p) (split_on CHR ''/'' s)" "''s1''" "OpLogs 1 100"]
  by (simp add: route_matcher_def segment_def get_request_def nc_path_def sc_route_def)

text \<open>
  No route of the daemon gives the data of a server, which a function of the client of a server asks for, with
  a slash at the end of the path or without it.
\<close>

lemma get_server_unrouted:
  "\<not> list_ex (\<lambda>r. rt_method r = ''GET'' \<and>
     (match_comps (split_on CHR ''/'' (rt_path r)) [[], ''api'', ''servers'', ''s1''] \<or>
      match_comps (split_on CHR ''/'' (rt_path r)) (split_on CHR ''/'' (rq_path (server_request ''s1'' OpGetServer))))) daemon_routes"
  by code_simp

section \<open>What nodes may ask\<close>

text \<open>The guards of a route that let the key of a node pass, and ask for no other scope.\<close>

definition node_guards :: "guard list \<Rightarrow> bool" where
  "node_guards gs \<longleftrightarrow> List.member gs (Scope ''node'') \<and> list_all (\<lambda>g. case g of Scope s \<Rightarrow> s = ''node'' | _ \<Rightarrow> True) gs"

text \<open>The handlers for nodes, with the rest of the pattern below the path of the node.\<close>

definition remote_table :: "(string \<times> string \<times> string) list" where
  "remote_table = [(''POST'', ''/register'', ''postNodeRegister''), (''POST'', ''/internal/heartbeat'', ''postNodeHeartbeat''),
      (''POST'', ''/internal/disconnect'', ''postNodeDisconnect''), (''GET'', ''/internal/servers'', ''getAllServerConfigurations''),
      (''GET'', ''/internal/servers/:server'', ''getServerConfiguration''), (''GET'', ''/internal/servers/:server/install'', ''getInstallInfo''),
      (''POST'', ''/internal/event/servers/:server/status'', ''postNodeServerStatus''),
      (''POST'', ''/internal/event/servers/:server/install-status'', ''postNodeServerInstallStatus''),
      (''POST'', ''/internal/event/servers/:server/crash'', ''postEventServerCrash''),
      (''POST'', ''/internal/event/servers/:server/deleted'', ''postEventServerDeleted'')]"

lemma remote_table_routes:
  "list_all (\<lambda>(m, p, h). list_ex (\<lambda>r. rt_method r = m \<and> rt_path r = ''/api/nodes/:node'' @ p \<and> rt_handler r = h \<and> node_guards (rt_guards r))
     protocube_routes) remote_table"
  by code_simp

definition routed_for_nodes :: "(string \<Rightarrow> string \<Rightarrow> bool) \<Rightarrow> string \<Rightarrow> string \<Rightarrow> string \<Rightarrow> bool" where
  "routed_for_nodes matches m path h \<longleftrightarrow>
     (\<exists>r \<in> set protocube_routes. rt_method r = m \<and> matches (rt_path r) path \<and> rt_handler r = h \<and> node_guards (rt_guards r))"

lemma remote_routed:
  assumes "route_matcher matches" "segment n" "(m, CHR ''/'' # p, h) \<in> set remote_table"
    "match_comps (split_on CHR ''/'' p) (split_on CHR ''/'' q)"
  shows "routed_for_nodes matches m (node_api_path n (CHR ''/'' # q)) h"
proof -
  obtain r where r: "r \<in> set protocube_routes" "rt_method r = m" "rt_path r = ''/api/nodes/:node'' @ CHR ''/'' # p" "rt_handler r = h"
      "node_guards (rt_guards r)"
    using remote_table_routes assms(3) by (force simp: list_all_iff list_ex_iff)
  have "split_on CHR ''/'' (rt_path r) = [[], ''api'', ''nodes'', '':node''] @ split_on CHR ''/'' p" unfolding r(3) by simp
  then have "match_comps (split_on CHR ''/'' (rt_path r)) (split_on CHR ''/'' (node_api_path n (CHR ''/'' # q)))"
    unfolding split_node_path [OF assms(2)] using assms(2,4) by (simp add: has_prefix_def segment_def)
  then show ?thesis using r assms(1) unfolding routed_for_nodes_def route_matcher_def by blast
qed

text \<open>
  C23. Everything a daemon asks of Protocube meets the handler that is meant for it, for every identifier of a
  node and of a server that is one segment of a path, and the key of a node is enough for each of these
  routes.
\<close>

theorem node_requests_routed:
  assumes "route_matcher matches" "segment n" "\<forall>i. remote_server op = Some i \<longrightarrow> segment i"
  shows "routed_for_nodes matches (rq_method (remote_request n op)) (rq_path (remote_request n op)) (remote_handler op)"
proof -
  note r = remote_routed [OF assms(1,2)]
  show ?thesis
  proof (cases "remote_server op")
    case None
    then show ?thesis
      by (cases op) (auto simp: post_request_def get_request_def intro!: r simp: remote_table_def has_prefix_def)
  next
    case (Some i)
    then have i: "segment i" using assms(3) by blast
    then show ?thesis using Some
      by (cases op) (auto simp: post_request_def get_request_def intro!: r simp: remote_table_def has_prefix_def segment_def split_segment split_on_single)
  qed
qed


lemma node_requests_routed_witness:
  "routed_for_nodes (\<lambda>p s. match_comps (split_on CHR ''/'' p) (split_on CHR ''/'' s)) ''POST''
     ''/api/nodes/n1/internal/event/servers/s1/status'' ''postNodeServerStatus''"
  using node_requests_routed [of "\<lambda>p s. match_comps (split_on CHR ''/'' p) (split_on CHR ''/'' s)" "''n1''" "RemStatus ''s1'' ''running''"]
  by (simp add: route_matcher_def segment_def post_request_def node_api_path_def)

section \<open>Handlers that relay\<close>

text \<open>An answer: a status with a value, or an error.\<close>

datatype 'a answer = Answer int "'a option" | ErrorAnswer int http_error

definition relay_error :: "client_error \<Rightarrow> 'a answer" where
  "relay_error e = (case handle_error e of (status, body) \<Rightarrow> ErrorAnswer status body)"

definition relay_value :: "client_error + 'a \<Rightarrow> 'a answer" where
  "relay_value r = (case r of Inl e \<Rightarrow> relay_error e | Inr v \<Rightarrow> Answer 200 (Some v))"

definition relay_status :: "int \<Rightarrow> client_error + 'a \<Rightarrow> 'a answer" where
  "relay_status status r = (case r of Inl e \<Rightarrow> relay_error e | Inr v \<Rightarrow> Answer status None)"

definition bind_error :: "string \<Rightarrow> 'a answer" where
  "bind_error e = ErrorAnswer 400 (new_http_error 400 e ''Failed to bind json'')"

text \<open>The handlers of a server; \<open>call\<close> is what the client of the server answers.\<close>

definition relay_power :: "string + string \<times> int \<Rightarrow> (server_op \<Rightarrow> client_error + 'a) \<Rightarrow> 'a answer" where
  "relay_power body call = (case body of Inl e \<Rightarrow> bind_error e | Inr (a, w) \<Rightarrow> relay_status 200 (call (OpPower a w)))"

definition relay_server_status :: "(server_op \<Rightarrow> client_error + 'a) \<Rightarrow> 'a answer" where
  "relay_server_status call = relay_value (call OpStatus)"

definition relay_stats :: "string option \<Rightarrow> (server_op \<Rightarrow> client_error + 'a) \<Rightarrow> 'a answer" where
  "relay_stats update call = relay_value (call (OpStats (update = Some ''true'')))"

definition relay_commands :: "string + string list \<Rightarrow> (server_op \<Rightarrow> client_error + 'a) \<Rightarrow> 'a answer" where
  "relay_commands body call = (case body of Inl e \<Rightarrow> bind_error e | Inr cs \<Rightarrow> relay_status 204 (call (OpCommands cs)))"

definition relay_reset :: "(server_op \<Rightarrow> client_error + 'a) \<Rightarrow> 'a answer" where
  "relay_reset call = relay_status 202 (call OpReset)"

definition relay_reinstall :: "(server_op \<Rightarrow> client_error + 'a) \<Rightarrow> 'a answer" where
  "relay_reinstall call = relay_status 202 (call OpReinstall)"

definition relay_logs :: "(string \<Rightarrow> string option) \<Rightarrow> (server_op \<Rightarrow> client_error + 'a) \<Rightarrow> 'a answer" where
  "relay_logs q call = (case log_pagination_params (q ''page'') (q ''per_page'') (q ''size'') (q ''lines'') of
     (page, per) \<Rightarrow> relay_value (call (OpLogs page per)))"

definition relay_install_info :: "(server_op \<Rightarrow> client_error + 'a) \<Rightarrow> 'a answer" where
  "relay_install_info call = relay_value (call OpInstallInfo)"

definition relay_install_logs :: "(string \<Rightarrow> string option) \<Rightarrow> (server_op \<Rightarrow> client_error + 'a) \<Rightarrow> 'a answer" where
  "relay_install_logs q call = (case log_pagination_params (q ''page'') (q ''per_page'') (q ''size'') (q ''lines'') of
     (page, per) \<Rightarrow> relay_value (call (OpInstallLogs page per)))"

definition relay_node_system :: "(node_op \<Rightarrow> client_error + 'a) \<Rightarrow> 'a answer" where
  "relay_node_system call = relay_value (call OpSystem)"

text \<open>Reloading the registries: what cannot be loaded ends the program.\<close>

definition post_reload :: "'e + 'a \<Rightarrow> ('a \<Rightarrow> 's \<Rightarrow> 's) \<Rightarrow> 's \<Rightarrow> (int \<times> 's) option" where
  "post_reload loaded replace s = (case loaded of Inl e \<Rightarrow> None | Inr v \<Rightarrow> Some (200, replace v s))"

text \<open>The lists of servers and of nodes, in full or of their identifiers.\<close>

datatype ('i, 'd) listing = IdList "'i list" | DataList "'d list"

definition get_all :: "string option \<Rightarrow> ('s \<Rightarrow> 'i) \<Rightarrow> ('s \<Rightarrow> 'd) \<Rightarrow> 's list \<Rightarrow> ('i, 'd) listing" where
  "get_all ids_only i d xs = (if ids_only = Some ''true'' then IdList (map i xs) else DataList (map d xs))"

section \<open>The pages of a log\<close>

text \<open>
  A line of a log as its code points. The expression for escape sequences is an argument.
\<close>

definition is_control_rune :: "nat \<Rightarrow> bool" where
  "is_control_rune r \<longleftrightarrow> r < 32 \<or> (127 \<le> r \<and> r < 160)"

definition is_space_rune :: "nat \<Rightarrow> bool" where
  "is_space_rune r \<longleftrightarrow> r \<in> {9, 10, 11, 12, 13, 32, 133, 160, 5760, 8232, 8233, 8239, 8287, 12288} \<or> (8192 \<le> r \<and> r \<le> 8202)"

definition keep_rune :: "nat \<Rightarrow> bool" where
  "keep_rune r \<longleftrightarrow> \<not> (9472 \<le> r \<and> r \<le> 9599) \<and> \<not> (9600 \<le> r \<and> r \<le> 9631) \<and> (is_control_rune r \<longrightarrow> r = 10 \<or> r = 9)"

definition trim_runes :: "nat list \<Rightarrow> nat list" where
  "trim_runes rs = rev (dropWhile is_space_rune (rev (dropWhile is_space_rune rs)))"

definition strip_line :: "(nat list \<Rightarrow> nat list) \<Rightarrow> nat list \<Rightarrow> nat list" where
  "strip_line ansi line =
     (let c = ansi line;
          c = (if take 2 c = [62, 32] then drop 2 c else c);
          c = filter (\<lambda>r. r \<noteq> 13) c;
          c = filter keep_rune c
      in trim_runes c)"

definition strip_log_lines :: "(nat list \<Rightarrow> nat list) \<Rightarrow> nat list list \<Rightarrow> nat list list" where
  "strip_log_lines ansi lines = map (strip_line ansi) lines"

text \<open>
  What a daemon serves of a log: the page with the number of lines, the size of a page, the page and the
  number of pages; \<open>utf8\<close> is the encoding of a line. \<open>None\<close> is a log that cannot be read.
\<close>

definition serve_log :: "(nat list \<Rightarrow> nat list) \<Rightarrow> (nat list \<Rightarrow> string) \<Rightarrow> nat list list option \<Rightarrow> (string \<Rightarrow> string option) \<Rightarrow>
    (string list \<times> int \<times> int \<times> int \<times> int) option go" where
  "serve_log ansi utf8 lines q = (case log_pagination_params (q ''page'') (q ''per_page'') (q ''size'') (q ''lines'') of
     (page, per) \<Rightarrow> (case lines of
       None \<Rightarrow> Ret None
     | Some ls \<Rightarrow>
         (let s = map utf8 (strip_log_lines ansi ls) in
          go_bind (paginate_log_lines s page per) (\<lambda>(paged, pages). Ret (Some (paged, int (length s), per, page, pages))))))"

lemma trim_runes_subset: "set (trim_runes rs) \<subseteq> set rs"
  unfolding trim_runes_def by (metis set_dropWhileD set_rev subsetI)

text \<open>Nothing that could move the cursor or draw a box is left of a line, and no space at its ends.\<close>

lemma stripped_line_plain:
  assumes "s = strip_line ansi line"
  shows "(\<forall>r \<in> set s. keep_rune r \<and> r \<noteq> 13) \<and> (s \<noteq> [] \<longrightarrow> \<not> is_space_rune (hd s) \<and> \<not> is_space_rune (last s))"
proof -
  obtain c where s: "s = trim_runes (filter keep_rune (filter (\<lambda>r. r \<noteq> 13) c))" using assms by (auto simp: strip_line_def Let_def)
  let ?f = "filter keep_rune (filter (\<lambda>r. r \<noteq> 13) c)" and ?d = "dropWhile is_space_rune (filter keep_rune (filter (\<lambda>r. r \<noteq> 13) c))"
  have t: "s = rev (dropWhile is_space_rune (rev ?d))" unfolding s trim_runes_def by simp
  have ends: "\<not> is_space_rune (hd s) \<and> \<not> is_space_rune (last s)" if "s \<noteq> []"
  proof
    have ne: "dropWhile is_space_rune (rev ?d) \<noteq> []" using that t by auto
    then show "\<not> is_space_rune (last s)" unfolding t last_rev by (rule hd_dropWhile)
    have "?d = s @ rev (takeWhile is_space_rune (rev ?d))"
      unfolding t by (metis rev_append rev_rev_ident takeWhile_dropWhile_id)
    then have "hd s = hd ?d" "?d \<noteq> []" using that by (metis hd_append2, metis append_is_Nil_conv)
    then show "\<not> is_space_rune (hd s)" using hd_dropWhile [of is_space_rune ?f] by simp
  qed
  have "set s \<subseteq> set ?f" unfolding s by (rule trim_runes_subset)
  then show ?thesis using ends by auto
qed


lemma log_params_bounds:
  assumes "log_pagination_params a b c d = (page, per)"
  shows "in_int64 page" "1 \<le> page" "1 \<le> per" "per \<le> 100"
proof -
  have "in_int64 1" by (simp add: in_int64_def int64_min_def int64_max_def)
  then show "in_int64 page" "1 \<le> page" "1 \<le> per" "per \<le> 100"
    using assms atoi_in_int64 by (auto simp: log_pagination_params_def query_int_def Let_def split: if_splits)
qed

text \<open>
  Asked for a page of the log of a server, or of its installation, Protocube answers what the daemon of the
  server would answer to the query of the client itself, whatever that query says.
\<close>

theorem logs_relayed:
  "relay_logs q (\<lambda>op. f (serve_log ansi utf8 lines (gm_get (rq_query (server_request i op))))) = relay_value (f (serve_log ansi utf8 lines q)) \<and>
   relay_install_logs q (\<lambda>op. f (serve_log ansi utf8 lines (gm_get (rq_query (server_request i op))))) = relay_value (f (serve_log ansi utf8 lines q))"
proof -
  obtain page per where p: "log_pagination_params (q ''page'') (q ''per_page'') (q ''size'') (q ''lines'') = (page, per)"
    by (metis surj_pair)
  note b = log_params_bounds [OF p]
  have per: "in_int64 per" using b(3,4) by (simp add: in_int64_def int64_min_def int64_max_def)
  have query: "gm_get (fold (\<lambda>(k, v) m. gm_set m k v) (page_query page per) []) =
      [''page'' \<mapsto> itoa page, ''per_page'' \<mapsto> itoa per]"
    by (rule ext) (simp add: page_query_def gm_set_def gm_get_def)
  have "itoa per \<noteq> []" using atoi_itoa [OF per] by (auto simp: atoi_def)
  then have same: "log_pagination_params (Some (itoa page)) (Some (itoa per)) None None = (page, per)"
    using b per by (simp add: log_pagination_params_def query_int_def Let_def atoi_itoa)
  show ?thesis by (simp add: relay_logs_def relay_install_logs_def p get_request_def query serve_log_def same)
qed

end
