(* ===== verification/Server_Events.thy ===== *)
theory Server_Events
  imports Daemon_Power Disk_Quota Complex_Main "HOL-Library.Multiset"
begin

text \<open>
  The events of the programs: the bus (\<^verbatim>\<open>protocube/events\<close>, \<^verbatim>\<open>daemon/events\<close>), the web socket that hands them
  to a client (\<^verbatim>\<open>protocube/api/router/router_events_ws.go\<close>), the statistics of a container
  (\<^verbatim>\<open>daemon/environment/docker/stats.go\<close>), and what a server makes of the events of its environment
  (\<^verbatim>\<open>daemon/server/listeners.go\<close>, \<^verbatim>\<open>resources.go\<close>). Encoding JSON, Docker and floating point are arguments.
\<close>

section \<open>The bus\<close>

record 'd bus_event =
  be_topic :: string
  be_data :: 'd

text \<open>\<^verbatim>\<open>Publish\<close>: a name space after a colon is cut off; what cannot be encoded panics.\<close>

definition published_topic :: "string \<Rightarrow> string go" where
  "published_topic topic =
     (if CHR '':'' \<in> set topic then (let parts = split2 CHR '':'' topic in
        if length parts = 2 then go_index parts 0 else Ret topic) else Ret topic)"

definition bus_publish ::
  "('d bus_event \<Rightarrow> 'm option) \<Rightarrow> string \<Rightarrow> 'd \<Rightarrow> sink_pool \<Rightarrow> 'm chans \<Rightarrow> 'm chans go" where
  "bus_publish enc topic data pool cs = go_bind (published_topic topic) (\<lambda>t.
     case enc \<lparr>be_topic = t, be_data = data\<rparr> of None \<Rightarrow> Panic | Some m \<Rightarrow> push_all m pool cs)"

definition must_decode :: "('m \<Rightarrow> 'd bus_event option) \<Rightarrow> 'm \<Rightarrow> 'd bus_event go" where
  "must_decode dec m = (case dec m of None \<Rightarrow> Panic | Some e \<Rightarrow> Ret e)"

lemma published_topic_plain: "published_topic t = Ret (takeWhile (\<lambda>c. c \<noteq> CHR '':'') t)"
proof (cases "CHR '':'' \<in> set t")
  case False
  then have whole: "takeWhile (\<lambda>c. c \<noteq> CHR '':'') t = t" by auto
  show ?thesis using False by (simp add: published_topic_def whole)
qed (simp add: published_topic_def split2_def)

text \<open>
  What is published arrives at every sink, as the newest of its messages, and is decoded to the event with the
  topic without its name space.
\<close>

lemma published_decoded:
  assumes "pool_ok pool cs" "\<And>e. \<exists>m. enc e = Some m \<and> dec m = Some e" "\<And>k. Some k \<in> set pool \<Longrightarrow> 0 < ch_cap (cs k)"
  shows "\<exists>cs'. bus_publish enc topic data pool cs = Ret cs' \<and>
    (\<forall>k. Some k \<in> set pool \<longrightarrow> ch_buf (cs' k) \<noteq> [] \<and>
       must_decode dec (last (ch_buf (cs' k))) = Ret \<lparr>be_topic = takeWhile (\<lambda>c. c \<noteq> CHR '':'') topic, be_data = data\<rparr>) \<and>
    (\<forall>k. Some k \<notin> set pool \<longrightarrow> cs' k = cs k)"
proof -
  let ?e = "\<lparr>be_topic = takeWhile (\<lambda>c. c \<noteq> CHR '':'') topic, be_data = data\<rparr>"
  obtain m where m: "enc ?e = Some m" "dec m = Some ?e" using assms(2) by blast
  have "last_n (ch_cap (cs k)) (ch_buf (cs k) @ [m]) \<noteq> [] \<and> last (last_n (ch_cap (cs k)) (ch_buf (cs k) @ [m])) = m"
    if "Some k \<in> set pool" for k
    using assms(3) [OF that] by (simp add: last_n_def last_drop)
  then show ?thesis
    by (auto simp: bus_publish_def published_topic_plain m push_all_ok [OF assms(1)] pushed_def must_decode_def)
qed

section \<open>The web socket\<close>

text \<open>
  A turn of the loop of \<^verbatim>\<open>getServerWebsocket\<close>: the context ends, the reader ends, the ticker with whether the ping
  is written, and a message of the sink with whether it is written.
\<close>

datatype 'm socket_turn = SocketDone | SocketClosed | SocketPing bool | SocketData 'm bool

fun socket_loop :: "('m \<Rightarrow> 'd bus_event option) \<Rightarrow> 'm socket_turn list \<Rightarrow> 'd bus_event list \<Rightarrow> 'd bus_event list go" where
  "socket_loop dec [] out = Ret out"
| "socket_loop dec (SocketDone # ts) out = Ret out"
| "socket_loop dec (SocketClosed # ts) out = Ret out"
| "socket_loop dec (SocketPing ok # ts) out = (if ok then socket_loop dec ts out else Ret out)"
| "socket_loop dec (SocketData m ok # ts) out = go_bind (must_decode dec m) (\<lambda>e.
     if ok then socket_loop dec ts (out @ [e]) else Ret out)"

fun turn_message :: "'m socket_turn \<Rightarrow> 'm option" where
  "turn_message (SocketData m ok) = Some m"
| "turn_message _ = None"

text \<open>A client is sent events that were published, in order, without a gap, and is never the cause of a panic.\<close>

lemma socket_forwards:
  assumes "\<forall>m \<in> set (List.map_filter turn_message ts). dec m \<noteq> None"
  shows "\<exists>sent. socket_loop dec ts out = Ret (out @ sent) \<and> prefix (map Some sent) (map dec (List.map_filter turn_message ts))"
  using assms
proof (induction dec ts out rule: socket_loop.induct)
  case (5 dec m ok ts out)
  obtain e where e: "dec m = Some e" using 5(2) by (auto simp: List.map_filter_simps)
  show ?case
  proof (cases ok)
    case True
    have ts: "\<forall>m \<in> set (List.map_filter turn_message ts). dec m \<noteq> None" using 5(2) by (simp add: List.map_filter_simps)
    from 5(1) [OF True ts, of e] obtain sent where "socket_loop dec ts (out @ [e]) = Ret ((out @ [e]) @ sent)"
      "prefix (map Some sent) (map dec (List.map_filter turn_message ts))" by blast
    then show ?thesis using True e by (auto simp: must_decode_def List.map_filter_simps intro!: exI [of _ "e # sent"])
  qed (simp add: must_decode_def e)
qed (auto simp: List.map_filter_simps)

text \<open>A sink that was closed gives empty messages, and decoding one panics.\<close>

lemma closed_sink_panics: "dec [] = None \<Longrightarrow> socket_loop dec [SocketData [] True] out = Panic"
  by (simp add: must_decode_def)


section \<open>Statistics\<close>

text \<open>
  \<^verbatim>\<open>calculateDockerMemory\<close>: the map of counters, in which a missing one reads as zero the second time.
\<close>

definition docker_memory :: "(string, 64 word) gomap \<Rightarrow> 64 word \<Rightarrow> 64 word" where
  "docker_memory stats usage =
     (let total = gm_get stats ''total_inactive_file'';
          inactive = (case gm_get stats ''inactive_file'' of None \<Rightarrow> 0 | Some v \<Rightarrow> v)
      in if (case total of None \<Rightarrow> False | Some v \<Rightarrow> v < usage) then usage - the total
         else if inactive < usage then usage - inactive else usage)"

text \<open>The memory is what is used less the cache that counts, and it never wraps below zero.\<close>

lemma docker_memory_bounded:
  "docker_memory stats usage \<le> usage \<and> (usage \<noteq> 0 \<longrightarrow> docker_memory stats usage \<noteq> 0) \<and>
   (\<forall>v. gm_get stats ''total_inactive_file'' = Some v \<longrightarrow> v < usage \<longrightarrow> unat (docker_memory stats usage) = unat usage - unat v)"
proof -
  have sub: "usage - v \<le> usage" "usage - v \<noteq> 0" "unat (usage - v) = unat usage - unat v" if "v < usage" for v :: "64 word"
    using that by (auto simp: word_sub_le unat_sub order_less_imp_le)
  show ?thesis by (auto simp: docker_memory_def Let_def sub split: option.splits)
qed

text \<open>
  \<^verbatim>\<open>calculateDockerAbsoluteCpu\<close> over an arithmetic of floating point numbers. The second count of the processors is
  the length of a list.
\<close>

record 'f floats =
  fl_of :: "64 word \<Rightarrow> 'f"
  fl_sub :: "'f \<Rightarrow> 'f \<Rightarrow> 'f"
  fl_mul :: "'f \<Rightarrow> 'f \<Rightarrow> 'f"
  fl_div :: "'f \<Rightarrow> 'f \<Rightarrow> 'f"
  fl_less :: "'f \<Rightarrow> 'f \<Rightarrow> bool"
  fl_same :: "'f \<Rightarrow> 'f \<Rightarrow> bool"
  fl_round :: "'f \<Rightarrow> 'f"

record cpu_stats =
  cu_total :: "64 word"
  cu_system :: "64 word"
  cu_online :: "32 word"
  cu_percpu :: "64 word list"

definition absolute_cpu :: "'f floats \<Rightarrow> cpu_stats \<Rightarrow> cpu_stats \<Rightarrow> 'f" where
  "absolute_cpu fl p s =
     (let cpu_delta = fl_sub fl (fl_of fl (cu_total s)) (fl_of fl (cu_total p));
          system_delta = fl_sub fl (fl_of fl (cu_system s)) (fl_of fl (cu_system p));
          zero = fl_of fl 0;
          cpus = fl_of fl (ucast (cu_online s));
          cpus = (if fl_same fl cpus zero then fl_of fl (word_of_nat (length (cu_percpu s))) else cpus);
          percent = (if fl_less fl zero system_delta \<and> fl_less fl zero cpu_delta
            then let q = fl_mul fl (fl_div fl cpu_delta system_delta) (fl_of fl 100)
                 in if fl_less fl zero cpus then fl_mul fl q cpus else q
            else zero)
      in fl_div fl (fl_round fl (fl_mul fl percent (fl_of fl 1000))) (fl_of fl 1000))"

text \<open>Exact arithmetic in place of floating point; \<^verbatim>\<open>math.Round\<close> rounds halves away from zero.\<close>

definition exact_round :: "rat \<Rightarrow> rat" where
  "exact_round x = (if x < 0 then - of_int \<lfloor>- x + 1 / 2\<rfloor> else of_int \<lfloor>x + 1 / 2\<rfloor>)"

definition exact_of :: "64 word \<Rightarrow> rat" where
  "exact_of w = of_int (uint w)"

definition exact_floats :: "rat floats" where
  "exact_floats = \<lparr>fl_of = exact_of, fl_sub = (-), fl_mul = (*), fl_div = (/), fl_less = (<), fl_same = (=),
     fl_round = exact_round\<rparr>"

lemma exact_round_bounds: "0 \<le> x \<Longrightarrow> x \<le> of_int n \<Longrightarrow> 0 \<le> exact_round x \<and> exact_round x \<le> of_int n"
proof -
  assume x: "0 \<le> x" "x \<le> of_int n"
  have "\<lfloor>x + 1 / 2\<rfloor> \<le> n" using x(2) by (simp add: floor_le_iff)
  moreover have "0 \<le> \<lfloor>x + 1 / 2\<rfloor>" using x(1) by (simp add: le_floor_iff)
  ultimately show ?thesis using x(1) by (simp add: exact_round_def)
qed


text \<open>
  A process that uses no more time than the system has is between nothing and a hundred for each processor, and at
  nothing when its counter does not grow.
\<close>

lemma absolute_cpu_bounds:
  assumes "cu_online s \<noteq> 0" "cu_system p \<le> cu_system s" "uint (cu_total s) - uint (cu_total p) \<le> uint (cu_system s) - uint (cu_system p)"
  shows "0 \<le> absolute_cpu exact_floats p s \<and> absolute_cpu exact_floats p s \<le> 100 * of_int (uint (cu_online s)) \<and>
    (cu_total s \<le> cu_total p \<longrightarrow> absolute_cpu exact_floats p s = 0)"
proof -
  define c where "c = exact_of (cu_total s) - exact_of (cu_total p)"
  define d where "d = exact_of (cu_system s) - exact_of (cu_system p)"
  define n where "n = (of_int (uint (cu_online s)) :: rat)"
  define q where "q = (if 0 < d \<and> 0 < c then c / d * 100 * n else 0)"
  have "uint (ucast (cu_online s) :: 64 word) = uint (cu_online s)" by (rule uint_up_ucast) (simp add: is_up)
  then have u: "exact_of (ucast (cu_online s)) = n" by (simp only: exact_of_def n_def)
  have k: "exact_of 0 = 0" "exact_of 100 = 100" "exact_of 1000 = 1000" by (simp_all add: exact_of_def)
  have "0 < uint (cu_online s)" using assms(1) by (metis less_le uint_0_iff uint_ge_0)
  then have n: "0 < n" unfolding n_def by (simp only: of_int_0_less_iff)
  have cpu: "absolute_cpu exact_floats p s = exact_round (q * 1000) / 1000"
    using n unfolding absolute_cpu_def exact_floats_def Let_def by (simp add: u k q_def c_def d_def)
  have cd: "c \<le> d" using assms(3) unfolding c_def d_def exact_of_def by (metis of_int_diff of_int_le_iff)
  have q: "0 \<le> q" "q \<le> 100 * n"
  proof -
    have "c / d \<le> 1" if "0 < d" using cd that by simp
    then have "0 < d \<Longrightarrow> c / d * (100 * n) \<le> 1 * (100 * n)" using n by (intro mult_right_mono) auto
    then show "0 \<le> q" "q \<le> 100 * n" using n by (auto simp: q_def mult.assoc)
  qed
  have bound: "of_int (100000 * uint (cu_online s)) = 100000 * n" unfolding n_def by (simp only: of_int_mult of_int_numeral)
  have r: "0 \<le> exact_round (q * 1000)" "exact_round (q * 1000) \<le> 100000 * n"
    using exact_round_bounds [of "q * 1000" "100000 * uint (cu_online s)"] q unfolding bound by auto
  have "q = 0" if "cu_total s \<le> cu_total p"
  proof -
    have "c \<le> 0" using that unfolding c_def exact_of_def word_le_def by (metis of_int_le_iff diff_le_0_iff_le)
    then show ?thesis by (simp add: q_def)
  qed
  moreover have "\<lfloor>1 / 2 :: rat\<rfloor> = 0" by (simp add: floor_unique)
  ultimately show ?thesis using r unfolding n_def [symmetric] by (auto simp: cpu exact_round_def)
qed

text \<open>
  \<^verbatim>\<open>Uptime\<close>: what inspecting the container says, with the time it was started where that parses. Durations are in
  nanoseconds and saturate, and milliseconds are cut off towards zero.
\<close>

definition saturate64 :: "int \<Rightarrow> int" where
  "saturate64 x = max int64_min (min int64_max x)"

definition milliseconds :: "int \<Rightarrow> int" where
  "milliseconds d = (if d < 0 then - (- d div 1000000) else d div 1000000)"

definition env_uptime :: "int \<Rightarrow> ('e + bool \<times> int option) \<Rightarrow> int \<times> bool" where
  "env_uptime now ins = (case ins of
     Inl e \<Rightarrow> (0, False)
   | Inr (running, started) \<Rightarrow>
       (if \<not> running then (0, True)
        else case started of None \<Rightarrow> (0, False) | Some t \<Rightarrow> (milliseconds (saturate64 (now - t)), True)))"

record network_stats =
  nw_rx :: "64 word"
  nw_tx :: "64 word"

record 'f env_stats =
  es_memory :: "64 word"
  es_memory_limit :: "64 word"
  es_cpu :: 'f
  es_cpu_limit :: 'f
  es_network :: network_stats
  es_uptime :: int

record stats_reading =
  sr_read :: int
  sr_preread :: "int option"
  sr_memory :: "(string, 64 word) gomap"
  sr_usage :: "64 word"
  sr_limit :: "64 word"
  sr_precpu :: cpu_stats
  sr_cpu :: cpu_stats
  sr_networks :: "(string, network_stats) gomap"

fun sum_networks :: "(string, network_stats) gomap \<Rightarrow> network_stats \<Rightarrow> network_stats" where
  "sum_networks [] n = n"
| "sum_networks ((k, w) # ws) n = sum_networks ws \<lparr>nw_rx = nw_rx n + nw_rx w, nw_tx = nw_tx n + nw_tx w\<rparr>"

text \<open>
  A turn of the loop of \<^verbatim>\<open>pollResources\<close>: the context has ended, decoding fails, or a reading comes when the
  environment is offline or not, with the processor limit of that moment.
\<close>

datatype 'f poll_turn = PollDone | PollUndecodable | PollReading stats_reading bool 'f

fun poll_loop :: "'f floats \<Rightarrow> int \<Rightarrow> 'f poll_turn list \<Rightarrow> 'f env_stats list" where
  "poll_loop fl uptime [] = []"
| "poll_loop fl uptime (PollDone # ts) = []"
| "poll_loop fl uptime (PollUndecodable # ts) = []"
| "poll_loop fl uptime (PollReading r offline limit # ts) =
     (if offline then []
      else let uptime = (case sr_preread r of None \<Rightarrow> uptime
                         | Some t \<Rightarrow> wrap64 (uptime + milliseconds (saturate64 (sr_read r - t))))
        in \<lparr>es_memory = docker_memory (sr_memory r) (sr_usage r), es_memory_limit = sr_limit r,
             es_cpu = absolute_cpu fl (sr_precpu r) (sr_cpu r), es_cpu_limit = limit,
             es_network = sum_networks (sr_networks r) \<lparr>nw_rx = 0, nw_tx = 0\<rparr>, es_uptime = uptime\<rparr> # poll_loop fl uptime ts)"

text \<open>
  The whole of it: refused for a stopped server, an error when the stream cannot be opened, and the error of the
  context when that ended it.
\<close>

fun poll_canceled :: "'f poll_turn list \<Rightarrow> bool" where
  "poll_canceled [] = False"
| "poll_canceled (PollDone # ts) = True"
| "poll_canceled (PollUndecodable # ts) = False"
| "poll_canceled (PollReading r offline limit # ts) = (if offline then False else poll_canceled ts)"

definition poll_resources ::
  "'f floats \<Rightarrow> pstate \<Rightarrow> bool \<Rightarrow> int \<Rightarrow> ('e + bool \<times> int option) \<Rightarrow> 'f poll_turn list \<Rightarrow> bool \<times> 'f env_stats list" where
  "poll_resources fl st opened now ins ts =
     (if st = Offline \<or> \<not> opened then (False, []) else (\<not> poll_canceled ts, poll_loop fl (fst (env_uptime now ins)) ts))"

text \<open>The traffic does not depend on the order of the networks.\<close>

lemma sum_networks_sums:
  "sum_networks ws n = \<lparr>nw_rx = nw_rx n + sum_list (map (nw_rx \<circ> snd) ws), nw_tx = nw_tx n + sum_list (map (nw_tx \<circ> snd) ws)\<rparr>"
  by (induction ws n rule: sum_networks.induct) (simp_all add: add.assoc)

lemma networks_any_order: "mset ws = mset vs \<Longrightarrow> sum_networks ws n = sum_networks vs n"
  by (simp add: sum_networks_sums sum_mset_sum_list [symmetric] mset_map)

text \<open>A stopped server publishes nothing, and nothing is published after its state is seen to be offline.\<close>

lemma poll_offline:
  "snd (poll_resources fl Offline opened now ins ts) = []"
  "poll_loop fl u (ts @ PollReading r True l # us) = poll_loop fl u (ts @ [PollReading r True l])"
proof -
  show "snd (poll_resources fl Offline opened now ins ts) = []" by (simp add: poll_resources_def)
  show "poll_loop fl u (ts @ PollReading r True l # us) = poll_loop fl u (ts @ [PollReading r True l])"
    by (induction fl u ts rule: poll_loop.induct) (simp_all add: Let_def)
qed

text \<open>
  The published uptimes never go back, as long as the clock of the readings does not and the sums fit; and the memory
  is never more than what is used.
\<close>

fun reading_of :: "'f poll_turn \<Rightarrow> stats_reading option" where
  "reading_of (PollReading r off l) = Some r"
| "reading_of _ = None"

fun steady :: "int \<Rightarrow> 'f poll_turn list \<Rightarrow> bool" where
  "steady u (PollReading r off l # ts) \<longleftrightarrow> (case sr_preread r of None \<Rightarrow> steady u ts
     | Some t \<Rightarrow> t \<le> sr_read r \<and> sr_read r - t \<le> int64_max \<and> u + milliseconds (sr_read r - t) \<le> int64_max \<and>
         steady (u + milliseconds (sr_read r - t)) ts)"
| "steady u ts \<longleftrightarrow> True"

lemma uptime_grows:
  assumes "0 \<le> u" "u \<le> int64_max" "steady u ts"
  shows "sorted (u # map es_uptime (poll_loop fl u ts))"
  using assms
proof (induction fl u ts rule: poll_loop.induct)
  case (4 fl u r off l ts)
  define u' where "u' = (case sr_preread r of None \<Rightarrow> u | Some t \<Rightarrow> wrap64 (u + milliseconds (saturate64 (sr_read r - t))))"
  have u': "u \<le> u' \<and> u' \<le> int64_max \<and> steady u' ts"
  proof (cases "sr_preread r")
    case (Some t)
    have "saturate64 (sr_read r - t) = sr_read r - t" "0 \<le> milliseconds (sr_read r - t)"
      using 4(4) Some by (auto simp: saturate64_def milliseconds_def int64_min_def)
    then show ?thesis using 4(2,4) Some by (auto simp: u'_def int64_max_def int64_min_def in_int64_def intro!: wrap64_id)
  qed (use 4(3,4) in \<open>simp add: u'_def\<close>)
  show ?case
  proof (cases off)
    case False
    have "sorted (u' # map es_uptime (poll_loop fl u' ts))"
      using u' 4(1) [OF False u'_def] 4(2) by (meson order_trans)
    then show ?thesis using False u' unfolding poll_loop.simps u'_def [symmetric] by (auto simp: Let_def)
  qed simp
qed simp_all


section \<open>The resources of a server\<close>

record 'f resource_usage =
  ru_stats :: "'f env_stats"
  ru_disk :: int
  ru_max_disk :: int
  ru_overlay :: int

definition update_stats :: "'f env_stats \<Rightarrow> 'f resource_usage \<Rightarrow> 'f resource_usage" where
  "update_stats s ru = ru\<lparr>ru_stats := s\<rparr>"

definition reset_usage :: "'f floats \<Rightarrow> 'f resource_usage \<Rightarrow> 'f resource_usage" where
  "reset_usage fl ru = ru\<lparr>ru_stats := (ru_stats ru)\<lparr>es_memory := 0, es_cpu := fl_of fl 0, es_uptime := 0,
     es_network := \<lparr>nw_rx = 0, nw_tx = 0\<rparr>\<rparr>\<rparr>"

text \<open>\<^verbatim>\<open>Proc\<close>, with the cached usage of the overlay.\<close>

definition server_proc :: "int \<Rightarrow> volume \<Rightarrow> 'f resource_usage \<Rightarrow> 'f resource_usage" where
  "server_proc overlay v ru = ru\<lparr>ru_max_disk := vo_limit v, ru_disk := vo_usage v, ru_overlay := overlay\<rparr>"

text \<open>A reset keeps the limits of the last reading and the usage of the disk.\<close>

lemma reset_keeps_limits:
  "es_memory_limit (ru_stats (reset_usage fl ru)) = es_memory_limit (ru_stats ru) \<and>
   es_cpu_limit (ru_stats (reset_usage fl ru)) = es_cpu_limit (ru_stats ru) \<and> ru_disk (reset_usage fl ru) = ru_disk ru \<and>
   reset_usage fl (reset_usage fl ru) = reset_usage fl ru"
  by (simp add: reset_usage_def)

section \<open>The listener\<close>

text \<open>
  The limiter of disk space is a \<^verbatim>\<open>sync.Once\<close>: whether it is done, and whether its lock is held, which is so while
  the first call runs. A reset puts a new one in its place, whatever runs in the old one. Leaving a lock that is not
  held ends the program.
\<close>

record disk_limiter =
  ol_done :: bool
  ol_busy :: bool

datatype limiter_turn = LimiterSkips | LimiterWaits | LimiterRuns

definition limiter_enter :: "disk_limiter \<Rightarrow> limiter_turn \<times> disk_limiter" where
  "limiter_enter l = (if ol_done l then (LimiterSkips, l)
     else if ol_busy l then (LimiterWaits, l) else (LimiterRuns, l\<lparr>ol_busy := True\<rparr>))"

definition limiter_leave :: "disk_limiter \<Rightarrow> disk_limiter go" where
  "limiter_leave l = (if ol_busy l then Ret \<lparr>ol_done = True, ol_busy = False\<rparr> else Panic)"

definition limiter_reset :: "disk_limiter \<Rightarrow> disk_limiter" where
  "limiter_reset l = \<lparr>ol_done = False, ol_busy = False\<rparr>"

datatype ('f, 'd) env_event = EnvUndecodable | EnvResource "'f env_stats option" | EnvState pstate
  | EnvPullStatus 'd | EnvPullStarted | EnvPullCompleted | EnvOther

datatype ('f, 'd) listener_effect = StatsOut "'f resource_usage" | SpaceStop | InstallOut 'd | DaemonLine string

record ('f, 'd) listener =
  li_resources :: "'f resource_usage"
  li_limiter :: disk_limiter
  li_power :: power
  li_volume :: volume
  li_overlay :: int
  li_stopping :: nat
  li_effects :: "('f, 'd) listener_effect list"

definition say :: "('f, 'd) listener_effect \<Rightarrow> ('f, 'd) listener \<Rightarrow> ('f, 'd) listener" where
  "say x s = s\<lparr>li_effects := li_effects s @ [x]\<rparr>"

text \<open>\<^verbatim>\<open>Trigger\<close>, up to the call that waits for the server to stop.\<close>

definition limiter_trigger :: "('f, 'd) listener \<Rightarrow> ('f, 'd) listener" where
  "limiter_trigger s = (case limiter_enter (li_limiter s) of
     (LimiterRuns, l) \<Rightarrow> say SpaceStop (say (DaemonLine ''Server is exceeding the assigned disk space limit, stopping process now.'')
        (s\<lparr>li_limiter := l, li_stopping := li_stopping s + 1\<rparr>))
   | _ \<Rightarrow> s)"

definition resource_event :: "int \<Rightarrow> int \<Rightarrow> bool \<Rightarrow> 'f env_stats \<Rightarrow> ('f, 'd) listener \<Rightarrow> ('f, 'd) listener" where
  "resource_event interval now in_progress stats s =
     (let ru = server_proc (li_overlay s) (li_volume s) (update_stats stats (li_resources s));
          s = say (StatsOut ru) (s\<lparr>li_resources := ru\<rparr>)
      in if was_online (pw_state (li_power s)) \<and> vo_limit (li_volume s) > 0 then
           (case has_space_available interval now True in_progress (li_volume s) of
              (ok, v) \<Rightarrow> if \<not> ok then limiter_trigger (s\<lparr>li_volume := v\<rparr>) else s\<lparr>li_volume := v\<rparr>)
         else s)"

text \<open>One event of the environment; a state change is one of \<open>Daemon_Power\<close>, and starting resets the limiter.\<close>

definition listen_event ::
  "docker \<Rightarrow> int \<Rightarrow> int \<Rightarrow> bool \<Rightarrow> ('f, 'd) env_event \<Rightarrow> ('f, 'd) listener \<Rightarrow> ('f, 'd) listener" where
  "listen_event d interval now in_progress e s = (case e of
     EnvUndecodable \<Rightarrow> s
   | EnvResource None \<Rightarrow> s
   | EnvResource (Some stats) \<Rightarrow> resource_event interval now in_progress stats s
   | EnvState published \<Rightarrow>
       s\<lparr>li_limiter := (if published = Starting then limiter_reset (li_limiter s) else li_limiter s),
         li_power := handle_state_event d published (pw_state (li_power s)) (li_power s)\<rparr>
   | EnvPullStatus data \<Rightarrow> say (InstallOut data) s
   | EnvPullStarted \<Rightarrow> say (DaemonLine ''Pulling Docker container image, this could take a few minutes to complete...'') s
   | EnvPullCompleted \<Rightarrow> say (DaemonLine ''Finished pulling Docker container image'') s
   | EnvOther \<Rightarrow> s)"

text \<open>A step is an event, with the time it comes, or the return of a call that waited for the server to stop.\<close>

datatype ('f, 'd) listener_step = ListenEvent int bool "('f, 'd) env_event" | StopReturns

fun listen_run :: "docker \<Rightarrow> int \<Rightarrow> ('f, 'd) listener_step list \<Rightarrow> ('f, 'd) listener \<Rightarrow> ('f, 'd) listener go" where
  "listen_run d interval [] s = Ret s"
| "listen_run d interval (ListenEvent now busy e # ts) s = listen_run d interval ts (listen_event d interval now busy e s)"
| "listen_run d interval (StopReturns # ts) s =
     (case li_stopping s of
        0 \<Rightarrow> listen_run d interval ts s
      | Suc n \<Rightarrow> go_bind (limiter_leave (li_limiter s)) (\<lambda>l. listen_run d interval ts (s\<lparr>li_limiter := l, li_stopping := n\<rparr>)))"

definition stops :: "('f, 'd) listener \<Rightarrow> nat" where
  "stops s = length (filter (\<lambda>x. x = SpaceStop) (li_effects s))"

definition listener_ok :: "('f, 'd) listener \<Rightarrow> bool" where
  "listener_ok s \<longleftrightarrow> li_stopping s = (if ol_busy (li_limiter s) then 1 else 0)"

lemma listen_event_ok:
  assumes "listener_ok s" "e \<noteq> EnvState Starting"
  shows "listener_ok (listen_event d interval now busy e s) \<and>
    stops (listen_event d interval now busy e s) =
      stops s + (if (ol_done (li_limiter s) \<or> ol_busy (li_limiter s)) \<or>
        \<not> (ol_done (li_limiter (listen_event d interval now busy e s)) \<or> ol_busy (li_limiter (listen_event d interval now busy e s))) then 0 else 1) \<and>
    (ol_done (li_limiter s) \<or> ol_busy (li_limiter s) \<longrightarrow>
       ol_done (li_limiter (listen_event d interval now busy e s)) \<or> ol_busy (li_limiter (listen_event d interval now busy e s)))"
  using assms
  by (auto simp: listen_event_def resource_event_def limiter_trigger_def limiter_enter_def say_def stops_def listener_ok_def Let_def
      split: env_event.splits option.splits prod.splits)

text \<open>
  While the server is not started anew, a server that exceeds its limit is stopped once at most, in whatever order
  the events come and the call that stops it returns.
\<close>

lemma stopped_once:
  assumes "listener_ok s" "\<forall>t \<in> set ts. \<forall>now b. t \<noteq> ListenEvent now b (EnvState Starting)"
  shows "\<exists>s'. listen_run d interval ts s = Ret s' \<and> listener_ok s' \<and>
    stops s' \<le> stops s + (if ol_done (li_limiter s) \<or> ol_busy (li_limiter s) then 0 else 1)"
  using assms
proof (induction d interval ts s rule: listen_run.induct)
  case (2 d interval now busy e ts s)
  have e: "e \<noteq> EnvState Starting" using 2(3) by auto
  note ok = listen_event_ok [OF 2(2) e, of d interval now busy]
  have "\<forall>t \<in> set ts. \<forall>now b. t \<noteq> ListenEvent now b (EnvState Starting)" using 2(3) by simp
  from 2(1) [OF conjunct1 [OF ok] this] show ?case using ok by (auto split: if_splits)
next
  case (3 d interval ts s)
  have ts: "\<forall>t \<in> set ts. \<forall>now b. t \<noteq> ListenEvent now b (EnvState Starting)" using 3(4) by simp
  show ?case
  proof (cases "li_stopping s")
    case 0
    then show ?thesis using 3(1) [OF 0 3(3) ts] by simp
  next
    case (Suc n)
    let ?l = "\<lparr>ol_done = True, ol_busy = False\<rparr>"
    have busy: "ol_busy (li_limiter s)" "n = 0" using 3(3) Suc by (auto simp: listener_ok_def split: if_splits)
    have "listener_ok (s\<lparr>li_limiter := ?l, li_stopping := n\<rparr>)" using busy by (simp add: listener_ok_def)
    from 3(2) [OF Suc this ts] show ?thesis using Suc busy by (auto simp: limiter_leave_def stops_def)
  qed
qed auto


text \<open>It is stopped as soon as a reading finds the usage above a positive limit, with the checks on.\<close>

lemma exceeding_server_stopped:
  assumes "was_online (pw_state (li_power s))" "0 < vo_limit (li_volume s)" "vo_limit (li_volume s) < vo_usage (li_volume s)"
    "interval \<noteq> 0" "li_limiter s = \<lparr>ol_done = False, ol_busy = False\<rparr>"
  shows "stops (listen_event d interval now busy (EnvResource (Some stats)) s) = stops s + 1 \<and>
    stops (listen_event d 0 now busy (EnvResource (Some stats)) s) = stops s"
  using assms by (simp add: listen_event_def resource_event_def has_space_available_def disk_usage_def Let_def
      limiter_trigger_def limiter_enter_def say_def stops_def)

text \<open>
  A server that is started again before the call that stops it has returned ends the daemon: the reset has put an
  unlocked lock in the place of the one that is held.
\<close>

lemma reset_during_stop:
  assumes "was_online (pw_state (li_power s))" "0 < vo_limit (li_volume s)" "vo_limit (li_volume s) < vo_usage (li_volume s)"
    "interval \<noteq> 0" "li_limiter s = \<lparr>ol_done = False, ol_busy = False\<rparr>"
  shows "listen_run d interval [ListenEvent now b (EnvResource (Some stats)), ListenEvent now b (EnvState Starting), StopReturns] s = Panic"
  using assms by (simp add: listen_event_def resource_event_def has_space_available_def disk_usage_def Let_def
      limiter_trigger_def limiter_enter_def say_def limiter_reset_def limiter_leave_def)

section \<open>Console output\<close>

text \<open>\<^verbatim>\<open>processConsoleOutputEvent\<close>: a line the throttle refuses is not sent; \<open>on_console_output\<close> sees every line, in a goroutine of its own.\<close>

definition process_console_output ::
  "(string \<Rightarrow> bool) \<Rightarrow> (string \<Rightarrow> string) \<Rightarrow> int \<Rightarrow> string \<Rightarrow> sink_pool \<Rightarrow>
     console_throttle \<times> string chans \<times> power \<Rightarrow> (console_throttle \<times> string chans \<times> power) go" where
  "process_console_output online strip now line pool s = (let (ct, cs, p) = s;
       p = on_console_output online strip line p; (ok, strike, ct) = throttle_allow now ct
     in if \<not> ok then Ret (ct, cs, p) else go_bind (push_all line pool cs) (\<lambda>cs. Ret (ct, cs, p)))"

text \<open>The throttle holds lines back from the readers of the console, and never from the detection of the start.\<close>

lemma throttled_line_seen:
  assumes "pool_ok pool cs"
  shows "\<exists>ct' cs'. process_console_output online strip now line pool (ct, cs, p) = Ret (ct', cs', on_console_output online strip line p) \<and>
    (\<forall>k. cs' k \<noteq> cs k \<longrightarrow> fst (throttle_allow now ct) \<and> Some k \<in> set pool \<and> cs' k = pushed line (cs k))"
  by (cases "throttle_allow now ct") (auto simp: process_console_output_def Let_def push_all_ok [OF assms])

end
