(* ===== verification/Error_Kinds.thy ===== *)
theory Error_Kinds
  imports Node_Client
begin

text \<open>
  What the daemon makes of errors: those of system calls (\<^verbatim>\<open>daemon/internal/ufs/error.go\<close>), the answers of its
  API to a failed request (\<^verbatim>\<open>daemon/api/router/middleware/request_error.go\<close>, \<^verbatim>\<open>httperror\<close>), the errors of
  Protocube (\<^verbatim>\<open>daemon/remote/errors.go\<close>) and those of Docker (\<^verbatim>\<open>daemon/environment/docker/api.go\<close>). Comparing
  versions and decoding JSON are arguments.
\<close>

section \<open>Errors of system calls\<close>

datatype sys_errno = SysExist | SysIsDir | SysNotDir | SysNoEntry | SysNotPermitted | SysCrossDevice | SysLoop | SysOther int

datatype path_sentinel = IsDirectoryErr | NotDirectoryErr | BadPathErr | NotRegularErr | ClosedErr | InvalidErr | ExistErr
  | NotExistErr | PermissionErr

text \<open>
  An error is a number of the system, one of the values the package compares with, an error of a path with its
  operation, path and cause, any other error that wraps one, or one that wraps none.
\<close>

datatype go_error = Errno sys_errno | Sentinel path_sentinel | PathErr string string go_error
  | Wrapping string go_error | PlainErr string

text \<open>\<^verbatim>\<open>errors.As\<close> for a path error and for a number: the first in the chain.\<close>

fun as_path_error :: "go_error \<Rightarrow> (string \<times> string \<times> go_error) option" where
  "as_path_error (PathErr op path e) = Some (op, path, e)"
| "as_path_error (Wrapping m e) = as_path_error e"
| "as_path_error _ = None"

fun as_errno :: "go_error \<Rightarrow> sys_errno option" where
  "as_errno (Errno n) = Some n"
| "as_errno (PathErr op path e) = as_errno e"
| "as_errno (Wrapping m e) = as_errno e"
| "as_errno _ = None"

definition errno_to_path_error :: "sys_errno \<Rightarrow> string \<Rightarrow> string \<Rightarrow> go_error" where
  "errno_to_path_error n op path = (case n of
     SysExist \<Rightarrow> PathErr op path (Sentinel ExistErr)
   | SysIsDir \<Rightarrow> PathErr op path (Sentinel IsDirectoryErr)
   | SysNotDir \<Rightarrow> PathErr op path (Sentinel NotDirectoryErr)
   | SysNoEntry \<Rightarrow> PathErr op path (Sentinel NotExistErr)
   | SysNotPermitted \<Rightarrow> PathErr op path (Sentinel PermissionErr)
   | SysCrossDevice \<Rightarrow> PathErr op path (Sentinel BadPathErr)
   | SysLoop \<Rightarrow> PathErr op path (Sentinel BadPathErr)
   | SysOther k \<Rightarrow> PathErr op path (Errno n))"

definition convert_error_type :: "go_error option \<Rightarrow> go_error option" where
  "convert_error_type err = (case err of
     None \<Rightarrow> None
   | Some e \<Rightarrow> (case as_path_error e of
       Some (op, path, cause) \<Rightarrow> (case cause of
         Errno n \<Rightarrow> Some (errno_to_path_error n op path)
       | _ \<Rightarrow> Some (PathErr op path cause))
     | None \<Rightarrow> (case as_errno e of
         Some n \<Rightarrow> Some (PathErr ''!(UNKNOWN)'' ''!(UNKNOWN)'' e)
       | None \<Rightarrow> Some e)))"

definition ensure_path_error :: "go_error option \<Rightarrow> string \<Rightarrow> string \<Rightarrow> go_error option" where
  "ensure_path_error err op path = (case err of
     None \<Rightarrow> None
   | Some e \<Rightarrow> (case as_path_error e of
       Some (o1, p1, cause) \<Rightarrow> (case cause of
         Errno n \<Rightarrow> Some (errno_to_path_error n o1 p1)
       | _ \<Rightarrow> Some (PathErr o1 p1 cause))
     | None \<Rightarrow> (case as_errno e of
         Some n \<Rightarrow> Some (errno_to_path_error n op path)
       | None \<Rightarrow> Some (PathErr op path e))))"

text \<open>The cause of an error that has been made one of the package: a number only where there is no value for it.\<close>

definition settled :: "go_error \<Rightarrow> bool" where
  "settled e \<longleftrightarrow> (case e of PathErr op path cause \<Rightarrow> (case cause of Errno n \<Rightarrow> (\<exists>k. n = SysOther k) | _ \<Rightarrow> True) | _ \<Rightarrow> False)"

lemma errno_settled [simp]: "settled (errno_to_path_error n op path)"
  by (cases n) (simp_all add: errno_to_path_error_def settled_def)

lemma settled_fixed: "settled e \<Longrightarrow> ensure_path_error (Some e) op path = Some e \<and> convert_error_type (Some e) = Some e"
  by (cases e) (auto simp: settled_def ensure_path_error_def convert_error_type_def errno_to_path_error_def split: go_error.splits)

text \<open>
  Ensuring a path error gives one whose cause is a value of the package wherever there is one, doing it again or
  converting it changes nothing, and the operation and path an error had are kept.
\<close>

lemma ensure_path_error_spec:
  assumes "ensure_path_error (Some e) op path = Some r"
  shows "settled r \<and> ensure_path_error (Some r) op' path' = Some r \<and> convert_error_type (Some r) = Some r \<and>
    (\<forall>o1 p1 c. as_path_error e = Some (o1, p1, c) \<longrightarrow> (\<exists>c'. r = PathErr o1 p1 c'))"
proof -
  have s: "settled r"
  proof (cases "as_path_error e")
    case None
    then have "r = (case as_errno e of Some n \<Rightarrow> errno_to_path_error n op path | None \<Rightarrow> PathErr op path e)"
      using assms by (cases "as_errno e") (simp_all add: ensure_path_error_def)
    then show ?thesis using None by (cases "as_errno e"; cases e) (simp_all add: settled_def [of "PathErr op path _"])
  next
    case (Some x)
    obtain o1 p1 c where "x = (o1, p1, c)" by (metis prod_cases3)
    then show ?thesis using assms Some by (cases c) (auto simp: ensure_path_error_def settled_def [of "PathErr o1 p1 _"])
  qed
  have "as_path_error e = Some (o1, p1, c) \<Longrightarrow> \<exists>c'. r = PathErr o1 p1 c'" for o1 p1 c
    using assms by (auto simp: ensure_path_error_def errno_to_path_error_def split: go_error.splits sys_errno.splits)
  then show ?thesis using s settled_fixed [OF s] by blast
qed

text \<open>A bare number is only marked by a conversion, and becomes a value of the package by the next.\<close>

lemma convert_twice:
  "convert_error_type (Some (Errno SysExist)) = Some (PathErr ''!(UNKNOWN)'' ''!(UNKNOWN)'' (Errno SysExist))"
  "convert_error_type (convert_error_type (Some (Errno SysExist))) = Some (PathErr ''!(UNKNOWN)'' ''!(UNKNOWN)'' (Sentinel ExistErr))"
  by code_simp+


section \<open>Answers to a failed request\<close>

text \<open>
  \<^verbatim>\<open>RequestError\<close>: the text of the error and whether it is an exceeded deadline, a status and a message, which are
  0 and empty when they were not set.
\<close>

record api_error =
  ae_text :: string
  ae_deadline :: bool
  ae_status :: int
  ae_msg :: string

text \<open>\<^verbatim>\<open>Abort\<close>: the status of the answer, its body and the identifier of the request; \<open>written\<close> is the status of the writer.\<close>

definition api_abort :: "int \<Rightarrow> string \<Rightarrow> api_error \<Rightarrow> int \<Rightarrow> int \<times> http_error \<times> string" where
  "api_abort written request_id re status =
     (let re = (if written = 200 then
            (if ae_deadline re then re\<lparr>ae_status := 504,
               ae_msg := ''The server could not process this request in time, please try again.''\<rparr>
             else if contains_sub (ae_text re) ''context canceled''
               then re\<lparr>ae_status := 400, ae_msg := ''Request aborted by client.''\<rparr> else re)
          else re);
          re = (if ae_msg re = [] then re\<lparr>ae_msg := ''An unexpected error was encountered while processing this request''\<rparr> else re);
          final = (if ae_status re \<noteq> 0 then ae_status re else status)
      in (final, new_http_error final (ae_text re) (ae_msg re), request_id))"

definition new_api_error :: "string \<Rightarrow> bool \<Rightarrow> api_error" where
  "new_api_error msg deadline = \<lparr>ae_text = msg, ae_deadline = deadline, ae_status = 0, ae_msg = []\<rparr>"

text \<open>\<^verbatim>\<open>CaptureErrors\<close> of the daemon, for the last error of a handler.\<close>

definition capture_api_errors :: "int \<Rightarrow> string \<Rightarrow> (string \<times> bool) option \<Rightarrow> (int \<times> http_error \<times> string) option" where
  "capture_api_errors written request_id err = (case err of
     None \<Rightarrow> None
   | Some (msg, deadline) \<Rightarrow>
       (let status = (if written \<noteq> 200 then written else 500) in
        if msg = ''EOF'' then Some (400, new_http_error 400 ''empty or unreadable request body''
          ''The data passed in the request was not in a parsable format. Please try again.'', [])
        else Some (api_abort written request_id (new_api_error msg deadline) status)))"

text \<open>
  A failed request is answered with a status that is not one of success unless a handler had written one, with the
  error as its detail and always with a hint.
\<close>

lemma captured_status:
  assumes "capture_api_errors written rid (Some err) = Some (status, body, i)" "200 \<le> status" "status < 300"
  shows "written = status \<and> written \<noteq> 200"
  using assms by (cases err) (auto simp: capture_api_errors_def api_abort_def new_api_error_def Let_def split: if_splits)

lemma captured_body:
  assumes "capture_api_errors written rid (Some (msg, deadline)) = Some (status, body, i)" "msg \<noteq> ''EOF''"
  shows "he_detail body = msg \<and> he_hint body \<noteq> [] \<and> he_code body = itoa status \<and> i = rid"
  using assms by (auto simp: capture_api_errors_def api_abort_def new_http_error_def new_api_error_def Let_def split: if_splits)

section \<open>Errors of Protocube\<close>

text \<open>The error of a remote answer; its response is \<open>None\<close> when the error was decoded rather than received.\<close>

definition remote_error_text :: "int option \<Rightarrow> request_error \<Rightarrow> string" where
  "remote_error_text response re =
     (let c = (case response of None \<Rightarrow> 0 | Some s \<Rightarrow> s);
          head = ''Error response from Remote: '' @ re_code re @ '' '' @ re_status re @ '': '' @ re_detail re
      in if re_hint re \<noteq> [] then head @ '' (hint: '' @ re_hint re @ '') (HTTP/'' @ itoa c @ '')''
         else head @ '' (HTTP/'' @ itoa c @ '')'')"

definition remote_status_code :: "int option \<Rightarrow> int go" where
  "remote_status_code response = (case response of None \<Rightarrow> Panic | Some s \<Rightarrow> Ret s)"

text \<open>An error in a chain that may hold one of Protocube.\<close>

datatype remote_chain = RemoteLink "int option" request_error | RemoteWrap string remote_chain | RemoteOther string

fun as_request_error :: "remote_chain option \<Rightarrow> (int option \<times> request_error) option" where
  "as_request_error None = None"
| "as_request_error (Some (RemoteLink r e)) = Some (r, e)"
| "as_request_error (Some (RemoteWrap m e)) = as_request_error (Some e)"
| "as_request_error (Some (RemoteOther m)) = None"

fun is_request_error :: "remote_chain option \<Rightarrow> bool" where
  "is_request_error None = False"
| "is_request_error (Some (RemoteLink r e)) = True"
| "is_request_error (Some (RemoteWrap m e)) = is_request_error (Some e)"
| "is_request_error (Some (RemoteOther m)) = False"

lemma request_error_found: "is_request_error e \<longleftrightarrow> as_request_error e \<noteq> None"
  by (induction e rule: as_request_error.induct) simp_all

text \<open>The text of an error guards against a missing response, the status does not.\<close>

lemma itoa_zero: "itoa 0 = ''0''"
  by code_simp

lemma status_without_response:
  "remote_status_code None = Panic" "\<exists>p. remote_error_text None re = p @ ''(HTTP/0)''"
  by (simp_all add: remote_status_code_def remote_error_text_def Let_def itoa_zero)

section \<open>Errors of Docker\<close>

text \<open>
  \<^verbatim>\<open>parseErrorFromResponse\<close>: \<open>newer\<close> compares the version of the client with 1.23, \<open>message\<close> decodes a body
  or gives the text of an error. \<open>None\<close> is no error.
\<close>

definition parse_docker_error ::
  "(string \<Rightarrow> bool) \<Rightarrow> (string \<Rightarrow> string + string) \<Rightarrow> string \<Rightarrow> int \<Rightarrow> string \<Rightarrow> string \<Rightarrow> string option" where
  "parse_docker_error newer message version status content_type body =
     (if 200 \<le> status \<and> status < 400 then None
      else if (version = [] \<or> newer version) \<and> content_type = ''application/json'' then
        (case message body of Inl e \<Rightarrow> Some e | Inr m \<Rightarrow> Some (''Error response from daemon: '' @ trim_space m))
      else Some (''Error response from daemon: '' @ trim_space body))"

text \<open>
  \<^verbatim>\<open>ContainerInspect\<close>: the library's own unless the faster one is configured, which asks, reads the whole answer,
  looks at its status and decodes it. \<open>sent\<close> is the answer with its header and body, or
  an error, with the status if there was one.
\<close>

datatype 'c inspect_answer = Inspected 'c | InspectFailed int string | InspectUnknown string | InspectUnreadable

definition container_inspect ::
  "bool \<Rightarrow> 'c inspect_answer \<Rightarrow> (string \<times> int option + int \<times> string \<times> string option) \<Rightarrow> (string \<Rightarrow> bool) \<Rightarrow> (string \<Rightarrow> string + string) \<Rightarrow> string \<Rightarrow>
     (string \<Rightarrow> 'c option) \<Rightarrow> 'c inspect_answer" where
  "container_inspect fast library sent newer message version decode =
     (if \<not> fast then library
      else case sent of
          Inl (e, None) \<Rightarrow> InspectUnknown e
        | Inl (e, Some status) \<Rightarrow> InspectFailed status e
        | Inr (status, content_type, None) \<Rightarrow> InspectUnreadable
        | Inr (status, content_type, Some body) \<Rightarrow>
            (case parse_docker_error newer message version status content_type body of
               Some e \<Rightarrow> InspectFailed status e
             | None \<Rightarrow> (case decode body of None \<Rightarrow> InspectUnreadable | Some c \<Rightarrow> Inspected c)))"

text \<open>A container is taken from an answer of success or of redirection alone, and a failure keeps its status.\<close>

lemma inspected_success:
  "container_inspect True library sent newer message version decode = Inspected c \<longleftrightarrow>
    (\<exists>status t body. sent = Inr (status, t, Some body) \<and> 200 \<le> status \<and> status < 400 \<and> decode body = Some c)"
  by (auto simp: container_inspect_def parse_docker_error_def split: sum.splits option.splits prod.splits if_splits)

lemma inspect_failure_status:
  "container_inspect True library (Inr (status, t, Some body)) newer message version decode = InspectFailed s e \<longleftrightarrow>
    s = status \<and> \<not> (200 \<le> status \<and> status < 400) \<and> parse_docker_error newer message version status t body = Some e"
  by (auto simp: container_inspect_def parse_docker_error_def split: option.splits if_splits)

end
