(* ===== verification/Spec2Isabelle.thy ===== *)
theory Spec2Isabelle
  imports
    Daemon_Mounts
    Server_Copies
    Daemon_Overlay
    Control_Servers
    Server_Sync
    Key_Store
    Daemon_Power
    Install_Lock
    Disk_Quota
    Daemon_Boot
    Install_Run
    Sandbox_FS
    Docker_Container
    Http_Access
    Config_Files
    Slime_Packs
    Volume_Perms
    Console_Stream
    Key_Commands
    Volume_Archives
    Boot_Config
    Relay_Requests
    Server_Events
    Error_Kinds
begin

text \<open>
  A model of SLS, a system that runs game servers on demand: \<^emph>\<open>Protocube\<close> (directory
  \<^verbatim>\<open>src/protocube\<close>) keeps the blueprints, the software definitions, the nodes and the
  servers, and the \<^emph>\<open>daemon\<close> on each node (directory \<^verbatim>\<open>src/daemon\<close>) runs the servers in
  containers.

  \<^bold>\<open>How the parts interact.\<close> A node registers with Protocube and offers ranges of ports. A request
  for a server names a blueprint; Protocube picks a node with its balancer, allocates a port from
  the node's allocator, builds the server's configuration from the blueprint, its software and the
  overrides of the request, and sends it to the daemon. The daemon checks the volumes, prepares the
  copies, mounts and overlays and starts the container. Nodes that stop
  sending heartbeats are disconnected and their servers detached until the node returns.

  \<^bold>\<open>Theories.\<close>
  \<^item> \<open>SLS_Prelude\<close>: Go's panics, maps and 64-bit integers. A Go map is an association list whose
    order is the order of one iteration, so a statement about every list is one about every
    iteration order.
  \<^item> \<open>Go_Strings\<close>, \<open>Go_Path\<close>, \<open>Go_Values\<close>: the parts of Go's \<^verbatim>\<open>strings\<close>, \<^verbatim>\<open>strconv\<close> and
    \<^verbatim>\<open>path/filepath\<close> the sources use, \<^verbatim>\<open>WithinPath\<close> of the daemon, dynamically typed values, and
    the resource limits (\<^verbatim>\<open>environment/helpers.go\<close>).
  \<^item> \<open>Balancer\<close>: the round robin and the provider that swaps balancers (\<^verbatim>\<open>protocube/balancer\<close>), with
    the interface as the locale \<open>balancer\<close>.
  \<^item> \<open>Allocator\<close>: the port allocator of a node (\<^verbatim>\<open>protocube/node/allocator\<close>), with the locale
    \<open>port_pool\<close>.
  \<^item> \<open>Software\<close>, \<open>Software_Version\<close>, \<open>Registries\<close>: software definitions, their refresh, versions and
    constraints, and the registry (\<^verbatim>\<open>protocube/software\<close>), with the locale \<open>registry\<close>.
  \<^item> \<open>Blueprint\<close>: decoding, validating, loading and searching blueprints (\<^verbatim>\<open>protocube/blueprint\<close>).
  \<^item> \<open>Server_Config\<close>: building the configuration of a server (\<^verbatim>\<open>protocube/server/configuration.go\<close>,
    \<^verbatim>\<open>config_parser.go\<close>, \<^verbatim>\<open>protocube/parser\<close>) and the online matcher on both sides.
  \<^item> \<open>Node_Client\<close>: Protocube's client of the daemons and its error answers (\<^verbatim>\<open>protocube/client\<close>,
    \<^verbatim>\<open>httperror\<close>).
  \<^item> \<open>Control_Plane\<close>: the state of Protocube (nodes, balancer, allocators, servers, database) and the
    operations of \<^verbatim>\<open>protocube/node\<close>, \<^verbatim>\<open>protocube/server/manager.go\<close>, \<^verbatim>\<open>server.go\<close> and the handlers
    that change it. \<open>Control_Invariant\<close> and \<open>Control_Servers\<close> hold its invariant and properties.
  \<^item> \<open>Server_Sync\<close>: the pages in which Protocube lists servers and blueprints, and the daemon's client
    that fetches them and registers the node (\<^verbatim>\<open>daemon/remote\<close>).
  \<^item> \<open>Key_Store\<close>: the API keys, their rows and their cache (\<^verbatim>\<open>protocube/auth\<close>).
  \<^item> \<open>Daemon_Console\<close>: the lock, the rate limiter, the throttle and the sinks of a server's console
    (\<^verbatim>\<open>daemon/system\<close>, \<^verbatim>\<open>daemon/server/console.go\<close>).
  \<^item> \<open>Daemon_Power\<close>: the power actions, the Docker environment and the listeners of its states
    (\<^verbatim>\<open>daemon/server/power.go\<close>, \<^verbatim>\<open>server.go\<close>, \<^verbatim>\<open>daemon/environment/docker/power.go\<close>).
  \<^item> \<open>Install_Lock\<close>: the lock under which servers install a shared base, as interleaved steps
    (\<^verbatim>\<open>daemon/server/install_lock.go\<close>).
  \<^item> \<open>Daemon_Boot\<close>: the daemon's collection of servers, the file in which it keeps their states, and what
    it does with them and their containers when it boots (\<^verbatim>\<open>daemon/server/manager.go\<close>).
  \<^item> \<open>Install_Run\<close>: an installation from its request to its report, with the warm-up and its retries, the
    containers it creates, its phases and its logs (\<^verbatim>\<open>daemon/server/install.go\<close>,
    \<^verbatim>\<open>install_state.go\<close>, \<^verbatim>\<open>warmup.go\<close>).
  \<^item> \<open>Unix_Tree\<close>: a tree of files with links and the system calls on it, as POSIX and the Linux manual
    describe them. \<open>Sandbox_FS\<close>: the sandboxed file system over these calls
    (\<^verbatim>\<open>daemon/internal/ufs/fs_unix.go\<close>, \<^verbatim>\<open>mkdir_unix.go\<close>, \<^verbatim>\<open>removeall_unix.go\<close>).
  \<^item> \<open>Disk_Quota\<close>: the disk usage of a volume and the operations accounted for
    (\<^verbatim>\<open>daemon/internal/ufs/fs_quota.go\<close>, \<^verbatim>\<open>daemon/server/filesystem\<close>).
  \<^item> \<open>Daemon_Mounts\<close>: which directories of the host a server is shown, and between which paths files are
    copied (\<^verbatim>\<open>daemon/server/manager.go\<close>, \<^verbatim>\<open>mounts.go\<close>, \<^verbatim>\<open>copy.go\<close>). \<open>Server_Copies\<close>: the copying itself, over
    \<open>Unix_Tree\<close> (\<^verbatim>\<open>copy.go\<close>). \<open>Daemon_Overlay\<close>: the overlay volumes
    (\<^verbatim>\<open>daemon/internal/overlay\<close>, \<^verbatim>\<open>filesystem/overlay.go\<close>).
  \<^item> \<open>Volume_Perms\<close>: the walks that change owners and modes, the walk of the sandboxed file system, and the
    listing of a directory (\<^verbatim>\<open>filesystem.go\<close>, \<^verbatim>\<open>daemon/internal/ufs/walk_unix.go\<close>).
  \<^item> \<open>Docker_Container\<close>: the environment, ports, limits, mounts and labels of a container, and the pull of
    its image (\<^verbatim>\<open>daemon/environment\<close>).
  \<^item> \<open>Http_Access\<close>: the routes of both programs with their chains of handlers, keys and tokens, and the
    limiter of requests (\<^verbatim>\<open>protocube/api/router\<close>, \<^verbatim>\<open>daemon/api\<close>).
  \<^item> \<open>Config_Files\<close>: the replacement of values in the configuration files of a server, with the parsers of
    their formats (\<^verbatim>\<open>daemon/parser\<close>, \<^verbatim>\<open>daemon/server/config_parser.go\<close>).
  \<^item> \<open>Console_Stream\<close>: how the output of a container becomes lines (\<^verbatim>\<open>daemon/system/utils.go\<close>).
  \<^item> \<open>Key_Commands\<close>: the commands that make and list keys (\<^verbatim>\<open>protocube/cmd/api_key_commands.go\<close>).
  \<^item> \<open>Volume_Archives\<close>: extracting, decompressing and packing in a volume, the errors of the file system, and
    the readers and writers that count (\<^verbatim>\<open>filesystem/compress.go\<close>, \<^verbatim>\<open>archive.go\<close>, \<^verbatim>\<open>errors.go\<close>,
    \<^verbatim>\<open>daemon/internal/ufs/quota_writer.go\<close>).
  \<^item> \<open>Boot_Config\<close>: the defaults and the loading of the three configurations, the user and the directories of
    the daemon, and the download of the default software (\<^verbatim>\<open>daemon/config\<close>, \<^verbatim>\<open>protocube/config\<close>,
    \<^verbatim>\<open>slimepacks/config\<close>).
  \<^item> \<open>Relay_Requests\<close>: the requests of both clients, the routes they meet, the handlers of Protocube that relay
    a request to the daemon of a server, and the pages of a log (\<^verbatim>\<open>protocube/client\<close>, \<^verbatim>\<open>daemon/remote\<close>,
    \<^verbatim>\<open>protocube/api/router\<close>, \<^verbatim>\<open>daemon/api/router\<close>).
  \<^item> \<open>Server_Events\<close>: the bus of events and the web socket that hands them on, the statistics of a container, and
    the listener of a server with its limiter of disk space (\<^verbatim>\<open>protocube/events\<close>,
    \<^verbatim>\<open>daemon/environment/docker/stats.go\<close>, \<^verbatim>\<open>daemon/server/listeners.go\<close>, \<^verbatim>\<open>resources.go\<close>).
  \<^item> \<open>Error_Kinds\<close>: the errors of system calls, of the API, of Protocube and of Docker
    (\<^verbatim>\<open>daemon/internal/ufs/error.go\<close>, \<^verbatim>\<open>request_error.go\<close>, \<^verbatim>\<open>daemon/remote/errors.go\<close>,
    \<^verbatim>\<open>daemon/environment/docker/api.go\<close>).
  \<^item> \<open>Slime_Packs\<close>: the plugin that converts and serves resource packs (\<^verbatim>\<open>slimepacks\<close>).

  \<^bold>\<open>What the lemmas show.\<close> Each component theory states the invariant of its state, that every
  operation keeps it, the functional behaviour of each operation on each branch, and a refinement
  or equivalence where there is an abstract specification. \<open>Control_Servers\<close> collects the handlers in
  a step relation and shows that every reachable state is consistent.

  \<^bold>\<open>Bounds and loops.\<close> Loops over lists are structural recursion. The scan for a free port is a
  \<open>partial_function\<close>, because it does not end on a range up to the largest integer, and
  \<open>new_allocation_complete\<close> shows that it returns on ranges below; so is the walk of \<^verbatim>\<open>walkTo\<close>, which
  returns on absolute paths. A path follows at most forty links, as in Linux, and removing a tree
  goes to the depth of its deepest entry, which \<open>remove_all_complete\<close> shows to be enough. A copy goes as
  deep as the kernel lets paths go, which is an argument, because copying a directory into itself ends only
  there; \<open>copies_confined\<close> holds for every depth.
  Integers are kept in the range of 64 bits and wrap where the code can leave it.

  \<^bold>\<open>Parameters.\<close> Decoding YAML and JSON, the libraries of XML, INI and properties documents, compiling
  regular expressions, the network, Docker, the database, the service that validates keys, the order in
  which the web framework runs its handlers, and the back-off package are arguments of the definitions that
  use them. So is the product of a limit and a multiplier in floating point.

  \<^bold>\<open>Conditions.\<close> Where a theorem holds only under a condition on the outside, the text before it names the
  condition, and where it can be broken a lemma shows what happens then: links in the directory of a server
  (\<open>copy_follows_link_out\<close>, \<open>chmod_escapes\<close>), the folder of a server (\<open>server_folder_escapes\<close>), sizes near the
  largest integer (\<open>overflowing_size_fits\<close>, \<open>forged_size_escapes\<close>), failing removals
  (\<open>failed_unlink_gives_back\<close>), installations that write nothing (\<open>skipped_install_repeats\<close>), and lookups of
  keys that overlap with a revocation (\<open>interleaved_lookup_undoes_revocation\<close>).

  \<^bold>\<open>Not modelled.\<close> The Docker client, the connections of the web sockets and the server-sent events,
  logging and telemetry, and the commands that start the programs. A handler of
  \<open>Control_Plane\<close> is one step, and after a panic the state is the one before it; interleavings
  are modelled for the power actions of a server and the listeners of its states, and for the installation of a
  base. The operations on keys are one step each.
\<close>

end
